(* ===== verification/Prelude.thy ===== *)
theory Prelude
  imports Complex_Main "HOL-Library.Word" "HOL-Library.Char_ord" "HOL-Library.List_Lexorder"
    "HOL-Library.Product_Lexorder" "HOL-Library.Multiset" "HOL-Library.Sublist"
begin

text \<open>
  Shared ground of the development: machine integers, C++ exceptions as values, the model of
  \<open>std::map\<close> (a strictly sorted association list, with the interface the other theories use
  stated as a locale), generic facts about lists and options, and the collections of simp rules.

  \<^item> \<open>std::string\<close> is \<^typ>\<open>string\<close>; its comparison operators are the lexicographic order on
    unsigned bytes, which is the order of \<open>List_Lexorder\<close> over \<open>Char_ord\<close>.
  \<^item> \<open>uint64_t\<close> and \<open>size_t\<close> are \<open>64 word\<close> where the code does arithmetic on them.
  \<^item> an operation that can throw returns a value of \<open>cpp_exn + 'a\<close>.
\<close>

named_theorems om_simps "laws of the ordered map"
named_theorems status_simps "values of Status operations"

type_synonym u64 = "64 word"
type_synonym u32 = "32 word"
type_synonym u8 = "8 word"

section \<open>Exceptions as values\<close>

datatype cpp_exn =
    invalid_argument
  | out_of_range
  | runtime_error string
  | bad_get
  | aborted string
  | undefined_behaviour string

type_synonym 'a throwing = "cpp_exn + 'a"

primrec exn_bind :: "'e + 'a \<Rightarrow> ('a \<Rightarrow> 'e + 'b) \<Rightarrow> 'e + 'b" where
  "exn_bind (Inl e) f = Inl e"
| "exn_bind (Inr a) f = f a"

lemma exn_bind_Inr_iff: "exn_bind x f = Inr b \<longleftrightarrow> (\<exists>a. x = Inr a \<and> f a = Inr b)"
  by (cases x) auto

lemma exn_bind_cong [fundef_cong]:
  "x = y \<Longrightarrow> (\<And>a. y = Inr a \<Longrightarrow> f a = g a) \<Longrightarrow> exn_bind x f = exn_bind y g"
  by (cases y) auto

section \<open>The model of std::map\<close>

type_synonym ('k, 'v) omap = "('k \<times> 'v) list"

text \<open>The state of a map is its in-order traversal: keys strictly increasing.\<close>

definition om_wf :: "('k::linorder, 'v) omap \<Rightarrow> bool" where
  "om_wf m \<longleftrightarrow> sorted_wrt (<) (map fst m)"

definition om_get :: "('k, 'v) omap \<Rightarrow> 'k \<Rightarrow> 'v option" where
  "om_get m k = map_of m k"

text \<open>\<open>m[k] = v\<close>: overwrite, or insert at the key's place in the order.\<close>

fun om_set :: "'k::linorder \<Rightarrow> 'v \<Rightarrow> ('k, 'v) omap \<Rightarrow> ('k, 'v) omap" where
  "om_set k v [] = [(k, v)]"
| "om_set k v ((k', v') # m) =
     (if k < k' then (k, v) # (k', v') # m
      else if k = k' then (k, v) # m
      else (k', v') # om_set k v m)"

fun om_del :: "'k \<Rightarrow> ('k, 'v) omap \<Rightarrow> ('k, 'v) omap" where
  "om_del k [] = []"
| "om_del k ((k', v') # m) = (if k = k' then m else (k', v') # om_del k m)"

definition om_keys :: "('k, 'v) omap \<Rightarrow> 'k list" where
  "om_keys m = map fst m"

definition om_has :: "('k, 'v) omap \<Rightarrow> 'k \<Rightarrow> bool" where
  "om_has m k \<longleftrightarrow> om_get m k \<noteq> None"

lemma om_wf_Nil [simp, intro]: "om_wf []"
  by (simp add: om_wf_def)

lemma om_wf_Cons: "om_wf ((k, v) # m) \<longleftrightarrow> (\<forall>k' \<in> fst ` set m. k < k') \<and> om_wf m"
  by (auto simp: om_wf_def)

lemma om_set_keys_set: "fst ` set (om_set k v m) = insert k (fst ` set m)"
  by (induction k v m rule: om_set.induct) auto

lemma om_del_keys_subset: "fst ` set (om_del k m) \<subseteq> fst ` set m"
  by (induction k m rule: om_del.induct) auto

lemma om_wf_set [simp, intro]: "om_wf m \<Longrightarrow> om_wf (om_set k v m)"
proof (induction k v m rule: om_set.induct)
  case (1 k v)
  show ?case by (simp add: om_wf_Cons)
next
  case (2 k v k' v' m)
  then show ?case by (fastforce simp: om_wf_Cons om_set_keys_set)
qed

lemma om_wf_del [simp, intro]: "om_wf m \<Longrightarrow> om_wf (om_del k m)"
proof (induction k m rule: om_del.induct)
  case (2 k k' v' m)
  then show ?case using om_del_keys_subset [of k m] by (fastforce simp: om_wf_Cons)
qed simp

lemma om_get_Nil [simp]: "om_get [] k = None"
  by (simp add: om_get_def)

lemma om_get_Cons: "om_get ((k', v) # m) k = (if k = k' then Some v else om_get m k)"
  by (simp add: om_get_def)

lemma om_get_None_iff: "om_get m k = None \<longleftrightarrow> k \<notin> fst ` set m"
  by (simp add: om_get_def map_of_eq_None_iff)

lemma om_get_set [simp, om_simps]:
  "om_get (om_set k v m) k' = (if k' = k then Some v else om_get m k')"
  by (induction k v m rule: om_set.induct) (auto simp: om_get_def)

lemma om_get_del [simp, om_simps]:
  assumes "om_wf m"
  shows "om_get (om_del k m) k' = (if k' = k then None else om_get m k')"
  using assms
proof (induction k m rule: om_del.induct)
  case (2 k k1 v1 m)
  then have "k = k1 \<Longrightarrow> om_get m k = None" by (auto simp: om_wf_Cons om_get_None_iff)
  with 2 show ?case by (auto simp: om_get_Cons om_wf_Cons)
qed simp

lemma om_keys_iff: "k \<in> set (om_keys m) \<longleftrightarrow> om_get m k \<noteq> None"
  by (simp add: om_keys_def om_get_None_iff)

lemma om_keys_sorted: "om_wf m \<Longrightarrow> sorted_wrt (<) (om_keys m)"
  by (simp add: om_wf_def om_keys_def)

lemma om_keys_distinct: "om_wf m \<Longrightarrow> distinct (om_keys m)"
  by (auto simp: om_keys_def om_wf_def strict_sorted_iff)

lemma om_get_mem: "om_wf m \<Longrightarrow> om_get m k = Some v \<longleftrightarrow> (k, v) \<in> set m"
  using om_keys_distinct [of m] by (auto simp: om_get_def om_keys_def)

text \<open>Two well-formed maps with the same bindings are the same traversal.\<close>

lemma om_eqI:
  assumes "om_wf m" "om_wf m'" "\<And>k. om_get m k = om_get m' k"
  shows "m = m'"
  using assms
proof (induction m arbitrary: m')
  case Nil
  then show ?case
    by (cases m') (auto simp: om_get_Cons dest: meta_spec [of _ "fst (hd m')"] split: if_splits)
next
  case (Cons p m)
  obtain k v where p: "p = (k, v)" by (cases p)
  have k: "om_get m' k = Some v" using Cons.prems(3) [of k] by (simp add: p om_get_Cons)
  then obtain k1 v1 m1 where m': "m' = (k1, v1) # m1"
    by (cases m') auto
  have "om_get ((k, v) # m) k1 = Some v1"
    using Cons.prems(3) [of k1] by (simp add: p m' om_get_Cons)
  then have "k1 = k \<or> k < k1"
    using Cons.prems(1)
    by (fastforce simp: p om_get_Cons om_wf_Cons om_get_def split: if_splits dest: map_of_SomeD)
  moreover have "k = k1 \<or> k1 < k"
    using k Cons.prems(2)
    by (fastforce simp: m' om_get_Cons om_wf_Cons om_get_def split: if_splits dest: map_of_SomeD)
  ultimately have [simp]: "k1 = k" by auto
  have [simp]: "v1 = v" using k by (simp add: m' om_get_Cons)
  have "om_get m k' = om_get m1 k'" for k'
  proof (cases "k' = k")
    case True
    have "k \<notin> fst ` set m" "k \<notin> fst ` set m1"
      using Cons.prems(1,2) by (auto simp: p m' om_wf_Cons)
    then have "om_get m k = None" "om_get m1 k = None" by (auto simp: om_get_None_iff)
    with True show ?thesis by simp
  next
    case False
    then show ?thesis using Cons.prems(3) [of k'] by (simp add: p m' om_get_Cons)
  qed
  then have "m = m1"
    using Cons.prems by (intro Cons.IH) (auto simp: p m' om_wf_Cons)
  then show ?case by (simp add: p m')
qed

lemma om_wf_filter: "om_wf m \<Longrightarrow> om_wf (filter P m)"
  by (simp add: om_wf_def sorted_wrt_map sorted_wrt_filter)

lemma option_eqI: "(\<And>v. x = Some v \<longleftrightarrow> y = Some v) \<Longrightarrow> x = y"
  by (cases x; cases y) auto

lemma om_set_last: "(\<And>x. x \<in> set m \<Longrightarrow> fst x < k) \<Longrightarrow> om_set k v m = m @ [(k, v)]"
  by (induction k v m rule: om_set.induct) (auto dest: order.strict_trans, force+)

text \<open>
  The interface the components rely on. What a client proves about a sequence of updates rests on
  these laws only.
\<close>

locale ordered_map =
  fixes empty :: "'m"
    and get :: "'m \<Rightarrow> 'k::linorder \<Rightarrow> 'v option"
    and upd :: "'k \<Rightarrow> 'v \<Rightarrow> 'm \<Rightarrow> 'm"
    and del :: "'k \<Rightarrow> 'm \<Rightarrow> 'm"
    and keys :: "'m \<Rightarrow> 'k list"
    and invar :: "'m \<Rightarrow> bool"
  assumes get_empty: "get empty k = None"
    and get_upd: "invar m \<Longrightarrow> get (upd k v m) k' = (if k' = k then Some v else get m k')"
    and get_del: "invar m \<Longrightarrow> get (del k m) k' = (if k' = k then None else get m k')"
    and keys_get: "invar m \<Longrightarrow> k \<in> set (keys m) \<longleftrightarrow> get m k \<noteq> None"
    and keys_sorted: "invar m \<Longrightarrow> sorted_wrt (<) (keys m)"
    and invar_empty: "invar empty"
    and invar_upd: "invar m \<Longrightarrow> invar (upd k v m)"
    and invar_del: "invar m \<Longrightarrow> invar (del k m)"
begin

lemma invar_fold_upd: "invar m \<Longrightarrow> invar (fold (\<lambda>(k, v). upd k v) kvs m)"
  by (induction kvs arbitrary: m) (auto intro: invar_upd)

lemma get_fold_upd:
  "invar m \<Longrightarrow>
   get (fold (\<lambda>(k, v). upd k v) kvs m) k =
     (case map_of (rev kvs) k of Some v \<Rightarrow> Some v | None \<Rightarrow> get m k)"
proof (induction kvs arbitrary: m)
  case (Cons kv kvs)
  then show ?case
    by (cases kv) (auto simp: invar_upd get_upd map_add_def split: option.splits)
qed simp

lemma invar_fold_del: "invar m \<Longrightarrow> invar (fold del ks m)"
  by (induction ks arbitrary: m) (auto intro: invar_del)

lemma get_fold_del:
  "invar m \<Longrightarrow> get (fold del ks m) k = (if k \<in> set ks then None else get m k)"
  by (induction ks arbitrary: m) (auto simp: invar_del get_del)

lemma keys_distinct: "invar m \<Longrightarrow> distinct (keys m)"
  using keys_sorted strict_sorted_iff by blast

lemma upd_get_same: "invar m \<Longrightarrow> get m k = Some v \<Longrightarrow> get (upd k v m) = get m"
  by (auto simp: get_upd fun_eq_iff)

lemma upd_other: "invar m \<Longrightarrow> k' \<noteq> k \<Longrightarrow> get (upd k v m) k' = get m k'"
  by (simp add: get_upd)

end

interpretation om: ordered_map "[]" om_get om_set om_del om_keys om_wf
  by unfold_locales (auto simp: om_keys_iff om_keys_sorted)

text \<open>Inserting the pairs of a map into an empty one rebuilds it.\<close>

lemma map_of_rev_om: "om_wf m \<Longrightarrow> map_of (rev m) k = om_get m k"
proof -
  assume "om_wf m"
  then have "map_of (rev m) = map_of m"
    using om_keys_distinct [of m] by (subst map_of_inject_set) (simp_all add: om_keys_def rev_map [symmetric])
  then show ?thesis by (simp add: om_get_def)
qed

lemma fold_om_set_self: "om_wf m \<Longrightarrow> fold (\<lambda>(k, v). om_set k v) m [] = m"
  by (rule om_eqI) (auto simp: om.get_fold_upd om.invar_fold_upd map_of_rev_om split: option.splits)

section \<open>Facts about lists\<close>

lemma insort_key_mset: "mset (insort x xs) = add_mset x (mset xs)"
  by (induction xs) auto

lemma remove1_sorted: "sorted xs \<Longrightarrow> sorted (remove1 x xs)"
  by (induction xs) (auto dest: in_set_remove1 [THEN iffD1] notin_set_remove1 intro: order_trans)

section \<open>Finding text\<close>

text \<open>\<open>std::string::find\<close>: the first position of the pattern.\<close>

primrec str_find :: "string \<Rightarrow> string \<Rightarrow> nat option" where
  "str_find pat [] = (if pat = [] then Some 0 else None)"
| "str_find pat (c # s) = (if prefix pat (c # s) then Some 0 else map_option Suc (str_find pat s))"

end
