(* ===== verification/Numerals.thy ===== *)
theory Numerals
  imports Prelude
begin

text \<open>
  The decimal conversions of the C++ standard library that the code uses: \<open>std::to_string\<close> on
  integers, and the \<open>std::stoi\<close> family (leading white space, sign, base prefix, digits, and the two
  exceptions it throws). The parse of a printed number is the number.
\<close>

section \<open>Characters\<close>

definition isspace :: "char \<Rightarrow> bool" where
  "isspace c \<longleftrightarrow> c \<in> {CHR '' '', CHR 0x09, CHR 0x0A, CHR 0x0B, CHR 0x0C, CHR 0x0D}"

definition tolower :: "char \<Rightarrow> char" where
  "tolower c = (let n = of_char c :: nat in if 65 \<le> n \<and> n \<le> 90 then char_of (n + 32) else c)"

definition digit_char :: "nat \<Rightarrow> char" where
  "digit_char d = char_of (48 + d)"

text \<open>The value of a digit in any base up to 36, as \<open>strtol\<close> reads it.\<close>

definition char_digit :: "char \<Rightarrow> nat option" where
  "char_digit c =
     (let n = of_char c :: nat in
      if 48 \<le> n \<and> n \<le> 57 then Some (n - 48)
      else if 97 \<le> n \<and> n \<le> 122 then Some (n - 87)
      else if 65 \<le> n \<and> n \<le> 90 then Some (n - 55)
      else None)"

definition digit_in_base :: "nat \<Rightarrow> char \<Rightarrow> nat option" where
  "digit_in_base b c = (case char_digit c of None \<Rightarrow> None | Some d \<Rightarrow> if d < b then Some d else None)"

lemma of_char_digit_char: "d < 10 \<Longrightarrow> of_char (digit_char d) = (48 + d :: nat)"
  by (simp add: digit_char_def of_char_of)

lemma digit_in_base_digit_char [simp]: "d < 10 \<Longrightarrow> digit_in_base 10 (digit_char d) = Some d"
  by (simp add: digit_in_base_def char_digit_def of_char_digit_char)

lemma digit_in_base_less: "digit_in_base b c = Some d \<Longrightarrow> d < b"
  by (auto simp: digit_in_base_def split: option.splits if_splits)

lemma isspace_of_char:
  "isspace c \<Longrightarrow> of_char c = (32::nat) \<or> of_char c = (9::nat) \<or> of_char c = (10::nat) \<or>
     of_char c = (11::nat) \<or> of_char c = (12::nat) \<or> of_char c = (13::nat)"
  by (auto simp: isspace_def)

lemma digit_char_not_space [simp]: "d < 10 \<Longrightarrow> \<not> isspace (digit_char d)"
  using isspace_of_char [of "digit_char d"] by (auto simp: of_char_digit_char)

lemma digit_char_neq: "d < 10 \<Longrightarrow> of_char c < (48::nat) \<Longrightarrow> digit_char d \<noteq> c"
  using of_char_digit_char [of d] by auto

lemma digit_char_not_sign [simp]:
  "d < 10 \<Longrightarrow> digit_char d \<noteq> CHR ''-''" "d < 10 \<Longrightarrow> digit_char d \<noteq> CHR ''+''"
  "d < 10 \<Longrightarrow> digit_char d \<noteq> CHR '',''"
  by (rule digit_char_neq, simp, simp)+

section \<open>Printing\<close>

fun nat_digits :: "nat \<Rightarrow> string" where
  "nat_digits n = (if n < 10 then [digit_char n] else nat_digits (n div 10) @ [digit_char (n mod 10)])"

declare nat_digits.simps [simp del]

definition to_string_nat :: "nat \<Rightarrow> string" where
  "to_string_nat n = nat_digits n"

definition to_string_int :: "int \<Rightarrow> string" where
  "to_string_int i = (if i < 0 then CHR ''-'' # nat_digits (nat (- i)) else nat_digits (nat i))"

definition to_string_u64 :: "u64 \<Rightarrow> string" where
  "to_string_u64 w = nat_digits (unat w)"

lemma nat_digits_nonempty [simp]: "nat_digits n \<noteq> []"
  by (subst nat_digits.simps) simp

lemma nat_digits_chars: "c \<in> set (nat_digits n) \<Longrightarrow> \<exists>d < 10. c = digit_char d"
proof (induction n rule: nat_digits.induct)
  case (1 n)
  then show ?case
    by (cases "n < 10") (auto simp: nat_digits.simps [of n] intro: exI [of _ "n mod 10"])
qed

section \<open>Parsing\<close>

fun digits_value :: "nat \<Rightarrow> string \<Rightarrow> nat \<Rightarrow> nat" where
  "digits_value b [] acc = acc"
| "digits_value b (c # cs) acc =
     (case digit_in_base b c of None \<Rightarrow> acc | Some d \<Rightarrow> digits_value b cs (acc * b + d))"

definition has_digit :: "nat \<Rightarrow> string \<Rightarrow> bool" where
  "has_digit b s = (case s of [] \<Rightarrow> False | c # _ \<Rightarrow> digit_in_base b c \<noteq> None)"

text \<open>The prefix rules of \<open>strtol\<close>: \<open>0x\<close> in base 16 and 0, a leading 0 in base 0.\<close>

definition strip_prefix :: "nat \<Rightarrow> string \<Rightarrow> nat \<times> string" where
  "strip_prefix b s =
     (let hex = (case s of c0 # c1 # rest \<Rightarrow>
                   c0 = CHR ''0'' \<and> (c1 = CHR ''x'' \<or> c1 = CHR ''X'') \<and> has_digit 16 rest
                 | _ \<Rightarrow> False)
      in if (b = 16 \<or> b = 0) \<and> hex then (16, drop 2 s)
         else if b = 0 then (if s \<noteq> [] \<and> hd s = CHR ''0'' then (8, s) else (10, s))
         else (b, s))"

definition strip_sign :: "string \<Rightarrow> bool \<times> string" where
  "strip_sign s =
     (case s of
        [] \<Rightarrow> (False, [])
      | c # rest \<Rightarrow>
          if c = CHR ''-'' then (True, rest)
          else if c = CHR ''+'' then (False, rest)
          else (False, s))"

text \<open>Sign and magnitude of the longest numeral at the front; \<open>None\<close> when there is none.\<close>

definition strto_raw :: "nat \<Rightarrow> string \<Rightarrow> (bool \<times> nat) option" where
  "strto_raw b s =
     (let (neg, s1) = strip_sign (dropWhile isspace s);
          (b', s2) = strip_prefix b s1
      in if has_digit b' s2 then Some (neg, digits_value b' s2 0) else None)"

definition stosigned :: "nat \<Rightarrow> nat \<Rightarrow> string \<Rightarrow> int throwing" where
  "stosigned w b s =
     (case strto_raw b s of
        None \<Rightarrow> Inl invalid_argument
      | Some (neg, m) \<Rightarrow>
          let v = (if neg then - int m else int m)
          in if - (2 ^ (w - 1)) \<le> v \<and> v < 2 ^ (w - 1) then Inr v else Inl out_of_range)"

text \<open>\<open>std::stoi\<close> checks the range of \<open>int\<close>, \<open>std::stol\<close> and \<open>std::stoll\<close> that of 64 bits.\<close>

definition stoi :: "nat \<Rightarrow> string \<Rightarrow> int throwing" where
  "stoi = stosigned 32"

definition stoll :: "nat \<Rightarrow> string \<Rightarrow> int throwing" where
  "stoll = stosigned 64"

text \<open>\<open>std::stoul\<close> and \<open>std::stoull\<close> negate modulo \<open>2 ^ 64\<close>; only the magnitude is checked.\<close>

definition stoull :: "nat \<Rightarrow> string \<Rightarrow> u64 throwing" where
  "stoull b s =
     (case strto_raw b s of
        None \<Rightarrow> Inl invalid_argument
      | Some (neg, m) \<Rightarrow>
          if m < 2 ^ 64 then Inr (if neg then - of_nat m else of_nat m) else Inl out_of_range)"

section \<open>Round trips\<close>

lemma digits_value_append:
  "(\<forall>c \<in> set xs. digit_in_base b c \<noteq> None) \<Longrightarrow>
   digits_value b (xs @ ys) acc = digits_value b ys (digits_value b xs acc)"
  by (induction b xs acc rule: digits_value.induct) (auto split: option.splits)

lemma nat_digits_all_digits: "\<forall>c \<in> set (nat_digits n). digit_in_base 10 c \<noteq> None"
  by (auto dest: nat_digits_chars)

lemma digits_value_nat_digits:
  "digits_value 10 (nat_digits n) 0 = n"
proof (induction n rule: nat_digits.induct)
  case (1 n)
  show ?case
  proof (cases "n < 10")
    case True
    then show ?thesis by (simp add: nat_digits.simps [of n])
  next
    case False
    have "digits_value 10 (nat_digits (n div 10) @ [digit_char (n mod 10)]) 0 =
      digits_value 10 [digit_char (n mod 10)] (n div 10)"
      using 1 [OF False] by (simp add: digits_value_append nat_digits_all_digits del: digits_value.simps)
    also have "\<dots> = n" by simp
    finally show ?thesis using False by (simp add: nat_digits.simps [of n])
  qed
qed

lemma hd_nat_digits: "\<exists>d cs. nat_digits n = digit_char d # cs \<and> d < 10"
proof -
  obtain c cs where "nat_digits n = c # cs" by (cases "nat_digits n") auto
  moreover from this have "c \<in> set (nat_digits n)" by simp
  ultimately show ?thesis using nat_digits_chars [of c n] by blast
qed

lemma strto_raw_nat_digits: "strto_raw 10 (nat_digits n) = Some (False, n)"
proof -
  obtain d cs where d: "nat_digits n = digit_char d # cs" "d < 10"
    using hd_nat_digits by blast
  have v: "digits_value 10 (digit_char d # cs) 0 = n"
    using digits_value_nat_digits [of n] by (simp only: d(1))
  show ?thesis
    unfolding strto_raw_def d(1) Let_def
    using d(2) v
    by (simp add: strip_sign_def strip_prefix_def has_digit_def del: digits_value.simps)
qed

lemma strto_raw_neg_digits: "strto_raw 10 (CHR ''-'' # nat_digits n) = Some (True, n)"
proof -
  obtain d cs where d: "nat_digits n = digit_char d # cs" "d < 10"
    using hd_nat_digits by blast
  have v: "digits_value 10 (digit_char d # cs) 0 = n"
    using digits_value_nat_digits [of n] by (simp only: d(1))
  show ?thesis
    unfolding strto_raw_def d(1) Let_def
    using d(2) v
    by (simp add: strip_sign_def strip_prefix_def has_digit_def isspace_def del: digits_value.simps)
qed

lemma unat_u64_bound: "unat (w :: u64) < 2 ^ 64"
proof -
  have "unat w < 2 ^ LENGTH(64)" by (rule unsigned_less)
  then show ?thesis by simp
qed

lemma stoull_to_string [simp]: "stoull 10 (to_string_u64 w) = Inr w"
  using unat_u64_bound [of w] by (simp add: stoull_def to_string_u64_def strto_raw_nat_digits)

lemma stosigned_to_string:
  assumes "- (2 ^ (w - 1)) \<le> i" "i < 2 ^ (w - 1)"
  shows "stosigned w 10 (to_string_int i) = Inr i"
  using assms
  by (simp add: stosigned_def to_string_int_def strto_raw_nat_digits strto_raw_neg_digits)

lemma stosigned_range: "stosigned w b s = Inr v \<Longrightarrow> - (2 ^ (w - 1)) \<le> v \<and> v < 2 ^ (w - 1)"
  by (auto simp: stosigned_def Let_def split: option.splits prod.splits if_splits)

lemma to_string_u64_inj: "to_string_u64 v = to_string_u64 w \<longleftrightarrow> v = w"
  using stoull_to_string [of v] stoull_to_string [of w] by (metis sum.inject(2))

end
