(* ===== verification/Results.thy ===== *)
theory Results
  imports Numerals "HOL-Library.AList"
begin

text \<open>
  The result types of \<open>osquery/utils\<close>: \<open>Error\<close> with its chain of underlying errors
  (\<open>error/error.h\<close>), \<open>Expected\<close> with the debug-build bookkeeping that a result was checked
  (\<open>expected/expected.h\<close>), \<open>Status\<close> (\<open>status/status.h\<close>), the conversions of
  \<open>conversions/tryto.h\<close> and the table lookups of \<open>map_take.h\<close>.

  An error code is an enumerator of some enumeration: the enumeration's name and the value. The
  flag \<open>debug\<close> stands for a build without \<open>NDEBUG\<close>: there a failed verification aborts.
\<close>

section \<open>Error\<close>

type_synonym enum_code = "string \<times> int"

datatype ErrorBase =
  Error (errorCode: enum_code) (errorMessage: string) (underlyingError: "ErrorBase option")

definition enum_to_string :: "enum_code \<Rightarrow> string" where
  "enum_to_string c = fst c @ ''['' @ to_string_int (snd c) @ '']''"

definition getNonRecursiveMessage :: "ErrorBase \<Rightarrow> string" where
  "getNonRecursiveMessage e =
     (let full_message = enum_to_string (errorCode e)
      in if length (errorMessage e) > 0 then full_message @ '' ('' @ errorMessage e @ '')''
         else full_message)"

fun error_getMessage :: "ErrorBase \<Rightarrow> string" where
  "error_getMessage (Error c m u) =
     getNonRecursiveMessage (Error c m u) @
     (case u of None \<Rightarrow> [] | Some e \<Rightarrow> '' <- '' @ error_getMessage e)"

definition createError :: "enum_code \<Rightarrow> ErrorBase" where
  "createError c = Error c [] None"

definition createError_underlying :: "enum_code \<Rightarrow> ErrorBase \<Rightarrow> ErrorBase" where
  "createError_underlying c e = Error c [] (Some e)"

definition hasUnderlyingError :: "ErrorBase \<Rightarrow> bool" where
  "hasUnderlyingError e \<longleftrightarrow> underlyingError e \<noteq> None"

definition takeUnderlyingError :: "ErrorBase \<Rightarrow> ErrorBase option \<times> ErrorBase" where
  "takeUnderlyingError e = (underlyingError e, Error (errorCode e) (errorMessage e) None)"

text \<open>\<open>operator<<\<close> on an error: the streamed text is appended to the message.\<close>

definition appendToMessage :: "ErrorBase \<Rightarrow> string \<Rightarrow> ErrorBase" where
  "appendToMessage e t = Error (errorCode e) (errorMessage e @ t) (underlyingError e)"

definition error_eq_code :: "ErrorBase \<Rightarrow> enum_code \<Rightarrow> bool" where
  "error_eq_code e c \<longleftrightarrow> errorCode e = c"

section \<open>Expected\<close>

record 'v Expected =
  object :: "'v + ErrorBase"
  errorChecked :: bool

definition Expected_value :: "'v \<Rightarrow> 'v Expected" where
  "Expected_value v = \<lparr>object = Inl v, errorChecked = False\<rparr>"

definition Expected_error :: "ErrorBase \<Rightarrow> 'v Expected" where
  "Expected_error e = \<lparr>object = Inr e, errorChecked = False\<rparr>"

definition Expected_failure :: "enum_code \<Rightarrow> string \<Rightarrow> 'v Expected" where
  "Expected_failure c m = Expected_error (Error c m None)"

text \<open>Move construction: the source counts as checked from then on.\<close>

definition Expected_move :: "'v Expected \<Rightarrow> 'v Expected \<times> 'v Expected" where
  "Expected_move other = (other, other\<lparr>errorChecked := True\<rparr>)"

definition var_verify :: "bool \<Rightarrow> bool \<Rightarrow> string \<Rightarrow> unit throwing" where
  "var_verify debug v msg = (if debug \<and> \<not> v then Inl (aborted msg) else Inr ())"

definition Expected_assign ::
  "bool \<Rightarrow> bool \<Rightarrow> 'v Expected \<Rightarrow> 'v Expected \<Rightarrow> ('v Expected \<times> 'v Expected) throwing" where
  "Expected_assign debug same this other =
     (if same then Inr (this, other)
      else exn_bind (var_verify debug (errorChecked this) ''Expected was not checked before assigning'')
             (\<lambda>_. Inr (this\<lparr>object := object other, errorChecked := errorChecked other\<rparr>,
                       other\<lparr>errorChecked := True\<rparr>)))"

definition Expected_destroy :: "bool \<Rightarrow> 'v Expected \<Rightarrow> unit throwing" where
  "Expected_destroy debug e =
     var_verify debug (errorChecked e) ''Expected was not checked before destruction''"

definition isError :: "'v Expected \<Rightarrow> bool \<times> 'v Expected" where
  "isError e = (case object e of Inl _ \<Rightarrow> False | Inr _ \<Rightarrow> True, e\<lparr>errorChecked := True\<rparr>)"

definition isValue :: "'v Expected \<Rightarrow> bool \<times> 'v Expected" where
  "isValue e = (let (b, e') = isError e in (\<not> b, e'))"

definition ignoreResult :: "'v Expected \<Rightarrow> 'v Expected" where
  "ignoreResult e = e\<lparr>errorChecked := True\<rparr>"

definition Expected_getError :: "bool \<Rightarrow> 'v Expected \<Rightarrow> ErrorBase throwing" where
  "Expected_getError debug e =
     (case object e of
        Inr err \<Rightarrow> Inr err
      | Inl _ \<Rightarrow> if debug then Inl (aborted ''Do not try to get error from Expected with value'')
                else Inl bad_get)"

definition getErrorCode :: "bool \<Rightarrow> 'v Expected \<Rightarrow> enum_code throwing" where
  "getErrorCode debug e = exn_bind (Expected_getError debug e) (\<lambda>err. Inr (errorCode err))"

definition Expected_get :: "bool \<Rightarrow> 'v Expected \<Rightarrow> 'v throwing" where
  "Expected_get debug e =
     (case object e of
        Inl v \<Rightarrow> Inr v
      | Inr _ \<Rightarrow> if debug then Inl (aborted ''Do not try to get value from Expected with error'')
                else Inl bad_get)"

definition takeOr :: "bool \<Rightarrow> 'v Expected \<Rightarrow> 'v \<Rightarrow> ('v \<times> 'v Expected) throwing" where
  "takeOr debug e defaultValue =
     (let (b, e') = isError e
      in if b then Inr (defaultValue, e')
         else exn_bind (Expected_get debug e') (\<lambda>v. Inr (v, e')))"

lemma takeOr_eq:
  "takeOr debug e d =
     Inr (case object e of Inl v \<Rightarrow> v | Inr _ \<Rightarrow> d, e\<lparr>errorChecked := True\<rparr>)"
  by (cases "object e") (simp_all add: takeOr_def isError_def Expected_get_def)

lemma isError_marks_checked [simp]: "errorChecked (snd (isError e))"
  by (simp add: isError_def)

section \<open>Status\<close>

record Status =
  st_code :: int
  st_message :: string

definition kSuccessCode :: int where "kSuccessCode = 0"

definition okMessage :: string where "okMessage = ''OK''"

definition Status_code :: "int \<Rightarrow> Status" where
  "Status_code c = \<lparr>st_code = c, st_message = okMessage\<rparr>"

definition Status_msg :: "int \<Rightarrow> string \<Rightarrow> Status" where
  "Status_msg c m = \<lparr>st_code = c, st_message = m\<rparr>"

definition Status_of_error :: "ErrorBase \<Rightarrow> Status" where
  "Status_of_error e = Status_msg 1 (error_getMessage e)"

definition ok :: "Status \<Rightarrow> bool" where
  "ok s \<longleftrightarrow> st_code s = kSuccessCode"

definition success :: Status where
  "success = Status_code kSuccessCode"

definition failure :: "string \<Rightarrow> Status" where
  "failure m = Status_msg 1 m"

definition failure_code :: "bool \<Rightarrow> int \<Rightarrow> string \<Rightarrow> Status throwing" where
  "failure_code debug c m =
     (if debug \<and> c = kSuccessCode
      then Inl (aborted ''Using 'failure' to create Status object with a kSuccessCode'')
      else Inr (Status_msg c m))"

definition status_print :: "Status \<Rightarrow> string" where
  "status_print s =
     ''Status('' @ to_string_int (st_code s) @ '', '' @ [CHR 0x22] @ st_message s @ [CHR 0x22] @ '')''"

definition Expected_to_Status :: "'v Expected \<Rightarrow> Status" where
  "Expected_to_Status e =
     (case object e of Inl _ \<Rightarrow> success | Inr err \<Rightarrow> failure (error_getMessage err))"

lemma ok_success [simp, status_simps]: "ok success"
  by (simp add: ok_def success_def Status_code_def)

lemma ok_Status_code [simp, status_simps]: "ok (Status_code c) \<longleftrightarrow> c = 0"
  by (simp add: ok_def Status_code_def kSuccessCode_def)

lemma ok_Status_msg [simp, status_simps]: "ok (Status_msg c m) \<longleftrightarrow> c = 0"
  by (simp add: ok_def Status_msg_def kSuccessCode_def)

lemma not_ok_failure [simp, status_simps]: "\<not> ok (failure m)"
  by (simp add: failure_def)

lemma Expected_to_Status_ok: "ok (Expected_to_Status e) \<longleftrightarrow> fst (isValue e)"
  by (auto simp: Expected_to_Status_def isValue_def isError_def split: sum.splits)

section \<open>String to integer and to bool: tryTo\<close>

abbreviation ConversionError_InvalidArgument :: enum_code where
  "ConversionError_InvalidArgument \<equiv> (''osquery::ConversionError'', 0)"

abbreviation ConversionError_OutOfRange :: enum_code where
  "ConversionError_OutOfRange \<equiv> (''osquery::ConversionError'', 1)"

abbreviation ConversionError_Unknown :: enum_code where
  "ConversionError_Unknown \<equiv> (''osquery::ConversionError'', 2)"

text \<open>
  One conversion per target type of \<open>throwingStringToInt\<close>. For \<open>unsigned int\<close> the code calls
  \<open>std::stoul\<close> and returns its 64-bit result as 32 bits.
\<close>

definition throwingStringToInt_int :: "nat \<Rightarrow> string \<Rightarrow> int throwing" where
  "throwingStringToInt_int base from = stoi base from"

definition throwingStringToInt_longlong :: "nat \<Rightarrow> string \<Rightarrow> int throwing" where
  "throwingStringToInt_longlong base from = stoll base from"

definition throwingStringToInt_uint :: "nat \<Rightarrow> string \<Rightarrow> u32 throwing" where
  "throwingStringToInt_uint base from = exn_bind (stoull base from) (\<lambda>v. Inr (ucast v))"

definition throwingStringToInt_ulonglong :: "nat \<Rightarrow> string \<Rightarrow> u64 throwing" where
  "throwingStringToInt_ulonglong base from = stoull base from"

text \<open>
  The try block of \<open>tryTo\<close>. The text of a library exception (\<open>what()\<close>) is implementation defined and
  so is the demangled type names of the last branch: both are arguments.
\<close>

definition tryTo_catch :: "(cpp_exn \<Rightarrow> string) \<Rightarrow> 'a throwing \<Rightarrow> 'a Expected" where
  "tryTo_catch what r =
     (case r of
        Inr v \<Rightarrow> Expected_value v
      | Inl ex \<Rightarrow>
          (case ex of
             invalid_argument \<Rightarrow>
               Expected_error (appendToMessage (appendToMessage (createError ConversionError_InvalidArgument)
                 ''If no conversion could be performed. '') (what ex))
           | out_of_range \<Rightarrow>
               Expected_error (appendToMessage (appendToMessage (createError ConversionError_OutOfRange)
                 ''Value read is out of the range of representable values by an int. '') (what ex))
           | _ \<Rightarrow>
               Expected_error (appendToMessage (appendToMessage (createError ConversionError_Unknown)
                 ''Unknown error during conversion '') (what ex))))"

definition tryTo_int :: "(cpp_exn \<Rightarrow> string) \<Rightarrow> nat \<Rightarrow> string \<Rightarrow> int Expected" where
  "tryTo_int what base from = tryTo_catch what (throwingStringToInt_int base from)"

definition tryTo_longlong :: "(cpp_exn \<Rightarrow> string) \<Rightarrow> nat \<Rightarrow> string \<Rightarrow> int Expected" where
  "tryTo_longlong what base from = tryTo_catch what (throwingStringToInt_longlong base from)"

definition tryTo_uint :: "(cpp_exn \<Rightarrow> string) \<Rightarrow> nat \<Rightarrow> string \<Rightarrow> u32 Expected" where
  "tryTo_uint what base from = tryTo_catch what (throwingStringToInt_uint base from)"

definition tryTo_u64 :: "(cpp_exn \<Rightarrow> string) \<Rightarrow> nat \<Rightarrow> string \<Rightarrow> u64 Expected" where
  "tryTo_u64 what base from = tryTo_catch what (throwingStringToInt_ulonglong base from)"

definition bool_table :: "(string \<times> bool) list" where
  "bool_table =
     [(''1'', True), (''0'', False), (''y'', True), (''yes'', True), (''n'', False), (''no'', False),
      (''t'', True), (''true'', True), (''f'', False), (''false'', False), (''ok'', True),
      (''disable'', False), (''enable'', True), (''on'', True), (''off'', False)]"

text \<open>\<open>boost::io::quoted\<close> is third party: the quoting function is an argument.\<close>

definition stringToBool :: "(string \<Rightarrow> string) \<Rightarrow> string \<Rightarrow> bool Expected" where
  "stringToBool quoted from =
     (let from' = map tolower from
      in case map_of bool_table from' of
           Some b \<Rightarrow> Expected_value b
         | None \<Rightarrow> Expected_error (appendToMessage (appendToMessage
             (createError ConversionError_InvalidArgument)
             ''Wrong string representation of boolean '') (quoted from')))"

lemma tryTo_catch_object:
  "object (tryTo_catch what r) = Inl v \<longleftrightarrow> r = Inr v"
  by (auto simp: tryTo_catch_def Expected_value_def Expected_error_def split: sum.splits cpp_exn.splits)

lemma stoull_exn: "stoull b s = Inl e \<Longrightarrow> e = invalid_argument \<or> e = out_of_range"
  by (auto simp: stoull_def split: option.splits prod.splits if_splits)

lemma stosigned_exn: "stosigned w b s = Inl e \<Longrightarrow> e = invalid_argument \<or> e = out_of_range"
  by (auto simp: stosigned_def Let_def split: option.splits prod.splits if_splits)

lemma tolower_idem [simp]: "tolower (tolower c) = tolower c"
proof -
  have "of_char (char_of (n + 32) :: char) = n + 32" if "65 \<le> n" "n \<le> 90" for n :: nat
    using that by (simp add: of_char_of)
  then show ?thesis by (simp add: tolower_def Let_def)
qed

section \<open>Lookups in tables: map_take.h\<close>

abbreviation MapTakeError_NoSuchKey :: enum_code where
  "MapTakeError_NoSuchKey \<equiv> (''osquery::MapTakeError'', 1)"

definition no_such_key :: "'v Expected" where
  "no_such_key = Expected_error (appendToMessage (createError MapTakeError_NoSuchKey)
     ''no such key in the table'')"

definition tryTake :: "('k::linorder, 'v) omap \<Rightarrow> 'k \<Rightarrow> 'v Expected \<times> ('k, 'v) omap" where
  "tryTake table key =
     (case om_get table key of
        None \<Rightarrow> (no_such_key, table)
      | Some v \<Rightarrow> (Expected_value v, om_del key table))"

definition tryTakeCopy :: "('k, 'v) omap \<Rightarrow> 'k \<Rightarrow> 'v Expected" where
  "tryTakeCopy from key =
     (case om_get from key of None \<Rightarrow> no_such_key | Some v \<Rightarrow> Expected_value v)"

section \<open>Properties\<close>

text \<open>
  \<open>tryTo\<close> inverts printing: for \<open>int\<close>, \<open>long long\<close> and \<open>unsigned long long\<close> the decimal text of
  every value of the type converts back to it.\<close>

theorem tryTo_inverts_printing:
  assumes "- (2 ^ 31) \<le> i" "i < 2 ^ 31" "- (2 ^ 63) \<le> j" "j < 2 ^ 63"
  shows "object (tryTo_int what 10 (to_string_int i)) = Inl i \<and>
    object (tryTo_longlong what 10 (to_string_int j)) = Inl j \<and>
    object (tryTo_u64 what 10 (to_string_u64 w)) = Inl w"
  using assms stosigned_to_string [of 32 i] stosigned_to_string [of 64 j]
  by (simp add: tryTo_int_def tryTo_longlong_def tryTo_u64_def tryTo_catch_object
      throwingStringToInt_int_def throwingStringToInt_longlong_def throwingStringToInt_ulonglong_def
      stoi_def stoll_def)

theorem tryTo_inverts_printing_witness:
  "object (tryTo_int (\<lambda>_. []) 10 (to_string_int (- 2147483648))) = Inl (- 2147483648) \<and>
   object (tryTo_longlong (\<lambda>_. []) 10 (to_string_int 42)) = Inl 42"
  using tryTo_inverts_printing [of "- 2147483648" 42 "\<lambda>_. []"] by simp

text \<open>
  \<open>tryTo\<close> is total: for any text and base the conversion to \<open>int\<close> gives a value within the 32-bit
  range, or an error, which is \<open>InvalidArgument\<close> exactly when the text does not begin with a number and
  \<open>OutOfRange\<close> otherwise; no exception leaves it.\<close>

theorem tryTo_int_total:
  "case object (tryTo_int what base from) of
     Inl v \<Rightarrow> - (2 ^ 31) \<le> v \<and> v < 2 ^ 31
   | Inr e \<Rightarrow>
       errorCode e = ConversionError_InvalidArgument \<and> strto_raw base from = None \<or>
       errorCode e = ConversionError_OutOfRange \<and> strto_raw base from \<noteq> None"
proof (cases "stosigned 32 base from")
  case (Inl e)
  then have "e = invalid_argument \<and> strto_raw base from = None \<or> e = out_of_range \<and> strto_raw base from \<noteq> None"
    by (auto simp: stosigned_def Let_def split: option.splits prod.splits if_splits)
  with Inl show ?thesis
    by (auto simp: tryTo_int_def throwingStringToInt_int_def stoi_def tryTo_catch_def
        Expected_error_def createError_def appendToMessage_def)
next
  case (Inr v)
  with stosigned_range [OF Inr] show ?thesis
    by (simp add: tryTo_int_def throwingStringToInt_int_def stoi_def tryTo_catch_def Expected_value_def)
qed

text \<open>
  The conversion to \<open>unsigned int\<close> is the exception: it keeps the low 32 bits of a 64-bit
  conversion, so that a text just out of range converts to zero without an error, and two texts that
  denote different numbers convert to the same value.\<close>

theorem tryTo_uint_truncates:
  "object (tryTo_uint what 10 ''4294967296'') = Inl 0 \<and>
   object (tryTo_uint what 10 (to_string_u64 w)) = Inl (ucast w)"
proof -
  have "''4294967296'' = to_string_u64 4294967296"
    by (simp add: to_string_u64_def digit_char_def nat_digits.simps char_of_def bit_simps)
  then show ?thesis
    by (simp add: tryTo_uint_def tryTo_catch_object throwingStringToInt_uint_def)
qed

end
