(* ===== verification/Caches.thy ===== *)
theory Caches
  imports Results
begin

text \<open>
  The LRU cache of \<open>osquery/utils/caches/lru.h\<close> and \<open>lru-impl.h\<close>. The code keeps a hash map from
  keys to a value and an iterator into a doubly linked list of keys, most recently used first.
  An iterator is modelled by the identity of the list node it points to: nodes carry a number that
  is never reused, so that erasing through an iterator removes exactly the node it was taken from.
  The operations refine a list of key/value pairs in order of last use.
\<close>

section \<open>The implementation\<close>

record ('k, 'v) LRU =
  lru_map :: "('k \<times> ('v \<times> nat)) list"
  lru_queue :: "(nat \<times> 'k) list"
  lru_next :: nat
  lru_capacity :: nat

definition LRU_new :: "nat \<Rightarrow> ('k, 'v) LRU" where
  "LRU_new cap = \<lparr>lru_map = [], lru_queue = [], lru_next = 0, lru_capacity = cap\<rparr>"

definition lru_size :: "('k, 'v) LRU \<Rightarrow> nat" where
  "lru_size c = length (lru_map c)"

definition lru_has :: "('k, 'v) LRU \<Rightarrow> 'k \<Rightarrow> bool" where
  "lru_has c key \<longleftrightarrow> map_of (lru_map c) key \<noteq> None"

text \<open>\<open>queue_.back()\<close> of an empty list is undefined behaviour.\<close>

definition lru_evict :: "('k, 'v) LRU \<Rightarrow> ('k, 'v) LRU throwing" where
  "lru_evict c =
     (if lru_queue c = [] then Inl (undefined_behaviour ''back() of an empty list'')
      else Inr (c\<lparr>lru_map := AList.delete (snd (last (lru_queue c))) (lru_map c),
                 lru_queue := butlast (lru_queue c)\<rparr>))"

definition lru_push_front :: "'k \<Rightarrow> ('k, 'v) LRU \<Rightarrow> ('k, 'v) LRU" where
  "lru_push_front key c =
     c\<lparr>lru_queue := (lru_next c, key) # lru_queue c, lru_next := Suc (lru_next c)\<rparr>"

definition lru_erase :: "nat \<Rightarrow> ('k, 'v) LRU \<Rightarrow> ('k, 'v) LRU" where
  "lru_erase node c = c\<lparr>lru_queue := filter (\<lambda>(i, _). i \<noteq> node) (lru_queue c)\<rparr>"

definition lru_begin :: "('k, 'v) LRU \<Rightarrow> nat" where
  "lru_begin c = fst (hd (lru_queue c))"

definition lru_insert :: "'k \<Rightarrow> 'v \<Rightarrow> ('k, 'v) LRU \<Rightarrow> ('v \<times> ('k, 'v) LRU) throwing" where
  "lru_insert key value c =
     (case map_of (lru_map c) key of
        None \<Rightarrow>
          exn_bind (if lru_size c \<ge> lru_capacity c then lru_evict c else Inr c)
            (\<lambda>c1. let c2 = lru_push_front key c1
                  in Inr (value, c2\<lparr>lru_map := (key, (value, lru_begin c2)) # lru_map c2\<rparr>))
      | Some (_, iter) \<Rightarrow>
          (let c1 = lru_push_front key (lru_erase iter c)
           in Inr (value, c1\<lparr>lru_map := AList.update key (value, lru_begin c1) (lru_map c1)\<rparr>)))"

definition lru_get :: "'k \<Rightarrow> ('k, 'v) LRU \<Rightarrow> 'v option \<times> ('k, 'v) LRU" where
  "lru_get key c =
     (case map_of (lru_map c) key of
        None \<Rightarrow> (None, c)
      | Some (v, iter) \<Rightarrow>
          if iter \<noteq> lru_begin c
          then (let c1 = lru_push_front key (lru_erase iter c)
                in (Some v, c1\<lparr>lru_map := AList.update key (v, lru_begin c1) (lru_map c1)\<rparr>))
          else (Some v, c))"

section \<open>The specification: pairs in order of last use\<close>

definition spec_touch :: "'k \<Rightarrow> 'v \<Rightarrow> ('k \<times> 'v) list \<Rightarrow> ('k \<times> 'v) list" where
  "spec_touch k v xs = (k, v) # filter (\<lambda>p. fst p \<noteq> k) xs"

definition spec_insert :: "nat \<Rightarrow> 'k \<Rightarrow> 'v \<Rightarrow> ('k \<times> 'v) list \<Rightarrow> ('k \<times> 'v) list" where
  "spec_insert cap k v xs =
     (if map_of xs k = None \<and> length xs \<ge> cap then spec_touch k v (butlast xs) else spec_touch k v xs)"

definition spec_get :: "'k \<Rightarrow> ('k \<times> 'v) list \<Rightarrow> 'v option \<times> ('k \<times> 'v) list" where
  "spec_get k xs =
     (case map_of xs k of None \<Rightarrow> (None, xs) | Some v \<Rightarrow> (Some v, spec_touch k v xs))"

definition lru_value :: "('k, 'v) LRU \<Rightarrow> 'k \<Rightarrow> 'v" where
  "lru_value c k = fst (the (map_of (lru_map c) k))"

definition lru_abs :: "('k, 'v) LRU \<Rightarrow> ('k \<times> 'v) list" where
  "lru_abs c = map (\<lambda>(_, k). (k, lru_value c k)) (lru_queue c)"

text \<open>The structural invariant: map and list describe the same keys, iterators are not stale.\<close>

definition lru_inv :: "('k, 'v) LRU \<Rightarrow> bool" where
  "lru_inv c \<longleftrightarrow>
     distinct (map fst (lru_queue c)) \<and> distinct (map snd (lru_queue c)) \<and>
     distinct (map fst (lru_map c)) \<and>
     (\<forall>k. map_of (lru_map c) k \<noteq> None \<longleftrightarrow> k \<in> snd ` set (lru_queue c)) \<and>
     (\<forall>(i, k) \<in> set (lru_queue c). \<exists>v. map_of (lru_map c) k = Some (v, i)) \<and>
     (\<forall>i \<in> fst ` set (lru_queue c). i < lru_next c)"

lemma lru_inv_new: "lru_inv (LRU_new cap)"
  by (simp add: lru_inv_def LRU_new_def)

lemma lru_size_queue: "lru_inv c \<Longrightarrow> lru_size c = length (lru_queue c)"
proof -
  assume inv: "lru_inv c"
  then have "fst ` set (lru_map c) = snd ` set (lru_queue c)"
    unfolding lru_inv_def by (metis (mono_tags, lifting) map_of_eq_None_iff set_eq_iff)
  moreover have "card (fst ` set (lru_map c)) = length (lru_map c)"
    using inv by (metis distinct_card length_map list.set_map lru_inv_def)
  moreover have "card (snd ` set (lru_queue c)) = length (lru_queue c)"
    using inv by (metis distinct_card length_map list.set_map lru_inv_def)
  ultimately show ?thesis by (simp add: lru_size_def)
qed

lemma lru_abs_keys: "map fst (lru_abs c) = map snd (lru_queue c)"
  by (simp add: lru_abs_def case_prod_unfold)

section \<open>The invariant is kept\<close>

lemma lru_invD:
  assumes "lru_inv c"
  shows "distinct (map fst (lru_queue c))" "distinct (map snd (lru_queue c))"
    "distinct (map fst (lru_map c))"
    "map_of (lru_map c) k \<noteq> None \<longleftrightarrow> k \<in> snd ` set (lru_queue c)"
    "(i, k) \<in> set (lru_queue c) \<Longrightarrow> \<exists>v. map_of (lru_map c) k = Some (v, i)"
    "(i, k) \<in> set (lru_queue c) \<Longrightarrow> i < lru_next c"
  using assms unfolding lru_inv_def by (blast, blast, blast, blast, blast, force)

lemma lru_invI:
  assumes "distinct (map fst (lru_queue c))" "distinct (map snd (lru_queue c))"
    "distinct (map fst (lru_map c))"
    "\<And>k. map_of (lru_map c) k \<noteq> None \<longleftrightarrow> k \<in> snd ` set (lru_queue c)"
    "\<And>i k. (i, k) \<in> set (lru_queue c) \<Longrightarrow> \<exists>v. map_of (lru_map c) k = Some (v, i)"
    "\<And>i k. (i, k) \<in> set (lru_queue c) \<Longrightarrow> i < lru_next c"
  shows "lru_inv c"
  unfolding lru_inv_def using assms by (intro conjI allI ballI) (force+)

lemma queue_node_unique:
  "distinct (map fst q) \<Longrightarrow> (i, k) \<in> set q \<Longrightarrow> (i, k') \<in> set q \<Longrightarrow> k = k'"
  by (metis eq_key_imp_eq_value)

lemma lru_inv_iter:
  assumes "lru_inv c" "map_of (lru_map c) key = Some (v, iter)"
  shows "(iter, key) \<in> set (lru_queue c)"
proof -
  have "key \<in> snd ` set (lru_queue c)" using lru_invD(4) [OF assms(1), of key] assms(2) by simp
  then obtain i where i: "(i, key) \<in> set (lru_queue c)" by auto
  then obtain v' where "map_of (lru_map c) key = Some (v', i)"
    using lru_invD(5) [OF assms(1)] by blast
  with assms(2) i show ?thesis by simp
qed

lemma lru_erase_queue:
  assumes "lru_inv c" "map_of (lru_map c) key = Some (v, iter)"
  shows "filter (\<lambda>(i, _). i \<noteq> iter) (lru_queue c) = filter (\<lambda>(_, k). k \<noteq> key) (lru_queue c)"
proof (rule filter_cong [OF refl], clarify)
  fix i k assume ik: "(i, k) \<in> set (lru_queue c)"
  then obtain v' where v': "map_of (lru_map c) k = Some (v', i)"
    using lru_invD(5) [OF assms(1)] by blast
  have "i = iter \<Longrightarrow> k = key"
    using ik lru_inv_iter [OF assms] queue_node_unique [OF lru_invD(1) [OF assms(1)]] by blast
  moreover have "k = key \<Longrightarrow> i = iter" using v' assms(2) by simp
  ultimately show "i \<noteq> iter \<longleftrightarrow> k \<noteq> key" by blast
qed

lemma map_of_lru_abs:
  assumes inv: "lru_inv c"
  shows "map_of (lru_abs c) k = map_option fst (map_of (lru_map c) k)"
proof (cases "map_of (lru_map c) k")
  case None
  then have "k \<notin> fst ` set (lru_abs c)"
    using lru_invD(4) [OF inv, of k] lru_abs_keys [of c] by (metis list.set_map)
  then have "map_of (lru_abs c) k = None" by (simp add: map_of_eq_None_iff)
  with None show ?thesis by simp
next
  case (Some p)
  obtain v i where p: "p = (v, i)" by (cases p)
  have "(k, lru_value c k) \<in> set (lru_abs c)"
    using lru_inv_iter [OF inv, of k v i] Some p by (force simp: lru_abs_def)
  moreover have "distinct (map fst (lru_abs c))"
    using lru_invD(2) [OF inv] by (simp add: lru_abs_keys)
  ultimately have "map_of (lru_abs c) k = Some (lru_value c k)" by simp
  then show ?thesis by (simp add: Some p lru_value_def)
qed

text \<open>Evicting drops the pair used longest ago.\<close>

lemma lru_evict_ok:
  assumes inv: "lru_inv c" and ne: "lru_queue c \<noteq> []"
  obtains c' where "lru_evict c = Inr c'" "lru_inv c'" "lru_abs c' = butlast (lru_abs c)"
    "lru_next c' = lru_next c" "lru_capacity c' = lru_capacity c"
    "\<And>k. map_of (lru_map c) k = None \<Longrightarrow> map_of (lru_map c') k = None"
proof -
  define q where "q = butlast (lru_queue c)"
  obtain n k where last: "last (lru_queue c) = (n, k)" by fastforce
  have q: "lru_queue c = q @ [(n, k)]"
    using ne last append_butlast_last_id [of "lru_queue c"] by (simp add: q_def)
  define c' where "c' = c\<lparr>lru_map := AList.delete k (lru_map c), lru_queue := q\<rparr>"
  have fresh: "k \<notin> snd ` set q" using lru_invD(2) [OF inv] by (simp add: q)
  have look: "map_of (lru_map c') k' = (if k' = k then None else map_of (lru_map c) k')" for k'
    by (simp add: c'_def delete_conv')
  have "lru_inv c'"
  proof (rule lru_invI)
    show "map_of (lru_map c') k' \<noteq> None \<longleftrightarrow> k' \<in> snd ` set (lru_queue c')" for k'
      using lru_invD(4) [OF inv, of k'] fresh unfolding look by (auto simp: q c'_def)
    show "\<exists>v. map_of (lru_map c') k' = Some (v, i)" if "(i, k') \<in> set (lru_queue c')" for i k'
      using that lru_invD(5) [OF inv, of i k'] fresh unfolding look by (force simp: q c'_def)
    show "i < lru_next c'" if "(i, k') \<in> set (lru_queue c')" for i k'
      using that lru_invD(6) [OF inv, of i k'] by (simp add: q c'_def)
  qed (use lru_invD(1,2,3) [OF inv] in \<open>simp_all add: q c'_def distinct_delete\<close>)
  moreover have "lru_abs c' = butlast (lru_abs c)"
    using fresh by (force simp: lru_abs_def q lru_value_def c'_def delete_conv')
  moreover have "lru_evict c = Inr c'" using ne last by (simp add: lru_evict_def q_def c'_def)
  ultimately show thesis using look by (intro that [of c']) (auto simp: c'_def)
qed

text \<open>Both ways of moving a key to the front keep the invariant.\<close>

lemma lru_touch_ok:
  assumes inv: "lru_inv c"
    and q: "q = filter (\<lambda>(_, k'). k' \<noteq> k) (lru_queue c)"
    and m: "distinct (map fst m)" "map_of m = (map_of (lru_map c))(k \<mapsto> (v, lru_next c))"
    and c': "c' = c\<lparr>lru_queue := (lru_next c, k) # q, lru_next := Suc (lru_next c), lru_map := m\<rparr>"
  shows "lru_inv c' \<and> lru_abs c' = spec_touch k v (lru_abs c)"
proof
  have inq: "(i, k') \<in> set q \<longleftrightarrow> (i, k') \<in> set (lru_queue c) \<and> k' \<noteq> k" for i k'
    by (auto simp: q)
  have look: "map_of (lru_map c') k' = (if k' = k then Some (v, lru_next c) else map_of (lru_map c) k')"
    for k' by (simp add: c' m(2))
  show "lru_inv c'"
  proof (rule lru_invI)
    have "snd ` set q = snd ` set (lru_queue c) - {k}" by (force simp: inq)
    then show "map_of (lru_map c') k' \<noteq> None \<longleftrightarrow> k' \<in> snd ` set (lru_queue c')" for k'
      using lru_invD(4) [OF inv, of k'] unfolding look by (simp add: c')
    show "\<exists>v. map_of (lru_map c') k' = Some (v, i)" if "(i, k') \<in> set (lru_queue c')" for i k'
      using that lru_invD(5) [OF inv, of i k'] unfolding look by (auto simp: c' inq)
    show "i < lru_next c'" if "(i, k') \<in> set (lru_queue c')" for i k'
      using that lru_invD(6) [OF inv, of i k'] by (auto simp: c' inq)
    show "distinct (map fst (lru_queue c'))"
      using lru_invD(1) [OF inv] lru_invD(6) [OF inv] by (fastforce simp: c' q distinct_map_filter)
    show "distinct (map snd (lru_queue c'))"
      using lru_invD(2) [OF inv] by (auto simp: c' q distinct_map_filter)
    show "distinct (map fst (lru_map c'))" using m(1) by (simp add: c')
  qed
  show "lru_abs c' = spec_touch k v (lru_abs c)"
    by (auto simp: lru_abs_def spec_touch_def c' lru_value_def m(2) q filter_map comp_def case_prod_unfold)
qed

lemma lru_insert_refines:
  assumes inv: "lru_inv c" and cap: "0 < lru_capacity c"
  obtains c' where "lru_insert k v c = Inr (v, c')" "lru_inv c'"
    "lru_abs c' = spec_insert (lru_capacity c) k v (lru_abs c)" "lru_capacity c' = lru_capacity c"
proof (cases "map_of (lru_map c) k")
  case None
  define full where "full \<longleftrightarrow> lru_size c \<ge> lru_capacity c"
  obtain c1 where c1: "(if full then lru_evict c else Inr c) = Inr c1" "lru_inv c1"
    "lru_abs c1 = (if full then butlast (lru_abs c) else lru_abs c)"
    "lru_capacity c1 = lru_capacity c" "map_of (lru_map c1) k = None"
  proof (cases full)
    case True
    then have "lru_queue c \<noteq> []" using cap lru_size_queue [OF inv] by (auto simp: full_def)
    then show ?thesis using True None that by (elim lru_evict_ok [OF inv]) auto
  qed (use None inv that in auto)
  define c' where "c' = c1\<lparr>lru_queue := (lru_next c1, k) # lru_queue c1, lru_next := Suc (lru_next c1),
    lru_map := (k, (v, lru_next c1)) # lru_map c1\<rparr>"
  have "filter (\<lambda>(_, k'). k' \<noteq> k) (lru_queue c1) = lru_queue c1"
    using lru_invD(4) [OF c1(2), of k] c1(5) by (force simp: filter_id_conv)
  then have "lru_inv c' \<and> lru_abs c' = spec_touch k v (lru_abs c1)"
    using lru_invD(3) [OF c1(2)] c1(5)
    by (intro lru_touch_ok [OF c1(2), of _ k]) (auto simp: c'_def map_of_eq_None_iff)
  moreover have "lru_insert k v c = Inr (v, c')"
    using None c1(1)
    by (simp add: lru_insert_def full_def [symmetric] lru_push_front_def lru_begin_def c'_def Let_def)
  moreover have "map_of (lru_abs c) k = None" using None by (simp add: map_of_lru_abs [OF inv])
  moreover have "full \<longleftrightarrow> length (lru_abs c) \<ge> lru_capacity c"
    using lru_size_queue [OF inv] by (simp add: full_def lru_abs_def)
  ultimately show thesis using c1(3,4) that by (auto simp: spec_insert_def c'_def)
next
  case (Some p)
  obtain w iter where p: "p = (w, iter)" by (cases p)
  define c' where "c' = c\<lparr>lru_queue := (lru_next c, k) # filter (\<lambda>(_, k'). k' \<noteq> k) (lru_queue c),
    lru_next := Suc (lru_next c), lru_map := AList.update k (v, lru_next c) (lru_map c)\<rparr>"
  have "lru_inv c' \<and> lru_abs c' = spec_touch k v (lru_abs c)"
    using lru_invD(3) [OF inv]
    by (intro lru_touch_ok [OF inv refl]) (auto simp: c'_def distinct_update update_conv')
  moreover have "lru_insert k v c = Inr (v, c')"
    using Some lru_erase_queue [OF inv, of k w iter]
    by (simp add: lru_insert_def p lru_push_front_def lru_erase_def lru_begin_def c'_def Let_def)
  moreover have "map_of (lru_abs c) k \<noteq> None" using Some by (simp add: map_of_lru_abs [OF inv])
  ultimately show thesis using that by (auto simp: spec_insert_def c'_def)
qed

lemma lru_abs_hd: "lru_queue c \<noteq> [] \<Longrightarrow> fst (hd (lru_abs c)) = snd (hd (lru_queue c))"
  by (cases "lru_queue c") (auto simp: lru_abs_def)

lemma spec_touch_hd:
  "distinct (map fst xs) \<Longrightarrow> xs = (k, v) # ys \<Longrightarrow> spec_touch k v xs = xs"
  by (auto simp: spec_touch_def filter_id_conv)

lemma lru_get_refines:
  assumes inv: "lru_inv c"
  obtains c' where "lru_get k c = (fst (spec_get k (lru_abs c)), c')" "lru_inv c'"
    "lru_abs c' = snd (spec_get k (lru_abs c))" "lru_capacity c' = lru_capacity c"
proof (cases "map_of (lru_map c) k")
  case None
  then show thesis using inv by (intro that [of c]) (simp_all add: lru_get_def spec_get_def map_of_lru_abs)
next
  case (Some p)
  obtain v iter where p: "p = (v, iter)" by (cases p)
  have spec: "spec_get k (lru_abs c) = (Some v, spec_touch k v (lru_abs c))"
    by (simp add: spec_get_def map_of_lru_abs [OF inv] Some p)
  have iter: "(iter, k) \<in> set (lru_queue c)" using lru_inv_iter [OF inv] Some p by simp
  show thesis
  proof (cases "iter = lru_begin c")
    case True
    then obtain q where q: "lru_queue c = (iter, k) # q"
      using iter lru_invD(1) [OF inv] queue_node_unique [OF lru_invD(1) [OF inv]]
      by (cases "lru_queue c") (fastforce simp: lru_begin_def)+
    have "lru_abs c = (k, v) # map (\<lambda>(_, k). (k, lru_value c k)) q"
      using Some by (simp add: lru_abs_def q lru_value_def p)
    then have "spec_touch k v (lru_abs c) = lru_abs c"
      using lru_invD(2) [OF inv] by (intro spec_touch_hd) (simp_all add: lru_abs_keys [symmetric])
    then show thesis using Some p True inv spec by (intro that [of c]) (simp_all add: lru_get_def)
  next
    case False
    define c' where "c' = c\<lparr>lru_queue := (lru_next c, k) # filter (\<lambda>(_, k'). k' \<noteq> k) (lru_queue c),
      lru_next := Suc (lru_next c), lru_map := AList.update k (v, lru_next c) (lru_map c)\<rparr>"
    have "lru_inv c' \<and> lru_abs c' = spec_touch k v (lru_abs c)"
      using lru_invD(3) [OF inv]
      by (intro lru_touch_ok [OF inv refl]) (auto simp: c'_def distinct_update update_conv')
    moreover have "lru_get k c = (Some v, c')"
      using Some False lru_erase_queue [OF inv, of k v iter]
      by (simp add: lru_get_def p lru_push_front_def lru_erase_def lru_begin_def c'_def Let_def)
    ultimately show thesis using spec that by (auto simp: c'_def)
  qed
qed

section \<open>Sequences of operations\<close>

datatype ('k, 'v) lru_op = Insert 'k 'v | Get 'k

fun lru_run :: "('k, 'v) lru_op list \<Rightarrow> ('k, 'v) LRU \<Rightarrow> ('k, 'v) LRU throwing" where
  "lru_run [] c = Inr c"
| "lru_run (Insert k v # ops) c = exn_bind (lru_insert k v c) (\<lambda>(_, c'). lru_run ops c')"
| "lru_run (Get k # ops) c = lru_run ops (snd (lru_get k c))"

fun spec_run :: "nat \<Rightarrow> ('k, 'v) lru_op list \<Rightarrow> ('k \<times> 'v) list \<Rightarrow> ('k \<times> 'v) list" where
  "spec_run cap [] xs = xs"
| "spec_run cap (Insert k v # ops) xs = spec_run cap ops (spec_insert cap k v xs)"
| "spec_run cap (Get k # ops) xs = spec_run cap ops (snd (spec_get k xs))"

lemma length_spec_touch_le:
  "map_of xs k \<noteq> None \<Longrightarrow> length (spec_touch k v xs) \<le> length xs"
proof -
  assume "map_of xs k \<noteq> None"
  then have "k \<in> fst ` set xs" by (simp add: map_of_eq_None_iff)
  then have "length (filter (\<lambda>p. fst p \<noteq> k) xs) < length xs"
    by (auto intro!: length_filter_less)
  then show ?thesis by (simp add: spec_touch_def)
qed

lemma length_spec_insert_le:
  assumes "0 < cap" "length xs \<le> cap"
  shows "length (spec_insert cap k v xs) \<le> cap"
proof (cases "map_of xs k = None")
  case True
  have "length (filter (\<lambda>p. fst p \<noteq> k) ys) \<le> length ys" for ys :: "('a \<times> 'b) list"
    by (rule length_filter_le)
  note le = this [of xs] this [of "butlast xs"]
  have "length (butlast xs) < cap" using assms by auto
  moreover have "length xs < cap" if "\<not> cap \<le> length xs" using that by simp
  ultimately show ?thesis
    using True le(1) [THEN le_less_trans] le(2) [THEN le_less_trans]
    by (simp add: spec_insert_def spec_touch_def Suc_le_eq del: length_butlast)
next
  case False
  then show ?thesis using length_spec_touch_le [OF False, of v] assms by (auto simp: spec_insert_def)
qed

lemma length_spec_get_le: "length (snd (spec_get k xs)) \<le> length xs"
  using length_spec_touch_le [of xs k] by (auto simp: spec_get_def split: option.splits)

lemma lru_run_ok:
  "lru_inv c \<Longrightarrow> 0 < lru_capacity c \<Longrightarrow> length (lru_abs c) \<le> lru_capacity c \<Longrightarrow>
   \<exists>c'. lru_run ops c = Inr c' \<and> lru_inv c' \<and> lru_capacity c' = lru_capacity c \<and>
     lru_abs c' = spec_run (lru_capacity c) ops (lru_abs c) \<and> length (lru_abs c') \<le> lru_capacity c"
proof (induction ops arbitrary: c)
  case (Cons opr ops)
  show ?case
  proof (cases opr)
    case (Insert k v)
    obtain c1 where c1: "lru_insert k v c = Inr (v, c1)" "lru_inv c1"
      "lru_abs c1 = spec_insert (lru_capacity c) k v (lru_abs c)" "lru_capacity c1 = lru_capacity c"
      by (rule lru_insert_refines [OF Cons.prems(1,2)])
    have "length (lru_abs c1) \<le> lru_capacity c1"
      using Cons.prems(2,3) by (simp add: c1 length_spec_insert_le)
    with c1 Cons.IH [of c1] Cons.prems(2) show ?thesis by (simp add: Insert)
  next
    case (Get k)
    obtain c1 where c1: "lru_get k c = (fst (spec_get k (lru_abs c)), c1)" "lru_inv c1"
      "lru_abs c1 = snd (spec_get k (lru_abs c))" "lru_capacity c1 = lru_capacity c"
      by (rule lru_get_refines [OF Cons.prems(1)])
    have "length (lru_abs c1) \<le> lru_capacity c1"
      using Cons.prems(3) length_spec_get_le [of k "lru_abs c"] by (simp add: c1)
    with c1 Cons.IH [of c1] Cons.prems(2) show ?thesis by (simp add: Get)
  qed
qed simp

section \<open>Properties\<close>

text \<open>
  C12. The cache implements a bounded list in order of last use: from an empty cache of positive
  capacity every sequence of insertions and lookups ends normally, what the cache then holds is what
  the reference list holds after the same operations (the pair used longest ago is dropped), a
  lookup returns the reference list's value, and there are never more entries than the capacity.\<close>

theorem lru_implements_recency:
  fixes ops :: "('k, 'v) lru_op list"
  assumes "0 < cap"
  shows "\<exists>c. lru_run ops (LRU_new cap) = Inr c \<and> lru_abs c = spec_run cap ops [] \<and>
    (\<forall>k. fst (lru_get k c) = map_of (spec_run cap ops []) k \<and>
         (lru_has c k \<longleftrightarrow> k \<in> fst ` set (spec_run cap ops []))) \<and>
    lru_size c \<le> cap"
proof -
  have new: "lru_abs (LRU_new cap :: ('k, 'v) LRU) = []" "lru_capacity (LRU_new cap :: ('k, 'v) LRU) = cap"
    by (simp_all add: LRU_new_def lru_abs_def)
  obtain c where c: "lru_run ops (LRU_new cap) = Inr c" "lru_inv c" "lru_abs c = spec_run cap ops []"
    "length (lru_abs c) \<le> cap"
    using lru_run_ok [OF lru_inv_new [of cap], of ops] assms unfolding new by auto
  have "fst (lru_get k c) = map_of (lru_abs c) k" for k
    by (rule lru_get_refines [OF c(2), of k]) (simp add: spec_get_def split: option.splits)
  moreover have "lru_has c k \<longleftrightarrow> k \<in> fst ` set (lru_abs c)" for k
    using map_of_lru_abs [OF c(2), of k] by (metis lru_has_def map_of_eq_None_iff option.map_disc_iff)
  moreover have "lru_size c \<le> cap" using c(4) lru_size_queue [OF c(2)] by (simp add: lru_abs_def)
  ultimately show ?thesis using c(1,3) by auto
qed

theorem lru_implements_recency_witness:
  "\<exists>c. lru_run [Insert True (1::nat), Insert False 2, Get True, Insert False 3] (LRU_new 2) = Inr c \<and>
     lru_abs c = [(False, 3), (True, 1)] \<and> fst (lru_get True c) = Some 1 \<and> lru_size c \<le> 2"
proof -
  let ?ops = "[Insert True (1::nat), Insert False 2, Get True, Insert False 3]"
  have spec: "spec_run 2 ?ops [] = [(False, 3), (True, 1)]"
    by (simp add: spec_insert_def spec_get_def spec_touch_def)
  obtain c where c: "lru_run ?ops (LRU_new 2) = Inr c" "lru_abs c = spec_run 2 ?ops []"
    "fst (lru_get True c) = map_of (spec_run 2 ?ops []) True" "lru_size c \<le> 2"
    using lru_implements_recency [of 2 ?ops] by (metis zero_less_numeral)
  show ?thesis by (rule exI [of _ c]) (simp only: c spec, simp)
qed

text \<open>
  A cache of capacity zero is not usable: its first insertion evicts from the empty list of keys,
  which is undefined behaviour.\<close>

theorem lru_zero_capacity:
  "lru_insert key v (LRU_new 0 :: ('k, 'v) LRU) = Inl (undefined_behaviour ''back() of an empty list'')"
  by (simp add: lru_insert_def LRU_new_def lru_size_def lru_evict_def)

end
