(* ===== verification/Registry.thy ===== *)
theory Registry
  imports Results
begin

text \<open>
  The plugin registry: \<open>osquery/registry/registry_interface.cpp\<close> (one registry: its plugins, the
  aliases, the routes broadcast by extensions, the active plugin) and \<open>registry_factory.cpp\<close> (the map
  of registries, the extensions, routing of calls).

  A plugin is a name and a state of type \<open>'p\<close>; its virtual methods are the fields of \<open>Plugin_ops\<close>.
  The extension transport (\<open>pingExtension\<close>, \<open>callExtension\<close>, over Thrift), the callbacks a plugin type
  supplies for external plugins, and \<open>split\<close> on commas (built on Boost) are the fields of
  \<open>registry_env\<close>. Locks are not modelled: each operation is one atomic step.
\<close>

section \<open>Plugins\<close>

type_synonym PluginRequest = "(string, string) omap"
type_synonym PluginResponse = "PluginRequest list"
type_synonym RouteUUID = u64
type_synonym RegistryRoutes = "(string, PluginResponse) omap"
type_synonym RegistryBroadcast = "(string, RegistryRoutes) omap"

record 'p Plugin =
  pl_name :: string
  pl_state :: 'p

record 'p Plugin_ops =
  op_setUp :: "'p \<Rightarrow> Status \<times> 'p"
  op_tearDown :: "'p \<Rightarrow> 'p"
  op_configure :: "'p \<Rightarrow> 'p"
  op_routeInfo :: "'p \<Rightarrow> PluginResponse"
  op_call :: "'p \<Rightarrow> PluginRequest \<Rightarrow> PluginResponse \<Rightarrow> (Status \<times> PluginResponse \<times> 'p) throwing"

record registry_env =
  env_split :: "string \<Rightarrow> string list"
  env_addExternal :: "string \<Rightarrow> PluginResponse \<Rightarrow> Status"
  env_pingExtension :: "RouteUUID \<Rightarrow> Status"
  env_callExtension ::
    "RouteUUID \<Rightarrow> string \<Rightarrow> string \<Rightarrow> PluginRequest \<Rightarrow> PluginResponse \<Rightarrow> Status \<times> PluginResponse"
  env_external :: bool

definition setName :: "string \<Rightarrow> 'p Plugin \<Rightarrow> 'p Plugin throwing" where
  "setName name p =
     (if pl_name p \<noteq> [] \<and> name \<noteq> pl_name p
      then Inl (runtime_error (''Cannot rename plugin '' @ pl_name p @ '' to '' @ name))
      else Inr (p\<lparr>pl_name := name\<rparr>))"

section \<open>One registry\<close>

text \<open>
  \<open>plugin_externals\<close> is what the plugin type behind the registry holds for its callbacks
  \<open>addExternal\<close> and \<open>removeExternal\<close> (for tables: the attached virtual tables). A plugin removed
  from the registry is torn down and dropped.
\<close>

record 'p RegistryInterface =
  reg_name :: string
  auto_setup :: bool
  items :: "(string, 'p Plugin) omap"
  aliases :: "(string, string) omap"
  external :: "(string, RouteUUID) omap"
  routes :: "(string, PluginResponse) omap"
  internal :: "string list"
  active :: string
  plugin_externals :: "string list"

definition RegistryInterface_new :: "string \<Rightarrow> bool \<Rightarrow> 'p RegistryInterface" where
  "RegistryInterface_new name setup =
     \<lparr>reg_name = name, auto_setup = setup, items = [], aliases = [], external = [], routes = [],
      internal = [], active = [], plugin_externals = []\<rparr>"

definition isInternalUnsafe :: "'p RegistryInterface \<Rightarrow> string \<Rightarrow> bool" where
  "isInternalUnsafe r item_name \<longleftrightarrow> item_name \<in> set (internal r)"

definition existsUnsafe :: "'p RegistryInterface \<Rightarrow> string \<Rightarrow> bool \<Rightarrow> bool" where
  "existsUnsafe r item_name local =
     (let has_local = om_has (items r) item_name;
          has_external = om_has (external r) item_name;
          has_route = om_has (routes r) item_name
      in if local then has_local else has_local \<or> has_external \<or> has_route)"

definition removeUnsafe :: "string \<Rightarrow> 'p RegistryInterface \<Rightarrow> 'p RegistryInterface" where
  "removeUnsafe item_name r =
     (let removed_aliases = map fst (filter (\<lambda>(_, target). target = item_name) (aliases r))
      in r\<lparr>items := om_del item_name (items r),
          aliases := fold om_del removed_aliases (aliases r)\<rparr>)"

fun setActive_unknown :: "'p RegistryInterface \<Rightarrow> string list \<Rightarrow> string option" where
  "setActive_unknown r [] = None"
| "setActive_unknown r (item # rest) =
     (if \<not> om_has (items r) item \<and> \<not> om_has (external r) item then Some item
      else setActive_unknown r rest)"

text \<open>The loop that sets up the plugins named active; the first failure stops it.\<close>

fun setActive_loop ::
  "'p Plugin_ops \<Rightarrow> registry_env \<Rightarrow> string list \<Rightarrow> Status \<Rightarrow> 'p RegistryInterface
   \<Rightarrow> (Status \<times> 'p RegistryInterface) throwing" where
  "setActive_loop ops env [] status r = Inr (status, r)"
| "setActive_loop ops env (item # rest) status r =
     (case om_get (items r) item of
        Some p \<Rightarrow>
          (let (st, s') = op_setUp ops (pl_state p);
               r' = r\<lparr>items := om_set item (p\<lparr>pl_state := s'\<rparr>) (items r)\<rparr>
           in if \<not> ok st then Inr (st, r') else setActive_loop ops env rest st r')
      | None \<Rightarrow>
          if existsUnsafe r item False \<and> \<not> env_external env then
            (case om_get (external r) item of
               None \<Rightarrow> Inl out_of_range
             | Some uuid \<Rightarrow>
                 (let st = env_pingExtension env uuid
                  in if \<not> ok st then Inr (st, r) else setActive_loop ops env rest st r))
          else if \<not> ok status then Inr (status, r)
          else setActive_loop ops env rest status r)"

definition reg_setActive ::
  "'p Plugin_ops \<Rightarrow> registry_env \<Rightarrow> string \<Rightarrow> 'p RegistryInterface
   \<Rightarrow> (Status \<times> 'p RegistryInterface) throwing" where
  "reg_setActive ops env item_name r =
     (case setActive_unknown r (env_split env item_name) of
        Some item \<Rightarrow> Inr (failure (''Unknown registry plugin: '' @ item), r)
      | None \<Rightarrow> setActive_loop ops env (env_split env item_name) success (r\<lparr>active := item_name\<rparr>))"

definition getRoutes :: "'p Plugin_ops \<Rightarrow> 'p RegistryInterface \<Rightarrow> RegistryRoutes" where
  "getRoutes ops r =
     fold (\<lambda>(name, p) table.
             if isInternalUnsafe r name then table
             else let masks = filter (\<lambda>(_, target). target = name) (aliases r);
                      info = op_routeInfo ops (pl_state p)
                  in if masks = [] then om_set name info table
                     else fold (\<lambda>(a, _). om_set a info) masks table)
          (items r) []"

definition reg_call ::
  "'p Plugin_ops \<Rightarrow> registry_env \<Rightarrow> string \<Rightarrow> PluginRequest \<Rightarrow> PluginResponse \<Rightarrow> 'p RegistryInterface
   \<Rightarrow> (Status \<times> PluginResponse \<times> 'p RegistryInterface) throwing" where
  "reg_call ops env item_name request response r =
     (case om_get (items r) item_name of
        Some p \<Rightarrow>
          exn_bind (op_call ops (pl_state p) request response)
            (\<lambda>(st, resp, s'). Inr (st, resp, r\<lparr>items := om_set item_name (p\<lparr>pl_state := s'\<rparr>) (items r)\<rparr>))
      | None \<Rightarrow>
          (case om_get (external r) item_name of
             Some uuid \<Rightarrow>
               (let (st, resp) = env_callExtension env uuid (reg_name r) item_name request response
                in Inr (st, resp, r))
           | None \<Rightarrow>
               (case om_get (routes r) item_name of
                  Some info \<Rightarrow> Inr (success, info, r)
                | None \<Rightarrow>
                    if env_external env then
                      (let (st, resp) = env_callExtension env 0 (reg_name r) item_name request response
                       in Inr (st, resp, r))
                    else Inr (failure (''Cannot call registry item: '' @ item_name), response, r))))"

definition reg_addAlias :: "string \<Rightarrow> string \<Rightarrow> 'p RegistryInterface \<Rightarrow> Status \<times> 'p RegistryInterface" where
  "reg_addAlias item_name alias r =
     (if om_has (aliases r) alias then (failure (''Duplicate alias: '' @ alias), r)
      else (success, r\<lparr>aliases := om_set alias item_name (aliases r)\<rparr>))"

definition reg_getAlias :: "'p RegistryInterface \<Rightarrow> string \<Rightarrow> string" where
  "reg_getAlias r alias = (case om_get (aliases r) alias of None \<Rightarrow> alias | Some item \<Rightarrow> item)"

definition addPlugin ::
  "string \<Rightarrow> 'p Plugin \<Rightarrow> bool \<Rightarrow> 'p RegistryInterface \<Rightarrow> (Status \<times> 'p RegistryInterface) throwing" where
  "addPlugin plugin_name plugin_item is_internal r =
     (if om_has (items r) plugin_name
      then Inr (failure (''Duplicate registry item exists: '' @ plugin_name), r)
      else exn_bind (setName plugin_name plugin_item)
             (\<lambda>p. Inr (success,
                r\<lparr>items := om_set plugin_name p (items r),
                  internal := (if is_internal then internal r @ [plugin_name] else internal r)\<rparr>)))"

text \<open>\<open>setUp\<close>: plugins that fail are removed after the pass over all of them.\<close>

definition reg_setUp :: "'p Plugin_ops \<Rightarrow> 'p RegistryInterface \<Rightarrow> 'p RegistryInterface" where
  "reg_setUp ops r =
     (if \<not> auto_setup r then r
      else if active r \<noteq> [] \<and> existsUnsafe r (active r) True then
        (case om_get (items r) (active r) of
           Some p \<Rightarrow> r\<lparr>items := om_set (active r) (p\<lparr>pl_state := snd (op_setUp ops (pl_state p))\<rparr>) (items r)\<rparr>
         | None \<Rightarrow> r)
      else
        (let failed = map fst (filter (\<lambda>(_, p). \<not> ok (fst (op_setUp ops (pl_state p)))) (items r));
             r1 = r\<lparr>items := map (\<lambda>(n, p). (n, p\<lparr>pl_state := snd (op_setUp ops (pl_state p))\<rparr>)) (items r)\<rparr>
         in fold removeUnsafe failed r1))"

definition reg_configure :: "'p Plugin_ops \<Rightarrow> 'p RegistryInterface \<Rightarrow> 'p RegistryInterface" where
  "reg_configure ops r =
     (if active r \<noteq> [] \<and> existsUnsafe r (active r) True then
        (case om_get (items r) (active r) of
           Some p \<Rightarrow> r\<lparr>items := om_set (active r) (p\<lparr>pl_state := op_configure ops (pl_state p)\<rparr>) (items r)\<rparr>
         | None \<Rightarrow> r)
      else r\<lparr>items := map (\<lambda>(n, p). (n, p\<lparr>pl_state := op_configure ops (pl_state p)\<rparr>)) (items r)\<rparr>)"

fun reg_addExternal ::
  "registry_env \<Rightarrow> RouteUUID \<Rightarrow> RegistryRoutes \<Rightarrow> 'p RegistryInterface \<Rightarrow> Status \<times> 'p RegistryInterface" where
  "reg_addExternal env uuid [] r = (success, r)"
| "reg_addExternal env uuid ((name, info) # rest) r =
     (let r1 = r\<lparr>routes := om_set name info (routes r)\<rparr>;
          status = env_addExternal env name info
      in if ok status
         then reg_addExternal env uuid rest
                (r1\<lparr>external := om_set name uuid (external r1),
                    plugin_externals := plugin_externals r1 @ [name]\<rparr>)
         else (status, r1))"

definition reg_removeExternal :: "RouteUUID \<Rightarrow> 'p RegistryInterface \<Rightarrow> 'p RegistryInterface" where
  "reg_removeExternal uuid r =
     (let removed_items = map fst (filter (\<lambda>(_, u). u = uuid) (external r))
      in r\<lparr>plugin_externals := filter (\<lambda>n. n \<notin> set removed_items) (plugin_externals r),
          external := fold om_del removed_items (external r),
          routes := fold om_del removed_items (routes r)\<rparr>)"

definition reg_names :: "'p RegistryInterface \<Rightarrow> string list" where
  "reg_names r = om_keys (items r) @ om_keys (external r)"

section \<open>The factory\<close>

record 'p RegistryFactory =
  allow_duplicates :: bool
  registries :: "(string, 'p RegistryInterface) omap"
  extensions :: "RouteUUID set"

definition rf_exists_registry :: "'p RegistryFactory \<Rightarrow> string \<Rightarrow> bool" where
  "rf_exists_registry f name \<longleftrightarrow> om_has (registries f) name"

definition rf_add :: "string \<Rightarrow> 'p RegistryInterface \<Rightarrow> 'p RegistryFactory \<Rightarrow> 'p RegistryFactory throwing" where
  "rf_add name reg f =
     (if rf_exists_registry f name then Inl (runtime_error (''Cannot add duplicate registry: '' @ name))
      else Inr (f\<lparr>registries := om_set name reg (registries f)\<rparr>))"

definition rf_registry :: "'p RegistryFactory \<Rightarrow> string \<Rightarrow> 'p RegistryInterface throwing" where
  "rf_registry f t =
     (case om_get (registries f) t of
        None \<Rightarrow> Inl (runtime_error (''Unknown registry requested: '' @ t))
      | Some r \<Rightarrow> Inr r)"

definition rf_exists :: "'p RegistryFactory \<Rightarrow> string \<Rightarrow> string \<Rightarrow> bool \<Rightarrow> bool" where
  "rf_exists f registry_name item_name local =
     (case om_get (registries f) registry_name of
        None \<Rightarrow> False
      | Some r \<Rightarrow> existsUnsafe r item_name local)"

definition getBroadcast :: "'p Plugin_ops \<Rightarrow> 'p RegistryFactory \<Rightarrow> RegistryBroadcast" where
  "getBroadcast ops f = fold (\<lambda>(n, r). om_set n (getRoutes ops r)) (registries f) []"

text \<open>The check for names already taken, over every registry of the broadcast.\<close>

fun broadcast_conflict :: "'p RegistryFactory \<Rightarrow> (string \<times> string) list \<Rightarrow> string option" where
  "broadcast_conflict f [] = None"
| "broadcast_conflict f ((reg, item) # rest) =
     (if rf_exists f reg item False then Some item else broadcast_conflict f rest)"

definition broadcast_items :: "RegistryBroadcast \<Rightarrow> (string \<times> string) list" where
  "broadcast_items b = concat (map (\<lambda>(reg, rs). map (\<lambda>(item, _). (reg, item)) rs) b)"

text \<open>The loop that adds the routes: the result says whether it returned from the middle.\<close>

datatype loop_exit = Fell_through Status | Returned Status

fun addBroadcast_loop ::
  "registry_env \<Rightarrow> RouteUUID \<Rightarrow> RegistryBroadcast \<Rightarrow> Status \<Rightarrow> 'p RegistryFactory
   \<Rightarrow> loop_exit \<times> 'p RegistryFactory" where
  "addBroadcast_loop env uuid [] status f = (Fell_through status, f)"
| "addBroadcast_loop env uuid ((name, rs) # rest) status f =
     (case om_get (registries f) name of
        None \<Rightarrow> (Returned (Status_msg 1 (''Unknown registry: '' @ name)), f)
      | Some r \<Rightarrow>
          (let (st, r') = reg_addExternal env uuid rs r;
               f' = f\<lparr>registries := om_set name r' (registries f)\<rparr>
           in if \<not> ok st then (Fell_through st, f') else addBroadcast_loop env uuid rest st f'))"

text \<open>The rollback: \<open>registry(name)\<close> throws for a registry that does not exist.\<close>

fun addBroadcast_rollback ::
  "RouteUUID \<Rightarrow> RegistryBroadcast \<Rightarrow> 'p RegistryFactory \<Rightarrow> 'p RegistryFactory throwing" where
  "addBroadcast_rollback uuid [] f = Inr f"
| "addBroadcast_rollback uuid ((name, rs) # rest) f =
     exn_bind (rf_registry f name)
       (\<lambda>r. addBroadcast_rollback uuid rest
              (f\<lparr>registries := om_set name (reg_removeExternal uuid r) (registries f)\<rparr>))"

definition addBroadcast ::
  "registry_env \<Rightarrow> RouteUUID \<Rightarrow> RegistryBroadcast \<Rightarrow> 'p RegistryFactory
   \<Rightarrow> (Status \<times> 'p RegistryFactory) throwing" where
  "addBroadcast env uuid b f =
     (if uuid \<in> extensions f
      then Inr (Status_msg 1 (''Duplicate extension UUID: '' @ to_string_u64 uuid), f)
      else case (if allow_duplicates f then None else broadcast_conflict f (broadcast_items b)) of
        Some item \<Rightarrow>
          Inr (Status_msg 1 (''Registry item '' @ item @ '' conflicts with another item of the same name.''), f)
      | None \<Rightarrow>
          (case addBroadcast_loop env uuid b success f of
             (Returned st, f') \<Rightarrow> Inr (st, f')
           | (Fell_through st, f') \<Rightarrow>
               exn_bind (if \<not> ok st then addBroadcast_rollback uuid b f' else Inr f')
                 (\<lambda>f''. Inr (st, f''\<lparr>extensions := insert uuid (extensions f'')\<rparr>))))"

definition removeBroadcast :: "RouteUUID \<Rightarrow> 'p RegistryFactory \<Rightarrow> Status \<times> 'p RegistryFactory" where
  "removeBroadcast uuid f =
     (if uuid \<notin> extensions f
      then (Status_msg 1 (''Unknown extension UUID: '' @ to_string_u64 uuid), f)
      else (success,
        f\<lparr>registries := map (\<lambda>(n, r). (n, reg_removeExternal uuid r)) (registries f),
          extensions := extensions f - {uuid}\<rparr>))"

definition rf_addAlias ::
  "string \<Rightarrow> string \<Rightarrow> string \<Rightarrow> 'p RegistryFactory \<Rightarrow> Status \<times> 'p RegistryFactory" where
  "rf_addAlias registry_name item_name alias f =
     (case om_get (registries f) registry_name of
        None \<Rightarrow> (Status_msg 1 (''Unknown registry: '' @ registry_name), f)
      | Some r \<Rightarrow>
          (let (st, r') = reg_addAlias item_name alias r
           in (st, f\<lparr>registries := om_set registry_name r' (registries f)\<rparr>)))"

definition rf_getAlias :: "'p RegistryFactory \<Rightarrow> string \<Rightarrow> string \<Rightarrow> string" where
  "rf_getAlias f registry_name alias =
     (case om_get (registries f) registry_name of None \<Rightarrow> alias | Some r \<Rightarrow> reg_getAlias r alias)"

definition rf_call_one ::
  "'p Plugin_ops \<Rightarrow> registry_env \<Rightarrow> string \<Rightarrow> string \<Rightarrow> PluginRequest \<Rightarrow> PluginResponse \<Rightarrow> 'p RegistryFactory
   \<Rightarrow> (Status \<times> PluginResponse \<times> 'p RegistryFactory) throwing" where
  "rf_call_one ops env registry_name item_name request response f =
     exn_bind (rf_registry f registry_name)
       (\<lambda>r. exn_bind (reg_call ops env item_name request response r)
          (\<lambda>(st, resp, r'). Inr (st, resp, f\<lparr>registries := om_set registry_name r' (registries f)\<rparr>)))"

fun rf_call_multi ::
  "'p Plugin_ops \<Rightarrow> registry_env \<Rightarrow> string \<Rightarrow> string list \<Rightarrow> PluginRequest \<Rightarrow> PluginResponse
   \<Rightarrow> 'p RegistryFactory \<Rightarrow> (Status \<times> PluginResponse \<times> 'p RegistryFactory) throwing" where
  "rf_call_multi ops env registry_name [] request response f = Inr (Status_code 0, response, f)"
| "rf_call_multi ops env registry_name (item # rest) request response f =
     exn_bind (rf_call_one ops env registry_name item request response f)
       (\<lambda>(_, resp, f'). rf_call_multi ops env registry_name rest request resp f')"

text \<open>
  The call with its handler: \<open>ignore\<close> is the flag \<open>ignore_registry_exceptions\<close>, \<open>what\<close> the text of an
  exception. State changed before the exception stays changed in the code; the model keeps the state
  from before the call, and no property looks at the state after an exception.
\<close>

definition rf_call ::
  "bool \<Rightarrow> (cpp_exn \<Rightarrow> string) \<Rightarrow> 'p Plugin_ops \<Rightarrow> registry_env \<Rightarrow> string \<Rightarrow> string \<Rightarrow> PluginRequest
   \<Rightarrow> PluginResponse \<Rightarrow> 'p RegistryFactory \<Rightarrow> (Status \<times> PluginResponse \<times> 'p RegistryFactory) throwing" where
  "rf_call ignore what ops env registry_name item_name request response f =
     (case (if CHR '','' \<in> set item_name
            then rf_call_multi ops env registry_name (env_split env item_name) request response f
            else rf_call_one ops env registry_name item_name request response f) of
        Inr x \<Rightarrow> Inr x
      | Inl e \<Rightarrow> if \<not> ignore then Inl e else Inr (Status_msg 1 (what e), response, f))"

definition rf_call_active ::
  "bool \<Rightarrow> (cpp_exn \<Rightarrow> string) \<Rightarrow> 'p Plugin_ops \<Rightarrow> registry_env \<Rightarrow> string \<Rightarrow> PluginRequest
   \<Rightarrow> PluginResponse \<Rightarrow> 'p RegistryFactory \<Rightarrow> (Status \<times> PluginResponse \<times> 'p RegistryFactory) throwing" where
  "rf_call_active ignore what ops env registry_name request response f =
     exn_bind (rf_registry f registry_name)
       (\<lambda>r. rf_call ignore what ops env registry_name (active r) request response f)"

definition rf_setActive ::
  "'p Plugin_ops \<Rightarrow> registry_env \<Rightarrow> string \<Rightarrow> string \<Rightarrow> 'p RegistryFactory
   \<Rightarrow> (Status \<times> 'p RegistryFactory) throwing" where
  "rf_setActive ops env registry_name item_name f =
     exn_bind (rf_registry f registry_name)
       (\<lambda>r. exn_bind (reg_setActive ops env item_name r)
          (\<lambda>(st, r'). Inr (st, f\<lparr>registries := om_set registry_name r' (registries f)\<rparr>)))"

definition rf_setUp :: "'p Plugin_ops \<Rightarrow> 'p RegistryFactory \<Rightarrow> 'p RegistryFactory" where
  "rf_setUp ops f = f\<lparr>registries := map (\<lambda>(n, r). (n, reg_setUp ops r)) (registries f)\<rparr>"

definition rf_names :: "'p RegistryFactory \<Rightarrow> string list" where
  "rf_names f = map (\<lambda>(_, r). reg_name r) (registries f)"

definition rf_count :: "'p RegistryFactory \<Rightarrow> string \<Rightarrow> nat" where
  "rf_count f registry_name =
     (case om_get (registries f) registry_name of None \<Rightarrow> 0 | Some r \<Rightarrow> length (items r))"

section \<open>Well-formed registries\<close>

definition reg_wf :: "'p RegistryInterface \<Rightarrow> bool" where
  "reg_wf r \<longleftrightarrow> om_wf (items r) \<and> om_wf (aliases r) \<and> om_wf (external r) \<and> om_wf (routes r)"

text \<open>Every external item has a recorded route and is known to the plugin type; the extensions on
  record own every external item.\<close>

definition reg_inv :: "RouteUUID set \<Rightarrow> 'p RegistryInterface \<Rightarrow> bool" where
  "reg_inv exts r \<longleftrightarrow>
     reg_wf r \<and>
     (\<forall>n u. om_get (external r) n = Some u \<longrightarrow> u \<in> exts) \<and>
     set (plugin_externals r) \<subseteq> set (om_keys (external r)) \<and>
     set (om_keys (external r)) \<subseteq> set (om_keys (routes r))"

definition rf_inv :: "'p RegistryFactory \<Rightarrow> bool" where
  "rf_inv f \<longleftrightarrow>
     om_wf (registries f) \<and> (\<forall>n r. om_get (registries f) n = Some r \<longrightarrow> reg_inv (extensions f) r)"

lemma om_has_iff: "om_has m k \<longleftrightarrow> k \<in> set (om_keys m)"
  by (simp add: om_has_def om_keys_iff)

lemma reg_addExternal_frame:
  "reg_addExternal env uuid rs r = (st, r1) \<Longrightarrow>
   items r1 = items r \<and> aliases r1 = aliases r \<and> internal r1 = internal r \<and> active r1 = active r \<and>
   reg_name r1 = reg_name r \<and> auto_setup r1 = auto_setup r"
proof (induction env uuid rs r rule: reg_addExternal.induct)
  case (2 env uuid name info rest r)
  then show ?case by (auto simp: Let_def split: if_splits)
qed simp

lemma reg_addExternal_ok:
  "reg_addExternal env uuid rs r = (st, r1) \<Longrightarrow> ok st \<Longrightarrow>
   external r1 = fold (\<lambda>(n, _). om_set n uuid) rs (external r) \<and>
   routes r1 = fold (\<lambda>(n, i). om_set n i) rs (routes r) \<and>
   plugin_externals r1 = plugin_externals r @ map fst rs"
proof (induction env uuid rs r rule: reg_addExternal.induct)
  case (2 env uuid name info rest r)
  then show ?case by (auto simp: Let_def split: if_splits)
qed simp

lemma external_of_uuid:
  "om_wf (external r) \<Longrightarrow>
   n \<in> set (map fst (filter (\<lambda>(_, u). u = uuid) (external r))) \<longleftrightarrow> om_get (external r) n = Some uuid"
  by (force simp: om_get_mem)

lemma reg_removeExternal_external:
  "reg_wf r \<Longrightarrow> om_get (external (reg_removeExternal uuid r)) n =
     (if om_get (external r) n = Some uuid then None else om_get (external r) n)"
  by (simp add: reg_removeExternal_def Let_def reg_wf_def om.get_fold_del external_of_uuid del: set_map)

lemma reg_removeExternal_routes:
  "reg_wf r \<Longrightarrow> om_get (routes (reg_removeExternal uuid r)) n =
     (if om_get (external r) n = Some uuid then None else om_get (routes r) n)"
  by (simp add: reg_removeExternal_def Let_def reg_wf_def om.get_fold_del external_of_uuid del: set_map)

lemma reg_removeExternal_plugin_externals:
  "reg_wf r \<Longrightarrow> plugin_externals (reg_removeExternal uuid r) =
     filter (\<lambda>n. om_get (external r) n \<noteq> Some uuid) (plugin_externals r)"
  by (simp add: reg_removeExternal_def Let_def reg_wf_def external_of_uuid del: set_map)

lemma reg_removeExternal_wf: "reg_wf r \<Longrightarrow> reg_wf (reg_removeExternal uuid r)"
  by (simp add: reg_removeExternal_def Let_def reg_wf_def om.invar_fold_del)

lemma reg_removeExternal_frame:
  "items (reg_removeExternal uuid r) = items r" "aliases (reg_removeExternal uuid r) = aliases r"
  "internal (reg_removeExternal uuid r) = internal r" "active (reg_removeExternal uuid r) = active r"
  "reg_name (reg_removeExternal uuid r) = reg_name r"
  "auto_setup (reg_removeExternal uuid r) = auto_setup r"
  by (simp_all add: reg_removeExternal_def Let_def)

lemma fold_const_upd:
  "fold (\<lambda>(n, _). om_set n u) rs m = fold (\<lambda>(k, v). om_set k v) (map (\<lambda>(n, _). (n, u)) rs) m"
  by (simp add: fold_map comp_def case_prod_unfold)

lemma map_of_const: "map_of (rev (map (\<lambda>(n, _). (n, u)) rs)) n = (if n \<in> fst ` set rs then Some u else None)"
  by (induction rs) (auto simp: map_add_def split: option.splits)

text \<open>Adding the routes of an extension and removing them restores the registry.\<close>

lemma reg_add_remove:
  assumes add: "reg_addExternal env uuid rs r = (st, r1)" "ok st"
    and inv: "reg_inv exts r" "uuid \<notin> exts"
    and free: "\<And>n. n \<in> fst ` set rs \<Longrightarrow> \<not> existsUnsafe r n False"
  shows "reg_removeExternal uuid r1 = r"
proof -
  have ok1: "external r1 = fold (\<lambda>(n, _). om_set n uuid) rs (external r)"
      "routes r1 = fold (\<lambda>(n, i). om_set n i) rs (routes r)"
      "plugin_externals r1 = plugin_externals r @ map fst rs"
    using reg_addExternal_ok [OF add] by blast+
  note fr = reg_addExternal_frame [OF add(1)]
  have wf: "reg_wf r" and owned: "\<And>n. om_get (external r) n \<noteq> Some uuid"
    and known: "set (plugin_externals r) \<subseteq> set (om_keys (external r))"
    using inv by (auto simp: reg_inv_def)
  have ext1: "om_get (external r1) n = (if n \<in> fst ` set rs then Some uuid else om_get (external r) n)" for n
    using wf unfolding ok1(1) fold_const_upd
    by (simp add: om.get_fold_upd reg_wf_def map_of_const del: om_get_set split: option.splits)
  have wf1: "reg_wf r1"
    using wf fr unfolding reg_wf_def ok1 fold_const_upd by (simp add: om.invar_fold_upd)
  have owned1: "om_get (external r1) n = Some uuid \<longleftrightarrow> n \<in> fst ` set rs" for n
    using owned by (auto simp: ext1)
  have free': "om_get (external r) n = None" "om_get (routes r) n = None" if "n \<in> fst ` set rs" for n
    using free [OF that] by (auto simp: existsUnsafe_def om_has_def)
  have routes1: "om_get (routes r1) n = om_get (routes r) n" if "n \<notin> fst ` set rs" for n
    using wf that unfolding ok1(2)
    by (force simp: om.get_fold_upd reg_wf_def split: option.splits dest!: map_of_SomeD)
  have "external (reg_removeExternal uuid r1) = external r"
    using wf wf1 reg_removeExternal_wf [OF wf1] free' owned
    by (intro om_eqI) (auto simp: reg_wf_def reg_removeExternal_external [OF wf1] owned1 ext1)
  moreover have "routes (reg_removeExternal uuid r1) = routes r"
    using wf wf1 reg_removeExternal_wf [OF wf1] free' routes1
    by (intro om_eqI) (auto simp: reg_wf_def reg_removeExternal_routes [OF wf1] owned1)
  moreover have "plugin_externals (reg_removeExternal uuid r1) = plugin_externals r"
  proof -
    have "n \<notin> fst ` set rs" if "n \<in> set (plugin_externals r)" for n
    proof
      assume "n \<in> fst ` set rs"
      then have "om_get (external r) n = None" by (rule free'(1))
      then show False using known that wf by (auto simp: om_keys_iff reg_wf_def)
    qed
    then show ?thesis
      by (auto simp: reg_removeExternal_plugin_externals [OF wf1] owned1 ok1(3) filter_id_conv filter_empty_conv)
  qed
  ultimately show ?thesis
    by (simp add: reg_removeExternal_frame fr)
qed

lemma reg_removeExternal_none:
  assumes "reg_inv exts r" "uuid \<notin> exts"
  shows "reg_removeExternal uuid r = r"
proof -
  have "filter (\<lambda>(_, u). u = uuid) (external r) = []"
    using assms by (auto simp: reg_inv_def reg_wf_def om_get_mem filter_empty_conv)
  then show ?thesis by (simp add: reg_removeExternal_def)
qed

section \<open>Broadcasts\<close>

lemma om_get_map: "om_get (map (\<lambda>(n, r). (n, g r)) m) k = map_option g (om_get m k)"
  by (induction m) (auto simp: om_get_def)

lemma om_wf_map: "om_wf (map (\<lambda>(n, r). (n, g r)) m) \<longleftrightarrow> om_wf m"
  by (simp add: om_wf_def comp_def case_prod_unfold)

lemma addBroadcast_loop_ok:
  assumes "addBroadcast_loop env uuid b st0 f = (Fell_through st, f')" "ok st"
    "distinct (map fst b)" "om_wf (registries f)"
  shows "om_wf (registries f') \<and> extensions f' = extensions f \<and> allow_duplicates f' = allow_duplicates f \<and>
    (\<forall>n. om_get (registries f') n =
      (case map_of b n of
         None \<Rightarrow> om_get (registries f) n
       | Some rs \<Rightarrow> map_option (\<lambda>r. snd (reg_addExternal env uuid rs r)) (om_get (registries f) n))) \<and>
    (\<forall>n rs. map_of b n = Some rs \<longrightarrow>
      (\<exists>r. om_get (registries f) n = Some r \<and> ok (fst (reg_addExternal env uuid rs r))))"
  using assms
proof (induction b arbitrary: st0 f)
  case (Cons p b)
  obtain name rs where p: "p = (name, rs)" by (cases p)
  obtain r where r: "om_get (registries f) name = Some r"
    using Cons.prems(1) by (auto simp: p split: option.splits)
  obtain st1 r1 where add: "reg_addExternal env uuid rs r = (st1, r1)" by fastforce
  let ?f = "f\<lparr>registries := om_set name r1 (registries f)\<rparr>"
  have ok1: "ok st1" using Cons.prems(1,2) by (auto simp: p r add Let_def split: if_splits)
  have loop: "addBroadcast_loop env uuid b st1 ?f = (Fell_through st, f')"
    using Cons.prems(1) ok1 by (simp add: p r add Let_def)
  have fresh: "map_of b name = None" using Cons.prems(3) by (simp add: p map_of_eq_None_iff)
  have IH: "om_wf (registries f') \<and> extensions f' = extensions ?f \<and> allow_duplicates f' = allow_duplicates ?f \<and>
    (\<forall>n. om_get (registries f') n =
      (case map_of b n of
         None \<Rightarrow> om_get (registries ?f) n
       | Some rs \<Rightarrow> map_option (\<lambda>r. snd (reg_addExternal env uuid rs r)) (om_get (registries ?f) n))) \<and>
    (\<forall>n rs. map_of b n = Some rs \<longrightarrow>
      (\<exists>r. om_get (registries ?f) n = Some r \<and> ok (fst (reg_addExternal env uuid rs r))))"
    using Cons.prems by (intro Cons.IH [OF loop]) (auto simp: p)
  have get: "om_get (registries f') n =
      (case map_of (p # b) n of
         None \<Rightarrow> om_get (registries f) n
       | Some rs \<Rightarrow> map_option (\<lambda>r. snd (reg_addExternal env uuid rs r)) (om_get (registries f) n))" for n
    using IH fresh by (auto simp: p r add split: option.splits)
  have each: "\<exists>r. om_get (registries f) n = Some r \<and> ok (fst (reg_addExternal env uuid rs' r))"
    if "map_of (p # b) n = Some rs'" for n rs'
    using IH that r add ok1 by (auto simp: p split: if_splits)
  show ?case using IH get each by auto
qed auto

lemma broadcast_conflict_None:
  "broadcast_conflict f xs = None \<longleftrightarrow> (\<forall>(reg, item) \<in> set xs. \<not> rf_exists f reg item False)"
  by (induction f xs rule: broadcast_conflict.induct) auto

lemma broadcast_items_iff:
  "(reg, item) \<in> set (broadcast_items b) \<longleftrightarrow> (\<exists>rs. (reg, rs) \<in> set b \<and> item \<in> fst ` set rs)"
  by (auto simp: broadcast_items_def image_iff) force+

lemma addBroadcast_loop_Returned:
  "addBroadcast_loop env uuid b st0 f = (Returned st, f') \<Longrightarrow> \<not> ok st"
  by (induction env uuid b st0 f rule: addBroadcast_loop.induct)
    (auto simp: Let_def ok_def Status_msg_def kSuccessCode_def split: option.splits prod.splits if_splits)

text \<open>A broadcast accepted and then withdrawn leaves no trace.\<close>

lemma broadcast_roundtrip:
  assumes inv: "rf_inv f" and b: "om_wf b" and dup: "\<not> allow_duplicates f"
    and add: "addBroadcast env uuid b f = Inr (st, f1)" "ok st"
  shows "removeBroadcast uuid f1 = (success, f)"
proof -
  have new: "uuid \<notin> extensions f" using add by (auto simp: addBroadcast_def)
  have conf: "broadcast_conflict f (broadcast_items b) = None"
    using add dup new by (auto simp: addBroadcast_def split: option.splits)
  have wf: "om_wf (registries f)" using inv by (simp add: rf_inv_def)
  obtain ex f' where loop: "addBroadcast_loop env uuid b success f = (ex, f')" by fastforce
  obtain "ex = Fell_through st" and f1: "f1 = f'\<lparr>extensions := insert uuid (extensions f')\<rparr>"
    using add new conf dup loop addBroadcast_loop_Returned [of env uuid b success f]
    by (cases ex) (auto simp: addBroadcast_def exn_bind_Inr_iff split: if_splits)
  then have loop': "addBroadcast_loop env uuid b success f = (Fell_through st, f')" using loop by simp
  have b': "distinct (map fst b)" using om_keys_distinct [OF b] by (simp add: om_keys_def)
  note L = addBroadcast_loop_ok [OF loop' add(2) b' wf]
  have L': "om_get (registries f') n = (case map_of b n of
      None \<Rightarrow> om_get (registries f) n
    | Some rs \<Rightarrow> map_option (\<lambda>r. snd (reg_addExternal env uuid rs r)) (om_get (registries f) n))" for n
    using L by blast
  have each: "reg_removeExternal uuid r' = r"
    if "om_get (registries f') n = Some r'" "om_get (registries f) n = Some r" for n r r'
  proof (cases "map_of b n")
    case None
    then have "r' = r" using L that by auto
    then show ?thesis
      using inv that new by (auto intro!: reg_removeExternal_none simp: rf_inv_def)
  next
    case (Some rs)
    have r': "r' = snd (reg_addExternal env uuid rs r)" using L that Some by auto
    have "ok (fst (reg_addExternal env uuid rs r))" using L Some that(2) by fastforce
    moreover have "\<not> existsUnsafe r item False" if "item \<in> fst ` set rs" for item
    proof -
      have "(n, item) \<in> set (broadcast_items b)"
        unfolding broadcast_items_iff using map_of_SomeD [OF Some] that by blast
      then have "\<not> rf_exists f n item False" using conf by (auto simp: broadcast_conflict_None)
      then show ?thesis using \<open>om_get (registries f) n = Some r\<close> by (simp add: rf_exists_def)
    qed
    moreover have "reg_inv (extensions f) r" using inv that(2) by (auto simp: rf_inv_def)
    ultimately show ?thesis
      using new r' by (metis prod.collapse reg_add_remove)
  qed
  have "om_get (map (\<lambda>(n, r). (n, reg_removeExternal uuid r)) (registries f')) n = om_get (registries f) n" for n
  proof (cases "om_get (registries f) n")
    case None
    then have "om_get (registries f') n = None" using L' [of n] by (auto split: option.splits)
    then show ?thesis using None by (simp add: om_get_map)
  next
    case (Some r)
    then obtain r' where "om_get (registries f') n = Some r'" using L' [of n] by (cases "map_of b n") auto
    then show ?thesis using Some each by (simp add: om_get_map)
  qed
  then have "map (\<lambda>(n, r). (n, reg_removeExternal uuid r)) (registries f') = registries f"
    using L wf by (intro om_eqI) (auto simp: om_wf_map)
  then show ?thesis using L new by (simp add: removeBroadcast_def f1)
qed

section \<open>Properties\<close>

text \<open>
  C11. An extension comes and goes without a trace: when a broadcast of an extension is accepted, and
  the extension is removed later with nothing else in between, every registry, every route and every
  attached item is again what it was, and so is the set of extensions.\<close>

theorem extension_leaves_no_trace:
  assumes "rf_inv f" "om_wf b" "\<not> allow_duplicates f"
    and "addBroadcast env uuid b f = Inr (st, f1)" "ok st"
  shows "removeBroadcast uuid f1 = (success, f)"
  by (rule broadcast_roundtrip [OF assms])

definition sample_factory :: "unit RegistryFactory" where
  "sample_factory =
     \<lparr>allow_duplicates = False,
      registries = [(''config'', RegistryInterface_new ''config'' False),
                    (''table'', RegistryInterface_new ''table'' False)],
      extensions = {}\<rparr>"

definition sample_env :: "(string \<Rightarrow> Status) \<Rightarrow> registry_env" where
  "sample_env attach =
     \<lparr>env_split = (\<lambda>s. [s]), env_addExternal = (\<lambda>name _. attach name), env_pingExtension = (\<lambda>_. success),
      env_callExtension = (\<lambda>_ _ _ _ r. (success, r)), env_external = False\<rparr>"

lemma sample_factory_inv: "rf_inv sample_factory"
  by (simp add: rf_inv_def sample_factory_def om_wf_def om_get_def reg_inv_def reg_wf_def
      RegistryInterface_new_def om_keys_def)

theorem extension_leaves_no_trace_witness:
  "\<exists>f1. addBroadcast (sample_env (\<lambda>_. success)) 7 [(''table'', [(''foo'', [])])] sample_factory = Inr (success, f1) \<and>
     rf_exists f1 ''table'' ''foo'' False \<and> removeBroadcast 7 f1 = (success, sample_factory)"
proof -
  let ?b = "[(''table'', [(''foo'', [])])] :: RegistryBroadcast"
  obtain f1 where f1: "addBroadcast (sample_env (\<lambda>_. success)) 7 ?b sample_factory = Inr (success, f1)"
    "rf_exists f1 ''table'' ''foo'' False"
    by (simp add: addBroadcast_def sample_factory_def broadcast_items_def sample_env_def om_get_def
        rf_exists_def existsUnsafe_def RegistryInterface_new_def om_has_def)
  have "om_wf ?b" "\<not> allow_duplicates sample_factory" by (simp_all add: om_wf_def sample_factory_def)
  then have "removeBroadcast 7 f1 = (success, sample_factory)"
    using extension_leaves_no_trace [OF sample_factory_inv _ _ f1(1)] by simp
  with f1 show ?thesis by blast
qed

text \<open>
  A refused broadcast does leave traces. When attaching the second of two tables fails, the caller
  gets the failure, yet the extension is on record, the route of the table that failed stays, and a
  second attempt is turned away as a duplicate. When the broadcast names a registry that does not
  exist after one that does, the items added before stay attached and nothing is rolled back.\<close>

theorem refused_broadcast_leaves_traces:
  "(\<exists>f1. addBroadcast (sample_env (\<lambda>n. if n = ''foo'' then success else failure ''attach''))
          7 [(''table'', [(''foo'', []), (''goo'', [])])] sample_factory = Inr (failure ''attach'', f1) \<and>
        7 \<in> extensions f1 \<and>
        (\<exists>r. rf_registry f1 ''table'' = Inr r \<and> om_keys (routes r) = [''goo''] \<and> om_keys (external r) = []) \<and>
        addBroadcast (sample_env (\<lambda>_. success)) 7 [(''table'', [(''goo'', [])])] f1 =
          Inr (Status_msg 1 (''Duplicate extension UUID: '' @ to_string_u64 7), f1)) \<and>
   (\<exists>f1. addBroadcast (sample_env (\<lambda>_. success)) 7
          [(''table'', [(''foo'', [])]), (''tablet'', [])] sample_factory =
          Inr (Status_msg 1 (''Unknown registry: '' @ ''tablet''), f1) \<and>
        7 \<notin> extensions f1 \<and> rf_exists f1 ''table'' ''foo'' False)"
  by (simp add: addBroadcast_def sample_factory_def broadcast_items_def sample_env_def om_get_def
        rf_exists_def existsUnsafe_def RegistryInterface_new_def om_has_def rf_registry_def
        reg_removeExternal_def om_keys_def)

end
