(* ===== verification/Json.thy ===== *)
theory Json
  imports Results
begin

text \<open>
  The JSON wrapper of \<open>osquery/utils/json/json.cpp\<close> over RapidJSON. RapidJSON itself is not in the
  repository: printing, parsing and removing a member are the fields of a record that the operations
  take as their first argument. What the code relies on is stated as predicates on that record; a
  codec defined at the end of the theory satisfies them.
\<close>

section \<open>Documents\<close>

text \<open>
  Doubles are the finite ones, as rationals. \<open>JInt\<close> holds every number RapidJSON stores as an integer.
\<close>

datatype json =
    JNull
  | JBool bool
  | JInt int
  | JDouble rat
  | JString string
  | JArray "json list"
  | JObject "(string \<times> json) list"

type_synonym members = "(string \<times> json) list"

record rapidjson =
  rj_print :: "json \<Rightarrow> string"
  rj_parse :: "string \<Rightarrow> json option"
  rj_remove_member :: "string \<Rightarrow> members \<Rightarrow> members"

definition rj_roundtrip :: "rapidjson \<Rightarrow> bool" where
  "rj_roundtrip rj \<longleftrightarrow> (\<forall>j. rj_parse rj (rj_print rj j) = Some j)"

text \<open>The writer escapes control characters, so the text of a document has no NUL byte.\<close>

definition rj_text_ok :: "rapidjson \<Rightarrow> bool" where
  "rj_text_ok rj \<longleftrightarrow> (\<forall>j. CHR 0x00 \<notin> set (rj_print rj j))"

text \<open>\<open>RemoveMember\<close> takes out the member and may reorder the others.\<close>

definition rj_remove_ok :: "rapidjson \<Rightarrow> bool" where
  "rj_remove_ok rj \<longleftrightarrow>
     (\<forall>k ms. distinct (map fst ms) \<longrightarrow>
        mset (rj_remove_member rj k ms) = filter_mset (\<lambda>(k', _). k' \<noteq> k) (mset ms))"

fun IsObject :: "json \<Rightarrow> bool" where
  "IsObject (JObject _) = True"
| "IsObject _ = False"

fun IsArray :: "json \<Rightarrow> bool" where
  "IsArray (JArray _) = True"
| "IsArray _ = False"

fun IsString :: "json \<Rightarrow> bool" where
  "IsString (JString _) = True"
| "IsString _ = False"

fun IsDouble :: "json \<Rightarrow> bool" where
  "IsDouble (JDouble _) = True"
| "IsDouble _ = False"

fun IsInt64 :: "json \<Rightarrow> bool" where
  "IsInt64 (JInt i) = (- (2 ^ 63) \<le> i \<and> i < 2 ^ 63)"
| "IsInt64 _ = False"

fun IsNumber :: "json \<Rightarrow> bool" where
  "IsNumber (JInt _) = True"
| "IsNumber (JDouble _) = True"
| "IsNumber _ = False"

text \<open>\<open>FindMember\<close>, \<open>HasMember\<close>: the first member of that name.\<close>

definition FindMember :: "members \<Rightarrow> string \<Rightarrow> json option" where
  "FindMember ms k = map_of ms k"

definition HasMember :: "members \<Rightarrow> string \<Rightarrow> bool" where
  "HasMember ms k \<longleftrightarrow> FindMember ms k \<noteq> None"

text \<open>\<open>GetString\<close> hands out a C string; a \<open>std::string\<close> made from it ends at the first NUL byte.\<close>

definition c_str :: "string \<Rightarrow> string" where
  "c_str s = takeWhile (\<lambda>c. c \<noteq> CHR 0x00) s"

definition no_nul :: "string \<Rightarrow> bool" where
  "no_nul s \<longleftrightarrow> CHR 0x00 \<notin> set s"

lemma c_str_no_nul [simp]: "no_nul s \<Longrightarrow> c_str s = s"
  by (auto simp: c_str_def no_nul_def takeWhile_eq_all_conv)

lemma no_nul_c_str [simp]: "no_nul (c_str s)"
  by (auto simp: c_str_def no_nul_def dest: set_takeWhileD)

section \<open>The wrapper\<close>

datatype json_type = kObjectType | kArrayType

record JSON =
  js_type :: json_type
  js_doc :: json

definition JSON_make :: "json_type \<Rightarrow> JSON" where
  "JSON_make t = \<lparr>js_type = t, js_doc = (case t of kObjectType \<Rightarrow> JObject [] | kArrayType \<Rightarrow> JArray [])\<rparr>"

definition newObject :: JSON where "newObject = JSON_make kObjectType"

definition newArray :: JSON where "newArray = JSON_make kArrayType"

definition json_push :: "json \<Rightarrow> json list \<Rightarrow> json list" where
  "json_push value arr = arr @ [value]"

definition json_push_size :: "u64 \<Rightarrow> json list \<Rightarrow> json list" where
  "json_push_size value arr = arr @ [JInt (uint value)]"

definition json_pushCopy :: "string \<Rightarrow> json list \<Rightarrow> json list" where
  "json_pushCopy value arr = arr @ [JString value]"

text \<open>
  Every overload of \<open>add\<close> replaces a member of the same name: it removes the old one and appends.
  The object is its member list, so the assertion that it is an object holds by type.
\<close>

definition json_add :: "rapidjson \<Rightarrow> string \<Rightarrow> json \<Rightarrow> members \<Rightarrow> members" where
  "json_add rj key value obj =
     (if HasMember obj key then rj_remove_member rj key obj else obj) @ [(key, value)]"

definition json_addCopy :: "rapidjson \<Rightarrow> string \<Rightarrow> string \<Rightarrow> members \<Rightarrow> members" where
  "json_addCopy rj key value obj = json_add rj key (JString value) obj"

definition json_addRef :: "rapidjson \<Rightarrow> string \<Rightarrow> string \<Rightarrow> members \<Rightarrow> members" where
  "json_addRef rj key value obj = json_add rj key (JString value) obj"

definition json_add_chars :: "rapidjson \<Rightarrow> string \<Rightarrow> string \<Rightarrow> members \<Rightarrow> members" where
  "json_add_chars rj key value obj = json_add rj key (JString (c_str value)) obj"

definition json_add_longlong :: "rapidjson \<Rightarrow> string \<Rightarrow> int \<Rightarrow> members \<Rightarrow> members" where
  "json_add_longlong rj key value obj = json_add rj key (JInt value) obj"

definition json_add_ulong :: "rapidjson \<Rightarrow> string \<Rightarrow> u64 \<Rightarrow> members \<Rightarrow> members" where
  "json_add_ulong rj key value obj = json_add rj key (JInt (uint value)) obj"

definition json_add_double :: "rapidjson \<Rightarrow> string \<Rightarrow> rat \<Rightarrow> members \<Rightarrow> members" where
  "json_add_double rj key value obj = json_add rj key (JDouble value) obj"

definition json_add_bool :: "rapidjson \<Rightarrow> string \<Rightarrow> bool \<Rightarrow> members \<Rightarrow> members" where
  "json_add_bool rj key value obj = json_add rj key (JBool value) obj"

lemmas json_add_simps = json_addCopy_def json_addRef_def json_add_chars_def json_add_longlong_def
  json_add_ulong_def json_add_double_def json_add_bool_def

definition json_toString :: "rapidjson \<Rightarrow> json \<Rightarrow> Status \<times> string" where
  "json_toString rj d = (success, rj_print rj d)"

text \<open>The parse error's text and offset come from RapidJSON; only the outcome is modelled.\<close>

definition json_fromString :: "rapidjson \<Rightarrow> string \<Rightarrow> Status \<times> json option" where
  "json_fromString rj s =
     (case rj_parse rj (c_str s) of
        None \<Rightarrow> (Status_msg 1 ''Cannot parse JSON: '', None)
      | Some d \<Rightarrow> (success, Some d))"

definition mergeObject :: "rapidjson \<Rightarrow> members \<Rightarrow> members \<Rightarrow> members" where
  "mergeObject rj target source = fold (\<lambda>(k, v) t. json_add rj k v t) source target"

definition mergeArray :: "json list \<Rightarrow> json list \<Rightarrow> json list" where
  "mergeArray target source = fold (\<lambda>v t. t @ [v]) source target"

text \<open>
  \<open>valueToSize\<close>: \<open>GetUint64\<close> of a number that is not one fails RapidJSON's assertion. The message
  text \<open>what\<close> of a failed conversion plays no part: \<open>takeOr\<close> replaces it by 0.
\<close>

definition valueToSize :: "json \<Rightarrow> u64 throwing" where
  "valueToSize v =
     (case v of
        JString s \<Rightarrow> exn_bind (takeOr False (tryTo_u64 (\<lambda>_. []) 10 (c_str s)) 0) (\<lambda>(n, _). Inr n)
      | JInt i \<Rightarrow> if 0 \<le> i \<and> i < 2 ^ 64 then Inr (word_of_int i)
                 else Inl (undefined_behaviour ''GetUint64'')
      | JDouble _ \<Rightarrow> Inl (undefined_behaviour ''GetUint64'')
      | _ \<Rightarrow> Inr 0)"

definition valueToBool :: "json \<Rightarrow> bool throwing" where
  "valueToBool v =
     (case v of
        JBool b \<Rightarrow> Inr b
      | JString s \<Rightarrow> (let b = map tolower (c_str s) in Inr (b = ''true'' \<or> b = ''t''))
      | JInt i \<Rightarrow> if - (2 ^ 31) \<le> i \<and> i < 2 ^ 31 then Inr (i \<noteq> 0)
                 else Inl (undefined_behaviour ''GetInt'')
      | JDouble _ \<Rightarrow> Inl (undefined_behaviour ''GetInt'')
      | _ \<Rightarrow> Inr False)"

text \<open>\<open>std::to_string\<close> of a double prints six decimals; the printer is an argument.\<close>

definition valueToString :: "(rat \<Rightarrow> string) \<Rightarrow> json \<Rightarrow> string option" where
  "valueToString double_to_string v =
     (case v of
        JBool False \<Rightarrow> Some ''0''
      | JBool True \<Rightarrow> Some ''1''
      | JInt i \<Rightarrow> Some (to_string_int i)
      | JDouble d \<Rightarrow> Some (double_to_string d)
      | JString s \<Rightarrow> Some (c_str s)
      | JNull \<Rightarrow> Some ''null''
      | JObject _ \<Rightarrow> None
      | JArray _ \<Rightarrow> None)"

section \<open>Facts about add\<close>

lemma json_add_fresh: "\<not> HasMember obj key \<Longrightarrow> json_add rj key v obj = obj @ [(key, v)]"
  by (simp add: json_add_def)

lemma HasMember_iff: "HasMember ms k \<longleftrightarrow> k \<in> fst ` set ms"
  by (simp add: HasMember_def FindMember_def map_of_eq_None_iff)

lemma fold_json_add_fresh:
  "distinct (map fst ms @ map fst obj) \<Longrightarrow> fold (\<lambda>(k, v). json_add rj k v) ms obj = obj @ ms"
proof (induction ms arbitrary: obj)
  case (Cons m ms)
  obtain k v where m: "m = (k, v)" by (cases m)
  have "\<not> HasMember obj k" using Cons.prems by (auto simp: m HasMember_iff)
  then have "fold (\<lambda>(k, v). json_add rj k v) (m # ms) obj =
      fold (\<lambda>(k, v). json_add rj k v) ms (obj @ [(k, v)])"
    by (simp add: m json_add_fresh)
  also have "\<dots> = (obj @ [(k, v)]) @ ms" using Cons.prems by (intro Cons.IH) (auto simp: m)
  finally show ?case by (simp add: m)
qed simp

text \<open>With distinct names, \<open>add\<close> is map update whatever order removal leaves.\<close>

lemma json_add_distinct:
  assumes "rj_remove_ok rj" "distinct (map fst obj)"
  shows "distinct (map fst (json_add rj key v obj))"
    and "map_of (json_add rj key v obj) = (map_of obj)(key \<mapsto> v)"
proof -
  define obj' where "obj' = (if HasMember obj key then rj_remove_member rj key obj else obj)"
  define rest where "rest = filter (\<lambda>(k', _). k' \<noteq> key) obj"
  have "\<not> HasMember obj key \<Longrightarrow> rest = obj"
    by (force simp: rest_def HasMember_iff filter_id_conv)
  then have ms: "mset obj' = mset rest"
    using assms by (cases "HasMember obj key") (simp_all add: obj'_def rj_remove_ok_def rest_def)
  have dr: "distinct (map fst rest)" using assms(2) by (simp add: rest_def distinct_map_filter)
  then have d': "distinct (map fst obj')" using ms by (metis mset_eq_imp_distinct_iff mset_map)
  have set': "set obj' = set rest" using ms by (metis mset_eq_setD)
  then have m': "map_of obj' = map_of rest" using dr d' by (simp add: map_of_inject_set)
  have fresh: "key \<notin> fst ` set obj'" by (auto simp: set' rest_def)
  have rest_of: "map_of rest k = (if k = key then None else map_of obj k)" for k
    unfolding rest_def by (induction obj) auto
  show "distinct (map fst (json_add rj key v obj))"
    using fresh d' by (simp add: json_add_def obj'_def [symmetric])
  show "map_of (json_add rj key v obj) = (map_of obj)(key \<mapsto> v)"
    by (rule ext) (simp add: json_add_def obj'_def [symmetric] m' rest_of map_add_def
        split: option.splits)
qed

section \<open>A codec\<close>

fun enc_str :: "string \<Rightarrow> string" where
  "enc_str [] = '';''"
| "enc_str (c # cs) = (if c = CHR 0x00 then ''zz'' else [CHR ''c'', c]) @ enc_str cs"

fun dec_str :: "string \<Rightarrow> (string \<times> string) option" where
  "dec_str [] = None"
| "dec_str [c] = (if c = CHR '';'' then Some ([], []) else None)"
| "dec_str (c # d # r) =
     (if c = CHR '';'' then Some ([], d # r)
      else case dec_str r of
             None \<Rightarrow> None
           | Some (s, r') \<Rightarrow> Some ((if c = CHR ''z'' then CHR 0x00 else d) # s, r'))"

definition dec_int :: "string \<Rightarrow> (int \<times> string) option" where
  "dec_int s =
     (case dec_str s of
        None \<Rightarrow> None
      | Some (t, r) \<Rightarrow>
          (case strto_raw 10 t of
             None \<Rightarrow> None
           | Some (neg, m) \<Rightarrow> Some (if neg then - int m else int m, r)))"

definition enc_int :: "int \<Rightarrow> string" where
  "enc_int i = enc_str (to_string_int i)"

fun enc :: "json \<Rightarrow> string" and enc_list :: "json list \<Rightarrow> string" and enc_members :: "members \<Rightarrow> string"
where
  "enc JNull = ''n''"
| "enc (JBool b) = (if b then ''t'' else ''f'')"
| "enc (JInt i) = CHR ''i'' # enc_int i"
| "enc (JDouble q) = CHR ''d'' # enc_int (fst (quotient_of q)) @ enc_int (snd (quotient_of q))"
| "enc (JString s) = CHR ''s'' # enc_str s"
| "enc (JArray js) = CHR ''['' # enc_list js"
| "enc (JObject ms) = CHR ''{'' # enc_members ms"
| "enc_list [] = '']''"
| "enc_list (j # js) = enc j @ enc_list js"
| "enc_members [] = ''}''"
| "enc_members ((k, j) # ms) = CHR ''k'' # enc_str k @ enc j @ enc_members ms"

fun dec :: "nat \<Rightarrow> string \<Rightarrow> (json \<times> string) option"
  and dec_list :: "nat \<Rightarrow> string \<Rightarrow> (json list \<times> string) option"
  and dec_members :: "nat \<Rightarrow> string \<Rightarrow> (members \<times> string) option"
where
  "dec 0 s = None"
| "dec (Suc f) [] = None"
| "dec (Suc f) (c # s) =
     (if c = CHR ''n'' then Some (JNull, s)
      else if c = CHR ''t'' then Some (JBool True, s)
      else if c = CHR ''f'' then Some (JBool False, s)
      else if c = CHR ''i'' then map_option (\<lambda>(i, r). (JInt i, r)) (dec_int s)
      else if c = CHR ''d'' then
        (case dec_int s of
           None \<Rightarrow> None
         | Some (a, r) \<Rightarrow> map_option (\<lambda>(b, r'). (JDouble (of_int a / of_int b), r')) (dec_int r))
      else if c = CHR ''s'' then map_option (\<lambda>(t, r). (JString t, r)) (dec_str s)
      else if c = CHR ''['' then map_option (\<lambda>(js, r). (JArray js, r)) (dec_list f s)
      else if c = CHR ''{'' then map_option (\<lambda>(ms, r). (JObject ms, r)) (dec_members f s)
      else None)"
| "dec_list 0 s = None"
| "dec_list (Suc f) s =
     (if s \<noteq> [] \<and> hd s = CHR '']'' then Some ([], tl s)
      else case dec f s of
             None \<Rightarrow> None
           | Some (j, r) \<Rightarrow> map_option (\<lambda>(js, r'). (j # js, r')) (dec_list f r))"
| "dec_members 0 s = None"
| "dec_members (Suc f) s =
     (if s \<noteq> [] \<and> hd s = CHR ''}'' then Some ([], tl s)
      else case dec_str (tl s) of
             None \<Rightarrow> None
           | Some (k, r) \<Rightarrow>
               (case dec f r of
                  None \<Rightarrow> None
                | Some (j, r') \<Rightarrow> map_option (\<lambda>(ms, r''). ((k, j) # ms, r'')) (dec_members f r')))"

text \<open>The codec bundled as a RapidJSON: removal keeps the order of the others.\<close>

definition codec_rapidjson :: rapidjson where
  "codec_rapidjson =
     \<lparr>rj_print = enc,
      rj_parse = (\<lambda>s. case dec (length s) s of Some (j, []) \<Rightarrow> Some j | _ \<Rightarrow> None),
      rj_remove_member = (\<lambda>k ms. filter (\<lambda>(k', _). k' \<noteq> k) ms)\<rparr>"

lemma dec_str_enc: "dec_str (enc_str s @ r) = Some (s, r)"
proof (induction s)
  case Nil
  show ?case by (cases r) simp_all
qed simp

lemma dec_int_enc: "dec_int (enc_int i @ r) = Some (i, r)"
  by (simp add: dec_int_def enc_int_def dec_str_enc to_string_int_def strto_raw_nat_digits
      strto_raw_neg_digits)

lemma enc_str_Cons: "\<exists>c cs. enc_str s = c # cs"
  by (cases s) auto

lemma enc_hd: "\<exists>c cs. enc j = c # cs \<and> c \<noteq> CHR '']''"
  by (cases j) auto

lemma enc_list_pos: "0 < length (enc_list js)"
proof (cases js)
  case (Cons j js')
  then show ?thesis using enc_hd [of j] by auto
qed simp

lemma enc_members_pos: "0 < length (enc_members ms)"
  by (cases ms) auto

lemma dec_enc:
  "(length (enc j) \<le> f \<longrightarrow> dec f (enc j @ r) = Some (j, r))" (is "?A f j r")
  "(length (enc_list js) \<le> f \<longrightarrow> dec_list f (enc_list js @ r) = Some (js, r))" (is "?B f js r")
  "(length (enc_members ms) \<le> f \<longrightarrow> dec_members f (enc_members ms @ r) = Some (ms, r))" (is "?C f ms r")
proof (induction f arbitrary: j js ms r)
  case 0
  { case 1 then show ?case using enc_hd [of j] by auto }
  { case 2 then show ?case using enc_list_pos [of js] by auto }
  { case 3 then show ?case using enc_members_pos [of ms] by auto }
next
  case (Suc f)
  note A = Suc(1) [rule_format] and B = Suc(2) [rule_format] and C = Suc(3) [rule_format]
  { case 1
    then show ?case
    proof (cases j)
      case (JDouble q)
      have "of_int (fst (quotient_of q)) / of_int (snd (quotient_of q)) = q"
        by (metis prod.collapse quotient_of_div)
      then show ?thesis by (simp add: JDouble dec_int_enc)
    qed (auto simp: dec_int_enc dec_str_enc B C) }
  { case 2
    then show ?case
    proof (cases js)
      case (Cons j' js')
      obtain c cs where c: "enc j' = c # cs" "c \<noteq> CHR '']''" using enc_hd by blast
      show ?thesis
      proof
        assume le: "length (enc_list js) \<le> Suc f"
        then have "length (enc j') \<le> f" "length (enc_list js') \<le> f"
          using enc_list_pos [of js'] c(1) by (simp_all only: Cons enc_list.simps length_append length_Cons)
        then show "dec_list (Suc f) (enc_list js @ r) = Some (js, r)"
          using A [of j' "enc_list js' @ r"] B [of js' r] c by (simp add: Cons)
      qed
    qed simp }
  { case 3
    then show ?case
    proof (cases ms)
      case (Cons m ms')
      obtain k j' where m: "m = (k, j')" by (cases m)
      show ?thesis
      proof
        assume le: "length (enc_members ms) \<le> Suc f"
        then have "length (enc j') \<le> f" "length (enc_members ms') \<le> f"
          using enc_members_pos [of ms'] by (auto simp: Cons m)
        then show "dec_members (Suc f) (enc_members ms @ r) = Some (ms, r)"
          using A [of j' "enc_members ms' @ r"] C [of ms' r] by (simp add: Cons m dec_str_enc)
      qed
    qed simp }
qed

lemma fromString_print:
  "rj_roundtrip rj \<Longrightarrow> rj_text_ok rj \<Longrightarrow> json_fromString rj (rj_print rj j) = (success, Some j)"
  by (simp add: json_fromString_def rj_roundtrip_def rj_text_ok_def no_nul_def)

lemma codec_roundtrip: "rj_roundtrip codec_rapidjson"
  unfolding rj_roundtrip_def codec_rapidjson_def
proof (rule allI)
  fix j
  have "dec (length (enc j)) (enc j) = Some (j, [])"
    using dec_enc(1) [of j "length (enc j)" "[]"] by simp
  then show "rj_parse \<lparr>rj_print = enc,
      rj_parse = (\<lambda>s. case dec (length s) s of Some (j, []) \<Rightarrow> Some j | _ \<Rightarrow> None),
      rj_remove_member = (\<lambda>k ms. filter (\<lambda>(k', _). k' \<noteq> k) ms)\<rparr>
    (rj_print \<lparr>rj_print = enc,
      rj_parse = (\<lambda>s. case dec (length s) s of Some (j, []) \<Rightarrow> Some j | _ \<Rightarrow> None),
      rj_remove_member = (\<lambda>k ms. filter (\<lambda>(k', _). k' \<noteq> k) ms)\<rparr> j) = Some j"
    by simp
qed

lemma enc_str_no_nul: "CHR 0x00 \<notin> set (enc_str s)"
  by (induction s) auto

lemma enc_no_nul:
  "CHR 0x00 \<notin> set (enc j)" "CHR 0x00 \<notin> set (enc_list js)" "CHR 0x00 \<notin> set (enc_members ms)"
  by (induction j and js and ms rule: enc_enc_list_enc_members.induct)
    (auto simp: enc_str_no_nul enc_int_def)

lemma codec_text_ok: "rj_text_ok codec_rapidjson"
  by (simp add: rj_text_ok_def codec_rapidjson_def enc_no_nul)

lemma codec_remove_ok: "rj_remove_ok codec_rapidjson"
  by (simp add: rj_remove_ok_def codec_rapidjson_def)

end
