(* ===== verification/Database.thy ===== *)
theory Database
  imports Registry Json
begin

text \<open>
  The backing store: the in-memory plugin of \<open>osquery/database/ephemeral.cpp\<close>, the plugin class
  \<open>DatabasePlugin\<close> with its request handler, the database API of \<open>osquery/database/database.cpp\<close> (the
  direct path of the core process and the routed path of an extension process), initialization, and
  the migrations of \<open>upgradeDatabase\<close>. The contract every backing store has to meet is the locale
  \<open>database_plugin\<close>, interpreted on the ephemeral plugin.
\<close>

section \<open>Domains and keys\<close>

definition kInternalDatabase :: string where "kInternalDatabase = ''rocksdb''"
definition kPersistentSettings :: string where "kPersistentSettings = ''configurations''"
definition kQueries :: string where "kQueries = ''queries''"
definition kEvents :: string where "kEvents = ''events''"
definition kCarves :: string where "kCarves = ''carves''"
definition kLogs :: string where "kLogs = ''logs''"
definition kDistributedQueries :: string where "kDistributedQueries = ''distributed''"
definition kDistributedRunningQueries :: string where "kDistributedRunningQueries = ''distributed_running''"
definition kQueryPerformance :: string where "kQueryPerformance = ''query_performance''"
definition kDbEpochSuffix :: string where "kDbEpochSuffix = ''epoch''"
definition kDbCounterSuffix :: string where "kDbCounterSuffix = ''counter''"
definition kDbVersionKey :: string where "kDbVersionKey = ''results_version''"
definition kDbCurrentVersion :: int where "kDbCurrentVersion = 2"
definition kDatabaseMaxRetryCount :: nat where "kDatabaseMaxRetryCount = 25"

definition kDomains :: "string list" where
  "kDomains = [kPersistentSettings, kQueries, kEvents, kLogs, kCarves, kDistributedQueries,
               kDistributedRunningQueries, kQueryPerformance]"

lemmas domain_defs = kPersistentSettings_def kQueries_def kEvents_def kCarves_def kLogs_def
  kDistributedQueries_def kDistributedRunningQueries_def kQueryPerformance_def

type_synonym DatabaseStringValueList = "(string \<times> string) list"

section \<open>The ephemeral plugin\<close>

datatype db_value = DbInt int | DbString string

type_synonym ephemeral_db = "(string, (string, db_value) omap) omap"

text \<open>\<open>db_[domain]\<close> as a value: the empty map for a domain not seen yet.\<close>

definition eph_domain :: "ephemeral_db \<Rightarrow> string \<Rightarrow> (string, db_value) omap" where
  "eph_domain db domain = (case om_get db domain of None \<Rightarrow> [] | Some m \<Rightarrow> m)"

text \<open>
  \<open>getAny\<close>: \<open>sel\<close> is \<open>boost::get<T>\<close> on the variant, \<open>value\<close> the output parameter. The text of
  \<open>boost::bad_get\<close> is fixed by Boost.
\<close>

definition eph_getAny ::
  "(db_value \<Rightarrow> 'a option) \<Rightarrow> string \<Rightarrow> string \<Rightarrow> 'a \<Rightarrow> ephemeral_db \<Rightarrow> Status \<times> 'a" where
  "eph_getAny sel domain key value db =
     (case om_get db domain of
        None \<Rightarrow> (Status_msg 1 (''Domain '' @ domain @ '' does not exist''), value)
      | Some m \<Rightarrow>
          (case om_get m key of
             None \<Rightarrow> (Status_msg 1 (''Key '' @ key @ '' in domain '' @ domain @ '' does not exist''), value)
           | Some v \<Rightarrow>
               (case sel v of
                  None \<Rightarrow> (Status_msg 1 (''Type error getting string value for '' @ key @ '' in domain '' @
                           domain @ '': '' @
                           ''boost::bad_get: failed value get using boost::get''), value)
                | Some x \<Rightarrow> (Status_code 0, x))))"

fun db_string :: "db_value \<Rightarrow> string option" where
  "db_string (DbString s) = Some s"
| "db_string (DbInt _) = None"

fun db_int :: "db_value \<Rightarrow> int option" where
  "db_int (DbInt i) = Some i"
| "db_int (DbString _) = None"

definition eph_get :: "string \<Rightarrow> string \<Rightarrow> string \<Rightarrow> ephemeral_db \<Rightarrow> Status \<times> string" where
  "eph_get = eph_getAny db_string"

definition eph_get_int :: "string \<Rightarrow> string \<Rightarrow> int \<Rightarrow> ephemeral_db \<Rightarrow> Status \<times> int" where
  "eph_get_int = eph_getAny db_int"

definition eph_setValue :: "string \<Rightarrow> string \<Rightarrow> db_value \<Rightarrow> ephemeral_db \<Rightarrow> ephemeral_db" where
  "eph_setValue domain key value db = om_set domain (om_set key value (eph_domain db domain)) db"

definition eph_put :: "string \<Rightarrow> string \<Rightarrow> string \<Rightarrow> ephemeral_db \<Rightarrow> Status \<times> ephemeral_db" where
  "eph_put domain key value db = (Status_code 0, eph_setValue domain key (DbString value) db)"

definition eph_put_int :: "string \<Rightarrow> string \<Rightarrow> int \<Rightarrow> ephemeral_db \<Rightarrow> Status \<times> ephemeral_db" where
  "eph_put_int domain key value db = (Status_code 0, eph_setValue domain key (DbInt value) db)"

definition eph_putBatch ::
  "string \<Rightarrow> DatabaseStringValueList \<Rightarrow> ephemeral_db \<Rightarrow> Status \<times> ephemeral_db" where
  "eph_putBatch domain data db =
     (success, fold (\<lambda>(k, v). eph_setValue domain k (DbString v)) data db)"

definition eph_remove :: "string \<Rightarrow> string \<Rightarrow> ephemeral_db \<Rightarrow> Status \<times> ephemeral_db" where
  "eph_remove domain k db = (Status_code 0, om_set domain (om_del k (eph_domain db domain)) db)"

definition eph_removeRange ::
  "string \<Rightarrow> string \<Rightarrow> string \<Rightarrow> ephemeral_db \<Rightarrow> Status \<times> ephemeral_db" where
  "eph_removeRange domain low high db =
     (if high < low then (failure ''Invalid range: low > high'', db)
      else let keys = filter (\<lambda>k. low \<le> k \<and> k \<le> high) (om_keys (eph_domain db domain))
           in (Status_code 0, om_set domain (fold om_del keys (eph_domain db domain)) db))"

text \<open>
  \<open>std::mismatch\<close> walks the prefix and reads the key beside it: when the key ends first and matched so
  far, the next read is past its end.
\<close>

fun mismatch_prefix :: "string \<Rightarrow> string \<Rightarrow> bool throwing" where
  "mismatch_prefix [] key = Inr True"
| "mismatch_prefix (p # ps) [] = Inl (undefined_behaviour ''mismatch past the end of the key'')"
| "mismatch_prefix (p # ps) (c # cs) = (if p = c then mismatch_prefix ps cs else Inr False)"

fun eph_scan_loop :: "string \<Rightarrow> u64 \<Rightarrow> string list \<Rightarrow> string list \<Rightarrow> string list throwing" where
  "eph_scan_loop pfx limit [] results = Inr results"
| "eph_scan_loop pfx limit (key # keys) results =
     exn_bind (if pfx = [] then Inr True else mismatch_prefix pfx key)
       (\<lambda>matches.
          if \<not> matches then eph_scan_loop pfx limit keys results
          else let results' = results @ [key]
               in if limit > 0 \<and> length results' \<ge> unat limit then Inr results'
                  else eph_scan_loop pfx limit keys results')"

definition eph_scan ::
  "string \<Rightarrow> string list \<Rightarrow> string \<Rightarrow> u64 \<Rightarrow> ephemeral_db \<Rightarrow> (Status \<times> string list) throwing" where
  "eph_scan domain results pfx limit db =
     (case om_get db domain of
        None \<Rightarrow> Inr (Status_code 0, results)
      | Some m \<Rightarrow> exn_bind (eph_scan_loop pfx limit (om_keys m) results) (\<lambda>r. Inr (Status_code 0, r)))"

definition eph_setUp :: "ephemeral_db \<Rightarrow> Status \<times> ephemeral_db" where
  "eph_setUp db = (Status_code 0, [])"

section \<open>The plugin class\<close>

text \<open>
  The virtual methods of a database plugin over its state \<open>'d\<close>. Output parameters are passed in and
  returned.
\<close>

record 'd DatabasePlugin =
  db_get :: "string \<Rightarrow> string \<Rightarrow> string \<Rightarrow> 'd \<Rightarrow> Status \<times> string"
  db_put :: "string \<Rightarrow> string \<Rightarrow> string \<Rightarrow> 'd \<Rightarrow> Status \<times> 'd"
  db_putBatch :: "string \<Rightarrow> DatabaseStringValueList \<Rightarrow> 'd \<Rightarrow> Status \<times> 'd"
  db_remove :: "string \<Rightarrow> string \<Rightarrow> 'd \<Rightarrow> Status \<times> 'd"
  db_removeRange :: "string \<Rightarrow> string \<Rightarrow> string \<Rightarrow> 'd \<Rightarrow> Status \<times> 'd"
  db_scan :: "string \<Rightarrow> string list \<Rightarrow> string \<Rightarrow> u64 \<Rightarrow> 'd \<Rightarrow> (Status \<times> string list) throwing"
  db_setUp :: "'d \<Rightarrow> Status \<times> 'd"
  db_tearDown :: "'d \<Rightarrow> 'd"

definition EphemeralDatabasePlugin :: "ephemeral_db DatabasePlugin" where
  "EphemeralDatabasePlugin =
     \<lparr>db_get = eph_get, db_put = eph_put, db_putBatch = eph_putBatch, db_remove = eph_remove,
      db_removeRange = eph_removeRange, db_scan = eph_scan, db_setUp = eph_setUp,
      db_tearDown = (\<lambda>db. db)\<rparr>"

text \<open>\<open>DatabasePlugin::scan\<close>, the version a plugin inherits.\<close>

definition DatabasePlugin_scan ::
  "string \<Rightarrow> string list \<Rightarrow> string \<Rightarrow> u64 \<Rightarrow> 'd \<Rightarrow> (Status \<times> string list) throwing" where
  "DatabasePlugin_scan domain results pfx limit d = Inr (success, results)"

definition db_reset :: "'d DatabasePlugin \<Rightarrow> 'd \<Rightarrow> Status \<times> 'd" where
  "db_reset ops d = db_setUp ops (db_tearDown ops d)"

text \<open>The pairs of a \<open>putBatch\<close> request: the first value that is not a string refuses it.\<close>

fun putBatch_data :: "members \<Rightarrow> DatabaseStringValueList option" where
  "putBatch_data [] = Some []"
| "putBatch_data ((name, value) # rest) =
     (case value of
        JString s \<Rightarrow> map_option (\<lambda>d. (c_str name, c_str s) # d) (putBatch_data rest)
      | _ \<Rightarrow> None)"

definition request_field :: "PluginRequest \<Rightarrow> string \<Rightarrow> string" where
  "request_field request k = (case om_get request k of None \<Rightarrow> [] | Some v \<Rightarrow> v)"

text \<open>
  \<open>DatabasePlugin::call\<close> for every action but \<open>reset\<close>, which changes the process and follows below.
  \<open>GetObject\<close> of a document that is not an object fails RapidJSON's assertion.
\<close>

definition DatabasePlugin_actions ::
  "rapidjson \<Rightarrow> 'd DatabasePlugin \<Rightarrow> 'd \<Rightarrow> PluginRequest \<Rightarrow> PluginResponse
   \<Rightarrow> (Status \<times> PluginResponse \<times> 'd) throwing" where
  "DatabasePlugin_actions rj ops d request response =
     (case om_get request ''action'' of
        None \<Rightarrow> Inr (Status_msg 1 ''Database plugin must include a request action'', response, d)
      | Some action \<Rightarrow>
          (let domain = request_field request ''domain'';
               key = request_field request ''key''
           in if action = ''get'' then
                (let (st, value) = db_get ops domain key [] d
                 in Inr (st, response @ [[(''v'', value)]], d))
              else if action = ''put'' then
                (case om_get request ''value'' of
                   None \<Rightarrow> Inr (Status_msg 1 ''Database plugin put action requires a value'', response, d)
                 | Some v \<Rightarrow> (let (st, d') = db_put ops domain key v d in Inr (st, response, d')))
              else if action = ''putBatch'' then
                (case om_get request ''json'' of
                   None \<Rightarrow> Inr (Status_msg 1
                     ''Database plugin putBatch action requires a json-encoded value list'', response, d)
                 | Some text \<Rightarrow>
                     (case json_fromString rj text of
                        (st, None) \<Rightarrow> Inr (st, response, d)
                      | (st, Some (JObject ms)) \<Rightarrow>
                          (case putBatch_data ms of
                             None \<Rightarrow> Inr (Status_msg 1
                               (''Database plugin putBatch action with an invalid json '' @
                                ''received. Only string values are supported''), response, d)
                           | Some data \<Rightarrow>
                               (let (st', d') = db_putBatch ops domain data d in Inr (st', response, d')))
                      | (st, Some _) \<Rightarrow> Inl (undefined_behaviour ''GetObject'')))
              else if action = ''remove'' then
                (let (st, d') = db_remove ops domain key d in Inr (st, response, d'))
              else if action = ''remove_range'' then
                (let key_high = request_field request ''key_high''
                 in if key_high \<noteq> [] \<and> key \<noteq> [] then
                      (let (st, d') = db_removeRange ops domain key key_high d in Inr (st, response, d'))
                    else Inr (Status_msg 1 ''Missing range'', response, d))
              else if action = ''scan'' then
                exn_bind (case om_get request ''max'' of None \<Rightarrow> Inr 0 | Some m \<Rightarrow> stoull 10 m)
                  (\<lambda>limit. case om_get request ''prefix'' of
                     None \<Rightarrow> Inl out_of_range
                   | Some pfx \<Rightarrow>
                       exn_bind (db_scan ops domain [] pfx limit d)
                         (\<lambda>(st, keys). Inr (st, response @ map (\<lambda>k. [(''k'', k)]) keys, d)))
              else Inr (Status_msg 1 ''Unknown database plugin action'', response, d)))"

section \<open>The process\<close>

text \<open>
  The state a process keeps for its database: the plugin registry and the three atomic flags of
  \<open>database.cpp\<close>. \<open>db_env\<close> holds what does not change: the plugin's methods, RapidJSON, the registry
  environment and the flags \<open>ignore_registry_exceptions\<close> and \<open>disable_database\<close>; \<open>de_what\<close> is the text of
  an exception. For an extension process (\<open>env_external\<close>), \<open>Registry::call\<close> reaches the core process:
  the state is then the core's.
\<close>

record 'd db_process =
  factory :: "'d RegistryFactory"
  kDBAllowOpen :: bool
  kDBInitialized :: bool
  kDBChecking :: bool

record 'd db_env =
  de_ops :: "'d DatabasePlugin"
  de_rj :: rapidjson
  de_reg :: registry_env
  de_ignore :: bool
  de_what :: "cpp_exn \<Rightarrow> string"
  de_disable_database :: bool

definition db_plugin_ops :: "'d db_env \<Rightarrow> 'd Plugin_ops" where
  "db_plugin_ops e =
     \<lparr>op_setUp = db_setUp (de_ops e), op_tearDown = db_tearDown (de_ops e), op_configure = (\<lambda>d. d),
      op_routeInfo = (\<lambda>d. []), op_call = DatabasePlugin_actions (de_rj e) (de_ops e)\<rparr>"

definition allowOpen :: "'d db_process \<Rightarrow> bool" where "allowOpen p = kDBAllowOpen p"

definition checkingDB :: "'d db_process \<Rightarrow> bool" where "checkingDB p = kDBChecking p"

definition setDatabaseAllowOpen :: "bool \<Rightarrow> 'd db_process \<Rightarrow> 'd db_process" where
  "setDatabaseAllowOpen allow_open p = p\<lparr>kDBAllowOpen := allow_open\<rparr>"

definition databaseInitialized :: "'d db_process \<Rightarrow> bool" where
  "databaseInitialized p = kDBInitialized p"

text \<open>\<open>checkDB\<close>: here \<open>setUp\<close> may throw; the flag \<open>kDBChecking\<close> is up while it runs.\<close>

definition checkDB ::
  "(bool \<Rightarrow> 'd \<Rightarrow> (Status \<times> 'd) throwing) \<Rightarrow> ('d \<Rightarrow> 'd) \<Rightarrow> 'd \<times> 'd db_process
   \<Rightarrow> bool \<times> 'd \<times> 'd db_process" where
  "checkDB setUp tearDown dp =
     (let (d, p) = dp;
          p1 = p\<lparr>kDBChecking := True\<rparr>;
          (result, d') = (case setUp (checkingDB p1) d of
                            Inr (status, d1) \<Rightarrow> (ok status, tearDown d1)
                          | Inl _ \<Rightarrow> (False, d))
      in (result, d', p1\<lparr>kDBChecking := False\<rparr>))"

definition database_registry :: "'d db_process \<Rightarrow> 'd RegistryInterface throwing" where
  "database_registry p = rf_registry (factory p) ''database''"

text \<open>\<open>getDatabasePlugin\<close>: the name and the state of the active plugin, or the null pointer.\<close>

definition getDatabasePlugin :: "'d db_process \<Rightarrow> (string \<times> 'd) option throwing" where
  "getDatabasePlugin p =
     exn_bind (database_registry p)
       (\<lambda>r. if \<not> rf_exists (factory p) ''database'' (active r) True then Inr None
            else Inr (map_option (\<lambda>pl. (active r, pl_state pl)) (om_get (items r) (active r))))"

definition store_plugin :: "string \<Rightarrow> 'd \<Rightarrow> 'd db_process \<Rightarrow> 'd db_process" where
  "store_plugin name d p =
     (case om_get (registries (factory p)) ''database'' of
        None \<Rightarrow> p
      | Some r \<Rightarrow>
          (case om_get (items r) name of
             None \<Rightarrow> p
           | Some pl \<Rightarrow>
               p\<lparr>factory := (factory p)\<lparr>registries :=
                   om_set ''database'' (r\<lparr>items := om_set name (pl\<lparr>pl_state := d\<rparr>) (items r)\<rparr>)
                     (registries (factory p))\<rparr>\<rparr>))"

text \<open>
  \<open>plugin->m(...)\<close> on the active plugin, for a const method and for one that changes the plugin:
  calling a method through the null pointer is undefined.
\<close>

definition read_plugin :: "('d \<Rightarrow> 'a throwing) \<Rightarrow> 'd db_process \<Rightarrow> 'a throwing" where
  "read_plugin m p =
     exn_bind (getDatabasePlugin p)
       (\<lambda>pl. case pl of
          None \<Rightarrow> Inl (undefined_behaviour ''null database plugin'')
        | Some (name, d) \<Rightarrow> m d)"

definition with_plugin ::
  "('d \<Rightarrow> ('a \<times> 'd) throwing) \<Rightarrow> 'd db_process \<Rightarrow> ('a \<times> 'd db_process) throwing" where
  "with_plugin m p =
     exn_bind (getDatabasePlugin p)
       (\<lambda>pl. case pl of
          None \<Rightarrow> Inl (undefined_behaviour ''null database plugin'')
        | Some (name, d) \<Rightarrow> exn_bind (m d) (\<lambda>(a, d'). Inr (a, store_plugin name d' p)))"

text \<open>
  The action \<open>reset\<close> of \<open>DatabasePlugin::call\<close> on the plugin \<open>name\<close>: when the plugin cannot be reset the
  registry falls back to the ephemeral one.
\<close>

definition DatabasePlugin_reset ::
  "'d db_env \<Rightarrow> string \<Rightarrow> 'd \<Rightarrow> 'd db_process \<Rightarrow> (Status \<times> 'd db_process) throwing" where
  "DatabasePlugin_reset e name d p =
     (let (status, d') = db_reset (de_ops e) d;
          p1 = store_plugin name d' (p\<lparr>kDBInitialized := False\<rparr>)
      in if ok status then Inr (status, p1\<lparr>kDBInitialized := True\<rparr>)
         else exn_bind (rf_setActive (db_plugin_ops e) (de_reg e) ''database'' ''ephemeral'' (factory p1))
                (\<lambda>(_, f'). Inr (status, p1\<lparr>factory := f', kDBInitialized := True\<rparr>)))"

text \<open>
  \<open>Registry::call("database", request, response)\<close>. The registry finds the active plugin; a \<open>reset\<close>
  of a local plugin is the case above, everything else is the registry's call.
\<close>

definition Registry_call_database ::
  "'d db_env \<Rightarrow> PluginRequest \<Rightarrow> 'd db_process \<Rightarrow> (Status \<times> PluginResponse \<times> 'd db_process) throwing" where
  "Registry_call_database e request p =
     exn_bind (getDatabasePlugin p)
       (\<lambda>pl. case pl of
          Some (name, d) \<Rightarrow>
            if om_get request ''action'' = Some ''reset''
            then (case DatabasePlugin_reset e name d p of
                    Inr (st, p') \<Rightarrow> Inr (st, [], p')
                  | Inl x \<Rightarrow> if de_ignore e then Inr (Status_msg 1 (de_what e x), [], p) else Inl x)
            else exn_bind (rf_call_active (de_ignore e) (de_what e) (db_plugin_ops e) (de_reg e)
                             ''database'' request [] (factory p))
                   (\<lambda>(st, resp, f'). Inr (st, resp, p\<lparr>factory := f'\<rparr>))
        | None \<Rightarrow>
            exn_bind (rf_call_active (de_ignore e) (de_what e) (db_plugin_ops e) (de_reg e)
                        ''database'' request [] (factory p))
              (\<lambda>(st, resp, f'). Inr (st, resp, p\<lparr>factory := f'\<rparr>)))"

section \<open>The database API\<close>

text \<open>
  \<open>ext\<close> is \<open>RegistryFactory::get().external()\<close>. Every function refuses an empty domain, routes the
  request when the process is an extension and otherwise throws before initialization.
\<close>

definition missing_domain :: Status where "missing_domain = Status_msg 1 ''Missing domain''"

definition getDatabaseValue ::
  "'d db_env \<Rightarrow> bool \<Rightarrow> string \<Rightarrow> string \<Rightarrow> string \<Rightarrow> 'd db_process
   \<Rightarrow> (Status \<times> string \<times> 'd db_process) throwing" where
  "getDatabaseValue e ext domain key value p =
     (if domain = [] then Inr (missing_domain, value, p)
      else if ext then
        exn_bind (Registry_call_database e [(''action'', ''get''), (''domain'', domain), (''key'', key)] p)
          (\<lambda>(st, response, p').
             Inr (st, (if ok st
                       then (case response of
                               [] \<Rightarrow> value
                             | row # _ \<Rightarrow> (case om_get row ''v'' of Some v \<Rightarrow> v | None \<Rightarrow> value))
                       else value), p'))
      else if \<not> kDBInitialized p then Inl (runtime_error (''Cannot get database value: '' @ key))
      else exn_bind (read_plugin (\<lambda>d. Inr (db_get (de_ops e) domain key value d)) p)
             (\<lambda>(st, v). Inr (st, v, p)))"

definition getDatabaseValue_int ::
  "'d db_env \<Rightarrow> bool \<Rightarrow> string \<Rightarrow> string \<Rightarrow> int \<Rightarrow> 'd db_process
   \<Rightarrow> (Status \<times> int \<times> 'd db_process) throwing" where
  "getDatabaseValue_int e ext domain key value p =
     exn_bind (getDatabaseValue e ext domain key [] p)
       (\<lambda>(s, result, p').
          if ok s then exn_bind (stoi 10 result) (\<lambda>i. Inr (s, i, p')) else Inr (s, value, p'))"

definition sendPutBatchDatabaseRequest ::
  "'d db_env \<Rightarrow> string \<Rightarrow> DatabaseStringValueList \<Rightarrow> 'd db_process \<Rightarrow> (Status \<times> 'd db_process) throwing" where
  "sendPutBatchDatabaseRequest e domain data p =
     (let obj = fold (\<lambda>(k, v). json_addRef (de_rj e) k v) data [];
          (status, serialized_data) = json_toString (de_rj e) (JObject obj)
      in if \<not> ok status then Inr (status, p)
         else exn_bind (Registry_call_database e
                  [(''action'', ''putBatch''), (''domain'', domain), (''json'', serialized_data)] p)
                (\<lambda>(st, _, p'). Inr (st, p')))"

text \<open>\<open>data[0]\<close> of an empty batch is undefined.\<close>

definition sendPutDatabaseRequest ::
  "'d db_env \<Rightarrow> string \<Rightarrow> DatabaseStringValueList \<Rightarrow> 'd db_process \<Rightarrow> (Status \<times> 'd db_process) throwing" where
  "sendPutDatabaseRequest e domain data p =
     (case data of
        [] \<Rightarrow> Inl (undefined_behaviour ''data[0] of an empty batch'')
      | (key, value) # _ \<Rightarrow>
          exn_bind (Registry_call_database e
              [(''action'', ''put''), (''domain'', domain), (''key'', key), (''value'', value)] p)
            (\<lambda>(st, _, p'). Inr (st, p')))"

definition setDatabaseBatch ::
  "'d db_env \<Rightarrow> bool \<Rightarrow> string \<Rightarrow> DatabaseStringValueList \<Rightarrow> 'd db_process
   \<Rightarrow> (Status \<times> 'd db_process) throwing" where
  "setDatabaseBatch e ext domain data p =
     (if domain = [] then Inr (missing_domain, p)
      else if ext then
        (if length data > 1 then sendPutBatchDatabaseRequest e domain data p
         else sendPutDatabaseRequest e domain data p)
      else if \<not> kDBInitialized p then Inl (runtime_error ''Cannot set database values'')
      else with_plugin (\<lambda>d. Inr (db_putBatch (de_ops e) domain data d)) p)"

definition setDatabaseValue ::
  "'d db_env \<Rightarrow> bool \<Rightarrow> string \<Rightarrow> string \<Rightarrow> string \<Rightarrow> 'd db_process
   \<Rightarrow> (Status \<times> 'd db_process) throwing" where
  "setDatabaseValue e ext domain key value p = setDatabaseBatch e ext domain [(key, value)] p"

definition setDatabaseValue_int ::
  "'d db_env \<Rightarrow> bool \<Rightarrow> string \<Rightarrow> string \<Rightarrow> int \<Rightarrow> 'd db_process
   \<Rightarrow> (Status \<times> 'd db_process) throwing" where
  "setDatabaseValue_int e ext domain key value p =
     setDatabaseBatch e ext domain [(key, to_string_int value)] p"

definition deleteDatabaseValue ::
  "'d db_env \<Rightarrow> bool \<Rightarrow> string \<Rightarrow> string \<Rightarrow> 'd db_process \<Rightarrow> (Status \<times> 'd db_process) throwing" where
  "deleteDatabaseValue e ext domain key p =
     (if domain = [] then Inr (missing_domain, p)
      else if ext then
        exn_bind (Registry_call_database e [(''action'', ''remove''), (''domain'', domain), (''key'', key)] p)
          (\<lambda>(st, _, p'). Inr (st, p'))
      else if \<not> kDBInitialized p then Inl (runtime_error (''Cannot delete database value: '' @ key))
      else with_plugin (\<lambda>d. Inr (db_remove (de_ops e) domain key d)) p)"

definition deleteDatabaseRange ::
  "'d db_env \<Rightarrow> bool \<Rightarrow> string \<Rightarrow> string \<Rightarrow> string \<Rightarrow> 'd db_process
   \<Rightarrow> (Status \<times> 'd db_process) throwing" where
  "deleteDatabaseRange e ext domain low high p =
     (if domain = [] then Inr (missing_domain, p)
      else if ext then
        exn_bind (Registry_call_database e
            [(''action'', ''remove_range''), (''domain'', domain), (''key'', low), (''key_high'', high)] p)
          (\<lambda>(st, _, p'). Inr (st, p'))
      else if \<not> kDBInitialized p
      then Inl (runtime_error (''Cannot delete database values: '' @ low @ '' - '' @ high))
      else with_plugin (\<lambda>d. Inr (db_removeRange (de_ops e) domain low high d)) p)"

definition scanDatabaseKeys ::
  "'d db_env \<Rightarrow> bool \<Rightarrow> string \<Rightarrow> string list \<Rightarrow> string \<Rightarrow> u64 \<Rightarrow> 'd db_process
   \<Rightarrow> (Status \<times> string list \<times> 'd db_process) throwing" where
  "scanDatabaseKeys e ext domain keys pfx limit p =
     (if domain = [] then Inr (missing_domain, keys, p)
      else if ext then
        exn_bind (Registry_call_database e
            [(''action'', ''scan''), (''domain'', domain), (''max'', to_string_u64 limit), (''prefix'', pfx)] p)
          (\<lambda>(st, response, p'). Inr (st, keys @ List.map_filter (\<lambda>item. om_get item ''k'') response, p'))
      else if \<not> kDBInitialized p then Inl (runtime_error (''Cannot scan database values: '' @ pfx))
      else exn_bind (read_plugin (db_scan (de_ops e) domain keys pfx limit) p)
             (\<lambda>(st, ks). Inr (st, ks, p)))"

definition resetDatabase :: "'d db_env \<Rightarrow> 'd db_process \<Rightarrow> 'd db_process throwing" where
  "resetDatabase e p =
     exn_bind (Registry_call_database e [(''action'', ''reset'')] p) (\<lambda>(_, _, p'). Inr p')"

text \<open>\<open>dumpDatabase\<close>: the lines it prints; \<open>%s\<close> prints a C string.\<close>

definition dump_key ::
  "'d db_env \<Rightarrow> bool \<Rightarrow> string \<Rightarrow> string \<Rightarrow> string list \<times> 'd db_process
   \<Rightarrow> (string list \<times> 'd db_process) throwing" where
  "dump_key e ext domain key s =
     (let (out, p) = s
      in exn_bind (getDatabaseValue e ext domain key [] p)
           (\<lambda>(st, value, p').
              Inr (if ok st then out @ [c_str domain @ ''['' @ c_str key @ '']: '' @ c_str value] else out, p')))"

fun exn_fold :: "('x \<Rightarrow> 's \<Rightarrow> 's throwing) \<Rightarrow> 'x list \<Rightarrow> 's \<Rightarrow> 's throwing" where
  "exn_fold f [] s = Inr s"
| "exn_fold f (x # xs) s = exn_bind (f x s) (exn_fold f xs)"

definition dumpDatabase ::
  "'d db_env \<Rightarrow> bool \<Rightarrow> 'd db_process \<Rightarrow> (string list \<times> 'd db_process) throwing" where
  "dumpDatabase e ext p =
     exn_fold (\<lambda>domain (out, p).
         exn_bind (scanDatabaseKeys e ext domain [] [] 0 p)
           (\<lambda>(st, keys, p'). if \<not> ok st then Inr (out, p') else exn_fold (dump_key e ext domain) keys (out, p')))
       kDomains ([], p)"

section \<open>Initialization\<close>

fun initDatabasePlugin_loop ::
  "'d db_env \<Rightarrow> string \<Rightarrow> nat \<Rightarrow> Status \<Rightarrow> 'd RegistryFactory \<Rightarrow> (Status \<times> 'd RegistryFactory) throwing" where
  "initDatabasePlugin_loop e plugin 0 status f = Inr (status, f)"
| "initDatabasePlugin_loop e plugin (Suc i) status f =
     exn_bind (rf_setActive (db_plugin_ops e) (de_reg e) ''database'' plugin f)
       (\<lambda>(st, f'). if ok st \<or> de_disable_database e then Inr (st, f')
                   else initDatabasePlugin_loop e plugin i st f')"

definition initDatabasePlugin :: "'d db_env \<Rightarrow> 'd db_process \<Rightarrow> (Status \<times> 'd db_process) throwing" where
  "initDatabasePlugin e p =
     (if kDBInitialized p then Inr (success, p)
      else exn_bind (initDatabasePlugin_loop e
                       (if de_disable_database e then ''ephemeral'' else kInternalDatabase)
                       kDatabaseMaxRetryCount success (factory p))
             (\<lambda>(st, f'). Inr (st, p\<lparr>factory := f', kDBInitialized := ok st\<rparr>)))"

definition initDatabasePluginForTesting ::
  "'d db_env \<Rightarrow> 'd db_process \<Rightarrow> (Status \<times> 'd db_process) throwing" where
  "initDatabasePluginForTesting e p =
     (let e' = e\<lparr>de_disable_database := True\<rparr>
      in exn_bind (initDatabasePlugin e' (setDatabaseAllowOpen True p))
           (\<lambda>(_, p1). exn_bind (resetDatabase e' p1) (\<lambda>p2. Inr (success, p2))))"

definition shutdownDatabase :: "'d db_process \<Rightarrow> 'd db_process throwing" where
  "shutdownDatabase p =
     exn_bind (database_registry p)
       (\<lambda>r. Inr (p\<lparr>factory := (factory p)\<lparr>registries :=
                    om_set ''database'' (fold removeUnsafe (reg_names r) r) (registries (factory p))\<rparr>\<rparr>))"

section \<open>Migrations\<close>

text \<open>
  Boost's property trees: reading a text gives the children of the root or a parse error, writing one
  gives a text or throws.
\<close>

record 't ptree_lib =
  pt_read_json :: "string \<Rightarrow> 't list option"
  pt_write_json :: "'t \<Rightarrow> string throwing"

fun ptree_rows :: "rapidjson \<Rightarrow> 't ptree_lib \<Rightarrow> 't list \<Rightarrow> json list \<Rightarrow> json list option throwing" where
  "ptree_rows rj pt [] arr = Inr (Some arr)"
| "ptree_rows rj pt (t # ts) arr =
     exn_bind (pt_write_json pt t)
       (\<lambda>text. case rj_parse rj text of
                 None \<Rightarrow> Inr None
               | Some row \<Rightarrow> ptree_rows rj pt ts (json_push row arr))"

definition ptreeToRapidJSON ::
  "rapidjson \<Rightarrow> 't ptree_lib \<Rightarrow> string \<Rightarrow> string \<Rightarrow> (Status \<times> string) throwing" where
  "ptreeToRapidJSON rj pt input out =
     (case pt_read_json pt input of
        None \<Rightarrow> Inr (Status_msg 1 ''Failed to parse JSON'', out)
      | Some tree \<Rightarrow>
          exn_bind (ptree_rows rj pt tree [])
            (\<lambda>arr. case arr of
                     None \<Rightarrow> Inr (Status_msg 1 ''Failed to serialize JSON'', out)
                   | Some a \<Rightarrow> Inr (success, snd (json_toString rj (JArray a)))))"

definition migrateV0V1_key ::
  "'d db_env \<Rightarrow> 't ptree_lib \<Rightarrow> bool \<Rightarrow> string \<Rightarrow> 'd db_process \<Rightarrow> 'd db_process throwing" where
  "migrateV0V1_key e pt ext key p =
     (if suffix kDbEpochSuffix key \<or> suffix kDbCounterSuffix key \<or> prefix ''query.'' key then Inr p
      else exn_bind (getDatabaseValue e ext kQueries key [] p)
        (\<lambda>(st, value, p1).
           if \<not> ok st then Inr p1
           else exn_bind (ptreeToRapidJSON (de_rj e) pt value [])
             (\<lambda>(s, out).
                if \<not> ok s then Inr p1
                else exn_bind (setDatabaseValue e ext kQueries key out p1) (\<lambda>(_, p2). Inr p2))))"

definition migrateV0V1 ::
  "'d db_env \<Rightarrow> 't ptree_lib \<Rightarrow> bool \<Rightarrow> 'd db_process \<Rightarrow> (Status \<times> 'd db_process) throwing" where
  "migrateV0V1 e pt ext p =
     exn_bind (scanDatabaseKeys e ext kQueries [] [] 0 p)
       (\<lambda>(s, keys, p1).
          if \<not> ok s then Inr (Status_msg 1 ''Failed to lookup legacy query data from database'', p1)
          else exn_bind (exn_fold (migrateV0V1_key e pt ext) keys p1) (\<lambda>p2. Inr (success, p2)))"

definition audit_str :: string where "audit_str = ''.audit.''"

definition audit_new_key :: "nat \<Rightarrow> string \<Rightarrow> string" where
  "audit_new_key pos key = take pos key @ ''.auditeventpublisher.'' @ drop (pos + length audit_str) key"

definition migrateV1V2_key ::
  "'d db_env \<Rightarrow> bool \<Rightarrow> string \<Rightarrow> 'd db_process \<Rightarrow> 'd db_process throwing" where
  "migrateV1V2_key e ext key p =
     (case str_find audit_str key of
        None \<Rightarrow> Inr p
      | Some pos \<Rightarrow>
          exn_bind (getDatabaseValue e ext kEvents key [] p)
            (\<lambda>(s, value, p1).
               if \<not> ok s then Inr p1
               else exn_bind (setDatabaseValue e ext kEvents (audit_new_key pos key) value p1)
                 (\<lambda>(s2, p2).
                    if \<not> ok s2 then Inr p2
                    else exn_bind (deleteDatabaseValue e ext kEvents key p2) (\<lambda>(_, p3). Inr p3))))"

definition migrateV1V2 ::
  "'d db_env \<Rightarrow> bool \<Rightarrow> 'd db_process \<Rightarrow> (Status \<times> 'd db_process) throwing" where
  "migrateV1V2 e ext p =
     exn_bind (scanDatabaseKeys e ext kEvents [] [] 0 p)
       (\<lambda>(s, keys, p1).
          if \<not> ok s
          then Inr (Status_msg 1 (''Failed to scan event keys from database: '' @ st_message s), p1)
          else exn_bind (exn_fold (migrateV1V2_key e ext) keys p1) (\<lambda>p2. Inr (success, p2)))"

definition migrate_step ::
  "'d db_env \<Rightarrow> 't ptree_lib \<Rightarrow> bool \<Rightarrow> int \<Rightarrow> 'd db_process \<Rightarrow> (Status \<times> 'd db_process) throwing" where
  "migrate_step e pt ext db_version p =
     (if db_version = 0 then migrateV0V1 e pt ext p
      else if db_version = 1 then migrateV1V2 e ext p
      else Inr (failure ''Migration code broken.'', p))"

text \<open>The loop of \<open>upgradeDatabase\<close>: an unknown version fails, so it runs at most three times.\<close>

function upgradeDatabase_loop ::
  "'d db_env \<Rightarrow> 't ptree_lib \<Rightarrow> bool \<Rightarrow> int \<Rightarrow> int \<Rightarrow> 'd db_process
   \<Rightarrow> (Status \<times> 'd db_process) throwing" where
  "upgradeDatabase_loop e pt ext to_version db_version p =
     (if db_version = to_version then Inr (success, p)
      else exn_bind (migrate_step e pt ext db_version p)
        (\<lambda>(migrate_status, p1).
           if \<not> ok migrate_status then Inr (failure ''Database migration failed.'', p1)
           else exn_bind (setDatabaseValue e ext kPersistentSettings kDbVersionKey
                            (to_string_int (db_version + 1)) p1)
             (\<lambda>(st, p2).
                if \<not> ok st then Inr (failure ''Database version commit failed.'', p2)
                else upgradeDatabase_loop e pt ext to_version (db_version + 1) p2)))"
  by pat_completeness auto

lemma migrate_step_version: "migrate_step e pt ext v p = Inr (st, p1) \<Longrightarrow> ok st \<Longrightarrow> v = 0 \<or> v = 1"
  by (auto simp: migrate_step_def split: if_splits)

termination upgradeDatabase_loop
  by (relation "measure (\<lambda>(_, _, _, _, v, _). nat (2 - v))") (auto dest!: migrate_step_version)

declare upgradeDatabase_loop.simps [simp del]

definition upgradeDatabase ::
  "'d db_env \<Rightarrow> 't ptree_lib \<Rightarrow> bool \<Rightarrow> int \<Rightarrow> 'd db_process \<Rightarrow> (Status \<times> 'd db_process) throwing" where
  "upgradeDatabase e pt ext to_version p =
     exn_bind (getDatabaseValue e ext kPersistentSettings kDbVersionKey [] p)
       (\<lambda>(st, value, p1).
          if ok st then
            (case object (tryTo_int (de_what e) 10 value) of
               Inr _ \<Rightarrow> Inr (failure ''Invalid value for database version.'', p1)
             | Inl v \<Rightarrow> upgradeDatabase_loop e pt ext to_version v p1)
          else upgradeDatabase_loop e pt ext to_version 0 p1)"

section \<open>The contract of a backing store\<close>

text \<open>
  \<open>look\<close> reads a store as a function of domain and key, \<open>dkeys\<close> lists a domain. A failed write leaves
  the contents as they were.
\<close>

definition view_put ::
  "string \<Rightarrow> DatabaseStringValueList \<Rightarrow> (string \<Rightarrow> string \<Rightarrow> string option) \<Rightarrow> string \<Rightarrow> string \<Rightarrow> string option"
where
  "view_put domain data V =
     V(domain := (\<lambda>k. case map_of (rev data) k of Some v \<Rightarrow> Some v | None \<Rightarrow> V domain k))"

definition view_del ::
  "string \<Rightarrow> (string \<Rightarrow> bool) \<Rightarrow> (string \<Rightarrow> string \<Rightarrow> string option) \<Rightarrow> string \<Rightarrow> string \<Rightarrow> string option" where
  "view_del domain P V = V(domain := (\<lambda>k. if P k then None else V domain k))"

locale database_plugin =
  fixes ops :: "'d DatabasePlugin"
    and look :: "'d \<Rightarrow> string \<Rightarrow> string \<Rightarrow> string option"
    and dkeys :: "'d \<Rightarrow> string \<Rightarrow> string list"
    and ok_db :: "'d \<Rightarrow> bool"
  assumes get_law: "ok_db d \<Longrightarrow> db_get ops domain k value d = (st, v) \<Longrightarrow>
      (ok st \<longleftrightarrow> look d domain k \<noteq> None) \<and> v = (case look d domain k of Some x \<Rightarrow> x | None \<Rightarrow> value)"
    and put_law: "ok_db d \<Longrightarrow> db_put ops domain k value d = db_putBatch ops domain [(k, value)] d"
    and putBatch_law: "ok_db d \<Longrightarrow> db_putBatch ops domain data d = (st, d') \<Longrightarrow>
      ok_db d' \<and> look d' = (if ok st then view_put domain data (look d) else look d)"
    and remove_law: "ok_db d \<Longrightarrow> db_remove ops domain k d = (st, d') \<Longrightarrow>
      ok_db d' \<and> look d' = (if ok st then view_del domain (\<lambda>k'. k' = k) (look d) else look d)"
    and removeRange_law: "ok_db d \<Longrightarrow> db_removeRange ops domain low high d = (st, d') \<Longrightarrow>
      ok_db d' \<and> look d' = (if ok st then view_del domain (\<lambda>k. low \<le> k \<and> k \<le> high) (look d) else look d)"
    and scan_law: "ok_db d \<Longrightarrow> \<exists>st. db_scan ops domain ks [] 0 d = Inr (st, ks @ dkeys d domain) \<and> ok st"
    and dkeys_law: "ok_db d \<Longrightarrow> set (dkeys d domain) = {k. look d domain k \<noteq> None}"
    and dkeys_sorted: "ok_db d \<Longrightarrow> sorted_wrt (<) (dkeys d domain)"

text \<open>A store whose writes never fail.\<close>

locale reliable_database = database_plugin +
  assumes putBatch_ok: "ok_db d \<Longrightarrow> ok (fst (db_putBatch ops domain data d))"
    and remove_ok: "ok_db d \<Longrightarrow> ok (fst (db_remove ops domain k d))"

section \<open>The ephemeral plugin meets the contract\<close>

definition eph_look :: "ephemeral_db \<Rightarrow> string \<Rightarrow> string \<Rightarrow> string option" where
  "eph_look db domain k = (case om_get (eph_domain db domain) k of Some (DbString s) \<Rightarrow> Some s | _ \<Rightarrow> None)"

definition eph_keys :: "ephemeral_db \<Rightarrow> string \<Rightarrow> string list" where
  "eph_keys db domain = om_keys (eph_domain db domain)"

text \<open>The API stores strings only.\<close>

definition eph_dom_ok :: "(string, db_value) omap \<Rightarrow> bool" where
  "eph_dom_ok m \<longleftrightarrow> om_wf m \<and> (\<forall>k i. om_get m k \<noteq> Some (DbInt i))"

definition eph_inv :: "ephemeral_db \<Rightarrow> bool" where
  "eph_inv db \<longleftrightarrow> om_wf db \<and> (\<forall>dm m. om_get db dm = Some m \<longrightarrow> eph_dom_ok m)"

lemma eph_dom_ok_domain: "eph_inv db \<Longrightarrow> eph_dom_ok (eph_domain db dm)"
  by (auto simp: eph_inv_def eph_domain_def eph_dom_ok_def split: option.splits)

lemma eph_inv_set: "eph_inv db \<Longrightarrow> eph_dom_ok m \<Longrightarrow> eph_inv (om_set dm m db)"
  by (simp add: eph_inv_def)

lemma eph_domain_set: "eph_domain (om_set dm m db) dm' = (if dm' = dm then m else eph_domain db dm')"
  by (simp add: eph_domain_def)

lemma eph_look_set:
  "eph_look (om_set dm m db) =
     (eph_look db)(dm := (\<lambda>k. case om_get m k of Some (DbString s) \<Rightarrow> Some s | _ \<Rightarrow> None))"
  by (auto simp: fun_eq_iff eph_look_def eph_domain_set)

lemma eph_setValue_inv: "eph_inv db \<Longrightarrow> eph_inv (eph_setValue dm k (DbString v) db)"
  using eph_dom_ok_domain [of db dm]
  by (auto simp: eph_setValue_def eph_dom_ok_def intro!: eph_inv_set)

lemma eph_setValue_look:
  "eph_look (eph_setValue dm k (DbString v) db) = view_put dm [(k, v)] (eph_look db)"
  by (auto simp: eph_setValue_def eph_look_set view_put_def fun_eq_iff eph_look_def)

lemma view_put_append: "view_put dm b (view_put dm a V) = view_put dm (a @ b) V"
  by (auto simp: view_put_def fun_eq_iff map_add_def split: option.splits)

lemma eph_putBatch_fold:
  "eph_inv db \<Longrightarrow>
   eph_inv (fold (\<lambda>(k, v). eph_setValue dm k (DbString v)) data db) \<and>
   eph_look (fold (\<lambda>(k, v). eph_setValue dm k (DbString v)) data db) = view_put dm data (eph_look db)"
proof (induction data arbitrary: db)
  case Nil
  then show ?case by (simp add: view_put_def)
next
  case (Cons a data)
  obtain k v where a: "a = (k, v)" by (cases a)
  show ?case
    using Cons.IH [OF eph_setValue_inv [OF Cons.prems, of dm k v]]
    by (simp add: a eph_setValue_look view_put_append)
qed

lemma eph_remove_keys:
  assumes "eph_inv db"
  shows "eph_inv (om_set dm (fold om_del ks (eph_domain db dm)) db)"
    and "eph_look (om_set dm (fold om_del ks (eph_domain db dm)) db) = view_del dm (\<lambda>k. k \<in> set ks) (eph_look db)"
  using eph_dom_ok_domain [OF assms, of dm] assms
  by (auto simp: eph_dom_ok_def om.invar_fold_del om.get_fold_del eph_look_set view_del_def eph_look_def
      fun_eq_iff intro!: eph_inv_set)

lemma eph_scan_loop_all: "eph_scan_loop [] 0 ks rs = Inr (rs @ ks)"
  by (induction ks arbitrary: rs) (auto simp: Let_def)

lemma eph_look_keys: "eph_inv db \<Longrightarrow> eph_look db dm k \<noteq> None \<longleftrightarrow> k \<in> set (eph_keys db dm)"
  using eph_dom_ok_domain [of db dm]
  by (auto simp: eph_look_def eph_keys_def om_keys_iff eph_dom_ok_def split: option.splits db_value.splits)

interpretation eph: reliable_database EphemeralDatabasePlugin eph_look eph_keys eph_inv
proof (unfold_locales, goal_cases)
  case (1 d domain k x st v)
  then show ?case
    using eph_dom_ok_domain [OF 1(1), of domain]
    by (auto simp: EphemeralDatabasePlugin_def eph_get_def eph_getAny_def eph_look_def eph_domain_def
        eph_dom_ok_def split: option.splits db_value.splits)
next
  case (2 d domain k x)
  show ?case by (simp add: EphemeralDatabasePlugin_def eph_put_def eph_putBatch_def success_def kSuccessCode_def)
next
  case (3 d domain data st d')
  then show ?case using eph_putBatch_fold [OF 3(1), of domain data]
    by (auto simp: EphemeralDatabasePlugin_def eph_putBatch_def)
next
  case (4 d domain k st d')
  then show ?case using eph_remove_keys [OF 4(1), of domain "[k]"]
    by (auto simp: EphemeralDatabasePlugin_def eph_remove_def)
next
  case (5 d domain low high st d')
  let ?ks = "filter (\<lambda>k. low \<le> k \<and> k \<le> high) (om_keys (eph_domain d domain))"
  have "eph_look d domain k = None" if "k \<notin> set (om_keys (eph_domain d domain))" for k
    using eph_look_keys [OF 5(1), of domain k] that by (auto simp: eph_keys_def)
  then have "view_del domain (\<lambda>k. k \<in> set ?ks) (eph_look d) = view_del domain (\<lambda>k. low \<le> k \<and> k \<le> high) (eph_look d)"
    by (auto simp: view_del_def fun_eq_iff)
  then show ?case using 5 eph_remove_keys [OF 5(1), of domain ?ks]
    by (auto simp: EphemeralDatabasePlugin_def eph_removeRange_def Let_def split: if_splits)
next
  case (6 d domain ks)
  then show ?case
    by (auto simp: EphemeralDatabasePlugin_def eph_scan_def eph_scan_loop_all eph_keys_def eph_domain_def
        om_keys_def split: option.splits)
next
  case (7 d domain)
  then show ?case using eph_look_keys [OF 7, of domain] by blast
next
  case (8 d domain)
  then show ?case using eph_dom_ok_domain [OF 8, of domain]
    by (auto simp: eph_keys_def eph_dom_ok_def intro: om_keys_sorted)
next
  case (9 d domain data)
  show ?case by (simp add: EphemeralDatabasePlugin_def eph_putBatch_def)
next
  case (10 d domain k)
  show ?case by (simp add: EphemeralDatabasePlugin_def eph_remove_def)
qed

section \<open>Processes with a working store\<close>

text \<open>
  A process is ready when the database is initialized and its active plugin, a local one, satisfies
  the plugin's invariant. Its view is what the API can read.
\<close>

definition db_ready :: "('d \<Rightarrow> bool) \<Rightarrow> 'd db_process \<Rightarrow> bool" where
  "db_ready ok_db p \<longleftrightarrow>
     kDBInitialized p \<and> om_wf (registries (factory p)) \<and>
     (case om_get (registries (factory p)) ''database'' of
        None \<Rightarrow> False
      | Some r \<Rightarrow> om_wf (items r) \<and> CHR '','' \<notin> set (active r) \<and>
          (case om_get (items r) (active r) of None \<Rightarrow> False | Some pl \<Rightarrow> ok_db (pl_state pl)))"

definition db_state :: "'d db_process \<Rightarrow> 'd option" where
  "db_state p =
     (case om_get (registries (factory p)) ''database'' of
        None \<Rightarrow> None
      | Some r \<Rightarrow> map_option pl_state (om_get (items r) (active r)))"

definition db_view ::
  "('d \<Rightarrow> string \<Rightarrow> string \<Rightarrow> string option) \<Rightarrow> 'd db_process \<Rightarrow> string \<Rightarrow> string \<Rightarrow> string option" where
  "db_view look p = (case db_state p of None \<Rightarrow> (\<lambda>_ _. None) | Some d \<Rightarrow> look d)"



definition active_name :: "'d db_process \<Rightarrow> string" where
  "active_name p = (case om_get (registries (factory p)) ''database'' of None \<Rightarrow> [] | Some r \<Rightarrow> active r)"

definition put_state :: "'d \<Rightarrow> 'd db_process \<Rightarrow> 'd db_process" where
  "put_state d p = store_plugin (active_name p) d p"

lemma om_set_same: "om_wf m \<Longrightarrow> om_get m k = Some v \<Longrightarrow> om_set k v m = m"
  by (intro om_eqI) auto

lemma om_set_set: "om_wf m \<Longrightarrow> om_set k v' (om_set k v m) = om_set k v' m"
  by (intro om_eqI) auto

lemma db_ready_cases:
  assumes "db_ready ok_db p"
  obtains r pl where "om_get (registries (factory p)) ''database'' = Some r"
    "om_get (items r) (active r) = Some pl" "ok_db (pl_state pl)" "kDBInitialized p"
    "om_wf (registries (factory p))" "om_wf (items r)" "CHR '','' \<notin> set (active r)"
  using assms by (auto simp: db_ready_def split: option.splits)

lemma ready_state: "db_ready ok_db p \<Longrightarrow> \<exists>d. db_state p = Some d \<and> ok_db d"
  by (auto simp: db_ready_def db_state_def split: option.splits)

lemma ready_plugin:
  "db_ready ok_db p \<Longrightarrow> db_state p = Some d \<Longrightarrow> getDatabasePlugin p = Inr (Some (active_name p, d))"
  by (elim db_ready_cases)
    (auto simp: db_state_def getDatabasePlugin_def database_registry_def rf_registry_def rf_exists_def
      existsUnsafe_def om_has_def active_name_def)

lemma put_state_ready: "db_ready ok_db p \<Longrightarrow> ok_db' d \<Longrightarrow> db_ready ok_db' (put_state d p)"
  by (elim db_ready_cases) (auto simp: db_ready_def put_state_def store_plugin_def active_name_def)

lemma put_state_state: "db_ready ok_db p \<Longrightarrow> db_state (put_state d p) = Some d"
  by (elim db_ready_cases) (auto simp: db_state_def put_state_def store_plugin_def active_name_def)

lemma put_state_same: "db_ready ok_db p \<Longrightarrow> db_state p = Some d \<Longrightarrow> put_state d p = p"
  by (elim db_ready_cases)
    (auto simp: db_state_def put_state_def store_plugin_def active_name_def om_set_same)

lemma put_state_put_state [simp]: "db_ready ok_db p \<Longrightarrow> put_state d' (put_state d p) = put_state d' p"
  by (elim db_ready_cases)
    (auto simp: db_state_def put_state_def store_plugin_def active_name_def om_set_set)

lemma read_plugin_ready: "db_ready ok_db p \<Longrightarrow> db_state p = Some d \<Longrightarrow> read_plugin m p = m d"
  by (simp add: read_plugin_def ready_plugin)

lemma with_plugin_ready:
  "db_ready ok_db p \<Longrightarrow> db_state p = Some d \<Longrightarrow>
   with_plugin m p = exn_bind (m d) (\<lambda>(a, d'). Inr (a, put_state d' p))"
  by (simp add: with_plugin_def ready_plugin put_state_def)

text \<open>A routed request that is not a reset is the plugin's handler on the active plugin.\<close>

lemma Registry_call_database_ready:
  assumes "db_ready ok_db p" "db_state p = Some d" "om_get request ''action'' \<noteq> Some ''reset''"
    and "DatabasePlugin_actions (de_rj e) (de_ops e) d request [] = Inr (st, resp, d')"
  shows "Registry_call_database e request p = Inr (st, resp, put_state d' p)"
  using assms ready_plugin [OF assms(1,2)]
  by (elim db_ready_cases)
    (auto simp: Registry_call_database_def rf_call_active_def rf_call_def rf_call_one_def reg_call_def
      rf_registry_def db_state_def db_plugin_ops_def put_state_def store_plugin_def active_name_def)

text \<open>
  What the API does on a ready process, proved from the contract. \<open>ext\<close> is arbitrary for reads and
  deletions: an extension sees the same result and the same next state.
\<close>

lemma stoull_limit: "stoull 10 (to_string_u64 limit) = Inr limit"
  by (rule stoull_to_string)

context database_plugin
begin

lemma ready_view:
  assumes "db_ready ok_db p"
  obtains d where "db_state p = Some d" "ok_db d" "db_view look p = look d"
  using ready_state [OF assms] by (auto simp: db_view_def)

lemma put_state_view: "db_ready ok_db p \<Longrightarrow> db_view look (put_state d p) = look d"
  by (simp add: db_view_def put_state_state)

lemma get_value:
  assumes "db_ready ok_db p" "de_ops e = ops" "domain \<noteq> []"
  shows "\<exists>st. getDatabaseValue e ext domain key [] p =
           Inr (st, (case db_view look p domain key of Some v \<Rightarrow> v | None \<Rightarrow> []), p) \<and>
         (ok st \<longleftrightarrow> db_view look p domain key \<noteq> None)"
proof -
  obtain d where d: "db_state p = Some d" "ok_db d" "db_view look p = look d"
    using assms(1) by (rule ready_view)
  obtain st v where g: "db_get ops domain key [] d = (st, v)" by fastforce
  note law = get_law [OF d(2) g]
  show ?thesis
  proof (cases ext)
    case False
    then show ?thesis using assms d law g
      by (auto simp: getDatabaseValue_def read_plugin_ready [OF assms(1) d(1)] db_ready_def)
  next
    case True
    have "Registry_call_database e [(''action'', ''get''), (''domain'', domain), (''key'', key)] p =
        Inr (st, [[(''v'', v)]], put_state d p)"
      by (rule Registry_call_database_ready [OF assms(1) d(1)])
        (auto simp: DatabasePlugin_actions_def om_get_Cons request_field_def assms g)
    then show ?thesis using assms True law d
      by (auto simp: getDatabaseValue_def put_state_same [OF assms(1) d(1)] om_get_Cons split: option.splits)
  qed
qed

lemma delete_value:
  assumes "db_ready ok_db p" "de_ops e = ops" "domain \<noteq> []"
  shows "\<exists>st p'. deleteDatabaseValue e ext domain key p = Inr (st, p') \<and> db_ready ok_db p' \<and>
           db_view look p' = (if ok st then view_del domain (\<lambda>k. k = key) (db_view look p) else db_view look p)"
proof -
  obtain d where d: "db_state p = Some d" "ok_db d" "db_view look p = look d"
    using assms(1) by (rule ready_view)
  obtain st d' where g: "db_remove ops domain key d = (st, d')" by fastforce
  note law = remove_law [OF d(2) g]
  have "deleteDatabaseValue e ext domain key p = Inr (st, put_state d' p)"
  proof (cases ext)
    case False
    then show ?thesis using assms d g
      by (auto simp: deleteDatabaseValue_def with_plugin_ready [OF assms(1) d(1)] db_ready_def)
  next
    case True
    have "Registry_call_database e [(''action'', ''remove''), (''domain'', domain), (''key'', key)] p =
        Inr (st, [], put_state d' p)"
      by (rule Registry_call_database_ready [OF assms(1) d(1)])
        (auto simp: DatabasePlugin_actions_def om_get_Cons request_field_def assms g)
    then show ?thesis using assms True by (auto simp: deleteDatabaseValue_def)
  qed
  then show ?thesis
    using law d assms by (auto simp: put_state_view put_state_ready)
qed

lemma set_batch:
  assumes "db_ready ok_db p" "de_ops e = ops" "domain \<noteq> []"
  shows "\<exists>st p'. setDatabaseBatch e False domain data p = Inr (st, p') \<and> db_ready ok_db p' \<and>
           db_view look p' = (if ok st then view_put domain data (db_view look p) else db_view look p) \<and>
           (\<exists>d data'. ok_db d \<and> st = fst (db_putBatch ops domain data' d))"
proof -
  obtain d where d: "db_state p = Some d" "ok_db d" "db_view look p = look d"
    using assms(1) by (rule ready_view)
  obtain st d' where g: "db_putBatch ops domain data d = (st, d')" by fastforce
  have "setDatabaseBatch e False domain data p = Inr (st, put_state d' p)"
    using assms d g by (auto simp: setDatabaseBatch_def with_plugin_ready [OF assms(1) d(1)] db_ready_def)
  then show ?thesis
    using putBatch_law [OF d(2) g] d assms g
    by (intro exI [of _ st] exI [of _ "put_state d' p"]) (auto simp: put_state_view put_state_ready intro!: exI [of _ d] exI [of _ data])
qed

lemma scan_keys:
  assumes "db_ready ok_db p" "de_ops e = ops" "domain \<noteq> []"
  shows "\<exists>st keys. scanDatabaseKeys e ext domain [] [] 0 p = Inr (st, keys, p) \<and> ok st \<and>
           set keys = {k. db_view look p domain k \<noteq> None} \<and> sorted_wrt (<) keys"
proof -
  obtain d where d: "db_state p = Some d" "ok_db d" "db_view look p = look d"
    using assms(1) by (rule ready_view)
  obtain st where g: "db_scan ops domain [] [] 0 d = Inr (st, dkeys d domain)" "ok st"
    using scan_law [OF d(2), of domain "[]"] by auto
  have "scanDatabaseKeys e ext domain [] [] 0 p = Inr (st, dkeys d domain, p)"
  proof (cases ext)
    case False
    then show ?thesis using assms d g
      by (auto simp: scanDatabaseKeys_def read_plugin_ready [OF assms(1) d(1)] db_ready_def)
  next
    case True
    have "Registry_call_database e
        [(''action'', ''scan''), (''domain'', domain), (''max'', to_string_u64 0), (''prefix'', [])] p =
        Inr (st, map (\<lambda>k. [(''k'', k)]) (dkeys d domain), put_state d p)"
      by (rule Registry_call_database_ready [OF assms(1) d(1)])
        (auto simp: DatabasePlugin_actions_def om_get_Cons request_field_def assms g stoull_limit)
    then show ?thesis using assms True
      by (auto simp: scanDatabaseKeys_def put_state_same [OF assms(1) d(1)] List.map_filter_def om_get_Cons
          comp_def filter_map)
  qed
  then show ?thesis
    using g d dkeys_law [OF d(2)] dkeys_sorted [OF d(2)] by auto
qed

end

section \<open>Batches sent by an extension\<close>

lemma fold_addRef:
  assumes "rj_remove_ok rj" "distinct (map fst obj)"
  shows "distinct (map fst (fold (\<lambda>(k, v). json_addRef rj k v) data obj)) \<and>
    map_of (fold (\<lambda>(k, v). json_addRef rj k v) data obj) =
      map_of obj ++ (\<lambda>k. map_option JString (map_of (rev data) k))"
  using assms(2)
proof (induction data arbitrary: obj)
  case (Cons a data)
  obtain k v where a: "a = (k, v)" by (cases a)
  note D = json_add_distinct [OF assms(1) Cons.prems, of k "JString v"]
  show ?case
    using Cons.IH [OF D(1)] D(2)
    by (auto simp: a json_addRef_def fun_eq_iff map_add_def split: option.splits)
qed (simp add: fun_eq_iff map_add_def)

lemma putBatch_data_strings:
  "(\<And>k j. (k, j) \<in> set ms \<Longrightarrow> no_nul k \<and> (\<exists>s. j = JString s \<and> no_nul s)) \<Longrightarrow>
   \<exists>data. putBatch_data ms = Some data \<and> ms = map (\<lambda>(k, v). (k, JString v)) data"
proof (induction ms)
  case (Cons m ms)
  obtain k j where m: "m = (k, j)" by (cases m)
  obtain s where s: "no_nul k" "j = JString s" "no_nul s" using Cons.prems [of k j] by (auto simp: m)
  obtain data where "putBatch_data ms = Some data" "ms = map (\<lambda>(k, v). (k, JString v)) data"
    using Cons.IH Cons.prems by (auto simp: m)
  then show ?case using s by (intro exI [of _ "(k, s) # data"]) (auto simp: m)
qed simp

definition batch_text_ok :: "DatabaseStringValueList \<Rightarrow> bool" where
  "batch_text_ok data \<longleftrightarrow> list_all (\<lambda>(k, v). no_nul k \<and> no_nul v) data"

definition rj_ok :: "rapidjson \<Rightarrow> bool" where
  "rj_ok rj \<longleftrightarrow> rj_roundtrip rj \<and> rj_text_ok rj \<and> rj_remove_ok rj"

lemma batch_roundtrip:
  assumes "rj_ok rj" "batch_text_ok data"
  shows "\<exists>data'. json_fromString rj (rj_print rj (JObject (fold (\<lambda>(k, v). json_addRef rj k v) data []))) =
           (success, Some (JObject (fold (\<lambda>(k, v). json_addRef rj k v) data []))) \<and>
         putBatch_data (fold (\<lambda>(k, v). json_addRef rj k v) data []) = Some data' \<and>
         map_of (rev data') = map_of (rev data)"
proof -
  define obj where "obj = fold (\<lambda>(k, v). json_addRef rj k v) data []"
  have F: "distinct (map fst obj)" "map_of obj = (\<lambda>k. map_option JString (map_of (rev data) k))"
    using fold_addRef [of rj "[]" data] assms(1) by (auto simp: obj_def rj_ok_def fun_eq_iff map_add_def
        split: option.splits)
  have "no_nul k \<and> (\<exists>s. j = JString s \<and> no_nul s)" if "(k, j) \<in> set obj" for k j
  proof -
    have "map_of obj k = Some j" using F(1) that by simp
    then obtain s where s: "map_of (rev data) k = Some s" "j = JString s" by (auto simp: F(2))
    then have "(k, s) \<in> set data" using map_of_SomeD [OF s(1)] by simp
    then show ?thesis using assms(2) s by (auto simp: batch_text_ok_def list_all_iff)
  qed
  then obtain data' where d': "putBatch_data obj = Some data'" "obj = map (\<lambda>(k, v). (k, JString v)) data'"
    using putBatch_data_strings [of obj] by blast
  have keys: "map fst obj = map fst data'" by (simp add: d' comp_def case_prod_unfold)
  have "map_of (rev data') k = map_of (rev data) k" for k
  proof -
    have "map_option JString (map_of data' k) = map_of obj k"
      unfolding d'(2) by (induction data') auto
    also have "\<dots> = map_option JString (map_of (rev data) k)" by (simp add: F(2))
    finally have "map_of data' k = map_of (rev data) k"
      by (cases "map_of data' k"; cases "map_of (rev data) k") auto
    moreover have "map_of (rev data') = map_of data'"
      using F(1) by (subst map_of_inject_set) (auto simp: keys rev_map [symmetric])
    ultimately show ?thesis by simp
  qed
  moreover have "json_fromString rj (rj_print rj (JObject obj)) = (success, Some (JObject obj))"
    using assms(1) by (simp add: rj_ok_def fromString_print)
  ultimately show ?thesis using d' by (auto simp: obj_def)
qed

context database_plugin
begin

lemma set_batch_ext:
  assumes "db_ready ok_db p" "de_ops e = ops" "domain \<noteq> []" "rj_ok (de_rj e)" "data \<noteq> []" "batch_text_ok data"
  shows "\<exists>st p'. setDatabaseBatch e True domain data p = Inr (st, p') \<and> db_ready ok_db p' \<and>
           db_view look p' = (if ok st then view_put domain data (db_view look p) else db_view look p) \<and>
           (\<exists>d data'. ok_db d \<and> st = fst (db_putBatch ops domain data' d))"
proof -
  obtain d where d: "db_state p = Some d" "ok_db d" "db_view look p = look d"
    using assms(1) by (rule ready_view)
  have fin: ?thesis if "setDatabaseBatch e True domain data p = Inr (st, put_state d' p)"
    "db_putBatch ops domain data' d = (st, d')" "map_of (rev data') = map_of (rev data)" for st d' data'
    using putBatch_law [OF d(2) that(2)] that d assms
    by (intro exI [of _ st] exI [of _ "put_state d' p"])
      (auto simp: put_state_view put_state_ready view_put_def intro!: exI [of _ d] exI [of _ data'])
  show ?thesis
  proof (cases "length data > 1")
    case True
    define obj where "obj = fold (\<lambda>(k, v). json_addRef (de_rj e) k v) data []"
    obtain data' where data': "json_fromString (de_rj e) (rj_print (de_rj e) (JObject obj)) =
        (success, Some (JObject obj))" "putBatch_data obj = Some data'" "map_of (rev data') = map_of (rev data)"
      using batch_roundtrip [OF assms(4,6)] by (auto simp: obj_def)
    obtain st d' where g: "db_putBatch ops domain data' d = (st, d')" by fastforce
    have "Registry_call_database e
        [(''action'', ''putBatch''), (''domain'', domain), (''json'', rj_print (de_rj e) (JObject obj))] p =
        Inr (st, [], put_state d' p)"
      by (rule Registry_call_database_ready [OF assms(1) d(1)])
        (auto simp: DatabasePlugin_actions_def om_get_Cons request_field_def assms g data')
    then have "setDatabaseBatch e True domain data p = Inr (st, put_state d' p)"
      using assms True by (simp add: setDatabaseBatch_def sendPutBatchDatabaseRequest_def obj_def json_toString_def)
    then show ?thesis using g data'(3) by (rule fin)
  next
    case False
    then obtain k v where kv: "data = [(k, v)]" using assms(5) by (cases data) auto
    obtain st d' where g: "db_putBatch ops domain data d = (st, d')" by fastforce
    have "Registry_call_database e
        [(''action'', ''put''), (''domain'', domain), (''key'', k), (''value'', v)] p =
        Inr (st, [], put_state d' p)"
      by (rule Registry_call_database_ready [OF assms(1) d(1)])
        (use g in \<open>auto simp: DatabasePlugin_actions_def om_get_Cons request_field_def assms kv put_law [OF d(2)]\<close>)
    then have "setDatabaseBatch e True domain data p = Inr (st, put_state d' p)"
      using assms by (simp add: setDatabaseBatch_def sendPutDatabaseRequest_def kv)
    then show ?thesis using g by (rule fin) simp
  qed
qed

end

section \<open>Migrations on a reliable store\<close>

definition audit_rename :: "string \<Rightarrow> string" where
  "audit_rename key = (case str_find audit_str key of None \<Rightarrow> key | Some pos \<Rightarrow> audit_new_key pos key)"

text \<open>No two keys get the same new name and no new name is taken.\<close>

definition audit_fresh :: "string set \<Rightarrow> bool" where
  "audit_fresh K \<longleftrightarrow>
     inj_on audit_rename K \<and> (\<forall>k \<in> K. str_find audit_str k \<noteq> None \<longrightarrow> audit_rename k \<notin> K)"

definition pt_total :: "'t ptree_lib \<Rightarrow> bool" where
  "pt_total pt \<longleftrightarrow> (\<forall>t. \<exists>s. pt_write_json pt t = Inr s)"

lemma ptree_rows_total: "pt_total pt \<Longrightarrow> \<exists>r. ptree_rows rj pt ts arr = Inr r"
proof (induction ts arbitrary: arr)
  case (Cons t ts)
  obtain s where s: "pt_write_json pt t = Inr s" using Cons.prems by (auto simp: pt_total_def)
  show ?case using Cons by (cases "rj_parse rj s") (auto simp: s)
qed simp

lemma ptreeToRapidJSON_total: "pt_total pt \<Longrightarrow> \<exists>st o'. ptreeToRapidJSON rj pt i out = Inr (st, o')"
proof (cases "pt_read_json pt i")
  case (Some tree)
  assume "pt_total pt"
  then obtain r where "ptree_rows rj pt tree [] = Inr r" using ptree_rows_total by blast
  then show ?thesis by (cases r) (simp_all add: ptreeToRapidJSON_def Some)
qed (simp add: ptreeToRapidJSON_def)

lemma domains_nonempty [simp]: "kQueries \<noteq> []" "kEvents \<noteq> []" "kPersistentSettings \<noteq> []"
  "kEvents \<noteq> kPersistentSettings" "kQueries \<noteq> kPersistentSettings"
  "kPersistentSettings \<noteq> kEvents" "kPersistentSettings \<noteq> kQueries"
  by (simp_all add: domain_defs)

definition audit_step :: "string \<Rightarrow> (string \<Rightarrow> string option) \<Rightarrow> string \<Rightarrow> string option" where
  "audit_step key W =
     (if str_find audit_str key = None then W else W(audit_rename key := W key, key := None))"

lemma fold_audit_step:
  assumes "distinct keys" "audit_fresh (set keys)"
  shows "(\<forall>k \<in> set keys. fold audit_step keys W (audit_rename k) = W k) \<and>
    (\<forall>k. k \<notin> audit_rename ` set keys \<longrightarrow>
       fold audit_step keys W k = (if k \<in> set keys then None else W k))"
  using assms
proof (induction keys arbitrary: W)
  case (Cons key keys)
  have fresh: "audit_fresh (set keys)" using Cons.prems(2) by (auto simp: audit_fresh_def)
  have new: "audit_rename key \<notin> audit_rename ` set keys"
    using Cons.prems by (auto simp: audit_fresh_def)
  note IH = Cons.IH [OF _ fresh, of "audit_step key W"]
  show ?case
  proof (cases "str_find audit_str key")
    case None
    then have r: "audit_rename key = key" "audit_step key W = W"
      by (simp_all add: audit_rename_def audit_step_def)
    then show ?thesis using IH new Cons.prems(1) by auto
  next
    case (Some pos)
    then have n: "audit_rename key \<notin> set (key # keys)" using Cons.prems(2) by (simp add: audit_fresh_def)
    then have "audit_step key W k = W k" if "k \<in> set keys" for k
      using that Cons.prems(1) by (auto simp: audit_step_def)
    moreover have "audit_step key W (audit_rename key) = W key"
      using n Some by (auto simp: audit_step_def)
    moreover have "audit_step key W k = (if k = key then None else W k)" if "k \<noteq> audit_rename key" for k
      using Some that by (auto simp: audit_step_def)
    ultimately show ?thesis using IH new n Cons.prems(1) by auto
  qed
qed simp

context reliable_database
begin

lemma set_value:
  assumes "db_ready ok_db p" "de_ops e = ops" "domain \<noteq> []"
  shows "\<exists>st p'. setDatabaseValue e False domain k v p = Inr (st, p') \<and> ok st \<and> db_ready ok_db p' \<and>
           db_view look p' = view_put domain [(k, v)] (db_view look p)"
proof -
  obtain d where d: "db_state p = Some d" "ok_db d" "db_view look p = look d"
    using assms(1) by (rule ready_view)
  obtain st d' where g: "db_putBatch ops domain [(k, v)] d = (st, d')" by fastforce
  have "ok st" using putBatch_ok [OF d(2), of domain "[(k, v)]"] g by simp
  moreover have "setDatabaseValue e False domain k v p = Inr (st, put_state d' p)"
    using assms d g by (auto simp: setDatabaseValue_def setDatabaseBatch_def
        with_plugin_ready [OF assms(1) d(1)] db_ready_def)
  ultimately show ?thesis
    using putBatch_law [OF d(2) g] d assms by (auto simp: put_state_view put_state_ready)
qed

lemma delete_value_ok:
  assumes "db_ready ok_db p" "de_ops e = ops" "domain \<noteq> []"
  shows "\<exists>st p'. deleteDatabaseValue e False domain k p = Inr (st, p') \<and> db_ready ok_db p' \<and>
           db_view look p' = view_del domain (\<lambda>k'. k' = k) (db_view look p)"
proof -
  obtain d where d: "db_state p = Some d" "ok_db d" "db_view look p = look d"
    using assms(1) by (rule ready_view)
  obtain st d' where g: "db_remove ops domain k d = (st, d')" by fastforce
  have "ok st" using remove_ok [OF d(2), of domain k] g by simp
  moreover have "deleteDatabaseValue e False domain k p = Inr (st, put_state d' p)"
    using assms d g by (auto simp: deleteDatabaseValue_def with_plugin_ready [OF assms(1) d(1)] db_ready_def)
  ultimately show ?thesis
    using remove_law [OF d(2) g] d assms by (auto simp: put_state_view put_state_ready)
qed

lemma migrateV0V1_keys:
  assumes "de_ops e = ops" "pt_total pt" "db_ready ok_db p"
  shows "\<exists>p'. exn_fold (migrateV0V1_key e pt False) keys p = Inr p' \<and> db_ready ok_db p' \<and>
           (\<forall>dm. dm \<noteq> kQueries \<longrightarrow> db_view look p' dm = db_view look p dm)"
  using assms(3)
proof (induction keys arbitrary: p)
  case (Cons key keys)
  have "\<exists>p1. migrateV0V1_key e pt False key p = Inr p1 \<and> db_ready ok_db p1 \<and>
      (\<forall>dm. dm \<noteq> kQueries \<longrightarrow> db_view look p1 dm = db_view look p dm)"
  proof -
    obtain st v where g: "getDatabaseValue e False kQueries key [] p = Inr (st, v, p)"
      using get_value [OF Cons.prems assms(1), of kQueries False key] by auto
    obtain s out where t: "ptreeToRapidJSON (de_rj e) pt v [] = Inr (s, out)"
      using ptreeToRapidJSON_total [OF assms(2)] by blast
    obtain st2 p2 where w: "setDatabaseValue e False kQueries key out p = Inr (st2, p2)" "db_ready ok_db p2"
      "db_view look p2 = view_put kQueries [(key, out)] (db_view look p)"
      using set_value [OF Cons.prems assms(1), of kQueries key out] by auto
    show ?thesis
      using Cons.prems w by (auto simp: migrateV0V1_key_def g t view_put_def)
  qed
  then show ?case using Cons.IH by fastforce
qed simp

lemma migrateV0V1_ok:
  assumes "de_ops e = ops" "pt_total pt" "db_ready ok_db p"
  shows "\<exists>st p'. migrateV0V1 e pt False p = Inr (st, p') \<and> ok st \<and> db_ready ok_db p' \<and>
           (\<forall>dm. dm \<noteq> kQueries \<longrightarrow> db_view look p' dm = db_view look p dm)"
proof -
  obtain st keys where "scanDatabaseKeys e False kQueries [] [] 0 p = Inr (st, keys, p)" "ok st"
    using scan_keys [OF assms(3,1), of kQueries False] by auto
  then show ?thesis
    using migrateV0V1_keys [OF assms, of keys] by (auto simp: migrateV0V1_def)
qed

lemma migrateV1V2_key_step:
  assumes "de_ops e = ops" "db_ready ok_db p" "db_view look p kEvents key \<noteq> None"
  shows "\<exists>p'. migrateV1V2_key e False key p = Inr p' \<and> db_ready ok_db p' \<and>
           db_view look p' = (db_view look p)(kEvents := audit_step key (db_view look p kEvents))"
proof (cases "str_find audit_str key")
  case None
  then show ?thesis using assms by (simp add: migrateV1V2_key_def audit_step_def)
next
  case (Some pos)
  obtain v where v: "db_view look p kEvents key = Some v" using assms(3) by auto
  obtain st where g: "getDatabaseValue e False kEvents key [] p = Inr (st, v, p)" "ok st"
    using get_value [OF assms(2,1), of kEvents False key] v by auto
  obtain st2 p2 where w: "setDatabaseValue e False kEvents (audit_new_key pos key) v p = Inr (st2, p2)" "ok st2"
    "db_ready ok_db p2" "db_view look p2 = view_put kEvents [(audit_new_key pos key, v)] (db_view look p)"
    using set_value [OF assms(2,1), of kEvents "audit_new_key pos key" v] by auto
  obtain st3 p3 where x: "deleteDatabaseValue e False kEvents key p2 = Inr (st3, p3)" "db_ready ok_db p3"
    "db_view look p3 = view_del kEvents (\<lambda>k'. k' = key) (db_view look p2)"
    using delete_value_ok [OF w(3) assms(1), of kEvents key] by auto
  have "db_view look p3 = (db_view look p)(kEvents := audit_step key (db_view look p kEvents))"
    unfolding x(3) w(4)
    by (auto simp: Some audit_step_def audit_rename_def view_put_def view_del_def v fun_eq_iff)
  then show ?thesis using g w(1,2) x(1,2) by (intro exI [of _ p3]) (simp add: migrateV1V2_key_def Some)
qed

lemma migrateV1V2_keys:
  assumes "de_ops e = ops" "db_ready ok_db p" "distinct keys"
    "\<And>k. k \<in> set keys \<Longrightarrow> db_view look p kEvents k \<noteq> None"
  shows "\<exists>p'. exn_fold (migrateV1V2_key e False) keys p = Inr p' \<and> db_ready ok_db p' \<and>
           db_view look p' = (db_view look p)(kEvents := fold audit_step keys (db_view look p kEvents))"
  using assms(2-)
proof (induction keys arbitrary: p)
  case (Cons key keys)
  obtain p1 where p1: "migrateV1V2_key e False key p = Inr p1" "db_ready ok_db p1"
    "db_view look p1 = (db_view look p)(kEvents := audit_step key (db_view look p kEvents))"
    using migrateV1V2_key_step [OF assms(1) Cons.prems(1), of key] Cons.prems(3) by auto
  have here: "db_view look p1 kEvents k \<noteq> None" if "k \<in> set keys" for k
    using Cons.prems(2,3) that by (auto simp: p1(3) audit_step_def)
  have "distinct keys" using Cons.prems(2) by simp
  then obtain p' where "exn_fold (migrateV1V2_key e False) keys p1 = Inr p'" "db_ready ok_db p'"
    "db_view look p' = (db_view look p1)(kEvents := fold audit_step keys (db_view look p1 kEvents))"
    using Cons.IH [OF p1(2) _ here] by blast
  then show ?case by (intro exI [of _ p']) (simp add: p1(1,3))
qed simp

lemma migrateV1V2_ok:
  assumes "de_ops e = ops" "db_ready ok_db p"
  shows "\<exists>st p' keys. migrateV1V2 e False p = Inr (st, p') \<and> ok st \<and> db_ready ok_db p' \<and>
           distinct keys \<and> set keys = {k. db_view look p kEvents k \<noteq> None} \<and>
           db_view look p' = (db_view look p)(kEvents := fold audit_step keys (db_view look p kEvents))"
proof -
  obtain st keys where s: "scanDatabaseKeys e False kEvents [] [] 0 p = Inr (st, keys, p)" "ok st"
    "set keys = {k. db_view look p kEvents k \<noteq> None}" "sorted_wrt (<) keys"
    using scan_keys [OF assms(2,1), of kEvents False] by auto
  have "distinct keys" using s(4) strict_sorted_iff by blast
  with s obtain p' where "exn_fold (migrateV1V2_key e False) keys p = Inr p'" "db_ready ok_db p'"
    "db_view look p' = (db_view look p)(kEvents := fold audit_step keys (db_view look p kEvents))"
    using migrateV1V2_keys [OF assms, of keys] by auto
  then show ?thesis using s \<open>distinct keys\<close> by (auto simp: migrateV1V2_def)
qed

end

text \<open>\<open>upgradeDatabase\<close> always returns, and succeeds exactly from the versions it knows.\<close>

definition stored_version :: "(string \<Rightarrow> string \<Rightarrow> string option) \<Rightarrow> int option" where
  "stored_version V =
     (case V kPersistentSettings kDbVersionKey of
        None \<Rightarrow> Some 0
      | Some s \<Rightarrow> (case stoi 10 s of Inr v \<Rightarrow> Some v | Inl _ \<Rightarrow> None))"

lemma stoi_to_string_small: "0 \<le> v \<Longrightarrow> v < 10 \<Longrightarrow> stoi 10 (to_string_int v) = Inr v"
  unfolding stoi_def by (rule stosigned_to_string) (auto simp: power_def)

context reliable_database
begin

lemma migrate_step_ok:
  assumes "de_ops e = ops" "pt_total pt" "db_ready ok_db p"
  shows "\<exists>st p'. migrate_step e pt False v p = Inr (st, p') \<and> (ok st \<longleftrightarrow> v = 0 \<or> v = 1) \<and> db_ready ok_db p' \<and>
           db_view look p' kPersistentSettings = db_view look p kPersistentSettings"
proof -
  consider "v = 0" | "v = 1" | "v \<noteq> 0" "v \<noteq> 1" by blast
  then show ?thesis
  proof cases
    case 1
    then show ?thesis using migrateV0V1_ok [OF assms] by (auto simp: migrate_step_def)
  next
    case 2
    then show ?thesis using migrateV1V2_ok [OF assms(1,3)] by (fastforce simp: migrate_step_def)
  next
    case 3
    then show ?thesis using assms(3) by (simp add: migrate_step_def)
  qed
qed

lemma upgrade_loop_ok:
  assumes "de_ops e = ops" "pt_total pt" "db_ready ok_db p" "stored_version (db_view look p) = Some v"
  shows "\<exists>st p'. upgradeDatabase_loop e pt False 2 v p = Inr (st, p') \<and> (ok st \<longleftrightarrow> 0 \<le> v \<and> v \<le> 2) \<and>
           db_ready ok_db p' \<and> (ok st \<longrightarrow> stored_version (db_view look p') = Some 2)"
  using assms(3,4)
proof (induction "nat (2 - v)" arbitrary: v p rule: less_induct)
  case less
  show ?case
  proof (cases "v = 2")
    case True
    then show ?thesis using less.prems by (simp add: upgradeDatabase_loop.simps)
  next
    case False
    obtain st1 p1 where m: "migrate_step e pt False v p = Inr (st1, p1)" "ok st1 \<longleftrightarrow> v = 0 \<or> v = 1"
      "db_ready ok_db p1"
      using migrate_step_ok [OF assms(1,2) less.prems(1), of v] by blast
    show ?thesis
    proof (cases "ok st1")
      case False
      then show ?thesis using m \<open>v \<noteq> 2\<close> by (auto simp: upgradeDatabase_loop.simps [of e pt False 2 v])
    next
      case True
      obtain st2 p2 where s: "setDatabaseValue e False kPersistentSettings kDbVersionKey (to_string_int (v + 1)) p1 =
          Inr (st2, p2)" "ok st2" "db_ready ok_db p2"
        "db_view look p2 = view_put kPersistentSettings [(kDbVersionKey, to_string_int (v + 1))] (db_view look p1)"
        using set_value [OF m(3) assms(1), of kPersistentSettings kDbVersionKey] by fastforce
      have v: "v = 0 \<or> v = 1" using True m(2) by simp
      have "stored_version (db_view look p2) = Some (v + 1)"
        using v by (auto simp: stored_version_def s(4) view_put_def stoi_to_string_small)
      then obtain st p' where "upgradeDatabase_loop e pt False 2 (v + 1) p2 = Inr (st, p')"
        "ok st \<longleftrightarrow> 0 \<le> v + 1 \<and> v + 1 \<le> 2" "db_ready ok_db p'"
        "ok st \<longrightarrow> stored_version (db_view look p') = Some 2"
        using less.hyps [of "v + 1" p2] s(3) v by auto
      then show ?thesis
        using s(1,2) m(1) True v by (auto simp: upgradeDatabase_loop.simps [of e pt False 2 v])
    qed
  qed
qed

end

section \<open>Properties\<close>

text \<open>A core process on the ephemeral plugin, used to instantiate the properties.\<close>

definition eph_env :: "ephemeral_db db_env" where
  "eph_env =
     \<lparr>de_ops = EphemeralDatabasePlugin, de_rj = codec_rapidjson,
      de_reg = \<lparr>env_split = (\<lambda>s. [s]), env_addExternal = (\<lambda>_ _. success), env_pingExtension = (\<lambda>_. success),
                env_callExtension = (\<lambda>_ _ _ _ resp. (success, resp)), env_external = False\<rparr>,
      de_ignore = False, de_what = (\<lambda>_. []), de_disable_database = True\<rparr>"

definition eph_process :: "ephemeral_db \<Rightarrow> ephemeral_db db_process" where
  "eph_process db =
     \<lparr>factory = \<lparr>allow_duplicates = False,
        registries = [(''database'', (RegistryInterface_new ''database'' True)
          \<lparr>items := [(''ephemeral'', \<lparr>pl_name = ''ephemeral'', pl_state = db\<rparr>)], active := ''ephemeral''\<rparr>)],
        extensions = {}\<rparr>,
      kDBAllowOpen = True, kDBInitialized = True, kDBChecking = False\<rparr>"

lemma eph_process_ready: "eph_inv db \<Longrightarrow> db_ready eph_inv (eph_process db)"
  by (simp add: db_ready_def eph_process_def RegistryInterface_new_def om_get_Cons om_wf_Cons)

lemma eph_process_view [simp]: "db_view eph_look (eph_process db) = eph_look db"
  by (simp add: db_view_def db_state_def eph_process_def RegistryInterface_new_def om_get_Cons)

lemma eph_env_ops [simp]: "de_ops eph_env = EphemeralDatabasePlugin"
  by (simp add: eph_env_def)

lemma rj_ok_codec: "rj_ok codec_rapidjson"
  by (simp add: rj_ok_def codec_roundtrip codec_text_ok codec_remove_ok)

lemma eph_inv_Nil [simp]: "eph_inv []"
  by (simp add: eph_inv_def)


definition no_ptree :: "unit ptree_lib" where
  "no_ptree = \<lparr>pt_read_json = (\<lambda>_. None), pt_write_json = (\<lambda>_. Inr [])\<rparr>"


text \<open>
  Migrating the event keys from version 1 to 2 moves every value: a key with \<open>.audit.\<close> in it has
  its value under the new name, the old name is gone, every other key and every other domain is
  unchanged, provided that no new name collides with another key.
\<close>

theorem migrateV1V2_moves:
  assumes "db_ready eph_inv p" "de_ops e = EphemeralDatabasePlugin"
    and "V = db_view eph_look p" "K = {k. V kEvents k \<noteq> None}" "audit_fresh K"
  shows "\<exists>st p'. migrateV1V2 e False p = Inr (st, p') \<and> ok st \<and> db_ready eph_inv p' \<and>
    (\<forall>k \<in> K. db_view eph_look p' kEvents (audit_rename k) = V kEvents k) \<and>
    (\<forall>k. k \<notin> audit_rename ` K \<longrightarrow> db_view eph_look p' kEvents k = None) \<and>
    (\<forall>dm. dm \<noteq> kEvents \<longrightarrow> db_view eph_look p' dm = V dm)"
proof -
  obtain st p' keys where m: "migrateV1V2 e False p = Inr (st, p')" "ok st" "db_ready eph_inv p'" "distinct keys"
    "set keys = K" "db_view eph_look p' = V(kEvents := fold audit_step keys (V kEvents))"
    using eph.migrateV1V2_ok [OF assms(2,1)] unfolding assms(3,4) by blast
  show ?thesis
    using fold_audit_step [OF m(4), of "V kEvents"] m assms(4,5) by (intro exI conjI) auto
qed

theorem migrateV1V2_moves_witness:
  "\<exists>st p'. migrateV1V2 eph_env False
       (eph_process [(kEvents, [(''data.audit.x'', DbString ''1''), (''data.syslog.y'', DbString ''2'')])]) = Inr (st, p') \<and>
     ok st \<and> db_view eph_look p' kEvents ''data.auditeventpublisher.x'' = Some ''1'' \<and>
     db_view eph_look p' kEvents ''data.syslog.y'' = Some ''2'' \<and>
     db_view eph_look p' kEvents ''data.audit.x'' = None"
proof -
  define db where "db = [(kEvents, [(''data.audit.x'', DbString ''1''), (''data.syslog.y'', DbString ''2'')])]"
  have inv: "eph_inv db"
    by (auto simp: db_def eph_inv_def eph_dom_ok_def om_get_Cons om_wf_Cons split: if_splits)
  have look: "eph_look db kEvents k =
      (if k = ''data.audit.x'' then Some ''1'' else if k = ''data.syslog.y'' then Some ''2'' else None)" for k
    by (simp add: db_def eph_look_def eph_domain_def om_get_Cons)
  have K: "{k. eph_look db kEvents k \<noteq> None} = {''data.audit.x'', ''data.syslog.y''}"
    by (auto simp: look)
  have r: "audit_rename ''data.audit.x'' = ''data.auditeventpublisher.x''"
    "audit_rename ''data.syslog.y'' = ''data.syslog.y''" "str_find audit_str ''data.syslog.y'' = None"
    by (simp_all add: audit_rename_def audit_str_def audit_new_key_def)
  have "audit_fresh {''data.audit.x'', ''data.syslog.y''}" using r by (auto simp: audit_fresh_def)
  then have fresh: "audit_fresh {k. db_view eph_look (eph_process db) kEvents k \<noteq> None}"
    by (simp only: eph_process_view K)
  obtain st p' where p': "migrateV1V2 eph_env False (eph_process db) = Inr (st, p')" "ok st"
    and moved: "\<forall>k \<in> {''data.audit.x'', ''data.syslog.y''}.
      db_view eph_look p' kEvents (audit_rename k) = eph_look db kEvents k"
    and gone: "\<forall>k. k \<notin> audit_rename ` {''data.audit.x'', ''data.syslog.y''} \<longrightarrow> db_view eph_look p' kEvents k = None"
    using migrateV1V2_moves [OF eph_process_ready [OF inv] eph_env_ops refl refl fresh]
    unfolding eph_process_view K by blast
  have "db_view eph_look p' kEvents ''data.auditeventpublisher.x'' = Some ''1''"
    "db_view eph_look p' kEvents ''data.syslog.y'' = Some ''2''"
    using moved by (simp_all add: r look)
  moreover have "db_view eph_look p' kEvents ''data.audit.x'' = None" using gone by (simp add: r)
  ultimately show ?thesis using p' unfolding db_def by blast
qed

text \<open>
  C5. An extension and the core see the same store: a batch written through the registry (JSON encoded
  when it has more than one pair) and one written directly both succeed and leave stores that read the
  same, for every non-empty batch of strings without NUL bytes, also with repeated keys. The
  hypothesis on RapidJSON is that it reads back what it prints.
\<close>

theorem extension_writes_like_core:
  assumes "db_ready eph_inv p" "de_ops e = EphemeralDatabasePlugin" "domain \<noteq> []"
    and "rj_ok (de_rj e)" "data \<noteq> []" "batch_text_ok data"
  shows "\<exists>st1 p1 st2 p2.
    setDatabaseBatch e False domain data p = Inr (st1, p1) \<and>
    setDatabaseBatch e True domain data p = Inr (st2, p2) \<and>
    ok st1 = ok st2 \<and> db_ready eph_inv p1 \<and> db_ready eph_inv p2 \<and>
    db_view eph_look p2 = db_view eph_look p1"
proof -
  obtain st1 p1 where 1: "setDatabaseBatch e False domain data p = Inr (st1, p1)" "db_ready eph_inv p1" "ok st1"
    "db_view eph_look p1 = (if ok st1 then view_put domain data (db_view eph_look p) else db_view eph_look p)"
    using eph.set_batch [OF assms(1-3), of data] eph.putBatch_ok by metis
  obtain st2 p2 where 2: "setDatabaseBatch e True domain data p = Inr (st2, p2)" "db_ready eph_inv p2" "ok st2"
    "db_view eph_look p2 = (if ok st2 then view_put domain data (db_view eph_look p) else db_view eph_look p)"
    using eph.set_batch_ext [OF assms] eph.putBatch_ok by metis
  show ?thesis using 1 2 by auto
qed

theorem extension_writes_like_core_witness:
  "\<exists>st1 p1 st2 p2.
    setDatabaseBatch eph_env False kEvents [(''k'', ''1''), (''j'', ''2''), (''k'', ''3'')] (eph_process []) = Inr (st1, p1) \<and>
    setDatabaseBatch eph_env True kEvents [(''k'', ''1''), (''j'', ''2''), (''k'', ''3'')] (eph_process []) = Inr (st2, p2) \<and>
    ok st1 = ok st2 \<and> db_view eph_look p2 = db_view eph_look p1"
proof -
  have "rj_ok (de_rj eph_env)" by (simp add: eph_env_def rj_ok_codec)
  moreover have "batch_text_ok [(''k'', ''1''), (''j'', ''2''), (''k'', ''3'')]"
    by (simp add: batch_text_ok_def no_nul_def)
  ultimately show ?thesis
    using extension_writes_like_core [OF eph_process_ready [OF eph_inv_Nil] eph_env_ops domains_nonempty(2)]
    by blast
qed

text \<open>
  Read after write, in the core and from an extension: after a successful write of a value every
  reader gets that value for the key, and what any other key of any domain reads is unchanged.
\<close>

theorem database_read_after_write:
  assumes "db_ready eph_inv p" "de_ops e = EphemeralDatabasePlugin" "domain \<noteq> []" "dm \<noteq> []"
  shows "\<exists>st p'. setDatabaseValue e False domain key v p = Inr (st, p') \<and> ok st \<and>
    (\<exists>st' x. getDatabaseValue e ext dm k [] p' = Inr (st', x, p') \<and>
       (if dm = domain \<and> k = key then ok st' \<and> x = v
        else \<exists>st0. getDatabaseValue e ext dm k [] p = Inr (st0, x, p) \<and> ok st' = ok st0))"
proof -
  obtain st p' where w: "setDatabaseValue e False domain key v p = Inr (st, p')" "ok st" "db_ready eph_inv p'"
    "db_view eph_look p' = view_put domain [(key, v)] (db_view eph_look p)"
    using eph.set_value [OF assms(1-3)] by blast
  have view: "db_view eph_look p' dm k = (if dm = domain \<and> k = key then Some v else db_view eph_look p dm k)"
    by (simp add: w(4) view_put_def)
  obtain st1 where g1: "getDatabaseValue e ext dm k [] p' =
      Inr (st1, (case db_view eph_look p' dm k of Some v \<Rightarrow> v | None \<Rightarrow> []), p')"
    "ok st1 \<longleftrightarrow> db_view eph_look p' dm k \<noteq> None"
    using eph.get_value [OF w(3) assms(2,4), of ext k] by blast
  obtain st0 where g0: "getDatabaseValue e ext dm k [] p =
      Inr (st0, (case db_view eph_look p dm k of Some v \<Rightarrow> v | None \<Rightarrow> []), p)"
    "ok st0 \<longleftrightarrow> db_view eph_look p dm k \<noteq> None"
    using eph.get_value [OF assms(1,2,4), of ext k] by blast
  have "\<exists>st' x. getDatabaseValue e ext dm k [] p' = Inr (st', x, p') \<and>
       (if dm = domain \<and> k = key then ok st' \<and> x = v
        else \<exists>st0. getDatabaseValue e ext dm k [] p = Inr (st0, x, p) \<and> ok st' = ok st0)"
    using g1 g0 view by (cases "dm = domain \<and> k = key") auto
  then show ?thesis using w(1,2) by blast
qed

theorem database_read_after_write_witness:
  "\<exists>st p'. setDatabaseValue eph_env False kEvents ''k'' ''v'' (eph_process []) = Inr (st, p') \<and> ok st \<and>
     (\<exists>st' x. getDatabaseValue eph_env True kEvents ''k'' [] p' = Inr (st', x, p') \<and> ok st' \<and> x = ''v'')"
  using database_read_after_write [OF eph_process_ready [OF eph_inv_Nil] eph_env_ops domains_nonempty(2)
      domains_nonempty(2), of "''k''" "''v''" True "''k''"]
  by auto

end
