(* ===== verification/Rows.thy ===== *)
theory Rows
  imports Json
begin

text \<open>
  Rows and query results: \<open>osquery/core/sql/row.cpp\<close>, \<open>query_data.cpp\<close>, \<open>diff_results.cpp\<close> and the
  data of \<open>row.h\<close>, \<open>query_data.h\<close>, \<open>diff_results.h\<close>. A row is a \<open>std::map\<close> from column names to
  values; a stored result set is a \<open>std::multiset\<close> of rows, that is a sorted list. The differential
  of two result sets is the pair of multiset differences, and a row survives the trip through JSON
  exactly when it holds no empty column name and no NUL byte.
\<close>

section \<open>Values and rows\<close>

datatype RowDataTyped = RInt int | RDouble rat | RString string

text \<open>\<open>boost::variant\<close> orders by alternative first, then by value.\<close>

instantiation RowDataTyped :: linorder
begin

fun less_eq_RowDataTyped :: "RowDataTyped \<Rightarrow> RowDataTyped \<Rightarrow> bool" where
  "less_eq_RowDataTyped (RInt a) (RInt b) = (a \<le> b)"
| "less_eq_RowDataTyped (RInt a) _ = True"
| "less_eq_RowDataTyped (RDouble a) (RInt b) = False"
| "less_eq_RowDataTyped (RDouble a) (RDouble b) = (a \<le> b)"
| "less_eq_RowDataTyped (RDouble a) (RString b) = True"
| "less_eq_RowDataTyped (RString a) (RString b) = (a \<le> b)"
| "less_eq_RowDataTyped (RString a) _ = False"

definition less_RowDataTyped :: "RowDataTyped \<Rightarrow> RowDataTyped \<Rightarrow> bool" where
  "less_RowDataTyped a b \<longleftrightarrow> a \<le> b \<and> \<not> b \<le> a"

instance
proof
  fix x y z :: RowDataTyped
  show "x < y \<longleftrightarrow> x \<le> y \<and> \<not> y \<le> x" by (simp add: less_RowDataTyped_def)
  show "x \<le> x" by (cases x) auto
  show "x \<le> y \<Longrightarrow> y \<le> z \<Longrightarrow> x \<le> z" by (cases x; cases y; cases z) auto
  show "x \<le> y \<Longrightarrow> y \<le> x \<Longrightarrow> x = y" by (cases x; cases y) auto
  show "x \<le> y \<or> y \<le> x" by (cases x; cases y) auto
qed

end

type_synonym Row = "(string, string) omap"
type_synonym RowTyped = "(string, RowDataTyped) omap"
type_synonym ColumnNames = "string list"
type_synonym QueryData = "Row list"
type_synonym QueryDataTyped = "RowTyped list"

text \<open>A \<open>std::multiset\<close> is its sorted traversal.\<close>

type_synonym QueryDataSet = "RowTyped list"

record DiffResults =
  added :: QueryDataTyped
  removed :: QueryDataTyped

definition hasNoResults :: "DiffResults \<Rightarrow> bool" where
  "hasNoResults d \<longleftrightarrow> added d = [] \<and> removed d = []"

text \<open>
  \<open>castVariant\<close>: a double prints with 15 significant digits and \<open>.0\<close> when the stream wrote no point.
  The stream's own formatting is the argument.
\<close>

definition castVariant :: "(rat \<Rightarrow> string) \<Rightarrow> RowDataTyped \<Rightarrow> string" where
  "castVariant format v =
     (case v of
        RInt i \<Rightarrow> to_string_int i
      | RDouble d \<Rightarrow> (let s = format d in if CHR ''.'' \<in> set s then s else s @ ''.0'')
      | RString s \<Rightarrow> s)"

section \<open>Rows as JSON objects\<close>

fun serializeRow :: "rapidjson \<Rightarrow> Row \<Rightarrow> ColumnNames \<Rightarrow> members \<Rightarrow> Status \<times> members" where
  "serializeRow rj r cols obj =
     (success,
      if cols = [] then fold (\<lambda>(k, v). json_addRef rj k v) r obj
      else fold (\<lambda>c ob. case om_get r c of Some v \<Rightarrow> json_addRef rj c v ob | None \<Rightarrow> ob) cols obj)"

fun value_json :: "RowDataTyped \<Rightarrow> json" where
  "value_json (RInt i) = JInt i"
| "value_json (RDouble d) = JDouble d"
| "value_json (RString s) = JString s"

definition serializeRow_typed ::
  "rapidjson \<Rightarrow> (rat \<Rightarrow> string) \<Rightarrow> RowTyped \<Rightarrow> members \<Rightarrow> bool \<Rightarrow> Status \<times> members" where
  "serializeRow_typed rj format r obj asNumeric =
     (success,
      fold (\<lambda>(k, v) ob. if asNumeric then json_add rj k (value_json v) ob
                        else json_addRef rj k (castVariant format v) ob) r obj)"

definition serializeRowJSON_typed ::
  "rapidjson \<Rightarrow> (rat \<Rightarrow> string) \<Rightarrow> RowTyped \<Rightarrow> bool \<Rightarrow> Status \<times> string" where
  "serializeRowJSON_typed rj format r asNumeric =
     (let (status, obj) = serializeRow_typed rj format r [] asNumeric
      in if \<not> ok status then (status, []) else json_toString rj (JObject obj))"

definition serializeRowJSON :: "rapidjson \<Rightarrow> Row \<Rightarrow> Status \<times> string" where
  "serializeRowJSON rj r =
     (let (status, obj) = serializeRow rj r [] []
      in if \<not> ok status then (status, []) else json_toString rj (JObject obj))"

definition deserializeRow :: "json \<Rightarrow> Row \<Rightarrow> Status \<times> Row" where
  "deserializeRow doc r =
     (case doc of
        JObject ms \<Rightarrow>
          (success,
           fold (\<lambda>(n, v) row. let name = c_str n in
                   if name \<noteq> [] then (case v of JString s \<Rightarrow> om_set name (c_str s) row | _ \<Rightarrow> row)
                   else row) ms r)
      | _ \<Rightarrow> (Status_code 1, r))"

definition typed_member :: "string \<times> json \<Rightarrow> RowTyped \<Rightarrow> RowTyped" where
  "typed_member m row =
     (let name = c_str (fst m); v = snd m in
      if name \<noteq> [] then
        (if IsString v then (case v of JString s \<Rightarrow> om_set name (RString (c_str s)) row | _ \<Rightarrow> row)
         else if IsDouble v then (case v of JDouble d \<Rightarrow> om_set name (RDouble d) row | _ \<Rightarrow> row)
         else if IsInt64 v then (case v of JInt i \<Rightarrow> om_set name (RInt i) row | _ \<Rightarrow> row)
         else row)
      else row)"

definition deserializeRow_typed :: "json \<Rightarrow> RowTyped \<Rightarrow> Status \<times> RowTyped" where
  "deserializeRow_typed doc r =
     (case doc of
        JObject ms \<Rightarrow> (success, fold typed_member ms r)
      | _ \<Rightarrow> (Status_code 1, r))"

definition deserializeRowJSON :: "rapidjson \<Rightarrow> string \<Rightarrow> Row \<Rightarrow> Status \<times> Row" where
  "deserializeRowJSON rj s r =
     (case json_fromString rj s of
        (st, Some d) \<Rightarrow> if \<not> ok st \<or> \<not> IsObject d then (Status_msg 1 ''Cannot deserializing JSON'', r)
                       else deserializeRow d r
      | (_, None) \<Rightarrow> (Status_msg 1 ''Cannot deserializing JSON'', r))"

definition deserializeRowJSON_typed :: "rapidjson \<Rightarrow> string \<Rightarrow> RowTyped \<Rightarrow> Status \<times> RowTyped" where
  "deserializeRowJSON_typed rj s r =
     (case json_fromString rj s of
        (st, Some d) \<Rightarrow> if \<not> ok st \<or> \<not> IsObject d then (Status_msg 1 ''Cannot deserializing JSON'', r)
                       else deserializeRow_typed d r
      | (_, None) \<Rightarrow> (Status_msg 1 ''Cannot deserializing JSON'', r))"

section \<open>Result sets as JSON arrays\<close>

fun serializeQueryData :: "rapidjson \<Rightarrow> QueryData \<Rightarrow> ColumnNames \<Rightarrow> json list \<Rightarrow> Status \<times> json list"
where
  "serializeQueryData rj [] cols arr = (success, arr)"
| "serializeQueryData rj (r # q) cols arr =
     (let (status, row_obj) = serializeRow rj r cols []
      in if \<not> ok status then (status, arr)
         else serializeQueryData rj q cols (json_push (JObject row_obj) arr))"

fun serializeQueryData_typed ::
  "rapidjson \<Rightarrow> (rat \<Rightarrow> string) \<Rightarrow> QueryDataTyped \<Rightarrow> json list \<Rightarrow> bool \<Rightarrow> Status \<times> json list" where
  "serializeQueryData_typed rj format [] arr asNumeric = (success, arr)"
| "serializeQueryData_typed rj format (r # q) arr asNumeric =
     (let (status, row_obj) = serializeRow_typed rj format r [] asNumeric
      in if \<not> ok status then (status, arr)
         else serializeQueryData_typed rj format q (json_push (JObject row_obj) arr) asNumeric)"

definition serializeQueryDataJSON :: "rapidjson \<Rightarrow> QueryData \<Rightarrow> Status \<times> string" where
  "serializeQueryDataJSON rj q =
     (let (status, arr) = serializeQueryData rj q [] []
      in if \<not> ok status then (status, []) else json_toString rj (JArray arr))"

definition serializeQueryDataJSON_typed ::
  "rapidjson \<Rightarrow> (rat \<Rightarrow> string) \<Rightarrow> QueryDataTyped \<Rightarrow> bool \<Rightarrow> Status \<times> string" where
  "serializeQueryDataJSON_typed rj format q asNumeric =
     (let (status, arr) = serializeQueryData_typed rj format q [] asNumeric
      in if \<not> ok status then (status, []) else json_toString rj (JArray arr))"

fun deserialize_rows :: "json list \<Rightarrow> QueryData \<Rightarrow> Status \<times> QueryData" where
  "deserialize_rows [] qd = (success, qd)"
| "deserialize_rows (i # is) qd =
     (let (status, r) = deserializeRow i []
      in if \<not> ok status then (status, qd) else deserialize_rows is (qd @ [r]))"

definition deserializeQueryData :: "json \<Rightarrow> QueryData \<Rightarrow> Status \<times> QueryData" where
  "deserializeQueryData arr qd =
     (case arr of JArray is \<Rightarrow> deserialize_rows is qd | _ \<Rightarrow> (Status_code 1, qd))"

fun deserialize_rows_typed :: "json list \<Rightarrow> QueryDataTyped \<Rightarrow> Status \<times> QueryDataTyped" where
  "deserialize_rows_typed [] qd = (success, qd)"
| "deserialize_rows_typed (i # is) qd =
     (let (status, r) = deserializeRow_typed i []
      in if \<not> ok status then (status, qd) else deserialize_rows_typed is (qd @ [r]))"

definition deserializeQueryData_typed :: "json \<Rightarrow> QueryDataTyped \<Rightarrow> Status \<times> QueryDataTyped" where
  "deserializeQueryData_typed arr qd =
     (case arr of JArray is \<Rightarrow> deserialize_rows_typed is qd | _ \<Rightarrow> (Status_code 1, qd))"

fun deserialize_rows_set :: "json list \<Rightarrow> QueryDataSet \<Rightarrow> Status \<times> QueryDataSet" where
  "deserialize_rows_set [] qd = (success, qd)"
| "deserialize_rows_set (i # is) qd =
     (let (status, r) = deserializeRow_typed i []
      in if \<not> ok status then (status, qd) else deserialize_rows_set is (insort r qd))"

definition deserializeQueryData_set :: "json \<Rightarrow> QueryDataSet \<Rightarrow> Status \<times> QueryDataSet" where
  "deserializeQueryData_set v qd =
     (case v of
        JArray is \<Rightarrow> deserialize_rows_set is qd
      | _ \<Rightarrow> (Status_msg 1 ''JSON object was not an array'', qd))"

definition deserializeQueryDataJSON :: "rapidjson \<Rightarrow> string \<Rightarrow> QueryData \<Rightarrow> Status \<times> QueryData" where
  "deserializeQueryDataJSON rj s qd =
     (case json_fromString rj s of
        (st, Some d) \<Rightarrow>
          if \<not> ok st \<or> \<not> IsArray d then (Status_msg 1 ''Cannot deserializing JSON'', qd)
          else deserializeQueryData d qd
      | (_, None) \<Rightarrow> (Status_msg 1 ''Cannot deserializing JSON'', qd))"

definition deserializeQueryDataJSON_set ::
  "rapidjson \<Rightarrow> string \<Rightarrow> QueryDataSet \<Rightarrow> Status \<times> QueryDataSet" where
  "deserializeQueryDataJSON_set rj s qd =
     (case rj_parse rj (c_str s) of
        None \<Rightarrow> (Status_msg 1 ''Error serializing JSON'', qd)
      | Some d \<Rightarrow> deserializeQueryData_set d qd)"

definition addUniqueRowToQueryData :: "QueryDataTyped \<Rightarrow> RowTyped \<Rightarrow> bool \<times> QueryDataTyped" where
  "addUniqueRowToQueryData q r = (if r \<in> set q then (False, q) else (True, q @ [r]))"

section \<open>Differentials\<close>

text \<open>The loop over the current rows: a row found in the old set is taken out of it.\<close>

fun diff_loop :: "QueryDataTyped \<Rightarrow> QueryDataSet \<Rightarrow> QueryDataTyped \<Rightarrow> QueryDataTyped \<times> QueryDataSet" where
  "diff_loop [] old acc = (acc, old)"
| "diff_loop (i # current) old acc =
     (if i \<in> set old then diff_loop current (remove1 i old) acc
      else diff_loop current old (acc @ [i]))"

definition diff :: "QueryDataSet \<Rightarrow> QueryDataTyped \<Rightarrow> DiffResults" where
  "diff old current =
     (let (add, rest) = diff_loop current old [] in \<lparr>added = add, removed = rest\<rparr>)"

definition serializeDiffResults ::
  "rapidjson \<Rightarrow> (rat \<Rightarrow> string) \<Rightarrow> DiffResults \<Rightarrow> members \<Rightarrow> bool \<Rightarrow> Status \<times> members" where
  "serializeDiffResults rj format d obj asNumeric =
     (let (status, removed_arr) = serializeQueryData_typed rj format (removed d) [] asNumeric
      in if \<not> ok status then (status, obj)
         else let obj1 = json_add rj ''removed'' (JArray removed_arr) obj;
                  (status, added_arr) = serializeQueryData_typed rj format (added d) [] asNumeric
              in if \<not> ok status then (status, obj1)
                 else (success, json_add rj ''added'' (JArray added_arr) obj1))"

definition serializeDiffResultsJSON ::
  "rapidjson \<Rightarrow> (rat \<Rightarrow> string) \<Rightarrow> DiffResults \<Rightarrow> bool \<Rightarrow> Status \<times> string" where
  "serializeDiffResultsJSON rj format d asNumeric =
     (let (status, obj) = serializeDiffResults rj format d [] asNumeric
      in if \<not> ok status then (status, []) else json_toString rj (JObject obj))"

section \<open>What the differential is\<close>

lemma diff_loop_added:
  "mset (fst (diff_loop current old acc)) = mset acc + (mset current - mset old)"
proof (induction current old acc rule: diff_loop.induct)
  case (2 i current old acc)
  show ?case
  proof (cases "i \<in> set old")
    case True
    then have "mset (i # current) - mset old = mset current - (mset old - {#i#})"
      by (simp add: in_multiset_in_set insert_DiffM [symmetric] diff_add_mset_swap)
        (metis add_mset_diff_bothsides in_multiset_in_set insert_DiffM)
    with True 2 show ?thesis by simp
  next
    case False
    then have "mset (i # current) - mset old = add_mset i (mset current - mset old)"
      by (simp add: minus_add_mset_if_not_in_lhs in_multiset_in_set)
    with False 2 show ?thesis by simp
  qed
qed simp

lemma diff_loop_rest: "mset (snd (diff_loop current old acc)) = mset old - mset current"
proof (induction current old acc rule: diff_loop.induct)
  case (2 i current old acc)
  then show ?case
    by (cases "i \<in> set old") (simp_all add: diff_right_commute diff_single_trivial)
qed simp

lemma diff_loop_sorted: "sorted old \<Longrightarrow> sorted (snd (diff_loop current old acc))"
  by (induction current old acc rule: diff_loop.induct) (auto intro: remove1_sorted)

lemma diff_loop_subseq: "\<exists>ys. fst (diff_loop current old acc) = acc @ ys \<and> subseq ys current"
proof (induction current old acc rule: diff_loop.induct)
  case (2 i current old acc)
  show ?case
  proof (cases "i \<in> set old")
    case True
    with 2 obtain ys where "fst (diff_loop current (remove1 i old) acc) = acc @ ys" "subseq ys current"
      by blast
    with True show ?thesis by (auto intro!: exI [of _ ys])
  next
    case False
    with 2 obtain ys where "fst (diff_loop current old (acc @ [i])) = (acc @ [i]) @ ys" "subseq ys current"
      by blast
    with False show ?thesis by (auto intro!: exI [of _ "i # ys"])
  qed
qed auto

lemma diff_added: "mset (added (diff old current)) = mset current - mset old"
  by (simp add: diff_def case_prod_unfold Let_def diff_loop_added)

lemma diff_removed: "mset (removed (diff old current)) = mset old - mset current"
  by (simp add: diff_def case_prod_unfold Let_def diff_loop_rest)

lemma diff_applied:
  "mset old + mset (added (diff old current)) = mset current + mset (removed (diff old current))"
  by (rule multiset_eqI) (simp add: diff_added diff_removed)

section \<open>Rows through JSON\<close>

text \<open>What survives: column names that are not empty, no NUL byte, integers of 64 bits.\<close>

fun value_storable :: "RowDataTyped \<Rightarrow> bool" where
  "value_storable (RInt i) = (- (2 ^ 63) \<le> i \<and> i < 2 ^ 63)"
| "value_storable (RDouble d) = True"
| "value_storable (RString s) = no_nul s"

definition row_storable :: "RowTyped \<Rightarrow> bool" where
  "row_storable r \<longleftrightarrow> om_wf r \<and> (\<forall>(k, v) \<in> set r. k \<noteq> [] \<and> no_nul k \<and> value_storable v)"

definition row_json :: "RowTyped \<Rightarrow> json" where
  "row_json r = JObject (map (\<lambda>(k, v). (k, value_json v)) r)"

lemma serializeRow_typed_numeric:
  assumes "om_wf r"
  shows "serializeRow_typed rj format r [] True = (success, map (\<lambda>(k, v). (k, value_json v)) r)"
proof -
  have "fold (\<lambda>(k, v) ob. json_add rj k (value_json v) ob) r [] =
    fold (\<lambda>(k, v). json_add rj k v) (map (\<lambda>(k, v). (k, value_json v)) r) []"
    by (simp add: fold_map comp_def case_prod_unfold)
  also have "\<dots> = map (\<lambda>(k, v). (k, value_json v)) r"
    using om_keys_distinct [OF assms]
    by (subst fold_json_add_fresh) (simp_all add: om_keys_def case_prod_unfold comp_def)
  finally show ?thesis by (simp add: serializeRow_typed_def)
qed

lemma typed_member_value:
  "k \<noteq> [] \<Longrightarrow> no_nul k \<Longrightarrow> value_storable v \<Longrightarrow> typed_member (k, value_json v) row = om_set k v row"
  by (cases v) (simp_all add: typed_member_def)

lemma fold_typed_member:
  "\<forall>(k, v) \<in> set r. k \<noteq> [] \<and> no_nul k \<and> value_storable v \<Longrightarrow>
   fold typed_member (map (\<lambda>(k, v). (k, value_json v)) r) row = fold (\<lambda>(k, v). om_set k v) r row"
  by (induction r arbitrary: row) (auto simp: typed_member_value)

lemma deserializeRow_row_json:
  "row_storable r \<Longrightarrow> deserializeRow_typed (row_json r) [] = (success, r)"
  by (simp add: row_storable_def row_json_def deserializeRow_typed_def fold_typed_member fold_om_set_self)

lemma serializeQueryData_numeric:
  "\<forall>r \<in> set q. om_wf r \<Longrightarrow>
   serializeQueryData_typed rj format q arr True = (success, arr @ map row_json q)"
  by (induction q arbitrary: arr) (auto simp: serializeRow_typed_numeric row_json_def json_push_def)

lemma deserialize_rows_set_row_json:
  "\<forall>r \<in> set q. row_storable r \<Longrightarrow>
   deserialize_rows_set (map row_json q) qd = (success, fold insort q qd)"
  by (induction q arbitrary: qd) (auto simp: deserializeRow_row_json)

lemma fold_insort_mset: "mset (fold insort q qd) = mset q + mset qd"
  by (induction q arbitrary: qd) auto

lemma fold_insort_sorted: "sorted qd \<Longrightarrow> sorted (fold insort q qd)"
  by (induction q arbitrary: qd) (auto simp: sorted_insort)

lemma row_storable_wf: "row_storable r \<Longrightarrow> om_wf r"
  by (simp add: row_storable_def)

text \<open>What is written for a result set, and what reading it back gives.\<close>

definition rows_text :: "rapidjson \<Rightarrow> QueryDataTyped \<Rightarrow> string" where
  "rows_text rj q = rj_print rj (JArray (map row_json q))"

lemma serializeQueryDataJSON_numeric:
  "\<forall>r \<in> set q. om_wf r \<Longrightarrow>
   serializeQueryDataJSON_typed rj format q True = (success, rows_text rj q)"
  by (simp add: serializeQueryDataJSON_typed_def serializeQueryData_numeric json_toString_def rows_text_def)

lemma deserialize_rows_text:
  assumes "rj_roundtrip rj" "rj_text_ok rj" "\<forall>r \<in> set q. row_storable r"
  shows "deserializeQueryDataJSON_set rj (rows_text rj q) [] = (success, fold insort q [])"
  using assms fromString_print [OF assms(1,2), of "JArray (map row_json q)"]
  by (simp add: deserializeQueryDataJSON_set_def rows_text_def deserializeQueryData_set_def
      deserialize_rows_set_row_json json_fromString_def split: option.splits)

section \<open>Properties\<close>

text \<open>
  C3. \<open>diff\<close> computes the multiset difference of two result sets in both directions, keeps the order
  in which the current results list the added rows, returns the removed rows in the order of the
  multiset, and the old set with the difference applied is the current one.\<close>

theorem diff_is_multiset_difference:
  assumes "sorted old"
  shows "mset (added (diff old current)) = mset current - mset old \<and>
    mset (removed (diff old current)) = mset old - mset current \<and>
    mset old - mset (removed (diff old current)) + mset (added (diff old current)) = mset current \<and>
    subseq (added (diff old current)) current \<and> sorted (removed (diff old current))"
proof -
  have "mset old - mset (removed (diff old current)) + mset (added (diff old current)) = mset current"
    by (rule multiset_eqI) (simp add: diff_added diff_removed)
  moreover obtain ys where "fst (diff_loop current old []) = [] @ ys" "subseq ys current"
    using diff_loop_subseq by blast
  then have "subseq (added (diff old current)) current"
    by (simp add: diff_def case_prod_unfold Let_def)
  moreover have "sorted (removed (diff old current))"
    using diff_loop_sorted [OF assms] by (simp add: diff_def case_prod_unfold Let_def)
  ultimately show ?thesis by (simp add: diff_added diff_removed)
qed

theorem diff_is_multiset_difference_witness:
  "let old = [[(''pid'', RInt 1)], [(''pid'', RInt 7)], [(''pid'', RInt 7)]];
       current = [[(''pid'', RInt 9)], [(''pid'', RInt 7)]]
   in mset (added (diff old current)) = {#[(''pid'', RInt 9)]#} \<and>
      mset (removed (diff old current)) = {#[(''pid'', RInt 1)], [(''pid'', RInt 7)]#}"
proof -
  let ?old = "[[(''pid'', RInt 1)], [(''pid'', RInt 7)], [(''pid'', RInt 7)]]"
  let ?current = "[[(''pid'', RInt 9)], [(''pid'', RInt 7)]]"
  have s: "sorted ?old" by code_simp
  show ?thesis
    using diff_is_multiset_difference [OF s, of ?current] by (simp add: Let_def)
qed

text \<open>
  Results written as JSON with typed numbers are read back as the same multiset of rows, for rows
  whose column names are not empty and whose text has no NUL byte, with any JSON library that parses
  what it prints.\<close>

theorem rows_json_roundtrip:
  assumes "rj_roundtrip rj" "rj_text_ok rj" "\<forall>r \<in> set q. row_storable r"
  shows "\<exists>t qd. serializeQueryDataJSON_typed rj format q True = (success, t) \<and>
    deserializeQueryDataJSON_set rj t [] = (success, qd) \<and> mset qd = mset q \<and> sorted qd"
proof (intro exI conjI)
  show "serializeQueryDataJSON_typed rj format q True = (success, rows_text rj q)"
    using assms(3) by (simp add: serializeQueryDataJSON_numeric row_storable_wf)
  show "deserializeQueryDataJSON_set rj (rows_text rj q) [] = (success, fold insort q [])"
    by (rule deserialize_rows_text [OF assms])
qed (simp_all add: fold_insort_mset fold_insort_sorted)

theorem rows_json_roundtrip_witness:
  "\<exists>t qd. serializeQueryDataJSON_typed codec_rapidjson (\<lambda>_. []) [[(''b'', RInt 2)], [(''a'', RString ''x'')]] True =
       (success, t) \<and>
     deserializeQueryDataJSON_set codec_rapidjson t [] = (success, qd) \<and>
     mset qd = {#[(''b'', RInt 2)], [(''a'', RString ''x'')]#}"
proof -
  have s: "\<forall>r \<in> set [[(''b'', RInt 2)], [(''a'', RString ''x'')]]. row_storable r"
    by (simp add: row_storable_def om_wf_def no_nul_def)
  show ?thesis
    using rows_json_roundtrip [OF codec_roundtrip codec_text_ok s, of "\<lambda>_. []"] by auto
qed

text \<open>
  A column with an empty name does not survive: the writer keeps it and the reader drops it, so
  that the row read back is another row.\<close>

theorem empty_column_name_is_dropped:
  "serializeRow_typed codec_rapidjson (\<lambda>_. []) [('''', RInt 1), (''pid'', RInt 7)] [] True =
     (success, [('''', JInt 1), (''pid'', JInt 7)]) \<and>
   deserializeRow_typed (JObject [('''', JInt 1), (''pid'', JInt 7)]) [] = (success, [(''pid'', RInt 7)])"
  by (simp add: serializeRow_typed_numeric om_wf_def deserializeRow_typed_def typed_member_def no_nul_def)

end
