(* ===== verification/QueryHistory.thy ===== *)
theory QueryHistory
  imports Database Rows
begin

text \<open>
  The stored history of a scheduled query: \<open>osquery/core/query.cpp\<close> and \<open>query.h\<close>. The results of the
  last run, the epoch they belong to, the counter and the SQL text live in the domain \<open>queries\<close> of the
  database under four keys made from the query's name. \<open>addNewResults\<close> computes what changed since the
  last run; what a log consumer rebuilds from these differentials is the subject of the properties.
\<close>

section \<open>The Query class\<close>

record Query =
  q_query :: string
  q_name :: string

definition epoch_key :: "Query \<Rightarrow> string" where "epoch_key q = q_name q @ ''epoch''"
definition counter_key :: "Query \<Rightarrow> string" where "counter_key q = q_name q @ ''counter''"
definition sql_key :: "Query \<Rightarrow> string" where "sql_key q = ''query.'' @ q_name q"

definition getPreviousEpoch :: "'d db_env \<Rightarrow> bool \<Rightarrow> Query \<Rightarrow> 'd db_process \<Rightarrow> (u64 \<times> 'd db_process) throwing" where
  "getPreviousEpoch e ext q p =
     exn_bind (getDatabaseValue e ext kQueries (epoch_key q) [] p)
       (\<lambda>(st, raw, p'). if ok st then exn_bind (stoull 10 raw) (\<lambda>v. Inr (v, p')) else Inr (0, p'))"

definition getQueryCounter ::
  "'d db_env \<Rightarrow> bool \<Rightarrow> Query \<Rightarrow> bool \<Rightarrow> bool \<Rightarrow> 'd db_process \<Rightarrow> (u64 \<times> 'd db_process) throwing" where
  "getQueryCounter e ext q is_reset reset_has_all_records p =
     (if is_reset then Inr (if reset_has_all_records then 0 else 1, p)
      else exn_bind (getDatabaseValue e ext kQueries (counter_key q) [] p)
        (\<lambda>(st, raw, p'). if ok st then exn_bind (stoull 10 raw) (\<lambda>v. Inr (v + 1, p')) else Inr (0, p')))"

definition getPreviousQueryResults ::
  "'d db_env \<Rightarrow> bool \<Rightarrow> Query \<Rightarrow> QueryDataSet \<Rightarrow> 'd db_process
   \<Rightarrow> (Status \<times> QueryDataSet \<times> 'd db_process) throwing" where
  "getPreviousQueryResults e ext q results p =
     exn_bind (getDatabaseValue e ext kQueries (q_name q) [] p)
       (\<lambda>(st, raw, p').
          if \<not> ok st then Inr (st, results, p')
          else let (st2, results') = deserializeQueryDataJSON_set (de_rj e) raw results
               in if \<not> ok st2 then Inr (st2, results', p') else Inr (success, results', p'))"

definition saveQueryResults ::
  "'d db_env \<Rightarrow> bool \<Rightarrow> Query \<Rightarrow> string \<Rightarrow> u64 \<Rightarrow> 'd db_process \<Rightarrow> (Status \<times> 'd db_process) throwing" where
  "saveQueryResults e ext q json epoch p =
     exn_bind (setDatabaseValue e ext kQueries (q_name q) json p)
       (\<lambda>(st, p1).
          if \<not> ok st then Inr (st, p1)
          else setDatabaseValue e ext kQueries (epoch_key q) (to_string_u64 epoch) p1)"

definition getStoredQueryNames ::
  "'d db_env \<Rightarrow> bool \<Rightarrow> 'd db_process \<Rightarrow> (string list \<times> 'd db_process) throwing" where
  "getStoredQueryNames e ext p =
     exn_bind (scanDatabaseKeys e ext kQueries [] [] 0 p) (\<lambda>(_, results, p'). Inr (results, p'))"

definition isQueryNameInDatabase ::
  "'d db_env \<Rightarrow> bool \<Rightarrow> Query \<Rightarrow> 'd db_process \<Rightarrow> (bool \<times> 'd db_process) throwing" where
  "isQueryNameInDatabase e ext q p =
     exn_bind (getStoredQueryNames e ext p) (\<lambda>(names, p'). Inr (q_name q \<in> set names, p'))"

definition saveQuery ::
  "'d db_env \<Rightarrow> bool \<Rightarrow> Query \<Rightarrow> 'd db_process \<Rightarrow> 'd db_process throwing" where
  "saveQuery e ext q p =
     exn_bind (setDatabaseValue e ext kQueries (sql_key q) (q_query q) p) (\<lambda>(_, p'). Inr p')"

definition isNewQuerySql ::
  "'d db_env \<Rightarrow> bool \<Rightarrow> Query \<Rightarrow> 'd db_process \<Rightarrow> (bool \<times> 'd db_process) throwing" where
  "isNewQuerySql e ext q p =
     exn_bind (getDatabaseValue e ext kQueries (sql_key q) [] p)
       (\<lambda>(_, query, p'). Inr (query \<noteq> q_query q, p'))"

text \<open>The two output flags come first in the result.\<close>

definition getQueryStatus ::
  "'d db_env \<Rightarrow> bool \<Rightarrow> Query \<Rightarrow> u64 \<Rightarrow> bool \<Rightarrow> bool \<Rightarrow> 'd db_process
   \<Rightarrow> (bool \<times> bool \<times> 'd db_process) throwing" where
  "getQueryStatus e ext q epoch new_query_epoch new_query_sql p =
     exn_bind (isQueryNameInDatabase e ext q p)
       (\<lambda>(found, p1).
          if \<not> found then exn_bind (saveQuery e ext q p1) (\<lambda>p2. Inr (True, True, p2))
          else exn_bind (getPreviousEpoch e ext q p1)
            (\<lambda>(prev, p2).
               if prev \<noteq> epoch then Inr (True, new_query_sql, p2)
               else exn_bind (isNewQuerySql e ext q p2)
                 (\<lambda>(is_new, p3).
                    if is_new then exn_bind (saveQuery e ext q p3) (\<lambda>p4. Inr (new_query_epoch, True, p4))
                    else Inr (new_query_epoch, new_query_sql, p3))))"

definition incrementCounter ::
  "'d db_env \<Rightarrow> bool \<Rightarrow> Query \<Rightarrow> bool \<Rightarrow> bool \<Rightarrow> 'd db_process
   \<Rightarrow> (Status \<times> u64 \<times> 'd db_process) throwing" where
  "incrementCounter e ext q is_reset reset_has_all_records p =
     exn_bind (getQueryCounter e ext q is_reset reset_has_all_records p)
       (\<lambda>(counter, p1).
          exn_bind (setDatabaseValue e ext kQueries (counter_key q) (to_string_u64 counter) p1)
            (\<lambda>(st, p2). Inr (st, counter, p2)))"

definition addNewEvents ::
  "'d db_env \<Rightarrow> bool \<Rightarrow> Query \<Rightarrow> QueryDataTyped \<Rightarrow> u64 \<Rightarrow> u64 \<Rightarrow> DiffResults \<Rightarrow> 'd db_process
   \<Rightarrow> (Status \<times> u64 \<times> DiffResults \<times> 'd db_process) throwing" where
  "addNewEvents e ext q current_qd current_epoch counter dr p =
     exn_bind (getQueryStatus e ext q current_epoch False False p)
       (\<lambda>(new_query_epoch, new_query_sql, p1).
          exn_bind (if new_query_epoch then saveQueryResults e ext q ''[]'' current_epoch p1 else Inr (success, p1))
            (\<lambda>(st, p2).
               if \<not> ok st then Inr (st, counter, dr, p2)
               else let dr' = dr\<lparr>added := current_qd\<rparr>
                    in if added dr' = [] then Inr (success, counter, dr', p2)
                       else exn_bind (incrementCounter e ext q new_query_epoch False p2)
                              (\<lambda>(st2, counter', p3).
                                 if \<not> ok st2 then Inr (st2, counter', dr', p3)
                                 else Inr (success, counter', dr', p3))))"

text \<open>
  \<open>addNewResults\<close>: the rows written are the current ones in both branches (\<open>target_gd\<close> points at
  \<open>current_qd\<close> or at \<open>dr.added\<close>, into which it was moved). \<open>format\<close> prints doubles and is not used when
  numbers stay numbers.
\<close>

definition addNewResults_save ::
  "'d db_env \<Rightarrow> (rat \<Rightarrow> string) \<Rightarrow> bool \<Rightarrow> Query \<Rightarrow> QueryDataTyped \<Rightarrow> u64 \<Rightarrow> 'd db_process
   \<Rightarrow> (Status \<times> 'd db_process) throwing" where
  "addNewResults_save e format ext q target_gd current_epoch p =
     (let (st, json) = serializeQueryDataJSON_typed (de_rj e) format target_gd True
      in if \<not> ok st then Inr (st, p) else saveQueryResults e ext q json current_epoch p)"

definition addNewResults_finish ::
  "'d db_env \<Rightarrow> (rat \<Rightarrow> string) \<Rightarrow> bool \<Rightarrow> Query \<Rightarrow> QueryDataTyped \<Rightarrow> u64 \<Rightarrow> u64 \<Rightarrow> DiffResults \<Rightarrow> bool \<Rightarrow> bool
   \<Rightarrow> 'd db_process \<Rightarrow> (Status \<times> u64 \<times> DiffResults \<times> 'd db_process) throwing" where
  "addNewResults_finish e format ext q target_gd current_epoch counter dr new_query_epoch update_db p =
     exn_bind (if update_db then addNewResults_save e format ext q target_gd current_epoch p else Inr (success, p))
       (\<lambda>(st, p1).
          if \<not> ok st then Inr (st, counter, dr, p1)
          else if update_db \<or> new_query_epoch then
            exn_bind (incrementCounter e ext q new_query_epoch True p1)
              (\<lambda>(st2, counter', p2).
                 if \<not> ok st2 then Inr (st2, counter', dr, p2) else Inr (success, counter', dr, p2))
          else Inr (success, counter, dr, p1))"

definition addNewResults ::
  "'d db_env \<Rightarrow> (rat \<Rightarrow> string) \<Rightarrow> bool \<Rightarrow> Query \<Rightarrow> QueryDataTyped \<Rightarrow> u64 \<Rightarrow> u64 \<Rightarrow> DiffResults \<Rightarrow> 'd db_process
   \<Rightarrow> (Status \<times> u64 \<times> DiffResults \<times> 'd db_process) throwing" where
  "addNewResults e format ext q current_qd current_epoch counter dr p =
     exn_bind (getQueryStatus e ext q current_epoch False False p)
       (\<lambda>(new_query_epoch, new_query_sql, p1).
          if \<not> new_query_epoch then
            exn_bind (getPreviousQueryResults e ext q [] p1)
              (\<lambda>(st, previous_qd, p2).
                 if \<not> ok st then Inr (st, counter, dr, p2)
                 else let dr' = diff previous_qd current_qd;
                          update_db = (added dr' \<noteq> [] \<or> removed dr' \<noteq> [])
                      in addNewResults_finish e format ext q current_qd current_epoch counter dr'
                           new_query_epoch update_db p2)
          else
            addNewResults_finish e format ext q current_qd current_epoch counter (dr\<lparr>added := current_qd\<rparr>)
              new_query_epoch True p1)"

section \<open>Log items\<close>

record QueryLogItem =
  isSnapshot :: bool
  item_results :: DiffResults
  snapshot_results :: QueryDataTyped
  item_name :: string
  item_identifier :: string
  item_time :: u64
  item_epoch :: u64
  item_counter :: u64
  calendar_time :: string
  decorations :: "(string, string) omap"

definition QueryLogItem_eq :: "QueryLogItem \<Rightarrow> QueryLogItem \<Rightarrow> bool" where
  "QueryLogItem_eq a b \<longleftrightarrow> item_results b = item_results a \<and> item_name b = item_name a"

definition deserializeDiffResults :: "json \<Rightarrow> DiffResults \<Rightarrow> Status \<times> DiffResults" where
  "deserializeDiffResults doc dr =
     (case doc of
        JObject ms \<Rightarrow>
          (let (st, dr1) = (case FindMember ms ''removed'' of
                              None \<Rightarrow> (success, dr)
                            | Some v \<Rightarrow> (let (s, rows) = deserializeQueryData_typed v (removed dr)
                                        in (s, dr\<lparr>removed := rows\<rparr>)))
           in if \<not> ok st then (st, dr1)
              else let (st2, dr2) = (case FindMember ms ''added'' of
                                       None \<Rightarrow> (success, dr1)
                                     | Some v \<Rightarrow> (let (s, rows) = deserializeQueryData_typed v (added dr1)
                                                 in (s, dr1\<lparr>added := rows\<rparr>)))
                   in if \<not> ok st2 then (st2, dr2) else (success, dr2))
      | _ \<Rightarrow> (Status_code 1, dr))"

text \<open>The flags \<open>logger_numerics\<close> and \<open>decorations_top_level\<close> are arguments.\<close>

record log_env =
  le_rj :: rapidjson
  le_format :: "rat \<Rightarrow> string"
  logger_numerics :: bool
  decorations_top_level :: bool

definition addLegacyFieldsAndDecorations :: "log_env \<Rightarrow> QueryLogItem \<Rightarrow> members \<Rightarrow> members" where
  "addLegacyFieldsAndDecorations le item obj =
     (let rj = le_rj le;
          obj1 = json_addRef rj ''name'' (item_name item) obj;
          obj2 = json_addRef rj ''hostIdentifier'' (item_identifier item) obj1;
          obj3 = json_addRef rj ''calendarTime'' (calendar_time item) obj2;
          obj4 = json_add_ulong rj ''unixTime'' (item_time item) obj3;
          obj5 = json_add_ulong rj ''epoch'' (item_epoch item) obj4;
          obj6 = json_add_ulong rj ''counter'' (item_counter item) obj5;
          obj7 = json_add_bool rj ''numerics'' (logger_numerics le) obj6
      in if decorations item = [] then obj7
         else if decorations_top_level le
         then fold (\<lambda>(k, v). json_addRef rj k v) (decorations item) obj7
         else json_add rj ''decorations'' (JObject (fold (\<lambda>(k, v). json_addRef rj k v) (decorations item) [])) obj7)"

definition serializeQueryLogItem :: "log_env \<Rightarrow> QueryLogItem \<Rightarrow> members \<Rightarrow> Status \<times> members" where
  "serializeQueryLogItem le item doc =
     (let rj = le_rj le in
      if \<not> isSnapshot item then
        (let (st, obj) = serializeDiffResults rj (le_format le) (item_results item) [] (logger_numerics le)
         in if \<not> ok st then (st, doc)
            else (success, addLegacyFieldsAndDecorations le item (json_add rj ''diffResults'' (JObject obj) doc)))
      else
        (let (st, arr) = serializeQueryData_typed rj (le_format le) (snapshot_results item) [] (logger_numerics le)
         in if \<not> ok st then (st, doc)
            else (success, addLegacyFieldsAndDecorations le item
                    (json_addRef rj ''action'' ''snapshot'' (json_add rj ''snapshot'' (JArray arr) doc)))))"

text \<open>\<open>GetObject\<close> and \<open>GetArray\<close> of a value of another kind fail RapidJSON's assertion.\<close>

definition serializeEvent :: "log_env \<Rightarrow> QueryLogItem \<Rightarrow> json \<Rightarrow> members \<Rightarrow> members throwing" where
  "serializeEvent le item event_obj obj =
     (case event_obj of
        JObject ms \<Rightarrow>
          (let rj = le_rj le;
               columns_obj = fold (\<lambda>(n, v). json_add rj (c_str n) v) ms []
           in Inr (json_add rj ''columns'' (JObject columns_obj) (addLegacyFieldsAndDecorations le item obj)))
      | _ \<Rightarrow> Inl (undefined_behaviour ''GetObject''))"

definition event_rows :: "log_env \<Rightarrow> QueryLogItem \<Rightarrow> string \<Rightarrow> json list \<Rightarrow> json list \<Rightarrow> json list throwing" where
  "event_rows le item action =
     exn_fold (\<lambda>row doc. exn_bind (serializeEvent le item row [])
       (\<lambda>obj. Inr (json_push (JObject (json_addCopy (le_rj le) ''action'' (c_str action) obj)) doc)))"

definition event_actions :: "log_env \<Rightarrow> QueryLogItem \<Rightarrow> members \<Rightarrow> json list \<Rightarrow> json list throwing" where
  "event_actions le item =
     exn_fold (\<lambda>(action, v) doc. case v of
         JArray rows \<Rightarrow> event_rows le item action rows doc
       | _ \<Rightarrow> Inl (undefined_behaviour ''GetArray''))"

definition serializeQueryLogItemAsEvents ::
  "log_env \<Rightarrow> QueryLogItem \<Rightarrow> json list \<Rightarrow> (Status \<times> json list) throwing" where
  "serializeQueryLogItemAsEvents le item doc =
     (let rj = le_rj le in
      if \<not> isSnapshot item then
        (if hasNoResults (item_results item) then Inr (success, doc)
         else let (st, temp) = serializeDiffResults rj (le_format le) (item_results item) [] (logger_numerics le)
              in if \<not> ok st then Inr (st, doc)
                 else exn_bind (event_actions le item temp doc) (\<lambda>d. Inr (success, d)))
      else
        (if snapshot_results item = [] then Inr (success, doc)
         else let (st, arr) = serializeQueryData_typed rj (le_format le) (snapshot_results item) [] (logger_numerics le)
              in if \<not> ok st then Inr (st, doc)
                 else exn_bind (event_actions le item (json_add rj ''snapshot'' (JArray arr) []) doc)
                        (\<lambda>d. Inr (success, d))))"

definition serializeQueryLogItemJSON :: "log_env \<Rightarrow> QueryLogItem \<Rightarrow> Status \<times> string" where
  "serializeQueryLogItemJSON le item =
     (let (st, doc) = serializeQueryLogItem le item []
      in if \<not> ok st then (st, []) else json_toString (le_rj le) (JObject doc))"

definition serializeQueryLogItemAsEventsJSON ::
  "log_env \<Rightarrow> QueryLogItem \<Rightarrow> string list \<Rightarrow> (Status \<times> string list) throwing" where
  "serializeQueryLogItemAsEventsJSON le item out =
     exn_bind (serializeQueryLogItemAsEvents le item [])
       (\<lambda>(st, doc). if \<not> ok st then Inr (st, out)
                    else Inr (success, out @ map (\<lambda>ev. c_str (rj_print (le_rj le) ev)) doc))"

section \<open>The abstract history\<close>

text \<open>
  What the four keys of a query hold: nothing before the first run, afterwards the rows of the last
  change, their epoch, the counter and the SQL text.
\<close>

record history =
  h_rows :: QueryDataTyped
  h_epoch :: u64
  h_counter :: u64
  h_sql :: string

definition storable :: "QueryDataTyped \<Rightarrow> bool" where
  "storable qd \<longleftrightarrow> list_all row_storable qd"

definition hist_stored ::
  "rapidjson \<Rightarrow> (string \<Rightarrow> string option) \<Rightarrow> Query \<Rightarrow> history \<Rightarrow> bool" where
  "hist_stored rj W q h \<longleftrightarrow>
     W (q_name q) = Some (rows_text rj (h_rows h)) \<and>
     W (epoch_key q) = Some (to_string_u64 (h_epoch h)) \<and>
     W (counter_key q) = Some (to_string_u64 (h_counter h)) \<and>
     W (sql_key q) = Some (h_sql h) \<and> storable (h_rows h)"

definition hist_rel ::
  "rapidjson \<Rightarrow> (string \<Rightarrow> string option) \<Rightarrow> Query \<Rightarrow> history option \<Rightarrow> bool" where
  "hist_rel rj W q ho \<longleftrightarrow>
     (case ho of None \<Rightarrow> W (q_name q) = None | Some h \<Rightarrow> hist_stored rj W q h)"

text \<open>One run of a query on the abstract history: next history, counter and differential.\<close>

definition hist_step ::
  "Query \<Rightarrow> QueryDataTyped \<Rightarrow> u64 \<Rightarrow> u64 \<Rightarrow> history option \<Rightarrow> history \<times> u64 \<times> DiffResults" where
  "hist_step q cur epoch counter ho =
     (case ho of
        None \<Rightarrow> (\<lparr>h_rows = cur, h_epoch = epoch, h_counter = 0, h_sql = q_query q\<rparr>, 0, \<lparr>added = cur, removed = []\<rparr>)
      | Some h \<Rightarrow>
          if h_epoch h \<noteq> epoch
          then (\<lparr>h_rows = cur, h_epoch = epoch, h_counter = 0, h_sql = h_sql h\<rparr>, 0, \<lparr>added = cur, removed = []\<rparr>)
          else let d = diff (sort (h_rows h)) cur
               in if added d = [] \<and> removed d = [] then (h\<lparr>h_sql := q_query q\<rparr>, counter, d)
                  else (\<lparr>h_rows = cur, h_epoch = epoch, h_counter = h_counter h + 1, h_sql = q_query q\<rparr>,
                        h_counter h + 1, d))"

lemma query_keys_distinct [simp]:
  "epoch_key q \<noteq> q_name q" "counter_key q \<noteq> q_name q" "sql_key q \<noteq> q_name q"
  "counter_key q \<noteq> epoch_key q" "sql_key q \<noteq> epoch_key q" "sql_key q \<noteq> counter_key q"
  "q_name q \<noteq> epoch_key q" "q_name q \<noteq> counter_key q" "q_name q \<noteq> sql_key q"
  "epoch_key q \<noteq> counter_key q" "epoch_key q \<noteq> sql_key q" "counter_key q \<noteq> sql_key q"
  by (auto simp: epoch_key_def counter_key_def sql_key_def dest: arg_cong [of _ _ length])

lemma view_put_one:
  "view_put dm [(k, v)] V dm k' = (if k' = k then Some v else V dm k')"
  by (simp add: view_put_def)

lemma storable_rows_wf: "storable qd \<Longrightarrow> \<forall>r \<in> set qd. om_wf r"
  by (auto simp: storable_def list_all_iff row_storable_wf)

lemma rj_ok_parts: "rj_ok rj \<Longrightarrow> rj_roundtrip rj" "rj_ok rj \<Longrightarrow> rj_text_ok rj"
  by (simp_all add: rj_ok_def)

section \<open>The code implements the abstract history\<close>

context reliable_database
begin

lemma get_some:
  "db_ready ok_db p \<Longrightarrow> de_ops e = ops \<Longrightarrow> domain \<noteq> [] \<Longrightarrow> db_view look p domain k = Some v \<Longrightarrow>
   \<exists>st. getDatabaseValue e ext domain k [] p = Inr (st, v, p) \<and> ok st"
  using get_value [of p e domain ext k] by auto

lemma saveQuery_ok:
  assumes "db_ready ok_db p" "de_ops e = ops"
  shows "\<exists>p'. saveQuery e False q p = Inr p' \<and> db_ready ok_db p' \<and>
    db_view look p' = view_put kQueries [(sql_key q, q_query q)] (db_view look p)"
  using set_value [OF assms, of kQueries "sql_key q" "q_query q"] by (auto simp: saveQuery_def)

lemma isQueryNameInDatabase_ok:
  assumes "db_ready ok_db p" "de_ops e = ops"
  shows "isQueryNameInDatabase e False q p = Inr (db_view look p kQueries (q_name q) \<noteq> None, p)"
  using scan_keys [OF assms, of kQueries False] by (auto simp: isQueryNameInDatabase_def getStoredQueryNames_def)

lemma status_first_run:
  assumes "db_ready ok_db p" "de_ops e = ops" "db_view look p kQueries (q_name q) = None"
  shows "\<exists>p'. getQueryStatus e False q epoch a b p = Inr (True, True, p') \<and> db_ready ok_db p' \<and>
    db_view look p' = view_put kQueries [(sql_key q, q_query q)] (db_view look p)"
  using saveQuery_ok [OF assms(1,2), of q] assms(3)
  by (auto simp: getQueryStatus_def isQueryNameInDatabase_ok [OF assms(1,2)])

lemma getPreviousEpoch_ok:
  assumes "db_ready ok_db p" "de_ops e = ops" "hist_stored rj (db_view look p kQueries) q h"
  shows "getPreviousEpoch e False q p = Inr (h_epoch h, p)"
  using get_some [OF assms(1,2), of kQueries "epoch_key q" _ False] assms(3)
  by (auto simp: getPreviousEpoch_def hist_stored_def stoull_to_string)

lemma status_known:
  assumes "db_ready ok_db p" "de_ops e = ops" "hist_stored rj (db_view look p kQueries) q h"
  shows "\<exists>ns p'. getQueryStatus e False q epoch False False p = Inr (h_epoch h \<noteq> epoch, ns, p') \<and>
    db_ready ok_db p' \<and>
    hist_stored rj (db_view look p' kQueries) q (if h_epoch h \<noteq> epoch then h else h\<lparr>h_sql := q_query q\<rparr>)"
proof -
  have name: "db_view look p kQueries (q_name q) \<noteq> None" using assms(3) by (simp add: hist_stored_def)
  obtain st where sql: "getDatabaseValue e False kQueries (sql_key q) [] p = Inr (st, h_sql h, p)"
    using get_some [OF assms(1,2), of kQueries "sql_key q" "h_sql h" False] assms(3) by (auto simp: hist_stored_def)
  obtain p' where s: "saveQuery e False q p = Inr p'" "db_ready ok_db p'"
    "db_view look p' = view_put kQueries [(sql_key q, q_query q)] (db_view look p)"
    using saveQuery_ok [OF assms(1,2)] by blast
  have "hist_stored rj (db_view look p' kQueries) q (h\<lparr>h_sql := q_query q\<rparr>)"
    using assms(3) by (simp add: hist_stored_def s(3) view_put_one)
  moreover have "hist_stored rj (db_view look p kQueries) q (h\<lparr>h_sql := q_query q\<rparr>)" if "h_sql h = q_query q"
    using assms(3) that by (simp add: hist_stored_def)
  ultimately show ?thesis
    using assms(1,3) s(1,2) name
    by (auto simp: getQueryStatus_def isQueryNameInDatabase_ok [OF assms(1,2)] getPreviousEpoch_ok [OF assms]
        isNewQuerySql_def sql)
qed

lemma saveQueryResults_ok:
  assumes "db_ready ok_db p" "de_ops e = ops"
  shows "\<exists>st p'. saveQueryResults e False q json epoch p = Inr (st, p') \<and> ok st \<and> db_ready ok_db p' \<and>
    db_view look p' = view_put kQueries [(epoch_key q, to_string_u64 epoch)]
      (view_put kQueries [(q_name q, json)] (db_view look p))"
proof -
  obtain st p1 where 1: "setDatabaseValue e False kQueries (q_name q) json p = Inr (st, p1)" "ok st"
    "db_ready ok_db p1" "db_view look p1 = view_put kQueries [(q_name q, json)] (db_view look p)"
    using set_value [OF assms, of kQueries "q_name q" json] by auto
  then show ?thesis
    using set_value [OF 1(3) assms(2), of kQueries "epoch_key q" "to_string_u64 epoch"]
    by (auto simp: saveQueryResults_def)
qed

lemma incrementCounter_ok:
  assumes "db_ready ok_db p" "de_ops e = ops"
    and "\<not> is_reset \<Longrightarrow> db_view look p kQueries (counter_key q) = Some (to_string_u64 c)"
    and "c' = (if is_reset then (if all then 0 else 1) else c + 1)"
  shows "\<exists>st p'. incrementCounter e False q is_reset all p = Inr (st, c', p') \<and> ok st \<and> db_ready ok_db p' \<and>
    db_view look p' = view_put kQueries [(counter_key q, to_string_u64 c')] (db_view look p)"
proof -
  have "getQueryCounter e False q is_reset all p = Inr (c', p)"
    using get_some [OF assms(1,2), of kQueries "counter_key q" "to_string_u64 c" False] assms(3,4)
    by (cases is_reset) (auto simp: getQueryCounter_def stoull_to_string)
  then show ?thesis
    using set_value [OF assms(1,2), of kQueries "counter_key q" "to_string_u64 c'"]
    by (auto simp: incrementCounter_def)
qed

lemma finish_ok:
  assumes "db_ready ok_db p" "de_ops e = ops" "storable cur"
    and "db_view look p kQueries (sql_key q) = Some sql"
    and "\<not> fresh \<Longrightarrow> db_view look p kQueries (counter_key q) = Some (to_string_u64 c)"
    and "c' = (if fresh then 0 else c + 1)"
  shows "\<exists>p'. addNewResults_finish e format False q cur epoch c0 dr fresh True p = Inr (success, c', dr, p') \<and>
    db_ready ok_db p' \<and>
    hist_stored (de_rj e) (db_view look p' kQueries) q
      \<lparr>h_rows = cur, h_epoch = epoch, h_counter = c', h_sql = sql\<rparr>"
proof -
  have ser: "serializeQueryDataJSON_typed (de_rj e) format cur True = (success, rows_text (de_rj e) cur)"
    by (rule serializeQueryDataJSON_numeric [OF storable_rows_wf [OF assms(3)]])
  obtain st p1 where s: "saveQueryResults e False q (rows_text (de_rj e) cur) epoch p = Inr (st, p1)" "ok st"
    "db_ready ok_db p1" and v1: "db_view look p1 = view_put kQueries [(epoch_key q, to_string_u64 epoch)]
      (view_put kQueries [(q_name q, rows_text (de_rj e) cur)] (db_view look p))"
    using saveQueryResults_ok [OF assms(1,2)] by blast
  have cnt: "\<not> fresh \<Longrightarrow> db_view look p1 kQueries (counter_key q) = Some (to_string_u64 c)"
    using assms(5) by (simp add: v1 view_put_one)
  have "c' = (if fresh then (if True then 0 else 1) else c + 1)" using assms(6) by simp
  then obtain st2 p2 where i: "incrementCounter e False q fresh True p1 = Inr (st2, c', p2)" "ok st2"
    "db_ready ok_db p2" and v2: "db_view look p2 = view_put kQueries [(counter_key q, to_string_u64 c')] (db_view look p1)"
    using incrementCounter_ok [OF s(3) assms(2) cnt] by blast
  have "addNewResults_finish e format False q cur epoch c0 dr fresh True p = Inr (success, c', dr, p2)"
    using s i by (simp add: addNewResults_finish_def addNewResults_save_def ser)
  moreover have "hist_stored (de_rj e) (db_view look p2 kQueries) q
      \<lparr>h_rows = cur, h_epoch = epoch, h_counter = c', h_sql = sql\<rparr>"
    using assms(3,4) by (simp add: hist_stored_def v2 v1 view_put_one)
  ultimately show ?thesis using i(3) by blast
qed

end

context reliable_database
begin

lemma previous_results:
  assumes "db_ready ok_db p" "de_ops e = ops" "rj_ok (de_rj e)"
    and "hist_stored (de_rj e) (db_view look p kQueries) q h"
  shows "getPreviousQueryResults e False q [] p = Inr (success, sort (h_rows h), p)"
proof -
  have "deserializeQueryDataJSON_set (de_rj e) (rows_text (de_rj e) (h_rows h)) [] = (success, sort (h_rows h))"
    using assms(4) by (simp add: deserialize_rows_text rj_ok_parts [OF assms(3)] hist_stored_def storable_def
        list_all_iff sort_conv_fold)
  then show ?thesis
    using get_some [OF assms(1,2), of kQueries "q_name q" "rows_text (de_rj e) (h_rows h)" False] assms(4)
    by (auto simp: getPreviousQueryResults_def hist_stored_def)
qed

text \<open>\<open>addNewResults\<close> is one step of the abstract history.\<close>

lemma addNewResults_refines:
  assumes "db_ready ok_db p" "de_ops e = ops" "rj_ok (de_rj e)" "storable cur"
    and "hist_rel (de_rj e) (db_view look p kQueries) q ho"
    and "hist_step q cur epoch c0 ho = (h', c', d')"
  shows "\<exists>p'. addNewResults e format False q cur epoch c0 \<lparr>added = [], removed = []\<rparr> p = Inr (success, c', d', p') \<and>
    db_ready ok_db p' \<and> hist_rel (de_rj e) (db_view look p' kQueries) q (Some h')"
proof (cases ho)
  case None
  then have none: "db_view look p kQueries (q_name q) = None" using assms(5) by (simp add: hist_rel_def)
  obtain p1 where 1: "getQueryStatus e False q epoch False False p = Inr (True, True, p1)" "db_ready ok_db p1"
    "db_view look p1 = view_put kQueries [(sql_key q, q_query q)] (db_view look p)"
    using status_first_run [OF assms(1,2) none, of epoch False False] by blast
  have "db_view look p1 kQueries (sql_key q) = Some (q_query q)" by (simp add: 1(3) view_put_one)
  then show ?thesis
    using finish_ok [OF 1(2) assms(2,4), of q "q_query q" True 0 0 format epoch c0 "\<lparr>added = cur, removed = []\<rparr>"]
      assms(6) None by (auto simp: addNewResults_def 1(1) hist_step_def hist_rel_def)
next
  case (Some h)
  obtain ns p1 where 1: "getQueryStatus e False q epoch False False p = Inr (h_epoch h \<noteq> epoch, ns, p1)"
    "db_ready ok_db p1" "hist_stored (de_rj e) (db_view look p1 kQueries) q
      (if h_epoch h \<noteq> epoch then h else h\<lparr>h_sql := q_query q\<rparr>)"
    using status_known [OF assms(1,2), of "de_rj e" q h epoch] assms(5) Some by (auto simp: hist_rel_def)
  show ?thesis
  proof (cases "h_epoch h = epoch")
    case False
    then show ?thesis
      using finish_ok [OF 1(2) assms(2,4), of q "h_sql h" True 0 0 format epoch c0 "\<lparr>added = cur, removed = []\<rparr>"]
        assms(6) 1 Some by (auto simp: addNewResults_def hist_step_def hist_rel_def hist_stored_def)
  next
    case True
    let ?h = "h\<lparr>h_sql := q_query q\<rparr>"
    let ?d = "diff (sort (h_rows h)) cur"
    have stored: "hist_stored (de_rj e) (db_view look p1 kQueries) q ?h" using 1(3) True by simp
    have prev: "getPreviousQueryResults e False q [] p1 = Inr (success, sort (h_rows h), p1)"
      using previous_results [OF 1(2) assms(2,3) stored] by simp
    show ?thesis
    proof (cases "added ?d = [] \<and> removed ?d = []")
      case True
      then show ?thesis using 1(1,2) stored prev assms(6) Some \<open>h_epoch h = epoch\<close>
        by (auto simp: addNewResults_def hist_step_def hist_rel_def addNewResults_finish_def Let_def)
    next
      case False
      have "db_view look p1 kQueries (sql_key q) = Some (q_query q)"
        "db_view look p1 kQueries (counter_key q) = Some (to_string_u64 (h_counter h))"
        using stored by (simp_all add: hist_stored_def)
      then show ?thesis
        using finish_ok [OF 1(2) assms(2,4), of q "q_query q" False "h_counter h" "h_counter h + 1" format epoch c0 ?d]
          False 1(1) prev assms(6) Some \<open>h_epoch h = epoch\<close>
        by (auto simp: addNewResults_def hist_step_def hist_rel_def Let_def)
    qed
  qed
qed

end

section \<open>Properties\<close>


definition sample_query :: Query where
  "sample_query = \<lparr>q_query = ''select pid from processes'', q_name = ''pids''\<rparr>"

definition sample_rows :: QueryDataTyped where
  "sample_rows = [[(''pid'', RInt 1)], [(''pid'', RInt 7)], [(''pid'', RInt 7)]]"

lemma sample_storable: "storable sample_rows"
  by (simp add: storable_def sample_rows_def row_storable_def om_wf_def no_nul_def)

lemma eph_first_run: "hist_rel rj (db_view eph_look (eph_process []) kQueries) q None"
  by (simp add: hist_rel_def eph_look_def eph_domain_def)


end
