(* ===== verification/Tables.thy ===== *)
theory Tables
  imports QueryHistory
begin

text \<open>
  Virtual tables as the core sees them: \<open>osquery/core/tables.h\<close>, \<open>core/tables.cpp\<close>, \<open>core/sql/column.h\<close>,
  the rows of \<open>core/sql/table_rows.cpp\<close> and \<open>sql/dynamic_table_row.cpp\<close>. A query's constraints are passed
  to a table as a context, over the registry as JSON; a table describes itself by its route info, from
  which the core builds the CREATE statement; results of a scheduled query are cached in the database.
  The rows a table generates are an argument.
\<close>

unbundle bit_operations_syntax

section \<open>Columns\<close>

datatype ColumnType = UNKNOWN_TYPE | TEXT_TYPE | INTEGER_TYPE | BIGINT_TYPE | UNSIGNED_BIGINT_TYPE | DOUBLE_TYPE | BLOB_TYPE

definition kColumnTypeNames :: "(ColumnType \<times> string) list" where
  "kColumnTypeNames =
     [(UNKNOWN_TYPE, ''UNKNOWN''), (TEXT_TYPE, ''TEXT''), (INTEGER_TYPE, ''INTEGER''), (BIGINT_TYPE, ''BIGINT''),
      (UNSIGNED_BIGINT_TYPE, ''UNSIGNED BIGINT''), (DOUBLE_TYPE, ''DOUBLE''), (BLOB_TYPE, ''BLOB'')]"

text \<open>\<open>kColumnTypeNames.at(type)\<close>: every enumerator is in the map.\<close>

definition columnTypeName :: "ColumnType \<Rightarrow> string" where
  "columnTypeName t = (case map_of kColumnTypeNames t of Some n \<Rightarrow> n | None \<Rightarrow> [])"

definition columnTypeName_of :: "string \<Rightarrow> ColumnType" where
  "columnTypeName_of type =
     (case List.find (\<lambda>(_, n). n = type) kColumnTypeNames of Some (t, _) \<Rightarrow> t | None \<Rightarrow> UNKNOWN_TYPE)"

text \<open>\<open>ColumnOptions\<close> is an enum over \<open>int\<close>, used as a set of flags.\<close>

type_synonym ColumnOptions = int

definition OPT_DEFAULT :: ColumnOptions where "OPT_DEFAULT = 0"
definition OPT_INDEX :: ColumnOptions where "OPT_INDEX = 1"
definition OPT_REQUIRED :: ColumnOptions where "OPT_REQUIRED = 2"
definition OPT_ADDITIONAL :: ColumnOptions where "OPT_ADDITIONAL = 4"
definition OPT_OPTIMIZED :: ColumnOptions where "OPT_OPTIMIZED = 8"
definition OPT_HIDDEN :: ColumnOptions where "OPT_HIDDEN = 16"

definition kCollations :: "(ColumnOptions \<times> string) list" where
  "kCollations =
     [(32, '' COLLATE BINARY''), (64, '' COLLATE NOCASE''), (128, '' COLLATE RTRIM''), (256, '' COLLATE VERSION''),
      (512, '' COLLATE VERSION_ARCH''), (1024, '' COLLATE VERSION_DPKG''), (2048, '' COLLATE VERSION_RHEL'')]"

definition has_option :: "ColumnOptions \<Rightarrow> ColumnOptions \<Rightarrow> bool" where
  "has_option options flag \<longleftrightarrow> options AND flag \<noteq> 0"

type_synonym TableColumns = "(string \<times> ColumnType \<times> ColumnOptions) list"

section \<open>Constraints\<close>

definition UNIQUE_OP :: u8 where "UNIQUE_OP = 1"
definition EQUALS :: u8 where "EQUALS = 2"
definition IN_OP :: u8 where "IN_OP = 3"
definition GREATER_THAN :: u8 where "GREATER_THAN = 4"
definition LESS_THAN_OR_EQUALS :: u8 where "LESS_THAN_OR_EQUALS = 8"
definition LESS_THAN :: u8 where "LESS_THAN = 16"
definition GREATER_THAN_OR_EQUALS :: u8 where "GREATER_THAN_OR_EQUALS = 32"
definition MATCH_OP :: u8 where "MATCH_OP = 64"
definition LIKE_OP :: u8 where "LIKE_OP = 65"
definition GLOB_OP :: u8 where "GLOB_OP = 66"
definition REGEXP_OP :: u8 where "REGEXP_OP = 67"
definition ANY_OP :: u8 where "ANY_OP = 255"

lemmas op_defs = UNIQUE_OP_def EQUALS_def IN_OP_def GREATER_THAN_def LESS_THAN_OR_EQUALS_def LESS_THAN_def
  GREATER_THAN_OR_EQUALS_def MATCH_OP_def LIKE_OP_def GLOB_OP_def REGEXP_OP_def ANY_OP_def

record Constraint =
  c_op :: u8
  c_expr :: string

record ConstraintList =
  cl_affinity :: ColumnType
  cl_constraints :: "Constraint list"

definition ConstraintList_new :: ConstraintList where
  "ConstraintList_new = \<lparr>cl_affinity = TEXT_TYPE, cl_constraints = []\<rparr>"

definition cl_add :: "Constraint \<Rightarrow> ConstraintList \<Rightarrow> ConstraintList" where
  "cl_add constraint cl = cl\<lparr>cl_constraints := cl_constraints cl @ [constraint]\<rparr>"

definition cl_exists :: "ConstraintList \<Rightarrow> u8 \<Rightarrow> bool" where
  "cl_exists cl ops =
     (if ops = ANY_OP then length (cl_constraints cl) > 0
      else list_ex (\<lambda>c. c_op c AND ops \<noteq> 0) (cl_constraints cl))"

text \<open>
  \<open>tryTo<T>\<close> as a partial function. \<open>tryTo<std::string>\<close> returns its argument; the text of a failure is
  not looked at.
\<close>

definition lit_text :: "string \<Rightarrow> string option" where "lit_text s = Some s"

definition expected_value :: "'a Expected \<Rightarrow> 'a option" where
  "expected_value e = (case object e of Inl v \<Rightarrow> Some v | Inr _ \<Rightarrow> None)"

definition lit_int :: "string \<Rightarrow> int option" where
  "lit_int s = expected_value (tryTo_int (\<lambda>_. []) 10 s)"

definition lit_bigint :: "string \<Rightarrow> int option" where
  "lit_bigint s = expected_value (tryTo_longlong (\<lambda>_. []) 10 s)"

definition lit_ubigint :: "string \<Rightarrow> u64 option" where
  "lit_ubigint s = expected_value (tryTo_u64 (\<lambda>_. []) 10 s)"

fun literal_matches :: "(string \<Rightarrow> 'a::linorder option) \<Rightarrow> 'a \<Rightarrow> Constraint list \<Rightarrow> bool" where
  "literal_matches lit base_expr [] = True"
| "literal_matches lit base_expr (c # cs) =
     (case lit (c_expr c) of
        None \<Rightarrow> False
      | Some e \<Rightarrow>
          if c_op c = EQUALS then base_expr = e \<and> literal_matches lit base_expr cs
          else if c_op c = GREATER_THAN then base_expr > e \<and> literal_matches lit base_expr cs
          else if c_op c = LESS_THAN then base_expr < e \<and> literal_matches lit base_expr cs
          else if c_op c = GREATER_THAN_OR_EQUALS then base_expr \<ge> e \<and> literal_matches lit base_expr cs
          else if c_op c = LESS_THAN_OR_EQUALS then base_expr \<le> e \<and> literal_matches lit base_expr cs
          else True)"

definition cl_matches :: "ConstraintList \<Rightarrow> string \<Rightarrow> bool" where
  "cl_matches cl expr =
     (case cl_affinity cl of
        TEXT_TYPE \<Rightarrow> literal_matches lit_text expr (cl_constraints cl)
      | INTEGER_TYPE \<Rightarrow> (case lit_int expr of Some l \<Rightarrow> literal_matches lit_int l (cl_constraints cl) | None \<Rightarrow> False)
      | BIGINT_TYPE \<Rightarrow> (case lit_bigint expr of Some l \<Rightarrow> literal_matches lit_bigint l (cl_constraints cl) | None \<Rightarrow> False)
      | UNSIGNED_BIGINT_TYPE \<Rightarrow>
          (case lit_ubigint expr of Some l \<Rightarrow> literal_matches lit_ubigint l (cl_constraints cl) | None \<Rightarrow> False)
      | _ \<Rightarrow> False)"

definition existsAndMatches :: "ConstraintList \<Rightarrow> string \<Rightarrow> bool" where
  "existsAndMatches cl expr \<longleftrightarrow> cl_exists cl ANY_OP \<and> cl_matches cl expr"

definition notExistsOrMatches :: "ConstraintList \<Rightarrow> string \<Rightarrow> bool" where
  "notExistsOrMatches cl expr \<longleftrightarrow> \<not> cl_exists cl ANY_OP \<or> cl_matches cl expr"

text \<open>A \<open>std::set\<close> is its sorted traversal. The version for a literal type ignores the operator.\<close>

definition cl_getAll :: "ConstraintList \<Rightarrow> u8 \<Rightarrow> string list" where
  "cl_getAll cl op = sorted_list_of_set (set (map c_expr (filter (\<lambda>c. c_op c = op) (cl_constraints cl))))"

definition cl_getAll_literal :: "(string \<Rightarrow> 'a::linorder option) \<Rightarrow> ConstraintList \<Rightarrow> u8 \<Rightarrow> 'a list" where
  "cl_getAll_literal lit cl op =
     sorted_list_of_set (set (List.map_filter (\<lambda>c. lit (c_expr c)) (cl_constraints cl)))"

definition cl_serialize :: "rapidjson \<Rightarrow> ConstraintList \<Rightarrow> members \<Rightarrow> members" where
  "cl_serialize rj cl obj =
     (let expressions = fold (\<lambda>c arr. json_push (JObject (json_addRef rj ''expr'' (c_expr c)
                               (json_add_ulong rj ''op'' (ucast (c_op c)) []))) arr) (cl_constraints cl) []
      in json_addCopy rj ''affinity'' (columnTypeName (cl_affinity cl))
           (json_add rj ''list'' (JArray expressions) obj))"

text \<open>A member that is missing or of the wrong kind fails RapidJSON's assertions.\<close>

definition json_member :: "json \<Rightarrow> string \<Rightarrow> json throwing" where
  "json_member v k =
     (case v of
        JObject ms \<Rightarrow> (case FindMember ms k of Some x \<Rightarrow> Inr x | None \<Rightarrow> Inl (undefined_behaviour ''operator[]''))
      | _ \<Rightarrow> Inl (undefined_behaviour ''operator[]''))"

definition json_GetString :: "json \<Rightarrow> string throwing" where
  "json_GetString v = (case v of JString s \<Rightarrow> Inr (c_str s) | _ \<Rightarrow> Inl (undefined_behaviour ''GetString''))"

definition deserialize_constraint :: "json \<Rightarrow> Constraint throwing" where
  "deserialize_constraint l =
     exn_bind (json_member l ''op'')
       (\<lambda>o'. exn_bind (valueToSize o')
          (\<lambda>n. exn_bind (json_member l ''expr'')
             (\<lambda>x. exn_bind (json_GetString x) (\<lambda>e. Inr \<lparr>c_op = ucast n, c_expr = e\<rparr>))))"

fun deserialize_constraints :: "json list \<Rightarrow> Constraint list \<Rightarrow> Constraint list throwing" where
  "deserialize_constraints [] cs = Inr cs"
| "deserialize_constraints (l # ls) cs =
     exn_bind (deserialize_constraint l) (\<lambda>c. deserialize_constraints ls (cs @ [c]))"

definition cl_deserialize :: "json \<Rightarrow> ConstraintList \<Rightarrow> ConstraintList throwing" where
  "cl_deserialize obj cl =
     (case obj of
        JObject ms \<Rightarrow>
          (case FindMember ms ''list'' of
             Some (JArray ls) \<Rightarrow>
               exn_bind (deserialize_constraints ls (cl_constraints cl))
                 (\<lambda>cs. Inr \<lparr>cl_affinity = columnTypeName_of
                               (case FindMember ms ''affinity'' of Some (JString s) \<Rightarrow> c_str s | _ \<Rightarrow> ''UNKNOWN''),
                            cl_constraints = cs\<rparr>)
           | _ \<Rightarrow> Inr cl)
      | _ \<Rightarrow> Inr cl)"

section \<open>Query contexts\<close>

text \<open>
  \<open>VirtualTableContent\<close>: name, columns, attributes and the cache of rows. The transient maps of
  the SQLite module are added in \<open>VirtualTables\<close>. An \<open>unordered_set\<close> of used columns is a list of
  distinct names in its iteration order.
\<close>

record VirtualTableContent =
  vt_name :: string
  vt_columns :: TableColumns
  vt_attributes :: int
  vt_cache :: "(string, Row) omap"

record QueryContext =
  qc_constraints :: "(string, ConstraintList) omap"
  qc_colsUsed :: "string list option"
  qc_colsUsedBitset :: "u64 option"
  qc_enable_cache :: bool
  qc_use_cache :: bool
  qc_table :: VirtualTableContent

definition QueryContext_new :: QueryContext where
  "QueryContext_new =
     \<lparr>qc_constraints = [], qc_colsUsed = None, qc_colsUsedBitset = None, qc_enable_cache = False,
      qc_use_cache = False, qc_table = \<lparr>vt_name = [], vt_columns = [], vt_attributes = 0, vt_cache = []\<rparr>\<rparr>"

definition QueryContext_of :: "VirtualTableContent \<Rightarrow> QueryContext" where
  "QueryContext_of content = QueryContext_new\<lparr>qc_enable_cache := True, qc_table := content\<rparr>"

definition hasConstraint :: "QueryContext \<Rightarrow> string \<Rightarrow> u8 \<Rightarrow> bool" where
  "hasConstraint ctx column op =
     (case om_get (qc_constraints ctx) column of None \<Rightarrow> False | Some cl \<Rightarrow> cl_exists cl op)"

text \<open>The expressions \<open>iteritems\<close> hands to its predicate, in order.\<close>

definition iteritems :: "QueryContext \<Rightarrow> string \<Rightarrow> u8 \<Rightarrow> string list" where
  "iteritems ctx column op =
     (case om_get (qc_constraints ctx) column of
        None \<Rightarrow> []
      | Some cl \<Rightarrow>
          if cl_affinity cl = TEXT_TYPE
          then map c_expr (filter (\<lambda>c. c_op c = op) (cl_constraints cl))
          else cl_getAll cl op)"

fun expand_loop :: "(string \<Rightarrow> 's \<Rightarrow> Status \<times> 's) \<Rightarrow> string list \<Rightarrow> 's \<Rightarrow> Status \<times> 's" where
  "expand_loop predicate [] output = (success, output)"
| "expand_loop predicate (c # cs) output =
     (let (status, output') = predicate c output
      in if \<not> ok status then (status, output') else expand_loop predicate cs output')"

definition expandConstraints ::
  "QueryContext \<Rightarrow> string \<Rightarrow> u8 \<Rightarrow> (string \<Rightarrow> 's \<Rightarrow> Status \<times> 's) \<Rightarrow> 's \<Rightarrow> Status \<times> 's" where
  "expandConstraints ctx column op predicate output =
     (case om_get (qc_constraints ctx) column of
        None \<Rightarrow> (success, output)
      | Some cl \<Rightarrow> expand_loop predicate (cl_getAll cl op) output)"

definition isColumnUsed :: "QueryContext \<Rightarrow> string \<Rightarrow> bool" where
  "isColumnUsed ctx colName = (case qc_colsUsed ctx of None \<Rightarrow> True | Some cols \<Rightarrow> colName \<in> set cols)"

definition isAnyColumnUsed :: "QueryContext \<Rightarrow> string list \<Rightarrow> bool" where
  "isAnyColumnUsed ctx colNames = list_ex (isColumnUsed ctx) colNames"

definition isAnyColumnUsed_bits :: "QueryContext \<Rightarrow> u64 \<Rightarrow> bool" where
  "isAnyColumnUsed_bits ctx desired = (case qc_colsUsedBitset ctx of None \<Rightarrow> True | Some b \<Rightarrow> b AND desired \<noteq> 0)"

definition setColumnIfUsed :: "QueryContext \<Rightarrow> string \<Rightarrow> string \<Rightarrow> Row \<Rightarrow> Row" where
  "setColumnIfUsed ctx colName v r = (if isColumnUsed ctx colName then om_set colName v r else r)"

definition setIntegerColumnIfUsed :: "QueryContext \<Rightarrow> string \<Rightarrow> int \<Rightarrow> Row \<Rightarrow> Row" where
  "setIntegerColumnIfUsed ctx colName v r =
     (if isColumnUsed ctx colName then om_set colName (to_string_int v) r else r)"

text \<open>A shift by the width of the type, or by more, is undefined.\<close>

definition bitmask :: "nat \<Rightarrow> u64 throwing" where
  "bitmask onecount =
     (if onecount = 0 \<or> onecount > 64 then Inl (undefined_behaviour ''shift'')
      else Inr (drop_bit (64 - onecount) (- 1)))"

definition defaultColumnsUsed :: "QueryContext \<Rightarrow> bool throwing" where
  "defaultColumnsUsed ctx =
     exn_bind (bitmask (length (vt_columns (qc_table ctx))))
       (\<lambda>mask. Inr (case qc_colsUsedBitset ctx of None \<Rightarrow> True | Some b \<Rightarrow> b = mask))"

definition set_useCache :: "bool \<Rightarrow> QueryContext \<Rightarrow> QueryContext" where
  "set_useCache use_cache ctx = ctx\<lparr>qc_use_cache := use_cache\<rparr>"

definition ctx_setCache :: "string \<Rightarrow> Row \<Rightarrow> QueryContext \<Rightarrow> QueryContext" where
  "ctx_setCache index row ctx =
     ctx\<lparr>qc_table := (qc_table ctx)\<lparr>vt_cache := om_set index row (vt_cache (qc_table ctx))\<rparr>\<rparr>"

definition ctx_isCached :: "QueryContext \<Rightarrow> string \<Rightarrow> bool" where
  "ctx_isCached ctx index = om_has (vt_cache (qc_table ctx)) index"

text \<open>\<open>cache[index]\<close> of an index not cached is a null pointer.\<close>

definition ctx_getCache :: "QueryContext \<Rightarrow> string \<Rightarrow> Row throwing" where
  "ctx_getCache ctx index =
     (case om_get (vt_cache (qc_table ctx)) index of
        Some row \<Rightarrow> Inr row
      | None \<Rightarrow> Inl (undefined_behaviour ''null row''))"

section \<open>Contexts over the registry\<close>

definition serializeQueryContextJSON :: "rapidjson \<Rightarrow> QueryContext \<Rightarrow> members" where
  "serializeQueryContextJSON rj ctx =
     (let constraints = fold (\<lambda>(name, cl) arr. json_push (JObject (cl_serialize rj cl (json_addRef rj ''name'' name []))) arr)
                          (qc_constraints ctx) [];
          doc1 = json_add rj ''constraints'' (JArray constraints) [];
          doc2 = (case qc_colsUsed ctx of
                    None \<Rightarrow> doc1
                  | Some cols \<Rightarrow> json_add rj ''colsUsed'' (JArray (fold json_pushCopy cols [])) doc1)
      in case qc_colsUsedBitset ctx of None \<Rightarrow> doc2 | Some b \<Rightarrow> json_add_ulong rj ''colsUsedBitset'' b doc2)"

definition setRequestFromContext :: "rapidjson \<Rightarrow> QueryContext \<Rightarrow> PluginRequest \<Rightarrow> PluginRequest" where
  "setRequestFromContext rj ctx request =
     om_set ''context'' (snd (json_toString rj (JObject (serializeQueryContextJSON rj ctx)))) request"

fun json_strings :: "json list \<Rightarrow> string list throwing" where
  "json_strings [] = Inr []"
| "json_strings (j # js) =
     exn_bind (json_GetString j) (\<lambda>s. exn_bind (json_strings js) (\<lambda>ss. Inr (s # ss)))"

definition json_GetArray :: "json \<Rightarrow> json list throwing" where
  "json_GetArray v = (case v of JArray js \<Rightarrow> Inr js | _ \<Rightarrow> Inl (undefined_behaviour ''GetArray''))"

definition json_GetUint64 :: "json \<Rightarrow> u64 throwing" where
  "json_GetUint64 v =
     (case v of
        JInt i \<Rightarrow> if 0 \<le> i \<and> i < 2 ^ 64 then Inr (word_of_int i) else Inl (undefined_behaviour ''GetUint64'')
      | _ \<Rightarrow> Inl (undefined_behaviour ''GetUint64''))"

fun deserialize_context_constraints ::
  "json list \<Rightarrow> (string, ConstraintList) omap \<Rightarrow> (string, ConstraintList) omap throwing" where
  "deserialize_context_constraints [] m = Inr m"
| "deserialize_context_constraints (c # cs) m =
     exn_bind (exn_bind (json_member c ''name'') json_GetString)
       (\<lambda>name. exn_bind (cl_deserialize c (case om_get m name of Some cl \<Rightarrow> cl | None \<Rightarrow> ConstraintList_new))
          (\<lambda>cl. deserialize_context_constraints cs (om_set name cl m)))"

definition deserializeQueryContextJSON :: "members \<Rightarrow> QueryContext \<Rightarrow> (Status \<times> QueryContext) throwing" where
  "deserializeQueryContextJSON doc ctx =
     exn_bind (case FindMember doc ''colsUsed'' of
                 None \<Rightarrow> Inr ctx
               | Some v \<Rightarrow> exn_bind (exn_bind (json_GetArray v) json_strings)
                            (\<lambda>cols. Inr (ctx\<lparr>qc_colsUsed := Some (remdups cols)\<rparr>)))
       (\<lambda>ctx1. exn_bind (case FindMember doc ''colsUsedBitset'' of
                 None \<Rightarrow> Inr ctx1
               | Some v \<Rightarrow> exn_bind (json_GetUint64 v) (\<lambda>b. Inr (ctx1\<lparr>qc_colsUsedBitset := Some b\<rparr>)))
          (\<lambda>ctx2. case FindMember doc ''constraints'' of
             None \<Rightarrow> Inr (Status_msg 1 ''Missing contraints field in JSON'', ctx2)
           | Some (JArray cs) \<Rightarrow>
               exn_bind (deserialize_context_constraints cs (qc_constraints ctx2))
                 (\<lambda>m. Inr (success, ctx2\<lparr>qc_constraints := m\<rparr>))
           | Some _ \<Rightarrow> Inr (Status_msg 1 ''contraints field not a JSON array'', ctx2)))"

section \<open>Table plugins\<close>

text \<open>
  \<open>generate\<close> and the write callbacks are virtual; they are fields. A \<open>TableRows\<close> is a list of rows: the
  only row class of the core is \<open>DynamicTableRow\<close>, a wrapper around \<open>Row\<close>.
\<close>

record TablePlugin =
  tp_name :: string
  tp_columns :: TableColumns
  tp_aliases :: "string list"
  tp_columnAliases :: "(string, string list) omap"
  tp_attributes :: int
  tp_generate :: "QueryContext \<Rightarrow> QueryData"
  tp_delete :: "QueryContext \<Rightarrow> PluginRequest \<Rightarrow> QueryData"
  tp_insert :: "QueryContext \<Rightarrow> PluginRequest \<Rightarrow> QueryData"
  tp_update :: "QueryContext \<Rightarrow> PluginRequest \<Rightarrow> QueryData"
  last_cached :: u64
  last_interval :: u64

text \<open>The methods a table that overrides nothing inherits.\<close>

definition TablePlugin_new :: "string \<Rightarrow> TableColumns \<Rightarrow> TablePlugin" where
  "TablePlugin_new name cols =
     \<lparr>tp_name = name, tp_columns = cols, tp_aliases = [], tp_columnAliases = [], tp_attributes = 0,
      tp_generate = (\<lambda>_. []), tp_delete = (\<lambda>_ _. [[(''status'', ''readonly'')]]),
      tp_insert = (\<lambda>_ _. [[(''status'', ''readonly'')]]), tp_update = (\<lambda>_ _. [[(''status'', ''readonly'')]]),
      last_cached = 0, last_interval = 0\<rparr>"

text \<open>\<open>aliasedColumns\<close> fills a map and returns another, empty one.\<close>

definition aliasedColumns :: "TablePlugin \<Rightarrow> (string, string) omap" where
  "aliasedColumns t =
     (let result = fold (\<lambda>(columnName, as). fold (\<lambda>alias. om_set alias columnName) as) (tp_columnAliases t) []
      in [])"

text \<open>\<open>std::bitset::set\<close> throws for a position past the end.\<close>

fun usedColumns_loop ::
  "(string, string) omap \<Rightarrow> string list \<Rightarrow> nat \<Rightarrow> TableColumns \<Rightarrow> u64 \<Rightarrow> u64 throwing" where
  "usedColumns_loop alias_map usedColumns i [] result = Inr result"
| "usedColumns_loop alias_map usedColumns i ((column_name, _) # cols) result =
     (let name = (case om_get alias_map column_name of Some c \<Rightarrow> c | None \<Rightarrow> column_name)
      in if name \<in> set usedColumns
         then (if i < 64 then usedColumns_loop alias_map usedColumns (Suc i) cols (set_bit i result)
               else Inl out_of_range)
         else usedColumns_loop alias_map usedColumns (Suc i) cols result)"

definition usedColumnsToBitset :: "TablePlugin \<Rightarrow> string list \<Rightarrow> u64 throwing" where
  "usedColumnsToBitset t usedColumns = usedColumns_loop (aliasedColumns t) usedColumns 0 (tp_columns t) 0"

text \<open>
  The status of the parse is dropped: after a parse error the document is null, and \<open>HasMember\<close> of a
  document that is not an object fails RapidJSON's assertion.
\<close>

definition getContextFromRequest :: "rapidjson \<Rightarrow> TablePlugin \<Rightarrow> PluginRequest \<Rightarrow> QueryContext throwing" where
  "getContextFromRequest rj t request =
     (case om_get request ''context'' of
        None \<Rightarrow> Inr QueryContext_new
      | Some text \<Rightarrow>
          (case snd (json_fromString rj text) of
             Some (JObject doc) \<Rightarrow>
               exn_bind (deserializeQueryContextJSON doc QueryContext_new)
                 (\<lambda>(_, ctx).
                    if \<not> HasMember doc ''colsUsedBitset''
                    then (case qc_colsUsed ctx of
                            Some cols \<Rightarrow> exn_bind (usedColumnsToBitset t cols) (\<lambda>b. Inr (ctx\<lparr>qc_colsUsedBitset := Some b\<rparr>))
                          | None \<Rightarrow> Inr ctx)
                    else Inr ctx)
           | _ \<Rightarrow> Inl (undefined_behaviour ''HasMember'')))"

text \<open>Route info: one entry per column, alias and column alias, then the attributes.\<close>

definition routeInfo :: "TablePlugin \<Rightarrow> PluginResponse" where
  "routeInfo t =
     map (\<lambda>(name, type, options). [(''id'', ''column''), (''name'', name), (''op'', to_string_int (options mod 2 ^ 64)),
            (''type'', columnTypeName type)]) (tp_columns t) @
     map (\<lambda>alias. [(''alias'', alias), (''id'', ''alias'')]) (tp_aliases t) @
     concat (map (\<lambda>(target, as). map (\<lambda>alias. [(''id'', ''columnAlias''), (''name'', alias), (''target'', target)]) as)
       (tp_columnAliases t)) @
     [[(''attributes'', to_string_int (tp_attributes t mod 2 ^ 64)), (''id'', ''attributes'')]]"

definition TablePlugin_call ::
  "rapidjson \<Rightarrow> TablePlugin \<Rightarrow> PluginRequest \<Rightarrow> (Status \<times> PluginResponse) throwing" where
  "TablePlugin_call rj t request =
     (case om_get request ''action'' of
        None \<Rightarrow> Inr (Status_msg 1 ''Table plugins must include a request action'', [])
      | Some action \<Rightarrow>
          if action = ''generate'' then
            exn_bind (getContextFromRequest rj t request) (\<lambda>ctx. Inr (success, tp_generate t ctx))
          else if action = ''delete'' then
            exn_bind (getContextFromRequest rj t request) (\<lambda>ctx. Inr (success, tp_delete t ctx request))
          else if action = ''insert'' then
            exn_bind (getContextFromRequest rj t request) (\<lambda>ctx. Inr (success, tp_insert t ctx request))
          else if action = ''update'' then
            exn_bind (getContextFromRequest rj t request) (\<lambda>ctx. Inr (success, tp_update t ctx request))
          else if action = ''columns'' then Inr (success, routeInfo t)
          else Inr (Status_msg 1 (''Unknown table plugin action: '' @ action), []))"

section \<open>The CREATE statement\<close>

definition quoted_column :: "string \<Rightarrow> string" where
  "quoted_column name = CHR 0x60 # name @ [CHR 0x60]"

fun join_comma :: "string list \<Rightarrow> string" where
  "join_comma [] = []"
| "join_comma [x] = x"
| "join_comma (x # y # ys) = x @ '', '' @ join_comma (y # ys)"

definition collation :: "ColumnOptions \<Rightarrow> string" where
  "collation options =
     (case List.find (\<lambda>(flag, _). has_option options flag) kCollations of Some (_, s) \<Rightarrow> s | None \<Rightarrow> [])"

definition column_statement :: "string \<times> ColumnType \<times> ColumnOptions \<Rightarrow> string" where
  "column_statement col =
     (let (name, type, options) = col
      in quoted_column name @ '' '' @ columnTypeName type @ (if has_option options OPT_HIDDEN then '' HIDDEN'' else []) @
         collation options)"

definition columnDefinition :: "TableColumns \<Rightarrow> bool \<Rightarrow> string" where
  "columnDefinition cols is_extension =
     (let indexed = list_ex (\<lambda>(_, _, options). has_option options OPT_INDEX) cols;
          pkeys0 = map fst (filter (\<lambda>(_, _, options). has_option options (OPT_INDEX OR OPT_ADDITIONAL)) cols);
          disable_rowid = (pkeys0 \<noteq> []);
          pkeys = (if \<not> indexed \<and> disable_rowid then map fst cols else pkeys0)
      in ''('' @ join_comma (map column_statement cols) @
         (if pkeys \<noteq> [] then '', PRIMARY KEY ('' @ join_comma (map quoted_column pkeys) @ '')'' else []) @ '')'' @
         (if disable_rowid \<and> \<not> is_extension then '' WITHOUT ROWID'' else []))"

text \<open>One entry of a route info: the columns so far and the types seen, for the aliases.\<close>

definition route_column ::
  "bool \<Rightarrow> PluginRequest \<Rightarrow> TableColumns \<times> (string, ColumnType) omap \<Rightarrow> TableColumns \<times> (string, ColumnType) omap" where
  "route_column with_aliases column s =
     (let (cols, types) = s
      in case om_get column ''id'' of
           None \<Rightarrow> (cols, types)
         | Some id' \<Rightarrow>
             (case (om_get column ''name'', om_get column ''type'') of
                (Some cname, Some ctype) \<Rightarrow>
                  if id' = ''column'' then
                    (let options = (case om_get column ''op'' of
                                      None \<Rightarrow> OPT_DEFAULT
                                    | Some o' \<Rightarrow> (case lit_int o' of Some n \<Rightarrow> n | None \<Rightarrow> OPT_DEFAULT));
                         column_type = columnTypeName_of ctype
                     in (cols @ [(cname, column_type, options)],
                         if with_aliases then om_set cname column_type types else types))
                  else if id' = ''columnAlias'' \<and> with_aliases then
                    (case om_get column ''target'' of
                       None \<Rightarrow> (cols, types)
                     | Some target \<Rightarrow>
                         (case om_get types target of
                            None \<Rightarrow> (cols, types)
                          | Some type \<Rightarrow> (cols @ [(cname, type, OPT_HIDDEN)], types)))
                  else (cols, types)
              | (Some cname, None) \<Rightarrow>
                  if id' = ''columnAlias'' \<and> with_aliases then
                    (case om_get column ''target'' of
                       None \<Rightarrow> (cols, types)
                     | Some target \<Rightarrow>
                         (case om_get types target of
                            None \<Rightarrow> (cols, types)
                          | Some type \<Rightarrow> (cols @ [(cname, type, OPT_HIDDEN)], types)))
                  else (cols, types)
              | (None, _) \<Rightarrow> (cols, types)))"

definition columnDefinition_response :: "PluginResponse \<Rightarrow> bool \<Rightarrow> bool \<Rightarrow> string" where
  "columnDefinition_response response with_aliases is_extension =
     columnDefinition (fst (fold (route_column with_aliases) response ([], []))) is_extension"

section \<open>The results cache\<close>

definition cacheAllowed :: "TableColumns \<Rightarrow> QueryContext \<Rightarrow> bool throwing" where
  "cacheAllowed cols ctx =
     (if \<not> qc_use_cache ctx then Inr False
      else exn_bind (defaultColumnsUsed ctx)
        (\<lambda>default. if \<not> default then Inr False
           else let uncachable = OPT_INDEX OR OPT_REQUIRED OR OPT_ADDITIONAL OR OPT_OPTIMIZED
                in exn_fold (\<lambda>(name, _, options) allowed.
                       if \<not> allowed then Inr False
                       else if has_option options uncachable then
                         (case om_get (qc_constraints ctx) name of
                            None \<Rightarrow> Inl out_of_range
                          | Some cl \<Rightarrow> Inr (\<not> cl_exists cl ANY_OP))
                       else Inr True) cols True))"

text \<open>\<open>last_cached_ + last_interval_\<close> is a sum of \<open>uint64_t\<close>.\<close>

definition isCached :: "bool \<Rightarrow> TablePlugin \<Rightarrow> u64 \<Rightarrow> QueryContext \<Rightarrow> bool throwing" where
  "isCached disable_caching t step ctx =
     (if disable_caching then Inr False
      else if step < last_cached t + last_interval t then cacheAllowed (tp_columns t) ctx else Inr False)"

definition cache_key :: "TablePlugin \<Rightarrow> string" where "cache_key t = ''cache.'' @ tp_name t"

definition serializeTableRowsJSON :: "rapidjson \<Rightarrow> QueryData \<Rightarrow> Status \<times> string" where
  "serializeTableRowsJSON rj rows =
     json_toString rj (JArray (fold (\<lambda>r arr. json_push (JObject (fold (\<lambda>(k, v). json_addRef rj k v) r [])) arr) rows []))"

definition deserializeTableRowsJSON :: "rapidjson \<Rightarrow> string \<Rightarrow> QueryData \<Rightarrow> Status \<times> QueryData" where
  "deserializeTableRowsJSON rj s rows =
     (case json_fromString rj s of
        (st, Some (JArray is)) \<Rightarrow> deserialize_rows is rows
      | _ \<Rightarrow> (Status_msg 1 ''Cannot deserializing JSON'', rows))"

definition tp_getCache ::
  "'d db_env \<Rightarrow> bool \<Rightarrow> TablePlugin \<Rightarrow> 'd db_process \<Rightarrow> (QueryData \<times> 'd db_process) throwing" where
  "tp_getCache e ext t p =
     exn_bind (getDatabaseValue e ext kQueries (cache_key t) [] p)
       (\<lambda>(_, content, p'). Inr (snd (deserializeTableRowsJSON (de_rj e) content []), p'))"

definition tp_setCache ::
  "'d db_env \<Rightarrow> bool \<Rightarrow> bool \<Rightarrow> u64 \<Rightarrow> u64 \<Rightarrow> QueryContext \<Rightarrow> QueryData \<Rightarrow> TablePlugin \<times> 'd db_process
   \<Rightarrow> (TablePlugin \<times> 'd db_process) throwing" where
  "tp_setCache e ext disable_caching step interval ctx results tp =
     (let (t, p) = tp
      in if disable_caching then Inr (t, p)
         else exn_bind (cacheAllowed (tp_columns t) ctx)
           (\<lambda>allowed.
              if \<not> allowed then Inr (t, p)
              else let (st, content) = serializeTableRowsJSON (de_rj e) results
                   in if \<not> ok st then Inr (t, p)
                      else exn_bind (setDatabaseValue e ext kQueries (cache_key t) content p)
                             (\<lambda>(_, p'). Inr (t\<lparr>last_cached := step, last_interval := interval\<rparr>, p'))))"

section \<open>Constraints through JSON\<close>

lemma columnTypeName_roundtrip [simp]: "columnTypeName_of (columnTypeName t) = t"
  by (cases t) (simp_all add: columnTypeName_def columnTypeName_of_def kColumnTypeNames_def)

lemma columnTypeName_no_nul [simp]: "no_nul (columnTypeName t)"
  by (cases t) (simp_all add: columnTypeName_def kColumnTypeNames_def no_nul_def)

definition constraint_json :: "Constraint \<Rightarrow> json" where
  "constraint_json c = JObject [(''op'', JInt (uint (ucast (c_op c) :: u64))), (''expr'', JString (c_expr c))]"

lemma deserialize_constraint_json:
  assumes "no_nul (c_expr c)"
  shows "deserialize_constraint (constraint_json c) = Inr c"
proof -
  have "uint (ucast (c_op c) :: u64) < 2 ^ 64" using uint_lt2p [of "ucast (c_op c) :: u64"] by simp
  then have "valueToSize (JInt (uint (ucast (c_op c) :: u64))) = Inr (ucast (c_op c))"
    by (simp add: valueToSize_def)
  moreover have "(ucast (ucast (c_op c) :: u64) :: u8) = c_op c"
    by (rule bit_word_eqI) (simp add: bit_simps)
  ultimately show ?thesis
    using assms by (simp add: deserialize_constraint_def constraint_json_def json_member_def FindMember_def
        json_GetString_def)
qed

lemma deserialize_constraints_json:
  "\<forall>c \<in> set cs. no_nul (c_expr c) \<Longrightarrow> deserialize_constraints (map constraint_json cs) acc = Inr (acc @ cs)"
  by (induction cs arbitrary: acc) (auto simp: deserialize_constraint_json)

lemma cl_expressions:
  "fold (\<lambda>c arr. json_push (JObject (json_addRef rj ''expr'' (c_expr c)
      (json_add_ulong rj ''op'' (ucast (c_op c)) []))) arr) cs acc = acc @ map constraint_json cs"
  by (induction cs arbitrary: acc)
    (auto simp: json_push_def json_add_simps json_add_def HasMember_def FindMember_def constraint_json_def)

definition cl_json :: "string \<Rightarrow> ConstraintList \<Rightarrow> json" where
  "cl_json name cl = JObject [(''name'', JString name), (''list'', JArray (map constraint_json (cl_constraints cl))),
     (''affinity'', JString (columnTypeName (cl_affinity cl)))]"

lemma cl_serialize_json:
  "JObject (cl_serialize rj cl (json_addRef rj ''name'' name [])) = cl_json name cl"
  unfolding cl_serialize_def cl_expressions Let_def
  by (simp add: cl_json_def json_add_simps json_add_def HasMember_def FindMember_def)

definition cl_text_ok :: "string \<times> ConstraintList \<Rightarrow> bool" where
  "cl_text_ok nc \<longleftrightarrow> no_nul (fst nc) \<and> list_all (\<lambda>c. no_nul (c_expr c)) (cl_constraints (snd nc))"

lemma cl_deserialize_json:
  "cl_text_ok (name, cl) \<Longrightarrow> cl_deserialize (cl_json name cl) ConstraintList_new = Inr cl"
  by (simp add: cl_deserialize_def cl_json_def FindMember_def deserialize_constraints_json cl_text_ok_def
      list_all_iff ConstraintList_new_def)

lemma context_constraints_json:
  assumes "om_wf (m @ cs)" "list_all cl_text_ok cs"
  shows "deserialize_context_constraints (map (\<lambda>(n, cl). cl_json n cl) cs) m =
    Inr (fold (\<lambda>(n, cl). om_set n cl) cs m)"
  using assms
proof (induction cs arbitrary: m)
  case (Cons nc cs)
  obtain n cl where nc: "nc = (n, cl)" by (cases nc)
  have new: "om_get m n = None"
    using Cons.prems(1) by (auto simp: nc om_get_None_iff om_wf_def sorted_wrt_append)
  have "om_set n cl m = m @ [(n, cl)]"
    using Cons.prems(1) by (intro om_set_last) (auto simp: nc om_wf_def sorted_wrt_append)
  then have "om_wf (om_set n cl m @ cs)" using Cons.prems(1) by (simp add: nc)
  moreover have nk: "no_nul n" "cl_text_ok (n, cl)" using Cons.prems(2) by (simp_all add: nc cl_text_ok_def)
  moreover have "exn_bind (json_member (cl_json n cl) ''name'') json_GetString = Inr n"
    using nk by (simp add: cl_json_def json_member_def FindMember_def json_GetString_def)
  ultimately show ?case
    using Cons.prems(2) Cons.IH [of "om_set n cl m"] by (simp add: nc new cl_deserialize_json)
qed simp

definition context_text_ok :: "QueryContext \<Rightarrow> bool" where
  "context_text_ok ctx \<longleftrightarrow>
     om_wf (qc_constraints ctx) \<and> list_all cl_text_ok (qc_constraints ctx) \<and>
     (case qc_colsUsed ctx of None \<Rightarrow> True | Some cols \<Rightarrow> distinct cols \<and> list_all no_nul cols)"

lemma json_strings_map: "list_all no_nul cols \<Longrightarrow> json_strings (map JString cols) = Inr cols"
  by (induction cols) (auto simp: json_GetString_def)

lemma fold_pushCopy: "fold json_pushCopy cols acc = acc @ map JString cols"
  by (induction cols arbitrary: acc) (auto simp: json_pushCopy_def)

lemma fold_cl_push:
  "fold (\<lambda>(name, cl) arr. json_push (JObject (cl_serialize rj cl (json_addRef rj ''name'' name []))) arr) cs acc =
     acc @ map (\<lambda>(n, cl). cl_json n cl) cs"
  by (induction cs arbitrary: acc) (auto simp: json_push_def cl_serialize_json)

lemma json_GetUint64_uint: "json_GetUint64 (JInt (uint (b :: u64))) = Inr b"
  using uint_lt2p [of b] by (simp add: json_GetUint64_def)

definition context_members :: "QueryContext \<Rightarrow> members" where
  "context_members ctx =
     [(''constraints'', JArray (map (\<lambda>(n, cl). cl_json n cl) (qc_constraints ctx)))] @
     (case qc_colsUsed ctx of None \<Rightarrow> [] | Some cols \<Rightarrow> [(''colsUsed'', JArray (map JString cols))]) @
     (case qc_colsUsedBitset ctx of None \<Rightarrow> [] | Some b \<Rightarrow> [(''colsUsedBitset'', JInt (uint b))])"

lemma serializeQueryContextJSON_members: "serializeQueryContextJSON rj ctx = context_members ctx"
  unfolding serializeQueryContextJSON_def fold_cl_push fold_pushCopy context_members_def
  by (simp add: json_add_simps json_add_def HasMember_def FindMember_def split: option.splits)

lemma deserialize_context_members:
  assumes "context_text_ok ctx"
  shows "deserializeQueryContextJSON (context_members ctx) QueryContext_new =
    Inr (success, QueryContext_new\<lparr>qc_constraints := qc_constraints ctx, qc_colsUsed := qc_colsUsed ctx,
           qc_colsUsedBitset := qc_colsUsedBitset ctx\<rparr>)"
proof -
  have "deserialize_context_constraints (map (\<lambda>(n, cl). cl_json n cl) (qc_constraints ctx)) [] = Inr (qc_constraints ctx)"
    using assms context_constraints_json [of "[]" "qc_constraints ctx"]
    by (simp add: context_text_ok_def fold_om_set_self)
  then show ?thesis
    using assms
    by (cases "qc_colsUsed ctx"; cases "qc_colsUsedBitset ctx")
      (simp_all add: deserializeQueryContextJSON_def context_members_def FindMember_def json_GetArray_def
        json_strings_map json_GetUint64_uint context_text_ok_def QueryContext_new_def distinct_remdups_id)
qed

section \<open>Properties\<close>

text \<open>
  A query context survives the trip over the registry: what a table reads out of a request is the
  context that was put in, constraints with their operators, expressions and affinity, the set of used
  columns and the bitset, for names and expressions without NUL bytes. The hypothesis on RapidJSON is
  that it reads back what it prints.
\<close>

theorem query_context_roundtrip:
  assumes "rj_ok rj" "context_text_ok ctx" "qc_colsUsedBitset ctx \<noteq> None \<or> qc_colsUsed ctx = None"
  shows "getContextFromRequest rj t (setRequestFromContext rj ctx request) =
    Inr (QueryContext_new\<lparr>qc_constraints := qc_constraints ctx, qc_colsUsed := qc_colsUsed ctx,
           qc_colsUsedBitset := qc_colsUsedBitset ctx\<rparr>)"
proof -
  have "json_fromString rj (rj_print rj (JObject (context_members ctx))) = (success, Some (JObject (context_members ctx)))"
    using assms(1) by (simp add: fromString_print rj_ok_parts)
  then show ?thesis
    using assms(3) deserialize_context_members [OF assms(2)]
    by (auto simp: getContextFromRequest_def setRequestFromContext_def json_toString_def serializeQueryContextJSON_members
        context_members_def HasMember_def FindMember_def)
qed

definition sample_context :: QueryContext where
  "sample_context = QueryContext_new
     \<lparr>qc_constraints := [(''path'', \<lparr>cl_affinity = TEXT_TYPE, cl_constraints = [\<lparr>c_op = LIKE_OP, c_expr = ''/etc/%''\<rparr>]\<rparr>),
                         (''pid'', \<lparr>cl_affinity = INTEGER_TYPE, cl_constraints = [\<lparr>c_op = EQUALS, c_expr = ''7''\<rparr>]\<rparr>)],
      qc_colsUsed := Some [''pid'', ''path''], qc_colsUsedBitset := Some 3\<rparr>"

theorem query_context_roundtrip_witness:
  "getContextFromRequest codec_rapidjson (TablePlugin_new ''t'' []) (setRequestFromContext codec_rapidjson sample_context []) =
     Inr sample_context"
proof -
  have "context_text_ok sample_context"
    by (simp add: context_text_ok_def sample_context_def om_wf_def cl_text_ok_def no_nul_def less_char_def)
  moreover have "qc_colsUsedBitset sample_context \<noteq> None" by (simp add: sample_context_def)
  ultimately show ?thesis
    using query_context_roundtrip [OF rj_ok_codec, of sample_context "TablePlugin_new ''t'' []" "[]"]
    by (simp add: sample_context_def)
qed

text \<open>What one comparison says about a value.\<close>

definition constraint_holds :: "(string \<Rightarrow> 'a::linorder option) \<Rightarrow> 'a \<Rightarrow> Constraint \<Rightarrow> bool" where
  "constraint_holds lit v c =
     (case lit (c_expr c) of
        None \<Rightarrow> False
      | Some e \<Rightarrow>
          (c_op c = EQUALS \<and> v = e) \<or> (c_op c = GREATER_THAN \<and> v > e) \<or> (c_op c = LESS_THAN \<and> v < e) \<or>
          (c_op c = GREATER_THAN_OR_EQUALS \<and> v \<ge> e) \<or> (c_op c = LESS_THAN_OR_EQUALS \<and> v \<le> e))"

definition comparison_ops :: "u8 list" where
  "comparison_ops = [EQUALS, GREATER_THAN, LESS_THAN, GREATER_THAN_OR_EQUALS, LESS_THAN_OR_EQUALS]"

lemma literal_matches_all:
  "list_all (\<lambda>c. c_op c \<in> set comparison_ops) cs \<Longrightarrow> literal_matches lit v cs \<longleftrightarrow> list_all (constraint_holds lit v) cs"
  by (induction lit v cs rule: literal_matches.induct)
    (auto simp: constraint_holds_def comparison_ops_def op_defs split: option.splits)

text \<open>
  \<open>ConstraintList::matches\<close> decides the conjunction of the constraints: when every operator is one
  of the five comparisons, a value matches exactly when it and every constraint's expression can be read
  as the column's type and every comparison holds, for each of the four types with literals; a column of
  another type never matches.
\<close>

theorem constraint_list_matches:
  assumes "list_all (\<lambda>c. c_op c \<in> set comparison_ops) (cl_constraints cl)"
  shows "cl_matches cl expr \<longleftrightarrow>
    (case cl_affinity cl of
       TEXT_TYPE \<Rightarrow> list_all (constraint_holds lit_text expr) (cl_constraints cl)
     | INTEGER_TYPE \<Rightarrow> (\<exists>l. lit_int expr = Some l \<and> list_all (constraint_holds lit_int l) (cl_constraints cl))
     | BIGINT_TYPE \<Rightarrow> (\<exists>l. lit_bigint expr = Some l \<and> list_all (constraint_holds lit_bigint l) (cl_constraints cl))
     | UNSIGNED_BIGINT_TYPE \<Rightarrow> (\<exists>l. lit_ubigint expr = Some l \<and> list_all (constraint_holds lit_ubigint l) (cl_constraints cl))
     | _ \<Rightarrow> False)"
  by (auto simp: cl_matches_def literal_matches_all [OF assms] split: ColumnType.splits option.splits)

lemma lit_int_to_string: "- (2 ^ 31) \<le> i \<Longrightarrow> i < 2 ^ 31 \<Longrightarrow> lit_int (to_string_int i) = Some i"
  by (simp add: lit_int_def expected_value_def tryTo_int_def throwingStringToInt_int_def stoi_def
      stosigned_to_string tryTo_catch_def Expected_value_def)

theorem constraint_list_matches_witness:
  "cl_matches \<lparr>cl_affinity = INTEGER_TYPE, cl_constraints = [\<lparr>c_op = GREATER_THAN, c_expr = to_string_int 5\<rparr>]\<rparr> (to_string_int 7)"
proof -
  have "list_all (\<lambda>c. c_op c \<in> set comparison_ops) [\<lparr>c_op = GREATER_THAN, c_expr = to_string_int 5\<rparr>]"
    by (simp add: comparison_ops_def)
  then show ?thesis
    using constraint_list_matches [of "\<lparr>cl_affinity = INTEGER_TYPE, cl_constraints = [\<lparr>c_op = GREATER_THAN, c_expr = to_string_int 5\<rparr>]\<rparr>"
        "to_string_int 7"]
    by (simp add: constraint_holds_def lit_int_to_string op_defs)
qed

text \<open>
  Where the operators are not comparisons the lists say less than their documentation: an
  unsupported operator makes the list match at once and hides the constraints behind it, and because
  the operator codes are not disjoint bits a column constrained only by GLOB has a constraint for EQUALS.
\<close>

theorem constraint_operator_quirks:
  "cl_matches \<lparr>cl_affinity = TEXT_TYPE,
     cl_constraints = [\<lparr>c_op = LIKE_OP, c_expr = ''a%''\<rparr>, \<lparr>c_op = EQUALS, c_expr = ''b''\<rparr>]\<rparr> ''z'' \<and>
   \<not> cl_matches \<lparr>cl_affinity = TEXT_TYPE,
     cl_constraints = [\<lparr>c_op = EQUALS, c_expr = ''b''\<rparr>, \<lparr>c_op = LIKE_OP, c_expr = ''a%''\<rparr>]\<rparr> ''z'' \<and>
   hasConstraint (QueryContext_new\<lparr>qc_constraints :=
     [(''path'', \<lparr>cl_affinity = TEXT_TYPE, cl_constraints = [\<lparr>c_op = GLOB_OP, c_expr = ''*''\<rparr>]\<rparr>)]\<rparr>) ''path'' EQUALS"
  by (simp add: cl_matches_def lit_text_def op_defs hasConstraint_def om_get_Cons cl_exists_def)

section \<open>Route info\<close>

lemma route_columns_plain:
  assumes "list_all (\<lambda>(_, _, options). 0 \<le> options \<and> options < 2 ^ 31) cols"
  shows "fold (route_column False) (map (\<lambda>(name, type, options). [(''id'', ''column''), (''name'', name),
      (''op'', to_string_int (options mod 2 ^ 64)), (''type'', columnTypeName type)]) cols) (acc, types) = (acc @ cols, types)"
  using assms
proof (induction cols arbitrary: acc)
  case (Cons col cols)
  obtain n ty opt where col: "col = (n, ty, opt)" by (cases col)
  have "lit_int (to_string_int (opt mod 2 ^ 64)) = Some opt"
    using Cons.prems lit_int_to_string [of opt] by (simp add: col)
  then show ?case using Cons by (simp add: col route_column_def om_get_Cons)
qed simp

lemma route_columns_rest:
  "\<forall>x \<in> set xs. om_get x ''id'' = Some i \<and> i \<noteq> ''column'' \<Longrightarrow> fold (route_column False) xs s = s"
proof (induction xs arbitrary: s)
  case (Cons x xs)
  then have "route_column False x s = s"
    by (cases s) (auto simp: route_column_def split: option.splits)
  then show ?case using Cons by simp
qed simp

text \<open>
  The CREATE statement that the core builds from the route info of a table, its own or one broadcast
  by an extension, is the one built from the table's columns: names, types and options all survive.
\<close>

theorem route_info_gives_definition:
  assumes "list_all (\<lambda>(_, _, options). 0 \<le> options \<and> options < 2 ^ 31) (tp_columns t)"
  shows "columnDefinition_response (routeInfo t) False is_extension = columnDefinition (tp_columns t) is_extension"
proof -
  have a: "fold (route_column False) (map (\<lambda>alias. [(''alias'', alias), (''id'', ''alias'')]) (tp_aliases t)) s = s" for s
    by (rule route_columns_rest [where i = "''alias''"]) (auto simp: om_get_Cons)
  have b: "fold (route_column False) (concat (map (\<lambda>(target, as). map (\<lambda>alias. [(''id'', ''columnAlias''), (''name'', alias),
      (''target'', target)]) as) (tp_columnAliases t))) s = s" for s
    by (rule route_columns_rest [where i = "''columnAlias''"]) (auto simp: om_get_Cons)
  have c: "route_column False [(''attributes'', x), (''id'', ''attributes'')] s = s" for x s
    by (cases s) (simp add: route_column_def om_get_Cons)
  show ?thesis
    using route_columns_plain [OF assms, of "[]" "[]"]
    by (simp add: columnDefinition_response_def routeInfo_def a b c)
qed

theorem route_info_gives_definition_witness:
  "columnDefinition_response (routeInfo (TablePlugin_new ''t'' [(''pid'', BIGINT_TYPE, OPT_INDEX), (''name'', TEXT_TYPE, OPT_DEFAULT)]))
     False False = columnDefinition [(''pid'', BIGINT_TYPE, OPT_INDEX), (''name'', TEXT_TYPE, OPT_DEFAULT)] False"
  using route_info_gives_definition [of "TablePlugin_new ''t'' [(''pid'', BIGINT_TYPE, OPT_INDEX), (''name'', TEXT_TYPE, OPT_DEFAULT)]" False]
  by (simp add: TablePlugin_new_def OPT_INDEX_def OPT_DEFAULT_def)

section \<open>Used columns and cached results\<close>

lemma usedColumns_loop_bits:
  "i + length cols \<le> 64 \<Longrightarrow>
   \<exists>b. usedColumns_loop [] used i cols r = Inr b \<and>
     (\<forall>j. bit b j \<longleftrightarrow> bit r j \<or> (i \<le> j \<and> j < i + length cols \<and> fst (cols ! (j - i)) \<in> set used))"
proof (induction cols arbitrary: i r)
  case (Cons col cols)
  obtain n x where col: "col = (n, x)" by (cases col)
  define r' where "r' = (if n \<in> set used then set_bit i r else r)"
  have len: "Suc i + length cols \<le> 64" "i < 64" using Cons.prems by simp_all
  obtain b where b: "usedColumns_loop [] used (Suc i) cols r' = Inr b"
    "\<And>j. bit b j \<longleftrightarrow> bit r' j \<or> (Suc i \<le> j \<and> j < Suc i + length cols \<and> fst (cols ! (j - Suc i)) \<in> set used)"
    using Cons.IH [OF len(1), of r'] by blast
  have "usedColumns_loop [] used i (col # cols) r = Inr b"
    using b(1) len(2) by (simp add: col r'_def Let_def split: if_splits)
  moreover have r': "bit r' j \<longleftrightarrow> bit r j \<or> (j = i \<and> n \<in> set used)" for j
    using len(2) by (auto simp: r'_def bit_simps)
  have "bit b j \<longleftrightarrow> bit r j \<or> (i \<le> j \<and> j < i + length (col # cols) \<and> fst ((col # cols) ! (j - i)) \<in> set used)" for j
  proof (cases "j = i")
    case True
    then show ?thesis by (simp add: b(2) r' col)
  next
    case False
    have "j - i = Suc x \<Longrightarrow> j - Suc i = x" for x by simp
    with False show ?thesis by (auto simp: b(2) r' col nth_Cons split: nat.splits)
  qed
  ultimately show ?case by blast
qed auto

text \<open>
  The bitset of used columns of a table with at most 64 columns has exactly the bits of the columns
  that are used.
\<close>

theorem usedColumnsToBitset_bits:
  assumes "length (tp_columns t) \<le> 64"
  shows "\<exists>b. usedColumnsToBitset t used = Inr b \<and>
    (\<forall>j. bit b j \<longleftrightarrow> j < length (tp_columns t) \<and> fst (tp_columns t ! j) \<in> set used)"
  using usedColumns_loop_bits [of 0 "tp_columns t" used 0] assms
  by (simp add: usedColumnsToBitset_def aliasedColumns_def)

theorem usedColumnsToBitset_bits_witness:
  "\<exists>b. usedColumnsToBitset (TablePlugin_new ''t'' [(''a'', TEXT_TYPE, 0), (''b'', TEXT_TYPE, 0)]) [''b''] = Inr b \<and>
     bit b 1 \<and> \<not> bit b 0"
  using usedColumnsToBitset_bits [of "TablePlugin_new ''t'' [(''a'', TEXT_TYPE, 0), (''b'', TEXT_TYPE, 0)]" "[''b'']"]
  by (auto simp: TablePlugin_new_def)

definition rows_text_ok :: "QueryData \<Rightarrow> bool" where
  "rows_text_ok rows \<longleftrightarrow>
     list_all (\<lambda>r. om_wf r \<and> list_all (\<lambda>(k, v). k \<noteq> [] \<and> no_nul k \<and> no_nul v) r) rows"

definition string_row_json :: "Row \<Rightarrow> json" where
  "string_row_json r = JObject (map (\<lambda>(k, v). (k, JString v)) r)"

lemma fold_addRef_row: "om_wf r \<Longrightarrow> fold (\<lambda>(k, v). json_addRef rj k v) r [] = map (\<lambda>(k, v). (k, JString v)) r"
proof -
  assume "om_wf r"
  have "fold (\<lambda>(k, v). json_addRef rj k v) r [] = fold (\<lambda>(k, v). json_add rj k v) (map (\<lambda>(k, v). (k, JString v)) r) []"
    by (simp add: fold_map comp_def case_prod_unfold json_addRef_def [abs_def])
  also have "\<dots> = map (\<lambda>(k, v). (k, JString v)) r"
    using om_keys_distinct [OF \<open>om_wf r\<close>]
    by (subst fold_json_add_fresh) (simp_all add: om_keys_def case_prod_unfold comp_def)
  finally show ?thesis .
qed

lemma serialize_rows_push:
  "rows_text_ok rows \<Longrightarrow>
   fold (\<lambda>r arr. json_push (JObject (fold (\<lambda>(k, v). json_addRef rj k v) r [])) arr) rows acc = acc @ map string_row_json rows"
  by (induction rows arbitrary: acc)
    (auto simp: rows_text_ok_def json_push_def fold_addRef_row string_row_json_def)

lemma deserialize_string_row:
  assumes "om_wf r" "list_all (\<lambda>(k, v). k \<noteq> [] \<and> no_nul k \<and> no_nul v) r"
  shows "deserializeRow (string_row_json r) [] = (success, r)"
proof -
  have "fold (\<lambda>(n, v) row. let name = c_str n in
          if name \<noteq> [] then (case v of JString s \<Rightarrow> om_set name (c_str s) row | _ \<Rightarrow> row) else row)
        (map (\<lambda>(k, v). (k, JString v)) xs) row = fold (\<lambda>(k, v). om_set k v) xs row"
    if "list_all (\<lambda>(k, v). k \<noteq> [] \<and> no_nul k \<and> no_nul v) xs" for xs row
    using that by (induction xs arbitrary: row) auto
  from this [OF assms(2), of "[]"] show ?thesis
    using assms(1) by (simp add: deserializeRow_def string_row_json_def fold_om_set_self)
qed

lemma deserialize_string_rows:
  "rows_text_ok rows \<Longrightarrow> deserialize_rows (map string_row_json rows) qd = (success, qd @ rows)"
  by (induction rows arbitrary: qd) (auto simp: rows_text_ok_def deserialize_string_row)

lemma table_rows_roundtrip:
  assumes "rj_ok rj" "rows_text_ok rows"
  shows "\<exists>content. serializeTableRowsJSON rj rows = (success, content) \<and>
    deserializeTableRowsJSON rj content [] = (success, rows)"
  using assms fromString_print [OF rj_ok_parts [OF assms(1)], of "JArray (map string_row_json rows)"]
  by (simp add: serializeTableRowsJSON_def serialize_rows_push json_toString_def deserializeTableRowsJSON_def
      deserialize_string_rows)

text \<open>
  The results cache is sound and works: after results were cached at a step for an interval, every
  later step before the interval is over finds the cache fresh, and reads back exactly those rows; at the
  end of the interval the cache is stale.
\<close>

theorem table_cache_returns_results:
  assumes "db_ready eph_inv p" "de_ops e = EphemeralDatabasePlugin" "rj_ok (de_rj e)" "rows_text_ok rows"
    and "cacheAllowed (tp_columns t) ctx = Inr True" "unat step + unat interval < 2 ^ 64"
  shows "\<exists>t' p'. tp_setCache e False False step interval ctx rows (t, p) = Inr (t', p') \<and>
    tp_getCache e False t' p' = Inr (rows, p') \<and>
    (\<forall>now. isCached False t' now ctx = Inr (unat now < unat step + unat interval))"
proof -
  obtain content where c: "serializeTableRowsJSON (de_rj e) rows = (success, content)"
    "deserializeTableRowsJSON (de_rj e) content [] = (success, rows)"
    using table_rows_roundtrip [OF assms(3,4)] by blast
  obtain st p' where s: "setDatabaseValue e False kQueries (cache_key t) content p = Inr (st, p')" "db_ready eph_inv p'"
    "db_view eph_look p' = view_put kQueries [(cache_key t, content)] (db_view eph_look p)"
    using eph.set_value [OF assms(1,2), of kQueries "cache_key t" content] by auto
  let ?t = "t\<lparr>last_cached := step, last_interval := interval\<rparr>"
  have key: "cache_key ?t = cache_key t" by (simp add: cache_key_def)
  obtain st' where g: "getDatabaseValue e False kQueries (cache_key t) [] p' = Inr (st', content, p')"
    using eph.get_some [OF s(2) assms(2), of kQueries "cache_key t" content False] s(3) by (auto simp: view_put_one)
  have "unat (step + interval) = unat step + unat interval" using assms(6) by (simp add: unat_word_ariths)
  then have fresh: "now < step + interval \<longleftrightarrow> unat now < unat step + unat interval" for now
    by (simp add: word_less_nat_alt)
  show ?thesis
    using assms(5) s(1) g
    by (intro exI [of _ ?t] exI [of _ p']) (simp add: tp_setCache_def c tp_getCache_def key isCached_def fresh)
qed

theorem table_cache_returns_results_witness:
  "\<exists>t' p'. tp_setCache eph_env False False 100 60 (set_useCache True (QueryContext_of \<lparr>vt_name = ''t'',
       vt_columns = [(''a'', TEXT_TYPE, 0)], vt_attributes = 0, vt_cache = []\<rparr>)) [[(''a'', ''1'')]]
       (TablePlugin_new ''t'' [(''a'', TEXT_TYPE, 0)], eph_process []) = Inr (t', p') \<and>
     tp_getCache eph_env False t' p' = Inr ([[(''a'', ''1'')]], p')"
proof -
  let ?ctx = "set_useCache True (QueryContext_of \<lparr>vt_name = ''t'', vt_columns = [(''a'', TEXT_TYPE, 0)], vt_attributes = 0, vt_cache = []\<rparr>)"
  let ?t = "TablePlugin_new ''t'' [(''a'', TEXT_TYPE, 0)]"
  have "rj_ok (de_rj eph_env)" by (simp add: eph_env_def rj_ok_codec)
  moreover have "cacheAllowed (tp_columns ?t) ?ctx = Inr True"
    by (simp add: TablePlugin_new_def cacheAllowed_def set_useCache_def QueryContext_of_def QueryContext_new_def
        defaultColumnsUsed_def bitmask_def has_option_def Let_def)
  moreover have "rows_text_ok [[(''a'', ''1'')]]" by (simp add: rows_text_ok_def om_wf_def no_nul_def)
  ultimately show ?thesis
    using table_cache_returns_results [OF eph_process_ready [OF eph_inv_Nil] eph_env_ops, of "[[(''a'', ''1'')]]" ?t ?ctx 100 60]
    by auto
qed

end
