(* ===== verification/Texts.thy ===== *)
theory Texts
  imports Results
begin

text \<open>
  Text utilities: \<open>utils/conversions/split.cpp\<close>, \<open>trim.cpp\<close>, \<open>join.h\<close>, the version comparison of
  \<open>utils/info/version.cpp\<close> and the platform masks of \<open>utils/info/platform_type\<close>. The string
  algorithms of Boost are parameters, collected in \<open>boost_lib\<close>; \<open>boost_ok\<close> states what their
  documentation says of the calls made here, and \<open>boost_ref\<close> shows that it can hold.
\<close>

section \<open>Boost string algorithms\<close>

record boost_lib =
  bo_split :: "string \<Rightarrow> string \<Rightarrow> string list"
  bo_trim :: "string \<Rightarrow> string"
  bo_join :: "string list \<Rightarrow> string \<Rightarrow> string"
  bo_replace_all :: "string \<Rightarrow> string \<Rightarrow> string \<Rightarrow> string"
  bo_lexical_u64 :: "string \<Rightarrow> u64 option"

text \<open>Tokens between separators, empty ones included: what \<open>boost::split\<close> computes.\<close>

fun tokens :: "(char \<Rightarrow> bool) \<Rightarrow> string \<Rightarrow> string list" where
  "tokens sep [] = [[]]"
| "tokens sep (c # s) =
     (if sep c then [] # tokens sep s
      else case tokens sep s of [] \<Rightarrow> [[c]] | t # ts \<Rightarrow> (c # t) # ts)"

definition strip_spaces :: "string \<Rightarrow> string" where
  "strip_spaces s = rev (dropWhile isspace (rev (dropWhile isspace s)))"

fun join_with :: "string list \<Rightarrow> string \<Rightarrow> string" where
  "join_with [] d = []"
| "join_with [x] d = x"
| "join_with (x # y # xs) d = x @ d @ join_with (y # xs) d"

function replaced :: "string \<Rightarrow> string \<Rightarrow> string \<Rightarrow> string" where
  "replaced [] pat rep = []"
| "replaced (c # s) pat rep =
     (if pat \<noteq> [] \<and> prefix pat (c # s) then rep @ replaced (drop (length pat) (c # s)) pat rep
      else c # replaced s pat rep)"
  by pat_completeness auto
termination
proof (relation "measure (\<lambda>(s, _, _). length s)")
  fix c s and pat rep :: string
  assume "pat \<noteq> [] \<and> prefix pat (c # s)"
  then have "0 < length pat" by simp
  then show "((drop (length pat) (c # s), pat, rep), c # s, pat, rep) \<in> measure (\<lambda>(s, _, _). length s)"
    by (simp del: length_greater_0_conv)
qed simp_all

definition boost_ok :: "boost_lib \<Rightarrow> bool" where
  "boost_ok bo \<longleftrightarrow>
     (\<forall>s delim. bo_split bo s delim = tokens (\<lambda>c. c \<in> set delim) s) \<and>
     (\<forall>s. bo_trim bo s = strip_spaces s) \<and>
     (\<forall>xs d. bo_join bo xs d = join_with xs d) \<and>
     (\<forall>s pat rep. bo_replace_all bo s pat rep = replaced s pat rep) \<and>
     (\<forall>w. bo_lexical_u64 bo (to_string_u64 w) = Some w)"

definition boost_ref :: boost_lib where
  "boost_ref =
     \<lparr>bo_split = (\<lambda>s delim. tokens (\<lambda>c. c \<in> set delim) s), bo_trim = strip_spaces, bo_join = join_with,
      bo_replace_all = replaced,
      bo_lexical_u64 = (\<lambda>s. case stoull 10 s of Inr w \<Rightarrow> Some w | Inl _ \<Rightarrow> None)\<rparr>"

lemma boost_ref_ok [simp]: "boost_ok boost_ref"
  by (simp add: boost_ok_def boost_ref_def)

section \<open>split, vsplit, trim, join\<close>

definition osq_split :: "boost_lib \<Rightarrow> string \<Rightarrow> string \<Rightarrow> string list" where
  "osq_split bo s delim = map (bo_trim bo) (filter (\<lambda>t. t \<noteq> []) (bo_split bo s delim))"

definition split_occurrences :: "boost_lib \<Rightarrow> string \<Rightarrow> char \<Rightarrow> nat \<Rightarrow> string list" where
  "split_occurrences bo s delim occurrences =
     (let content = osq_split bo s [delim];
          elems = take occurrences content;
          accumulator = drop occurrences content
      in if accumulator \<noteq> [] then elems @ [bo_join bo accumulator [delim]] else elems)"

definition osq_join :: "boost_lib \<Rightarrow> string list \<Rightarrow> string \<Rightarrow> string" where
  "osq_join bo s tok = bo_join bo s tok"

text \<open>The loop of \<open>vsplit\<close>: the argument is the text from \<open>start\<close> on, which is not empty.\<close>

function vsplit_loop :: "char \<Rightarrow> string \<Rightarrow> string list" where
  "vsplit_loop d s =
     (let w = takeWhile (\<lambda>c. c \<noteq> d) s; r = dropWhile (\<lambda>c. c \<noteq> d) s
      in case r of
           [] \<Rightarrow> [w]
         | _ # rest \<Rightarrow> (if w \<noteq> [] then [w] else []) @ (if rest \<noteq> [] then vsplit_loop d rest else []))"
  by pat_completeness auto
termination
proof (relation "measure (\<lambda>(_, s). length s)")
  fix d :: char and s w r and x and rest :: string
  assume "r = dropWhile (\<lambda>c. c \<noteq> d) s" "r = x # rest"
  then have "length (x # rest) \<le> length s" using length_dropWhile_le [of "\<lambda>c. c \<noteq> d" s] by simp
  then show "((d, rest), d, s) \<in> measure (\<lambda>(_, s). length s)" by simp
qed simp

declare vsplit_loop.simps [simp del]

definition vsplit :: "string \<Rightarrow> char \<Rightarrow> string list" where
  "vsplit source delimiter =
     (if source = [] then []
      else let s = dropWhile (\<lambda>c. c = delimiter) source
           in if s = [] then [] else vsplit_loop delimiter s)"

text \<open>The two loops of \<open>trim\<close>: forward to the first non-space, backward to the last one.\<close>

fun trim_end :: "string \<Rightarrow> string" where
  "trim_end [] = []"
| "trim_end (c # cs) = (let t = trim_end cs in if t = [] \<and> isspace c then [] else c # t)"

definition trim_view :: "string \<Rightarrow> string" where
  "trim_view input = (case dropWhile isspace input of [] \<Rightarrow> [] | c # cs \<Rightarrow> c # trim_end cs)"

section \<open>Versions\<close>

fun version_loop :: "string list \<Rightarrow> string list \<Rightarrow> bool throwing" where
  "version_loop [] required = Inr True"
| "version_loop (chunk # build) [] = Inr True"
| "version_loop (chunk # build) (r # required) =
     (case exn_bind (stoi 10 chunk) (\<lambda>c. exn_bind (stoi 10 r) (\<lambda>x. Inr (c, x))) of
        Inr (c, x) \<Rightarrow> if c < x then Inr False else if c > x then Inr True else version_loop build required
      | Inl invalid_argument \<Rightarrow> if chunk < r then Inr False else version_loop build required
      | Inl e \<Rightarrow> Inl e)"

definition versionAtLeast :: "boost_lib \<Rightarrow> string \<Rightarrow> string \<Rightarrow> bool throwing" where
  "versionAtLeast bo v sdk =
     (if v = ''0.0.0'' \<or> sdk = ''0.0.0'' then Inr True
      else version_loop (osq_split bo sdk ''.'') (osq_split bo v ''.''))"

section \<open>Platforms\<close>

definition TYPE_POSIX :: u32 where "TYPE_POSIX = 0x01"
definition TYPE_WINDOWS :: u32 where "TYPE_WINDOWS = 0x02"
definition TYPE_BSD :: u32 where "TYPE_BSD = 0x04"
definition TYPE_LINUX :: u32 where "TYPE_LINUX = 0x08"
definition TYPE_OSX :: u32 where "TYPE_OSX = 0x10"
definition TYPE_FREEBSD :: u32 where "TYPE_FREEBSD = 0x20"

definition isPlatform :: "u32 \<Rightarrow> u32 \<Rightarrow> bool" where
  "isPlatform a t \<longleftrightarrow> and t a \<noteq> 0"

definition platform_or :: "u32 \<Rightarrow> u32 \<Rightarrow> u32" where
  "platform_or a b = or a b"

text \<open>\<open>find(sub) != npos\<close> on strings.\<close>

definition str_contains :: "string \<Rightarrow> string \<Rightarrow> bool" where
  "str_contains s sub \<longleftrightarrow> str_find sub s \<noteq> None"

record platform_build =
  pb_type :: u32
  pb_name :: string

definition checkPlatform :: "platform_build \<Rightarrow> string \<Rightarrow> bool" where
  "checkPlatform pb platform =
     (if platform = [] \<or> platform = ''null'' then True
      else if str_contains platform ''any'' \<or> str_contains platform ''all'' then True
      else if (str_contains platform ''linux'' \<or> str_contains platform ''ubuntu'' \<or> str_contains platform ''centos'')
            \<and> isPlatform TYPE_LINUX (pb_type pb) then True
      else if str_contains platform ''posix'' \<and> isPlatform TYPE_POSIX (pb_type pb) then True
      else str_contains platform (pb_name pb))"

section \<open>Splitting and joining\<close>

lemma tokens_nonempty [simp]: "tokens sep s \<noteq> []"
  by (induction sep s rule: tokens.induct) (auto split: list.splits)

lemma tokens_span:
  "tokens sep s =
     takeWhile (\<lambda>c. \<not> sep c) s #
     (case dropWhile (\<lambda>c. \<not> sep c) s of [] \<Rightarrow> [] | _ # rest \<Rightarrow> tokens sep rest)"
  by (induction sep s rule: tokens.induct) (auto split: list.splits)

lemma tokens_append:
  assumes "\<forall>c \<in> set x. \<not> sep c" "sep d"
  shows "tokens sep (x @ d # s) = x # tokens sep s"
  using assms(1) by (induction x) (simp_all add: assms(2))

lemma tokens_plain: "\<forall>c \<in> set x. \<not> sep c \<Longrightarrow> tokens sep x = [x]"
  by (induction x) auto

lemma tokens_join:
  assumes "\<forall>x \<in> set xs. \<forall>c \<in> set x. \<not> sep c" "sep d" "xs \<noteq> []"
  shows "tokens sep (join_with xs [d]) = xs"
  using assms by (induction xs "[d]" rule: join_with.induct) (simp_all add: tokens_plain tokens_append)

lemma dropWhile_self [simp]: "(case dropWhile P s of [] \<Rightarrow> True | c # _ \<Rightarrow> \<not> P c)"
  by (induction s) auto

lemma vsplit_loop_tokens:
  "s \<noteq> [] \<Longrightarrow> vsplit_loop d s = filter (\<lambda>t. t \<noteq> []) (tokens (\<lambda>c. c = d) s)"
proof (induction d s rule: vsplit_loop.induct)
  case (1 d s)
  show ?case
  proof (cases "dropWhile (\<lambda>c. c \<noteq> d) s")
    case Nil
    then have w: "takeWhile (\<lambda>c. c \<noteq> d) s = s" by (metis append_Nil2 takeWhile_dropWhile_id)
    show ?thesis using 1(2) by (simp add: Nil w vsplit_loop.simps [of d s] tokens_span [of _ s] Let_def)
  next
    case (Cons x rest)
    have IH: "rest \<noteq> [] \<Longrightarrow> vsplit_loop d rest = filter (\<lambda>t. t \<noteq> []) (tokens (\<lambda>c. c = d) rest)"
      using 1(1) [OF refl refl Cons] by blast
    show ?thesis
      by (cases "rest = []") (simp_all add: vsplit_loop.simps [of d s] tokens_span [of _ s] Cons IH Let_def)
  qed
qed

lemma tokens_skip:
  "filter (\<lambda>t. t \<noteq> []) (tokens (\<lambda>c. c = d) (dropWhile (\<lambda>c. c = d) s)) = filter (\<lambda>t. t \<noteq> []) (tokens (\<lambda>c. c = d) s)"
  by (induction s) auto

lemma vsplit_tokens: "vsplit s d = filter (\<lambda>t. t \<noteq> []) (tokens (\<lambda>c. c = d) s)"
proof (cases "dropWhile (\<lambda>c. c = d) s")
  case Nil
  then have "filter (\<lambda>t. t \<noteq> []) (tokens (\<lambda>c. c = d) s) = []" using tokens_skip [of d s] by (simp only:) simp
  then show ?thesis by (simp add: vsplit_def Nil Let_def del: dropWhile_eq_Nil_conv)
next
  case (Cons c cs)
  then have "s \<noteq> []" by auto
  then show ?thesis using tokens_skip [of d s] Cons by (simp add: vsplit_def vsplit_loop_tokens)
qed

lemma trim_end_rev: "trim_end s = rev (dropWhile isspace (rev s))"
proof (induction s)
  case (Cons c s)
  have "dropWhile isspace (rev s @ [c]) =
      (if dropWhile isspace (rev s) = [] then (if isspace c then [] else [c]) else dropWhile isspace (rev s) @ [c])"
    by (auto simp: dropWhile_append dropWhile_eq_Nil_conv)
  then show ?case by (simp add: Cons Let_def)
qed simp

lemma trim_view_strip: "trim_view s = strip_spaces s"
proof (cases "dropWhile isspace s")
  case (Cons c cs)
  then have "\<not> isspace c" by (metis hd_dropWhile list.distinct(1) list.sel(1))
  then show ?thesis
    by (simp add: trim_view_def strip_spaces_def Cons trim_end_rev dropWhile_append dropWhile_eq_Nil_conv)
next
  case Nil
  show ?thesis by (simp add: Nil trim_view_def strip_spaces_def)
qed

lemma strip_spaces_plain: "\<forall>c \<in> set s. \<not> isspace c \<Longrightarrow> strip_spaces s = s"
proof -
  assume a: "\<forall>c \<in> set s. \<not> isspace c"
  have keep: "dropWhile isspace t = t" if "\<forall>c \<in> set t. \<not> isspace c" for t
    using that by (cases t) auto
  show ?thesis using keep [OF a] keep [of "rev s"] a by (simp add: strip_spaces_def)
qed

text \<open>A field: not empty, without the separator, without spaces.\<close>

definition field_ok :: "char \<Rightarrow> string \<Rightarrow> bool" where
  "field_ok d s \<longleftrightarrow> s \<noteq> [] \<and> (\<forall>c \<in> set s. c \<noteq> d \<and> \<not> isspace c)"

lemma osq_split_join:
  assumes "boost_ok bo" "list_all (field_ok d) xs" "xs \<noteq> []"
  shows "osq_split bo (join_with xs [d]) [d] = xs"
proof -
  have "tokens (\<lambda>c. c = d) (join_with xs [d]) = xs"
    using assms(2,3) by (intro tokens_join) (auto simp: list_all_iff field_ok_def)
  moreover have "filter (\<lambda>t. t \<noteq> []) xs = xs" "map strip_spaces xs = xs"
    using assms(2) by (auto simp: list_all_iff field_ok_def filter_id_conv strip_spaces_plain intro!: map_idI)
  moreover have "bo_trim bo = strip_spaces" using assms(1) by (auto simp: boost_ok_def)
  ultimately show ?thesis using assms(1) by (simp add: osq_split_def boost_ok_def)
qed

lemma osq_split_empty: "boost_ok bo \<Longrightarrow> osq_split bo [] d = []"
  by (simp add: osq_split_def boost_ok_def)

lemma nat_digits_field [simp]: "d \<notin> digit_char ` {..<10} \<Longrightarrow> field_ok d (nat_digits n)"
  using nat_digits_chars [of _ n] by (fastforce simp: field_ok_def)

lemma digit_char_distinct: "d < 10 \<Longrightarrow> digit_char d \<noteq> CHR '':''" "d < 10 \<Longrightarrow> digit_char d \<noteq> CHR '','' "
    "d < 10 \<Longrightarrow> digit_char d \<noteq> CHR ''.''"
  using of_char_digit_char [of d] by auto

lemma to_string_field [simp]:
  "field_ok (CHR '':'') (to_string_u64 w)" "field_ok (CHR ''.'') (to_string_u64 w)" "field_ok (CHR '','') (to_string_u64 w)"
  "field_ok (CHR ''.'') (to_string_nat n)"
  by (auto simp: to_string_u64_def to_string_nat_def digit_char_distinct [symmetric] dest: digit_char_distinct
      intro!: nat_digits_field)

section \<open>Properties\<close>

lemma stoi_to_string_nat: "n < 2 ^ 31 \<Longrightarrow> stoi 10 (to_string_nat n) = Inr (int n)"
  by (simp add: stoi_def stosigned_def to_string_nat_def strto_raw_nat_digits)

lemma version_loop_numeric:
  "list_all (\<lambda>n. n < 2 ^ 31) bs \<Longrightarrow> list_all (\<lambda>n. n < 2 ^ 31) rs \<Longrightarrow>
   version_loop (map to_string_nat bs) (map to_string_nat rs) = Inr (take (length bs) rs \<le> bs)"
proof (induction bs arbitrary: rs)
  case (Cons b bs)
  then show ?case by (cases rs) (auto simp: stoi_to_string_nat)
qed simp

definition dotted :: "nat list \<Rightarrow> string" where
  "dotted ns = join_with (map to_string_nat ns) ''.''"

text \<open>
  On dotted numbers \<open>versionAtLeast\<close> is the lexicographic comparison of the components, as numbers
  and not as text, where components the build version does not have are not required; the version
  \<open>0.0.0\<close> on either side always passes.\<close>

theorem versionAtLeast_numeric:
  assumes "boost_ok bo" "rs \<noteq> []" "bs \<noteq> []" "list_all (\<lambda>n. n < 2 ^ 31) rs" "list_all (\<lambda>n. n < 2 ^ 31) bs"
  shows "versionAtLeast bo (dotted rs) (dotted bs) =
    Inr (dotted rs = ''0.0.0'' \<or> dotted bs = ''0.0.0'' \<or> take (length bs) rs \<le> bs)"
proof -
  have "osq_split bo (dotted ns) ''.'' = map to_string_nat ns" if "ns \<noteq> []" for ns
    unfolding dotted_def using assms(1) that by (intro osq_split_join) (auto simp: list_all_iff)
  then show ?thesis using assms by (simp add: versionAtLeast_def version_loop_numeric)
qed

theorem versionAtLeast_numeric_witness:
  "versionAtLeast boost_ref (dotted [5, 9]) (dotted [5, 18, 1]) = Inr True"
  using versionAtLeast_numeric [of boost_ref "[5, 9]" "[5, 18, 1]"] by simp

text \<open>
  \<open>vsplit\<close>, which walks the text by positions and makes no copies, gives the same parts as splitting
  at every separator and dropping the empty parts, and loses no byte but the separators.\<close>

theorem vsplit_splits:
  "vsplit s d = filter (\<lambda>t. t \<noteq> []) (tokens (\<lambda>c. c = d) s) \<and> concat (vsplit s d) = filter (\<lambda>c. c \<noteq> d) s"
proof -
  have "concat (filter (\<lambda>t. t \<noteq> []) (tokens (\<lambda>c. c = d) s)) = filter (\<lambda>c. c \<noteq> d) s"
    by (induction "\<lambda>c. c = d" s rule: tokens.induct) (auto split: list.splits if_splits)
  then show ?thesis by (simp add: vsplit_tokens)
qed

end
