(* ===== verification/Scheduler.thy ===== *)
theory Scheduler
  imports QueryHistory
begin

text \<open>
  Running scheduled queries: \<open>osquery/dispatcher/scheduler.cpp\<close> with the data of
  \<open>core/sql/scheduled_query.h\<close>, the shutdown request of \<open>core/shutdown.cpp\<close> and the escaping of results
  of \<open>sql/sql.cpp\<close> and \<open>sql/sqlite_util.cpp\<close>. Executing SQL (SQLite and the tables), the clock, the host
  identifier, the decorators and the logger plugins are inputs of a run.
\<close>

section \<open>Scheduled queries\<close>

record ScheduledQuery =
  sq_pack_name :: string
  sq_name :: string
  sq_query :: string
  sq_oncall :: string
  sq_interval :: u64
  sq_splayed_interval :: u64
  sq_startup_priority :: u64
  sq_denylisted :: bool
  sq_options :: "(string, bool) omap"

definition UINT64_MAX :: u64 where "UINT64_MAX = - 1"

definition ScheduledQuery_new :: "string \<Rightarrow> string \<Rightarrow> string \<Rightarrow> ScheduledQuery" where
  "ScheduledQuery_new pack_name name query =
     \<lparr>sq_pack_name = pack_name, sq_name = name, sq_query = query, sq_oncall = [], sq_interval = 0,
      sq_splayed_interval = 0, sq_startup_priority = UINT64_MAX, sq_denylisted = False, sq_options = []\<rparr>"

definition isSnapshotQuery :: "ScheduledQuery \<Rightarrow> bool" where
  "isSnapshotQuery q = (case om_get (sq_options q) ''snapshot'' of None \<Rightarrow> False | Some b \<Rightarrow> b)"

definition reportRemovedRows :: "ScheduledQuery \<Rightarrow> bool" where
  "reportRemovedRows q = (case om_get (sq_options q) ''removed'' of None \<Rightarrow> True | Some b \<Rightarrow> b)"

definition ScheduledQuery_eq :: "ScheduledQuery \<Rightarrow> ScheduledQuery \<Rightarrow> bool" where
  "ScheduledQuery_eq a b \<longleftrightarrow> sq_query b = sq_query a \<and> sq_interval b = sq_interval a"

section \<open>Shutdown requests\<close>

record ShutdownData =
  sd_requested :: bool
  sd_retcode :: int

definition setShutdownExitCode :: "int \<Rightarrow> ShutdownData \<Rightarrow> ShutdownData" where
  "setShutdownExitCode retcode s = s\<lparr>sd_retcode := retcode\<rparr>"

definition requestShutdown :: "int \<Rightarrow> ShutdownData \<Rightarrow> ShutdownData" where
  "requestShutdown retcode s =
     (if \<not> sd_requested s then (setShutdownExitCode retcode s)\<lparr>sd_requested := True\<rparr> else s)"

definition resetShutdown :: "ShutdownData \<Rightarrow> ShutdownData" where
  "resetShutdown s = s\<lparr>sd_requested := False\<rparr>"

definition EXIT_CATASTROPHIC :: int where "EXIT_CATASTROPHIC = 78"

section \<open>Escaping of results\<close>

definition hex_chars :: string where "hex_chars = ''0123456789ABCDEF''"

definition byte_nonprintable :: "char \<Rightarrow> bool" where
  "byte_nonprintable c \<longleftrightarrow> (of_char c :: nat) < 0x20 \<or> (of_char c :: nat) \<ge> 0x80"

definition escape_byte :: "char \<Rightarrow> string" where
  "escape_byte c =
     (if byte_nonprintable c
      then [CHR 0x5C, CHR ''x'', hex_chars ! (of_char c div 16), hex_chars ! (of_char c mod 16)]
      else [c])"

definition escapeNonPrintableBytes :: "string \<Rightarrow> string" where
  "escapeNonPrintableBytes data =
     (let escaped = concat (map escape_byte data)
      in if list_ex byte_nonprintable data then escaped else data)"

fun escape_value :: "RowDataTyped \<Rightarrow> RowDataTyped" where
  "escape_value (RInt i) = RInt i"
| "escape_value (RDouble d) = RDouble d"
| "escape_value (RString s) = RString (escapeNonPrintableBytes s)"

definition escapeResults :: "QueryDataTyped \<Rightarrow> QueryDataTyped" where
  "escapeResults rows = map (map (\<lambda>(k, v). (k, escape_value v))) rows"

fun value_size :: "RowDataTyped \<Rightarrow> u64" where
  "value_size (RInt _) = 8"
| "value_size (RDouble _) = 8"
| "value_size (RString s) = of_nat (length s)"

definition getSize :: "QueryDataTyped \<Rightarrow> u64" where
  "getSize rows = fold (fold (\<lambda>(k, v) size. size + of_nat (length k) + value_size v)) rows 0"

section \<open>Launching a query\<close>

text \<open>
  \<open>launch_input\<close>: what one run takes from the outside. \<open>li_log\<close> is the status the logger returns for
  an item (\<open>logQueryLogItem\<close>, \<open>logSnapshotQuery\<close>).
\<close>

record sql_result =
  sr_status :: Status
  sr_rows :: QueryDataTyped
  sr_eventBased :: bool

record launch_input =
  li_sql :: sql_result
  li_ident :: string
  li_time :: u64
  li_calendar :: string
  li_decorations :: "(string, string) omap"
  li_log :: "QueryLogItem \<Rightarrow> Status"

record 'd sched_env =
  se_db :: "'d db_env"
  se_format :: "rat \<Rightarrow> string"
  events_optimize :: bool
  schedule_epoch :: u64

record 'd sched_state =
  ss_db :: "'d db_process"
  ss_logged :: "QueryLogItem list"
  ss_shutdown :: ShutdownData

definition launch_item :: "'d sched_env \<Rightarrow> launch_input \<Rightarrow> string \<Rightarrow> QueryLogItem" where
  "launch_item se inp name =
     \<lparr>isSnapshot = False, item_results = \<lparr>added = [], removed = []\<rparr>, snapshot_results = [], item_name = name,
      item_identifier = li_ident inp, item_time = li_time inp, item_epoch = schedule_epoch se,
      item_counter = 0, calendar_time = li_calendar inp, decorations = li_decorations inp\<rparr>"

definition log_item :: "launch_input \<Rightarrow> QueryLogItem \<Rightarrow> 'd sched_state \<Rightarrow> Status \<times> 'd sched_state" where
  "log_item inp item s =
     (let status = li_log inp item;
          s1 = s\<lparr>ss_logged := ss_logged s @ [item]\<rparr>
      in (status, if ok status then s1
                  else s1\<lparr>ss_shutdown := requestShutdown EXIT_CATASTROPHIC (ss_shutdown s1)\<rparr>))"

definition launchQuery ::
  "'d sched_env \<Rightarrow> launch_input \<Rightarrow> string \<Rightarrow> ScheduledQuery \<Rightarrow> 'd sched_state
   \<Rightarrow> (Status \<times> 'd sched_state) throwing" where
  "launchQuery se inp name query s =
     (let sql = li_sql inp in
      if \<not> ok (sr_status sql) then Inr (failure ''Error executing scheduled query'', s)
      else let item = launch_item se inp name in
      if isSnapshotQuery query then
        Inr (log_item inp (item\<lparr>isSnapshot := True, snapshot_results := sr_rows sql\<rparr>) s)
      else let dbQuery = \<lparr>q_query = sq_query query, q_name = name\<rparr>;
               rows = escapeResults (sr_rows sql) in
        exn_bind
          (if \<not> events_optimize se \<or> \<not> sr_eventBased sql
           then addNewResults (se_db se) (se_format se) False dbQuery rows (item_epoch item) 1
                  (item_results item) (ss_db s)
           else addNewEvents (se_db se) False dbQuery rows (item_epoch item) 1 (item_results item) (ss_db s))
          (\<lambda>(status, counter, diff_results, db').
             let s1 = s\<lparr>ss_db := db',
                        ss_shutdown := (if ok status then ss_shutdown s
                                        else requestShutdown EXIT_CATASTROPHIC (ss_shutdown s))\<rparr>;
                 dr = (if reportRemovedRows query then diff_results else diff_results\<lparr>removed := []\<rparr>)
             in if hasNoResults dr \<and> counter \<noteq> 0 then Inr (status, s1)
                else Inr (log_item inp (item\<lparr>item_counter := counter, item_results := dr\<rparr>) s1)))"

section \<open>The scheduler's loop\<close>

text \<open>Times are in milliseconds; the second component is the pause, if any.\<close>

record SchedulerRunner =
  sch_interval :: int
  sch_timeout :: u64
  time_drift :: int
  max_time_drift :: int

definition SchedulerRunner_new :: "u64 \<Rightarrow> nat \<Rightarrow> int \<Rightarrow> SchedulerRunner" where
  "SchedulerRunner_new timeout interval max_drift =
     \<lparr>sch_interval = 1000 * int interval, sch_timeout = timeout, time_drift = 0, max_time_drift = max_drift\<rparr>"

definition calculateTimeDriftAndMaybePause :: "int \<Rightarrow> SchedulerRunner \<Rightarrow> int option \<times> SchedulerRunner" where
  "calculateTimeDriftAndMaybePause loop_step_duration r =
     (if loop_step_duration + time_drift r < sch_interval r
      then (Some (sch_interval r - loop_step_duration - time_drift r), r\<lparr>time_drift := 0\<rparr>)
      else let d = time_drift r + (loop_step_duration - sch_interval r)
           in (None, r\<lparr>time_drift := (if d > max_time_drift r then 0 else d)\<rparr>))"

text \<open>The periodic tasks of a step, in the order the loop calls them.\<close>

datatype sched_task = RunDecorators u64 | WaitLogRelay | ResetPrimary | ResetDatabase | RelayStatusLogs | ScheduleCarves

definition maybeRunDecorators :: "u64 \<Rightarrow> sched_task list" where
  "maybeRunDecorators time_step = (if time_step mod 60 = 0 then [RunDecorators time_step] else [])"

definition maybeReloadSchedule :: "u64 \<Rightarrow> bool \<Rightarrow> u64 \<Rightarrow> sched_task list" where
  "maybeReloadSchedule schedule_reload schedule_reload_sql time_step =
     (if schedule_reload > 0 \<and> time_step mod schedule_reload = 0
      then [WaitLogRelay] @ (if schedule_reload_sql then [ResetPrimary] else []) @ [ResetDatabase]
      else [])"

definition maybeFlushLogs :: "u64 \<Rightarrow> sched_task list" where
  "maybeFlushLogs time_step = (if time_step mod 3 = 0 then [RelayStatusLogs] else [])"

definition maybeScheduleCarves :: "u64 \<Rightarrow> sched_task list" where
  "maybeScheduleCarves time_step = (if time_step mod 60 = 0 then [ScheduleCarves] else [])"

definition step_tasks :: "u64 \<Rightarrow> bool \<Rightarrow> u64 \<Rightarrow> sched_task list" where
  "step_tasks schedule_reload schedule_reload_sql i =
     maybeRunDecorators i @ maybeReloadSchedule schedule_reload schedule_reload_sql i @ maybeFlushLogs i @
     maybeScheduleCarves i"

definition query_due :: "u64 \<Rightarrow> bool \<Rightarrow> ScheduledQuery \<Rightarrow> bool" where
  "query_due i query_has_not_run query \<longleftrightarrow>
     (sq_splayed_interval query > 0 \<and> i mod sq_splayed_interval query = 0) \<or>
     (sq_startup_priority query \<noteq> UINT64_MAX \<and> query_has_not_run)"

text \<open>
  One step of \<open>start\<close> over the schedule: the names launched, and the names that have run before. \<open>launch\<close>
  is the effect of launching a query on the rest of the state.
\<close>

fun run_schedule ::
  "(string \<Rightarrow> ScheduledQuery \<Rightarrow> 's \<Rightarrow> 's throwing) \<Rightarrow> u64 \<Rightarrow> (string \<times> ScheduledQuery) list \<Rightarrow> string set \<Rightarrow> 's
   \<Rightarrow> (string set \<times> 's) throwing" where
  "run_schedule launch i [] first_query_runs s = Inr (first_query_runs, s)"
| "run_schedule launch i ((name, query) # rest) first_query_runs s =
     (if query_due i (name \<notin> first_query_runs) query
      then exn_bind (launch name query s) (run_schedule launch i rest (insert name first_query_runs))
      else run_schedule launch i rest first_query_runs s)"

text \<open>
  The loop of \<open>start\<close>, with \<open>fuel\<close> bounding the number of steps: it ends when the time is past \<open>fin\<close>
  or the thread is interrupted after a step. \<open>duration\<close> is the time a step took, in milliseconds. None
  is a loop still running.
\<close>

record 's start_env =
  st_launch :: "string \<Rightarrow> ScheduledQuery \<Rightarrow> 's \<Rightarrow> 's throwing"
  st_schedule :: "u64 \<Rightarrow> (string \<times> ScheduledQuery) list"
  st_tasks :: "u64 \<Rightarrow> 's \<Rightarrow> 's throwing"
  st_duration :: "u64 \<Rightarrow> int"
  st_interrupted :: "u64 \<Rightarrow> bool"

fun start_loop ::
  "'s start_env \<Rightarrow> nat \<Rightarrow> u64 \<Rightarrow> u64 \<Rightarrow> SchedulerRunner \<Rightarrow> string set \<Rightarrow> 's
   \<Rightarrow> (SchedulerRunner \<times> 's) throwing option" where
  "start_loop env 0 fin i r runs s = None"
| "start_loop env (Suc fuel) fin i r runs s =
     (if fin = 0 \<or> i \<le> fin then
        (case run_schedule (st_launch env) i (st_schedule env i) runs s of
           Inl x \<Rightarrow> Some (Inl x)
         | Inr (runs', s1) \<Rightarrow>
             (case st_tasks env i s1 of
                Inl x \<Rightarrow> Some (Inl x)
              | Inr s2 \<Rightarrow>
                  (let r' = snd (calculateTimeDriftAndMaybePause (st_duration env i) r)
                   in if st_interrupted env i then Some (Inr (r', s2))
                      else start_loop env fuel fin (i + 1) r' runs' s2)))
      else Some (Inr (r, s)))"

definition start ::
  "'s start_env \<Rightarrow> nat \<Rightarrow> u64 \<Rightarrow> SchedulerRunner \<Rightarrow> 's \<Rightarrow> (SchedulerRunner \<times> 's) throwing option" where
  "start env fuel now r s =
     start_loop env fuel (if sch_timeout r = 0 then 0 else sch_timeout r + now) now r {} s"

section \<open>Escaped results\<close>

lemma hex_chars_printable: "n < 16 \<Longrightarrow> \<not> byte_nonprintable (hex_chars ! n)"
proof -
  assume "n < 16"
  then have "n \<in> set [0..<16]" by simp
  moreover have "list_all (\<lambda>n. \<not> byte_nonprintable (hex_chars ! n)) [0..<16]"
    by (simp add: hex_chars_def byte_nonprintable_def upt_rec)
  ultimately show ?thesis by (auto simp: list_all_iff)
qed

lemma escape_byte_printable: "x \<in> set (escape_byte c) \<Longrightarrow> \<not> byte_nonprintable x"
proof -
  have c: "(of_char c :: nat) < 256" by (rule nat_of_char_less_256)
  have "\<not> byte_nonprintable (CHR 0x5C)" "\<not> byte_nonprintable (CHR ''x'')"
    by (simp_all add: byte_nonprintable_def)
  moreover have "(of_char c :: nat) div 16 < 16" "(of_char c :: nat) mod 16 < 16"
    using c by (simp_all add: less_mult_imp_div_less)
  ultimately show "x \<in> set (escape_byte c) \<Longrightarrow> \<not> byte_nonprintable x"
    using hex_chars_printable by (auto simp: escape_byte_def split: if_splits)
qed

lemma escape_printable: "x \<in> set (escapeNonPrintableBytes s) \<Longrightarrow> \<not> byte_nonprintable x"
  using escape_byte_printable
  by (auto simp: escapeNonPrintableBytes_def Let_def list_ex_iff split: if_splits)

lemma escape_id: "\<forall>x \<in> set s. \<not> byte_nonprintable x \<Longrightarrow> escapeNonPrintableBytes s = s"
  by (auto simp: escapeNonPrintableBytes_def list_ex_iff)

lemma escape_no_nul: "no_nul (escapeNonPrintableBytes s)"
  using escape_printable [of "CHR 0x00" s] by (auto simp: no_nul_def byte_nonprintable_def)

definition columns_ok :: "QueryDataTyped \<Rightarrow> bool" where
  "columns_ok rows \<longleftrightarrow>
     list_all (\<lambda>r. om_wf r \<and> list_all (\<lambda>(k, v). k \<noteq> [] \<and> no_nul k \<and>
       (case v of RInt i \<Rightarrow> - (2 ^ 63) \<le> i \<and> i < 2 ^ 63 | _ \<Rightarrow> True)) r) rows"

lemma escaped_storable: "columns_ok rows \<Longrightarrow> storable (escapeResults rows)"
proof -
  have v: "value_storable (escape_value v)"
    if "case v of RInt i \<Rightarrow> - (2 ^ 63) \<le> i \<and> i < 2 ^ 63 | _ \<Rightarrow> True" for v
    using that by (cases v) (simp_all add: escape_no_nul)
  show "columns_ok rows \<Longrightarrow> storable (escapeResults rows)"
    using v by (fastforce simp: columns_ok_def storable_def escapeResults_def list_all_iff row_storable_def om_wf_map)
qed

section \<open>One run against the history\<close>

lemma diff_none:
  "added (diff (sort xs) ys) = [] \<Longrightarrow> removed (diff (sort xs) ys) = [] \<Longrightarrow> mset xs = mset ys"
  using diff_applied [of "sort xs" ys] by simp

lemma hist_step_rows: "hist_step q cur epoch c0 ho = (h', c', d') \<Longrightarrow> mset (h_rows h') = mset cur"
  by (auto simp: hist_step_def Let_def diff_none split: option.splits if_splits)

lemma unat_plus_one_le: "unat (w + 1 :: u64) \<le> unat w + 1"
  by (simp add: unat_word_ariths)

lemma hist_step_counter:
  "hist_step q cur epoch c0 ho = (h', c', d') \<Longrightarrow>
   unat (h_counter h') \<le> (case ho of None \<Rightarrow> 0 | Some h \<Rightarrow> unat (h_counter h) + 1)"
  using unat_plus_one_le by (auto simp: hist_step_def Let_def split: option.splits if_splits)

lemma diff_replay: "mset old - mset (removed (diff (sort old) cur)) + mset (added (diff (sort old) cur)) = mset cur"
  by (rule multiset_eqI) (simp add: diff_added diff_removed)

text \<open>What a reader of the log does with an item.\<close>

definition consume :: "QueryLogItem \<Rightarrow> RowTyped multiset \<Rightarrow> RowTyped multiset" where
  "consume item M =
     (if item_counter item = 0 then mset (added (item_results item))
      else M - mset (removed (item_results item)) + mset (added (item_results item)))"

lemma hist_step_replay:
  assumes "hist_step q cur epoch 1 ho = (h', c', d')"
    and "\<And>h. ho = Some h \<Longrightarrow> unat (h_counter h) + 1 < 2 ^ 64 \<and> M = mset (h_rows h)"
  shows "(if hasNoResults d' \<and> c' \<noteq> 0 then M
          else if c' = 0 then mset (added d') else M - mset (removed d') + mset (added d')) = mset cur"
proof -
  have "h_counter h + 1 \<noteq> 0" if "ho = Some h" for h
  proof
    assume "h_counter h + 1 = 0"
    then have "(word_of_nat (unat (h_counter h) + 1) :: u64) = 0" by (simp add: add.commute)
    then have "2 ^ 64 dvd unat (h_counter h) + 1" by (simp only: word_of_nat_eq_0_iff) simp
    then show False using assms(2) [OF that] dvd_imp_le [of "2 ^ 64" "unat (h_counter h) + 1"] by simp
  qed
  then show ?thesis
    using assms diff_replay
    by (auto dest: diff_none simp: hist_step_def Let_def hasNoResults_def split: option.splits if_splits)
qed

text \<open>The inputs of an ordinary run: the query worked, its column names are usable, logging works.\<close>

definition input_ok :: "'d sched_env \<Rightarrow> launch_input \<Rightarrow> bool" where
  "input_ok se inp \<longleftrightarrow>
     ok (sr_status (li_sql inp)) \<and> columns_ok (sr_rows (li_sql inp)) \<and>
     (events_optimize se \<longrightarrow> \<not> sr_eventBased (li_sql inp)) \<and> (\<forall>item. ok (li_log inp item))"

definition input_rows :: "launch_input \<Rightarrow> QueryDataTyped" where
  "input_rows inp = escapeResults (sr_rows (li_sql inp))"

lemma launch_step:
  assumes "db_ready eph_inv (ss_db s)" "de_ops (se_db se) = EphemeralDatabasePlugin" "rj_ok (de_rj (se_db se))"
    and "\<not> isSnapshotQuery query" "reportRemovedRows query" "input_ok se inp"
    and "hist_rel (de_rj (se_db se)) (db_view eph_look (ss_db s) kQueries) \<lparr>q_query = sq_query query, q_name = name\<rparr> ho"
    and step: "hist_step \<lparr>q_query = sq_query query, q_name = name\<rparr> (input_rows inp) (schedule_epoch se) 1 ho = (h', c', d')"
  shows "\<exists>st s'. launchQuery se inp name query s = Inr (st, s') \<and> ok st \<and> db_ready eph_inv (ss_db s') \<and>
    hist_rel (de_rj (se_db se)) (db_view eph_look (ss_db s') kQueries) \<lparr>q_query = sq_query query, q_name = name\<rparr> (Some h') \<and>
    ss_shutdown s' = ss_shutdown s \<and>
    ss_logged s' = ss_logged s @ (if hasNoResults d' \<and> c' \<noteq> 0 then []
      else [(launch_item se inp name)\<lparr>item_counter := c', item_results := d'\<rparr>])"
proof -
  let ?q = "\<lparr>q_query = sq_query query, q_name = name\<rparr>"
  have "storable (input_rows inp)" using assms(6) by (simp add: input_ok_def input_rows_def escaped_storable)
  then obtain p' where p': "addNewResults (se_db se) (se_format se) False ?q (input_rows inp) (schedule_epoch se) 1
      \<lparr>added = [], removed = []\<rparr> (ss_db s) = Inr (success, c', d', p')" "db_ready eph_inv p'"
    "hist_rel (de_rj (se_db se)) (db_view eph_look p' kQueries) ?q (Some h')"
    using eph.addNewResults_refines [OF assms(1-3) _ assms(7) step] by blast
  have run: "events_optimize se \<longrightarrow> \<not> sr_eventBased (li_sql inp)" "ok (sr_status (li_sql inp))"
    "\<And>item. ok (li_log inp item)" using assms(6) by (simp_all add: input_ok_def)
  have "launchQuery se inp name query s =
      (let s1 = s\<lparr>ss_db := p'\<rparr>
       in if hasNoResults d' \<and> c' \<noteq> 0 then Inr (success, s1)
          else Inr (log_item inp ((launch_item se inp name)\<lparr>item_counter := c', item_results := d'\<rparr>) s1))"
    using run(1,2) p'(1) assms(4,5)
    by (auto simp: launchQuery_def launch_item_def input_rows_def Let_def)
  then show ?thesis
    using p'(2,3) run(3) by (simp add: log_item_def Let_def)
qed

text \<open>A sequence of runs of one query; the epoch may change from run to run.\<close>

definition launch_runs ::
  "'d sched_env \<Rightarrow> string \<Rightarrow> ScheduledQuery \<Rightarrow> (u64 \<times> launch_input) list \<Rightarrow> 'd sched_state \<Rightarrow> 'd sched_state throwing" where
  "launch_runs se name query =
     exn_fold (\<lambda>(epoch, inp) s. exn_bind (launchQuery (se\<lparr>schedule_epoch := epoch\<rparr>) inp name query s) (\<lambda>(_, s'). Inr s'))"

lemma launch_runs_replay:
  assumes "de_ops (se_db se) = EphemeralDatabasePlugin" "rj_ok (de_rj (se_db se))"
    and "\<not> isSnapshotQuery query" "reportRemovedRows query" "\<forall>(ep, inp) \<in> set runs. input_ok se inp"
    and "db_ready eph_inv (ss_db s)"
    and "hist_rel (de_rj (se_db se)) (db_view eph_look (ss_db s) kQueries) \<lparr>q_query = sq_query query, q_name = name\<rparr> ho"
    and "\<And>h. ho = Some h \<Longrightarrow>
      unat (h_counter h) + length runs < 2 ^ 64 \<and> fold consume (ss_logged s) {#} = mset (h_rows h)"
    and "length runs < 2 ^ 64"
  shows "\<exists>s'. launch_runs se name query runs s = Inr s' \<and> db_ready eph_inv (ss_db s') \<and>
    ss_shutdown s' = ss_shutdown s \<and>
    (runs \<noteq> [] \<longrightarrow> fold consume (ss_logged s') {#} = mset (input_rows (snd (last runs))))"
  using assms(5-)
proof (induction runs arbitrary: s ho)
  case (Cons run runs)
  obtain ep inp where run: "run = (ep, inp)" by (cases run)
  let ?q = "\<lparr>q_query = sq_query query, q_name = name\<rparr>"
  let ?se = "se\<lparr>schedule_epoch := ep\<rparr>"
  obtain h' c' d' where st: "hist_step ?q (input_rows inp) ep 1 ho = (h', c', d')" by (cases "hist_step ?q (input_rows inp) ep 1 ho")
  have inp: "input_ok ?se inp" using Cons.prems(1) by (simp add: run input_ok_def)
  obtain st s1 where l: "launchQuery ?se inp name query s = Inr (st, s1)" "db_ready eph_inv (ss_db s1)"
    "ss_shutdown s1 = ss_shutdown s"
    "hist_rel (de_rj (se_db se)) (db_view eph_look (ss_db s1) kQueries) ?q (Some h')"
    and log: "ss_logged s1 = ss_logged s @ (if hasNoResults d' \<and> c' \<noteq> 0 then []
      else [(launch_item ?se inp name)\<lparr>item_counter := c', item_results := d'\<rparr>])"
    using launch_step [of s ?se query inp name ho h' c' d'] assms(1-4) inp Cons.prems st by auto
  have "(if hasNoResults d' \<and> c' \<noteq> 0 then fold consume (ss_logged s) {#}
         else if c' = 0 then mset (added d') else fold consume (ss_logged s) {#} - mset (removed d') + mset (added d')) =
        mset (input_rows inp)"
    by (rule hist_step_replay [OF st]) (use Cons.prems(4) in force)
  then have M: "fold consume (ss_logged s1) {#} = mset (input_rows inp)"
    by (auto simp: log consume_def split: if_splits)
  note cnt = hist_step_counter [OF st]
  have "\<exists>s'. launch_runs se name query runs s1 = Inr s' \<and> db_ready eph_inv (ss_db s') \<and>
    ss_shutdown s' = ss_shutdown s1 \<and>
    (runs \<noteq> [] \<longrightarrow> fold consume (ss_logged s') {#} = mset (input_rows (snd (last runs))))"
  proof (rule Cons.IH [OF _ l(2,4)])
    show "\<forall>(ep, inp) \<in> set runs. input_ok se inp" using Cons.prems(1) by simp
    show "unat (h_counter h) + length runs < 2 ^ 64 \<and> fold consume (ss_logged s1) {#} = mset (h_rows h)"
      if "Some h' = Some h" for h
      using that cnt M hist_step_rows [OF st] Cons.prems(4,5) by (cases ho) fastforce+
    show "length runs < 2 ^ 64" using Cons.prems(5) by simp
  qed
  then show ?case using l M by (auto simp: launch_runs_def run)
qed (simp add: launch_runs_def)

section \<open>Time drift\<close>

definition drift_ok :: "SchedulerRunner \<Rightarrow> bool" where
  "drift_ok r \<longleftrightarrow> 0 \<le> time_drift r \<and> time_drift r \<le> max_time_drift r \<and> 0 \<le> sch_interval r"

definition drift_add :: "int \<Rightarrow> int \<times> SchedulerRunner \<Rightarrow> int \<times> SchedulerRunner" where
  "drift_add d er =
     (let (pause, r') = calculateTimeDriftAndMaybePause d (snd er)
      in (fst er + d + (case pause of None \<Rightarrow> 0 | Some x \<Rightarrow> x), r'))"

definition drift_run :: "int list \<Rightarrow> SchedulerRunner \<Rightarrow> int \<times> SchedulerRunner" where
  "drift_run durations r = fold drift_add durations (0, r)"

lemma drift_step:
  assumes "drift_ok r" "0 \<le> d" "calculateTimeDriftAndMaybePause d r = (pause, r')"
  shows "drift_ok r' \<and> max_time_drift r' = max_time_drift r \<and> sch_interval r' = sch_interval r \<and>
    (\<forall>x. pause = Some x \<longrightarrow> 0 < x \<and> x \<le> sch_interval r) \<and>
    d + (case pause of None \<Rightarrow> 0 | Some x \<Rightarrow> x) \<ge> sch_interval r + (time_drift r' - time_drift r) \<and>
    (d + time_drift r \<le> sch_interval r + max_time_drift r \<longrightarrow>
     d + (case pause of None \<Rightarrow> 0 | Some x \<Rightarrow> x) = sch_interval r + (time_drift r' - time_drift r))"
  using assms by (auto simp: calculateTimeDriftAndMaybePause_def drift_ok_def Let_def split: if_splits)

lemma drift_fold:
  "drift_ok r \<Longrightarrow> list_all (\<lambda>d. 0 \<le> d) durations \<Longrightarrow> fold drift_add durations (t, r) = (t', r') \<Longrightarrow>
   drift_ok r' \<and> max_time_drift r' = max_time_drift r \<and>
   t' \<ge> t + sch_interval r * int (length durations) + time_drift r' - time_drift r"
proof (induction durations arbitrary: t r)
  case (Cons d durations)
  obtain pause r1 where c: "calculateTimeDriftAndMaybePause d r = (pause, r1)" by fastforce
  define t1 where "t1 = t + d + (case pause of None \<Rightarrow> 0 | Some x \<Rightarrow> x)"
  have "0 \<le> d" using Cons.prems by simp
  note step = drift_step [OF Cons.prems(1) this c]
  have "fold drift_add durations (t1, r1) = (t', r')"
    using Cons.prems(3) by (simp add: drift_add_def [of d] c t1_def)
  then have "drift_ok r' \<and> max_time_drift r' = max_time_drift r1 \<and>
      t' \<ge> t1 + sch_interval r1 * int (length durations) + time_drift r' - time_drift r1"
    using step Cons.prems(2) by (intro Cons.IH) auto
  moreover have "t1 \<ge> t + sch_interval r + (time_drift r1 - time_drift r)" using step by (simp add: t1_def)
  ultimately show ?case using step by (simp add: algebra_simps)
qed simp

section \<open>Properties\<close>


definition sample_input :: "QueryDataTyped \<Rightarrow> launch_input" where
  "sample_input rows =
     \<lparr>li_sql = \<lparr>sr_status = success, sr_rows = rows, sr_eventBased = False\<rparr>, li_ident = ''host'', li_time = 0,
      li_calendar = [], li_decorations = [], li_log = (\<lambda>_. success)\<rparr>"

definition sample_sched :: "ephemeral_db sched_env" where
  "sample_sched = \<lparr>se_db = eph_env, se_format = (\<lambda>_. []), events_optimize = True, schedule_epoch = 0\<rparr>"

lemma sample_input_ok: "columns_ok rows \<Longrightarrow> input_ok se (sample_input rows)"
  by (simp add: input_ok_def sample_input_def)

lemma sample_rows_columns: "columns_ok sample_rows"
  by (simp add: columns_ok_def sample_rows_def om_wf_def no_nul_def)


text \<open>
  Escaping makes every value printable and is stable: no byte of an escaped string is below 0x20 or
  above 0x7F, and escaping again changes nothing.
\<close>

theorem escapeNonPrintableBytes_printable:
  "(\<forall>c \<in> set (escapeNonPrintableBytes s). 0x20 \<le> (of_char c :: nat) \<and> (of_char c :: nat) < 0x80) \<and>
   escapeNonPrintableBytes (escapeNonPrintableBytes s) = escapeNonPrintableBytes s"
  using escape_printable [of _ s] escape_id [of "escapeNonPrintableBytes s"]
  by (fastforce simp: byte_nonprintable_def)

theorem escapeNonPrintableBytes_printable_witness:
  "escapeNonPrintableBytes [CHR 0x01, CHR ''a''] = [CHR 0x5C, CHR ''x'', CHR ''0'', CHR ''1'', CHR ''a''] \<and>
   escapeNonPrintableBytes (escapeNonPrintableBytes [CHR 0x01, CHR ''a'']) = escapeNonPrintableBytes [CHR 0x01, CHR ''a'']"
  using escapeNonPrintableBytes_printable [of "[CHR 0x01, CHR ''a'']"]
  by (simp add: escapeNonPrintableBytes_def escape_byte_def byte_nonprintable_def hex_chars_def)

text \<open>
  C6. The scheduler keeps its pace. Over any sequence of steps that take some time, the accumulated
  drift stays between zero and the maximum, and the time the steps and pauses take together is never
  shorter than one interval per step, counting the drift still to be made up.
\<close>

theorem scheduler_keeps_pace:
  assumes "drift_ok r" "list_all (\<lambda>d. 0 \<le> d) durations" "drift_run durations r = (elapsed, r')"
  shows "0 \<le> time_drift r' \<and> time_drift r' \<le> max_time_drift r \<and>
    elapsed \<ge> sch_interval r * int (length durations) + time_drift r' - time_drift r"
  using drift_fold [of r durations 0 elapsed r'] assms by (auto simp: drift_run_def drift_ok_def)

theorem scheduler_keeps_pace_witness:
  "0 \<le> time_drift (snd (drift_run [1500, 200, 700] (SchedulerRunner_new 0 1 60000))) \<and>
   fst (drift_run [1500, 200, 700] (SchedulerRunner_new 0 1 60000)) \<ge> 3000"
  using scheduler_keeps_pace [of "SchedulerRunner_new 0 1 60000" "[1500, 200, 700]"
      "fst (drift_run [1500, 200, 700] (SchedulerRunner_new 0 1 60000))"
      "snd (drift_run [1500, 200, 700] (SchedulerRunner_new 0 1 60000))"]
  by (simp add: SchedulerRunner_new_def drift_ok_def)

lemma run_schedule_total:
  "(\<And>n q s. \<exists>s'. launch n q s = Inr s') \<Longrightarrow> \<exists>r. run_schedule launch i sched runs s = Inr r"
proof (induction launch i sched runs s rule: run_schedule.induct)
  case (2 launch i name query rest runs s)
  obtain s' where "launch name query s = Inr s'" using "2.prems" by blast
  then show ?case using 2 by auto
qed simp

lemma start_loop_total:
  assumes "\<And>n q s. \<exists>s'. st_launch env n q s = Inr s'" "\<And>i s. \<exists>s'. st_tasks env i s = Inr s'"
  shows "fin \<noteq> 0 \<Longrightarrow> unat fin < 2 ^ 64 - 1 \<Longrightarrow> unat fin + 1 < fuel + unat i \<Longrightarrow> 0 < fuel \<Longrightarrow>
    \<exists>r' s'. start_loop env fuel fin i r runs s = Some (Inr (r', s'))"
proof (induction fuel arbitrary: i r runs s)
  case (Suc fuel)
  show ?case
  proof (cases "i \<le> fin")
    case False
    then show ?thesis using Suc.prems(1) by simp
  next
    case True
    obtain runs' s1 where 1: "run_schedule (st_launch env) i (st_schedule env i) runs s = Inr (runs', s1)"
      using run_schedule_total [of "st_launch env" i "st_schedule env i" runs s] assms(1) by fastforce
    obtain s2 where 2: "st_tasks env i s1 = Inr s2" using assms(2) by blast
    have le: "unat i \<le> unat fin" using True by (simp add: word_le_nat_alt)
    have "unat i + 1 < 2 ^ 64" using le Suc.prems(2) by simp
    then have ui: "unat (i + 1) = unat i + 1" by (simp add: unat_word_ariths)
    have "unat fin + 1 < fuel + unat (i + 1)" "0 < fuel" using Suc.prems(3) le ui by simp_all
    then have "\<exists>r' s'. start_loop env fuel fin (i + 1) (snd (calculateTimeDriftAndMaybePause (st_duration env i) r)) runs' s2 =
        Some (Inr (r', s'))"
      using Suc.IH Suc.prems(1,2) by blast
    then show ?thesis using True by (simp add: 1 2 Let_def)
  qed
qed simp

text \<open>
  A scheduler with a timeout ends: if launching a query and the periodic tasks do not throw, the
  loop returns after at most the timeout's number of seconds plus one more check, also when nothing
  interrupts it and whatever the schedule is. The hypothesis on the clock is that the end time is
  representable.
\<close>

theorem scheduler_timeout_ends:
  assumes "\<And>n q s. \<exists>s'. st_launch env n q s = Inr s'" "\<And>i s. \<exists>s'. st_tasks env i s = Inr s'"
    and "sch_timeout r \<noteq> 0" "unat (sch_timeout r) + unat now < 2 ^ 64 - 1"
  shows "\<exists>r' s'. start env (unat (sch_timeout r) + 2) now r s = Some (Inr (r', s'))"
proof -
  have u: "unat (sch_timeout r + now) = unat (sch_timeout r) + unat now"
    using assms(4) by (simp add: unat_word_ariths)
  have "unat (sch_timeout r) \<noteq> 0" using assms(3) by (simp add: unat_eq_0)
  then have "sch_timeout r + now \<noteq> 0" using u by (metis add_eq_0_iff_both_eq_0 unat_0)
  then show ?thesis
    unfolding start_def
    using start_loop_total [OF assms(1,2), of "sch_timeout r + now" "unat (sch_timeout r) + 2" now r "{}" s] u assms(3,4)
    by auto
qed

theorem scheduler_timeout_ends_witness:
  "\<exists>r' s'. start \<lparr>st_launch = (\<lambda>_ _ n. Inr (n + 1)), st_schedule = (\<lambda>_. []), st_tasks = (\<lambda>_ n. Inr n),
      st_duration = (\<lambda>_. 0), st_interrupted = (\<lambda>_. False)\<rparr> (unat (sch_timeout (SchedulerRunner_new 10 1 0)) + 2) 1700000000
      (SchedulerRunner_new 10 1 0) (0::nat) = Some (Inr (r', s'))"
  by (rule scheduler_timeout_ends) (simp_all add: SchedulerRunner_new_def)

end
