(* ===== verification/Packs.thy ===== *)
theory Packs
  imports Texts Scheduler
begin

text \<open>
  Query packs: \<open>osquery/config/packs.h\<close> and \<open>packs.cpp\<close>. A pack is built from a JSON object; its
  restrictions (shard, platform, version) decide whether it and each of its queries are kept, intervals
  are splayed once and remembered in the database, and discovery queries decide from time to time
  whether the pack runs. The clock, the random generator, the digest of the host name and the SQL of
  discovery queries are arguments.
\<close>

section \<open>Splayed intervals\<close>

text \<open>
  Arithmetic in \<open>float\<close>: a rational rounded to 24 significant bits, ties to even. \<open>f32_up\<close> scales a
  small number up; its fuel 149 is the exponent of the smallest number above zero.
\<close>

definition round_even :: "rat \<Rightarrow> int" where
  "round_even x =
     (let f = \<lfloor>x\<rfloor>; r = x - of_int f
      in if r < 1 / 2 then f else if r > 1 / 2 then f + 1 else if even f then f else f + 1)"

fun f32_up :: "nat \<Rightarrow> rat \<Rightarrow> rat" where
  "f32_up 0 x = of_int (round_even x)"
| "f32_up (Suc n) x = (if x \<ge> 2 ^ 23 then of_int (round_even x) else f32_up n (2 * x) / 2)"

fun f32_down :: "nat \<Rightarrow> rat \<Rightarrow> rat" where
  "f32_down 0 x = of_int (round_even x)"
| "f32_down (Suc n) x = (if x < 2 ^ 24 then of_int (round_even x) else 2 * f32_down n (x / 2))"

definition f32 :: "rat \<Rightarrow> rat" where
  "f32 x = (if x < 2 ^ 24 then f32_up 149 x else f32_down 104 x)"

definition kMaxQueryInterval :: u64 where "kMaxQueryInterval = 604800"

text \<open>\<open>draw\<close> is the draw of the uniform distribution between two bounds.\<close>

definition splayValue :: "(u64 \<Rightarrow> u64 \<Rightarrow> u64) \<Rightarrow> u64 \<Rightarrow> u64 \<Rightarrow> u64 throwing" where
  "splayValue draw original splayPercent =
     (if splayPercent = 0 \<or> splayPercent > 100 then Inr original
      else let percent_to_modify_by = f32 (of_nat (unat splayPercent) / 100);
               difference = \<lfloor>f32 (f32 (of_nat (unat original)) * percent_to_modify_by)\<rfloor>
           in if difference \<ge> 2 ^ 64 then Inl (undefined_behaviour ''conversion of a float out of range'')
              else let possible_difference = word_of_int difference;
                       max_value = original + possible_difference;
                       min_value = max 1 (original - possible_difference)
                   in if max_value = min_value then Inr max_value else Inr (draw min_value max_value))"

definition splay_key :: "string \<Rightarrow> string" where
  "splay_key name = ''interval.'' @ name"

definition longlong_value :: "string \<Rightarrow> int option" where
  "longlong_value s = (case object (tryTo_longlong (\<lambda>_. []) 10 s) of Inl v \<Rightarrow> Some v | Inr _ \<Rightarrow> None)"

definition restored_splay :: "boost_lib \<Rightarrow> string \<Rightarrow> u64 \<Rightarrow> u64 option" where
  "restored_splay bo content interval =
     (if content = [] then None
      else case osq_split bo content '':'' of
        [a, b] \<Rightarrow>
          (case (longlong_value a, longlong_value b) of
             (Some last_interval, Some last_splay) \<Rightarrow>
               if last_interval = sint interval \<and> last_splay > 0 then Some (word_of_int last_splay) else None
           | _ \<Rightarrow> None)
      | _ \<Rightarrow> None)"

record 'd pack_env =
  pk_db :: "'d db_env"
  pk_boost :: boost_lib
  pk_build :: platform_build
  pk_sdk_version :: string
  pk_hostname_digest :: string
  pk_draw :: "u64 \<Rightarrow> u64 \<Rightarrow> u64"
  schedule_default_interval :: u64
  pack_refresh_interval :: u64

text \<open>The flag \<open>schedule_splay_percent\<close> is written by the code: it is part of the state.\<close>

record 'd pack_world =
  pw_db :: "'d db_process"
  schedule_splay_percent :: u64

definition restoreSplayedValue ::
  "'d pack_env \<Rightarrow> string \<Rightarrow> u64 \<Rightarrow> 'd pack_world \<Rightarrow> (u64 \<times> 'd pack_world) throwing" where
  "restoreSplayedValue e name interval w =
     exn_bind (getDatabaseValue (pk_db e) False kPersistentSettings (splay_key name) [] (pw_db w))
       (\<lambda>(_, content, p1).
          case restored_splay (pk_boost e) content interval of
            Some s \<Rightarrow> Inr (s, w\<lparr>pw_db := p1\<rparr>)
          | None \<Rightarrow>
              exn_bind (splayValue (pk_draw e) interval (schedule_splay_percent w))
                (\<lambda>splay.
                   exn_bind (setDatabaseValue (pk_db e) False kPersistentSettings (splay_key name)
                       (to_string_u64 interval @ '':'' @ to_string_u64 splay) p1)
                     (\<lambda>(_, p2). Inr (splay, w\<lparr>pw_db := p2\<rparr>))))"

section \<open>The pack\<close>

record PackStats =
  ps_total :: u64
  ps_hits :: u64
  ps_misses :: u64

record Pack =
  discovery_queries :: "string list"
  schedule_queries :: "string list"
  pk_schedule :: "ScheduledQuery list"
  pk_platform :: string
  pk_version :: string
  pk_shard :: u64
  pk_name :: string
  pk_source :: string
  discovery_cache :: "u64 \<times> bool"
  pk_valid :: bool
  pk_active :: bool
  pk_stats :: PackStats

definition Pack_blank :: Pack where
  "Pack_blank =
     \<lparr>discovery_queries = [], schedule_queries = [], pk_schedule = [], pk_platform = [], pk_version = [],
      pk_shard = 0, pk_name = [], pk_source = [], discovery_cache = (0, False), pk_valid = False,
      pk_active = False, pk_stats = \<lparr>ps_total = 0, ps_hits = 0, ps_misses = 0\<rparr>\<rparr>"

text \<open>The shard of this machine: the first byte of the digest as a percentage. It is computed once.\<close>

definition getMachineShard :: "string \<Rightarrow> u64 \<Rightarrow> bool \<Rightarrow> u64" where
  "getMachineShard hn_hash shard force =
     (if shard > 0 \<and> \<not> force then shard
      else if length hn_hash \<ge> 2 then
        (case object (tryTo_longlong (\<lambda>_. []) 16 (take 2 hn_hash)) of
           Inl v \<Rightarrow> word_of_int (v * 100 div 255)
         | Inr _ \<Rightarrow> shard)
      else shard)"

abbreviation machine_shard :: "'d pack_env \<Rightarrow> u64" where
  "machine_shard e \<equiv> getMachineShard (pk_hostname_digest e) 0 False"

definition pack_checkVersion :: "'d pack_env \<Rightarrow> string \<Rightarrow> bool throwing" where
  "pack_checkVersion e version =
     (if version = [] \<or> version = ''null'' then Inr True
      else versionAtLeast (pk_boost e) version (pk_sdk_version e))"

definition string_member :: "members \<Rightarrow> string \<Rightarrow> string option" where
  "string_member ms k = (case FindMember ms k of Some (JString s) \<Rightarrow> Some (c_str s) | _ \<Rightarrow> None)"

definition size_member :: "members \<Rightarrow> string \<Rightarrow> u64 \<Rightarrow> u64 throwing" where
  "size_member ms k fallback = (case FindMember ms k of None \<Rightarrow> Inr fallback | Some v \<Rightarrow> valueToSize v)"

definition bool_member :: "members \<Rightarrow> string \<Rightarrow> bool \<Rightarrow> bool throwing" where
  "bool_member ms k fallback = (case FindMember ms k of None \<Rightarrow> Inr fallback | Some v \<Rightarrow> valueToBool v)"

text \<open>Whether the restrictions of a query leave it out, tested in this order.\<close>

definition query_excluded :: "'d pack_env \<Rightarrow> members \<Rightarrow> bool throwing" where
  "query_excluded e ms =
     exn_bind (size_member ms ''shard'' 0)
       (\<lambda>shard.
          if shard > 0 \<and> shard < machine_shard e then Inr True
          else if (case string_member ms ''platform'' of
                     Some pl \<Rightarrow> \<not> checkPlatform (pk_build e) pl | None \<Rightarrow> False) then Inr True
          else case string_member ms ''version'' of
                 Some v \<Rightarrow> exn_bind (pack_checkVersion e v) (\<lambda>b. Inr (\<not> b))
               | None \<Rightarrow> Inr False)"

definition query_options :: "members \<Rightarrow> ScheduledQuery \<Rightarrow> ScheduledQuery throwing" where
  "query_options ms q =
     exn_bind (bool_member ms ''snapshot'' False)
       (\<lambda>snapshot. exn_bind (bool_member ms ''removed'' True)
         (\<lambda>rem. exn_bind (bool_member ms ''denylist'' True)
           (\<lambda>deny. exn_bind (size_member ms ''startup_priority'' (sq_startup_priority q))
             (\<lambda>prio. Inr (q\<lparr>sq_options :=
                 om_set ''denylist'' deny (om_set ''removed'' rem (om_set ''snapshot'' snapshot (sq_options q))),
               sq_startup_priority := prio\<rparr>)))))"

text \<open>The second half of the loop's body: from the interval to the scheduled query.\<close>

definition pack_query_add ::
  "'d pack_env \<Rightarrow> string \<Rightarrow> string \<Rightarrow> members \<Rightarrow> string \<Rightarrow> Pack \<times> 'd pack_world \<Rightarrow> (Pack \<times> 'd pack_world) throwing" where
  "pack_query_add e oncall query_name ms sql pw =
     exn_bind (size_member ms ''interval'' (schedule_default_interval e))
       (\<lambda>interval.
          let (pk, w) = pw
          in if interval = 0 \<or> sql = [] \<or> interval > kMaxQueryInterval then Inr pw
             else if query_name \<in> set (schedule_queries pk) then Inr pw
             else exn_bind (restoreSplayedValue e query_name interval w)
               (\<lambda>(splay, w1).
                  exn_bind (query_options ms
                      ((ScheduledQuery_new (pk_name pk) query_name sql)\<lparr>sq_oncall := oncall,
                         sq_interval := interval, sq_splayed_interval := splay\<rparr>))
                    (\<lambda>query. Inr (pk\<lparr>schedule_queries := query_name # schedule_queries pk,
                                     pk_schedule := pk_schedule pk @ [query]\<rparr>, w1))))"

definition pack_query ::
  "'d pack_env \<Rightarrow> string \<Rightarrow> string \<times> json \<Rightarrow> Pack \<times> 'd pack_world \<Rightarrow> (Pack \<times> 'd pack_world) throwing" where
  "pack_query e oncall q pw =
     (case snd q of
        JObject ms \<Rightarrow>
          exn_bind (query_excluded e ms)
            (\<lambda>excluded.
               if excluded then Inr pw
               else case string_member ms ''query'' of
                      None \<Rightarrow> Inr pw
                    | Some sql \<Rightarrow> pack_query_add e oncall (c_str (fst q)) ms sql pw)
      | _ \<Rightarrow> Inr pw)"

text \<open>An exception ends the loop; what was written to the store before stays.\<close>

fun pack_queries ::
  "'d pack_env \<Rightarrow> string \<Rightarrow> members \<Rightarrow> Pack \<times> 'd pack_world \<Rightarrow> cpp_exn option \<times> Pack \<times> 'd pack_world" where
  "pack_queries e oncall [] pw = (None, pw)"
| "pack_queries e oncall (q # qs) pw =
     (case pack_query e oncall q pw of
        Inr pw' \<Rightarrow> pack_queries e oncall qs pw'
      | Inl ex \<Rightarrow> (Some ex, pw))"

definition schedule_order :: "ScheduledQuery \<Rightarrow> u64 \<times> string" where
  "schedule_order q = (sq_startup_priority q, sq_name q)"

definition string_items :: "json \<Rightarrow> string list" where
  "string_items j =
     (case j of JArray js \<Rightarrow> map c_str (List.map_filter (\<lambda>x. case x of JString s \<Rightarrow> Some s | _ \<Rightarrow> None) js)
      | _ \<Rightarrow> [])"

definition pack_fill ::
  "'d pack_env \<Rightarrow> string \<Rightarrow> members \<Rightarrow> Pack \<times> 'd pack_world \<Rightarrow> (cpp_exn + Pack) \<times> 'd pack_world" where
  "pack_fill e oncall ms pw =
     (case FindMember ms ''queries'' of
        Some (JObject queries) \<Rightarrow>
          (case pack_queries e oncall queries pw of
             (None, pk, w) \<Rightarrow> (Inr (pk\<lparr>pk_schedule := sort_key schedule_order (pk_schedule pk)\<rparr>), w)
           | (Some ex, _, w) \<Rightarrow> (Inl ex, w))
      | _ \<Rightarrow> (Inr (fst pw), snd pw))"

definition Pack_initialize ::
  "'d pack_env \<Rightarrow> string \<Rightarrow> string \<Rightarrow> members \<Rightarrow> 'd pack_world \<Rightarrow> (cpp_exn + Pack) \<times> 'd pack_world" where
  "Pack_initialize e name source ms w =
     (case size_member ms ''shard'' 0 of
        Inl ex \<Rightarrow> (Inl ex, w)
      | Inr shard \<Rightarrow>
          (let platform = (case string_member ms ''platform'' of Some s \<Rightarrow> s | None \<Rightarrow> []);
               version = (case string_member ms ''version'' of Some s \<Rightarrow> s | None \<Rightarrow> []);
               oncall = (case string_member ms ''oncall'' of Some s \<Rightarrow> s | None \<Rightarrow> ''unknown'');
               pk = Pack_blank\<lparr>pk_name := name, pk_source := source, pk_shard := shard, pk_platform := platform,
                      pk_version := version\<rparr>
           in if (shard > 0 \<and> shard < machine_shard e) \<or> \<not> checkPlatform (pk_build e) platform then (Inr pk, w)
              else case pack_checkVersion e version of
                Inl ex \<Rightarrow> (Inl ex, w)
              | Inr False \<Rightarrow> (Inr pk, w)
              | Inr True \<Rightarrow>
                  (let pk1 = pk\<lparr>discovery_queries :=
                         (case FindMember ms ''discovery'' of Some j \<Rightarrow> string_items j | None \<Rightarrow> []),
                         discovery_cache := (0, False), pk_valid := True\<rparr>;
                       w1 = (if schedule_splay_percent w \<le> 1 then w\<lparr>schedule_splay_percent := 10\<rparr> else w)
                   in pack_fill e oncall ms (pk1, w1))))"

section \<open>Discovery\<close>

text \<open>\<open>sql\<close> gives for a discovery query whether it ran and how many rows it had.\<close>

fun discovery_passes :: "(string \<Rightarrow> bool \<times> nat) \<Rightarrow> string list \<Rightarrow> bool" where
  "discovery_passes sql [] = True"
| "discovery_passes sql (q # qs) =
     (let (ran, rows) = sql q
      in if \<not> ran then False else if rows = 0 then False else discovery_passes sql qs)"

definition checkDiscovery :: "u64 \<Rightarrow> u64 \<Rightarrow> (string \<Rightarrow> bool \<times> nat) \<Rightarrow> Pack \<Rightarrow> bool \<times> Pack" where
  "checkDiscovery refresh current sql pk =
     (let st = (pk_stats pk)\<lparr>ps_total := ps_total (pk_stats pk) + 1\<rparr>
      in if current - fst (discovery_cache pk) < refresh
         then (snd (discovery_cache pk), pk\<lparr>pk_stats := st\<lparr>ps_hits := ps_hits st + 1\<rparr>\<rparr>)
         else let found = discovery_passes sql (discovery_queries pk)
              in (found, pk\<lparr>pk_stats := st\<lparr>ps_misses := ps_misses st + 1\<rparr>, discovery_cache := (current, found)\<rparr>))"

definition shouldPackExecute :: "u64 \<Rightarrow> u64 \<Rightarrow> (string \<Rightarrow> bool \<times> nat) \<Rightarrow> Pack \<Rightarrow> bool \<times> Pack" where
  "shouldPackExecute refresh current sql pk =
     (if \<not> pk_valid pk then (False, pk\<lparr>pk_active := False\<rparr>)
      else let (found, pk1) = checkDiscovery refresh current sql pk in (found, pk1\<lparr>pk_active := found\<rparr>))"

section \<open>Splays\<close>

lemma round_even_le: "x \<le> of_int n \<Longrightarrow> round_even x \<le> n"
proof -
  assume x: "x \<le> of_int n"
  have f: "of_int \<lfloor>x\<rfloor> \<le> x" "x < of_int \<lfloor>x\<rfloor> + 1" by linarith+
  show ?thesis
  proof (cases "\<lfloor>x\<rfloor> = n")
    case True
    then have "x = of_int n" using x f by simp
    then show ?thesis by (simp add: round_even_def)
  next
    case False
    moreover have "\<lfloor>x\<rfloor> \<le> n" using x floor_mono [OF x] by simp
    ultimately have "\<lfloor>x\<rfloor> + 1 \<le> n" by simp
    then show ?thesis by (auto simp: round_even_def Let_def)
  qed
qed

lemma f32_up_le: "x \<le> of_int n \<Longrightarrow> f32_up k x \<le> of_int n"
proof (induction k arbitrary: x n)
  case (Suc k)
  have "2 * x \<le> of_int (2 * n)" using Suc.prems by simp
  then have "f32_up k (2 * x) \<le> of_int (2 * n)" by (rule Suc.IH)
  then show ?case using round_even_le [OF Suc.prems] by simp
qed (simp add: round_even_le)

lemma round_even_nonneg: "0 \<le> x \<Longrightarrow> 0 \<le> round_even x"
  by (auto simp: round_even_def Let_def)

lemma f32_up_nonneg: "0 \<le> x \<Longrightarrow> 0 \<le> f32_up k x"
  by (induction k arbitrary: x) (auto simp: round_even_nonneg)

lemma round_even_int: "round_even (of_int i) = i"
  by (simp add: round_even_def)

lemma f32_up_int: "f32_up k (of_int i) = of_int i"
proof (induction k arbitrary: i)
  case (Suc k)
  from Suc [of "2 * i"] show ?case by (simp add: round_even_int)
qed (simp add: round_even_int)

text \<open>Up to the longest interval the difference is at most the interval.\<close>

lemma splay_difference:
  assumes "0 < percent" "percent \<le> 100" "i \<le> 604800"
  defines "d \<equiv> \<lfloor>f32 (f32 (of_nat i) * f32 (of_nat percent / 100))\<rfloor>"
  shows "0 \<le> d" "d \<le> int i"
proof -
  let ?p = "f32 (of_nat percent / 100) :: rat"
  have "of_nat percent / 100 \<le> (of_int 1 :: rat)" using assms(2) by simp
  then have p: "0 \<le> ?p" "?p \<le> 1"
    using f32_up_le [of "of_nat percent / 100" 1] f32_up_nonneg [of "of_nat percent / 100"]
    by (simp_all add: f32_def)
  have i: "f32 (of_nat i) = (of_nat i :: rat)"
    using f32_up_int [of 149 "int i"] assms(3) by (simp add: f32_def)
  have le: "of_nat i * ?p \<le> of_int (int i)" using p by (simp add: mult_left_le)
  moreover have "(of_nat i :: rat) < 2 ^ 24" using assms(3) by simp
  ultimately have small: "of_nat i * ?p < 2 ^ 24" by simp
  have "f32 (of_nat i * ?p) \<le> of_int (int i)"
    using f32_up_le [OF le] small by (simp add: f32_def [of "of_nat i * ?p"])
  then show "d \<le> int i" unfolding d_def i by (simp add: floor_le_iff)
  have "0 \<le> f32 (of_nat i * ?p)"
    using f32_up_nonneg [of "of_nat i * ?p"] p small by (simp add: f32_def [of "of_nat i * ?p"])
  then show "0 \<le> d" unfolding d_def i by simp
qed

definition draw_ok :: "(u64 \<Rightarrow> u64 \<Rightarrow> u64) \<Rightarrow> bool" where
  "draw_ok draw \<longleftrightarrow> (\<forall>a b. a \<le> b \<longrightarrow> a \<le> draw a b \<and> draw a b \<le> b)"

lemma splayValue_bounds:
  assumes "draw_ok draw" "0 < interval" "interval \<le> kMaxQueryInterval"
  obtains s where "splayValue draw interval percent = Inr s" "1 \<le> s" "unat s \<le> 2 * unat interval"
proof (cases "percent = 0 \<or> percent > 100")
  case True
  moreover have "1 \<le> interval" using assms(2) inc_le by force
  ultimately show ?thesis using that [of interval] by (simp add: splayValue_def)
next
  case False
  let ?i = "unat interval"
  define d where "d = \<lfloor>f32 (f32 (of_nat ?i) * f32 (of_nat (unat percent) / 100))\<rfloor>"
  have pc: "0 < unat percent" "unat percent \<le> 100" using False by (auto simp: unat_gt_0 word_le_nat_alt not_less)
  have i: "?i \<le> 604800" using assms(3) by (simp add: kMaxQueryInterval_def word_le_nat_alt)
  have d: "0 \<le> d" "d \<le> int ?i" using splay_difference [OF pc i] by (simp_all add: d_def)
  define pd :: u64 where "pd = word_of_int d"
  have "d < 18446744073709551616" using d i by linarith
  then have "d mod 18446744073709551616 = d" using d(1) by simp
  then have pd: "unat pd = nat d" by (simp add: pd_def unat_eq_nat_uint uint_word_of_int)
  have "nat d \<le> ?i" using d by linarith
  then have sub: "unat (interval - pd) = ?i - nat d" using pd unat_sub [of pd interval] by (simp add: word_le_nat_alt)
  have add: "unat (interval + pd) = ?i + nat d"
    using \<open>nat d \<le> ?i\<close> i pd unat_add_lem [of interval pd] by simp
  have bounds: "max 1 (interval - pd) \<le> interval + pd"
    using add sub assms(2) by (auto simp: word_le_nat_alt word_less_nat_alt max_def)
  have eq: "splayValue draw interval percent =
      (if interval + pd = max 1 (interval - pd) then Inr (interval + pd)
       else Inr (draw (max 1 (interval - pd)) (interval + pd)))"
    using False \<open>d < 18446744073709551616\<close>
    unfolding splayValue_def Let_def d_def [symmetric] pd_def [symmetric] by (simp only: if_False) simp
  have up: "unat (interval + pd) \<le> 2 * ?i" using add \<open>nat d \<le> ?i\<close> by simp
  have one: "(1 :: u64) \<le> max 1 (interval - pd)" by simp
  show thesis
  proof (cases "interval + pd = max 1 (interval - pd)")
    case True
    then show thesis using up one eq that [of "interval + pd"] by simp
  next
    case False
    have "max 1 (interval - pd) \<le> draw (max 1 (interval - pd)) (interval + pd)"
      "draw (max 1 (interval - pd)) (interval + pd) \<le> interval + pd"
      using assms(1) bounds unfolding draw_ok_def by blast+
    then show thesis using False eq up one that [of "draw (max 1 (interval - pd)) (interval + pd)"]
      by (auto simp: word_le_nat_alt)
  qed
qed

section \<open>Stored splays\<close>

lemma uint_above: "- (2 ^ 63) \<le> uint (w :: u64)"
  by (rule order_trans [OF _ uint_ge_0]) simp

lemma longlong_value_u64:
  "w < 2 ^ 63 \<Longrightarrow> longlong_value (to_string_u64 w) = Some (uint w)"
proof -
  assume "w < 2 ^ 63"
  then have b: "uint w < 2 ^ 63" by (simp add: word_less_def)
  have "to_string_u64 w = to_string_int (uint w)"
    by (simp add: to_string_u64_def to_string_int_def)
  moreover have "- (2 ^ 63) \<le> uint w" by (rule uint_above)
  ultimately show ?thesis using b stosigned_to_string [of 64 "uint w"]
    by (simp add: longlong_value_def tryTo_longlong_def tryTo_catch_def throwingStringToInt_longlong_def stoll_def
        Expected_value_def)
qed

lemma restored_splay_pos: "restored_splay bo c interval = Some s \<Longrightarrow> 1 \<le> s"
proof -
  assume "restored_splay bo c interval = Some s"
  then obtain b v where v: "longlong_value b = Some v" "0 < v" "s = word_of_int v"
    by (auto simp: restored_splay_def split: if_splits list.splits option.splits)
  have "v < 2 ^ 63"
    using v(1) stosigned_range [of 64 10 b v]
    by (auto simp: longlong_value_def tryTo_longlong_def throwingStringToInt_longlong_def stoll_def
        tryTo_catch_object split: sum.splits)
  then have "uint s = v" using v by (simp add: uint_word_of_int)
  then show ?thesis using v(2) by (simp add: word_le_def)
qed

lemma restored_splay_stored:
  assumes "boost_ok bo" "interval < 2 ^ 63" "s < 2 ^ 63" "1 \<le> s"
  shows "restored_splay bo (to_string_u64 interval @ '':'' @ to_string_u64 s) interval = Some s"
proof -
  have "osq_split bo (join_with [to_string_u64 interval, to_string_u64 s] '':'') '':'' =
      [to_string_u64 interval, to_string_u64 s]"
    using assms(1) by (intro osq_split_join) simp_all
  moreover have "sint interval = uint interval"
  proof -
    have "uint interval < 2 ^ 63" "- (2 ^ 63) \<le> uint interval"
      using assms(2) uint_above [of interval] by (simp_all add: word_less_def)
    then show ?thesis by (simp add: sint_uint signed_take_bit_int_eq_self)
  qed
  moreover have "0 < uint s" using assms(4) by (simp add: word_le_def)
  ultimately show ?thesis using assms(2,3) by (simp add: restored_splay_def longlong_value_u64)
qed

text \<open>What a client of the splay cache gets from a reliable store.\<close>

context reliable_database
begin

lemma restoreSplayedValue_ok:
  assumes "db_ready ok_db (pw_db w)" "de_ops (pk_db e) = ops" "draw_ok (pk_draw e)"
    and "0 < interval" "interval \<le> kMaxQueryInterval"
  obtains s w' where "restoreSplayedValue e name interval w = Inr (s, w')" "1 \<le> s"
    "db_ready ok_db (pw_db w')" "schedule_splay_percent w' = schedule_splay_percent w"
    "(\<exists>c. db_view look (pw_db w) kPersistentSettings (splay_key name) = Some c \<and>
        restored_splay (pk_boost e) c interval = Some s \<and> w' = w) \<or>
     db_view look (pw_db w') = view_put kPersistentSettings
       [(splay_key name, to_string_u64 interval @ '':'' @ to_string_u64 s)] (db_view look (pw_db w)) \<and>
     unat s \<le> 2 * unat interval"
proof -
  let ?c = "case db_view look (pw_db w) kPersistentSettings (splay_key name) of Some v \<Rightarrow> v | None \<Rightarrow> []"
  obtain st where g: "getDatabaseValue (pk_db e) False kPersistentSettings (splay_key name) [] (pw_db w) =
      Inr (st, ?c, pw_db w)"
    using get_value [OF assms(1,2), of kPersistentSettings False "splay_key name"] by auto
  show thesis
  proof (cases "restored_splay (pk_boost e) ?c interval")
    case (Some s)
    have "1 \<le> s" by (rule restored_splay_pos [OF Some])
    moreover obtain c where c: "db_view look (pw_db w) kPersistentSettings (splay_key name) = Some c"
      using Some by (cases "db_view look (pw_db w) kPersistentSettings (splay_key name)")
        (auto simp: restored_splay_def)
    ultimately show thesis
      using Some assms(1) c g by (intro that [of s w]) (auto simp: restoreSplayedValue_def)
  next
    case None
    obtain s where s: "splayValue (pk_draw e) interval (schedule_splay_percent w) = Inr s" "1 \<le> s"
      "unat s \<le> 2 * unat interval"
      by (rule splayValue_bounds [OF assms(3-5)])
    define v where "v = to_string_u64 interval @ '':'' @ to_string_u64 s"
    obtain st2 p2 where p2: "setDatabaseValue (pk_db e) False kPersistentSettings (splay_key name) v (pw_db w) =
        Inr (st2, p2)" "db_ready ok_db p2"
      "db_view look p2 = view_put kPersistentSettings [(splay_key name, v)] (db_view look (pw_db w))"
      using set_value [OF assms(1,2), of kPersistentSettings "splay_key name" v] by auto
    show thesis
      using None s p2 that [of s "w\<lparr>pw_db := p2\<rparr>"] by (simp add: restoreSplayedValue_def g v_def)
  qed
qed

end

section \<open>Packs are well-formed\<close>

text \<open>What every scheduled query of a pack satisfies.\<close>

definition scheduled_ok :: "ScheduledQuery \<Rightarrow> bool" where
  "scheduled_ok q \<longleftrightarrow>
     0 < sq_interval q \<and> sq_interval q \<le> kMaxQueryInterval \<and> 0 < sq_splayed_interval q \<and> sq_query q \<noteq> [] \<and>
     om_keys (sq_options q) = [''denylist'', ''removed'', ''snapshot''] \<and> \<not> sq_denylisted q"

definition pack_inv :: "Pack \<Rightarrow> bool" where
  "pack_inv pk \<longleftrightarrow>
     distinct (map sq_name (pk_schedule pk)) \<and> sq_name ` set (pk_schedule pk) \<subseteq> set (schedule_queries pk) \<and>
     list_all (\<lambda>q. scheduled_ok q \<and> sq_pack_name q = pk_name pk) (pk_schedule pk)"

lemma query_options_ok:
  assumes "query_options ms q = Inr q'" "sq_options q = []"
  shows "om_keys (sq_options q') = [''denylist'', ''removed'', ''snapshot'']"
    "sq_name q' = sq_name q" "sq_pack_name q' = sq_pack_name q" "sq_query q' = sq_query q"
    "sq_interval q' = sq_interval q" "sq_splayed_interval q' = sq_splayed_interval q"
    "sq_denylisted q' = sq_denylisted q"
  using assms by (auto simp: query_options_def exn_bind_Inr_iff om_keys_def)

context reliable_database
begin

lemma pack_query_add_inv:
  assumes "pack_query_add e oncall n ms sql (pk, w) = Inr (pk', w')" "pack_inv pk"
    and "db_ready ok_db (pw_db w)" "de_ops (pk_db e) = ops" "draw_ok (pk_draw e)"
  shows "pack_inv pk' \<and> db_ready ok_db (pw_db w') \<and> pk_name pk' = pk_name pk \<and> pk_valid pk' = pk_valid pk"
proof (cases "(pk', w') = (pk, w)")
  case False
  obtain interval splay query where
    q: "interval \<noteq> 0" "interval \<le> kMaxQueryInterval" "sql \<noteq> []" "n \<notin> set (schedule_queries pk)"
    "restoreSplayedValue e n interval w = Inr (splay, w')"
    "query_options ms ((ScheduledQuery_new (pk_name pk) n sql)\<lparr>sq_oncall := oncall,
       sq_interval := interval, sq_splayed_interval := splay\<rparr>) = Inr query"
    "pk' = pk\<lparr>schedule_queries := n # schedule_queries pk, pk_schedule := pk_schedule pk @ [query]\<rparr>"
    using assms(1) False by (auto simp: pack_query_add_def exn_bind_Inr_iff Let_def split: if_splits)
  have "0 < interval" using q(1) by (simp add: word_gt_0)
  then have s: "1 \<le> splay" "db_ready ok_db (pw_db w')"
    using restoreSplayedValue_ok [OF assms(3-5) _ q(2), of n] q(5) by (metis prod.inject sum.inject(2))+
  note opt = query_options_ok [OF q(6)]
  have "scheduled_ok query" "sq_name query = n" "sq_pack_name query = pk_name pk"
    using opt q(1-3) s(1) by (auto simp: scheduled_ok_def ScheduledQuery_new_def word_gt_0 word_le_def)
  then show ?thesis using assms(2) q(4,7) s(2) by (auto simp: pack_inv_def)
qed (use assms in auto)

lemma pack_query_inv:
  assumes "pack_query e oncall q (pk, w) = Inr (pk', w')" "pack_inv pk"
    and "db_ready ok_db (pw_db w)" "de_ops (pk_db e) = ops" "draw_ok (pk_draw e)"
  shows "pack_inv pk' \<and> db_ready ok_db (pw_db w') \<and> pk_name pk' = pk_name pk \<and> pk_valid pk' = pk_valid pk"
proof (cases "(pk', w') = (pk, w)")
  case False
  then obtain ms sql where "pack_query_add e oncall (c_str (fst q)) ms sql (pk, w) = Inr (pk', w')"
    using assms(1) by (auto simp: pack_query_def exn_bind_Inr_iff split: json.splits if_splits option.splits)
  then show ?thesis using assms(2-) by (rule pack_query_add_inv)
qed (use assms in auto)

lemma pack_queries_inv:
  "pack_queries e oncall qs (pk, w) = (ex, pk', w') \<Longrightarrow> pack_inv pk \<Longrightarrow> db_ready ok_db (pw_db w) \<Longrightarrow>
   de_ops (pk_db e) = ops \<Longrightarrow> draw_ok (pk_draw e) \<Longrightarrow>
   pack_inv pk' \<and> db_ready ok_db (pw_db w') \<and> pk_name pk' = pk_name pk \<and> pk_valid pk' = pk_valid pk"
proof (induction qs arbitrary: pk w)
  case (Cons q qs)
  show ?case
  proof (cases "pack_query e oncall q (pk, w)")
    case (Inr r)
    obtain pk1 w1 where 1: "pack_query e oncall q (pk, w) = Inr (pk1, w1)" using Inr by (cases r) simp
    then show ?thesis using Cons.IH [of pk1 w1] pack_query_inv [OF 1] Cons.prems by simp
  qed (use Cons.prems in simp)
qed auto

lemma pack_fill_inv:
  assumes "pack_fill e oncall ms (pk, w) = (r, w')" "pk_schedule pk = []"
    and "db_ready ok_db (pw_db w)" "de_ops (pk_db e) = ops" "draw_ok (pk_draw e)"
  shows "db_ready ok_db (pw_db w') \<and>
    (\<forall>pk'. r = Inr pk' \<longrightarrow> pack_inv pk' \<and> sorted (map schedule_order (pk_schedule pk')) \<and>
       pk_name pk' = pk_name pk \<and> pk_valid pk' = pk_valid pk)"
proof -
  have inv: "pack_inv pk" using assms(2) by (simp add: pack_inv_def)
  consider "r = Inr pk" "w' = w" | qs ex pk2 where "pack_queries e oncall qs (pk, w) = (ex, pk2, w')"
      "\<And>pk'. r = Inr pk' \<Longrightarrow> pk' = pk2\<lparr>pk_schedule := sort_key schedule_order (pk_schedule pk2)\<rparr>"
    using assms(1) by (auto simp: pack_fill_def split: option.splits json.splits prod.splits)
  then show ?thesis
  proof cases
    case 2
    then show ?thesis using pack_queries_inv [OF 2(1) inv assms(3-5)]
      by (auto simp: pack_inv_def distinct_map list_all_iff image_subset_iff)
  qed (use inv assms in auto)
qed

end

section \<open>Properties\<close>

text \<open>
  A splayed interval is chosen once. Asking for the splay of a name and an interval of at most a
  week gives a positive number of seconds, at most twice the interval when it is new; asking again for
  the same name and interval, whatever the random generator and the splay percentage are then, gives
  the same number and writes nothing.\<close>

theorem splay_is_stable:
  assumes "db_ready eph_inv (pw_db w)" "de_ops (pk_db e) = EphemeralDatabasePlugin" "boost_ok (pk_boost e)"
    and "draw_ok (pk_draw e)" "0 < interval" "interval \<le> kMaxQueryInterval"
    and "db_view eph_look (pw_db w) kPersistentSettings (splay_key name) = None"
  shows "\<exists>s w'. restoreSplayedValue e name interval w = Inr (s, w') \<and> 1 \<le> s \<and> unat s \<le> 2 * unat interval \<and>
    (\<forall>draw percent. restoreSplayedValue (e\<lparr>pk_draw := draw\<rparr>) name interval (w'\<lparr>schedule_splay_percent := percent\<rparr>) =
       Inr (s, w'\<lparr>schedule_splay_percent := percent\<rparr>))"
proof -
  let ?text = "\<lambda>s. to_string_u64 interval @ '':'' @ to_string_u64 s"
  obtain s w' where s: "restoreSplayedValue e name interval w = Inr (s, w')" "1 \<le> s"
    "db_ready eph_inv (pw_db w')" "unat s \<le> 2 * unat interval"
    "db_view eph_look (pw_db w') = view_put kPersistentSettings [(splay_key name, ?text s)] (db_view eph_look (pw_db w))"
    by (rule eph.restoreSplayedValue_ok [OF assms(1,2,4,5,6), of name]) (auto simp: assms(7))
  have stored: "db_view eph_look (pw_db w') kPersistentSettings (splay_key name) = Some (?text s)"
    by (simp add: s(5) view_put_one)
  obtain st where g: "getDatabaseValue (pk_db e) False kPersistentSettings (splay_key name) [] (pw_db w') =
      Inr (st, ?text s, pw_db w')"
    using eph.get_some [OF s(3) assms(2) _ stored, of False] by auto
  have i: "unat interval \<le> 604800" using assms(6) by (simp add: kMaxQueryInterval_def word_le_nat_alt)
  then have "interval < 2 ^ 63" "s < 2 ^ 63" using s(4) by (simp_all add: word_less_nat_alt)
  then have "restored_splay (pk_boost e) (?text s) interval = Some s"
    using assms(3) s(2) by (intro restored_splay_stored)
  then show ?thesis using s g by (intro exI [of _ s] exI [of _ w']) (auto simp: restoreSplayedValue_def)
qed

definition sample_pack_env :: "ephemeral_db pack_env" where
  "sample_pack_env =
     \<lparr>pk_db = eph_env, pk_boost = boost_ref, pk_build = \<lparr>pb_type = 0x09, pb_name = ''linux''\<rparr>,
      pk_sdk_version = ''5.18.1'', pk_hostname_digest = ''2f'', pk_draw = (\<lambda>a b. b),
      schedule_default_interval = 3600, pack_refresh_interval = 3600\<rparr>"

definition sample_pack_world :: "ephemeral_db pack_world" where
  "sample_pack_world = \<lparr>pw_db = eph_process [], schedule_splay_percent = 10\<rparr>"

lemma sample_pack_ready:
  "db_ready eph_inv (pw_db sample_pack_world)" "de_ops (pk_db sample_pack_env) = EphemeralDatabasePlugin"
  "boost_ok (pk_boost sample_pack_env)" "draw_ok (pk_draw sample_pack_env)"
  by (simp_all add: sample_pack_world_def sample_pack_env_def eph_process_ready eph_env_ops draw_ok_def)

theorem splay_is_stable_witness:
  "\<exists>s w'. restoreSplayedValue sample_pack_env ''pids'' 3600 sample_pack_world = Inr (s, w') \<and> 1 \<le> s \<and> unat s \<le> 7200 \<and>
     restoreSplayedValue (sample_pack_env\<lparr>pk_draw := \<lambda>a _. a\<rparr>) ''pids'' 3600 (w'\<lparr>schedule_splay_percent := 50\<rparr>) =
       Inr (s, w'\<lparr>schedule_splay_percent := 50\<rparr>)"
proof -
  have "db_view eph_look (pw_db sample_pack_world) kPersistentSettings (splay_key ''pids'') = None"
    by (simp add: sample_pack_world_def eph_look_def eph_domain_def)
  then show ?thesis
    using splay_is_stable [OF sample_pack_ready, of 3600 "''pids''"] by (auto simp: kMaxQueryInterval_def)
qed

text \<open>
  C39. A pack built from any JSON object has a well-formed schedule: query names are distinct, every query
  has SQL text, an interval between one second and a week, a positive splayed interval, and exactly the
  three options, and the queries are sorted by startup priority and then by name. A pack that is left
  out by its shard, platform or version has no query at all.\<close>

theorem pack_schedule_wellformed:
  assumes "Pack_initialize e name source ms w = (Inr pk, w')"
    and "db_ready eph_inv (pw_db w)" "de_ops (pk_db e) = EphemeralDatabasePlugin" "draw_ok (pk_draw e)"
  shows "distinct (map sq_name (pk_schedule pk)) \<and> sorted (map schedule_order (pk_schedule pk)) \<and>
    list_all (\<lambda>q. scheduled_ok q \<and> sq_pack_name q = name) (pk_schedule pk) \<and>
    (\<not> pk_valid pk \<longrightarrow> pk_schedule pk = [] \<and> discovery_queries pk = []) \<and> db_ready eph_inv (pw_db w')"
proof -
  consider "pk_schedule pk = []" "discovery_queries pk = []" "w' = w"
    | oncall pk1 w1 where "pack_fill e oncall ms (pk1, w1) = (Inr pk, w')" "pk_schedule pk1 = []"
      "pk_name pk1 = name" "pk_valid pk1" "pw_db w1 = pw_db w"
    using assms(1)
    by (auto simp: Pack_initialize_def Let_def Pack_blank_def split: if_splits sum.splits bool.splits)
  then show ?thesis
  proof cases
    case 1
    then show ?thesis using assms(2) by simp
  next
    case 2
    then show ?thesis using eph.pack_fill_inv [OF 2(1) _ _ assms(3,4)] assms(2) by (auto simp: pack_inv_def)
  qed
qed

theorem pack_schedule_wellformed_witness:
  "\<exists>pk w'. Pack_initialize sample_pack_env ''main'' ''file''
       [(''queries'', JObject [(''a'', JObject [(''query'', JString ''select 2''), (''interval'', JInt 60)]),
                               (''b'', JObject [(''query'', JString ''select 3''), (''interval'', JInt 604801)])])]
       sample_pack_world = (Inr pk, w') \<and>
     map sq_name (pk_schedule pk) = [''a''] \<and> list_all scheduled_ok (pk_schedule pk)"
proof -
  let ?ms = "[(''queries'', JObject [(''a'', JObject [(''query'', JString ''select 2''), (''interval'', JInt 60)]),
                               (''b'', JObject [(''query'', JString ''select 3''), (''interval'', JInt 604801)])])]"
  obtain s w1 where r: "restoreSplayedValue sample_pack_env ''a'' 60 sample_pack_world = Inr (s, w1)"
    by (rule eph.restoreSplayedValue_ok [OF sample_pack_ready(1,2,4), of 60 "''a''"])
      (auto simp: kMaxQueryInterval_def)
  have w: "\<not> schedule_splay_percent sample_pack_world \<le> 1" by (simp add: sample_pack_world_def word_le_nat_alt)
  obtain pk w' where i: "Pack_initialize sample_pack_env ''main'' ''file'' ?ms sample_pack_world = (Inr pk, w')"
      "map sq_name (pk_schedule pk) = [''a'']"
    by (simp add: Pack_initialize_def size_member_def string_member_def bool_member_def FindMember_def checkPlatform_def
        pack_checkVersion_def w pack_fill_def pack_query_def pack_query_add_def query_excluded_def valueToSize_def
        no_nul_def kMaxQueryInterval_def Pack_blank_def r query_options_def ScheduledQuery_new_def Let_def)
  then show ?thesis
    using pack_schedule_wellformed [OF i(1) sample_pack_ready(1,2,4)] by (auto simp: list_all_iff)
qed

definition pack_asked :: "u64 \<Rightarrow> (u64 \<times> (string \<Rightarrow> bool \<times> nat)) list \<Rightarrow> Pack \<Rightarrow> bool list \<times> Pack" where
  "pack_asked refresh later pk =
     fold (\<lambda>(t, sql) (bs, pk). let (b, pk') = shouldPackExecute refresh t sql pk in (bs @ [b], pk')) later ([], pk)"

definition stats_ok :: "Pack \<Rightarrow> bool" where
  "stats_ok pk \<longleftrightarrow> ps_total (pk_stats pk) = ps_hits (pk_stats pk) + ps_misses (pk_stats pk)"


lemma shouldPackExecute_cached:
  assumes "pk_valid pk" "t - fst (discovery_cache pk) < refresh"
  shows "\<exists>pk'. shouldPackExecute refresh t sql pk = (snd (discovery_cache pk), pk') \<and>
    discovery_cache pk' = discovery_cache pk \<and> pk_valid pk' \<and> (stats_ok pk' \<longleftrightarrow> stats_ok pk)"
  using assms by (simp add: shouldPackExecute_def checkDiscovery_def Let_def stats_ok_def)

lemma pack_asked_cached:
  assumes "pk_valid pk" "list_all (\<lambda>(t, _). t - fst (discovery_cache pk) < refresh) later"
  shows "\<exists>pk'. fold (\<lambda>(t, sql) (bs, pk). let (b, pk') = shouldPackExecute refresh t sql pk in (bs @ [b], pk')) later (bs, pk) =
      (bs @ replicate (length later) (snd (discovery_cache pk)), pk') \<and> (stats_ok pk' \<longleftrightarrow> stats_ok pk)"
  using assms
proof (induction later arbitrary: bs pk)
  case (Cons a later)
  obtain t sql where a: "a = (t, sql)" by (cases a)
  obtain pk1 where 1: "shouldPackExecute refresh t sql pk = (snd (discovery_cache pk), pk1)"
    "discovery_cache pk1 = discovery_cache pk" "pk_valid pk1" "stats_ok pk1 \<longleftrightarrow> stats_ok pk"
    using shouldPackExecute_cached [of pk t refresh sql] Cons.prems by (auto simp: a)
  show ?case
    using Cons.IH [OF 1(3), of "bs @ [snd (discovery_cache pk)]"] Cons.prems 1 by (auto simp: a)
qed simp

text \<open>
  Discovery is decided at most once per refresh interval: after a pack was asked whether it runs, every
  later question before the interval since the last decision is over gets the same answer without any
  discovery query, each question counts as a hit or a miss, and a pack that is not valid never runs. Here
  \<open>later\<close> is the list of later times, with what the discovery queries would give at each.\<close>

theorem discovery_once_per_interval:
  assumes "shouldPackExecute refresh t0 sql0 pk = (b, pk')" "stats_ok pk" "pk_valid pk"
    and "list_all (\<lambda>(t, _). t - fst (discovery_cache pk') < refresh) later"
  shows "\<exists>pk''. pack_asked refresh later pk' = (replicate (length later) b, pk'') \<and> stats_ok pk'' \<and>
    (b \<longrightarrow> t0 - fst (discovery_cache pk) < refresh \<or> list_all (\<lambda>q. fst (sql0 q) \<and> 0 < snd (sql0 q)) (discovery_queries pk))"
proof -
  have found: "discovery_passes sql0 qs \<longleftrightarrow> list_all (\<lambda>q. fst (sql0 q) \<and> 0 < snd (sql0 q)) qs" for qs
    by (induction qs) (auto simp: Let_def split: prod.splits)
  have 1: "pk_valid pk'" "b = snd (discovery_cache pk')" "stats_ok pk'"
    "b \<longrightarrow> t0 - fst (discovery_cache pk) < refresh \<or> discovery_passes sql0 (discovery_queries pk)"
    using assms(1-3) by (auto simp: shouldPackExecute_def checkDiscovery_def Let_def stats_ok_def split: if_splits)
  then show ?thesis
    using pack_asked_cached [OF 1(1) assms(4), of "[]"] found by (auto simp: pack_asked_def)
qed

theorem discovery_once_per_interval_witness:
  "\<exists>pk''. pack_asked 3600 [(10000, \<lambda>_. (False, 0)), (12000, \<lambda>_. (False, 0))]
     (snd (shouldPackExecute 3600 9000 (\<lambda>_. (True, 1)) (Pack_blank\<lparr>pk_valid := True, discovery_queries := [''select 1'']\<rparr>))) =
     ([True, True], pk'')"
  using discovery_once_per_interval [of 3600 9000 "\<lambda>_. (True, 1)" "Pack_blank\<lparr>pk_valid := True, discovery_queries := [''select 1'']\<rparr>"
      True _ "[(10000, \<lambda>_. (False, 0)), (12000, \<lambda>_. (False, 0))]"]
  by (simp add: shouldPackExecute_def checkDiscovery_def Pack_blank_def stats_ok_def Let_def word_less_nat_alt) blast

end
