(* ===== verification/QueryPerformances.thy ===== *)
theory QueryPerformances
  imports Texts Database
begin

text \<open>
  The statistics kept per scheduled query: \<open>core/sql/query_performance.h\<close> and \<open>query_performance.cpp\<close>,
  and the part of \<open>Config::recordQueryPerformance\<close> that updates them.
\<close>

record QueryPerformance =
  executions :: u64
  last_executed :: u64
  wall_time :: u64
  wall_time_ms :: u64
  last_wall_time_ms :: u64
  user_time :: u64
  last_user_time :: u64
  system_time :: u64
  last_system_time :: u64
  average_memory :: u64
  last_memory :: u64
  output_size :: u64

definition QueryPerformance_new :: QueryPerformance where
  "QueryPerformance_new =
     \<lparr>executions = 0, last_executed = 0, wall_time = 0, wall_time_ms = 0, last_wall_time_ms = 0,
      user_time = 0, last_user_time = 0, system_time = 0, last_system_time = 0, average_memory = 0,
      last_memory = 0, output_size = 0\<rparr>"

definition perf_convert :: "boost_lib \<Rightarrow> string \<Rightarrow> u64" where
  "perf_convert bo source = (case bo_lexical_u64 bo source of Some v \<Rightarrow> v | None \<Rightarrow> 0)"

definition QueryPerformance_of :: "boost_lib \<Rightarrow> string \<Rightarrow> QueryPerformance" where
  "QueryPerformance_of bo csv =
     (let parts = bo_split bo csv '',''; n = (\<lambda>i. perf_convert bo (parts ! i))
      in if length parts < 12 then QueryPerformance_new
         else \<lparr>executions = n 0, last_executed = n 1, wall_time = n 2, wall_time_ms = n 3,
               last_wall_time_ms = n 4, user_time = n 5, last_user_time = n 6, system_time = n 7,
               last_system_time = n 8, average_memory = n 9, last_memory = n 10, output_size = n 11\<rparr>)"

definition perf_fields :: "QueryPerformance \<Rightarrow> u64 list" where
  "perf_fields q =
     [executions q, last_executed q, wall_time q, wall_time_ms q, last_wall_time_ms q, user_time q,
      last_user_time q, system_time q, last_system_time q, average_memory q, last_memory q, output_size q]"

definition toCSV :: "QueryPerformance \<Rightarrow> string" where
  "toCSV q =
     to_string_u64 (executions q) @ '','' @ to_string_u64 (last_executed q) @ '','' @
     to_string_u64 (wall_time q) @ '','' @ to_string_u64 (wall_time_ms q) @ '','' @
     to_string_u64 (last_wall_time_ms q) @ '','' @ to_string_u64 (user_time q) @ '','' @
     to_string_u64 (last_user_time q) @ '','' @ to_string_u64 (system_time q) @ '','' @
     to_string_u64 (last_system_time q) @ '','' @ to_string_u64 (average_memory q) @ '','' @
     to_string_u64 (last_memory q) @ '','' @ to_string_u64 (output_size q)"

definition perf_eq :: "QueryPerformance \<Rightarrow> QueryPerformance \<Rightarrow> bool" where
  "perf_eq l r \<longleftrightarrow> perf_fields l = perf_fields r"

text \<open>
  The difference of one column between the process rows before and after the query: zero unless both
  are numbers. \<open>Row::at\<close> throws for a missing column. The subtraction of two \<open>long long\<close> values is
  undefined when it leaves their range.
\<close>

definition row_at :: "(string, string) omap \<Rightarrow> string \<Rightarrow> string throwing" where
  "row_at r k = (case om_get r k of Some v \<Rightarrow> Inr v | None \<Rightarrow> Inl out_of_range)"

definition perf_longlong :: "string \<Rightarrow> int option" where
  "perf_longlong s = (case object (tryTo_longlong (\<lambda>_. []) 10 s) of Inl v \<Rightarrow> Some v | Inr _ \<Rightarrow> None)"

definition perf_diff ::
  "string \<Rightarrow> (string, string) omap \<Rightarrow> (string, string) omap \<Rightarrow> int throwing" where
  "perf_diff k r0 r1 =
     exn_bind (row_at r1 k) (\<lambda>a1.
       if a1 = [] then Inr 0
       else exn_bind (row_at r0 k) (\<lambda>a0.
         if a0 = [] then Inr 0
         else case (perf_longlong a1, perf_longlong a0) of
           (Some v1, Some v0) \<Rightarrow>
             if - (2 ^ 63) \<le> v1 - v0 \<and> v1 - v0 < 2 ^ 63 then Inr (v1 - v0)
             else Inl (undefined_behaviour ''signed overflow'')
         | _ \<Rightarrow> Inr 0))"

definition perf_update ::
  "u64 \<Rightarrow> u64 \<Rightarrow> u64 \<Rightarrow> (string, string) omap \<Rightarrow> (string, string) omap \<Rightarrow> QueryPerformance
   \<Rightarrow> QueryPerformance throwing" where
  "perf_update now delay_ms sz r0 r1 q =
     exn_bind (perf_diff ''user_time'' r0 r1) (\<lambda>ut.
     exn_bind (perf_diff ''system_time'' r0 r1) (\<lambda>st.
     exn_bind (perf_diff ''resident_size'' r0 r1) (\<lambda>rs.
       let q1 = (if ut > 0 then q\<lparr>user_time := user_time q + word_of_int ut, last_user_time := word_of_int ut\<rparr> else q);
           q2 = (if st > 0 then q1\<lparr>system_time := system_time q1 + word_of_int st, last_system_time := word_of_int st\<rparr>
                 else q1);
           q3 = (if rs > 0
                 then q2\<lparr>average_memory :=
                        (average_memory q2 * executions q2 + word_of_int rs) div (executions q2 + 1),
                      last_memory := word_of_int rs\<rparr>
                 else q2)
       in Inr (q3\<lparr>last_wall_time_ms := delay_ms, wall_time_ms := wall_time_ms q3 + delay_ms,
                 wall_time := wall_time q3 + delay_ms div 1000, output_size := output_size q3 + sz,
                 executions := executions q3 + 1, last_executed := now\<rparr>))))"

section \<open>Properties\<close>

lemma toCSV_join: "toCSV q = join_with (map to_string_u64 (perf_fields q)) '',''"
  by (simp add: toCSV_def perf_fields_def)

lemma split_csv: "boost_ok bo \<Longrightarrow> bo_split bo (toCSV q) '','' = map to_string_u64 (perf_fields q)"
proof -
  assume "boost_ok bo"
  then have "bo_split bo (toCSV q) '','' = tokens (\<lambda>c. c = CHR '','') (toCSV q)" by (simp add: boost_ok_def)
  also have "\<dots> = map to_string_u64 (perf_fields q)"
    unfolding toCSV_join
    using to_string_field(3) by (intro tokens_join) (auto simp: perf_fields_def field_ok_def)
  finally show ?thesis .
qed

lemma perf_convert_to_string: "boost_ok bo \<Longrightarrow> perf_convert bo (to_string_u64 w) = w"
  by (simp add: perf_convert_def boost_ok_def)

text \<open>
  The statistics of a query survive storage: the record read from the text written for it is the
  same record, and a text with fewer than twelve fields reads as the empty statistics.\<close>

theorem performance_csv_roundtrip:
  assumes "boost_ok bo"
  shows "QueryPerformance_of bo (toCSV q) = q \<and>
    (length (bo_split bo t '','') < 12 \<longrightarrow> QueryPerformance_of bo t = QueryPerformance_new)"
  using assms by (simp add: QueryPerformance_of_def split_csv Let_def perf_fields_def perf_convert_to_string)

theorem performance_csv_roundtrip_witness:
  "QueryPerformance_of boost_ref (toCSV (QueryPerformance_new\<lparr>executions := 3, output_size := 99\<rparr>)) =
     QueryPerformance_new\<lparr>executions := 3, output_size := 99\<rparr>"
  using performance_csv_roundtrip [OF boost_ref_ok, of "QueryPerformance_new\<lparr>executions := 3, output_size := 99\<rparr>"] by simp

end
