(* ===== verification/Config.thy ===== *)
theory Config
  imports Packs QueryPerformances
begin

text \<open>
  The configuration: \<open>osquery/config/config.cpp\<close> with \<open>config.h\<close>. It holds the schedule (a list of packs
  and the denylist of queries that failed), the watched files, the hash of every source, and it applies
  a new configuration source by source. The config plugin, the config parsers, the hash function and the
  clock (one instant per call) are arguments; what is handed to the parsers is recorded.
\<close>

section \<open>The schedule\<close>

record Schedule =
  packs :: "Pack list"
  failed_query :: string
  denylist :: "(string, u64) omap"
  log_denied_queries :: "string list"

definition schedule_remove :: "string \<Rightarrow> string \<Rightarrow> Schedule \<Rightarrow> Schedule" where
  "schedule_remove pack source s =
     s\<lparr>packs := filter (\<lambda>p. \<not> (pk_name p = pack \<and> (pk_source p = source \<or> source = []))) (packs s)\<rparr>"

definition schedule_add :: "Pack \<Rightarrow> Schedule \<Rightarrow> Schedule" where
  "schedule_add pack s =
     (let s1 = schedule_remove (pk_name pack) (pk_source pack) s in s1\<lparr>packs := packs s1 @ [pack]\<rparr>)"

definition schedule_removeAll :: "string \<Rightarrow> Schedule \<Rightarrow> Schedule" where
  "schedule_removeAll source s = s\<lparr>packs := filter (\<lambda>p. pk_source p \<noteq> source) (packs s)\<rparr>"

type_synonym sql_queries = "(string, (string, string) omap) omap"

definition getSqlQueriesForSource :: "string \<Rightarrow> Schedule \<Rightarrow> sql_queries" where
  "getSqlQueriesForSource source s =
     fold (\<lambda>p m. fold (\<lambda>q m. om_set (pk_name p)
              (om_set (sq_name q) (sq_query q) (case om_get m (pk_name p) of Some qs \<Rightarrow> qs | None \<Rightarrow> [])) m)
            (pk_schedule p) m)
       (filter (\<lambda>p. pk_source p = source) (packs s)) []"

section \<open>The denylist\<close>

definition kExecutingQuery :: string where "kExecutingQuery = ''executing_query''"
definition kFailedQueries :: string where "kFailedQueries = ''failed_queries''"

record 'd config_env =
  ce_pack :: "'d pack_env"
  ce_delimiter :: string
  ce_external :: bool
  ce_disable_watchdog :: string
  ce_events_enforce :: bool
  ce_query_tables :: "string \<Rightarrow> string list"
  ce_subscribers :: "string list"
  ce_discovery :: "string \<Rightarrow> bool \<times> nat"
  ce_hash :: "string \<Rightarrow> string"
  ce_parsers :: "(string \<times> string list) list"
  ce_genConfig :: "Status \<times> PluginResponse"
  ce_genPack :: "string \<Rightarrow> string \<Rightarrow> PluginResponse"
  ce_forward :: "string \<Rightarrow> string \<Rightarrow> Status"
  config_refresh :: u64
  config_accelerated_refresh :: u64
  config_enable_backup :: bool
  config_dump :: bool
  config_check :: bool

abbreviation ce_db :: "'d config_env \<Rightarrow> 'd db_env" where "ce_db e \<equiv> pk_db (ce_pack e)"
abbreviation ce_boost :: "'d config_env \<Rightarrow> boost_lib" where "ce_boost e \<equiv> pk_boost (ce_pack e)"

fun denylist_pairs :: "u64 \<Rightarrow> string list \<Rightarrow> (string, u64) omap \<Rightarrow> (string, u64) omap" where
  "denylist_pairs now (name # expires # rest) d =
     (let expire = (case longlong_value expires of Some v \<Rightarrow> v | None \<Rightarrow> 0)
      in denylist_pairs now rest
           (if expire > 0 \<and> now < word_of_int expire then om_set name (word_of_int expire) d else d))"
| "denylist_pairs now _ d = d"

definition restoreScheduleDenylist ::
  "'d config_env \<Rightarrow> u64 \<Rightarrow> (string, u64) omap \<Rightarrow> 'd db_process \<Rightarrow> ((string, u64) omap \<times> 'd db_process) throwing" where
  "restoreScheduleDenylist e now d p =
     exn_bind (getDatabaseValue (ce_db e) False kPersistentSettings kFailedQueries [] p)
       (\<lambda>(_, content, p1).
          let pairs = osq_split (ce_boost e) content '':''
          in if pairs = [] \<or> odd (length pairs) then Inr (d, p1) else Inr (denylist_pairs now pairs d, p1))"

definition denylist_content :: "(string, u64) omap \<Rightarrow> string" where
  "denylist_content d =
     fold (\<lambda>(name, expire) content.
         (if content \<noteq> [] then content @ '':'' else content) @ name @ '':'' @ to_string_u64 expire) d []"

definition saveScheduleDenylist ::
  "'d config_env \<Rightarrow> (string, u64) omap \<Rightarrow> 'd db_process \<Rightarrow> 'd db_process throwing" where
  "saveScheduleDenylist e d p =
     exn_bind (setDatabaseValue (ce_db e) False kPersistentSettings kFailedQueries (denylist_content d) p)
       (\<lambda>(_, p1). Inr p1)"

definition Schedule_blank :: Schedule where
  "Schedule_blank = \<lparr>packs = [], failed_query = [], denylist = [], log_denied_queries = []\<rparr>"

definition Schedule_new :: "'d config_env \<Rightarrow> u64 \<Rightarrow> 'd db_process \<Rightarrow> (Schedule \<times> 'd db_process) throwing" where
  "Schedule_new e now p =
     (if ce_external e then Inr (Schedule_blank, p)
      else exn_bind (restoreScheduleDenylist e now [] p)
        (\<lambda>(d, p1).
           exn_bind (getDatabaseValue (ce_db e) False kPersistentSettings kExecutingQuery [] p1)
             (\<lambda>(_, failed, p2).
                let s = Schedule_blank\<lparr>failed_query := failed, denylist := d\<rparr>
                in if failed = [] then Inr (s, p2)
                   else exn_bind (setDatabaseValue (ce_db e) False kPersistentSettings kExecutingQuery [] p2)
                     (\<lambda>(_, p3).
                        if ce_disable_watchdog e = ''false'' then
                          (let d' = om_set failed (now + 86400) d
                           in exn_bind (saveScheduleDenylist e d' p3) (\<lambda>p4. Inr (s\<lparr>denylist := d'\<rparr>, p4)))
                        else Inr (s, p3)))))"

definition enforceEventsDenylist :: "'d config_env \<Rightarrow> string \<Rightarrow> bool" where
  "enforceEventsDenylist e query =
     (if ce_events_enforce e then True
      else let tables = ce_query_tables e query
           in if tables = [] then True
              else card (set tables \<inter> set (ce_subscribers e)) \<noteq> card (set tables))"

definition denylistExpired :: "'d config_env \<Rightarrow> u64 \<Rightarrow> u64 \<Rightarrow> ScheduledQuery \<Rightarrow> bool" where
  "denylistExpired e now blt query =
     (if now > blt then True
      else if \<not> enforceEventsDenylist e (sq_query query) then True
      else om_get (sq_options query) ''denylist'' = Some False)"

definition getQueryName :: "string \<Rightarrow> string \<Rightarrow> string \<Rightarrow> string" where
  "getQueryName delim packName name =
     (if packName \<noteq> ''main'' then ''pack'' @ delim @ packName @ delim @ name else name)"

section \<open>Iterating over the schedule\<close>

text \<open>
  The state of an iteration: the schedule, the store, and whatever the callback (\<open>predicate\<close>) keeps.
  The callback may ask for a shutdown (\<open>stop\<close>), which ends the loop over the queries of one pack.
\<close>

definition deny_query ::
  "'d config_env \<Rightarrow> u64 \<Rightarrow> bool \<Rightarrow> string \<Rightarrow> ScheduledQuery \<Rightarrow> Schedule \<times> 'd db_process
   \<Rightarrow> (bool \<times> ScheduledQuery \<times> Schedule \<times> 'd db_process) throwing" where
  "deny_query e now denylisted name query sp =
     (let (s, p) = sp in
      case om_get (denylist s) name of
        None \<Rightarrow> Inr (False, query, s, p)
      | Some blt \<Rightarrow>
          if denylistExpired e now blt query then
            (let d' = om_del name (denylist s)
             in exn_bind (saveScheduleDenylist e d' p)
                  (\<lambda>p'. Inr (False, query\<lparr>sq_denylisted := False\<rparr>,
                      s\<lparr>log_denied_queries := remove1 name (log_denied_queries s), denylist := d'\<rparr>, p')))
          else if \<not> denylisted then
            Inr (True, query\<lparr>sq_denylisted := True\<rparr>,
              (if name \<in> set (log_denied_queries s) then s
               else s\<lparr>log_denied_queries := name # log_denied_queries s\<rparr>), p)
          else Inr (False, query\<lparr>sq_denylisted := True\<rparr>, s, p))"

fun pack_scheduledQueries ::
  "'d config_env \<Rightarrow> u64 \<Rightarrow> (string \<Rightarrow> ScheduledQuery \<Rightarrow> 'd db_process \<times> 'x \<Rightarrow> ('d db_process \<times> 'x) throwing)
   \<Rightarrow> ('x \<Rightarrow> bool) \<Rightarrow> bool \<Rightarrow> string \<Rightarrow> ScheduledQuery list \<Rightarrow> Schedule \<times> 'd db_process \<times> 'x
   \<Rightarrow> (ScheduledQuery list \<times> Schedule \<times> 'd db_process \<times> 'x) throwing" where
  "pack_scheduledQueries e now predicate stop denylisted pack [] spx = Inr ([], spx)"
| "pack_scheduledQueries e now predicate stop denylisted pack (query # qs) (s, p, x) =
     (let name = getQueryName (ce_delimiter e) pack (sq_name query) in
      exn_bind (deny_query e now denylisted name query (s, p))
        (\<lambda>(skip, query', s1, p1).
           if skip then
             exn_bind (pack_scheduledQueries e now predicate stop denylisted pack qs (s1, p1, x))
               (\<lambda>(qs', r). Inr (query' # qs', r))
           else
             exn_bind (predicate name query' (p1, x))
               (\<lambda>(p2, x2).
                  if stop x2 then Inr (query' # qs, s1, p2, x2)
                  else exn_bind (pack_scheduledQueries e now predicate stop denylisted pack qs (s1, p2, x2))
                    (\<lambda>(qs', r). Inr (query' # qs', r)))))"

fun packs_scheduledQueries ::
  "'d config_env \<Rightarrow> u64 \<Rightarrow> (string \<Rightarrow> ScheduledQuery \<Rightarrow> 'd db_process \<times> 'x \<Rightarrow> ('d db_process \<times> 'x) throwing)
   \<Rightarrow> ('x \<Rightarrow> bool) \<Rightarrow> bool \<Rightarrow> Pack list \<Rightarrow> Schedule \<times> 'd db_process \<times> 'x
   \<Rightarrow> (Pack list \<times> Schedule \<times> 'd db_process \<times> 'x) throwing" where
  "packs_scheduledQueries e now predicate stop denylisted [] spx = Inr ([], spx)"
| "packs_scheduledQueries e now predicate stop denylisted (pk # pks) spx =
     (let (run, pk1) = shouldPackExecute (pack_refresh_interval (ce_pack e)) now (ce_discovery e) pk in
      exn_bind
        (if run then pack_scheduledQueries e now predicate stop denylisted (pk_name pk1) (pk_schedule pk1) spx
         else Inr (pk_schedule pk1, spx))
        (\<lambda>(qs, spx1).
           exn_bind (packs_scheduledQueries e now predicate stop denylisted pks spx1)
             (\<lambda>(pks', r). Inr (pk1\<lparr>pk_schedule := qs\<rparr> # pks', r))))"

definition scheduledQueries ::
  "'d config_env \<Rightarrow> u64 \<Rightarrow> (string \<Rightarrow> ScheduledQuery \<Rightarrow> 'd db_process \<times> 'x \<Rightarrow> ('d db_process \<times> 'x) throwing)
   \<Rightarrow> ('x \<Rightarrow> bool) \<Rightarrow> bool \<Rightarrow> Schedule \<times> 'd db_process \<times> 'x \<Rightarrow> (Schedule \<times> 'd db_process \<times> 'x) throwing" where
  "scheduledQueries e now predicate stop denylisted spx =
     exn_bind (packs_scheduledQueries e now predicate stop denylisted (packs (fst spx)) spx)
       (\<lambda>(pks, s, r). Inr (s\<lparr>packs := pks\<rparr>, r))"

section \<open>The configuration object\<close>

type_synonym FileCategories = "(string, string list) omap"

record Config =
  cf_schedule :: Schedule
  cf_files :: "(string, FileCategories) omap"
  cf_hash :: "(string, string) omap"
  cf_valid :: bool
  cf_loaded :: bool
  started_thread :: bool
  refresh_sec :: u64
  is_first_time_refresh :: bool

text \<open>
  \<open>cs_parsed\<close> records each call of a config parser: the parser, the source and the keys it got.
  \<open>cs_reconfigured\<close> records the reconfigurations of the registries with their events, and of the loggers.
\<close>

datatype reconfiguration = Reconfigure_registries | Reconfigure_loggers

record 'd config_state =
  cs_config :: Config
  cs_world :: "'d pack_world"
  cs_parsed :: "(string \<times> string \<times> members) list"
  cs_reconfigured :: "reconfiguration list"
  cs_shutdown :: ShutdownData

definition addFile :: "string \<Rightarrow> string \<Rightarrow> string \<Rightarrow> Config \<Rightarrow> Config" where
  "addFile source category path c =
     (let cats = (case om_get (cf_files c) source of Some m \<Rightarrow> m | None \<Rightarrow> []);
          paths = (case om_get cats category of Some ps \<Rightarrow> ps | None \<Rightarrow> [])
      in c\<lparr>cf_files := om_set source (om_set category (paths @ [path]) cats) (cf_files c)\<rparr>)"

definition removeFiles :: "string \<Rightarrow> Config \<Rightarrow> Config" where
  "removeFiles source c =
     (if om_has (cf_files c) source then c\<lparr>cf_files := om_set source [] (cf_files c)\<rparr> else c)"

definition config_files :: "Config \<Rightarrow> (string \<times> string list) list" where
  "config_files c = concat (map snd (cf_files c))"

text \<open>Removing packs from the schedule also drops the files they watch.\<close>

definition config_remove :: "'d config_env \<Rightarrow> string \<Rightarrow> string \<Rightarrow> Config \<Rightarrow> Config" where
  "config_remove e pack source c =
     (let gone = filter (\<lambda>p. pk_name p = pack \<and> (pk_source p = source \<or> source = [])) (packs (cf_schedule c));
          c1 = fold (\<lambda>p. removeFiles (source @ ce_delimiter e @ pk_name p)) gone c
      in c1\<lparr>cf_schedule := schedule_remove pack source (cf_schedule c1)\<rparr>)"

definition config_removeAll :: "'d config_env \<Rightarrow> string \<Rightarrow> Config \<Rightarrow> Config" where
  "config_removeAll e source c =
     (let gone = filter (\<lambda>p. pk_source p = source) (packs (cf_schedule c));
          c1 = fold (\<lambda>p. removeFiles (source @ ce_delimiter e @ pk_name p)) gone c
      in c1\<lparr>cf_schedule := schedule_removeAll source (cf_schedule c1)\<rparr>)"

definition removePack :: "'d config_env \<Rightarrow> string \<Rightarrow> Config \<Rightarrow> Config" where
  "removePack e pack c = config_remove e pack [] c"

section \<open>Config parsers\<close>

definition parser_config :: "string list \<Rightarrow> members \<Rightarrow> members" where
  "parser_config keys obj =
     fold (\<lambda>k m. case FindMember obj k of
         Some (JObject ms) \<Rightarrow> om_set k (JObject ms) m | Some (JArray js) \<Rightarrow> om_set k (JArray js) m | _ \<Rightarrow> m) keys []"

definition applyParsers :: "'d config_env \<Rightarrow> string \<Rightarrow> members \<Rightarrow> 'd config_state \<Rightarrow> 'd config_state" where
  "applyParsers e source obj s =
     (let first = filter (\<lambda>(n, _). n = ''options'') (ce_parsers e);
          others = filter (\<lambda>(n, _). n \<noteq> ''options'') (ce_parsers e)
      in s\<lparr>cs_parsed := cs_parsed s @ map (\<lambda>(n, ks). (n, source, parser_config ks obj)) (first @ others)\<rparr>)"

section \<open>Adding packs\<close>

text \<open>A pack whose construction throws is logged and skipped; failed assertions and undefined behaviour are not caught.\<close>

fun caught :: "cpp_exn \<Rightarrow> bool" where
  "caught (undefined_behaviour _) = False"
| "caught _ = True"

definition addSinglePack ::
  "'d config_env \<Rightarrow> u64 \<Rightarrow> string \<Rightarrow> string \<Rightarrow> members \<Rightarrow> 'd config_state \<Rightarrow> 'd config_state throwing" where
  "addSinglePack e now source pack_name obj s =
     (case Pack_initialize (ce_pack e) pack_name source obj (cs_world s) of
        (Inl ex, w) \<Rightarrow> if caught ex then Inr (s\<lparr>cs_world := w\<rparr>) else Inl ex
      | (Inr pk, w) \<Rightarrow>
          (let c = config_remove e (pk_name pk) (pk_source pk) (cs_config s);
               (run, pk1) = shouldPackExecute (pack_refresh_interval (ce_pack e)) now (ce_discovery e) pk;
               s1 = s\<lparr>cs_world := w,
                      cs_config := c\<lparr>cf_schedule := (cf_schedule c)\<lparr>packs := packs (cf_schedule c) @ [pk1]\<rparr>\<rparr>\<rparr>
           in Inr (if run then applyParsers e (source @ ce_delimiter e @ pack_name) obj s1 else s1)))"

fun addPacks ::
  "'d config_env \<Rightarrow> u64 \<Rightarrow> string \<Rightarrow> members \<Rightarrow> 'd config_state \<Rightarrow> 'd config_state throwing" where
  "addPacks e now source [] s = Inr s"
| "addPacks e now source ((name, JObject ms) # rest) s =
     exn_bind (addSinglePack e now source (c_str name) ms s) (addPacks e now source rest)"
| "addPacks e now source (_ # rest) s = addPacks e now source rest s"

definition addPack ::
  "'d config_env \<Rightarrow> u64 \<Rightarrow> string \<Rightarrow> string \<Rightarrow> members \<Rightarrow> 'd config_state \<Rightarrow> 'd config_state throwing" where
  "addPack e now name source obj s =
     (if name = ''*'' then addPacks e now source obj s else addSinglePack e now source name obj s)"

section \<open>Parsing configuration text\<close>

definition strip_line :: "string \<Rightarrow> string" where
  "strip_line line =
     (let t = trim_view line
      in if take 1 t = ''#'' \<or> take 2 t = ''//'' then [] else t @ [CHR 0x0A])"

definition stripConfigComments :: "boost_lib \<Rightarrow> string \<Rightarrow> string" where
  "stripConfigComments bo text0 =
     concat (map strip_line (vsplit (bo_replace_all bo text0 [CHR 0x5C, CHR 0x0A] []) (CHR 0x0A)))"

definition kMaxConfigDepth :: nat where "kMaxConfigDepth = 32"
definition kMaxConfigSize :: nat where "kMaxConfigSize = 1024 * 1024"

definition json_children :: "json \<Rightarrow> json list" where
  "json_children j = (case j of JObject ms \<Rightarrow> map snd ms | JArray js \<Rightarrow> js | _ \<Rightarrow> [])"

text \<open>The queue of \<open>validateConfig\<close>: one level is taken off the front while its children go to the back.\<close>

fun drain_level :: "nat \<Rightarrow> json list \<Rightarrow> json list" where
  "drain_level 0 nodes = nodes"
| "drain_level (Suc n) [] = []"
| "drain_level (Suc n) (node # nodes) = drain_level n (nodes @ json_children node)"

fun validate_levels :: "nat \<Rightarrow> json list \<Rightarrow> json list" where
  "validate_levels 0 nodes = nodes"
| "validate_levels (Suc depth) nodes =
     (if nodes = [] then [] else validate_levels depth (drain_level (length nodes) nodes))"

definition validateConfig :: "json \<Rightarrow> Status" where
  "validateConfig document =
     (if \<not> IsObject document then failure ''The root of the config JSON document has to be an Object''
      else if validate_levels kMaxConfigDepth [document] \<noteq> []
      then failure ''Configuration has too many nesting levels!''
      else success)"

definition hashSource :: "'d config_env \<Rightarrow> string \<Rightarrow> string \<Rightarrow> Config \<Rightarrow> bool \<times> Config" where
  "hashSource e source content c =
     (let new_hash = ce_hash e content;
          old = (case om_get (cf_hash c) source of Some h \<Rightarrow> h | None \<Rightarrow> [])
      in if old = new_hash
         then (False, if om_has (cf_hash c) source then c else c\<lparr>cf_hash := om_set source [] (cf_hash c)\<rparr>)
         else (True, c\<lparr>cf_hash := om_set source new_hash (cf_hash c)\<rparr>))"

definition genHash :: "'d config_env \<Rightarrow> Config \<Rightarrow> Status \<times> string" where
  "genHash e c =
     (if \<not> cf_valid c then (Status_msg 1 ''Current config is not valid'', [])
      else (success, ce_hash e (concat (map snd (cf_hash c)))))"

definition getHash :: "string \<Rightarrow> Config \<Rightarrow> string" where
  "getHash source c = (case om_get (cf_hash c) source of Some h \<Rightarrow> h | None \<Rightarrow> [])"

section \<open>Updating from a source\<close>

definition genPack ::
  "'d config_env \<Rightarrow> u64 \<Rightarrow> string \<Rightarrow> string \<Rightarrow> string \<Rightarrow> 'd config_state \<Rightarrow> (Status \<times> 'd config_state) throwing" where
  "genPack e now name source target s =
     (case ce_genPack e name target of
        [] \<Rightarrow> Inr (Status_msg 1 ''Invalid plugin response'', s)
      | row # _ \<Rightarrow>
          (case om_get row name of
             None \<Rightarrow> Inr (Status_msg 1 ''Invalid plugin response'', s)
           | Some content \<Rightarrow>
               if content = [] then Inr (success, s)
               else (case json_fromString (de_rj (ce_db e)) (stripConfigComments (ce_boost e) content) of
                  (st, Some (JObject ms)) \<Rightarrow>
                    if ok st then exn_bind (addPack e now name source ms s) (\<lambda>s'. Inr (success, s'))
                    else Inr (success, s)
                | _ \<Rightarrow> Inr (success, s))))"

fun update_packs ::
  "'d config_env \<Rightarrow> u64 \<Rightarrow> string \<Rightarrow> members \<Rightarrow> 'd config_state \<Rightarrow> 'd config_state throwing" where
  "update_packs e now source [] s = Inr s"
| "update_packs e now source ((name, JObject ms) # rest) s =
     exn_bind (addPack e now (c_str name) source ms s) (update_packs e now source rest)"
| "update_packs e now source ((name, JString target) # rest) s =
     exn_bind (genPack e now (c_str name) source (c_str target) s) (\<lambda>(_, s'). update_packs e now source rest s')"
| "update_packs e now source (_ # rest) s = update_packs e now source rest s"

text \<open>Clearing the statistics of the queries that are gone or whose SQL has changed.\<close>

definition clear_query ::
  "'d config_env \<Rightarrow> sql_queries \<Rightarrow> string \<Rightarrow> string \<times> string \<Rightarrow> 'd db_process \<Rightarrow> 'd db_process throwing" where
  "clear_query e new_queries pack q p =
     (let full_name = getQueryName (ce_delimiter e) pack (fst q) in
      case (case om_get new_queries pack of Some qs \<Rightarrow> om_get qs (fst q) | None \<Rightarrow> None) of
        None \<Rightarrow> exn_bind (deleteDatabaseValue (ce_db e) False kQueryPerformance full_name p) (\<lambda>(_, p'). Inr p')
      | Some sql \<Rightarrow>
          if snd q \<noteq> sql
          then exn_bind (setDatabaseValue (ce_db e) False kQueryPerformance full_name (toCSV QueryPerformance_new) p)
                 (\<lambda>(_, p'). Inr p')
          else Inr p)"

definition clear_performance ::
  "'d config_env \<Rightarrow> sql_queries \<Rightarrow> sql_queries \<Rightarrow> 'd db_process \<Rightarrow> 'd db_process throwing" where
  "clear_performance e queries new_queries p =
     exn_fold (\<lambda>(pack, qs). exn_fold (clear_query e new_queries pack) qs) queries p"

definition with_config :: "(Config \<Rightarrow> Config) \<Rightarrow> 'd config_state \<Rightarrow> 'd config_state" where
  "with_config f s = s\<lparr>cs_config := f (cs_config s)\<rparr>"

definition cs_db :: "'d config_state \<Rightarrow> 'd db_process" where
  "cs_db s = pw_db (cs_world s)"

definition set_cs_db :: "'d db_process \<Rightarrow> 'd config_state \<Rightarrow> 'd config_state" where
  "set_cs_db p s = s\<lparr>cs_world := (cs_world s)\<lparr>pw_db := p\<rparr>\<rparr>"

text \<open>From the parsed document on.\<close>

definition apply_document ::
  "'d config_env \<Rightarrow> u64 \<Rightarrow> string \<Rightarrow> sql_queries \<Rightarrow> members \<Rightarrow> 'd config_state \<Rightarrow> (Status \<times> 'd config_state) throwing" where
  "apply_document e now source queries doc s =
     exn_bind
       (case FindMember doc ''schedule'' of
          Some (JObject sched) \<Rightarrow>
            if ce_external e then Inr s
            else addPack e now ''main'' source [(''queries'', JObject sched)] s
        | _ \<Rightarrow> Inr s)
       (\<lambda>s1. exn_bind
          (case FindMember doc ''packs'' of
             Some (JObject pks) \<Rightarrow> if ce_external e then Inr s1 else update_packs e now source pks s1
           | _ \<Rightarrow> Inr s1)
          (\<lambda>s2.
             let s3 = applyParsers e source doc s2;
                 new_queries = getSqlQueriesForSource source (cf_schedule (cs_config s3))
             in exn_bind (clear_performance e queries new_queries (cs_db s3))
                  (\<lambda>p. Inr (success, set_cs_db p s3))))"

definition updateSource ::
  "'d config_env \<Rightarrow> u64 \<Rightarrow> string \<Rightarrow> string \<Rightarrow> 'd config_state \<Rightarrow> (Status \<times> 'd config_state) throwing" where
  "updateSource e now source json s =
     (let (changed, c) = hashSource e source json (cs_config s);
          s0 = s\<lparr>cs_config := c\<rparr>
      in if \<not> changed then Inr (Status_code 2, s0)
         else let queries = getSqlQueriesForSource source (cf_schedule c);
                  s1 = with_config (\<lambda>c. removeFiles source (config_removeAll e source c)) s0;
                  clone = stripConfigComments (ce_boost e) json
              in if length clone > kMaxConfigSize
                 then Inr (failure (''Error parsing the config JSON: the config size exceeds the limit of ''
                        @ to_string_nat kMaxConfigSize @ '' bytes''), s1)
                 else case json_fromString (de_rj (ce_db e)) clone of
                   (st, Some (JObject doc)) \<Rightarrow>
                     if \<not> ok st then Inr (failure ''Error parsing the config JSON'', s1)
                     else let status = validateConfig (JObject doc)
                          in if \<not> ok status
                             then Inr (failure (''Error validating the config JSON: '' @ st_message status), s1)
                             else apply_document e now source queries doc s1
                 | _ \<Rightarrow> Inr (failure ''Error parsing the config JSON'', s1))"

section \<open>Backups\<close>

definition kConfigPersistencePrefix :: string where
  "kConfigPersistencePrefix = ''config_persistence.''"

type_synonym ConfigMap = "(string, string) omap"

definition backupConfig :: "'d config_env \<Rightarrow> ConfigMap \<Rightarrow> 'd db_process \<Rightarrow> 'd db_process throwing" where
  "backupConfig e config p =
     exn_bind (scanDatabaseKeys (ce_db e) False kPersistentSettings [] kConfigPersistencePrefix 0 p)
       (\<lambda>(_, keys, p1).
          exn_bind
            (exn_fold (\<lambda>key p.
                 if om_has config (drop (length kConfigPersistencePrefix) key) then Inr p
                 else exn_bind (deleteDatabaseValue (ce_db e) False kPersistentSettings key p) (\<lambda>(_, p'). Inr p'))
               keys p1)
            (exn_fold (\<lambda>(source, content) p.
                 exn_bind (setDatabaseValue (ce_db e) False kPersistentSettings
                     (kConfigPersistencePrefix @ source) content p) (\<lambda>(_, p'). Inr p'))
               config))"

fun restore_keys ::
  "'d config_env \<Rightarrow> string list \<Rightarrow> ConfigMap \<Rightarrow> 'd db_process \<Rightarrow> (ConfigMap Expected \<times> 'd db_process) throwing" where
  "restore_keys e [] config p = Inr (Expected_value config, p)"
| "restore_keys e (key # keys) config p =
     exn_bind (getDatabaseValue (ce_db e) False kPersistentSettings key [] p)
       (\<lambda>(st, content, p1).
          if \<not> ok st
          then Inr (Expected_error (appendToMessage (appendToMessage
                 (createError (''osquery::Config::RestoreConfigError'', 1)) ''Could not retrieve value for the key: '') key), p1)
          else restore_keys e keys (om_set (drop (length kConfigPersistencePrefix) key) content config) p1)"

definition restoreConfigBackup ::
  "'d config_env \<Rightarrow> 'd db_process \<Rightarrow> (ConfigMap Expected \<times> 'd db_process) throwing" where
  "restoreConfigBackup e p =
     exn_bind (scanDatabaseKeys (ce_db e) False kPersistentSettings [] kConfigPersistencePrefix 0 p)
       (\<lambda>(_, keys, p1). restore_keys e keys [] p1)"

section \<open>Purging old results\<close>

definition timestamp_key :: "string \<Rightarrow> string" where
  "timestamp_key name = ''timestamp.'' @ name"

definition queryExists :: "Schedule \<Rightarrow> string \<Rightarrow> bool" where
  "queryExists s name \<longleftrightarrow> list_ex (\<lambda>pk. list_ex (\<lambda>q. sq_name q = name) (pk_schedule pk)) (packs s)"

definition db_set :: "'d config_env \<Rightarrow> string \<Rightarrow> string \<Rightarrow> string \<Rightarrow> 'd db_process \<Rightarrow> 'd db_process throwing" where
  "db_set e domain key content p =
     exn_bind (setDatabaseValue (ce_db e) False domain key content p) (\<lambda>(_, p'). Inr p')"

definition db_delete :: "'d config_env \<Rightarrow> string \<Rightarrow> string \<Rightarrow> 'd db_process \<Rightarrow> 'd db_process throwing" where
  "db_delete e domain key p =
     exn_bind (deleteDatabaseValue (ce_db e) False domain key p) (\<lambda>(_, p'). Inr p')"

definition purge_key ::
  "'d config_env \<Rightarrow> u64 \<Rightarrow> Schedule \<Rightarrow> string \<Rightarrow> 'd db_process \<Rightarrow> 'd db_process throwing" where
  "purge_key e now s saved_query p =
     (if queryExists s saved_query then Inr p
      else exn_bind (getDatabaseValue (ce_db e) False kPersistentSettings (timestamp_key saved_query) [] p)
        (\<lambda>(_, content, p1).
           if content = [] then db_set e kPersistentSettings (timestamp_key saved_query) (to_string_u64 now) p1
           else case bo_lexical_u64 (ce_boost e) content of
             None \<Rightarrow> db_delete e kPersistentSettings (timestamp_key saved_query) p1
           | Some last_run \<Rightarrow>
               if last_run < now - 592200 then
                 exn_bind (db_delete e kQueries saved_query p1)
                   (\<lambda>p2. exn_bind (db_delete e kQueries (saved_query @ ''epoch'') p2)
                     (\<lambda>p3. exn_bind (db_delete e kPersistentSettings (splay_key saved_query) p3)
                       (db_delete e kPersistentSettings (timestamp_key saved_query))))
               else Inr p1))"

definition purge :: "'d config_env \<Rightarrow> u64 \<Rightarrow> Schedule \<Rightarrow> 'd db_process \<Rightarrow> 'd db_process throwing" where
  "purge e now s p =
     exn_bind (scanDatabaseKeys (ce_db e) False kQueries [] [] 0 p)
       (\<lambda>(_, saved_queries, p1). exn_fold (purge_key e now s) saved_queries p1)"

section \<open>Updates and refreshes\<close>

text \<open>The loop over the sources: the flag says whether any of them changed.\<close>

fun update_sources ::
  "'d config_env \<Rightarrow> u64 \<Rightarrow> ConfigMap \<Rightarrow> bool \<Rightarrow> 'd config_state \<Rightarrow> (Status \<times> bool \<times> 'd config_state) throwing" where
  "update_sources e now [] needs s = Inr (success, needs, s)"
| "update_sources e now ((source, content) # rest) needs s =
     exn_bind (updateSource e now source content s)
       (\<lambda>(st, s1).
          if st_code st = 2 then update_sources e now rest needs s1
          else if \<not> ok st then Inr (st, needs, s1)
          else update_sources e now rest True s1)"

text \<open>An extension first forwards the sources to the core and stops at the first failure.\<close>

fun forward_sources :: "'d config_env \<Rightarrow> ConfigMap \<Rightarrow> Status" where
  "forward_sources e [] = success"
| "forward_sources e ((source, content) # rest) =
     (let st = ce_forward e source content in if \<not> ok st then st else forward_sources e rest)"

definition reconfigure :: "'d config_state \<Rightarrow> 'd config_state" where
  "reconfigure s =
     s\<lparr>cs_reconfigured := cs_reconfigured s @
         (if cf_loaded (cs_config s) then [Reconfigure_registries] else []) @ [Reconfigure_loggers]\<rparr>"

definition config_update ::
  "'d config_env \<Rightarrow> u64 \<Rightarrow> ConfigMap \<Rightarrow> 'd config_state \<Rightarrow> (Status \<times> 'd config_state) throwing" where
  "config_update e now config s =
     (let forwarded = (if ce_external e then forward_sources e config else success)
      in if \<not> ok forwarded then Inr (forwarded, s)
         else exn_bind (purge e now (cf_schedule (cs_config s)) (cs_db s))
           (\<lambda>p. exn_bind (update_sources e now config False (set_cs_db p s))
              (\<lambda>(st, needs_reconfigure, s1).
                 if \<not> ok st then Inr (st, s1)
                 else let s2 = (if needs_reconfigure then reconfigure s1 else s1)
                      in if config_enable_backup e
                         then exn_bind (backupConfig e config (cs_db s2)) (\<lambda>p'. Inr (success, set_cs_db p' s2))
                         else Inr (success, s2))))"

definition setRefresh :: "u64 \<Rightarrow> Config \<Rightarrow> Config" where
  "setRefresh n c = c\<lparr>refresh_sec := n\<rparr>"

definition refresh_failed ::
  "'d config_env \<Rightarrow> u64 \<Rightarrow> Status \<Rightarrow> 'd config_state \<Rightarrow> (Status \<times> 'd config_state) throwing" where
  "refresh_failed e now status s =
     (let s1 = with_config (\<lambda>c. (if config_refresh e > 0 \<and> refresh_sec c = config_refresh e
                                   then setRefresh (config_accelerated_refresh e) c else c)\<lparr>cf_loaded := True\<rparr>) s
      in if config_enable_backup e \<and> is_first_time_refresh (cs_config s1) then
           (let s2 = with_config (\<lambda>c. c\<lparr>is_first_time_refresh := False\<rparr>) s1
            in exn_bind (restoreConfigBackup e (cs_db s2))
                 (\<lambda>(r, p). case object r of
                    Inr err \<Rightarrow> Inr (failure (error_getMessage err), set_cs_db p s2)
                  | Inl config \<Rightarrow> exn_bind (config_update e now config (set_cs_db p s2)) (\<lambda>(_, s3). Inr (status, s3))))
         else Inr (status, s1))"

definition refresh ::
  "'d config_env \<Rightarrow> u64 \<Rightarrow> 'd config_state \<Rightarrow> (Status \<times> 'd config_state) throwing" where
  "refresh e now s =
     (let (status, response) = ce_genConfig e
      in if \<not> ok status then refresh_failed e now status s
         else let s1 = with_config (\<lambda>c. (if refresh_sec c \<noteq> config_refresh e then setRefresh (config_refresh e) c else c)
                          \<lparr>cf_valid := True\<rparr>) s;
                  fin = with_config (\<lambda>c. c\<lparr>is_first_time_refresh := False, cf_loaded := True\<rparr>)
              in case response of
                   [] \<Rightarrow> Inr (status, fin s1)
                 | config # _ \<Rightarrow>
                     if config_dump e
                     then Inr (success, s1\<lparr>cs_shutdown := requestShutdown 0 (cs_shutdown s1)\<rparr>)
                     else exn_bind (config_update e now config s1) (\<lambda>(st, s2). Inr (st, fin s2)))"

definition load ::
  "'d config_env \<Rightarrow> bool \<Rightarrow> string \<Rightarrow> u64 \<Rightarrow> 'd config_state \<Rightarrow> (Status \<times> 'd config_state) throwing" where
  "load e plugin_exists config_plugin now s =
     (let s1 = with_config (\<lambda>c. c\<lparr>cf_valid := False\<rparr>) s
      in if \<not> plugin_exists then Inr (Status_msg 1 (''Missing config plugin '' @ config_plugin), s1)
         else refresh e now (with_config (\<lambda>c.
                let c1 = setRefresh (config_refresh e) c
                in if \<not> config_check e \<and> \<not> started_thread c1 \<and> refresh_sec c1 > 0
                   then c1\<lparr>started_thread := True\<rparr> else c1) s1))"

definition config_reset ::
  "'d config_env \<Rightarrow> u64 \<Rightarrow> 'd config_state \<Rightarrow> 'd config_state throwing" where
  "config_reset e now s =
     exn_bind (Schedule_new e now (cs_db s))
       (\<lambda>(sched, p). Inr ((set_cs_db p s)\<lparr>cs_config :=
            \<lparr>cf_schedule = sched, cf_files = [], cf_hash = [], cf_valid = False, cf_loaded = False,
             started_thread = False, refresh_sec = 0, is_first_time_refresh = True\<rparr>\<rparr>))"

text \<open>
  The thread that refreshes: each turn of its loop is the interruption before the pause, the one after it, the
  environment and the time the refresh meets. The pauses are recorded.\<close>

fun ConfigRefreshRunner_start ::
  "(bool \<times> bool \<times> 'd config_env \<times> u64) list \<Rightarrow> 'd config_state \<Rightarrow> u64 list \<Rightarrow> ('d config_state \<times> u64 list) throwing" where
  "ConfigRefreshRunner_start [] s pauses = Inr (s, pauses)"
| "ConfigRefreshRunner_start ((stop0, stop1, e, now) # turns) s pauses =
     (if stop0 then Inr (s, pauses)
      else let pauses1 = pauses @ [refresh_sec (cs_config s)]
           in if stop1 then Inr (s, pauses1)
              else exn_bind (refresh e now s) (\<lambda>(_, s1). ConfigRefreshRunner_start turns s1 pauses1))"

section \<open>Recording executions\<close>

definition recordQueryStart :: "'d config_env \<Rightarrow> u64 \<Rightarrow> string \<Rightarrow> 'd db_process \<Rightarrow> 'd db_process throwing" where
  "recordQueryStart e now name p =
     exn_bind (db_set e kPersistentSettings kExecutingQuery name p)
       (db_set e kPersistentSettings (timestamp_key name) (to_string_u64 now))"

definition recordQueryPerformance ::
  "'d config_env \<Rightarrow> u64 \<Rightarrow> bool \<Rightarrow> string \<Rightarrow> u64 \<Rightarrow> u64 \<Rightarrow> Row \<Rightarrow> Row \<Rightarrow> 'd db_process \<Rightarrow> 'd db_process throwing" where
  "recordQueryPerformance e now limit_hit name delay_ms sz r0 r1 p =
     exn_bind (getDatabaseValue (ce_db e) False kQueryPerformance name [] p)
       (\<lambda>(st, csv, p1).
          exn_bind (perf_update now delay_ms sz r0 r1
              (if ok st then QueryPerformance_of (ce_boost e) csv else QueryPerformance_new))
            (\<lambda>query. exn_bind (db_set e kQueryPerformance name (toCSV query) p1)
               (\<lambda>p2. if \<not> limit_hit then db_set e kPersistentSettings kExecutingQuery [] p2 else Inr p2)))"

definition getPerformanceStats ::
  "'d config_env \<Rightarrow> string \<Rightarrow> 'd db_process \<Rightarrow> (QueryPerformance option \<times> 'd db_process) throwing" where
  "getPerformanceStats e name p =
     exn_bind (getDatabaseValue (ce_db e) False kQueryPerformance name [] p)
       (\<lambda>(st, csv, p1). Inr (if ok st then Some (QueryPerformance_of (ce_boost e) csv) else None, p1))"

section \<open>Requests to a config plugin\<close>

definition ConfigPlugin_call ::
  "'d config_env \<Rightarrow> u64 \<Rightarrow> (Status \<times> ConfigMap) \<Rightarrow> (string \<Rightarrow> string \<Rightarrow> Status \<times> string) \<Rightarrow> (string \<Rightarrow> string)
   \<Rightarrow> PluginRequest \<Rightarrow> 'd config_state \<Rightarrow> (Status \<times> PluginResponse \<times> 'd config_state) throwing" where
  "ConfigPlugin_call e now gen_config gen_pack flag_value request s =
     (case om_get request ''action'' of
        None \<Rightarrow> Inr (failure ''Config plugins require an action'', [], s)
      | Some action \<Rightarrow>
          if action = ''genConfig'' then Inr (fst gen_config, [snd gen_config], s)
          else if action = ''genPack'' then
            (case (om_get request ''name'', om_get request ''value'') of
               (Some name, Some val) \<Rightarrow> (let (st, pack) = gen_pack name val in Inr (st, [[(name, pack)]], s))
             | _ \<Rightarrow> Inr (Status_msg 1 ''Missing name or value'', [], s))
          else if action = ''update'' then
            (case (om_get request ''source'', om_get request ''data'') of
               (Some source, Some data) \<Rightarrow>
                 exn_bind (config_update e now [(source, data)] s) (\<lambda>(st, s'). Inr (st, [], s'))
             | _ \<Rightarrow> Inr (Status_msg 1 ''Missing source or data'', [], s))
          else if action = ''option'' then
            (case om_get request ''name'' of
               None \<Rightarrow> Inr (Status_msg 1 ''Missing option name'', [], s)
             | Some name \<Rightarrow> Inr (success, [[(''name'', name), (''value'', flag_value name)]], s))
          else Inr (Status_msg 1 (''Config plugin action unknown: '' @ action), [], s))"

section \<open>The depth of a document\<close>

fun json_depth :: "json \<Rightarrow> nat" where
  "json_depth (JObject ms) = Suc (foldr max (map (\<lambda>(_, j). json_depth j) ms) 0)"
| "json_depth (JArray js) = Suc (foldr max (map json_depth js) 0)"
| "json_depth _ = 1"

definition max_depth :: "json list \<Rightarrow> nat" where
  "max_depth js = foldr max (map json_depth js) 0"

lemma foldr_max_append: "foldr max xs n = max (foldr max xs 0) (n :: nat)"
  by (induction xs) auto

lemma max_depth_simps [simp]:
  "max_depth [] = 0" "max_depth (j # js) = max (json_depth j) (max_depth js)"
  "max_depth (xs @ ys) = max (max_depth xs) (max_depth ys)"
  using foldr_max_append [of "map json_depth xs" "max_depth ys"] by (simp_all add: max_depth_def)

lemma json_depth_children: "json_depth j = Suc (max_depth (json_children j))"
  by (cases j) (simp_all add: max_depth_def json_children_def comp_def case_prod_unfold)

lemma max_depth_zero: "max_depth js = 0 \<longleftrightarrow> js = []"
  by (cases js) (auto simp: json_depth_children)

lemma drain_level_all: "drain_level (length xs) (xs @ ys) = ys @ concat (map json_children xs)"
  by (induction xs arbitrary: ys) simp_all

lemma max_depth_next: "max_depth (concat (map json_children js)) = max_depth js - 1"
  by (induction js) (auto simp: json_depth_children)

lemma validate_levels_depth: "validate_levels n js = [] \<longleftrightarrow> max_depth js \<le> n"
proof (induction n arbitrary: js)
  case (Suc n)
  show ?case
    using Suc [of "concat (map json_children js)"] drain_level_all [of js "[]"] max_depth_next [of js]
    by (cases "js = []") auto
qed (simp add: max_depth_zero)

text \<open>
  \<open>validateConfig\<close>, which walks the document level by level with a queue, accepts exactly the
  objects that are nested at most 32 levels deep, as a recursive definition of depth counts them.\<close>

theorem validateConfig_depth:
  "ok (validateConfig j) \<longleftrightarrow> IsObject j \<and> json_depth j \<le> 32"
  using validate_levels_depth [of 32 "[j]"] by (simp add: validateConfig_def kMaxConfigDepth_def)

end
