(* ===== verification/PrefixScans.thy ===== *)
theory PrefixScans
  imports Database
begin

text \<open>
  Scans by prefix. A plugin's scan returns the keys that start with a prefix; the in-memory plugin reads
  past the end of a key that is a proper prefix of the wanted one, so the law asks that there is none.
\<close>

locale prefix_database = reliable_database +
  assumes scan_prefix_law: "ok_db d \<Longrightarrow> \<forall>k \<in> set (dkeys d domain). \<not> strict_prefix k pfx \<Longrightarrow>
    \<exists>st. db_scan ops domain ks pfx 0 d = Inr (st, ks @ filter (prefix pfx) (dkeys d domain)) \<and> ok st"
begin

lemma scan_prefix:
  assumes "db_ready ok_db p" "de_ops e = ops" "domain \<noteq> []"
    and "\<And>k. db_view look p domain k \<noteq> None \<Longrightarrow> \<not> strict_prefix k pfx"
  obtains st keys where "scanDatabaseKeys e False domain [] pfx 0 p = Inr (st, keys, p)" "ok st"
    "set keys = {k. db_view look p domain k \<noteq> None \<and> prefix pfx k}" "sorted_wrt (<) keys"
proof -
  obtain d where d: "db_state p = Some d" "ok_db d" "db_view look p = look d"
    using assms(1) by (rule ready_view)
  obtain st where g: "db_scan ops domain [] pfx 0 d = Inr (st, filter (prefix pfx) (dkeys d domain))" "ok st"
    using scan_prefix_law [OF d(2), of domain pfx "[]"] assms(4) dkeys_law [OF d(2), of domain] d(3) by auto
  have "scanDatabaseKeys e False domain [] pfx 0 p = Inr (st, filter (prefix pfx) (dkeys d domain), p)"
    using assms d g by (auto simp: scanDatabaseKeys_def read_plugin_ready [OF assms(1) d(1)] db_ready_def)
  moreover have "set (filter (prefix pfx) (dkeys d domain)) = {k. db_view look p domain k \<noteq> None \<and> prefix pfx k}"
    using dkeys_law [OF d(2), of domain] d(3) by auto
  moreover have "sorted_wrt (<) (filter (prefix pfx) (dkeys d domain))"
    by (rule sorted_wrt_filter [OF dkeys_sorted [OF d(2)]])
  ultimately show thesis using g(2) by (intro that)
qed

end

lemma mismatch_prefix_ok: "\<not> strict_prefix k pfx \<Longrightarrow> mismatch_prefix pfx k = Inr (prefix pfx k)"
  by (induction pfx k rule: mismatch_prefix.induct) (auto simp: strict_prefix_def)

lemma eph_scan_loop_prefix:
  "\<forall>k \<in> set ks. \<not> strict_prefix k pfx \<Longrightarrow> eph_scan_loop pfx 0 ks rs = Inr (rs @ filter (prefix pfx) ks)"
  by (induction ks arbitrary: rs) (auto simp: Let_def mismatch_prefix_ok)

interpretation ephp: prefix_database EphemeralDatabasePlugin eph_look eph_keys eph_inv
proof (unfold_locales, goal_cases)
  case (1 d domain pfx ks)
  then have "eph_scan_loop pfx 0 (eph_keys d domain) ks = Inr (ks @ filter (prefix pfx) (eph_keys d domain))"
    by (intro eph_scan_loop_prefix)
  then show ?case
    by (cases "om_get d domain") (simp_all add: EphemeralDatabasePlugin_def eph_scan_def eph_keys_def eph_domain_def om_keys_def)
qed

end
