(* ===== verification/ConfigSafety.thy ===== *)
theory ConfigSafety
  imports Config PrefixScans
begin

text \<open>
  What the configuration keeps in the database and how it survives restarts: the denylist, the query that
  was executing when the process ended, the backup of the configuration, and the purge of old results.
\<close>

section \<open>Writes of the configuration on a reliable store\<close>

context reliable_database
begin

lemma db_set_ok:
  assumes "db_ready ok_db p" "de_ops (ce_db e) = ops" "domain \<noteq> []"
  obtains p' where "db_set e domain k v p = Inr p'" "db_ready ok_db p'"
    "db_view look p' = view_put domain [(k, v)] (db_view look p)"
  using set_value [OF assms, of k v] by (auto simp: db_set_def)

lemma db_delete_ok:
  assumes "db_ready ok_db p" "de_ops (ce_db e) = ops" "domain \<noteq> []"
  obtains p' where "db_delete e domain k p = Inr p'" "db_ready ok_db p'"
    "db_view look p' = view_del domain (\<lambda>k'. k' = k) (db_view look p)"
  using delete_value_ok [OF assms, of k] by (auto simp: db_delete_def)

lemma save_denylist_ok:
  assumes "db_ready ok_db p" "de_ops (ce_db e) = ops"
  obtains p' where "saveScheduleDenylist e d p = Inr p'" "db_ready ok_db p'"
    "db_view look p' = view_put kPersistentSettings [(kFailedQueries, denylist_content d)] (db_view look p)"
  using set_value [OF assms, of kPersistentSettings kFailedQueries "denylist_content d"]
  by (auto simp: saveScheduleDenylist_def)

end

section \<open>The denylist survives a restart\<close>

definition denylist_fields :: "(string, u64) omap \<Rightarrow> string list" where
  "denylist_fields d = concat (map (\<lambda>(name, expire). [name, to_string_u64 expire]) d)"

lemma fold_content_append:
  assumes "list_all (\<lambda>(n, _). n \<noteq> []) d" "c \<noteq> []"
  shows "fold (\<lambda>(name, expire) content.
         (if content \<noteq> [] then content @ '':'' else content) @ name @ '':'' @ to_string_u64 expire) d c =
     (if d = [] then c else c @ '':'' @ join_with (denylist_fields d) '':'')"
  using assms
proof (induction d arbitrary: c)
  case (Cons a d)
  obtain n x where a: "a = (n, x)" by (cases a)
  have c: "c @ '':'' @ n @ '':'' @ to_string_u64 x \<noteq> []" by simp
  have "join_with (denylist_fields ((n, x) # d)) '':'' =
      n @ '':'' @ to_string_u64 x @ (if d = [] then [] else '':'' @ join_with (denylist_fields d) '':'')"
  proof (cases d)
    case (Cons b d')
    then show ?thesis by (cases b) (simp add: denylist_fields_def)
  qed (simp add: denylist_fields_def)
  then show ?case using Cons.IH [OF _ c] Cons.prems by (simp add: a)
qed simp

lemma denylist_content_join:
  assumes "list_all (\<lambda>(n, _). n \<noteq> []) d"
  shows "denylist_content d = join_with (denylist_fields d) '':''"
proof (cases d)
  case (Cons a d')
  obtain n x where a: "a = (n, x)" by (cases a)
  have c: "n @ '':'' @ to_string_u64 x \<noteq> []" by simp
  have "denylist_content d = (if d' = [] then n @ '':'' @ to_string_u64 x
      else (n @ '':'' @ to_string_u64 x) @ '':'' @ join_with (denylist_fields d') '':'')"
    using fold_content_append [of d' "n @ '':'' @ to_string_u64 x"] assms c
    by (simp add: denylist_content_def Cons a)
  also have "\<dots> = join_with (denylist_fields d) '':''"
  proof (cases d')
    case (Cons b d'')
    then show ?thesis using \<open>d = a # d'\<close> by (cases b) (simp add: denylist_fields_def a)
  qed (simp add: denylist_fields_def a Cons)
  finally show ?thesis .
qed (simp add: denylist_content_def denylist_fields_def)

definition denylist_ok :: "(string, u64) omap \<Rightarrow> bool" where
  "denylist_ok d \<longleftrightarrow> om_wf d \<and> list_all (\<lambda>(n, x). field_ok (CHR '':'') n \<and> x < 2 ^ 63) d"

definition denied_at :: "u64 \<Rightarrow> (string, u64) omap \<Rightarrow> (string, u64) omap" where
  "denied_at now d = filter (\<lambda>(_, x). now < x) d"

lemma denylist_pairs_fields:
  assumes "list_all (\<lambda>(n, x). x < 2 ^ 63) d"
  shows "denylist_pairs now (denylist_fields d) acc = fold (\<lambda>(n, x). om_set n x) (denied_at now d) acc"
  using assms
proof (induction d arbitrary: acc)
  case (Cons a d)
  obtain n x where a: "a = (n, x)" by (cases a)
  have v: "longlong_value (to_string_u64 x) = Some (uint x)" using Cons.prems by (simp add: a longlong_value_u64)
  have "0 < uint x" if "now < x" using that le_less_trans [OF uint_ge_0 [of now]] by (simp add: word_less_def)
  then show ?case using Cons by (simp add: a denylist_fields_def v denied_at_def Let_def)
qed (simp add: denylist_fields_def denied_at_def)

lemma denylist_split:
  assumes "boost_ok bo" "denylist_ok d"
  shows "osq_split bo (denylist_content d) '':'' = denylist_fields d"
proof (cases "d = []")
  case False
  have "list_all (\<lambda>(n, _). n \<noteq> []) d" using assms(2) by (auto simp: denylist_ok_def list_all_iff field_ok_def)
  moreover have "list_all (field_ok (CHR '':'')) (denylist_fields d)"
    using assms(2) by (auto simp: denylist_ok_def list_all_iff denylist_fields_def)
  moreover have "denylist_fields d \<noteq> []" using False by (cases d) (auto simp: denylist_fields_def)
  ultimately show ?thesis using assms(1) by (simp add: denylist_content_join osq_split_join)
qed (simp add: denylist_content_def denylist_fields_def osq_split_empty assms(1))

lemma denylist_fields_even: "even (length (denylist_fields d))"
  by (induction d) (auto simp: denylist_fields_def)

context reliable_database
begin

lemma restore_denylist_ok:
  assumes "db_ready ok_db p" "de_ops (ce_db e) = ops" "boost_ok (ce_boost e)" "denylist_ok d"
    and "db_view look p kPersistentSettings kFailedQueries = Some (denylist_content d)"
  shows "restoreScheduleDenylist e now [] p = Inr (denied_at now d, p)"
proof -
  obtain st where g: "getDatabaseValue (ce_db e) False kPersistentSettings kFailedQueries [] p =
      Inr (st, denylist_content d, p)"
    using get_some [OF assms(1,2) _ assms(5), of False] by auto
  have "om_wf (denied_at now d)" using assms(4) by (simp add: denied_at_def om_wf_filter denylist_ok_def)
  moreover have "list_all (\<lambda>(n, x). x < 2 ^ 63) d" using assms(4) by (auto simp: denylist_ok_def list_all_iff)
  ultimately have "denylist_pairs now (denylist_fields d) [] = denied_at now d"
    by (simp add: denylist_pairs_fields fold_om_set_self)
  moreover have "denylist_fields d = [] \<Longrightarrow> denied_at now d = []"
    by (cases d) (auto simp: denylist_fields_def denied_at_def)
  ultimately show ?thesis
    using denylist_fields_even [of d] by (auto simp: restoreScheduleDenylist_def g denylist_split assms Let_def)
qed

lemma restore_denylist_none:
  assumes "db_ready ok_db p" "de_ops (ce_db e) = ops" "boost_ok (ce_boost e)"
    and "db_view look p kPersistentSettings kFailedQueries = None"
  shows "restoreScheduleDenylist e now [] p = Inr ([], p)"
  using get_value [OF assms(1,2), of kPersistentSettings False kFailedQueries] assms
  by (auto simp: restoreScheduleDenylist_def osq_split_empty)

end

section \<open>Denied queries are not run\<close>

text \<open>Any callback, with the names it was called for.\<close>

definition logged ::
  "(string \<Rightarrow> ScheduledQuery \<Rightarrow> 'd db_process \<times> 'x \<Rightarrow> ('d db_process \<times> 'x) throwing)
   \<Rightarrow> string \<Rightarrow> ScheduledQuery \<Rightarrow> 'd db_process \<times> 'x \<times> string list \<Rightarrow> ('d db_process \<times> 'x \<times> string list) throwing" where
  "logged predicate name query = (\<lambda>(p, x, calls). exn_bind (predicate name query (p, x)) (\<lambda>(p', x'). Inr (p', x', calls @ [name])))"

lemma logged_Inr_iff:
  "logged predicate name query (p, x, calls) = Inr (p', x', calls') \<longleftrightarrow>
   predicate name query (p, x) = Inr (p', x') \<and> calls' = calls @ [name]"
  by (auto simp: logged_def exn_bind_Inr_iff)

lemma om_get_del_other: "k \<noteq> k' \<Longrightarrow> om_get (om_del k m) k' = om_get m k'"
  by (induction k m rule: om_del.induct) (auto simp: om_get_def)

lemma deny_query_cases:
  assumes "deny_query e now False n query (s, p) = Inr (skip, query', s', p')"
    and "om_get (denylist s) name = Some blt" "n = name \<longrightarrow> \<not> denylistExpired e now blt query"
  shows "om_get (denylist s') name = Some blt \<and> (n = name \<longrightarrow> skip) \<and> sq_name query' = sq_name query"
  using assms
  by (cases "n = name")
    (auto simp: deny_query_def exn_bind_Inr_iff Let_def om_get_del_other split: option.splits if_splits)

lemma pack_scheduledQueries_denied:
  assumes "pack_scheduledQueries e now (logged predicate) (\<lambda>(x, _). stop x) False pack qs (s, p, x, calls) =
      Inr (qs', s', p', x', calls')"
    and "om_get (denylist s) name = Some blt" "name \<notin> set calls"
    and "\<forall>q \<in> set qs. getQueryName (ce_delimiter e) pack (sq_name q) = name \<longrightarrow> \<not> denylistExpired e now blt q"
  shows "om_get (denylist s') name = Some blt \<and> name \<notin> set calls'"
  using assms
proof (induction qs arbitrary: s p x calls qs')
  case (Cons q qs)
  let ?n = "getQueryName (ce_delimiter e) pack (sq_name q)"
  obtain skip q1 s1 p1 where d: "deny_query e now False ?n q (s, p) = Inr (skip, q1, s1, p1)"
    using Cons.prems(1) by (auto simp: exn_bind_Inr_iff Let_def)
  have D: "om_get (denylist s1) name = Some blt \<and> (?n = name \<longrightarrow> skip)"
    using deny_query_cases [OF d Cons.prems(2)] Cons.prems(4) by auto
  show ?case
  proof (cases skip)
    case True
    then obtain qs'' where "pack_scheduledQueries e now (logged predicate) (\<lambda>(x, _). stop x) False pack qs (s1, p1, x, calls) =
      Inr (qs'', s', p', x', calls')"
      using Cons.prems(1) by (auto simp: exn_bind_Inr_iff Let_def d)
    then show ?thesis using Cons.IH D Cons.prems(3,4) by auto
  next
    case False
    then have ne: "?n \<noteq> name" using D by blast
    obtain p2 x2 where P: "predicate ?n q1 (p1, x) = Inr (p2, x2)"
      and rest: "(if stop x2 then s' = s1 \<and> calls' = calls @ [?n]
        else \<exists>qs''. pack_scheduledQueries e now (logged predicate) (\<lambda>(x, _). stop x) False pack qs
             (s1, p2, x2, calls @ [?n]) = Inr (qs'', s', p', x', calls'))"
      using Cons.prems(1) False by (auto simp: exn_bind_Inr_iff Let_def d logged_Inr_iff split: if_splits)
    show ?thesis using rest ne D Cons.IH [of s1 p2 x2 "calls @ [?n]"] Cons.prems(3,4) by (auto split: if_splits)
  qed
qed auto

lemma shouldPackExecute_frame:
  "shouldPackExecute r t sql pk = (b, pk') \<Longrightarrow> pk_name pk' = pk_name pk \<and> pk_schedule pk' = pk_schedule pk"
  by (auto simp: shouldPackExecute_def checkDiscovery_def Let_def split: if_splits)

lemma packs_scheduledQueries_denied:
  assumes "packs_scheduledQueries e now (logged predicate) (\<lambda>(x, _). stop x) False pks (s, p, x, calls) =
      Inr (pks', s', p', x', calls')"
    and "om_get (denylist s) name = Some blt" "name \<notin> set calls"
    and "\<forall>pk \<in> set pks. \<forall>q \<in> set (pk_schedule pk).
      getQueryName (ce_delimiter e) (pk_name pk) (sq_name q) = name \<longrightarrow> \<not> denylistExpired e now blt q"
  shows "om_get (denylist s') name = Some blt \<and> name \<notin> set calls'"
  using assms
proof (induction pks arbitrary: s p x calls pks')
  case (Cons pk pks)
  obtain run pk1 where r: "shouldPackExecute (pack_refresh_interval (ce_pack e)) now (ce_discovery e) pk = (run, pk1)"
    by fastforce
  note F = shouldPackExecute_frame [OF r]
  obtain qs s1 p1 x1 calls1 pks'' where 1:
    "(if run then pack_scheduledQueries e now (logged predicate) (\<lambda>(x, _). stop x) False (pk_name pk1) (pk_schedule pk1) (s, p, x, calls)
      else Inr (pk_schedule pk1, s, p, x, calls)) = Inr (qs, s1, p1, x1, calls1)"
    "packs_scheduledQueries e now (logged predicate) (\<lambda>(x, _). stop x) False pks (s1, p1, x1, calls1) =
      Inr (pks'', s', p', x', calls')"
    using Cons.prems(1) by (auto simp: exn_bind_Inr_iff r Let_def)
  have "om_get (denylist s1) name = Some blt \<and> name \<notin> set calls1"
  proof (cases run)
    case True
    then show ?thesis
      using pack_scheduledQueries_denied [of e now predicate stop "pk_name pk1" "pk_schedule pk1" s p x calls qs s1 p1 x1 calls1 name blt]
        1(1) Cons.prems F by simp
  qed (use 1(1) Cons.prems in simp)
  then show ?case using Cons.IH [OF 1(2)] Cons.prems(4) by simp
qed auto

section \<open>Properties\<close>

context reliable_database
begin

lemma Schedule_new_after_crash:
  assumes "db_ready ok_db p" "de_ops (ce_db e) = ops" "boost_ok (ce_boost e)" "denylist_ok d"
    and "db_view look p kPersistentSettings kFailedQueries = Some (denylist_content d)"
    and "name \<noteq> []" "\<not> ce_external e" "ce_disable_watchdog e = ''false''"
  obtains p1 s p2 where "recordQueryStart e t name p = Inr p1" "Schedule_new e now p1 = Inr (s, p2)"
    "denylist s = om_set name (now + 86400) (denied_at now d)" "failed_query s = name" "packs s = []"
    "db_ready ok_db p2" "db_view look p2 kPersistentSettings kExecutingQuery = Some []"
    "db_view look p2 kPersistentSettings kFailedQueries = Some (denylist_content (denylist s))"
proof -
  have keys: "kExecutingQuery \<noteq> kFailedQueries" "timestamp_key name \<noteq> kFailedQueries" "timestamp_key name \<noteq> kExecutingQuery"
    by (simp_all add: kExecutingQuery_def kFailedQueries_def timestamp_key_def)
  obtain p0 where p0: "db_set e kPersistentSettings kExecutingQuery name p = Inr p0" "db_ready ok_db p0"
    "db_view look p0 = view_put kPersistentSettings [(kExecutingQuery, name)] (db_view look p)"
    using db_set_ok [OF assms(1,2), of kPersistentSettings] by (metis domains_nonempty(3))
  obtain p1 where p1: "db_set e kPersistentSettings (timestamp_key name) (to_string_u64 t) p0 = Inr p1" "db_ready ok_db p1"
    "db_view look p1 = view_put kPersistentSettings [(timestamp_key name, to_string_u64 t)] (db_view look p0)"
    using db_set_ok [OF p0(2) assms(2), of kPersistentSettings] by (metis domains_nonempty(3))
  have V1: "db_view look p1 kPersistentSettings kExecutingQuery = Some name"
    "db_view look p1 kPersistentSettings kFailedQueries = Some (denylist_content d)"
    using keys assms(5) by (simp_all add: p1(3) p0(3) view_put_one)
  have R: "restoreScheduleDenylist e now [] p1 = Inr (denied_at now d, p1)"
    by (rule restore_denylist_ok [OF p1(2) assms(2-4) V1(2)])
  obtain st where g: "getDatabaseValue (ce_db e) False kPersistentSettings kExecutingQuery [] p1 = Inr (st, name, p1)"
    using get_some [OF p1(2) assms(2) _ V1(1), of False] by auto
  obtain st3 p3 where p3: "setDatabaseValue (ce_db e) False kPersistentSettings kExecutingQuery [] p1 = Inr (st3, p3)"
    "db_ready ok_db p3" "db_view look p3 = view_put kPersistentSettings [(kExecutingQuery, [])] (db_view look p1)"
    using set_value [OF p1(2) assms(2), of kPersistentSettings kExecutingQuery "[]"] by auto
  let ?d = "om_set name (now + 86400) (denied_at now d)"
  obtain p4 where p4: "saveScheduleDenylist e ?d p3 = Inr p4" "db_ready ok_db p4"
    "db_view look p4 = view_put kPersistentSettings [(kFailedQueries, denylist_content ?d)] (db_view look p3)"
    using save_denylist_ok [OF p3(2) assms(2)] by blast
  have new: "Schedule_new e now p1 = Inr (Schedule_blank\<lparr>failed_query := name, denylist := ?d\<rparr>, p4)"
    using assms(6-8) by (simp add: Schedule_new_def R g p3(1) p4(1) Let_def Schedule_blank_def)
  have start: "recordQueryStart e t name p = Inr p1" by (simp add: recordQueryStart_def p0(1) p1(1))
  have "db_view look p4 kPersistentSettings kExecutingQuery = Some []"
    "db_view look p4 kPersistentSettings kFailedQueries = Some (denylist_content ?d)"
    using keys by (simp_all add: p4(3) p3(3) view_put_one)
  then show thesis using start new p4(2) that by (simp add: Schedule_blank_def)
qed

end


definition sample_config_env :: "ephemeral_db config_env" where
  "sample_config_env =
     \<lparr>ce_pack = sample_pack_env, ce_delimiter = ''_'', ce_external = False, ce_disable_watchdog = ''false'',
      ce_events_enforce = False, ce_query_tables = (\<lambda>_. [''processes'']), ce_subscribers = [''process_events''],
      ce_discovery = (\<lambda>_. (True, 1)), ce_hash = id, ce_parsers = [], ce_genConfig = (success, []),
      ce_genPack = (\<lambda>_ _. []), ce_forward = (\<lambda>_ _. success), config_refresh = 0,
      config_accelerated_refresh = 300, config_enable_backup = True, config_dump = False, config_check = False\<rparr>"

lemma sample_config_ok:
  "de_ops (ce_db sample_config_env) = EphemeralDatabasePlugin" "boost_ok (ce_boost sample_config_env)"
  "\<not> ce_external sample_config_env" "ce_disable_watchdog sample_config_env = ''false''"
  by (simp_all add: sample_config_env_def sample_pack_env_def eph_env_ops)

definition sample_settings :: ephemeral_db where
  "sample_settings = [(kPersistentSettings, [(kFailedQueries, DbString [])])]"

lemma sample_settings_ok:
  "db_ready eph_inv (eph_process sample_settings)"
  "db_view eph_look (eph_process sample_settings) kPersistentSettings kFailedQueries = Some []"
proof -
  have "eph_inv sample_settings"
    by (auto simp: sample_settings_def eph_inv_def eph_dom_ok_def om_wf_def om_get_def)
  then show "db_ready eph_inv (eph_process sample_settings)" by (rule eph_process_ready)
  show "db_view eph_look (eph_process sample_settings) kPersistentSettings kFailedQueries = Some []"
    by (simp add: sample_settings_def eph_look_def eph_domain_def om_get_def)
qed


text \<open>
  A shutdown request ends the iteration over one pack only: with a callback that asks for a shutdown at its
  first call, the first query of every pack after it is still run.\<close>

theorem shutdown_runs_remaining_packs:
  "let q = (\<lambda>n. ScheduledQuery_new ''p'' n ''select 1'');
       pk = (\<lambda>n. Pack_blank\<lparr>pk_name := n, pk_valid := True, pk_schedule := [q ''a'', q ''b'']\<rparr>)
   in (case scheduledQueries sample_config_env 5000 (logged (\<lambda>_ _ s. Inr s)) (\<lambda>_. True) False
             (Schedule_blank\<lparr>packs := [pk ''x'', pk ''y'', pk ''z'']\<rparr>, eph_process [], (), []) of
         Inr (_, _, _, calls) \<Rightarrow> calls | Inl _ \<Rightarrow> []) = [''pack_x_a'', ''pack_y_a'', ''pack_z_a'']"
  by (simp add: scheduledQueries_def Schedule_blank_def Pack_blank_def shouldPackExecute_def checkDiscovery_def
      sample_config_env_def sample_pack_env_def ScheduledQuery_new_def deny_query_def om_get_def logged_def
      getQueryName_def Let_def word_less_nat_alt)

section \<open>The backup of the configuration\<close>

lemma prefix_append_drop: "prefix pfx k \<Longrightarrow> pfx @ drop (length pfx) k = k"
  by (auto simp: prefix_def)

context reliable_database
begin

lemma delete_fold:
  assumes "de_ops (ce_db e) = ops" "dm \<noteq> []" "db_ready ok_db p"
  shows "\<exists>p'. exn_fold (\<lambda>key p. if keep key then Inr p
             else exn_bind (deleteDatabaseValue (ce_db e) False dm key p) (\<lambda>(_, p'). Inr p')) keys p = Inr p' \<and>
    db_ready ok_db p' \<and> db_view look p' = view_del dm (\<lambda>k. k \<in> set keys \<and> \<not> keep k) (db_view look p)"
  using assms(3)
proof (induction keys arbitrary: p)
  case (Cons key keys)
  show ?case
  proof (cases "keep key")
    case True
    have "view_del dm (\<lambda>k. k \<in> set keys \<and> \<not> keep k) V = view_del dm (\<lambda>k. k \<in> set (key # keys) \<and> \<not> keep k) V" for V
      using True by (auto simp: view_del_def fun_eq_iff)
    then show ?thesis using Cons True by simp
  next
    case False
    obtain st p1 where p1: "deleteDatabaseValue (ce_db e) False dm key p = Inr (st, p1)" "db_ready ok_db p1"
      "db_view look p1 = view_del dm (\<lambda>k. k = key) (db_view look p)"
      using delete_value_ok [OF Cons.prems assms(1,2), of key] by auto
    have "view_del dm (\<lambda>k. k \<in> set keys \<and> \<not> keep k) (view_del dm (\<lambda>k. k = key) V) =
        view_del dm (\<lambda>k. k \<in> set (key # keys) \<and> \<not> keep k) V" for V
      using False by (auto simp: view_del_def fun_eq_iff)
    then show ?thesis using Cons.IH [OF p1(2)] p1 False by simp
  qed
qed (simp add: view_del_def)

lemma set_fold:
  assumes "de_ops (ce_db e) = ops" "dm \<noteq> []" "db_ready ok_db p"
  shows "\<exists>p'. exn_fold (\<lambda>(source, content) p.
             exn_bind (setDatabaseValue (ce_db e) False dm (f source) content p) (\<lambda>(_, p'). Inr p')) config p = Inr p' \<and>
    db_ready ok_db p' \<and> db_view look p' = view_put dm (map (\<lambda>(s, c). (f s, c)) config) (db_view look p)"
  using assms(3)
proof (induction config arbitrary: p)
  case (Cons a config)
  obtain s c where a: "a = (s, c)" by (cases a)
  obtain st p1 where p1: "setDatabaseValue (ce_db e) False dm (f s) c p = Inr (st, p1)" "db_ready ok_db p1"
    "db_view look p1 = view_put dm [(f s, c)] (db_view look p)"
    using set_value [OF Cons.prems assms(1,2), of "f s" c] by auto
  show ?case using Cons.IH [OF p1(2)] p1 by (auto simp: a view_put_append)
qed (simp add: view_put_def)

lemma restore_keys_ok:
  assumes "de_ops (ce_db e) = ops" "db_ready ok_db p" "\<And>k. k \<in> set keys \<Longrightarrow> db_view look p kPersistentSettings k \<noteq> None"
  shows "restore_keys e keys c p = Inr (Expected_value
    (fold (\<lambda>k. om_set (drop (length kConfigPersistencePrefix) k) (the (db_view look p kPersistentSettings k))) keys c), p)"
  using assms(3)
proof (induction keys arbitrary: c)
  case (Cons k keys)
  obtain v where v: "db_view look p kPersistentSettings k = Some v" using Cons.prems by fastforce
  obtain st where "getDatabaseValue (ce_db e) False kPersistentSettings k [] p = Inr (st, v, p)" "ok st"
    using get_some [OF assms(2,1) _ v, of False] by auto
  then show ?case using Cons v by simp
qed simp

end

lemma fold_om_set_wf: "om_wf c \<Longrightarrow> om_wf (fold (\<lambda>k. om_set (f k) (g k)) keys c)"
  by (induction keys arbitrary: c) auto

lemma fold_om_set_get:
  "\<forall>k \<in> set keys. g k = G (f k) \<Longrightarrow>
   om_get (fold (\<lambda>k. om_set (f k) (g k)) keys c) x = (if x \<in> f ` set keys then Some (G x) else om_get c x)"
  by (induction keys arbitrary: c) auto

lemma map_of_prefixed: "map_of (map (\<lambda>(s, c). (pfx @ s, c)) xs) (pfx @ s) = map_of xs s"
  by (induction xs) auto

lemma scan_backup:
  assumes "db_ready eph_inv p" "de_ops (ce_db e) = EphemeralDatabasePlugin"
    and "\<forall>k. db_view eph_look p kPersistentSettings k \<noteq> None \<longrightarrow> \<not> strict_prefix k kConfigPersistencePrefix"
  obtains st keys where
    "scanDatabaseKeys (ce_db e) False kPersistentSettings [] kConfigPersistencePrefix 0 p = Inr (st, keys, p)"
    "set keys = {k. db_view eph_look p kPersistentSettings k \<noteq> None \<and> prefix kConfigPersistencePrefix k}"
proof (rule ephp.scan_prefix [OF assms(1,2) domains_nonempty(3), of kConfigPersistencePrefix])
  fix k assume "db_view eph_look p kPersistentSettings k \<noteq> None"
  then show "\<not> strict_prefix k kConfigPersistencePrefix" using assms(3) by blast
qed blast

text \<open>A backup leaves the entries of the given configuration under its prefix, and nothing else there.\<close>

lemma backup_view:
  assumes "db_ready eph_inv p" "de_ops (ce_db e) = EphemeralDatabasePlugin" "om_wf config"
    and "\<forall>k. db_view eph_look p kPersistentSettings k \<noteq> None \<longrightarrow> \<not> strict_prefix k kConfigPersistencePrefix"
  obtains p' where "backupConfig e config p = Inr p'" "db_ready eph_inv p'"
    "\<And>k. db_view eph_look p' kPersistentSettings k =
       (if prefix kConfigPersistencePrefix k then om_get config (drop (length kConfigPersistencePrefix) k)
        else db_view eph_look p kPersistentSettings k)"
proof -
  let ?pre = kConfigPersistencePrefix
  let ?V = "db_view eph_look p"
  obtain st keys where k: "scanDatabaseKeys (ce_db e) False kPersistentSettings [] ?pre 0 p = Inr (st, keys, p)"
    "set keys = {k. ?V kPersistentSettings k \<noteq> None \<and> prefix ?pre k}"
    using scan_backup [OF assms(1,2,4)] by blast
  obtain p1 where p1: "exn_fold (\<lambda>key p. if om_has config (drop (length ?pre) key) then Inr p
      else exn_bind (deleteDatabaseValue (ce_db e) False kPersistentSettings key p) (\<lambda>(_, p'). Inr p')) keys p = Inr p1"
    "db_ready eph_inv p1"
    "db_view eph_look p1 = view_del kPersistentSettings (\<lambda>k. k \<in> set keys \<and> \<not> om_has config (drop (length ?pre) k)) ?V"
    using eph.delete_fold [OF assms(2) _ assms(1), of kPersistentSettings "\<lambda>k. om_has config (drop (length ?pre) k)" keys] by auto
  obtain p2 where p2: "exn_fold (\<lambda>(source, content) p.
      exn_bind (setDatabaseValue (ce_db e) False kPersistentSettings (?pre @ source) content p) (\<lambda>(_, p'). Inr p')) config p1 = Inr p2"
    "db_ready eph_inv p2"
    "db_view eph_look p2 = view_put kPersistentSettings (map (\<lambda>(s, c). (?pre @ s, c)) config) (db_view eph_look p1)"
    using eph.set_fold [OF assms(2) _ p1(2), of kPersistentSettings "(@) ?pre" config] by auto
  have m: "map_of (rev (map (\<lambda>(s, c). (?pre @ s, c)) config)) (?pre @ s) = om_get config s" for s
    by (simp add: rev_map map_of_prefixed map_of_rev_om [OF assms(3)])
  have "db_view eph_look p2 kPersistentSettings k =
      (if prefix ?pre k then om_get config (drop (length ?pre) k) else ?V kPersistentSettings k)" for k
  proof (cases "prefix ?pre k")
    case True
    then obtain s where s: "k = ?pre @ s" by (auto simp: prefix_def)
    have "k \<in> set keys \<or> ?V kPersistentSettings k = None" using True by (auto simp: k(2))
    then show ?thesis using True m [of s]
      by (auto simp: p2(3) p1(3) view_put_def view_del_def s om_has_def split: option.splits)
  next
    case False
    then have "map_of (rev (map (\<lambda>(s, c). (?pre @ s, c)) config)) k = None" by (auto simp: map_of_eq_None_iff)
    moreover have "k \<notin> set keys" using False by (simp add: k(2))
    ultimately show ?thesis using False by (simp add: p2(3) p1(3) view_put_def view_del_def)
  qed
  moreover have "backupConfig e config p = Inr p2" by (simp add: backupConfig_def k(1) p1(1) p2(1))
  ultimately show ?thesis by (intro that [OF _ p2(2)])
qed

text \<open>What is restored is read off the entries under the prefix.\<close>

lemma restore_view:
  assumes "db_ready eph_inv p" "de_ops (ce_db e) = EphemeralDatabasePlugin" "om_wf config"
    and "\<forall>k. db_view eph_look p kPersistentSettings k \<noteq> None \<longrightarrow> \<not> strict_prefix k kConfigPersistencePrefix"
    and V: "\<And>s. db_view eph_look p kPersistentSettings (kConfigPersistencePrefix @ s) = om_get config s"
  shows "restoreConfigBackup e p = Inr (Expected_value config, p)"
proof -
  let ?pre = kConfigPersistencePrefix
  let ?val = "\<lambda>k. the (db_view eph_look p kPersistentSettings k)"
  obtain st keys where k: "scanDatabaseKeys (ce_db e) False kPersistentSettings [] ?pre 0 p = Inr (st, keys, p)"
    "set keys = {k. db_view eph_look p kPersistentSettings k \<noteq> None \<and> prefix ?pre k}"
    using scan_backup [OF assms(1,2,4)] by blast
  define R where "R = fold (\<lambda>k. om_set (drop (length ?pre) k) (?val k)) keys []"
  have "restore_keys e keys [] p = Inr (Expected_value R, p)"
    unfolding R_def using k(2) by (intro eph.restore_keys_ok [OF assms(2,1)]) simp
  moreover have "om_get R x = om_get config x" for x
  proof -
    have G: "\<forall>k \<in> set keys. ?val k = the (om_get config (drop (length ?pre) k))"
      by (auto simp: k(2) V prefix_def)
    have "x \<in> drop (length ?pre) ` set keys \<longleftrightarrow> om_get config x \<noteq> None"
      by (force simp: k(2) V prefix_def image_iff intro: exI [of _ "?pre @ x"])
    then show ?thesis
      unfolding R_def
      using fold_om_set_get [where g = ?val and G = "\<lambda>x. the (om_get config x)" and f = "drop (length ?pre)" and keys = keys
          and c = "[]" and x = x] G
      by (auto simp: om_get_def)
  qed
  then have "R = config" using assms(3) fold_om_set_wf [of "[]"] by (intro om_eqI) (simp_all add: R_def om_wf_def)
  ultimately show ?thesis by (simp add: restoreConfigBackup_def k(1))
qed

text \<open>
  C38. The backup of a configuration is exact: after \<open>backupConfig\<close> of a configuration, whatever was backed up
  before, \<open>restoreConfigBackup\<close> gives back exactly that configuration, with the sources that are gone
  removed. No key of the settings may be a proper prefix of \<open>config_persistence.\<close>.\<close>

theorem config_backup_roundtrip:
  assumes "db_ready eph_inv p" "de_ops (ce_db e) = EphemeralDatabasePlugin" "om_wf config"
    and "\<forall>k. db_view eph_look p kPersistentSettings k \<noteq> None \<longrightarrow> \<not> strict_prefix k kConfigPersistencePrefix"
  shows "\<exists>p'. backupConfig e config p = Inr p' \<and> restoreConfigBackup e p' = Inr (Expected_value config, p')"
proof -
  obtain p' where p': "backupConfig e config p = Inr p'" "db_ready eph_inv p'"
    "\<And>k. db_view eph_look p' kPersistentSettings k =
       (if prefix kConfigPersistencePrefix k then om_get config (drop (length kConfigPersistencePrefix) k)
        else db_view eph_look p kPersistentSettings k)"
    using backup_view [OF assms] by blast
  have "restoreConfigBackup e p' = Inr (Expected_value config, p')"
    using assms(4) by (intro restore_view [OF p'(2) assms(2,3)]) (auto simp: p'(3) strict_prefix_def)
  then show ?thesis using p'(1) by blast
qed

theorem config_backup_roundtrip_witness:
  "\<exists>p'. backupConfig sample_config_env [(''a.conf'', ''{}''), (''b.conf'', ''x'')] (eph_process sample_settings) = Inr p' \<and>
     restoreConfigBackup sample_config_env p' = Inr (Expected_value [(''a.conf'', ''{}''), (''b.conf'', ''x'')], p')"
proof -
  have "\<forall>k. db_view eph_look (eph_process sample_settings) kPersistentSettings k \<noteq> None \<longrightarrow>
      \<not> strict_prefix k kConfigPersistencePrefix"
    by (auto simp: sample_settings_def eph_look_def eph_domain_def om_get_def kFailedQueries_def
        kConfigPersistencePrefix_def strict_prefix_def split: if_splits)
  then show ?thesis
    using config_backup_roundtrip [OF sample_settings_ok(1) sample_config_ok(1), of "[(''a.conf'', ''{}''), (''b.conf'', ''x'')]"]
    by (simp add: om_wf_def)
qed

section \<open>Expiration of results\<close>

definition stale :: "'d config_env \<Rightarrow> u64 \<Rightarrow> Schedule \<Rightarrow> (string \<Rightarrow> string \<Rightarrow> string option) \<Rightarrow> string \<Rightarrow> bool" where
  "stale e now s V q \<longleftrightarrow>
     \<not> queryExists s q \<and>
     (\<exists>c t. V kPersistentSettings (timestamp_key q) = Some c \<and> c \<noteq> [] \<and> bo_lexical_u64 (ce_boost e) c = Some t \<and>
        t < now - 592200)"

lemma settings_keys [simp]: "timestamp_key a = timestamp_key b \<longleftrightarrow> a = b" "timestamp_key a \<noteq> splay_key b" "splay_key b \<noteq> timestamp_key a"
  by (simp_all add: timestamp_key_def splay_key_def)

definition unstamped :: "Schedule \<Rightarrow> (string \<Rightarrow> string \<Rightarrow> string option) \<Rightarrow> string \<Rightarrow> bool" where
  "unstamped s V q \<longleftrightarrow> \<not> queryExists s q \<and> V kPersistentSettings (timestamp_key q) = None"

context reliable_database
begin

lemma purge_key_ok:
  assumes "db_ready ok_db p" "de_ops (ce_db e) = ops"
  obtains p' where "purge_key e now s q p = Inr p'" "db_ready ok_db p'"
    "\<And>k. db_view look p' kQueries k =
       (if stale e now s (db_view look p) q \<and> (k = q \<or> k = q @ ''epoch'') then None else db_view look p kQueries k)"
    "\<And>q'. q' \<noteq> q \<Longrightarrow> db_view look p' kPersistentSettings (timestamp_key q') =
       db_view look p kPersistentSettings (timestamp_key q')"
    "unstamped s (db_view look p) q \<Longrightarrow> db_view look p' kPersistentSettings (timestamp_key q) = Some (to_string_u64 now)"
proof -
  let ?V = "db_view look p"
  let ?c = "case ?V kPersistentSettings (timestamp_key q) of Some v \<Rightarrow> v | None \<Rightarrow> []"
  obtain st where g: "getDatabaseValue (ce_db e) False kPersistentSettings (timestamp_key q) [] p = Inr (st, ?c, p)"
    using get_value [OF assms, of kPersistentSettings False "timestamp_key q"] by auto
  have stale: "stale e now s ?V q \<longleftrightarrow> \<not> queryExists s q \<and> ?c \<noteq> [] \<and>
      (\<exists>t. bo_lexical_u64 (ce_boost e) ?c = Some t \<and> t < now - 592200)"
    by (auto simp: stale_def split: option.splits)
  consider "queryExists s q" | "\<not> queryExists s q" "?c = []"
    | "\<not> queryExists s q" "?c \<noteq> []" "bo_lexical_u64 (ce_boost e) ?c = None"
    | t where "\<not> queryExists s q" "?c \<noteq> []" "bo_lexical_u64 (ce_boost e) ?c = Some t" "\<not> t < now - 592200"
    | t where "\<not> queryExists s q" "?c \<noteq> []" "bo_lexical_u64 (ce_boost e) ?c = Some t" "t < now - 592200"
    by (cases "bo_lexical_u64 (ce_boost e) ?c") auto
  then show thesis
  proof cases
    case 1
    then show thesis using stale assms by (intro that [of p]) (auto simp: purge_key_def unstamped_def)
  next
    case 2
    obtain p1 where p1: "db_set e kPersistentSettings (timestamp_key q) (to_string_u64 now) p = Inr p1" "db_ready ok_db p1"
      "db_view look p1 = view_put kPersistentSettings [(timestamp_key q, to_string_u64 now)] ?V"
      by (rule db_set_ok [OF assms domains_nonempty(3)])
    have "purge_key e now s q p = Inr p1" using 2 g p1(1) by (simp add: purge_key_def)
    then show thesis using 2 stale p1(2,3) by (intro that [of p1]) (auto simp: view_put_def)
  next
    case 3
    obtain p1 where p1: "db_delete e kPersistentSettings (timestamp_key q) p = Inr p1" "db_ready ok_db p1"
      "db_view look p1 = view_del kPersistentSettings (\<lambda>k. k = timestamp_key q) ?V"
      by (rule db_delete_ok [OF assms domains_nonempty(3)])
    have "purge_key e now s q p = Inr p1" using 3 g p1(1) by (simp add: purge_key_def)
    then show thesis using 3 stale p1(2,3) by (intro that [of p1]) (auto simp: view_del_def unstamped_def)
  next
    case 4
    then show thesis using stale assms g by (intro that [of p]) (auto simp: purge_key_def unstamped_def)
  next
    case 5
    obtain p1 where p1: "db_delete e kQueries q p = Inr p1" "db_ready ok_db p1"
      "db_view look p1 = view_del kQueries (\<lambda>k. k = q) ?V"
      by (rule db_delete_ok [OF assms domains_nonempty(1)])
    obtain p2 where p2: "db_delete e kQueries (q @ ''epoch'') p1 = Inr p2" "db_ready ok_db p2"
      "db_view look p2 = view_del kQueries (\<lambda>k. k = q @ ''epoch'') (db_view look p1)"
      by (rule db_delete_ok [OF p1(2) assms(2) domains_nonempty(1)])
    obtain p3 where p3: "db_delete e kPersistentSettings (splay_key q) p2 = Inr p3" "db_ready ok_db p3"
      "db_view look p3 = view_del kPersistentSettings (\<lambda>k. k = splay_key q) (db_view look p2)"
      by (rule db_delete_ok [OF p2(2) assms(2) domains_nonempty(3)])
    obtain p4 where p4: "db_delete e kPersistentSettings (timestamp_key q) p3 = Inr p4" "db_ready ok_db p4"
      "db_view look p4 = view_del kPersistentSettings (\<lambda>k. k = timestamp_key q) (db_view look p3)"
      by (rule db_delete_ok [OF p3(2) assms(2) domains_nonempty(3)])
    have V4: "db_view look p4 kQueries k = (if k = q \<or> k = q @ ''epoch'' then None else ?V kQueries k)"
      "q' \<noteq> q \<Longrightarrow> db_view look p4 kPersistentSettings (timestamp_key q') = ?V kPersistentSettings (timestamp_key q')" for k q'
      by (simp_all add: p4(3) p3(3) p2(3) p1(3) view_del_def)
    have "purge_key e now s q p = Inr p4" using 5 g by (simp add: purge_key_def p1(1) p2(1) p3(1) p4(1))
    moreover have "\<not> unstamped s ?V q" using 5(2) by (auto simp: unstamped_def)
    ultimately show thesis using 5 stale V4 p4(2) that [of p4] by auto
  qed
qed

lemma purge_fold:
  assumes "db_ready ok_db p" "de_ops (ce_db e) = ops" "distinct keys"
  shows "\<exists>p'. exn_fold (purge_key e now s) keys p = Inr p' \<and> db_ready ok_db p' \<and>
    (\<forall>k. db_view look p' kQueries k =
       (if \<exists>q \<in> set keys. stale e now s (db_view look p) q \<and> (k = q \<or> k = q @ ''epoch'') then None
        else db_view look p kQueries k)) \<and>
    (\<forall>q. q \<notin> set keys \<longrightarrow> db_view look p' kPersistentSettings (timestamp_key q) =
       db_view look p kPersistentSettings (timestamp_key q)) \<and>
    (\<forall>q \<in> set keys. unstamped s (db_view look p) q \<longrightarrow>
       db_view look p' kPersistentSettings (timestamp_key q) = Some (to_string_u64 now))"
  using assms(1,3)
proof (induction keys arbitrary: p)
  case (Cons q keys)
  obtain p1 where p1: "purge_key e now s q p = Inr p1" "db_ready ok_db p1"
    "\<And>k. db_view look p1 kQueries k =
       (if stale e now s (db_view look p) q \<and> (k = q \<or> k = q @ ''epoch'') then None else db_view look p kQueries k)"
    "\<And>q'. q' \<noteq> q \<Longrightarrow> db_view look p1 kPersistentSettings (timestamp_key q') =
       db_view look p kPersistentSettings (timestamp_key q')"
    "unstamped s (db_view look p) q \<Longrightarrow> db_view look p1 kPersistentSettings (timestamp_key q) = Some (to_string_u64 now)"
    by (rule purge_key_ok [OF Cons.prems(1) assms(2), of now s q]) blast
  have other: "db_view look p1 kPersistentSettings (timestamp_key q') = db_view look p kPersistentSettings (timestamp_key q')"
    if "q' \<in> set keys" for q'
    using that Cons.prems(2) by (intro p1(4)) auto
  have same: "stale e now s (db_view look p1) q' \<longleftrightarrow> stale e now s (db_view look p) q'"
    "unstamped s (db_view look p1) q' \<longleftrightarrow> unstamped s (db_view look p) q'" if "q' \<in> set keys" for q'
    using other [OF that] by (simp_all add: stale_def unstamped_def)
  obtain p' where p': "exn_fold (purge_key e now s) keys p1 = Inr p'" "db_ready ok_db p'"
    "\<And>k. db_view look p' kQueries k =
       (if \<exists>q \<in> set keys. stale e now s (db_view look p1) q \<and> (k = q \<or> k = q @ ''epoch'') then None
        else db_view look p1 kQueries k)"
    and stamps: "\<And>q. q \<notin> set keys \<Longrightarrow> db_view look p' kPersistentSettings (timestamp_key q) =
       db_view look p1 kPersistentSettings (timestamp_key q)"
    "\<And>q. q \<in> set keys \<Longrightarrow> unstamped s (db_view look p1) q \<Longrightarrow>
       db_view look p' kPersistentSettings (timestamp_key q) = Some (to_string_u64 now)"
    using Cons.IH [OF p1(2)] Cons.prems(2) by auto
  have "db_view look p' kQueries k =
       (if \<exists>q' \<in> set (q # keys). stale e now s (db_view look p) q' \<and> (k = q' \<or> k = q' @ ''epoch'') then None
        else db_view look p kQueries k)" for k
    using p1(3) [of k] p'(3) [of k] same by auto
  moreover have "db_view look p' kPersistentSettings (timestamp_key q') = db_view look p kPersistentSettings (timestamp_key q')"
    if "q' \<notin> set (q # keys)" for q'
    using that stamps(1) [of q'] p1(4) [of q'] by simp
  moreover have "db_view look p' kPersistentSettings (timestamp_key q') = Some (to_string_u64 now)"
    if "q' \<in> set (q # keys)" "unstamped s (db_view look p) q'" for q'
    using that stamps p1(5) same(2) Cons.prems(2) by (cases "q' = q") auto
  ultimately show ?case using p1(1) p'(1,2) by (intro exI [of _ p']) (simp del: set_simps)
qed simp

lemma purge_ok:
  assumes "db_ready ok_db p" "de_ops (ce_db e) = ops"
  shows "\<exists>p'. purge e now s p = Inr p' \<and> db_ready ok_db p' \<and>
    (\<forall>k. db_view look p' kQueries k =
       (if \<exists>q. db_view look p kQueries q \<noteq> None \<and> stale e now s (db_view look p) q \<and> (k = q \<or> k = q @ ''epoch'')
        then None else db_view look p kQueries k)) \<and>
    (\<forall>q. db_view look p kQueries q \<noteq> None \<and> unstamped s (db_view look p) q \<longrightarrow>
       db_view look p' kPersistentSettings (timestamp_key q) = Some (to_string_u64 now))"
proof -
  obtain st keys where k: "scanDatabaseKeys (ce_db e) False kQueries [] [] 0 p = Inr (st, keys, p)"
    "set keys = {k. db_view look p kQueries k \<noteq> None}" "sorted_wrt (<) keys"
    using scan_keys [OF assms domains_nonempty(1), of False] by blast
  have "distinct keys" using k(3) by (simp add: strict_sorted_iff)
  then obtain p' where p': "exn_fold (purge_key e now s) keys p = Inr p'" "db_ready ok_db p'"
    "\<forall>k. db_view look p' kQueries k =
       (if \<exists>q \<in> set keys. stale e now s (db_view look p) q \<and> (k = q \<or> k = q @ ''epoch'') then None
        else db_view look p kQueries k)"
    "\<forall>q \<in> set keys. unstamped s (db_view look p) q \<longrightarrow>
       db_view look p' kPersistentSettings (timestamp_key q) = Some (to_string_u64 now)"
    using purge_fold [OF assms, of keys now s] by blast
  have "purge e now s p = Inr p'" using k(1) p'(1) by (simp add: purge_def)
  then show ?thesis using p'(2-4) unfolding k(2) by (intro exI [of _ p']) simp
qed

end

text \<open>
  The purge of expired results removes exactly what it means to: a stored key of the results domain is dropped
  if and only if it is a saved name, or the epoch of a saved name, that no scheduled query bears and whose
  timestamp is a number older than 592200 seconds; every other entry of the domain is left as it was.\<close>

theorem purge_expires_exactly:
  assumes "db_ready eph_inv p" "de_ops (ce_db e) = EphemeralDatabasePlugin"
  shows "\<exists>p'. purge e now s p = Inr p' \<and> db_ready eph_inv p' \<and>
    (\<forall>k. db_view eph_look p' kQueries k =
       (if \<exists>q. db_view eph_look p kQueries q \<noteq> None \<and> stale e now s (db_view eph_look p) q \<and> (k = q \<or> k = q @ ''epoch'')
        then None else db_view eph_look p kQueries k))"
  using eph.purge_ok [OF assms, of now s] by blast

theorem purge_expires_exactly_witness:
  "\<exists>p'. purge sample_config_env 1000000 (Schedule_blank) (eph_process sample_settings) = Inr p' \<and>
     db_view eph_look p' kQueries ''old'' = None"
  using purge_expires_exactly [OF sample_settings_ok(1) sample_config_ok(1), of 1000000 Schedule_blank]
  by (auto simp: sample_settings_def eph_look_def eph_domain_def om_get_def kQueries_def kPersistentSettings_def)

text \<open>
  The entry that counts the results of a query is itself taken for a saved query, since it is stored in the
  same domain under the name of the query followed by \<open>counter\<close>. The purge stamps it at its first run, nothing
  ever renews that stamp, and the first purge after a week deletes the counter of a query that never left the
  schedule, with its results still stored: the next results are logged with the counter of a new query.\<close>

theorem purge_resets_counter:
  assumes "db_ready eph_inv p" "de_ops (ce_db e) = EphemeralDatabasePlugin" "boost_ok (ce_boost e)"
    and "queryExists s n" "unstamped s (db_view eph_look p) (n @ ''counter'')"
    and "db_view eph_look p kQueries n = Some r" "db_view eph_look p kQueries (n @ ''counter'') \<noteq> None"
    and "\<forall>q. db_view eph_look p kQueries q \<noteq> None \<longrightarrow> \<not> stale e now s (db_view eph_look p) q"
    and "\<forall>q. n = q @ ''epoch'' \<longrightarrow> db_view eph_look p kQueries q = None"
    and "now < later - 592200"
  shows "\<exists>p1 p2. purge e now s p = Inr p1 \<and> purge e later s p1 = Inr p2 \<and>
    db_view eph_look p2 kQueries n = Some r \<and> db_view eph_look p2 kQueries (n @ ''counter'') = None"
proof -
  obtain p1 where p1: "purge e now s p = Inr p1" "db_ready eph_inv p1"
    "\<forall>k. db_view eph_look p1 kQueries k =
       (if \<exists>q. db_view eph_look p kQueries q \<noteq> None \<and> stale e now s (db_view eph_look p) q \<and> (k = q \<or> k = q @ ''epoch'')
        then None else db_view eph_look p kQueries k)"
    "db_view eph_look p1 kPersistentSettings (timestamp_key (n @ ''counter'')) = Some (to_string_u64 now)"
    using eph.purge_ok [OF assms(1,2), of now s] assms(5,7) by blast
  have same: "db_view eph_look p1 kQueries k = db_view eph_look p kQueries k" for k
    unfolding p1(3) [rule_format] using assms(8) by (subst if_not_P) blast+
  have "stale e later s (db_view eph_look p1) (n @ ''counter'')"
    using assms(3,5,10) p1(4) by (auto simp: stale_def unstamped_def boost_ok_def to_string_u64_def)
  moreover have "\<not> (\<exists>q. db_view eph_look p1 kQueries q \<noteq> None \<and> stale e later s (db_view eph_look p1) q \<and>
      (n = q \<or> n = q @ ''epoch''))"
    using assms(4,9) same by (auto simp: stale_def)
  ultimately show ?thesis
    using eph.purge_ok [OF p1(2) assms(2), of later s] p1(1) same assms(6,7) by auto
qed

definition sample_results :: ephemeral_db where
  "sample_results = [(kQueries, [(''pids'', DbString ''[]''), (''pidscounter'', DbString ''9'')])]"

definition sample_schedule :: Schedule where
  "sample_schedule =
     Schedule_blank\<lparr>packs := [Pack_blank\<lparr>pk_schedule := [ScheduledQuery_new ''main'' ''pids'' ''select 1'']\<rparr>]\<rparr>"

lemma sample_results_ok:
  "db_ready eph_inv (eph_process sample_results)"
  "db_view eph_look (eph_process sample_results) kQueries k =
     (if k = ''pids'' then Some ''[]'' else if k = ''pidscounter'' then Some ''9'' else None)"
  "db_view eph_look (eph_process sample_results) kPersistentSettings k = None"
proof -
  have "eph_inv sample_results"
    by (auto simp: sample_results_def eph_inv_def eph_dom_ok_def om_wf_def om_get_def)
  then show "db_ready eph_inv (eph_process sample_results)" by (rule eph_process_ready)
qed (simp_all add: sample_results_def eph_look_def eph_domain_def om_get_def kQueries_def kPersistentSettings_def)

theorem purge_resets_counter_witness:
  "\<exists>p1 p2. purge sample_config_env 1000 sample_schedule (eph_process sample_results) = Inr p1 \<and>
     purge sample_config_env 600000 sample_schedule p1 = Inr p2 \<and>
     db_view eph_look p2 kQueries ''pids'' = Some ''[]'' \<and> db_view eph_look p2 kQueries ''pidscounter'' = None"
proof -
  have q: "queryExists sample_schedule n \<longleftrightarrow> n = ''pids''" for n
    by (auto simp: queryExists_def sample_schedule_def ScheduledQuery_new_def)
  show ?thesis
    using purge_resets_counter [OF sample_results_ok(1) sample_config_ok(1,2), of sample_schedule "''pids''" "''[]''" 1000 600000]
    by (simp add: q sample_results_ok(2,3) [simplified] stale_def unstamped_def word_less_nat_alt)
qed

end
