(* ===== verification/ConfigRefresh.thy ===== *)
theory ConfigRefresh
  imports ConfigSafety
begin

text \<open>
  What an update of the configuration leaves alone (\<open>config/config.cpp\<close>), and what follows from it: a source
  is applied once for its content, a rejected configuration is reported once only, and the thread that
  refreshes waits for the normal or the accelerated delay, as the last refresh went.
\<close>

section \<open>What an update keeps\<close>

definition cf_frame :: "Config \<Rightarrow> (string, string) omap \<times> bool \<times> bool \<times> bool \<times> u64 \<times> bool" where
  "cf_frame c = (cf_hash c, cf_valid c, cf_loaded c, started_thread c, refresh_sec c, is_first_time_refresh c)"

abbreviation cs_frame :: "'d config_state \<Rightarrow> (string, string) omap \<times> bool \<times> bool \<times> bool \<times> u64 \<times> bool" where
  "cs_frame s \<equiv> cf_frame (cs_config s)"

lemma exn_bind_Inr: "exn_bind r f = Inr b \<longleftrightarrow> (\<exists>a. r = Inr a \<and> f a = Inr b)"
  by (cases r) auto

lemma removeFiles_frame [simp]: "cf_frame (removeFiles source c) = cf_frame c" "cf_schedule (removeFiles source c) = cf_schedule c"
  by (simp_all add: removeFiles_def cf_frame_def)

lemma fold_removeFiles [simp]:
  "cf_frame (fold (\<lambda>p. removeFiles (f p)) ps c) = cf_frame c"
  "cf_schedule (fold (\<lambda>p. removeFiles (f p)) ps c) = cf_schedule c"
  by (induction ps arbitrary: c) simp_all

lemma cf_frame_schedule [simp]: "cf_frame (c\<lparr>cf_schedule := x\<rparr>) = cf_frame c"
  by (simp add: cf_frame_def)

lemma config_remove_frame [simp]:
  "cf_frame (config_remove e pack source c) = cf_frame c" "cf_frame (config_removeAll e source c) = cf_frame c"
  by (simp_all add: config_remove_def config_removeAll_def Let_def)

lemma applyParsers_config [simp]: "cs_config (applyParsers e source obj s) = cs_config s"
  by (simp add: applyParsers_def Let_def)

lemma set_cs_db_config [simp]: "cs_config (set_cs_db p s) = cs_config s" "cs_db (set_cs_db p s) = p"
  by (simp_all add: set_cs_db_def cs_db_def)

lemma with_config_config [simp]: "cs_config (with_config f s) = f (cs_config s)" "cs_db (with_config f s) = cs_db s"
  by (simp_all add: with_config_def cs_db_def)

lemma addSinglePack_frame: "addSinglePack e now source name obj s = Inr s' \<Longrightarrow> cs_frame s' = cs_frame s"
  by (auto simp: addSinglePack_def Let_def split: prod.splits sum.splits if_splits)

lemma addPacks_frame: "addPacks e now source ms s = Inr s' \<Longrightarrow> cs_frame s' = cs_frame s"
  by (induction e now source ms s rule: addPacks.induct) (auto simp: exn_bind_Inr dest: addSinglePack_frame)

lemma addPack_frame: "addPack e now name source obj s = Inr s' \<Longrightarrow> cs_frame s' = cs_frame s"
  by (auto simp: addPack_def dest: addSinglePack_frame addPacks_frame split: if_splits)

lemma genPack_frame: "genPack e now name source target s = Inr (st, s') \<Longrightarrow> cs_frame s' = cs_frame s"
  by (auto simp: genPack_def exn_bind_Inr dest: addPack_frame split: list.splits option.splits json.splits prod.splits if_splits)

lemma update_packs_frame: "update_packs e now source ms s = Inr s' \<Longrightarrow> cs_frame s' = cs_frame s"
  by (induction e now source ms s rule: update_packs.induct)
    (fastforce simp: exn_bind_Inr dest: addPack_frame genPack_frame)+

lemma apply_document_frame:
  assumes "apply_document e now source queries doc s = Inr (st, s')"
  shows "cs_frame s' = cs_frame s \<and> st = success"
proof -
  obtain s1 s2 where
    s1: "(case FindMember doc ''schedule'' of Some (JObject sched) \<Rightarrow>
            if ce_external e then Inr s else addPack e now ''main'' source [(''queries'', JObject sched)] s | _ \<Rightarrow> Inr s) = Inr s1"
    and s2: "(case FindMember doc ''packs'' of Some (JObject pks) \<Rightarrow>
            if ce_external e then Inr s1 else update_packs e now source pks s1 | _ \<Rightarrow> Inr s1) = Inr s2"
    and s': "cs_config s' = cs_config s2" "st = success"
    using assms unfolding apply_document_def exn_bind_Inr Let_def by auto
  have "cs_frame s1 = cs_frame s" using s1 by (auto dest: addPack_frame split: option.splits json.splits if_splits)
  moreover have "cs_frame s2 = cs_frame s1" using s2 by (auto dest: update_packs_frame split: option.splits json.splits if_splits)
  ultimately show ?thesis using s' by simp
qed

lemma updateSource_frame:
  assumes "updateSource e now source json s = Inr (st, s')"
  shows "cs_frame s' = cf_frame (snd (hashSource e source json (cs_config s)))"
proof -
  obtain changed c where h: "hashSource e source json (cs_config s) = (changed, c)" by fastforce
  let ?s0 = "s\<lparr>cs_config := c\<rparr>"
  let ?s1 = "with_config (\<lambda>c. removeFiles source (config_removeAll e source c)) ?s0"
  have "cs_frame s' = cs_frame ?s0 \<or> cs_frame s' = cs_frame ?s1 \<or>
      (\<exists>qs doc. apply_document e now source qs doc ?s1 = Inr (st, s'))"
    using assms unfolding updateSource_def h
    by (auto simp: Let_def split: if_splits prod.splits option.splits json.splits)
  then have "cs_frame s' = cf_frame c" using apply_document_frame [of e now source _ _ ?s1 st s'] by auto
  then show ?thesis by (simp add: h)
qed

lemma hashSource_snd_frame: "snd (cf_frame (snd (hashSource e source json c))) = snd (cf_frame c)"
  by (simp add: hashSource_def Let_def cf_frame_def)

lemma hashSource_again:
  "cf_hash c' = cf_hash (snd (hashSource e source json c)) \<Longrightarrow> hashSource e source json c' = (False, c')"
  by (auto simp: hashSource_def Let_def om_has_def split: if_splits option.splits)

lemma updateSource_again:
  assumes "updateSource e now source json s = Inr (st, s')"
  shows "updateSource e now' source json s' = Inr (Status_code 2, s')"
proof -
  have "cf_hash (cs_config s') = cf_hash (snd (hashSource e source json (cs_config s)))"
    using updateSource_frame [OF assms] by (simp add: cf_frame_def)
  then show ?thesis by (simp add: updateSource_def hashSource_again Let_def)
qed

lemma update_sources_frame:
  "update_sources e now config needs s = Inr (st, needs', s') \<Longrightarrow> snd (cs_frame s') = snd (cs_frame s)"
proof (induction e now config needs s rule: update_sources.induct)
  case (2 e now source content rest needs s)
  then show ?case
    by (fastforce simp: exn_bind_Inr hashSource_snd_frame dest: updateSource_frame split: if_splits)
qed simp

lemma reconfigure_config [simp]: "cs_config (reconfigure s) = cs_config s" "cs_db (reconfigure s) = cs_db s"
  by (simp_all add: reconfigure_def cs_db_def)

lemma config_update_frame:
  "config_update e now config s = Inr (st, s') \<Longrightarrow> snd (cs_frame s') = snd (cs_frame s)"
  unfolding config_update_def Let_def exn_bind_Inr
  by (auto simp: exn_bind_Inr Let_def dest!: update_sources_frame split: if_splits)

section \<open>A rejected configuration\<close>

lemma config_removeAll_packs [simp]:
  "packs (cf_schedule (config_removeAll e source c)) = filter (\<lambda>p. pk_source p \<noteq> source) (packs (cf_schedule c))"
  by (simp add: config_removeAll_def schedule_removeAll_def Let_def)

text \<open>A source that is rejected has changed; its packs are gone and the database is not touched.\<close>

lemma updateSource_rejected:
  assumes "updateSource e now source json s = Inr (st, s')" "\<not> ok st" "st_code st \<noteq> 2"
  shows "cs_db s' = cs_db s" "\<forall>p \<in> set (packs (cf_schedule (cs_config s'))). pk_source p \<noteq> source"
proof -
  obtain changed c where h: "hashSource e source json (cs_config s) = (changed, c)" by fastforce
  let ?s1 = "with_config (\<lambda>c. removeFiles source (config_removeAll e source c)) (s\<lparr>cs_config := c\<rparr>)"
  have "s' = ?s1"
    using assms unfolding updateSource_def h
    by (auto simp: Let_def Status_code_def dest!: apply_document_frame split: if_splits prod.splits option.splits json.splits)
  then show "cs_db s' = cs_db s" "\<forall>p \<in> set (packs (cf_schedule (cs_config s'))). pk_source p \<noteq> source"
    by (simp_all add: cs_db_def with_config_def)
qed

text \<open>
  A configuration that is rejected is reported once. The hash of a source is recorded before its content is
  parsed, so the next update with the same content takes it as unchanged and succeeds, although the packs of
  that source were removed when it was rejected and stay so.\<close>

theorem rejected_config_reported_once:
  assumes "db_ready eph_inv (cs_db s)" "de_ops (ce_db e) = EphemeralDatabasePlugin"
    and "\<not> ce_external e" "\<not> config_enable_backup e"
    and "config_update e now [(source, json)] s = Inr (st, s1)" "\<not> ok st"
  shows "\<exists>s2. config_update e later [(source, json)] s1 = Inr (success, s2) \<and>
    (\<forall>p \<in> set (packs (cf_schedule (cs_config s2))). pk_source p \<noteq> source)"
proof -
  obtain p where p: "purge e now (cf_schedule (cs_config s)) (cs_db s) = Inr p" "db_ready eph_inv p"
    using eph.purge_ok [OF assms(1,2)] by blast
  obtain st1 where u: "updateSource e now source json (set_cs_db p s) = Inr (st1, s1)" "\<not> ok st1" "st_code st1 \<noteq> 2"
    using assms(3-6) p(1) by (auto simp: config_update_def exn_bind_Inr split: if_splits)
  note r = updateSource_rejected [OF u]
  obtain p1 where p1: "purge e later (cf_schedule (cs_config s1)) (cs_db s1) = Inr p1"
    using eph.purge_ok [of "cs_db s1" e later "cf_schedule (cs_config s1)"] assms(2) r(1) p(2) by auto
  have "cf_hash (cs_config s1) = cf_hash (snd (hashSource e source json (cs_config s)))"
    using updateSource_frame [OF u(1)] by (simp add: cf_frame_def)
  then have "updateSource e later source json (set_cs_db p1 s1) = Inr (Status_code 2, set_cs_db p1 s1)"
    by (simp add: updateSource_def hashSource_again Let_def set_cs_db_def)
  then have "config_update e later [(source, json)] s1 = Inr (success, set_cs_db p1 s1)"
    using assms(3,4) p1 by (simp add: config_update_def Status_code_def)
  then show ?thesis using r(2) by auto
qed

definition sample_config_state :: "ephemeral_db config_state" where
  "sample_config_state =
     \<lparr>cs_config = \<lparr>cf_schedule = Schedule_blank, cf_files = [], cf_hash = [], cf_valid = False, cf_loaded = False,
        started_thread = False, refresh_sec = 60, is_first_time_refresh = True\<rparr>,
      cs_world = \<lparr>pw_db = eph_process sample_settings, schedule_splay_percent = 10\<rparr>,
      cs_parsed = [], cs_reconfigured = [], cs_shutdown = \<lparr>sd_requested = False, sd_retcode = 0\<rparr>\<rparr>"

definition sample_online_env :: "bool \<Rightarrow> ephemeral_db config_env" where
  "sample_online_env up =
     sample_config_env\<lparr>config_enable_backup := False, config_refresh := 60, config_accelerated_refresh := 5,
       ce_genConfig := (if up then (success, []) else (failure ''offline'', []))\<rparr>"

lemma sample_purge_nothing: "purge e now s (eph_process sample_settings) = Inr (eph_process sample_settings)"
  if ops: "de_ops (ce_db e) = EphemeralDatabasePlugin"
proof -
  obtain st keys where k: "scanDatabaseKeys (ce_db e) False kQueries [] [] 0 (eph_process sample_settings) =
      Inr (st, keys, eph_process sample_settings)"
    "set keys = {k. db_view eph_look (eph_process sample_settings) kQueries k \<noteq> None}"
    using eph.scan_keys [OF sample_settings_ok(1) ops domains_nonempty(1), of False] by blast
  have "keys = []"
    using k(2) by (auto simp: sample_settings_def eph_look_def eph_domain_def om_get_def kQueries_def kPersistentSettings_def)
  then show ?thesis using k(1) by (simp add: purge_def)
qed

lemma sample_comment_rejected:
  "stripConfigComments (pk_boost sample_pack_env) ''#'' = []"
  "json_fromString (de_rj (pk_db sample_pack_env)) [] = (Status_msg 1 ''Cannot parse JSON: '', None)"
  by (simp_all add: stripConfigComments_def strip_line_def sample_pack_env_def boost_ref_def vsplit_def vsplit_loop.simps trim_view_def isspace_def
      json_fromString_def eph_env_def codec_rapidjson_def c_str_def)

theorem rejected_config_reported_once_witness:
  "\<exists>st s1 s2. config_update (sample_online_env True) 100 [(''a.conf'', ''#'')] sample_config_state = Inr (st, s1) \<and> \<not> ok st \<and>
     config_update (sample_online_env True) 200 [(''a.conf'', ''#'')] s1 = Inr (success, s2)"
proof -
  have ops: "de_ops (ce_db (sample_online_env True)) = EphemeralDatabasePlugin"
    using sample_config_ok(1) by (simp add: sample_online_env_def)
  have "\<exists>st s1. config_update (sample_online_env True) 100 [(''a.conf'', ''#'')] sample_config_state = Inr (st, s1) \<and> \<not> ok st"
    using sample_purge_nothing [OF ops] sample_comment_rejected
    by (simp add: config_update_def sample_config_state_def cs_db_def set_cs_db_def updateSource_def hashSource_def
        sample_online_env_def sample_config_env_def om_get_def failure_def Status_msg_def ok_def kSuccessCode_def Let_def)
  then obtain st s1 where u: "config_update (sample_online_env True) 100 [(''a.conf'', ''#'')] sample_config_state = Inr (st, s1)"
    "\<not> ok st" by blast
  have "db_ready eph_inv (cs_db sample_config_state)" using sample_settings_ok(1) by (simp add: sample_config_state_def cs_db_def)
  then show ?thesis using rejected_config_reported_once [OF _ ops _ _ u, of 200] u
    by (auto simp: sample_online_env_def sample_config_ok(3))
qed

section \<open>The pace of the refreshes\<close>

lemma cf_frame_refresh: "snd (cf_frame c) = snd (cf_frame c') \<Longrightarrow> refresh_sec c = refresh_sec c'"
  by (simp add: cf_frame_def)

lemma refresh_failed_delay:
  assumes "refresh_failed e now status s = Inr (st, s')"
  shows "refresh_sec (cs_config s') =
    (if config_refresh e > 0 \<and> refresh_sec (cs_config s) = config_refresh e then config_accelerated_refresh e
     else refresh_sec (cs_config s))"
  using assms unfolding refresh_failed_def Let_def
  by (auto simp: exn_bind_Inr setRefresh_def split: if_splits sum.splits
      dest!: config_update_frame [THEN cf_frame_refresh])

lemma refresh_delay:
  assumes "refresh e now s = Inr (st, s')"
  shows "refresh_sec (cs_config s') =
    (if ok (fst (ce_genConfig e)) then config_refresh e
     else if config_refresh e > 0 \<and> refresh_sec (cs_config s) = config_refresh e then config_accelerated_refresh e
     else refresh_sec (cs_config s))"
proof (cases "ok (fst (ce_genConfig e))")
  case True
  then show ?thesis using assms unfolding refresh_def Let_def
    by (auto simp: exn_bind_Inr setRefresh_def split: if_splits prod.splits list.splits
        dest!: config_update_frame [THEN cf_frame_refresh])
next
  case False
  then show ?thesis using assms unfolding refresh_def by (auto split: prod.splits dest: refresh_failed_delay)
qed

lemma runner_pauses:
  assumes "\<forall>(stop0, stop1, e, now) \<in> set turns. \<not> stop0 \<and> \<not> stop1 \<and>
      config_refresh e = normal \<and> config_accelerated_refresh e = fast"
    and "normal > 0" "refresh_sec (cs_config s) \<in> {normal, fast}"
    and "ConfigRefreshRunner_start turns s pauses = Inr (s', pauses')"
  shows "pauses' = pauses @ take (length turns) (refresh_sec (cs_config s) #
    map (\<lambda>(_, _, e, _). if ok (fst (ce_genConfig e)) then normal else fast) turns)"
  using assms(1,3,4)
proof (induction turns arbitrary: s pauses)
  case (Cons t turns)
  obtain stop0 stop1 e now where t: "t = (stop0, stop1, e, now)" by (cases t)
  then obtain st s1 where s1: "refresh e now s = Inr (st, s1)"
    "ConfigRefreshRunner_start turns s1 (pauses @ [refresh_sec (cs_config s)]) = Inr (s', pauses')"
    using Cons.prems by (auto simp: exn_bind_Inr)
  have d: "refresh_sec (cs_config s1) = (if ok (fst (ce_genConfig e)) then normal else fast)"
    using refresh_delay [OF s1(1)] Cons.prems(1,2) assms(2) by (auto simp: t)
  then show ?case using Cons.IH [OF _ _ s1(2)] Cons.prems(1) by (simp add: t take_Cons split: nat.splits)
qed simp

text \<open>
  The thread that refreshes the configuration keeps the pace the flags ask for: after a refresh whose plugin
  answered it waits for the normal delay, after one that failed for the accelerated delay, whatever the answers
  contain and however many refreshes failed before.\<close>

theorem refresh_pace:
  assumes "\<forall>(stop0, stop1, e, now) \<in> set turns. \<not> stop0 \<and> \<not> stop1 \<and>
      config_refresh e = normal \<and> config_accelerated_refresh e = fast"
    and "normal > 0" "refresh_sec (cs_config s) \<in> {normal, fast}"
    and "ConfigRefreshRunner_start turns s [] = Inr (s', pauses)"
  shows "pauses = take (length turns) (refresh_sec (cs_config s) #
    map (\<lambda>(_, _, e, _). if ok (fst (ce_genConfig e)) then normal else fast) turns)"
  using runner_pauses [OF assms] by simp

theorem refresh_pace_witness:
  "\<exists>s'. ConfigRefreshRunner_start
     [(False, False, sample_online_env False, 1), (False, False, sample_online_env True, 2), (False, False, sample_online_env True, 3)]
     sample_config_state [] = Inr (s', [60, 5, 60])"
proof -
  let ?turns = "[(False, False, sample_online_env False, 1), (False, False, sample_online_env True, 2),
    (False, False, sample_online_env True, 3)]"
  have "\<exists>r. ConfigRefreshRunner_start ?turns sample_config_state [] = Inr r"
    by (simp add: refresh_def refresh_failed_def sample_online_env_def sample_config_env_def Let_def)
  then obtain s' pauses where r: "ConfigRefreshRunner_start ?turns sample_config_state [] = Inr (s', pauses)" by fastforce
  have "pauses = [60, 5, 60]"
    using refresh_pace [OF _ _ _ r, of 60 5] by (simp add: sample_online_env_def sample_config_state_def)
  then show ?thesis using r by blast
qed

end
