(* ===== verification/DistributedQueries.thy ===== *)
theory DistributedQueries
  imports QueryPerformances Tables
begin

text \<open>
  Distributed queries: \<open>distributed/distributed.h\<close>, \<open>distributed/distributed.cpp\<close> and the thread of
  \<open>dispatcher/distributed_runner.cpp\<close>. Accepted queries wait in a domain of the database under their
  identifier; while one runs, the hash of its SQL is stored with the time, so that a query that kills the
  process is not run again for a while; results are kept until the plugin has taken them.
\<close>

section \<open>Requests and results\<close>

record DistributedQueryRequest =
  dq_query :: string
  dq_id :: string

record DistributedQueryResult =
  dr_request :: DistributedQueryRequest
  dr_results :: QueryData
  dr_columns :: ColumnNames
  dr_status :: Status
  dr_message :: string

definition serializeDistributedQueryRequest :: "rapidjson \<Rightarrow> DistributedQueryRequest \<Rightarrow> members \<Rightarrow> Status \<times> members" where
  "serializeDistributedQueryRequest rj r obj =
     (success, json_addCopy rj ''id'' (dq_id r) (json_addCopy rj ''query'' (dq_query r) obj))"

definition serializeDistributedQueryRequestJSON :: "rapidjson \<Rightarrow> DistributedQueryRequest \<Rightarrow> Status \<times> string" where
  "serializeDistributedQueryRequestJSON rj r =
     (let (s, obj) = serializeDistributedQueryRequest rj r []
      in if \<not> ok s then (s, []) else json_toString rj (JObject obj))"

definition deserializeDistributedQueryRequest ::
  "json \<Rightarrow> DistributedQueryRequest \<Rightarrow> (Status \<times> DistributedQueryRequest) throwing" where
  "deserializeDistributedQueryRequest obj r =
     (case obj of
        JObject ms \<Rightarrow>
          (case (FindMember ms ''query'', FindMember ms ''id'') of
             (Some (JString q), Some (JString i)) \<Rightarrow> Inr (success, \<lparr>dq_query = c_str q, dq_id = c_str i\<rparr>)
           | _ \<Rightarrow> Inr (Status_msg 1 ''Malformed distributed query request'', r))
      | _ \<Rightarrow> Inl (undefined_behaviour ''HasMember''))"

definition deserializeDistributedQueryRequestJSON ::
  "rapidjson \<Rightarrow> string \<Rightarrow> DistributedQueryRequest \<Rightarrow> (Status \<times> DistributedQueryRequest) throwing" where
  "deserializeDistributedQueryRequestJSON rj json r =
     (case json_fromString rj json of
        (st, Some (JObject ms)) \<Rightarrow>
          if \<not> ok st then Inr (Status_msg 1 ''Error Parsing JSON'', r)
          else deserializeDistributedQueryRequest (JObject ms) r
      | _ \<Rightarrow> Inr (Status_msg 1 ''Error Parsing JSON'', r))"

text \<open>The members go to the document itself, which is the only object it is called with.\<close>

definition serializeDistributedQueryResult :: "rapidjson \<Rightarrow> DistributedQueryResult \<Rightarrow> members \<Rightarrow> Status \<times> members" where
  "serializeDistributedQueryResult rj r doc =
     (let (s, request_obj) = serializeDistributedQueryRequest rj (dr_request r) []
      in if \<not> ok s then (s, doc)
         else let (s1, results_arr) = serializeQueryData rj (dr_results r) (dr_columns r) []
              in if \<not> ok s1 then (s1, doc)
                 else (success, json_add rj ''results'' (JArray results_arr)
                        (json_add rj ''request'' (JObject request_obj) doc)))"

definition serializeDistributedQueryResultJSON :: "rapidjson \<Rightarrow> DistributedQueryResult \<Rightarrow> Status \<times> string" where
  "serializeDistributedQueryResultJSON rj r =
     (let (s, obj) = serializeDistributedQueryResult rj r []
      in if \<not> ok s then (s, []) else json_toString rj (JObject obj))"

definition deserializeDistributedQueryResult ::
  "json \<Rightarrow> DistributedQueryResult \<Rightarrow> (Status \<times> DistributedQueryResult) throwing" where
  "deserializeDistributedQueryResult obj r =
     exn_bind (json_member obj ''request'') (\<lambda>req.
     exn_bind (deserializeDistributedQueryRequest req \<lparr>dq_query = [], dq_id = []\<rparr>) (\<lambda>(s, request).
       if \<not> ok s then Inr (s, r)
       else exn_bind (json_member obj ''results'') (\<lambda>res.
         let (s1, rows) = deserializeQueryData res []
         in if \<not> ok s1 then Inr (s1, r)
            else Inr (success, r\<lparr>dr_request := request, dr_results := rows\<rparr>))))"

definition deserializeDistributedQueryResultJSON ::
  "rapidjson \<Rightarrow> string \<Rightarrow> DistributedQueryResult \<Rightarrow> (Status \<times> DistributedQueryResult) throwing" where
  "deserializeDistributedQueryResultJSON rj json r =
     (case json_fromString rj json of
        (st, Some (JObject ms)) \<Rightarrow>
          if \<not> ok st then Inr (Status_msg 1 ''Error Parsing JSON'', r)
          else deserializeDistributedQueryResult (JObject ms) r
      | _ \<Rightarrow> Inr (Status_msg 1 ''Error Parsing JSON'', r))"

section \<open>Calls of the plugin\<close>

definition DistributedPlugin_call ::
  "string \<Rightarrow> (string \<Rightarrow> Status) \<Rightarrow> PluginRequest \<Rightarrow> Status \<times> PluginResponse" where
  "DistributedPlugin_call queries writeResults request =
     (case om_get request ''action'' of
        None \<Rightarrow> (Status_msg 1 ''Distributed plugins require an action in PluginRequest'', [])
      | Some action \<Rightarrow>
          if action = ''getQueries'' then (success, [[(''results'', queries)]])
          else if action = ''writeResults'' then
            (case om_get request ''results'' of
               None \<Rightarrow> (Status_msg 1 ''Missing results field'', [])
             | Some results \<Rightarrow> (writeResults results, []))
          else (Status_msg 1 (''Distributed plugin action unknown: '' @ action), []))"

section \<open>State\<close>

text \<open>The result of running SQL, and of running it between two snapshots of the process.\<close>

record dist_sql =
  dsq_status :: Status
  dsq_rows :: QueryData
  dsq_columns :: ColumnNames

record monitored_sql =
  mq_sql :: dist_sql
  mq_r0 :: QueryData
  mq_r1 :: QueryData
  mq_delay :: u64

text \<open>
  The environment of one turn of the thread: the database, the hash, the flag for the time of denial, SQL for
  discovery and for the queries by identifier and text, the active plugin and its calls through the registry,
  the time of the turn and the time each query is reached at.
\<close>

record 'd dist_env =
  di_db :: "'d db_env"
  di_debug :: bool
  di_hash :: "string \<Rightarrow> string"
  di_duration :: u64
  di_interval :: u64
  di_sql :: "string \<Rightarrow> dist_sql"
  di_run :: "string \<Rightarrow> string \<Rightarrow> monitored_sql"
  di_active :: string
  di_exists :: bool
  di_call :: "PluginRequest \<Rightarrow> Status \<times> PluginResponse"
  di_now :: u64
  di_time :: "string \<Rightarrow> u64"

text \<open>\<open>ds_calls\<close> records the requests the plugin got.\<close>

record 'd Distributed =
  ds_db :: "'d db_process"
  ds_results :: "DistributedQueryResult list"
  ds_performance :: "(string, QueryPerformance) omap"
  ds_currentRequestId :: string
  ds_calls :: "PluginRequest list"

section \<open>Running queries\<close>

definition hashQuery :: "'d dist_env \<Rightarrow> string \<Rightarrow> string" where
  "hashQuery e query = di_hash e query"

definition denylistDuration :: "'d dist_env \<Rightarrow> u64" where
  "denylistDuration e = di_duration e"

definition denylistedQueryTimestampExpired :: "'d dist_env \<Rightarrow> u64 \<Rightarrow> string \<Rightarrow> bool" where
  "denylistedQueryTimestampExpired e now timestamp =
     (let ts = (case object (tryTo_u64 (de_what (di_db e)) 10 timestamp) of Inl t \<Rightarrow> t | Inr _ \<Rightarrow> 0)
      in now > ts + denylistDuration e)"

definition getPendingQueries :: "'d dist_env \<Rightarrow> 'd Distributed \<Rightarrow> (string list \<times> 'd Distributed) throwing" where
  "getPendingQueries e s =
     exn_bind (scanDatabaseKeys (di_db e) False kDistributedQueries [] [] 0 (ds_db s))
       (\<lambda>(_, queries, p). Inr (queries, s\<lparr>ds_db := p\<rparr>))"

definition getCompletedCount :: "'d Distributed \<Rightarrow> nat" where
  "getCompletedCount s = length (ds_results s)"

definition addResult :: "DistributedQueryResult \<Rightarrow> 'd Distributed \<Rightarrow> 'd Distributed" where
  "addResult r s = s\<lparr>ds_results := ds_results s @ [r]\<rparr>"

definition checkAndSetAsRunning :: "'d dist_env \<Rightarrow> u64 \<Rightarrow> string \<Rightarrow> 'd Distributed \<Rightarrow> (bool \<times> 'd Distributed) throwing" where
  "checkAndSetAsRunning e now query s =
     (let queryKey = hashQuery e query
      in exn_bind (getDatabaseValue (di_db e) False kDistributedRunningQueries queryKey [] (ds_db s))
           (\<lambda>(status, ts, p).
              if ok status then Inr (\<not> denylistedQueryTimestampExpired e now ts, s\<lparr>ds_db := p\<rparr>)
              else exn_bind (setDatabaseValue (di_db e) False kDistributedRunningQueries queryKey (to_string_u64 now) p)
                     (\<lambda>(_, p1). Inr (False, s\<lparr>ds_db := p1\<rparr>))))"

definition setKeyAsNotRunning :: "'d dist_env \<Rightarrow> string \<Rightarrow> 'd Distributed \<Rightarrow> 'd Distributed throwing" where
  "setKeyAsNotRunning e queryKey s =
     exn_bind (deleteDatabaseValue (di_db e) False kDistributedRunningQueries queryKey (ds_db s))
       (\<lambda>(_, p). Inr (s\<lparr>ds_db := p\<rparr>))"

definition setAsNotRunning :: "'d dist_env \<Rightarrow> string \<Rightarrow> 'd Distributed \<Rightarrow> 'd Distributed throwing" where
  "setAsNotRunning e query s = setKeyAsNotRunning e (hashQuery e query) s"

definition popRequest :: "'d dist_env \<Rightarrow> string \<Rightarrow> 'd Distributed \<Rightarrow> (DistributedQueryRequest \<times> 'd Distributed) throwing" where
  "popRequest e query s =
     exn_bind (getDatabaseValue (di_db e) False kDistributedQueries query [] (ds_db s))
       (\<lambda>(_, sql, p). exn_bind (deleteDatabaseValue (di_db e) False kDistributedQueries query p)
          (\<lambda>(_, p1). Inr (\<lparr>dq_query = sql, dq_id = query\<rparr>, s\<lparr>ds_db := p1\<rparr>)))"

definition setCurrentRequestId :: "string \<Rightarrow> 'd Distributed \<Rightarrow> 'd Distributed" where
  "setCurrentRequestId cReqId s = s\<lparr>ds_currentRequestId := cReqId\<rparr>"

text \<open>A fresh entry of the statistics: only differences above zero are kept.\<close>

definition dist_recordQueryPerformance ::
  "string \<Rightarrow> u64 \<Rightarrow> Row \<Rightarrow> Row \<Rightarrow> 'd Distributed \<Rightarrow> 'd Distributed throwing" where
  "dist_recordQueryPerformance name delay_ms r0 r1 s =
     exn_bind (perf_diff ''user_time'' r0 r1) (\<lambda>ut.
     exn_bind (perf_diff ''system_time'' r0 r1) (\<lambda>st.
     exn_bind (perf_diff ''resident_size'' r0 r1) (\<lambda>rs.
       let q = QueryPerformance_new;
           q1 = (if ut > 0 then q\<lparr>user_time := word_of_int ut\<rparr> else q);
           q2 = (if st > 0 then q1\<lparr>system_time := word_of_int st\<rparr> else q1);
           q3 = (if rs > 0 then q2\<lparr>last_memory := word_of_int rs\<rparr> else q2)
       in Inr (s\<lparr>ds_performance := om_set name (q3\<lparr>wall_time_ms := delay_ms\<rparr>) (ds_performance s)\<rparr>))))"

definition monitorNonnumeric ::
  "'d dist_env \<Rightarrow> string \<Rightarrow> string \<Rightarrow> 'd Distributed \<Rightarrow> (dist_sql \<times> 'd Distributed) throwing" where
  "monitorNonnumeric e name query s =
     (let run = di_run e name query
      in case (mq_r0 run, mq_r1 run) of
           (r0 # _, r1 # _) \<Rightarrow>
             exn_bind (dist_recordQueryPerformance name (mq_delay run) r0 r1 s) (\<lambda>s1. Inr (mq_sql run, s1))
         | _ \<Rightarrow> Inr (mq_sql run, s))"

text \<open>The body of the loop, in two parts: until the decision to run, and the run itself.\<close>

definition run_query_start ::
  "'d dist_env \<Rightarrow> string \<Rightarrow> 'd Distributed \<Rightarrow> (DistributedQueryRequest \<times> bool \<times> 'd Distributed) throwing" where
  "run_query_start e query s =
     exn_bind (popRequest e query s) (\<lambda>(request, s1).
     exn_bind (checkAndSetAsRunning e (di_time e query) (dq_query request) s1) (\<lambda>(denylisted, s2).
       Inr (request, denylisted, s2)))"

definition denied_result :: "DistributedQueryRequest \<Rightarrow> DistributedQueryResult" where
  "denied_result request =
     \<lparr>dr_request = request, dr_results = [], dr_columns = [], dr_status = Status_msg 1 ''Denylisted'',
      dr_message = ''distributed query is denylisted''\<rparr>"

definition sql_answer :: "DistributedQueryRequest \<Rightarrow> dist_sql \<Rightarrow> DistributedQueryResult" where
  "sql_answer request sql =
     \<lparr>dr_request = request, dr_results = dsq_rows sql, dr_columns = dsq_columns sql, dr_status = dsq_status sql,
      dr_message = (if ok (dsq_status sql) then [] else st_message (dsq_status sql))\<rparr>"

definition run_query :: "'d dist_env \<Rightarrow> string \<Rightarrow> 'd Distributed \<Rightarrow> 'd Distributed throwing" where
  "run_query e query s =
     exn_bind (run_query_start e query s) (\<lambda>(request, denylisted, s1).
       if denylisted then Inr (addResult (denied_result request) s1)
       else exn_bind (monitorNonnumeric e (dq_id request) (dq_query request) (setCurrentRequestId (dq_id request) s1))
         (\<lambda>(sql, s2). exn_bind (setAsNotRunning e (dq_query request) s2)
            (\<lambda>s3. Inr (addResult (sql_answer request sql) s3))))"

section \<open>Results\<close>

definition stats_members :: "QueryPerformance \<Rightarrow> members" where
  "stats_members perf =
     [(''wall_time_ms'', JInt (uint (wall_time_ms perf))), (''user_time'', JInt (uint (user_time perf))),
      (''system_time'', JInt (uint (system_time perf))), (''memory'', JInt (uint (last_memory perf)))]"

fun serialize_results ::
  "rapidjson \<Rightarrow> (string, QueryPerformance) omap \<Rightarrow> DistributedQueryResult list \<Rightarrow> members \<times> members \<times> members \<times> members
   \<Rightarrow> Status \<times> (members \<times> members \<times> members \<times> members)" where
  "serialize_results rj performance [] objs = (success, objs)"
| "serialize_results rj performance (result # rest) (queries, statuses, messages, stats) =
     (let (s, arr) = serializeQueryData rj (dr_results result) (dr_columns result) [];
          i = dq_id (dr_request result)
      in if \<not> ok s then (s, (queries, statuses, messages, stats))
         else serialize_results rj performance rest
           (json_add rj i (JArray arr) queries,
            json_add_longlong rj i (st_code (dr_status result)) statuses,
            json_addCopy rj i (dr_message result) messages,
            json_add rj i (JObject (case om_get performance i of Some perf \<Rightarrow> stats_members perf | None \<Rightarrow> [])) stats))"

definition serializeResults :: "'d dist_env \<Rightarrow> 'd Distributed \<Rightarrow> Status \<times> string" where
  "serializeResults e s =
     (let rj = de_rj (di_db e)
      in case serialize_results rj (ds_performance s) (ds_results s) ([], [], [], []) of
           (st, queries, statuses, messages, stats) \<Rightarrow>
             if \<not> ok st then (st, [])
             else json_toString rj (JObject
                    (json_add rj ''stats'' (JObject stats) (json_add rj ''messages'' (JObject messages)
                      (json_add rj ''statuses'' (JObject statuses) (json_add rj ''queries'' (JObject queries) []))))))"

definition call_plugin :: "'d dist_env \<Rightarrow> PluginRequest \<Rightarrow> 'd Distributed \<Rightarrow> Status \<times> PluginResponse \<times> 'd Distributed" where
  "call_plugin e request s =
     (let (st, response) = di_call e request in (st, response, s\<lparr>ds_calls := ds_calls s @ [request]\<rparr>))"

definition flushCompleted :: "'d dist_env \<Rightarrow> 'd Distributed \<Rightarrow> Status \<times> 'd Distributed" where
  "flushCompleted e s =
     (if getCompletedCount s = 0 then (success, s)
      else if \<not> di_exists e then (Status_msg 1 (''Missing distributed plugin '' @ di_active e), s)
      else let (st, results) = serializeResults e s
           in if \<not> ok st then (st, s)
              else let (st1, _, s1) = call_plugin e [(''action'', ''writeResults''), (''results'', results)] s
                   in if ok st1 then (st1, s1\<lparr>ds_results := [], ds_performance := []\<rparr>) else (st1, s1))"

definition runQueries :: "'d dist_env \<Rightarrow> 'd Distributed \<Rightarrow> (Status \<times> 'd Distributed) throwing" where
  "runQueries e s =
     exn_bind (getPendingQueries e s) (\<lambda>(queries, s1).
     exn_bind (exn_fold (run_query e) queries s1) (\<lambda>s2. Inr (flushCompleted e s2)))"

definition cleanup_key :: "'d dist_env \<Rightarrow> string \<Rightarrow> 'd Distributed \<Rightarrow> 'd Distributed throwing" where
  "cleanup_key e queryKey s =
     exn_bind (getDatabaseValue (di_db e) False kDistributedRunningQueries queryKey [] (ds_db s))
       (\<lambda>(status, ts, p).
          let s1 = s\<lparr>ds_db := p\<rparr>
          in if \<not> ok status then Inr s1
             else if denylistedQueryTimestampExpired e (di_now e) ts then setKeyAsNotRunning e queryKey s1
             else Inr s1)"

definition cleanupExpiredRunningQueries :: "'d dist_env \<Rightarrow> 'd Distributed \<Rightarrow> (Status \<times> 'd Distributed) throwing" where
  "cleanupExpiredRunningQueries e s =
     exn_bind (scanDatabaseKeys (di_db e) False kDistributedRunningQueries [] [] 0 (ds_db s))
       (\<lambda>(_, queryKeys, p).
          exn_bind (exn_fold (cleanup_key e) queryKeys (s\<lparr>ds_db := p\<rparr>)) (\<lambda>s1. Inr (success, s1)))"

section \<open>Accepting work\<close>

text \<open>
  Both loops return at the first entry that is not a pair of non-empty strings; the queries stored before stay.
  \<open>insert\<close> keeps the first result of a discovery name.
\<close>

fun accept_discovery ::
  "'d dist_env \<Rightarrow> members \<Rightarrow> (string, bool) omap \<Rightarrow> Status \<times> (string, bool) omap" where
  "accept_discovery e [] found = (success, found)"
| "accept_discovery e ((n, JString q) # rest) found =
     (let name = c_str n; query = c_str q; sql = di_sql e query
      in if query = [] \<or> name = [] then (Status_msg 1 ''Distributed discovery query is not a string'', found)
         else if \<not> ok (dsq_status sql) then (Status_msg 1 ''Distributed discovery query has an SQL error'', found)
         else accept_discovery e rest
                (if om_has found name then found else om_set name (dsq_rows sql \<noteq> []) found))"
| "accept_discovery e (_ # rest) found = (Status_msg 1 ''Distributed discovery query is not a string'', found)"

fun accept_queries ::
  "'d dist_env \<Rightarrow> (string, bool) omap \<Rightarrow> members \<Rightarrow> 'd Distributed \<Rightarrow> (Status \<times> 'd Distributed) throwing" where
  "accept_queries e found [] s = Inr (success, s)"
| "accept_queries e found ((n, JString q) # rest) s =
     (let name = c_str n; query = c_str q
      in if name = [] \<or> query = [] then Inr (Status_msg 1 ''Distributed query is not a string'', s)
         else if om_get found name = None \<or> om_get found name = Some True
         then exn_bind (setDatabaseValue (di_db e) False kDistributedQueries name query (ds_db s))
                (\<lambda>(_, p). accept_queries e found rest (s\<lparr>ds_db := p\<rparr>))
         else accept_queries e found rest s)"
| "accept_queries e found (_ # rest) s = Inr (Status_msg 1 ''Distributed query is not a string'', s)"

definition kAccelerateKey :: string where
  "kAccelerateKey = ''distributed_accelerate_checkins_expire''"

definition accept_accelerate :: "'d dist_env \<Rightarrow> members \<Rightarrow> 'd Distributed \<Rightarrow> (Status \<times> 'd Distributed) throwing" where
  "accept_accelerate e doc s =
     (case FindMember doc ''accelerate'' of
        Some (JInt duration) \<Rightarrow>
          if - (2 ^ 31) \<le> duration \<and> duration < 2 ^ 31
          then exn_bind (setDatabaseValue (di_db e) False kPersistentSettings kAccelerateKey
                   (to_string_u64 (di_now e + word_of_int duration)) (ds_db s))
                 (\<lambda>(_, p). Inr (success, s\<lparr>ds_db := p\<rparr>))
          else Inr (success, s)
      | _ \<Rightarrow> Inr (success, s))"

text \<open>A member that is not an object fails an assertion in a debug build and is passed over otherwise.\<close>

definition object_member :: "bool \<Rightarrow> members \<Rightarrow> string \<Rightarrow> members throwing" where
  "object_member debug doc k =
     (case FindMember doc k of
        None \<Rightarrow> Inr []
      | Some (JObject ms) \<Rightarrow> Inr ms
      | Some _ \<Rightarrow> if debug then Inl (aborted ''queries.IsObject()'') else Inr [])"

definition acceptWork :: "'d dist_env \<Rightarrow> string \<Rightarrow> 'd Distributed \<Rightarrow> (Status \<times> 'd Distributed) throwing" where
  "acceptWork e work s =
     (case json_fromString (de_rj (di_db e)) work of
        (st, Some (JObject doc)) \<Rightarrow>
          if \<not> ok st then Inr (Status_msg 1 ''Error Parsing JSON'', s)
          else exn_bind (object_member (di_debug e) doc ''discovery'') (\<lambda>discovery.
            let (st1, found) = accept_discovery e discovery []
            in if \<not> ok st1 then Inr (st1, s)
               else exn_bind (object_member (di_debug e) doc ''queries'') (\<lambda>queries.
                 exn_bind (accept_queries e found queries s) (\<lambda>(st2, s1).
                   if \<not> ok st2 then Inr (st2, s1) else accept_accelerate e doc s1)))
      | _ \<Rightarrow> Inr (Status_msg 1 ''Error Parsing JSON'', s))"

definition pullUpdates :: "'d dist_env \<Rightarrow> 'd Distributed \<Rightarrow> (Status \<times> 'd Distributed) throwing" where
  "pullUpdates e s =
     (if \<not> di_exists e then Inr (Status_msg 1 (''Missing distributed plugin: '' @ di_active e), s)
      else let (status, response, s1) = call_plugin e [(''action'', ''getQueries'')] s
           in if \<not> ok status then Inr (status, s1)
              else case response of
                [] \<Rightarrow> Inr (success, s1)
              | row # _ \<Rightarrow> (case om_get row ''results'' of Some work \<Rightarrow> acceptWork e work s1 | None \<Rightarrow> Inr (success, s1)))"

section \<open>The thread\<close>

definition kDistributedAccelerationInterval :: u64 where "kDistributedAccelerationInterval = 5"

definition DistributedRunner_turn :: "'d dist_env \<Rightarrow> 'd Distributed \<Rightarrow> (u64 \<times> 'd Distributed) throwing" where
  "DistributedRunner_turn e s =
     exn_bind (pullUpdates e s) (\<lambda>(_, s1).
     exn_bind (runQueries e s1) (\<lambda>(_, s2).
     exn_bind (cleanupExpiredRunningQueries e s2) (\<lambda>(_, s3).
     exn_bind (getDatabaseValue (di_db e) False kPersistentSettings kAccelerateKey ''-1'' (ds_db s3))
       (\<lambda>(status, expire, p).
          let until = (case object (tryTo_u64 (de_what (di_db e)) 10 expire) of Inl t \<Rightarrow> t | Inr _ \<Rightarrow> 0)
          in Inr (if \<not> ok status \<or> di_now e > until then di_interval e else kDistributedAccelerationInterval,
                  s3\<lparr>ds_db := p\<rparr>)))))"

fun DistributedRunner_start :: "(bool \<times> 'd dist_env) list \<Rightarrow> 'd Distributed \<Rightarrow> u64 list \<Rightarrow> ('d Distributed \<times> u64 list) throwing" where
  "DistributedRunner_start [] s pauses = Inr (s, pauses)"
| "DistributedRunner_start ((stop, e) # turns) s pauses =
     (if stop then Inr (s, pauses)
      else exn_bind (DistributedRunner_turn e s) (\<lambda>(pause, s1). DistributedRunner_start turns s1 (pauses @ [pause])))"

end
