(* ===== verification/DistributedSafety.thy ===== *)
theory DistributedSafety
  imports DistributedQueries QueryHistory
begin

text \<open>
  Properties of distributed queries: a turn answers every pending query once, as an abstract machine over the
  pending queries and the running marks says; results are kept until they are taken; a query that kills the
  process is denied, unless it met an expired mark.
\<close>

section \<open>The abstract machine\<close>

definition denied_now :: "'d dist_env \<Rightarrow> string \<Rightarrow> string \<Rightarrow> (string \<Rightarrow> string option) \<Rightarrow> bool" where
  "denied_now e i q R \<longleftrightarrow>
     (case R (hashQuery e q) of Some ts \<Rightarrow> \<not> denylistedQueryTimestampExpired e (di_time e i) ts | None \<Rightarrow> False)"

definition spec_result :: "'d dist_env \<Rightarrow> string \<Rightarrow> string \<Rightarrow> (string \<Rightarrow> string option) \<Rightarrow> DistributedQueryResult" where
  "spec_result e i q R =
     (let request = \<lparr>dq_query = q, dq_id = i\<rparr>
      in if denied_now e i q R then denied_result request else sql_answer request (mq_sql (di_run e i q)))"

definition spec_running :: "'d dist_env \<Rightarrow> string \<Rightarrow> string \<Rightarrow> (string \<Rightarrow> string option) \<Rightarrow> (string \<Rightarrow> string option)" where
  "spec_running e i q R = (if denied_now e i q R then R else R(hashQuery e q := None))"

fun spec_run ::
  "'d dist_env \<Rightarrow> (string \<times> string) list \<Rightarrow> (string \<Rightarrow> string option)
   \<Rightarrow> DistributedQueryResult list \<times> (string \<Rightarrow> string option)" where
  "spec_run e [] R = ([], R)"
| "spec_run e ((i, q) # qs) R =
     (let (rs, R') = spec_run e qs (spec_running e i q R) in (spec_result e i q R # rs, R'))"

text \<open>The snapshots of the process around a query have the columns and do not overflow.\<close>

definition run_quiet :: "'d dist_env \<Rightarrow> string \<Rightarrow> string \<Rightarrow> bool" where
  "run_quiet e i q \<longleftrightarrow>
     (case (mq_r0 (di_run e i q), mq_r1 (di_run e i q)) of
        (r0 # _, r1 # _) \<Rightarrow> (\<forall>k \<in> {''user_time'', ''system_time'', ''resident_size''}. \<exists>d. perf_diff k r0 r1 = Inr d)
      | _ \<Rightarrow> True)"

lemma monitor_ok:
  assumes "run_quiet e i q"
  shows "\<exists>perf. monitorNonnumeric e i q s = Inr (mq_sql (di_run e i q), s\<lparr>ds_performance := perf\<rparr>)"
proof (cases "mq_r0 (di_run e i q) = [] \<or> mq_r1 (di_run e i q) = []")
  case True
  then have "monitorNonnumeric e i q s = Inr (mq_sql (di_run e i q), s\<lparr>ds_performance := ds_performance s\<rparr>)"
    by (auto simp: monitorNonnumeric_def Let_def split: list.splits)
  then show ?thesis by blast
next
  case False
  then obtain r0 r0s r1 r1s where r: "mq_r0 (di_run e i q) = r0 # r0s" "mq_r1 (di_run e i q) = r1 # r1s"
    by (meson neq_Nil_conv)
  obtain ut st rs where "perf_diff ''user_time'' r0 r1 = Inr ut" "perf_diff ''system_time'' r0 r1 = Inr st"
    "perf_diff ''resident_size'' r0 r1 = Inr rs"
    using assms by (auto simp: run_quiet_def r)
  then show ?thesis by (auto simp: monitorNonnumeric_def dist_recordQueryPerformance_def r Let_def)
qed

text \<open>The view after one query: its request is gone and the running marks are as the abstract machine says.\<close>

definition dist_view :: "string set \<Rightarrow> (string \<Rightarrow> string option) \<Rightarrow> (string \<Rightarrow> string \<Rightarrow> string option) \<Rightarrow> string \<Rightarrow> string \<Rightarrow> string option" where
  "dist_view gone R V =
     (\<lambda>dm k. if dm = kDistributedQueries \<and> k \<in> gone then None
             else if dm = kDistributedRunningQueries then R k else V dm k)"

lemma dist_domains [simp]:
  "kDistributedQueries \<noteq> []" "kDistributedRunningQueries \<noteq> []" "kDistributedQueries \<noteq> kDistributedRunningQueries"
  "kDistributedRunningQueries \<noteq> kDistributedQueries"
  by (simp_all add: kDistributedQueries_def kDistributedRunningQueries_def)

context reliable_database
begin

lemma run_query_start_ok:
  assumes "db_ready ok_db (ds_db s)" "de_ops (di_db e) = ops"
    and "db_view look (ds_db s) kDistributedQueries i = Some q"
  obtains p' where "run_query_start e i s =
      Inr (\<lparr>dq_query = q, dq_id = i\<rparr>, denied_now e i q (db_view look (ds_db s) kDistributedRunningQueries), s\<lparr>ds_db := p'\<rparr>)"
    "db_ready ok_db p'"
    "db_view look p' = dist_view {i} (case db_view look (ds_db s) kDistributedRunningQueries (hashQuery e q) of
        None \<Rightarrow> (db_view look (ds_db s) kDistributedRunningQueries)(hashQuery e q := Some (to_string_u64 (di_time e i)))
      | Some _ \<Rightarrow> db_view look (ds_db s) kDistributedRunningQueries) (db_view look (ds_db s))"
proof -
  let ?V = "db_view look (ds_db s)" and ?h = "hashQuery e q"
  obtain st where g: "getDatabaseValue (di_db e) False kDistributedQueries i [] (ds_db s) = Inr (st, q, ds_db s)"
    using get_some [OF assms(1,2) _ assms(3), of False] by auto
  obtain st1 p1 where d: "deleteDatabaseValue (di_db e) False kDistributedQueries i (ds_db s) = Inr (st1, p1)" "db_ready ok_db p1"
    "db_view look p1 = view_del kDistributedQueries (\<lambda>k. k = i) ?V"
    using delete_value_ok [OF assms(1,2), of kDistributedQueries i] by auto
  have pop: "popRequest e i s = Inr (\<lparr>dq_query = q, dq_id = i\<rparr>, s\<lparr>ds_db := p1\<rparr>)" by (simp add: popRequest_def g d(1))
  have V1: "db_view look p1 kDistributedRunningQueries = ?V kDistributedRunningQueries" by (simp add: d(3) view_del_def)
  show thesis
  proof (cases "?V kDistributedRunningQueries ?h")
    case None
    obtain st2 where g2: "getDatabaseValue (di_db e) False kDistributedRunningQueries ?h [] p1 = Inr (st2, [], p1)" "\<not> ok st2"
      using get_value [OF d(2) assms(2), of kDistributedRunningQueries False ?h] V1 None by auto
    obtain st3 p2 where p2: "setDatabaseValue (di_db e) False kDistributedRunningQueries ?h (to_string_u64 (di_time e i)) p1 = Inr (st3, p2)"
      "db_ready ok_db p2" "db_view look p2 = view_put kDistributedRunningQueries [(?h, to_string_u64 (di_time e i))] (db_view look p1)"
      using set_value [OF d(2) assms(2), of kDistributedRunningQueries ?h "to_string_u64 (di_time e i)"] by auto
    show thesis
      using None g2 p2 by (intro that [of p2]) (auto simp: run_query_start_def pop checkAndSetAsRunning_def denied_now_def
        dist_view_def view_put_def view_del_def d(3) fun_eq_iff)
  next
    case (Some ts)
    obtain st2 where g2: "getDatabaseValue (di_db e) False kDistributedRunningQueries ?h [] p1 = Inr (st2, ts, p1)" "ok st2"
      using get_some [OF d(2) assms(2), of kDistributedRunningQueries ?h ts False] V1 Some by auto
    show thesis
      using Some g2 d(2) by (intro that [of p1]) (auto simp: run_query_start_def pop checkAndSetAsRunning_def denied_now_def
        dist_view_def view_del_def d(3) fun_eq_iff)
  qed
qed

lemma run_query_ok:
  assumes "db_ready ok_db (ds_db s)" "de_ops (di_db e) = ops" "denied_now e i q R \<or> run_quiet e i q"
    and "db_view look (ds_db s) kDistributedQueries i = Some q"
    and R: "R = db_view look (ds_db s) kDistributedRunningQueries"
  shows "\<exists>p' perf cur. run_query e i s =
      Inr (s\<lparr>ds_db := p', ds_performance := perf, ds_currentRequestId := cur, ds_results := ds_results s @ [spec_result e i q R]\<rparr>) \<and>
    db_ready ok_db p' \<and> db_view look p' = dist_view {i} (spec_running e i q R) (db_view look (ds_db s))"
proof -
  let ?V = "db_view look (ds_db s)" and ?h = "hashQuery e q"
  obtain p1 where p1: "run_query_start e i s = Inr (\<lparr>dq_query = q, dq_id = i\<rparr>, denied_now e i q R, s\<lparr>ds_db := p1\<rparr>)"
    "db_ready ok_db p1"
    "db_view look p1 = dist_view {i} (case R ?h of None \<Rightarrow> R(?h := Some (to_string_u64 (di_time e i))) | Some _ \<Rightarrow> R) ?V"
    unfolding R by (rule run_query_start_ok [OF assms(1,2,4)])
  show ?thesis
  proof (cases "denied_now e i q R")
    case True
    then have "R ?h \<noteq> None" by (auto simp: denied_now_def split: option.splits)
    then have "run_query e i s = Inr (s\<lparr>ds_db := p1, ds_performance := ds_performance s,
        ds_currentRequestId := ds_currentRequestId s, ds_results := ds_results s @ [spec_result e i q R]\<rparr>)"
      "db_view look p1 = dist_view {i} (spec_running e i q R) ?V"
      using True p1(1,3) by (auto simp: run_query_def addResult_def spec_result_def spec_running_def)
    then show ?thesis using p1(2) by blast
  next
    case False
    obtain perf where m: "monitorNonnumeric e i q (setCurrentRequestId i (s\<lparr>ds_db := p1\<rparr>)) =
        Inr (mq_sql (di_run e i q), (setCurrentRequestId i (s\<lparr>ds_db := p1\<rparr>))\<lparr>ds_performance := perf\<rparr>)"
      using assms(3) False monitor_ok [of e i q "setCurrentRequestId i (s\<lparr>ds_db := p1\<rparr>)"] by blast
    obtain st p2 where p2: "deleteDatabaseValue (di_db e) False kDistributedRunningQueries ?h p1 = Inr (st, p2)" "db_ready ok_db p2"
      "db_view look p2 = view_del kDistributedRunningQueries (\<lambda>k. k = ?h) (db_view look p1)"
      using delete_value_ok [OF p1(2) assms(2), of kDistributedRunningQueries ?h] by auto
    have "run_query e i s = Inr (s\<lparr>ds_db := p2, ds_performance := perf, ds_currentRequestId := i,
        ds_results := ds_results s @ [spec_result e i q R]\<rparr>)"
      using False p1(1) m p2(1)
      by (simp add: run_query_def addResult_def spec_result_def setAsNotRunning_def setKeyAsNotRunning_def setCurrentRequestId_def)
    moreover have "db_view look p2 = dist_view {i} (spec_running e i q R) ?V"
      using False by (auto simp: p2(3) p1(3) dist_view_def view_del_def spec_running_def fun_eq_iff split: option.splits)
    ultimately show ?thesis using p2(2) by blast
  qed
qed

lemma run_queries_ok:
  assumes "de_ops (di_db e) = ops" "distinct (map fst qs)" "\<forall>(i, q) \<in> set qs. run_quiet e i q"
    and "db_ready ok_db (ds_db s)" "\<forall>(i, q) \<in> set qs. db_view look (ds_db s) kDistributedQueries i = Some q"
    and "spec_run e qs (db_view look (ds_db s) kDistributedRunningQueries) = (rs, R')"
  shows "\<exists>s'. exn_fold (run_query e) (map fst qs) s = Inr s' \<and> ds_results s' = ds_results s @ rs \<and> ds_calls s' = ds_calls s \<and>
    db_ready ok_db (ds_db s') \<and>
    db_view look (ds_db s') = dist_view (fst ` set qs) R' (db_view look (ds_db s))"
  using assms(2-)
proof (induction qs arbitrary: s rs)
  case Nil
  then show ?case by (auto simp: dist_view_def fun_eq_iff)
next
  case (Cons a qs)
  obtain i q where a: "a = (i, q)" by (cases a)
  let ?V = "db_view look (ds_db s)"
  let ?R = "?V kDistributedRunningQueries"
  obtain p1 perf cur where p1: "run_query e i s = Inr (s\<lparr>ds_db := p1, ds_performance := perf, ds_currentRequestId := cur,
      ds_results := ds_results s @ [spec_result e i q ?R]\<rparr>)" (is "_ = Inr ?s1")
    "db_ready ok_db p1" "db_view look p1 = dist_view {i} (spec_running e i q ?R) ?V"
    using run_query_ok [OF Cons.prems(3) assms(1) _ _ refl, of i q] Cons.prems(2,4) by (auto simp: a)
  obtain rs1 where rs: "rs = spec_result e i q ?R # rs1" "spec_run e qs (spec_running e i q ?R) = (rs1, R')"
    using Cons.prems(5) by (auto simp: a split: prod.splits)
  have "db_view look p1 kDistributedRunningQueries = spec_running e i q ?R" by (simp add: p1(3) dist_view_def)
  moreover have "\<forall>(i', q') \<in> set qs. db_view look p1 kDistributedQueries i' = Some q'"
    using Cons.prems(1,4) by (force simp: a p1(3) dist_view_def)
  ultimately obtain s' where s': "exn_fold (run_query e) (map fst qs) ?s1 = Inr s'"
    "ds_results s' = ds_results ?s1 @ rs1" "ds_calls s' = ds_calls ?s1"
    "db_ready ok_db (ds_db s')" "db_view look (ds_db s') = dist_view (fst ` set qs) R' (db_view look p1)"
    using Cons.IH [of ?s1 rs1] Cons.prems(1,2) p1(2) rs(2) by (auto simp: a)
  have "db_view look (ds_db s') = dist_view (fst ` set (a # qs)) R' ?V"
    by (auto simp: s'(5) p1(3) dist_view_def a fun_eq_iff)
  then show ?case using p1(1) s'(1-4) rs(1) by (simp add: a)
qed

end

lemma spec_run_ids: "map (\<lambda>r. dq_id (dr_request r)) (fst (spec_run e qs R)) = map fst qs"
  by (induction e qs R rule: spec_run.induct)
    (auto simp: spec_result_def denied_result_def sql_answer_def Let_def split: prod.splits)

context reliable_database
begin

lemma runQueries_ok:
  assumes "db_ready ok_db (ds_db s)" "de_ops (di_db e) = ops"
    and "\<forall>i q. db_view look (ds_db s) kDistributedQueries i = Some q \<longrightarrow> run_quiet e i q"
  shows "\<exists>qs s1. sorted_wrt (<) (map fst qs) \<and> set qs = {(i, q). db_view look (ds_db s) kDistributedQueries i = Some q} \<and>
    runQueries e s = Inr (flushCompleted e s1) \<and>
    ds_results s1 = ds_results s @ fst (spec_run e qs (db_view look (ds_db s) kDistributedRunningQueries)) \<and>
    map (\<lambda>r. dq_id (dr_request r)) (ds_results s1) = map (\<lambda>r. dq_id (dr_request r)) (ds_results s) @ map fst qs \<and>
    db_ready ok_db (ds_db s1) \<and> (\<forall>i. db_view look (ds_db s1) kDistributedQueries i = None) \<and>
    db_view look (ds_db s1) kDistributedRunningQueries =
      snd (spec_run e qs (db_view look (ds_db s) kDistributedRunningQueries))"
proof -
  let ?V = "db_view look (ds_db s)"
  obtain st keys where k: "scanDatabaseKeys (di_db e) False kDistributedQueries [] [] 0 (ds_db s) = Inr (st, keys, ds_db s)"
    "set keys = {k. ?V kDistributedQueries k \<noteq> None}" "sorted_wrt (<) keys"
    using scan_keys [OF assms(1,2), of kDistributedQueries False] by auto
  define qs where "qs = map (\<lambda>k. (k, the (?V kDistributedQueries k))) keys"
  have qs: "map fst qs = keys" "set qs = {(i, q). ?V kDistributedQueries i = Some q}" "fst ` set qs = set keys"
    by (auto simp: qs_def k(2) comp_def image_image)
  have "distinct keys" using k(3) by (simp add: strict_sorted_iff)
  then obtain s1 where s1: "exn_fold (run_query e) keys s = Inr s1"
    "ds_results s1 = ds_results s @ fst (spec_run e qs (?V kDistributedRunningQueries))" "db_ready ok_db (ds_db s1)"
    "db_view look (ds_db s1) = dist_view (fst ` set qs) (snd (spec_run e qs (?V kDistributedRunningQueries))) ?V"
    using run_queries_ok [OF assms(2) _ _ assms(1) _ prod.collapse [symmetric], of qs] assms(3) qs(1,2) by auto
  have "db_view look (ds_db s1) kDistributedQueries i = None" for i
    using k(2) by (auto simp: s1(4) dist_view_def qs(3))
  moreover have "runQueries e s = Inr (flushCompleted e s1)"
    by (simp add: runQueries_def getPendingQueries_def k(1) s1(1))
  ultimately show ?thesis
    using k(3) qs(1,2) s1 by (intro exI [of _ qs] exI [of _ s1]) (simp add: spec_run_ids dist_view_def)
qed

end

definition sample_dist_env :: "ephemeral_db dist_env" where
  "sample_dist_env =
     \<lparr>di_db = eph_env, di_debug = True, di_hash = id, di_duration = 86400, di_interval = 60,
      di_sql = (\<lambda>_. \<lparr>dsq_status = success, dsq_rows = [[]], dsq_columns = []\<rparr>),
      di_run = (\<lambda>_ _. \<lparr>mq_sql = \<lparr>dsq_status = success, dsq_rows = [[(''a'', ''1'')]], dsq_columns = [''a'']\<rparr>,
                        mq_r0 = [], mq_r1 = [], mq_delay = 3\<rparr>),
      di_active = ''tls'', di_exists = True, di_call = (\<lambda>_. (success, [])), di_now = 1000, di_time = (\<lambda>_. 1000)\<rparr>"

definition sample_dist :: "(string, db_value) omap \<Rightarrow> (string, db_value) omap \<Rightarrow> ephemeral_db Distributed" where
  "sample_dist pending running =
     \<lparr>ds_db = eph_process [(kDistributedQueries, pending), (kDistributedRunningQueries, running)], ds_results = [],
      ds_performance = [], ds_currentRequestId = [], ds_calls = []\<rparr>"

definition sample_pending :: "(string, db_value) omap" where
  "sample_pending = [(''id1'', DbString ''select 1'')]"

lemma sample_dist_env_ok:
  "de_ops (di_db sample_dist_env) = EphemeralDatabasePlugin" "run_quiet sample_dist_env i q" "hashQuery sample_dist_env q = q"
  by (simp_all add: sample_dist_env_def eph_env_ops run_quiet_def hashQuery_def)

lemma sample_dist_ok:
  assumes "eph_dom_ok pending" "eph_dom_ok running"
  shows "db_ready eph_inv (ds_db (sample_dist pending running))"
    and "db_view eph_look (ds_db (sample_dist pending running)) kDistributedQueries i =
      (case om_get pending i of Some (DbString q) \<Rightarrow> Some q | _ \<Rightarrow> None)"
    and "db_view eph_look (ds_db (sample_dist pending running)) kDistributedRunningQueries i =
      (case om_get running i of Some (DbString q) \<Rightarrow> Some q | _ \<Rightarrow> None)"
proof -
  have "eph_inv [(kDistributedQueries, pending), (kDistributedRunningQueries, running)]"
    using assms by (auto simp: eph_inv_def om_wf_def om_get_def kDistributedQueries_def kDistributedRunningQueries_def split: if_splits)
  then show "db_ready eph_inv (ds_db (sample_dist pending running))" by (simp add: sample_dist_def eph_process_ready)
qed (simp_all add: sample_dist_def eph_look_def eph_domain_def om_get_def)

lemma sample_doms_ok: "eph_dom_ok []" "eph_dom_ok sample_pending" "eph_dom_ok [(''select 1'', DbString ''5'')]"
  by (simp_all add: eph_dom_ok_def om_wf_def sample_pending_def om_get_def)

text \<open>
  C14. A turn answers every pending query exactly once. Whatever is stored, the run goes through the pending
  identifiers in order, and the results added are those of the abstract machine: a query whose hash bears a mark
  that has not expired is denied without being run and keeps its mark, every other query is run and its mark
  removed. No pending query is left before the results are flushed.\<close>

theorem pending_queries_answered:
  assumes "db_ready eph_inv (ds_db s)" "de_ops (di_db e) = EphemeralDatabasePlugin"
    and "\<forall>i q. db_view eph_look (ds_db s) kDistributedQueries i = Some q \<longrightarrow> run_quiet e i q"
  shows "\<exists>qs s1. sorted_wrt (<) (map fst qs) \<and> set qs = {(i, q). db_view eph_look (ds_db s) kDistributedQueries i = Some q} \<and>
    runQueries e s = Inr (flushCompleted e s1) \<and>
    ds_results s1 = ds_results s @ fst (spec_run e qs (db_view eph_look (ds_db s) kDistributedRunningQueries)) \<and>
    map (\<lambda>r. dq_id (dr_request r)) (ds_results s1) = map (\<lambda>r. dq_id (dr_request r)) (ds_results s) @ map fst qs \<and>
    db_ready eph_inv (ds_db s1) \<and> (\<forall>i. db_view eph_look (ds_db s1) kDistributedQueries i = None) \<and>
    db_view eph_look (ds_db s1) kDistributedRunningQueries =
      snd (spec_run e qs (db_view eph_look (ds_db s) kDistributedRunningQueries))"
  by (rule eph.runQueries_ok [OF assms])

theorem pending_queries_answered_witness:
  "\<exists>s1. runQueries sample_dist_env (sample_dist sample_pending []) = Inr (flushCompleted sample_dist_env s1) \<and>
     map (\<lambda>r. dq_id (dr_request r)) (ds_results s1) = [''id1'']"
proof -
  let ?s = "sample_dist sample_pending []"
  have V: "db_view eph_look (ds_db ?s) kDistributedQueries i = (if i = ''id1'' then Some ''select 1'' else None)" for i
    unfolding sample_dist_ok(2) [OF sample_doms_ok(2,1)] by (simp add: sample_pending_def om_get_def)
  obtain qs s1 where q: "set qs = {(i, q). db_view eph_look (ds_db ?s) kDistributedQueries i = Some q}" "sorted_wrt (<) (map fst qs)"
    "runQueries sample_dist_env ?s = Inr (flushCompleted sample_dist_env s1)"
    "map (\<lambda>r. dq_id (dr_request r)) (ds_results s1) = map (\<lambda>r. dq_id (dr_request r)) (ds_results ?s) @ map fst qs"
    using pending_queries_answered [OF sample_dist_ok(1) [OF sample_doms_ok(2,1)] sample_dist_env_ok(1)] sample_dist_env_ok(2)
    by blast
  have "set (map fst qs) = {''id1''}" by (force simp: q(1) V split: if_splits)
  then have "map fst qs = [''id1'']" using q(2) by (simp add: strict_sorted_iff sorted_distinct_set_unique)
  then have "map (\<lambda>r. dq_id (dr_request r)) (ds_results s1) = [''id1'']" using q(4) by (simp add: sample_dist_def)
  with q(3) show ?thesis by (intro exI [of _ s1] conjI)
qed

section \<open>Delivery of results\<close>

definition result_rows :: "rapidjson \<Rightarrow> DistributedQueryResult \<Rightarrow> json" where
  "result_rows rj r = JArray (map (\<lambda>row. JObject (snd (serializeRow rj row (dr_columns r) []))) (dr_results r))"

lemma serializeQueryData_rows:
  "serializeQueryData rj q cols arr = (success, arr @ map (\<lambda>row. JObject (snd (serializeRow rj row cols []))) q)"
  by (induction q arbitrary: arr) (simp_all add: json_push_def)

definition by_id :: "(DistributedQueryResult \<Rightarrow> json) \<Rightarrow> DistributedQueryResult list \<Rightarrow> string \<Rightarrow> json option" where
  "by_id f rs = map_of (rev (map (\<lambda>r. (dq_id (dr_request r), f r)) rs))"

lemma by_id_Cons: "by_id f (r # rs) = [dq_id (dr_request r) \<mapsto> f r] ++ by_id f rs"
  by (simp add: by_id_def)

lemma serialize_results_ok:
  assumes "rj_remove_ok rj"
  shows "distinct (map fst q) \<Longrightarrow> distinct (map fst st) \<Longrightarrow> distinct (map fst m) \<Longrightarrow> distinct (map fst ss) \<Longrightarrow>
    \<exists>q' st' m' ss'. serialize_results rj perf rs (q, st, m, ss) = (success, q', st', m', ss') \<and>
      map_of q' = map_of q ++ by_id (result_rows rj) rs \<and>
      map_of st' = map_of st ++ by_id (\<lambda>r. JInt (st_code (dr_status r))) rs \<and>
      map_of m' = map_of m ++ by_id (\<lambda>r. JString (dr_message r)) rs"
proof (induction rs arbitrary: q st m ss)
  case Nil
  then show ?case by (simp add: by_id_def)
next
  case (Cons r rs)
  let ?i = "dq_id (dr_request r)"
  let ?stats = "JObject (case om_get perf ?i of Some p \<Rightarrow> stats_members p | None \<Rightarrow> [])"
  note add = json_add_distinct [OF assms]
  have step: "serialize_results rj perf (r # rs) (q, st, m, ss) = serialize_results rj perf rs
      (json_add rj ?i (result_rows rj r) q, json_add rj ?i (JInt (st_code (dr_status r))) st,
       json_add rj ?i (JString (dr_message r)) m, json_add rj ?i ?stats ss)"
    by (simp add: serializeQueryData_rows json_add_simps result_rows_def Let_def del: serializeRow.simps)
  have by_id: "map_of obj ++ by_id f (r # rs) = map_of (json_add rj ?i (f r) obj) ++ by_id f rs"
    if "distinct (map fst obj)" for obj f
    by (simp only: add(2) [OF that] by_id_Cons map_add_assoc map_add_upd map_add_empty)
  show ?case
    unfolding step by_id [OF Cons.prems(1)] by_id [OF Cons.prems(2)] by_id [OF Cons.prems(3)]
    by (rule Cons.IH) (simp_all add: add(1) Cons.prems)
qed

lemma serializeResults_ok:
  assumes "rj_remove_ok (de_rj (di_db e))"
  obtains doc q st m where "serializeResults e s = (success, rj_print (de_rj (di_db e)) (JObject doc))"
    "FindMember doc ''queries'' = Some (JObject q)" "FindMember doc ''statuses'' = Some (JObject st)"
    "FindMember doc ''messages'' = Some (JObject m)"
    "FindMember q = by_id (result_rows (de_rj (di_db e))) (ds_results s)"
    "FindMember st = by_id (\<lambda>r. JInt (st_code (dr_status r))) (ds_results s)"
    "FindMember m = by_id (\<lambda>r. JString (dr_message r)) (ds_results s)"
proof -
  let ?rj = "de_rj (di_db e)"
  obtain q st m ss where r: "serialize_results ?rj (ds_performance s) (ds_results s) ([], [], [], []) = (success, q, st, m, ss)"
    "map_of q = by_id (result_rows ?rj) (ds_results s)" "map_of st = by_id (\<lambda>r. JInt (st_code (dr_status r))) (ds_results s)"
    "map_of m = by_id (\<lambda>r. JString (dr_message r)) (ds_results s)"
    using serialize_results_ok [OF assms, of "[]" "[]" "[]" "[]" "ds_performance s" "ds_results s"] by auto
  let ?doc = "[(''queries'', JObject q), (''statuses'', JObject st), (''messages'', JObject m), (''stats'', JObject ss)]"
  have "serializeResults e s = (success, rj_print ?rj (JObject ?doc))"
    by (simp add: serializeResults_def r(1) json_toString_def json_add_def HasMember_def FindMember_def)
  then show thesis using r(2-4) by (intro that [of ?doc q st m]) (simp_all add: FindMember_def [abs_def])
qed

text \<open>
  C16. Results are kept until they are taken. A flush either leaves the results as they are, or empties them, and
  then the plugin has accepted a text from which a reader gets, for every identifier, the rows, the status and
  the message of its last result. The flush never touches the database.\<close>

theorem results_kept_until_taken:
  assumes "rj_ok (de_rj (di_db e))" "flushCompleted e s = (st, s')"
  shows "ds_db s' = ds_db s \<and>
    (\<not> ok st \<and> ds_results s' = ds_results s \<or>
     ok st \<and> ds_results s' = [] \<and>
     (ds_results s \<noteq> [] \<longrightarrow>
       (\<exists>text doc q codes m. ds_calls s' = ds_calls s @ [[(''action'', ''writeResults''), (''results'', text)]] \<and>
          di_exists e \<and> ok (fst (di_call e [(''action'', ''writeResults''), (''results'', text)])) \<and>
          json_fromString (de_rj (di_db e)) text = (success, Some (JObject doc)) \<and>
          FindMember doc ''queries'' = Some (JObject q) \<and> FindMember doc ''statuses'' = Some (JObject codes) \<and>
          FindMember doc ''messages'' = Some (JObject m) \<and>
          FindMember q = by_id (result_rows (de_rj (di_db e))) (ds_results s) \<and>
          FindMember codes = by_id (\<lambda>r. JInt (st_code (dr_status r))) (ds_results s) \<and>
          FindMember m = by_id (\<lambda>r. JString (dr_message r)) (ds_results s))))"
proof -
  let ?rj = "de_rj (di_db e)"
  have rj: "rj_remove_ok ?rj" "rj_roundtrip ?rj" "rj_text_ok ?rj" using assms(1) by (auto simp: rj_ok_def)
  obtain doc q codes m where d: "serializeResults e s = (success, rj_print ?rj (JObject doc))"
    "FindMember doc ''queries'' = Some (JObject q)" "FindMember doc ''statuses'' = Some (JObject codes)"
    "FindMember doc ''messages'' = Some (JObject m)" "FindMember q = by_id (result_rows ?rj) (ds_results s)"
    "FindMember codes = by_id (\<lambda>r. JInt (st_code (dr_status r))) (ds_results s)"
    "FindMember m = by_id (\<lambda>r. JString (dr_message r)) (ds_results s)"
    by (rule serializeResults_ok [OF rj(1)])
  let ?text = "rj_print ?rj (JObject doc)"
  let ?req = "[(''action'', ''writeResults''), (''results'', ?text)]"
  have parse: "json_fromString ?rj ?text = (success, Some (JObject doc))" by (rule fromString_print [OF rj(2,3)])
  consider "ds_results s = []" "st = success" "s' = s"
    | "ds_results s \<noteq> []" "\<not> di_exists e" "\<not> ok st" "s' = s"
    | "ds_results s \<noteq> []" "di_exists e" "\<not> ok (fst (di_call e ?req))" "st = fst (di_call e ?req)"
      "s' = s\<lparr>ds_calls := ds_calls s @ [?req]\<rparr>"
    | "ds_results s \<noteq> []" "di_exists e" "ok (fst (di_call e ?req))" "st = fst (di_call e ?req)"
      "s' = s\<lparr>ds_calls := ds_calls s @ [?req], ds_results := [], ds_performance := []\<rparr>"
    using assms(2) d(1)
    by (auto simp: flushCompleted_def getCompletedCount_def call_plugin_def Let_def split: if_splits prod.splits)
  then show ?thesis using parse d(2-) by cases auto
qed

theorem results_kept_until_taken_witness:
  "ds_db (snd (flushCompleted sample_dist_env (sample_dist sample_pending []))) = ds_db (sample_dist sample_pending [])"
proof -
  have "rj_ok (de_rj (di_db sample_dist_env))"
    using codec_roundtrip codec_text_ok codec_remove_ok by (simp add: rj_ok_def sample_dist_env_def eph_env_def)
  from results_kept_until_taken [OF this prod.collapse [symmetric]] show ?thesis by blast
qed

section \<open>Queries that kill the process\<close>

lemma expired_printed [simp]:
  "denylistedQueryTimestampExpired e now (to_string_u64 t) \<longleftrightarrow> now > t + denylistDuration e"
  by (simp add: denylistedQueryTimestampExpired_def tryTo_u64_def tryTo_catch_def Expected_value_def
      throwingStringToInt_ulonglong_def)



text \<open>
  A mark that has expired protects no more. A query that meets an expired mark is run with the old mark left
  in place, so if it kills the process the next one finds the same mark, expired, and runs the query again: as
  the marks are cleaned up only after the queries of a turn, nothing ends this.\<close>

theorem expired_mark_kept:
  assumes "db_ready eph_inv (ds_db s)" "de_ops (di_db e) = EphemeralDatabasePlugin"
    and "db_view eph_look (ds_db s) kDistributedQueries i = Some q"
    and "db_view eph_look (ds_db s) kDistributedRunningQueries (hashQuery e q) = Some ts"
    and "denylistedQueryTimestampExpired e (di_time e i) ts"
  shows "\<exists>s1. run_query_start e i s = Inr (\<lparr>dq_query = q, dq_id = i\<rparr>, False, s1) \<and> db_ready eph_inv (ds_db s1) \<and>
    db_view eph_look (ds_db s1) kDistributedRunningQueries = db_view eph_look (ds_db s) kDistributedRunningQueries"
proof -
  let ?R = "db_view eph_look (ds_db s) kDistributedRunningQueries"
  obtain p1 where "run_query_start e i s = Inr (\<lparr>dq_query = q, dq_id = i\<rparr>, denied_now e i q ?R, s\<lparr>ds_db := p1\<rparr>)"
    "db_ready eph_inv p1" "db_view eph_look p1 = dist_view {i} (case ?R (hashQuery e q) of
        None \<Rightarrow> ?R(hashQuery e q := Some (to_string_u64 (di_time e i))) | Some _ \<Rightarrow> ?R) (db_view eph_look (ds_db s))"
    by (rule eph.run_query_start_ok [OF assms(1-3)])
  then show ?thesis using assms(4,5) by (simp add: denied_now_def dist_view_def)
qed

theorem expired_mark_kept_witness:
  "\<exists>s1. run_query_start (sample_dist_env\<lparr>di_time := \<lambda>_. 100000\<rparr>) ''id1'' (sample_dist sample_pending [(''select 1'', DbString ''5'')]) =
     Inr (\<lparr>dq_query = ''select 1'', dq_id = ''id1''\<rparr>, False, s1)"
proof -
  let ?e = "sample_dist_env\<lparr>di_time := \<lambda>_. 100000\<rparr>"
  note ok = sample_dist_ok [OF sample_doms_ok(2,3)]
  have five: "''5'' = to_string_u64 5" by code_simp
  have "hashQuery ?e q = q" "de_ops (di_db ?e) = EphemeralDatabasePlugin" for q
    by (simp_all add: hashQuery_def sample_dist_env_def eph_env_ops)
  moreover have "denylistedQueryTimestampExpired ?e (di_time ?e ''id1'') ''5''"
    unfolding five by (simp add: denylistDuration_def sample_dist_env_def word_less_nat_alt)
  ultimately show ?thesis
    using expired_mark_kept [OF ok(1), of ?e "''id1''" "''select 1''" "''5''"] ok(2,3)
    by (auto simp: sample_pending_def om_get_def)
qed

section \<open>Accepting work\<close>

definition work_ok :: "members \<Rightarrow> bool" where
  "work_ok ms \<longleftrightarrow> (\<forall>(n, v) \<in> set ms. c_str n \<noteq> [] \<and> (\<exists>q. v = JString q \<and> c_str q \<noteq> []))"

definition work_items :: "members \<Rightarrow> (string \<times> string) list" where
  "work_items ms = map (\<lambda>(n, v). (c_str n, case v of JString q \<Rightarrow> c_str q | _ \<Rightarrow> [])) ms"

lemma accept_discovery_ok:
  assumes "work_ok ms" "\<forall>(n, q) \<in> set (work_items ms). ok (dsq_status (di_sql e q))"
  shows "\<exists>found'. accept_discovery e ms found = (success, found') \<and>
    om_get found' = map_of (map (\<lambda>(n, q). (n, dsq_rows (di_sql e q) \<noteq> [])) (work_items ms)) ++ om_get found"
  using assms
proof (induction ms arbitrary: found)
  case (Cons m ms)
  obtain n q where m: "m = (n, JString q)" "c_str n \<noteq> []" "c_str q \<noteq> []" using Cons.prems(1) by (cases m) (auto simp: work_ok_def)
  let ?found = "if om_has found (c_str n) then found else om_set (c_str n) (dsq_rows (di_sql e (c_str q)) \<noteq> []) found"
  have "ok (dsq_status (di_sql e (c_str q)))" "work_ok ms" "\<forall>(n, q) \<in> set (work_items ms). ok (dsq_status (di_sql e q))"
    using Cons.prems by (auto simp: m work_ok_def work_items_def)
  then obtain found' where "accept_discovery e (m # ms) found = (success, found')"
    "om_get found' = map_of (map (\<lambda>(n, q). (n, dsq_rows (di_sql e q) \<noteq> [])) (work_items ms)) ++ om_get ?found"
    using Cons.IH [of ?found] m(2,3) by (auto simp: m(1) Let_def)
  then show ?case by (auto simp: m(1) work_items_def fun_eq_iff map_add_def om_has_def split: option.splits)
qed (simp add: work_items_def)

context reliable_database
begin

lemma accept_queries_ok:
  assumes "de_ops (di_db e) = ops" "work_ok ms" "db_ready ok_db (ds_db s)"
  shows "\<exists>p'. accept_queries e found ms s = Inr (success, s\<lparr>ds_db := p'\<rparr>) \<and> db_ready ok_db p' \<and>
    db_view look p' = view_put kDistributedQueries (filter (\<lambda>(n, q). om_get found n \<noteq> Some False) (work_items ms)) (db_view look (ds_db s))"
  using assms(2,3)
proof (induction ms arbitrary: s)
  case Nil
  then show ?case by (intro exI [of _ "ds_db s"]) (simp add: work_items_def view_put_def)
next
  case (Cons m ms)
  obtain n q where m: "m = (n, JString q)" "c_str n \<noteq> []" "c_str q \<noteq> []" using Cons.prems(1) by (cases m) (auto simp: work_ok_def)
  have ms: "work_ok ms" using Cons.prems(1) by (simp add: work_ok_def)
  show ?case
  proof (cases "om_get found (c_str n) = Some False")
    case True
    then show ?thesis using Cons.IH [OF ms Cons.prems(2)] m(2,3) by (simp add: m(1) work_items_def)
  next
    case False
    obtain st p1 where p1: "setDatabaseValue (di_db e) False kDistributedQueries (c_str n) (c_str q) (ds_db s) = Inr (st, p1)"
      "db_ready ok_db p1" "db_view look p1 = view_put kDistributedQueries [(c_str n, c_str q)] (db_view look (ds_db s))"
      using set_value [OF Cons.prems(2) assms(1), of kDistributedQueries "c_str n" "c_str q"] by auto
    have "om_get found (c_str n) = None \<or> om_get found (c_str n) = Some True" using False by (cases "om_get found (c_str n)") auto
    then show ?thesis
      using Cons.IH [of "s\<lparr>ds_db := p1\<rparr>", OF ms] m(2,3) False p1 by (auto simp: m(1) work_items_def Let_def view_put_append)
  qed
qed

lemma accept_accelerate_ok:
  assumes "de_ops (di_db e) = ops" "db_ready ok_db (ds_db s)"
  shows "\<exists>p'. accept_accelerate e doc s = Inr (success, s\<lparr>ds_db := p'\<rparr>) \<and> db_ready ok_db p' \<and>
    (\<forall>dm. dm \<noteq> kPersistentSettings \<longrightarrow> db_view look p' dm = db_view look (ds_db s) dm)"
proof -
  consider d where "FindMember doc ''accelerate'' = Some (JInt d)" "- (2 ^ 31) \<le> d" "d < 2 ^ 31"
    | "accept_accelerate e doc s = Inr (success, s)"
    unfolding accept_accelerate_def by (cases "FindMember doc ''accelerate''") (fastforce split: json.splits if_splits)+
  then show ?thesis
  proof cases
    case (1 d)
    obtain st p' where p': "setDatabaseValue (di_db e) False kPersistentSettings kAccelerateKey
        (to_string_u64 (di_now e + word_of_int d)) (ds_db s) = Inr (st, p')"
      "db_ready ok_db p'" "db_view look p' = view_put kPersistentSettings [(kAccelerateKey, to_string_u64 (di_now e + word_of_int d))]
        (db_view look (ds_db s))"
      using set_value [OF assms(2,1) domains_nonempty(3), of kAccelerateKey "to_string_u64 (di_now e + word_of_int d)"] by auto
    then show ?thesis using 1 by (auto simp: accept_accelerate_def view_put_def)
  next
    case 2
    then show ?thesis using assms(2) by (intro exI [of _ "ds_db s"]) simp
  qed
qed

lemma acceptWork_ok:
  assumes "db_ready ok_db (ds_db s)" "de_ops (di_db e) = ops"
    and "json_fromString (de_rj (di_db e)) work = (success, Some (JObject doc))"
    and "object_member (di_debug e) doc ''discovery'' = Inr ds" "object_member (di_debug e) doc ''queries'' = Inr qs"
    and "work_ok ds" "work_ok qs" "\<forall>(n, q) \<in> set (work_items ds). ok (dsq_status (di_sql e q))"
    and accepted: "accepted = filter (\<lambda>(n, q).
      map_of (map (\<lambda>(n, q). (n, dsq_rows (di_sql e q) \<noteq> [])) (work_items ds)) n \<noteq> Some False) (work_items qs)"
  shows "\<exists>p'. acceptWork e work s = Inr (success, s\<lparr>ds_db := p'\<rparr>) \<and> db_ready ok_db p' \<and>
    db_view look p' kDistributedQueries = db_view look (ds_db s) kDistributedQueries ++ map_of (rev accepted) \<and>
    db_view look p' kDistributedRunningQueries = db_view look (ds_db s) kDistributedRunningQueries"
proof -
  obtain found where f: "accept_discovery e ds [] = (success, found)"
    "om_get found = map_of (map (\<lambda>(n, q). (n, dsq_rows (di_sql e q) \<noteq> [])) (work_items ds)) ++ om_get []"
    using accept_discovery_ok [OF assms(6,8), of "[]"] by blast
  have found: "om_get found = map_of (map (\<lambda>(n, q). (n, dsq_rows (di_sql e q) \<noteq> [])) (work_items ds))"
    unfolding f(2) by (auto simp: fun_eq_iff map_add_def)
  obtain p1 where p1: "accept_queries e found qs s = Inr (success, s\<lparr>ds_db := p1\<rparr>)" "db_ready ok_db p1"
    "db_view look p1 = view_put kDistributedQueries accepted (db_view look (ds_db s))"
    using accept_queries_ok [OF assms(2,7,1), of found] by (auto simp: accepted found)
  obtain p2 where p2: "accept_accelerate e doc (s\<lparr>ds_db := p1\<rparr>) = Inr (success, s\<lparr>ds_db := p2\<rparr>)" "db_ready ok_db p2"
    "\<forall>dm. dm \<noteq> kPersistentSettings \<longrightarrow> db_view look p2 dm = db_view look p1 dm"
    using accept_accelerate_ok [OF assms(2), of "s\<lparr>ds_db := p1\<rparr>" doc] p1(2) by auto
  have "acceptWork e work s = Inr (success, s\<lparr>ds_db := p2\<rparr>)"
    by (simp add: acceptWork_def assms(3-5) f(1) p1(1) p2(1))
  moreover have "kDistributedQueries \<noteq> kPersistentSettings" "kDistributedRunningQueries \<noteq> kPersistentSettings"
    by (simp_all add: kDistributedQueries_def kDistributedRunningQueries_def kPersistentSettings_def)
  ultimately show ?thesis using p2(2,3) p1(3)
    by (intro exI [of _ p2]) (simp add: view_put_def map_add_def)
qed

end

lemma spec_run_answers:
  "(i, q) \<in> set qs \<Longrightarrow> \<exists>r \<in> set (fst (spec_run e qs R)).
     r \<in> {denied_result \<lparr>dq_query = q, dq_id = i\<rparr>, sql_answer \<lparr>dq_query = q, dq_id = i\<rparr> (mq_sql (di_run e i q))}"
  by (induction e qs R rule: spec_run.induct) (auto simp: spec_result_def Let_def split: prod.splits)

text \<open>
  C15. Work that is accepted is answered. A document of queries and discovery queries, all non-empty strings, with
  discovery SQL that runs, is accepted; the next run then has a result for every query whose discovery query
  found rows or that has none: the answer of its SQL, or the denial if it bears a mark.\<close>

theorem accepted_query_answered:
  assumes "db_ready eph_inv (ds_db s)" "de_ops (di_db e) = EphemeralDatabasePlugin"
    and "json_fromString (de_rj (di_db e)) work = (success, Some (JObject doc))"
    and "object_member (di_debug e) doc ''discovery'' = Inr ds" "object_member (di_debug e) doc ''queries'' = Inr qs"
    and "work_ok ds" "work_ok qs" "\<forall>(n, q) \<in> set (work_items ds). ok (dsq_status (di_sql e q))"
    and "\<forall>i q. run_quiet e i q"
  shows "\<exists>s1 s2. acceptWork e work s = Inr (success, s1) \<and> runQueries e s1 = Inr (flushCompleted e s2) \<and>
    (\<forall>i q. map_of (rev (filter (\<lambda>(n, q).
         map_of (map (\<lambda>(n, q). (n, dsq_rows (di_sql e q) \<noteq> [])) (work_items ds)) n \<noteq> Some False) (work_items qs))) i = Some q \<longrightarrow>
       (\<exists>r \<in> set (ds_results s2). r \<in> {denied_result \<lparr>dq_query = q, dq_id = i\<rparr>,
          sql_answer \<lparr>dq_query = q, dq_id = i\<rparr> (mq_sql (di_run e i q))}))"
proof -
  let ?acc = "filter (\<lambda>(n, q). map_of (map (\<lambda>(n, q). (n, dsq_rows (di_sql e q) \<noteq> [])) (work_items ds)) n \<noteq> Some False) (work_items qs)"
  obtain p1 where p1: "acceptWork e work s = Inr (success, s\<lparr>ds_db := p1\<rparr>)" "db_ready eph_inv p1"
    "db_view eph_look p1 kDistributedQueries = db_view eph_look (ds_db s) kDistributedQueries ++ map_of (rev ?acc)"
    using eph.acceptWork_ok [OF assms(1-8) refl] by blast
  obtain ps s2 where s2: "set ps = {(i, q). db_view eph_look p1 kDistributedQueries i = Some q}"
    "runQueries e (s\<lparr>ds_db := p1\<rparr>) = Inr (flushCompleted e s2)"
    "ds_results s2 = ds_results s @ fst (spec_run e ps (db_view eph_look p1 kDistributedRunningQueries))"
    using eph.runQueries_ok [of "s\<lparr>ds_db := p1\<rparr>" e] assms(2,9) p1(2) by auto
  have "\<exists>r \<in> set (ds_results s2). r \<in> {denied_result \<lparr>dq_query = q, dq_id = i\<rparr>,
      sql_answer \<lparr>dq_query = q, dq_id = i\<rparr> (mq_sql (di_run e i q))}" if a: "map_of (rev ?acc) i = Some q" for i q
  proof -
    have "(i, q) \<in> set ps" using a by (simp add: s2(1) p1(3) map_add_def)
    from spec_run_answers [OF this, of e "db_view eph_look p1 kDistributedRunningQueries"] show ?thesis by (auto simp: s2(3))
  qed
  then show ?thesis using p1(1) s2(2) by blast
qed

theorem accepted_query_answered_witness:
  "\<exists>s1 s2. acceptWork sample_dist_env (rj_print codec_rapidjson (JObject [(''queries'', JObject [(''q1'', JString ''select 2'')])]))
       (sample_dist sample_pending []) = Inr (success, s1) \<and>
     runQueries sample_dist_env s1 = Inr (flushCompleted sample_dist_env s2) \<and>
     (\<exists>r \<in> set (ds_results s2). dr_request r = \<lparr>dq_query = ''select 2'', dq_id = ''q1''\<rparr>)"
proof -
  let ?doc = "[(''queries'', JObject [(''q1'', JString ''select 2'')])]"
  have parse: "json_fromString (de_rj (di_db sample_dist_env)) (rj_print codec_rapidjson (JObject ?doc)) = (success, Some (JObject ?doc))"
    using fromString_print [OF codec_roundtrip codec_text_ok] by (simp add: sample_dist_env_def eph_env_def)
  have "object_member b ?doc ''discovery'' = Inr []" "object_member b ?doc ''queries'' = Inr [(''q1'', JString ''select 2'')]" for b
    by (simp_all add: object_member_def FindMember_def)
  moreover have "work_ok []" "work_ok [(''q1'', JString ''select 2'')]" by (simp_all add: work_ok_def c_str_def)
  moreover have "work_items [] = []" "work_items [(''q1'', JString ''select 2'')] = [(''q1'', ''select 2'')]"
    by (simp_all add: work_items_def c_str_def)
  ultimately obtain s1 s2 where
    "acceptWork sample_dist_env (rj_print codec_rapidjson (JObject ?doc)) (sample_dist sample_pending []) = Inr (success, s1)"
    "runQueries sample_dist_env s1 = Inr (flushCompleted sample_dist_env s2)"
    "\<exists>r \<in> set (ds_results s2). r \<in> {denied_result \<lparr>dq_query = ''select 2'', dq_id = ''q1''\<rparr>,
       sql_answer \<lparr>dq_query = ''select 2'', dq_id = ''q1''\<rparr> (mq_sql (di_run sample_dist_env ''q1'' ''select 2''))}"
    using accepted_query_answered [OF sample_dist_ok(1) [OF sample_doms_ok(2,1)] sample_dist_env_ok(1) parse,
        of "[]" "[(''q1'', JString ''select 2'')]"] sample_dist_env_ok(2)
    by auto
  moreover from this(3) have "\<exists>r \<in> set (ds_results s2). dr_request r = \<lparr>dq_query = ''select 2'', dq_id = ''q1''\<rparr>"
    by (force simp: denied_result_def sql_answer_def)
  ultimately show ?thesis by blast
qed

end
