(* ===== verification/Events.thy ===== *)
theory Events
  imports Config Tables
begin

text \<open>
  The storage of events: \<open>events/types.h\<close>, \<open>events/eventsubscriberplugin.h\<close> and
  \<open>eventsubscriberplugin.cpp\<close>. A subscriber gives each event an identifier, stores its row in the domain of
  events, and keeps an index from times to identifiers in memory; the index is rebuilt from the stored rows at a
  start. A scheduled query without a constraint on time gets only the events since its last run.
\<close>

section \<open>State\<close>

type_synonym EventTime = u64
type_synonym EventID = u64
type_synonym EventIndex = "(EventTime, EventID list) omap"

record Context =
  database_namespace :: string
  event_index :: EventIndex
  last_query_time :: u64
  last_event_id :: EventID

record EventSubscriberPlugin =
  es_context :: Context
  event_count :: u64
  subscription_count :: u64
  min_expiration :: u64
  query_count :: u64
  es_queries :: "(string, u64) omap"

text \<open>
  The environment of a subscriber: the database, boost, the type and the name that make up its namespace, the
  flags, whether the daemon optimizes. The flags are read through methods that a subscriber may override.
\<close>

record 'd event_env =
  ee_db :: "'d db_env"
  ee_boost :: boost_lib
  ee_type :: string
  ee_name :: string
  events_expiry :: u64
  events_max :: u64
  ee_optimize :: bool

text \<open>\<open>ew_once\<close>: the deprecated keys were removed in this process. \<open>ew_forwarded\<close>: the rows given to the loggers.\<close>

record 'd event_world =
  ew_sub :: EventSubscriberPlugin
  ew_db :: "'d db_process"
  ew_once :: bool
  ew_forwarded :: "string list"

definition kEventsCheckpoint :: u64 where "kEventsCheckpoint = 256"

definition with_context :: "(Context \<Rightarrow> Context) \<Rightarrow> 'd event_world \<Rightarrow> 'd event_world" where
  "with_context f w = w\<lparr>ew_sub := (ew_sub w)\<lparr>es_context := f (es_context (ew_sub w))\<rparr>\<rparr>"

abbreviation ew_context :: "'d event_world \<Rightarrow> Context" where
  "ew_context w \<equiv> es_context (ew_sub w)"

section \<open>Identifiers, keys and times\<close>

definition dbNamespace :: "'d event_env \<Rightarrow> string" where
  "dbNamespace e = ee_type e @ ''.'' @ ee_name e"

definition setDatabaseNamespace :: "string \<Rightarrow> string \<Rightarrow> Context \<Rightarrow> Context" where
  "setDatabaseNamespace ty name c = c\<lparr>database_namespace := ty @ ''.'' @ name\<rparr>"

definition toIndex :: "u64 \<Rightarrow> string" where
  "toIndex i = (let s = to_string_u64 i in replicate (10 - length s) (CHR ''0'') @ s)"

definition generateEventIdentifier :: "Context \<Rightarrow> EventID \<times> Context" where
  "generateEventIdentifier c = (let i = last_event_id c + 1 in (i, c\<lparr>last_event_id := i\<rparr>))"

definition event_key :: "string \<Rightarrow> EventID \<Rightarrow> string" where
  "event_key ns i = ''data.'' @ ns @ ''.'' @ toIndex i"

definition databaseKeyForEventId :: "Context \<Rightarrow> EventID \<Rightarrow> string" where
  "databaseKeyForEventId c i = event_key (database_namespace c) i"

definition timeFromRecord :: "string \<Rightarrow> EventTime" where
  "timeFromRecord record =
     (case object (tryTo_longlong (\<lambda>_. []) 10 record) of Inl v \<Rightarrow> word_of_int v | Inr _ \<Rightarrow> 0)"

text \<open>
  \<open>std::strtoull\<close> in base 10: the value and what is left of the text; with no digit the text is left whole, and
  a number that does not fit gives the largest value.\<close>

definition strtoull :: "string \<Rightarrow> u64 \<times> string" where
  "strtoull s =
     (let (neg, s1) = strip_sign (dropWhile isspace s);
          ds = takeWhile (\<lambda>c. digit_in_base 10 c \<noteq> None) s1;
          m = digits_value 10 ds 0
      in if ds = [] then (0, s)
         else (if 2 ^ 64 \<le> m then - 1 else if neg then - of_nat m else of_nat m,
               dropWhile (\<lambda>c. digit_in_base 10 c \<noteq> None) s1))"

section \<open>Expiration\<close>

definition ev_delete :: "'d event_env \<Rightarrow> string \<Rightarrow> 'd db_process \<Rightarrow> 'd db_process throwing" where
  "ev_delete e key p = exn_bind (deleteDatabaseValue (ee_db e) False kEvents key p) (\<lambda>(_, p'). Inr p')"

definition delete_batches :: "'d event_env \<Rightarrow> EventIndex \<Rightarrow> 'd event_world \<Rightarrow> 'd event_world throwing" where
  "delete_batches e batches w =
     exn_bind (exn_fold (ev_delete e) (map (databaseKeyForEventId (ew_context w)) (concat (map snd batches))) (ew_db w))
       (\<lambda>p. Inr (w\<lparr>ew_db := p\<rparr>))"

definition removeOverflowingEventBatches :: "'d event_env \<Rightarrow> u64 \<Rightarrow> 'd event_world \<Rightarrow> 'd event_world throwing" where
  "removeOverflowingEventBatches e max_event_batches w =
     (let index = event_index (ew_context w) in
      if max_event_batches = 0 then Inr w
      else if length index \<le> unat max_event_batches then Inr w
      else let batches_to_remove = length index - unat max_event_batches
           in delete_batches e (take batches_to_remove index)
                (with_context (\<lambda>c. c\<lparr>event_index := drop batches_to_remove index\<rparr>) w))"

text \<open>The first batch that is not expired is where \<open>upper_bound\<close> points; the last batch is never expired.\<close>

definition expireEventBatches :: "'d event_env \<Rightarrow> u64 \<Rightarrow> u64 \<Rightarrow> 'd event_world \<Rightarrow> 'd event_world throwing" where
  "expireEventBatches e expiry current_time w =
     (let index = event_index (ew_context w) in
      if expiry = 0 \<or> current_time = 0 then Inr w
      else case index of
        [] \<Rightarrow> Inr w
      | (oldest_event_time, _) # _ \<Rightarrow>
          (let oldest_valid_time = current_time - expiry
           in if oldest_event_time \<ge> oldest_valid_time then Inr w
              else let range_end = length (takeWhile (\<lambda>(t, _). t \<le> oldest_valid_time) index);
                       n = (if range_end \<noteq> 0 \<and> range_end = length index then range_end - 1 else range_end)
                   in delete_batches e (take n index) (with_context (\<lambda>c. c\<lparr>event_index := drop n index\<rparr>) w)))"

definition getMinExpiry :: "'d event_env \<Rightarrow> EventSubscriberPlugin \<Rightarrow> u64" where
  "getMinExpiry e s = (if events_expiry e < min_expiration s then min_expiration s else events_expiry e)"

definition setMinExpiry :: "u64 \<Rightarrow> EventSubscriberPlugin \<Rightarrow> EventSubscriberPlugin" where
  "setMinExpiry expiry s = s\<lparr>min_expiration := expiry\<rparr>"

definition resetQueryCount :: "u64 \<Rightarrow> EventSubscriberPlugin \<Rightarrow> EventSubscriberPlugin" where
  "resetQueryCount n s = s\<lparr>es_queries := [], query_count := n\<rparr>"

definition setExecutedQuery :: "string \<Rightarrow> u64 \<Rightarrow> EventSubscriberPlugin \<Rightarrow> EventSubscriberPlugin" where
  "setExecutedQuery query_name query_time s = s\<lparr>es_queries := om_set query_name query_time (es_queries s)\<rparr>"

definition executedAllQueries :: "EventSubscriberPlugin \<Rightarrow> bool" where
  "executedAllQueries s \<longleftrightarrow> unat (query_count s) \<le> length (es_queries s)"

definition getExpireTime :: "u64 \<Rightarrow> EventSubscriberPlugin \<Rightarrow> u64" where
  "getExpireTime now s =
     (if query_count s = 0 then now
      else case es_queries s of [] \<Rightarrow> now | (_, t) # qs \<Rightarrow> fold (\<lambda>(_, u) t. if u < t then u else t) qs t)"

section \<open>Storing events\<close>

definition deprecated_key :: "string \<Rightarrow> bool" where
  "deprecated_key key \<longleftrightarrow> prefix ''eid.'' key \<or> prefix ''indexes.'' key \<or> prefix ''records.'' key"

definition removeDeprecatedEventKeysOnce :: "'d event_env \<Rightarrow> 'd event_world \<Rightarrow> 'd event_world throwing" where
  "removeDeprecatedEventKeysOnce e w =
     (if ew_once w then Inr w
      else exn_bind (scanDatabaseKeys (ee_db e) False kEvents [] [] 0 (ew_db w)) (\<lambda>(st, key_list, p).
        if \<not> ok st then Inr (w\<lparr>ew_once := True, ew_db := p\<rparr>)
        else exn_bind (exn_fold (ev_delete e) (filter deprecated_key key_list) p)
               (\<lambda>p1. Inr (w\<lparr>ew_once := True, ew_db := p1\<rparr>))))"

definition event_row :: "string \<Rightarrow> EventID \<Rightarrow> Row \<Rightarrow> Row" where
  "event_row string_event_time i row = om_set ''eid'' (toIndex i) (om_set ''time'' string_event_time row)"

definition drop_newline :: "string \<Rightarrow> string" where
  "drop_newline s = (if s \<noteq> [] \<and> last s = CHR 0x0A then butlast s else s)"

text \<open>The loop over the rows: the rows as they are changed, their identifiers, and the data to store.\<close>

fun addBatch_rows ::
  "'d event_env \<Rightarrow> string \<Rightarrow> Row list \<Rightarrow> Context \<Rightarrow> Row list \<times> EventID list \<times> DatabaseStringValueList \<times> Context" where
  "addBatch_rows e string_event_time [] c = ([], [], [], c)"
| "addBatch_rows e string_event_time (row # row_list) c =
     (let (i, c1) = generateEventIdentifier c;
          row1 = event_row string_event_time i row;
          (status, serialized_row) = serializeRowJSON (de_rj (ee_db e)) row1;
          (rows, ids, data, c2) = addBatch_rows e string_event_time row_list c1
      in (row1 # rows, i # ids,
          if ok status then (event_key (dbNamespace e) i, drop_newline serialized_row) # data else data, c2))"

definition index_add :: "EventTime \<Rightarrow> EventID list \<Rightarrow> EventIndex \<Rightarrow> EventIndex" where
  "index_add t ids index = om_set t ((case om_get index t of Some entry \<Rightarrow> entry | None \<Rightarrow> []) @ ids) index"

definition addBatch ::
  "'d event_env \<Rightarrow> u64 \<Rightarrow> Row list \<Rightarrow> EventTime \<Rightarrow> 'd event_world \<Rightarrow> (Status \<times> Row list \<times> 'd event_world) throwing" where
  "addBatch e now row_list custom_event_time w =
     exn_bind (removeDeprecatedEventKeysOnce e w) (\<lambda>w0.
       let event_time = (if custom_event_time \<noteq> 0 then custom_event_time else now);
           (rows, ids, data, c) = addBatch_rows e (to_string_u64 event_time) row_list (ew_context w0);
           w1 = (with_context (\<lambda>_. c) w0)\<lparr>ew_forwarded := ew_forwarded w0 @ map snd data\<rparr>
       in if data = [] then Inr (Status_msg 1 ''Failed to process the rows'', rows, w1)
          else exn_bind (setDatabaseBatch (ee_db e) False kEvents data (ew_db w1)) (\<lambda>(status, p).
            if \<not> ok status then Inr (status, rows, w1\<lparr>ew_db := p\<rparr>)
            else let w2 = with_context (\<lambda>c. c\<lparr>event_index := index_add event_time ids (event_index c)\<rparr>) (w1\<lparr>ew_db := p\<rparr>);
                     n = of_nat (length row_list);
                     count = event_count (ew_sub w2);
                     cleanup_events = (count mod kEventsCheckpoint + n \<ge> kEventsCheckpoint);
                     w3 = w2\<lparr>ew_sub := (ew_sub w2)\<lparr>event_count := count + n\<rparr>\<rparr>
                 in if cleanup_events
                    then exn_bind (removeOverflowingEventBatches e (events_max e) w3) (\<lambda>w4.
                         exn_bind (expireEventBatches e (getMinExpiry e (ew_sub w4)) now w4) (\<lambda>w5.
                           Inr (success, rows, w5)))
                    else Inr (success, rows, w3)))"

definition addBatch_now :: "'d event_env \<Rightarrow> u64 \<Rightarrow> Row list \<Rightarrow> 'd event_world \<Rightarrow> (Status \<times> Row list \<times> 'd event_world) throwing" where
  "addBatch_now e now row_list w = addBatch e now row_list now w"

definition add_event :: "'d event_env \<Rightarrow> u64 \<Rightarrow> Row \<Rightarrow> 'd event_world \<Rightarrow> (Status \<times> Row list \<times> 'd event_world) throwing" where
  "add_event e now r w = addBatch e now [r] now w"

section \<open>The index at a start\<close>

text \<open>One stored key: its identifier and time, or that it is invalid, with the largest identifier so far.\<close>

definition index_key ::
  "'d event_env \<Rightarrow> string \<Rightarrow> string \<Rightarrow> string list \<times> EventID \<times> EventIndex \<times> 'd db_process
   \<Rightarrow> (string list \<times> EventID \<times> EventIndex \<times> 'd db_process) throwing" where
  "index_key e pfx key st =
     (case st of (invalid, last_id, index, p) \<Rightarrow>
        (let (int_value, rest) = strtoull (c_str (drop (length pfx) key))
         in if int_value = 0 \<or> rest \<noteq> [] then Inr (invalid @ [key], last_id, index, p)
            else let last_id1 = max last_id int_value
                 in exn_bind (getDatabaseValue (ee_db e) False kEvents key [] p) (\<lambda>(status, serialized_row, p1).
                      if \<not> ok status then Inr (invalid @ [key], last_id1, index, p1)
                      else let (status1, row) = deserializeRowJSON (de_rj (ee_db e)) serialized_row []
                           in if \<not> ok status1 then Inr (invalid @ [key], last_id1, index, p1)
                              else case om_get row ''time'' of
                                None \<Rightarrow> Inr (invalid @ [key], last_id1, index, p1)
                              | Some t \<Rightarrow>
                                  (case bo_lexical_u64 (ee_boost e) t of
                                     None \<Rightarrow> Inl (runtime_error ''bad_lexical_cast'')
                                   | Some event_time \<Rightarrow> Inr (invalid, last_id1, index_add event_time [int_value] index, p1)))))"

definition generateEventDataIndex :: "'d event_env \<Rightarrow> 'd event_world \<Rightarrow> (Status \<times> 'd event_world) throwing" where
  "generateEventDataIndex e w =
     (let pfx = ''data.'' @ database_namespace (ew_context w) @ ''.''
      in exn_bind (scanDatabaseKeys (ee_db e) False kEvents [] pfx 0 (ew_db w)) (\<lambda>(status, key_list, p).
           if \<not> ok status then Inr (status, w\<lparr>ew_db := p\<rparr>)
           else exn_bind (exn_fold (index_key e pfx) key_list ([], 1, [], p)) (\<lambda>(invalid, last_id, index, p1).
                exn_bind (exn_fold (ev_delete e) invalid p1) (\<lambda>p2.
                  Inr (success, with_context (\<lambda>c. c\<lparr>last_event_id := last_id, event_index := index\<rparr>) (w\<lparr>ew_db := p2\<rparr>))))))"

definition es_setUp :: "'d event_env \<Rightarrow> u64 \<Rightarrow> 'd event_world \<Rightarrow> (Status \<times> 'd event_world) throwing" where
  "es_setUp e now w =
     (let w0 = with_context (setDatabaseNamespace (ee_type e) (ee_name e)) w
      in exn_bind (generateEventDataIndex e w0) (\<lambda>(_, w1).
         exn_bind (expireEventBatches e (getMinExpiry e (ew_sub w1)) now w1) (\<lambda>w2.
         exn_bind (removeOverflowingEventBatches e (events_max e) w2) (\<lambda>w3. Inr (success, w3)))))"

section \<open>Reading events\<close>

record GenerateRowsResult =
  isEnd :: bool
  last_time :: EventTime
  last_id :: EventID

text \<open>The part of the index between the bounds, which are inclusive; zero is no bound.\<close>

definition index_range :: "EventTime \<Rightarrow> EventTime \<Rightarrow> EventIndex \<Rightarrow> EventIndex" where
  "index_range start_time end_time index =
     takeWhile (\<lambda>(t, _). end_time = 0 \<or> t \<le> end_time)
       (if start_time = 0 then index else dropWhile (\<lambda>(t, _). t < start_time) index)"

fun read_events ::
  "'d event_env \<Rightarrow> string list \<Rightarrow> Row list \<times> string list \<times> 'd db_process \<Rightarrow> (Row list \<times> string list \<times> 'd db_process) throwing" where
  "read_events e [] st = Inr st"
| "read_events e (key # keys) (rows, invalid, p) =
     exn_bind (getDatabaseValue (ee_db e) False kEvents key [] p) (\<lambda>(_, serialized_row, p1).
       if serialized_row = [] then read_events e keys (rows, invalid @ [key], p1)
       else let (status, row) = deserializeRowJSON (de_rj (ee_db e)) serialized_row []
            in if \<not> ok status then read_events e keys (rows, invalid @ [key], p1)
               else read_events e keys (rows @ [row], invalid, p1))"

definition generateRows_static ::
  "'d event_env \<Rightarrow> EventTime \<Rightarrow> EventTime \<Rightarrow> EventID \<Rightarrow> Context \<Rightarrow> 'd db_process
   \<Rightarrow> (GenerateRowsResult \<times> Row list \<times> 'd db_process) throwing" where
  "generateRows_static e start_time end_time last_eid c p =
     (let nothing = \<lparr>isEnd = True, last_time = 0, last_id = 0\<rparr> in
      if end_time \<noteq> 0 \<and> start_time > end_time then Inr (nothing, [], p)
      else let range = index_range start_time end_time (event_index c);
               collected = filter (\<lambda>i. \<not> last_eid \<ge> i) (concat (map snd range));
               ret = (case rev range of
                        [] \<Rightarrow> nothing
                      | (t, ids) # _ \<Rightarrow> \<lparr>isEnd = False, last_time = t, last_id = (if ids = [] then 0 else last ids)\<rparr>)
           in exn_bind (read_events e (map (databaseKeyForEventId c) collected) ([], [], p)) (\<lambda>(rows, invalid, p1).
              exn_bind (exn_fold (ev_delete e) invalid p1) (\<lambda>p2. Inr (ret, rows, p2))))"

definition getOptimizeData ::
  "'d event_env \<Rightarrow> 'd db_process \<Rightarrow> (EventTime \<times> EventID \<times> string \<times> 'd db_process) throwing" where
  "getOptimizeData e p =
     exn_bind (getDatabaseValue (ee_db e) False kPersistentSettings kExecutingQuery [] p) (\<lambda>(_, query_name, p1).
       if query_name = [] then Inr (0, 0, query_name, p1)
       else exn_bind (getDatabaseValue (ee_db e) False kEvents (''optimize.'' @ query_name) [] p1) (\<lambda>(_, content, p2).
            exn_bind (getDatabaseValue (ee_db e) False kEvents (''optimize_eid.'' @ query_name) [] p2) (\<lambda>(_, content1, p3).
              Inr (timeFromRecord content,
                   (case object (tryTo_u64 (\<lambda>_. []) 10 content1) of Inl v \<Rightarrow> v | Inr _ \<Rightarrow> 0), query_name, p3))))"

definition setOptimizeData :: "'d event_env \<Rightarrow> EventTime \<Rightarrow> EventID \<Rightarrow> 'd db_process \<Rightarrow> 'd db_process throwing" where
  "setOptimizeData e t eid p =
     exn_bind (getDatabaseValue (ee_db e) False kPersistentSettings kExecutingQuery [] p) (\<lambda>(_, query_name, p1).
       if query_name = [] then Inr p1
       else exn_bind (setDatabaseValue (ee_db e) False kEvents (''optimize.'' @ query_name) (to_string_u64 t) p1) (\<lambda>(_, p2).
            exn_bind (setDatabaseValue (ee_db e) False kEvents (''optimize_eid.'' @ query_name) (toIndex eid) p2) (\<lambda>(_, p3).
              Inr p3)))"

definition generateRows ::
  "'d event_env \<Rightarrow> u64 \<Rightarrow> bool \<Rightarrow> EventTime \<Rightarrow> EventTime \<Rightarrow> 'd event_world \<Rightarrow> (Row list \<times> 'd event_world) throwing" where
  "generateRows e now can_optimize start_time stop_time w =
     (let opt = (can_optimize \<and> ee_optimize e)
      in exn_bind (if opt then getOptimizeData e (ew_db w) else Inr (0, 0, [], ew_db w)) (\<lambda>(optimize_time, optimize_eid, query_name, p1).
           let start1 = (if opt then (if optimize_time = 0 then 0 else optimize_time - 1) else start_time);
               s1 = (if opt then setExecutedQuery query_name start1 (ew_sub w) else ew_sub w)
           in exn_bind (generateRows_static e start1 stop_time optimize_eid (es_context s1) p1) (\<lambda>(result, rows, p2).
              exn_bind (if opt \<and> \<not> isEnd result then setOptimizeData e (last_time result) (last_id result) p2 else Inr p2) (\<lambda>p3.
                let w1 = w\<lparr>ew_sub := s1, ew_db := p3\<rparr>
                in if executedAllQueries s1
                   then exn_bind (expireEventBatches e (getMinExpiry e s1) (getExpireTime now s1) w1) (\<lambda>w2. Inr (rows, w2))
                   else Inr (rows, w1)))))"

text \<open>The bounds from the constraints on \<open>time\<close>: an equality ends the loop.\<close>

fun time_bounds :: "Constraint list \<Rightarrow> EventTime \<times> EventTime \<Rightarrow> EventTime \<times> EventTime" where
  "time_bounds [] b = b"
| "time_bounds (c # cs) (since, till) =
     (let expr = timeFromRecord (c_expr c)
      in if c_op c = EQUALS then (expr, expr)
         else time_bounds cs
           (if c_op c = GREATER_THAN then (max since (expr + 1), till)
            else if c_op c = GREATER_THAN_OR_EQUALS then (max since expr, till)
            else if c_op c = LESS_THAN then (since, min till (expr - 1))
            else if c_op c = LESS_THAN_OR_EQUALS then (since, min till expr)
            else (since, till)))"

definition genTable :: "'d event_env \<Rightarrow> u64 \<Rightarrow> QueryContext \<Rightarrow> 'd event_world \<Rightarrow> (Row list \<times> 'd event_world) throwing" where
  "genTable e now ctx w =
     (let cs = (case om_get (qc_constraints ctx) ''time'' of Some cl \<Rightarrow> cl_constraints cl | None \<Rightarrow> []);
          (since, till) = time_bounds cs (0, 0)
      in generateRows e now (cs = []) since till w)"

end
