(* ===== verification/EventsSafety.thy ===== *)
theory EventsSafety
  imports Events ConfigSafety
begin

text \<open>
  Properties of the storage of events: a scheduled query gets every event once, the index is rebuilt as it was,
  expiration keeps the newest batch, and what happens to events that come late.
\<close>

section \<open>Identifiers as text\<close>

lemma digits_value_zeros: "digits_value 10 (replicate n (CHR ''0'') @ s) 0 = digits_value 10 s 0"
  by (induction n) (simp_all add: digit_in_base_def char_digit_def)

lemma isspace_zero: "\<not> isspace (CHR ''0'')"
  by (simp add: isspace_def)

lemma toIndex_form: "\<exists>n. toIndex i = replicate n (CHR ''0'') @ nat_digits (unat i)"
  by (auto simp: toIndex_def to_string_u64_def Let_def)

lemma digit_chars_toIndex: "\<forall>c \<in> set (toIndex i). digit_in_base 10 c \<noteq> None"
proof -
  obtain n where "toIndex i = replicate n (CHR ''0'') @ nat_digits (unat i)" using toIndex_form by blast
  then show ?thesis using nat_digits_all_digits [of "unat i"]
    by (auto simp: digit_in_base_def char_digit_def)
qed

lemma digits_value_toIndex: "digits_value 10 (toIndex i) 0 = unat i"
proof -
  obtain n where "toIndex i = replicate n (CHR ''0'') @ nat_digits (unat i)" using toIndex_form by blast
  then show ?thesis by (simp add: digits_value_zeros digits_value_nat_digits)
qed

lemma toIndex_nonempty [simp]: "toIndex i \<noteq> []"
  using toIndex_form [of i] by auto

lemma toIndex_inj [simp]: "toIndex i = toIndex j \<longleftrightarrow> i = j"
  using digits_value_toIndex [of i] digits_value_toIndex [of j] by (metis word_unat_eq_iff)

lemma digit_plain: "digit_in_base 10 c \<noteq> None \<Longrightarrow> \<not> isspace c \<and> c \<noteq> CHR ''-'' \<and> c \<noteq> CHR ''+'' \<and> c \<noteq> CHR 0x00"
  by (auto simp: digit_in_base_def char_digit_def isspace_def)

lemma strip_sign_digits:
  assumes "s \<noteq> []" "\<forall>c \<in> set s. digit_in_base 10 c \<noteq> None"
  shows "strip_sign (dropWhile isspace s) = (False, s)"
proof -
  obtain c cs where s: "s = c # cs" using assms(1) by (cases s) auto
  then show ?thesis using assms(2) digit_plain [of c] by (auto simp: strip_sign_def)
qed

lemma strto_raw_digits:
  assumes "s \<noteq> []" "\<forall>c \<in> set s. digit_in_base 10 c \<noteq> None"
  shows "strto_raw 10 s = Some (False, digits_value 10 s 0)"
proof -
  have "has_digit 10 s" using assms by (cases s) (auto simp: has_digit_def)
  then show ?thesis unfolding strto_raw_def strip_sign_digits [OF assms] by (simp add: strip_prefix_def)
qed

lemma stoull_toIndex: "stoull 10 (toIndex i) = Inr i"
  using unat_u64_bound [of i]
  by (simp add: stoull_def strto_raw_digits [OF toIndex_nonempty digit_chars_toIndex] digits_value_toIndex)

lemma tryTo_toIndex: "object (tryTo_u64 what 10 (toIndex i)) = Inl i"
  by (simp add: tryTo_u64_def tryTo_catch_object throwingStringToInt_ulonglong_def stoull_toIndex)

lemma strtoull_toIndex: "strtoull (toIndex i) = (i, [])"
proof -
  have "takeWhile (\<lambda>c. digit_in_base 10 c \<noteq> None) (toIndex i) = toIndex i"
    "dropWhile (\<lambda>c. digit_in_base 10 c \<noteq> None) (toIndex i) = []"
    using digit_chars_toIndex [of i] by (simp_all only: takeWhile_eq_all_conv dropWhile_eq_Nil_conv)
  note d = this strip_sign_digits [OF toIndex_nonempty digit_chars_toIndex, of i]
  have "\<not> 2 ^ 64 \<le> unat i" using unat_u64_bound [of i] by simp
  then show ?thesis unfolding strtoull_def d by (simp add: d digits_value_toIndex del: not_None_eq)
qed

lemma no_nul_digits: "\<forall>c \<in> set s. digit_in_base 10 c \<noteq> None \<Longrightarrow> no_nul s"
  unfolding no_nul_def using digit_plain by blast

lemma no_nul_toIndex [simp]: "no_nul (toIndex i)"
  by (rule no_nul_digits [OF digit_chars_toIndex])

lemma no_nul_to_string [simp]: "no_nul (to_string_u64 t)"
  unfolding to_string_u64_def by (rule no_nul_digits [OF nat_digits_all_digits])

lemma timeFromRecord_printed:
  assumes "unat t < 2 ^ 63"
  shows "timeFromRecord (to_string_u64 t) = t"
proof -
  have "to_string_u64 t = to_string_int (uint t)"
    using assms by (simp add: to_string_u64_def to_string_int_def to_string_nat_def)
  moreover have "int (unat t) < int (2 ^ 63)" using assms by (simp only: of_nat_less_iff)
  then have "uint t < 2 ^ 63" by simp
  moreover have "- (2 ^ 63) \<le> uint t" using uint_ge_0 [of t] by (rule order_trans [rotated]) simp
  ultimately have "object (tryTo_longlong (\<lambda>_. []) 10 (to_string_u64 t)) = Inl (uint t)"
    using stosigned_to_string [of 64 "uint t"]
    by (simp add: tryTo_longlong_def tryTo_catch_object throwingStringToInt_longlong_def stoll_def)
  then show ?thesis by (simp add: timeFromRecord_def)
qed

section \<open>Rows as text\<close>

definition row_ok :: "Row \<Rightarrow> bool" where
  "row_ok r \<longleftrightarrow> om_wf r \<and> (\<forall>(k, v) \<in> set r. k \<noteq> [] \<and> no_nul k \<and> no_nul v)"

text \<open>RapidJSON's writer ends an object with its closing brace.\<close>

definition rj_braces :: "rapidjson \<Rightarrow> bool" where
  "rj_braces rj \<longleftrightarrow> (\<forall>ms. rj_print rj (JObject ms) \<noteq> [] \<and> last (rj_print rj (JObject ms)) = CHR ''}'')"

definition row_text :: "rapidjson \<Rightarrow> Row \<Rightarrow> string" where
  "row_text rj r = rj_print rj (JObject (map (\<lambda>(k, v). (k, JString v)) r))"

lemma serializeRowJSON_text: "om_wf r \<Longrightarrow> serializeRowJSON rj r = (success, row_text rj r)"
  by (simp add: serializeRowJSON_def fold_addRef_row json_toString_def row_text_def)

lemma drop_newline_text: "rj_braces rj \<Longrightarrow> drop_newline (row_text rj r) = row_text rj r"
  by (simp add: drop_newline_def row_text_def rj_braces_def)

lemma fold_row_members:
  "om_wf acc \<Longrightarrow> \<forall>(k, v) \<in> set r. k \<noteq> [] \<and> no_nul k \<and> no_nul v \<Longrightarrow>
   fold (\<lambda>(n, v) row. let name = c_str n in if name \<noteq> [] then (case v of JString s \<Rightarrow> om_set name (c_str s) row | _ \<Rightarrow> row) else row)
     (map (\<lambda>(k, v). (k, JString v)) r) acc = fold (\<lambda>(k, v). om_set k v) r acc"
  by (induction r arbitrary: acc) (auto simp: Let_def)

lemma deserializeRowJSON_text:
  assumes "rj_ok rj" "row_ok r"
  shows "deserializeRowJSON rj (row_text rj r) [] = (success, r)"
proof -
  have "json_fromString rj (row_text rj r) = (success, Some (JObject (map (\<lambda>(k, v). (k, JString v)) r)))"
    using assms(1) unfolding row_text_def by (intro fromString_print) (simp_all add: rj_ok_def)
  moreover have "fold (\<lambda>(n, v) row. let name = c_str n in if name \<noteq> [] then (case v of JString s \<Rightarrow> om_set name (c_str s) row | _ \<Rightarrow> row) else row)
      (map (\<lambda>(k, v). (k, JString v)) r) [] = r"
    using assms(2) by (subst fold_row_members) (simp_all add: row_ok_def fold_om_set_self om_wf_def)
  ultimately show ?thesis by (simp add: deserializeRowJSON_def deserializeRow_def)
qed

lemma row_text_nonempty: "rj_braces rj \<Longrightarrow> row_text rj r \<noteq> []"
  by (simp add: row_text_def rj_braces_def)

lemma event_row_ok: "row_ok r \<Longrightarrow> row_ok (event_row (to_string_u64 t) i r)"
proof -
  have set_om: "(k', v') \<in> set (om_set k v m) \<Longrightarrow> (k', v') = (k, v) \<or> (k', v') \<in> set m" for k v k' v' and m :: Row
    by (induction k v m rule: om_set.induct) (auto split: if_splits)
  assume "row_ok r"
  then show ?thesis by (auto simp: row_ok_def event_row_def no_nul_def [of "''eid''"] no_nul_def [of "''time''"] dest!: set_om)
qed

section \<open>The index in order\<close>

definition entries :: "EventIndex \<Rightarrow> (EventTime \<times> EventID) list" where
  "entries index = concat (map (\<lambda>(t, ids). map (Pair t) ids) index)"

lemma entries_simps [simp]:
  "entries [] = []" "entries ((t, ids) # index) = map (Pair t) ids @ entries index" "entries (a @ b) = entries a @ entries b"
  by (simp_all add: entries_def)

lemma entries_ids: "concat (map snd index) = map snd (entries index)"
  by (induction index) (auto simp: comp_def)

lemma entries_times: "(t, i) \<in> set (entries index) \<Longrightarrow> t \<in> fst ` set index"
  by (force simp: entries_def)

lemma index_add_in_order:
  assumes "om_wf index" "\<forall>u \<in> fst ` set index. u \<le> t"
  shows "entries (index_add t ids index) = entries index @ map (Pair t) ids"
  using assms
proof (induction index)
  case (Cons a index)
  obtain u us where a: "a = (u, us)" by (cases a)
  have wf: "om_wf index" "\<forall>v \<in> fst ` set index. u < v" using Cons.prems(1) by (auto simp: a om_wf_def)
  show ?case
  proof (cases "u = t")
    case True
    then have "index = []" using wf(2) Cons.prems(2) by (cases index) (auto simp: a)
    then show ?thesis using True by (simp add: a index_add_def om_get_def)
  next
    case False
    then have "index_add t ids (a # index) = a # index_add t ids index"
      using Cons.prems(2) by (auto simp: a index_add_def om_get_def)
    then show ?thesis using Cons.IH [OF wf(1)] Cons.prems(2) by (simp add: a)
  qed
qed (simp add: index_add_def om_get_def)

lemma index_add_wf: "om_wf index \<Longrightarrow> om_wf (index_add t ids index)"
  by (simp add: index_add_def)

lemma index_add_bucket:
  assumes "\<forall>(u, us) \<in> set index. us \<noteq> []" "ids \<noteq> []"
  shows "\<forall>(u, us) \<in> set (index_add t ids index). us \<noteq> []"
proof -
  have "(k', v') \<in> set (om_set k v m) \<Longrightarrow> (k', v') = (k, v) \<or> (k', v') \<in> set m" for k v k' v' and m :: EventIndex
    by (induction k v m rule: om_set.induct) (auto split: if_splits)
  then show ?thesis using assms unfolding index_add_def by fastforce
qed

text \<open>Reading from a time on: with identifiers and times in the same order this is a suffix of the entries.\<close>

lemma range_dropWhile:
  "om_wf index \<Longrightarrow> entries (dropWhile (\<lambda>(t, _). t < since) index) = filter (\<lambda>(t, _). since \<le> t) (entries index)"
proof (induction index)
  case (Cons a index)
  obtain u us where a: "a = (u, us)" by (cases a)
  have wf: "om_wf index" "\<forall>v \<in> fst ` set index. u < v" using Cons.prems by (auto simp: a om_wf_def)
  have "\<forall>(t, i) \<in> set (entries index). u < t" using wf(2) entries_times by force
  then have "since \<le> u \<Longrightarrow> filter (\<lambda>(t, _). since \<le> t) (entries index) = entries index"
    by (auto simp: filter_id_conv)
  moreover have "filter (\<lambda>(t, _). since \<le> t) (map (Pair u) us) = (if since \<le> u then map (Pair u) us else [])"
    by (induction us) auto
  ultimately show ?case using Cons.IH [OF wf(1)] by (auto simp: a)
qed simp

lemma range_from:
  assumes "om_wf index"
  shows "entries (index_range since 0 index) = filter (\<lambda>(t, _). since \<le> t) (entries index)"
proof -
  have "takeWhile (\<lambda>(t, _). (0 :: EventTime) = 0 \<or> t \<le> 0) xs = xs" for xs :: EventIndex by (simp add: takeWhile_eq_all_conv)
  then have "index_range since 0 index = (if since = 0 then index else dropWhile (\<lambda>(t, _). t < since) index)"
    unfolding index_range_def by blast
  then show ?thesis using range_dropWhile [OF assms, of since] by (auto simp: filter_id_conv)
qed

section \<open>What is stored\<close>

text \<open>An event of the store: its time, its identifier, and the row as the subscriber gave it.\<close>

type_synonym stored_event = "EventTime \<times> EventID \<times> Row"

fun stored_row :: "stored_event \<Rightarrow> Row" where
  "stored_row (t, i, r) = event_row (to_string_u64 t) i r"

fun ev_id :: "stored_event \<Rightarrow> EventID" where
  "ev_id (t, i, r) = i"

lemma ev_id_snd: "ev_id x = fst (snd x)"
  by (cases x) simp

definition store_rel ::
  "'d event_env \<Rightarrow> stored_event list \<Rightarrow> Context \<Rightarrow> (string \<Rightarrow> string \<Rightarrow> string option) \<Rightarrow> bool" where
  "store_rel e H c V \<longleftrightarrow>
     om_wf (event_index c) \<and> (\<forall>(t, ids) \<in> set (event_index c). ids \<noteq> []) \<and> database_namespace c = dbNamespace e \<and>
     entries (event_index c) = map (\<lambda>(t, i, r). (t, i)) H \<and> sorted_wrt (<) (map ev_id H) \<and>
     (\<forall>(t, i, r) \<in> set H. 0 < t \<and> unat t < 2 ^ 63 \<and> 0 < i \<and> i \<le> last_event_id c \<and> row_ok r \<and>
        V kEvents (event_key (dbNamespace e) i) = Some (row_text (de_rj (ee_db e)) (stored_row (t, i, r))))"

fun stamped :: "EventTime \<Rightarrow> EventID \<Rightarrow> Row list \<Rightarrow> stored_event list" where
  "stamped t l [] = []"
| "stamped t l (r # rs) = (t, l + 1, r) # stamped t (l + 1) rs"

lemma stamped_length [simp]: "length (stamped t l rs) = length rs"
  by (induction rs arbitrary: l) auto

lemma stamped_mem: "(u, i, r) \<in> set (stamped t l rs) \<Longrightarrow> u = t \<and> r \<in> set rs"
  by (induction rs arbitrary: l) auto

lemma stamped_ids:
  "unat l + length rs < 2 ^ 64 \<Longrightarrow> sorted_wrt (<) (map ev_id (stamped t l rs)) \<and>
   (\<forall>i \<in> ev_id ` set (stamped t l rs). l < i \<and> i \<le> l + of_nat (length rs))"
proof (induction rs arbitrary: l)
  case (Cons r rs)
  have l: "unat (l + 1) = unat l + 1" using Cons.prems by (subst unat_add_lem [THEN iffD1]) simp_all
  have n: "unat (of_nat (length rs) :: EventID) = length rs" using Cons.prems by (simp add: unat_of_nat)
  have sum: "unat (l + 1 + of_nat (length rs)) = unat l + 1 + length rs"
    using Cons.prems l n by (subst unat_add_lem [THEN iffD1]) simp_all
  have e: "l + of_nat (length (r # rs)) = l + 1 + of_nat (length rs)" by (simp add: algebra_simps)
  have IH: "sorted_wrt (<) (map ev_id (stamped t (l + 1) rs))"
    "\<forall>i \<in> ev_id ` set (stamped t (l + 1) rs). l + 1 < i \<and> i \<le> l + 1 + of_nat (length rs)"
    using Cons.IH [of "l + 1"] Cons.prems l by auto
  have "l < l + 1" "l + 1 \<le> l + 1 + of_nat (length rs)" using l sum by (simp_all add: word_less_nat_alt word_le_nat_alt)
  then show ?case unfolding e using IH by (auto intro: less_trans)
qed simp

lemma addBatch_rows_ok:
  assumes "\<forall>r \<in> set rows. row_ok r" "rj_braces (de_rj (ee_db e))"
  shows "addBatch_rows e (to_string_u64 t) rows c =
    (map stored_row (stamped t (last_event_id c) rows), map ev_id (stamped t (last_event_id c) rows),
     map (\<lambda>ev. (event_key (dbNamespace e) (ev_id ev), row_text (de_rj (ee_db e)) (stored_row ev))) (stamped t (last_event_id c) rows),
     c\<lparr>last_event_id := last_event_id c + of_nat (length rows)\<rparr>)"
  using assms(1)
proof (induction rows arbitrary: c)
  case (Cons r rows)
  have "om_wf (event_row (to_string_u64 t) i r)" for i using event_row_ok [of r t i] Cons.prems by (simp add: row_ok_def)
  then show ?case
    using Cons.IH [of "c\<lparr>last_event_id := last_event_id c + 1\<rparr>"] Cons.prems assms(2)
    by (simp add: generateEventIdentifier_def Let_def serializeRowJSON_text drop_newline_text algebra_simps)
qed simp

lemma event_key_inj [simp]: "event_key ns i = event_key ns j \<longleftrightarrow> i = j"
  by (simp add: event_key_def)

lemma event_key_data: "prefix ''data.'' (event_key ns i)" "\<not> deprecated_key (event_key ns i)"
  by (simp_all add: event_key_def deprecated_key_def)

lemma data_not_deprecated: "prefix ''data.'' k \<Longrightarrow> \<not> deprecated_key k"
  by (auto simp: deprecated_key_def prefix_def)

lemma store_rel_cong:
  assumes "store_rel e H c V" "\<And>k. prefix ''data.'' k \<Longrightarrow> W kEvents k = V kEvents k"
  shows "store_rel e H c W"
  using assms(1) unfolding store_rel_def by (simp add: assms(2) [OF event_key_data(1)])

lemma map_of_rev_distinct: "distinct (map fst xs) \<Longrightarrow> map_of (rev xs) = map_of xs"
  by (intro map_of_inject_set [THEN iffD2]) (simp_all add: rev_map [symmetric])

definition evicts_nothing :: "'e event_env \<Rightarrow> EventSubscriberPlugin \<Rightarrow> bool" where
  "evicts_nothing e s \<longleftrightarrow> events_max e = 0 \<and> getMinExpiry e s = 0"

lemma keeps_all:
  assumes "evicts_nothing e s"
  shows "removeOverflowingEventBatches e (events_max e) w = Inr w" "expireEventBatches e (getMinExpiry e s) now w = Inr w"
  using assms by (simp_all add: evicts_nothing_def removeOverflowingEventBatches_def expireEventBatches_def)

lemma bucket_entry: "\<forall>(t, ids) \<in> set index. ids \<noteq> [] \<Longrightarrow> u \<in> fst ` set index \<Longrightarrow> \<exists>i. (u, i) \<in> set (entries index)"
  by (force simp: entries_def neq_Nil_conv)

lemma store_rel_add:
  assumes H: "store_rel e H c V"
    and n: "unat (last_event_id c) + length rows < 2 ^ 64" "rows \<noteq> []" "\<forall>r \<in> set rows. row_ok r"
    and t: "0 < t" "unat t < 2 ^ 63" "\<forall>(u, i, r) \<in> set H. u \<le> t"
    and S: "S = stamped t (last_event_id c) rows"
    and W: "\<And>k. prefix ''data.'' k \<Longrightarrow> W kEvents k =
      (case map_of (map (\<lambda>ev. (event_key (dbNamespace e) (ev_id ev), row_text (de_rj (ee_db e)) (stored_row ev))) S) k of
         Some v \<Rightarrow> Some v | None \<Rightarrow> V kEvents k)"
  shows "store_rel e (H @ S) (c\<lparr>last_event_id := last_event_id c + of_nat (length rows),
      event_index := index_add t (map ev_id S) (event_index c)\<rparr>) W"
proof -
  let ?l = "last_event_id c" and ?n = "of_nat (length rows) :: EventID"
  note ids = stamped_ids [OF n(1), of t, folded S]
  have le: "?l \<le> ?l + ?n" using n(1) by (simp add: word_le_nat_alt unat_add_lem [THEN iffD1] unat_of_nat)
  have t_max: "\<forall>u \<in> fst ` set (event_index c). u \<le> t"
    using bucket_entry [of "event_index c"] H t(3) by (fastforce simp: store_rel_def)
  have times: "map (Pair t) (map ev_id S) = map (\<lambda>(t, i, r). (t, i)) S"
    using stamped_mem [of _ _ _ t ?l rows] by (auto simp: S)
  have below: "\<forall>h \<in> set H. ev_id h \<le> ?l" using H by (auto simp: store_rel_def)
  have distinct: "distinct (map fst (map (\<lambda>ev. (event_key (dbNamespace e) (ev_id ev), row_text (de_rj (ee_db e)) (stored_row ev))) S))"
    using ids by (auto simp: strict_sorted_iff distinct_map inj_on_def comp_def)
  let ?data = "map (\<lambda>ev. (event_key (dbNamespace e) (ev_id ev), row_text (de_rj (ee_db e)) (stored_row ev))) S"
  have new: "W kEvents (event_key (dbNamespace e) (ev_id ev)) = Some (row_text (de_rj (ee_db e)) (stored_row ev))" if "ev \<in> set S" for ev
  proof -
    have "map_of ?data (event_key (dbNamespace e) (ev_id ev)) = Some (row_text (de_rj (ee_db e)) (stored_row ev))"
      using that by (intro map_of_is_SomeI [OF distinct]) auto
    then show ?thesis using W [OF event_key_data(1), of "dbNamespace e" "ev_id ev"] by simp
  qed
  have old: "W kEvents (event_key (dbNamespace e) i) = V kEvents (event_key (dbNamespace e) i)" if "i \<le> ?l" for i
  proof -
    have "map_of ?data (event_key (dbNamespace e) i) = None"
      using ids that by (auto simp: map_of_eq_None_iff image_image)
    then show ?thesis using W [OF event_key_data(1), of "dbNamespace e" i] by simp
  qed
  have S_mem: "\<forall>(u, i, r) \<in> set S. u = t \<and> ?l < i \<and> i \<le> ?l + ?n \<and> row_ok r"
    using ids stamped_mem [of _ _ _ t ?l rows] n(3) unfolding S by fastforce
  have "entries (index_add t (map ev_id S) (event_index c)) = map (\<lambda>(t, i, r). (t, i)) (H @ S)"
    using index_add_in_order [OF _ t_max, of "map ev_id S"] H times by (simp add: store_rel_def)
  moreover have "sorted_wrt (<) (map ev_id (H @ S))"
    using H ids below by (fastforce simp: store_rel_def sorted_wrt_append)
  moreover have "map ev_id S \<noteq> []" using n(2) by (auto simp: S neq_Nil_conv)
  then have "\<forall>(u, us) \<in> set (index_add t (map ev_id S) (event_index c)). us \<noteq> []"
    using H by (intro index_add_bucket) (auto simp: store_rel_def)
  moreover have "\<forall>(u, i, r) \<in> set (H @ S). 0 < u \<and> unat u < 2 ^ 63 \<and> 0 < i \<and> i \<le> ?l + ?n \<and> row_ok r \<and>
      W kEvents (event_key (dbNamespace e) i) = Some (row_text (de_rj (ee_db e)) (stored_row (u, i, r)))"
  proof -
    have "0 < u \<and> unat u < 2 ^ 63 \<and> 0 < i \<and> i \<le> ?l + ?n \<and> row_ok r \<and>
      W kEvents (event_key (dbNamespace e) i) = Some (row_text (de_rj (ee_db e)) (stored_row (u, i, r)))" if "(u, i, r) \<in> set H" for u i r
      using that H le old [of i] unfolding store_rel_def by fastforce
    moreover have "0 < u \<and> unat u < 2 ^ 63 \<and> 0 < i \<and> i \<le> ?l + ?n \<and> row_ok r \<and>
      W kEvents (event_key (dbNamespace e) i) = Some (row_text (de_rj (ee_db e)) (stored_row (u, i, r)))" if "(u, i, r) \<in> set S" for u i r
      using that S_mem t(1,2) new [OF that] by (fastforce intro: le_less_trans [OF word_zero_le])
    ultimately show ?thesis by auto
  qed
  ultimately show ?thesis using H by (simp add: store_rel_def index_add_wf)
qed

context reliable_database
begin

lemma delete_keys:
  assumes "de_ops (ee_db e) = ops" "db_ready ok_db p"
  shows "\<exists>p'. exn_fold (ev_delete e) keys p = Inr p' \<and> db_ready ok_db p' \<and>
    db_view look p' = view_del kEvents (\<lambda>k. k \<in> set keys) (db_view look p)"
  using assms(2)
proof (induction keys arbitrary: p)
  case Nil
  then show ?case by (simp add: view_del_def)
next
  case (Cons k keys)
  obtain st p1 where p1: "deleteDatabaseValue (ee_db e) False kEvents k p = Inr (st, p1)" "db_ready ok_db p1"
    "db_view look p1 = view_del kEvents (\<lambda>k'. k' = k) (db_view look p)"
    using delete_value_ok [OF Cons.prems assms(1), of kEvents k] by (auto simp: kEvents_def)
  obtain p' where "exn_fold (ev_delete e) keys p1 = Inr p'" "db_ready ok_db p'"
    "db_view look p' = view_del kEvents (\<lambda>k. k \<in> set keys) (db_view look p1)"
    using Cons.IH [OF p1(2)] by blast
  moreover have "ev_delete e k p = Inr p1" by (simp add: ev_delete_def p1(1))
  ultimately show ?case using p1(3) by (auto simp: view_del_def fun_eq_iff)
qed

lemma removeDeprecated_ok:
  assumes "de_ops (ee_db e) = ops" "db_ready ok_db (ew_db w)"
  shows "\<exists>p'. removeDeprecatedEventKeysOnce e w = Inr (w\<lparr>ew_once := True, ew_db := p'\<rparr>) \<and> db_ready ok_db p' \<and>
    (\<forall>dm k. dm = kEvents \<and> deprecated_key k \<or> db_view look p' dm k = db_view look (ew_db w) dm k)"
proof (cases "ew_once w")
  case True
  then show ?thesis using assms(2) by (intro exI [of _ "ew_db w"]) (simp add: removeDeprecatedEventKeysOnce_def)
next
  case False
  obtain st keys where k: "scanDatabaseKeys (ee_db e) False kEvents [] [] 0 (ew_db w) = Inr (st, keys, ew_db w)" "ok st"
    using scan_keys [OF assms(2,1), of kEvents False] by (auto simp: kEvents_def)
  obtain p' where "exn_fold (ev_delete e) (filter deprecated_key keys) (ew_db w) = Inr p'" "db_ready ok_db p'"
    "db_view look p' = view_del kEvents (\<lambda>k. k \<in> set (filter deprecated_key keys)) (db_view look (ew_db w))"
    using delete_keys [OF assms, of "filter deprecated_key keys"] by blast
  then show ?thesis using False k
    by (intro exI [of _ p']) (simp add: removeDeprecatedEventKeysOnce_def view_del_def)
qed

text \<open>What a batch does, whatever its time: the index and the stored data.\<close>

lemma addBatch_core:
  assumes "de_ops (ee_db e) = ops" "db_ready ok_db (ew_db w)" "rj_braces (de_rj (ee_db e))"
    and rows: "rows \<noteq> []" "\<forall>r \<in> set rows. row_ok r" "unat (last_event_id (ew_context w)) + length rows < 2 ^ 64"
    and t: "t = (if custom \<noteq> 0 then custom else now)" and S: "S = stamped t (last_event_id (ew_context w)) rows"
    and data: "data = map (\<lambda>ev. (event_key (dbNamespace e) (ev_id ev), row_text (de_rj (ee_db e)) (stored_row ev))) S"
  shows "\<exists>w'. addBatch e now rows custom w =
      (if kEventsCheckpoint \<le> event_count (ew_sub w) mod kEventsCheckpoint + of_nat (length rows)
       then exn_bind (removeOverflowingEventBatches e (events_max e) w') (\<lambda>w4.
            exn_bind (expireEventBatches e (getMinExpiry e (ew_sub w4)) now w4) (\<lambda>w5. Inr (success, map stored_row S, w5)))
       else Inr (success, map stored_row S, w')) \<and> db_ready ok_db (ew_db w') \<and>
    min_expiration (ew_sub w') = min_expiration (ew_sub w) \<and> event_count (ew_sub w') = event_count (ew_sub w) + of_nat (length rows) \<and>
    ew_context w' = (ew_context w)\<lparr>last_event_id := last_event_id (ew_context w) + of_nat (length rows),
      event_index := index_add t (map ev_id S) (event_index (ew_context w))\<rparr> \<and>
    (\<forall>k. prefix ''data.'' k \<longrightarrow> db_view look (ew_db w') kEvents k =
       (case map_of data k of Some v \<Rightarrow> Some v | None \<Rightarrow> db_view look (ew_db w) kEvents k)) \<and>
    (\<forall>dm k. dm = kEvents \<and> (deprecated_key k \<or> prefix ''data.'' k) \<or> db_view look (ew_db w') dm k = db_view look (ew_db w) dm k)"
proof -
  obtain p1 where p1: "removeDeprecatedEventKeysOnce e w = Inr (w\<lparr>ew_once := True, ew_db := p1\<rparr>)" "db_ready ok_db p1"
    "\<forall>dm k. dm = kEvents \<and> deprecated_key k \<or> db_view look p1 dm k = db_view look (ew_db w) dm k"
    using removeDeprecated_ok [OF assms(1,2)] by blast
  let ?c = "ew_context w" and ?n = "of_nat (length rows) :: EventID"
  have S_ne: "S \<noteq> []" using rows(1) by (auto simp: S neq_Nil_conv)
  have ids: "distinct (map fst data)"
    using stamped_ids [OF rows(3), of t] by (auto simp: data S strict_sorted_iff distinct_map inj_on_def comp_def)
  obtain st p2 where p2: "setDatabaseBatch (ee_db e) False kEvents data p1 = Inr (st, p2)" "db_ready ok_db p2" "ok st"
    "db_view look p2 = view_put kEvents data (db_view look p1)"
    using set_batch [OF p1(2) assms(1), of kEvents data] putBatch_ok by (auto simp: kEvents_def)
  have same: "db_view look p1 kEvents k = db_view look (ew_db w) kEvents k" if "prefix ''data.'' k" for k
    using p1(3) data_not_deprecated [OF that] by blast
  have put: "db_view look p2 kEvents k = (case map_of data k of Some v \<Rightarrow> Some v | None \<Rightarrow> db_view look (ew_db w) kEvents k)"
    if "prefix ''data.'' k" for k
    by (simp add: p2(4) view_put_def map_of_rev_distinct [OF ids] same [OF that] split: option.split)
  define w3 where "w3 = w\<lparr>ew_once := True, ew_forwarded := ew_forwarded w @ map snd data, ew_db := p2,
      ew_sub := (ew_sub w)\<lparr>es_context := ?c\<lparr>last_event_id := last_event_id ?c + ?n,
          event_index := index_add t (map ev_id S) (event_index ?c)\<rparr>, event_count := event_count (ew_sub w) + ?n\<rparr>\<rparr>"
  have "addBatch e now rows custom w =
      (if kEventsCheckpoint \<le> event_count (ew_sub w) mod kEventsCheckpoint + of_nat (length rows)
       then exn_bind (removeOverflowingEventBatches e (events_max e) w3) (\<lambda>w4.
            exn_bind (expireEventBatches e (getMinExpiry e (ew_sub w4)) now w4) (\<lambda>w5. Inr (success, map stored_row S, w5)))
       else Inr (success, map stored_row S, w3))"
    using p1(1) p2(1,3) S_ne rows(1)
    by (simp add: addBatch_def Let_def addBatch_rows_ok [OF rows(2) assms(3)] with_context_def w3_def t [symmetric]
        flip: S data)
  moreover have "\<forall>dm k. dm = kEvents \<and> (deprecated_key k \<or> prefix ''data.'' k) \<or> db_view look p2 dm k = db_view look (ew_db w) dm k"
  proof (intro allI)
    fix dm k
    have "\<not> prefix ''data.'' k \<Longrightarrow> map_of (rev data) k = None"
      using event_key_data(1) by (auto simp: data map_of_eq_None_iff)
    then show "dm = kEvents \<and> (deprecated_key k \<or> prefix ''data.'' k) \<or> db_view look p2 dm k = db_view look (ew_db w) dm k"
      using p1(3) by (cases "dm = kEvents"; cases "prefix ''data.'' k"; fastforce simp: p2(4) view_put_def)
  qed
  ultimately show ?thesis using p2(2) put by (intro exI [of _ w3]) (simp add: w3_def)
qed

lemma addBatch_form:
  assumes "de_ops (ee_db e) = ops" "db_ready ok_db (ew_db w)" "rj_braces (de_rj (ee_db e))" "evicts_nothing e (ew_sub w)"
    and rows: "rows \<noteq> []" "\<forall>r \<in> set rows. row_ok r" "unat (last_event_id (ew_context w)) + length rows < 2 ^ 64"
    and t: "t = (if custom \<noteq> 0 then custom else now)" and S: "S = stamped t (last_event_id (ew_context w)) rows"
    and data: "data = map (\<lambda>ev. (event_key (dbNamespace e) (ev_id ev), row_text (de_rj (ee_db e)) (stored_row ev))) S"
  shows "\<exists>w'. addBatch e now rows custom w = Inr (success, map stored_row S, w') \<and> db_ready ok_db (ew_db w') \<and>
    ew_context w' = (ew_context w)\<lparr>last_event_id := last_event_id (ew_context w) + of_nat (length rows),
      event_index := index_add t (map ev_id S) (event_index (ew_context w))\<rparr> \<and> evicts_nothing e (ew_sub w') \<and>
    (\<forall>k. prefix ''data.'' k \<longrightarrow> db_view look (ew_db w') kEvents k =
       (case map_of data k of Some v \<Rightarrow> Some v | None \<Rightarrow> db_view look (ew_db w) kEvents k)) \<and>
    (\<forall>dm k. dm = kEvents \<and> (deprecated_key k \<or> prefix ''data.'' k) \<or> db_view look (ew_db w') dm k = db_view look (ew_db w) dm k)"
proof -
  obtain w' where w': "addBatch e now rows custom w =
      (if kEventsCheckpoint \<le> event_count (ew_sub w) mod kEventsCheckpoint + of_nat (length rows)
       then exn_bind (removeOverflowingEventBatches e (events_max e) w') (\<lambda>w4.
            exn_bind (expireEventBatches e (getMinExpiry e (ew_sub w4)) now w4) (\<lambda>w5. Inr (success, map stored_row S, w5)))
       else Inr (success, map stored_row S, w'))" "db_ready ok_db (ew_db w')"
    "min_expiration (ew_sub w') = min_expiration (ew_sub w)"
    "ew_context w' = (ew_context w)\<lparr>last_event_id := last_event_id (ew_context w) + of_nat (length rows),
      event_index := index_add t (map ev_id S) (event_index (ew_context w))\<rparr>"
    "\<forall>k. prefix ''data.'' k \<longrightarrow> db_view look (ew_db w') kEvents k =
       (case map_of data k of Some v \<Rightarrow> Some v | None \<Rightarrow> db_view look (ew_db w) kEvents k)"
    "\<forall>dm k. dm = kEvents \<and> (deprecated_key k \<or> prefix ''data.'' k) \<or> db_view look (ew_db w') dm k = db_view look (ew_db w) dm k"
    using addBatch_core [OF assms(1-3) rows t S data] by blast
  have none: "evicts_nothing e (ew_sub w')" using assms(4) w'(3) by (auto simp: evicts_nothing_def getMinExpiry_def split: if_splits)
  have "addBatch e now rows custom w = Inr (success, map stored_row S, w')"
    by (simp add: w'(1) keeps_all [OF none])
  then show ?thesis using w'(2,4-6) none by (intro exI [of _ w']) simp
qed

lemma addBatch_ok:
  assumes "de_ops (ee_db e) = ops" "db_ready ok_db (ew_db w)" "rj_braces (de_rj (ee_db e))" "evicts_nothing e (ew_sub w)"
    and H: "store_rel e H (ew_context w) (db_view look (ew_db w))"
    and rows: "rows \<noteq> []" "\<forall>r \<in> set rows. row_ok r" "unat (last_event_id (ew_context w)) + length rows < 2 ^ 64"
    and t: "t = (if custom \<noteq> 0 then custom else now)" "0 < t" "unat t < 2 ^ 63" "\<forall>(u, i, r) \<in> set H. u \<le> t"
  defines "S \<equiv> stamped t (last_event_id (ew_context w)) rows"
  shows "\<exists>w'. addBatch e now rows custom w = Inr (success, map stored_row S, w') \<and> db_ready ok_db (ew_db w') \<and>
    store_rel e (H @ S) (ew_context w') (db_view look (ew_db w')) \<and>
    last_event_id (ew_context w') = last_event_id (ew_context w) + of_nat (length rows) \<and> evicts_nothing e (ew_sub w') \<and>
    (\<forall>dm k. dm = kEvents \<and> (deprecated_key k \<or> prefix ''data.'' k) \<or> db_view look (ew_db w') dm k = db_view look (ew_db w) dm k)"
proof -
  obtain w' where w': "addBatch e now rows custom w = Inr (success, map stored_row S, w')" "db_ready ok_db (ew_db w')"
    "ew_context w' = (ew_context w)\<lparr>last_event_id := last_event_id (ew_context w) + of_nat (length rows),
      event_index := index_add t (map ev_id S) (event_index (ew_context w))\<rparr>" "evicts_nothing e (ew_sub w')"
    "\<And>k. prefix ''data.'' k \<Longrightarrow> db_view look (ew_db w') kEvents k =
       (case map_of (map (\<lambda>ev. (event_key (dbNamespace e) (ev_id ev), row_text (de_rj (ee_db e)) (stored_row ev))) S) k of
          Some v \<Rightarrow> Some v | None \<Rightarrow> db_view look (ew_db w) kEvents k)"
    "\<forall>dm k. dm = kEvents \<and> (deprecated_key k \<or> prefix ''data.'' k) \<or> db_view look (ew_db w') dm k = db_view look (ew_db w) dm k"
    using addBatch_form [OF assms(1-4) rows t(1) S_def [THEN meta_eq_to_obj_eq] refl] by auto
  have "store_rel e (H @ S) (ew_context w') (db_view look (ew_db w'))"
    unfolding w'(3) by (rule store_rel_add [OF H rows(3,1,2) t(2,3,4) S_def [THEN meta_eq_to_obj_eq]]) (rule w'(5))
  then show ?thesis using w' by (intro exI [of _ w']) simp
qed

end

section \<open>What a query reads\<close>

lemma entries_sorted: "om_wf index \<Longrightarrow> sorted (map fst (entries index))"
proof (induction index)
  case (Cons a index)
  obtain u us where a: "a = (u, us)" by (cases a)
  have wf: "om_wf index" "\<forall>v \<in> fst ` set index. u < v" using Cons.prems by (auto simp: a om_wf_def)
  have "\<forall>x \<in> set (entries index). u \<le> fst x" using wf(2) entries_times by (force intro: less_imp_le)
  then show ?case using Cons.IH [OF wf(1)] by (auto simp: a sorted_append comp_def map_replicate_const)
qed simp

lemma last_entry:
  assumes "\<forall>(t, ids) \<in> set index. ids \<noteq> []"
  shows "(case rev index of [] \<Rightarrow> \<lparr>isEnd = True, last_time = 0, last_id = 0\<rparr>
     | (t, ids) # _ \<Rightarrow> \<lparr>isEnd = False, last_time = t, last_id = (if ids = [] then 0 else last ids)\<rparr>) =
    (if entries index = [] then \<lparr>isEnd = True, last_time = 0, last_id = 0\<rparr>
     else \<lparr>isEnd = False, last_time = fst (last (entries index)), last_id = snd (last (entries index))\<rparr>)"
  using assms by (cases index rule: rev_cases) (auto simp: last_map)

lemma range_buckets: "\<forall>(t, ids) \<in> set index. ids \<noteq> [] \<Longrightarrow> \<forall>(t, ids) \<in> set (index_range since till index). ids \<noteq> []"
  by (auto simp: index_range_def dest!: set_takeWhileD set_dropWhileD split: if_splits)

lemma last_filter: "xs \<noteq> [] \<Longrightarrow> P (last xs) \<Longrightarrow> filter P xs \<noteq> [] \<and> last (filter P xs) = last xs"
  by (cases xs rule: rev_cases) auto

text \<open>The time and the identifier up to which a query was served.\<close>

definition ev_stamp :: "stored_event list \<Rightarrow> EventTime \<times> EventID" where
  "ev_stamp D = (if D = [] then (0, 0) else (fst (last D), ev_id (last D)))"

text \<open>What a query reads that was served \<open>D\<close> before: the range of the index starts one second early, and the identifiers cut it.\<close>

lemma unread:
  assumes H: "store_rel e (D @ U) c V" and stamp: "ev_stamp D = (t, i)"
  shows "filter (\<lambda>j. \<not> i \<ge> j) (concat (map snd (index_range (if t = 0 then 0 else t - 1) 0 (event_index c)))) = map ev_id U"
proof -
  let ?since = "if t = 0 then 0 else t - 1"
  let ?key = "\<lambda>(t, i, r). (t, i) :: EventTime \<times> EventID"
  have wf: "om_wf (event_index c)" and ent: "entries (event_index c) = map ?key (D @ U)" using H by (simp_all add: store_rel_def)
  have sorted: "sorted (map fst (map ?key D @ map ?key U))" using entries_sorted [OF wf] by (simp add: ent)
  have ids: "sorted_wrt (<) (map ev_id D @ map ev_id U)" using H by (simp add: store_rel_def)
  have pos: "\<forall>x \<in> set (D @ U). 0 < fst x \<and> 0 < ev_id x" using H by (fastforce simp: store_rel_def)
  have t_le: "t - 1 \<le> t" if "0 < t" using that by (simp add: word_le_nat_alt unat_minus_one word_gt_0)
  have U: "?since \<le> fst x \<and> i < ev_id x" if x: "x \<in> set U" for x
  proof (cases "D = []")
    case True
    then show ?thesis using stamp pos x by (auto simp: ev_stamp_def)
  next
    case False
    then have d: "t = fst (last D)" "i = ev_id (last D)" "last D \<in> set D" using stamp by (simp_all add: ev_stamp_def)
    have "t \<le> fst x" using d(1,3) x sorted by (auto simp: sorted_append case_prod_unfold)
    moreover have "i < ev_id x" using d(2,3) x ids by (auto simp: sorted_wrt_append)
    ultimately show ?thesis using t_le by (auto simp: word_gt_0 intro: order_trans)
  qed
  have D: "\<not> i < ev_id x" if "x \<in> set D" for x
    using that ids stamp by (cases D rule: rev_cases) (auto simp: ev_stamp_def sorted_wrt_append dest: less_asym)
  have "concat (map snd (index_range ?since 0 (event_index c))) = map ev_id (filter (\<lambda>x. ?since \<le> fst x) (D @ U))"
    by (simp add: entries_ids range_from [OF wf] ent filter_map comp_def case_prod_unfold ev_id_snd)
  moreover have "filter (\<lambda>x. ?since \<le> fst x \<and> \<not> i \<ge> ev_id x) D = []" "filter (\<lambda>x. ?since \<le> fst x \<and> \<not> i \<ge> ev_id x) U = U"
    using U D by (auto simp: filter_empty_conv filter_id_conv not_le)
  ultimately show ?thesis by (simp add: filter_map comp_def split del: if_split)
qed

lemma served_stamp:
  assumes H: "store_rel e (D @ U) c V" and stamp: "ev_stamp D = (t, i)"
  shows "(case rev (index_range (if t = 0 then 0 else t - 1) 0 (event_index c)) of [] \<Rightarrow> \<lparr>isEnd = True, last_time = 0, last_id = 0\<rparr>
     | (u, ids) # _ \<Rightarrow> \<lparr>isEnd = False, last_time = u, last_id = (if ids = [] then 0 else last ids)\<rparr>) =
    \<lparr>isEnd = (D @ U = []), last_time = fst (ev_stamp (D @ U)), last_id = snd (ev_stamp (D @ U))\<rparr>"
proof -
  let ?since = "if t = 0 then 0 else t - 1" and ?key = "\<lambda>(t, i, r). (t, i) :: EventTime \<times> EventID"
  have wf: "om_wf (event_index c)" and ent: "entries (event_index c) = map ?key (D @ U)"
    and ne: "\<forall>(t, ids) \<in> set (event_index c). ids \<noteq> []" using H by (simp_all add: store_rel_def)
  have sorted: "sorted (map fst (map ?key (D @ U)))" using entries_sorted [OF wf] by (simp add: ent)
  have "?since \<le> fst (last (D @ U))" if "D @ U \<noteq> []"
  proof (cases "D = []")
    case False
    then have "last D \<in> set D" "t = fst (last D)" using stamp by (simp_all add: ev_stamp_def)
    then have "t \<le> fst (last (D @ U))" using sorted
      by (cases U rule: rev_cases) (auto simp: sorted_append case_prod_unfold)
    moreover have "t \<noteq> 0 \<Longrightarrow> t - 1 \<le> t" by (simp add: word_le_nat_alt unat_minus_one)
    ultimately show ?thesis by (auto intro: order_trans)
  qed (use stamp in \<open>simp add: ev_stamp_def\<close>)
  note since = this
  define X where "X = D @ U"
  have "X \<noteq> [] \<Longrightarrow> filter (\<lambda>(u, _). ?since \<le> u) (entries (event_index c)) \<noteq> [] \<and>
      last (filter (\<lambda>(u, _). ?since \<le> u) (entries (event_index c))) = ?key (last X)"
    using since last_filter [of "entries (event_index c)" "\<lambda>(u, _). ?since \<le> u"]
    by (simp add: ent last_map case_prod_unfold flip: X_def)
  then show ?thesis
    unfolding last_entry [OF range_buckets [OF ne]] range_from [OF wf]
    by (cases "X = []") (simp_all add: ent ev_stamp_def ev_id_snd case_prod_unfold flip: X_def)
qed

section \<open>A scheduled query\<close>

lemma generateRows_optimized:
  assumes "ee_optimize e" "getOptimizeData e (ew_db w) = Inr (t, i, q, p)"
    and since: "since = (if t = 0 then 0 else t - 1)" and s1: "s1 = setExecutedQuery q since (ew_sub w)"
    and static: "generateRows_static e since till i (es_context s1) p = Inr (res, rows, p2)"
    and set: "(if \<not> isEnd res then setOptimizeData e (last_time res) (last_id res) p2 else Inr p2) = Inr p3"
    and expire: "expireEventBatches e (getMinExpiry e s1) (getExpireTime now s1) (w\<lparr>ew_sub := s1, ew_db := p3\<rparr>) = Inr w'"
      "w' = w\<lparr>ew_sub := s1, ew_db := p3\<rparr>"
  shows "generateRows e now True from till w = Inr (rows, w')"
proof -
  have "generateRows e now True from till w =
      (if executedAllQueries s1 then exn_bind (expireEventBatches e (getMinExpiry e s1) (getExpireTime now s1) (w\<lparr>ew_sub := s1, ew_db := p3\<rparr>)) (\<lambda>w2. Inr (rows, w2))
       else Inr (rows, w\<lparr>ew_sub := s1, ew_db := p3\<rparr>))"
    using assms(1,2) static set
    by (cases "executedAllQueries s1") (simp_all add: generateRows_def Let_def if_True flip: since s1 cong: if_cong split del: if_split)
  then show ?thesis using expire by simp
qed

text \<open>Two contexts that a query served \<open>D\<close> cannot tell apart.\<close>

definition same_range :: "stored_event list \<Rightarrow> Context \<Rightarrow> Context \<Rightarrow> bool" where
  "same_range D c c' \<longleftrightarrow> database_namespace c' = database_namespace c \<and>
     (let t = fst (ev_stamp D); since = (if t = 0 then 0 else t - 1)
      in index_range since 0 (event_index c') = index_range since 0 (event_index c))"

lemma same_range_refl: "same_range D c c"
  by (simp add: same_range_def)

lemma same_range_static:
  assumes "same_range D c c'" "ev_stamp D = (t, i)" "since = (if t = 0 then 0 else t - 1)"
  shows "generateRows_static e since 0 i c p = generateRows_static e since 0 i c' p"
proof -
  have "index_range since 0 (event_index c') = index_range since 0 (event_index c)" "database_namespace c' = database_namespace c"
    using assms by (simp_all add: same_range_def Let_def split del: if_split)
  moreover from this(2) have "databaseKeyForEventId c' = databaseKeyForEventId c" by (simp add: fun_eq_iff databaseKeyForEventId_def)
  ultimately show ?thesis by (simp add: generateRows_static_def)
qed

text \<open>What is stored for a query that was served \<open>D\<close>.\<close>

definition served :: "(string \<Rightarrow> string \<Rightarrow> string option) \<Rightarrow> string \<Rightarrow> stored_event list \<Rightarrow> bool" where
  "served V q D \<longleftrightarrow>
     (if D = [] then V kEvents (''optimize.'' @ q) = None \<and> V kEvents (''optimize_eid.'' @ q) = None
      else V kEvents (''optimize.'' @ q) = Some (to_string_u64 (fst (ev_stamp D))) \<and>
           V kEvents (''optimize_eid.'' @ q) = Some (toIndex (snd (ev_stamp D))))"

lemma no_number [simp]: "timeFromRecord [] = 0" "object (tryTo_u64 what 10 []) \<noteq> Inl v"
  by (simp_all add: timeFromRecord_def tryTo_longlong_def tryTo_u64_def tryTo_catch_object throwingStringToInt_longlong_def
      throwingStringToInt_ulonglong_def stoll_def stosigned_def stoull_def strto_raw_def strip_sign_def strip_prefix_def has_digit_def
      split: sum.splits)

lemma optimize_keys:
  "\<not> prefix ''data.'' (''optimize.'' @ q)" "\<not> prefix ''data.'' (''optimize_eid.'' @ q)"
  "\<not> deprecated_key (''optimize.'' @ q)" "\<not> deprecated_key (''optimize_eid.'' @ q)"
  "''optimize.'' @ q \<noteq> ''optimize_eid.'' @ q'"
  by (simp_all add: deprecated_key_def)

lemma served_cong:
  assumes "served V q D" "\<forall>k. deprecated_key k \<or> prefix ''data.'' k \<or> W kEvents k = V kEvents k"
  shows "served W q D"
proof -
  have "W kEvents (''optimize.'' @ q) = V kEvents (''optimize.'' @ q)" "W kEvents (''optimize_eid.'' @ q) = V kEvents (''optimize_eid.'' @ q)"
    using assms(2) optimize_keys by blast+
  then show ?thesis using assms(1) by (simp only: served_def)
qed

context reliable_database
begin

lemma read_events_ok:
  assumes "de_ops (ee_db e) = ops" "db_ready ok_db p" "rj_ok (de_rj (ee_db e))" "rj_braces (de_rj (ee_db e))"
    and H: "store_rel e H c (db_view look p)"
  shows "set U \<subseteq> set H \<Longrightarrow>
    read_events e (map (databaseKeyForEventId c) (map ev_id U)) (rows, invalid, p) = Inr (rows @ map stored_row U, invalid, p)"
proof (induction U arbitrary: rows)
  case (Cons x U)
  obtain t i r where x: "x = (t, i, r)" by (cases x)
  have key: "databaseKeyForEventId c i = event_key (dbNamespace e) i"
    and r: "row_ok r" "db_view look p kEvents (event_key (dbNamespace e) i) = Some (row_text (de_rj (ee_db e)) (stored_row x))"
    using H Cons.prems by (auto simp: store_rel_def x databaseKeyForEventId_def)
  obtain st where "getDatabaseValue (ee_db e) False kEvents (databaseKeyForEventId c i) [] p =
      Inr (st, row_text (de_rj (ee_db e)) (stored_row x), p)"
    using get_some [OF assms(2,1) _ r(2), of False] by (auto simp: key kEvents_def)
  moreover have "deserializeRowJSON (de_rj (ee_db e)) (row_text (de_rj (ee_db e)) (stored_row x)) [] = (success, stored_row x)"
    using deserializeRowJSON_text [OF assms(3) event_row_ok [OF r(1)]] by (simp add: x)
  ultimately show ?case using Cons.IH Cons.prems row_text_nonempty [OF assms(4)] by (simp add: x)
qed simp

lemma getOptimizeData_ok:
  assumes "de_ops (ee_db e) = ops" "db_ready ok_db p" "q \<noteq> []"
    and "db_view look p kPersistentSettings kExecutingQuery = Some q" "served (db_view look p) q D"
    and "unat (fst (ev_stamp D)) < 2 ^ 63"
  shows "getOptimizeData e p = Inr (fst (ev_stamp D), snd (ev_stamp D), q, p)"
proof -
  obtain st where g: "getDatabaseValue (ee_db e) False kPersistentSettings kExecutingQuery [] p = Inr (st, q, p)"
    using get_some [OF assms(2,1) _ assms(4), of False] by (auto simp: kPersistentSettings_def)
  have *: "\<exists>st. getDatabaseValue (ee_db e) False kEvents k [] p =
      Inr (st, (case db_view look p kEvents k of Some v \<Rightarrow> v | None \<Rightarrow> []), p)" for k
    using get_value [OF assms(2,1), of kEvents False k] by (auto simp: kEvents_def)
  obtain st1 st2 where
    "getDatabaseValue (ee_db e) False kEvents (''optimize.'' @ q) [] p =
      Inr (st1, (case db_view look p kEvents (''optimize.'' @ q) of Some v \<Rightarrow> v | None \<Rightarrow> []), p)"
    "getDatabaseValue (ee_db e) False kEvents (''optimize_eid.'' @ q) [] p =
      Inr (st2, (case db_view look p kEvents (''optimize_eid.'' @ q) of Some v \<Rightarrow> v | None \<Rightarrow> []), p)"
    using * by blast
  then show ?thesis using g assms(3,5,6)
    by (cases "D = []") (auto simp: getOptimizeData_def served_def ev_stamp_def timeFromRecord_printed tryTo_toIndex split: sum.splits)
qed

lemma setOptimizeData_ok:
  assumes "de_ops (ee_db e) = ops" "db_ready ok_db p" "q \<noteq> []"
    and "db_view look p kPersistentSettings kExecutingQuery = Some q"
  shows "\<exists>p'. setOptimizeData e t i p = Inr p' \<and> db_ready ok_db p' \<and>
    db_view look p' = view_put kEvents [(''optimize_eid.'' @ q, toIndex i)] (view_put kEvents [(''optimize.'' @ q, to_string_u64 t)] (db_view look p))"
proof -
  obtain st where g: "getDatabaseValue (ee_db e) False kPersistentSettings kExecutingQuery [] p = Inr (st, q, p)"
    using get_some [OF assms(2,1) _ assms(4), of False] by (auto simp: kPersistentSettings_def)
  obtain st1 p1 where p1: "setDatabaseValue (ee_db e) False kEvents (''optimize.'' @ q) (to_string_u64 t) p = Inr (st1, p1)"
    "db_ready ok_db p1" "db_view look p1 = view_put kEvents [(''optimize.'' @ q, to_string_u64 t)] (db_view look p)"
    using set_value [OF assms(2,1), of kEvents "''optimize.'' @ q" "to_string_u64 t"] by (auto simp: kEvents_def)
  obtain st2 p2 where p2: "setDatabaseValue (ee_db e) False kEvents (''optimize_eid.'' @ q) (toIndex i) p1 = Inr (st2, p2)"
    "db_ready ok_db p2" "db_view look p2 = view_put kEvents [(''optimize_eid.'' @ q, toIndex i)] (db_view look p1)"
    using set_value [OF p1(2) assms(1), of kEvents "''optimize_eid.'' @ q" "toIndex i"] by (auto simp: kEvents_def)
  show ?thesis using g p1(1) p2 assms(3) by (intro exI [of _ p2]) (simp add: setOptimizeData_def p1(3))
qed

end

text \<open>One run of a scheduled query on the table of the subscriber: the scheduler records its start, the table is read without constraints.\<close>

definition run_scheduled ::
  "'d config_env \<Rightarrow> 'd event_env \<Rightarrow> u64 \<Rightarrow> string \<Rightarrow> 'd event_world \<Rightarrow> (Row list \<times> 'd event_world) throwing" where
  "run_scheduled ce e now q w =
     exn_bind (recordQueryStart ce now q (ew_db w)) (\<lambda>p. genTable e now QueryContext_new (w\<lparr>ew_db := p\<rparr>))"

lemma store_rel_stamp: "store_rel e (D @ U) c V \<Longrightarrow> unat (fst (ev_stamp D)) < 2 ^ 63"
proof -
  assume H: "store_rel e (D @ U) c V"
  show ?thesis
  proof (cases "D = []")
    case False
    obtain t i r where l: "last D = (t, i, r)" by (cases "last D")
    have "last D \<in> set (D @ U)" using False by simp
    then have "unat t < 2 ^ 63" using H unfolding l store_rel_def by blast
    then show ?thesis using False by (simp add: ev_stamp_def l)
  qed (simp add: ev_stamp_def)
qed

lemma served_put:
  assumes "served V q' D" "q' \<noteq> q"
  shows "served (view_put kEvents [(''optimize_eid.'' @ q, a)] (view_put kEvents [(''optimize.'' @ q, b)] V)) q' D"
  using assms by (auto simp: served_def view_put_def split: if_splits)

lemma served_now:
  "X \<noteq> [] \<Longrightarrow> served (view_put kEvents [(''optimize_eid.'' @ q, toIndex (snd (ev_stamp X)))]
     (view_put kEvents [(''optimize.'' @ q, to_string_u64 (fst (ev_stamp X)))] V)) q X"
  by (simp add: served_def view_put_def)

context reliable_database
begin

lemma recordQueryStart_ok:
  assumes "de_ops (ce_db ce) = ops" "db_ready ok_db p"
  shows "\<exists>p'. recordQueryStart ce now q p = Inr p' \<and> db_ready ok_db p' \<and>
    db_view look p' kPersistentSettings kExecutingQuery = Some q \<and> db_view look p' kEvents = db_view look p kEvents"
proof -
  obtain p1 where p1: "db_set ce kPersistentSettings kExecutingQuery q p = Inr p1" "db_ready ok_db p1"
    "db_view look p1 = view_put kPersistentSettings [(kExecutingQuery, q)] (db_view look p)"
    using db_set_ok [OF assms(2,1), of kPersistentSettings] by (auto simp: kPersistentSettings_def)
  obtain p2 where p2: "db_set ce kPersistentSettings (timestamp_key q) (to_string_u64 now) p1 = Inr p2" "db_ready ok_db p2"
    "db_view look p2 = view_put kPersistentSettings [(timestamp_key q, to_string_u64 now)] (db_view look p1)"
    using db_set_ok [OF p1(2) assms(1), of kPersistentSettings] by (auto simp: kPersistentSettings_def)
  have "timestamp_key q \<noteq> kExecutingQuery" "kPersistentSettings \<noteq> kEvents"
    by (simp_all add: timestamp_key_def kExecutingQuery_def kPersistentSettings_def kEvents_def)
  then show ?thesis using p1 p2 by (intro exI [of _ p2]) (simp add: recordQueryStart_def view_put_def)
qed

lemma optimize_step:
  assumes ops: "de_ops (ee_db e) = ops" and ready: "db_ready ok_db p"
    and q: "q \<noteq> []" "db_view look p kPersistentSettings kExecutingQuery = Some q" and D: "X = [] \<Longrightarrow> served (db_view look p) q []"
  shows "\<exists>p'. (if X \<noteq> [] then setOptimizeData e (fst (ev_stamp X)) (snd (ev_stamp X)) p else Inr p) = Inr p' \<and>
    db_ready ok_db p' \<and> served (db_view look p') q X \<and> (\<forall>k. prefix ''data.'' k \<longrightarrow> db_view look p' kEvents k = db_view look p kEvents k) \<and>
    (\<forall>q' D'. q' \<noteq> q \<longrightarrow> served (db_view look p) q' D' \<longrightarrow> served (db_view look p') q' D')"
proof (cases "X = []")
  case True
  then show ?thesis using D ready by auto
next
  case False
  obtain p' where p': "setOptimizeData e (fst (ev_stamp X)) (snd (ev_stamp X)) p = Inr p'" "db_ready ok_db p'"
    and V: "db_view look p' = view_put kEvents [(''optimize_eid.'' @ q, toIndex (snd (ev_stamp X)))]
      (view_put kEvents [(''optimize.'' @ q, to_string_u64 (fst (ev_stamp X)))] (db_view look p))"
    using setOptimizeData_ok [OF ops ready q] by blast
  have "prefix ''data.'' k \<Longrightarrow> db_view look p' kEvents k = db_view look p kEvents k" for k
    using optimize_keys(1,2) [of q] by (auto simp: V view_put_def)
  moreover have "served (db_view look p') q X" unfolding V by (rule served_now [OF False])
  moreover have "served (db_view look p') q' D'" if "q' \<noteq> q" "served (db_view look p) q' D'" for q' D'
    unfolding V by (rule served_put [OF that(2,1)])
  ultimately show ?thesis using False p' by (intro exI [of _ p']) simp
qed

text \<open>The query depends on the index only through the range it reads.\<close>

lemma generateRows_range:
  assumes ops: "de_ops (ee_db e) = ops" and ready: "db_ready ok_db (ew_db w)"
    and rj: "rj_ok (de_rj (ee_db e))" "rj_braces (de_rj (ee_db e))" and none: "evicts_nothing e (ew_sub w)" and opt: "ee_optimize e"
    and q: "q \<noteq> []" "db_view look (ew_db w) kPersistentSettings kExecutingQuery = Some q"
    and H: "store_rel e (D @ U) c (db_view look (ew_db w))" and D: "served (db_view look (ew_db w)) q D"
    and c: "same_range D c (ew_context w)"
  shows "\<exists>w'. generateRows e now True 0 0 w = Inr (map stored_row U, w') \<and> db_ready ok_db (ew_db w') \<and> evicts_nothing e (ew_sub w') \<and>
    ew_context w' = ew_context w \<and> store_rel e (D @ U) c (db_view look (ew_db w')) \<and>
    served (db_view look (ew_db w')) q (D @ U) \<and>
    (\<forall>q' D'. q' \<noteq> q \<longrightarrow> served (db_view look (ew_db w)) q' D' \<longrightarrow> served (db_view look (ew_db w')) q' D')"
proof -
  obtain t i where ti: "ev_stamp D = (t, i)" by (cases "ev_stamp D")
  let ?p = "ew_db w" and ?X = "D @ U"
  define since where "since = (if t = 0 then 0 else t - 1)"
  have get: "getOptimizeData e ?p = Inr (t, i, q, ?p)"
    using getOptimizeData_ok [OF ops ready q D store_rel_stamp [OF H]] by (simp add: ti)
  have "set U \<subseteq> set ?X" by simp
  note reads = read_events_ok [OF ops ready rj H this, of "[]" "[]"]
  have "generateRows_static e since 0 i c ?p =
      Inr (\<lparr>isEnd = (?X = []), last_time = fst (ev_stamp ?X), last_id = snd (ev_stamp ?X)\<rparr>, map stored_row U, ?p)"
    using reads by (simp add: generateRows_static_def Let_def since_def unread [OF H ti] served_stamp [OF H ti] split del: if_split)
  note static = this [unfolded same_range_static [OF c ti since_def, of e ?p]]
  define s1 where "s1 = setExecutedQuery q since (ew_sub w)"
  have s1: "evicts_nothing e s1" "es_context s1 = ew_context w"
    using none by (auto simp: s1_def setExecutedQuery_def evicts_nothing_def getMinExpiry_def split: if_splits)
  obtain p' where p': "(if ?X \<noteq> [] then setOptimizeData e (fst (ev_stamp ?X)) (snd (ev_stamp ?X)) ?p else Inr ?p) = Inr p'"
    "db_ready ok_db p'" "served (db_view look p') q ?X" "\<And>k. prefix ''data.'' k \<Longrightarrow> db_view look p' kEvents k = db_view look ?p kEvents k"
    "\<And>q' D'. q' \<noteq> q \<Longrightarrow> served (db_view look ?p) q' D' \<Longrightarrow> served (db_view look p') q' D'"
    using optimize_step [OF ops ready q, of ?X] D by (metis Nil_is_append_conv)
  define w1 where "w1 = w\<lparr>ew_sub := s1, ew_db := p'\<rparr>"
  have "generateRows e now True 0 0 w = Inr (map stored_row U, w1)"
  proof (rule generateRows_optimized [OF opt get since_def s1_def])
    show "generateRows_static e since 0 i (es_context s1) ?p =
        Inr (\<lparr>isEnd = (?X = []), last_time = fst (ev_stamp ?X), last_id = snd (ev_stamp ?X)\<rparr>, map stored_row U, ?p)"
      using static s1 by simp
    show "expireEventBatches e (getMinExpiry e s1) (getExpireTime now s1) (w\<lparr>ew_sub := s1, ew_db := p'\<rparr>) = Inr w1"
      unfolding w1_def by (rule keeps_all(2) [OF s1(1)])
  qed (use p'(1) in \<open>auto simp: w1_def\<close>)
  then show ?thesis using p' s1 store_rel_cong [OF H, of "db_view look p'", OF p'(4)] by (intro exI [of _ w1]) (simp add: w1_def)
qed

end

section \<open>Every query has a queue of its own\<close>

text \<open>
  What a subscriber and the scheduler do over time: a batch of rows is added at a time, with a time of its own or
  zero, or a query runs.\<close>

datatype ev_op = Add_batch u64 "Row list" EventTime | Run_query u64 string

fun ev_trace ::
  "'d config_env \<Rightarrow> 'd event_env \<Rightarrow> ev_op list \<Rightarrow> 'd event_world \<Rightarrow> ((string \<times> Row list) list \<times> 'd event_world) throwing" where
  "ev_trace ce e [] w = Inr ([], w)"
| "ev_trace ce e (Add_batch now rows custom # es) w = exn_bind (addBatch e now rows custom w) (\<lambda>(_, _, w1). ev_trace ce e es w1)"
| "ev_trace ce e (Run_query now q # es) w =
     exn_bind (run_scheduled ce e now q w) (\<lambda>(rows, w1).
       exn_bind (ev_trace ce e es w1) (\<lambda>(out, w2). Inr ((q, rows) # out, w2)))"

abbreviation ev_time :: "u64 \<Rightarrow> EventTime \<Rightarrow> EventTime" where
  "ev_time now custom \<equiv> if custom \<noteq> 0 then custom else now"

text \<open>The specification: each query has a queue; a batch joins every queue, a run empties the queue of its query.\<close>

fun queue_trace :: "(string \<Rightarrow> stored_event list) \<Rightarrow> EventID \<Rightarrow> ev_op list \<Rightarrow> (string \<times> Row list) list" where
  "queue_trace pend l [] = []"
| "queue_trace pend l (Add_batch now rows custom # es) =
     queue_trace (\<lambda>q. pend q @ stamped (ev_time now custom) l rows) (l + of_nat (length rows)) es"
| "queue_trace pend l (Run_query now q # es) = (q, map stored_row (pend q)) # queue_trace (pend(q := [])) l es"

text \<open>Batches that come in the order of their times, and identifiers that do not wrap around.\<close>

fun in_order :: "EventTime \<Rightarrow> nat \<Rightarrow> ev_op list \<Rightarrow> bool" where
  "in_order t0 n [] \<longleftrightarrow> True"
| "in_order t0 n (Add_batch now rows custom # es) \<longleftrightarrow>
     (let t = ev_time now custom in
      rows \<noteq> [] \<and> (\<forall>r \<in> set rows. row_ok r) \<and> 0 < t \<and> unat t < 2 ^ 63 \<and> t0 \<le> t \<and> n + length rows < 2 ^ 64 \<and>
      in_order t (n + length rows) es)"
| "in_order t0 n (Run_query now q # es) \<longleftrightarrow> q \<noteq> [] \<and> in_order t0 n es"

context reliable_database
begin

lemma run_scheduled_ok:
  assumes ops: "de_ops (ce_db ce) = ops" "de_ops (ee_db e) = ops" and ready: "db_ready ok_db (ew_db w)"
    and rj: "rj_ok (de_rj (ee_db e))" "rj_braces (de_rj (ee_db e))" and none: "evicts_nothing e (ew_sub w)" and opt: "ee_optimize e"
    and q: "q \<noteq> []" and H: "store_rel e (D @ U) c (db_view look (ew_db w))" and D: "served (db_view look (ew_db w)) q D"
    and c: "same_range D c (ew_context w)"
  shows "\<exists>w'. run_scheduled ce e now q w = Inr (map stored_row U, w') \<and> db_ready ok_db (ew_db w') \<and> evicts_nothing e (ew_sub w') \<and>
    ew_context w' = ew_context w \<and> store_rel e (D @ U) c (db_view look (ew_db w')) \<and>
    served (db_view look (ew_db w')) q (D @ U) \<and>
    (\<forall>q' D'. q' \<noteq> q \<longrightarrow> served (db_view look (ew_db w)) q' D' \<longrightarrow> served (db_view look (ew_db w')) q' D')"
proof -
  obtain p where p: "recordQueryStart ce now q (ew_db w) = Inr p" "db_ready ok_db p"
    "db_view look p kPersistentSettings kExecutingQuery = Some q" "db_view look p kEvents = db_view look (ew_db w) kEvents"
    using recordQueryStart_ok [OF ops(1) ready] by blast
  let ?w = "w\<lparr>ew_db := p\<rparr>"
  have same: "served (db_view look p) q' D' \<longleftrightarrow> served (db_view look (ew_db w)) q' D'" for q' D'
    by (simp add: served_def p(4))
  have "genTable e now QueryContext_new ?w = generateRows e now True 0 0 ?w"
    by (simp add: genTable_def QueryContext_new_def)
  moreover have "store_rel e (D @ U) c (db_view look p)" using store_rel_cong [OF H, of "db_view look p"] by (simp add: p(4))
  ultimately show ?thesis
    using generateRows_range [OF ops(2) _ rj _ opt q, of ?w D U c now] p none D c
    by (simp add: run_scheduled_def same)
qed

lemma trace_queues:
  assumes ops: "de_ops (ce_db ce) = ops" "de_ops (ee_db e) = ops"
    and rj: "rj_ok (de_rj (ee_db e))" "rj_braces (de_rj (ee_db e))" and opt: "ee_optimize e"
  shows "db_ready ok_db (ew_db w) \<Longrightarrow> evicts_nothing e (ew_sub w) \<Longrightarrow> store_rel e H (ew_context w) (db_view look (ew_db w)) \<Longrightarrow>
    \<forall>(u, i, r) \<in> set H. u \<le> t0 \<Longrightarrow> \<forall>q. q \<noteq> [] \<longrightarrow> (\<exists>D. H = D @ pend q \<and> served (db_view look (ew_db w)) q D) \<Longrightarrow>
    in_order t0 (unat (last_event_id (ew_context w))) es \<Longrightarrow>
    \<exists>w'. ev_trace ce e es w = Inr (queue_trace pend (last_event_id (ew_context w)) es, w') \<and> db_ready ok_db (ew_db w')"
proof (induction es arbitrary: w H t0 pend)
  case (Cons op es)
  show ?case
  proof (cases op)
    case (Add_batch now rows custom)
    define t where "t = ev_time now custom"
    let ?l = "last_event_id (ew_context w)"
    define S where "S = stamped t ?l rows"
    have o: "rows \<noteq> []" "\<forall>r \<in> set rows. row_ok r" "0 < t" "unat t < 2 ^ 63" "t0 \<le> t" "unat ?l + length rows < 2 ^ 64"
      "in_order t (unat ?l + length rows) es"
      using Cons.prems(6) by (simp_all add: Add_batch Let_def t_def)
    have le: "\<forall>(u, i, r) \<in> set H. u \<le> t" using Cons.prems(4) o(5) by fastforce
    obtain w1 where w1: "addBatch e now rows custom w = Inr (success, map stored_row S, w1)" "db_ready ok_db (ew_db w1)"
      "store_rel e (H @ S) (ew_context w1) (db_view look (ew_db w1))"
      "last_event_id (ew_context w1) = ?l + of_nat (length rows)" "evicts_nothing e (ew_sub w1)"
      "\<forall>dm k. dm = kEvents \<and> (deprecated_key k \<or> prefix ''data.'' k) \<or> db_view look (ew_db w1) dm k = db_view look (ew_db w) dm k"
      using addBatch_ok [OF ops(2) Cons.prems(1) rj(2) Cons.prems(2,3) o(1,2,6) t_def o(3,4) le] unfolding S_def by blast
    have n: "unat (last_event_id (ew_context w1)) = unat ?l + length rows"
      using o(6) w1(4) by (simp add: unat_add_lem [THEN iffD1] unat_of_nat)
    have pend: "\<forall>q. q \<noteq> [] \<longrightarrow> (\<exists>D. H @ S = D @ (pend q @ S) \<and> served (db_view look (ew_db w1)) q D)"
    proof (intro allI impI)
      fix q :: string assume "q \<noteq> []"
      then obtain D where D: "H = D @ pend q" "served (db_view look (ew_db w)) q D" using Cons.prems(5) by blast
      have "served (db_view look (ew_db w1)) q D" using w1(6) by (intro served_cong [OF D(2)]) blast
      then show "\<exists>D. H @ S = D @ (pend q @ S) \<and> served (db_view look (ew_db w1)) q D" using D(1) by auto
    qed
    have times: "\<forall>(u, i, r) \<in> set (H @ S). u \<le> t"
      using le stamped_mem [of _ _ _ t ?l rows] unfolding S_def by fastforce
    obtain w' where "ev_trace ce e es w1 = Inr (queue_trace (\<lambda>q. pend q @ S) (last_event_id (ew_context w1)) es, w')" "db_ready ok_db (ew_db w')"
      using Cons.IH [OF w1(2,5,3) times pend] o(7) n by auto
    moreover have "queue_trace pend ?l (op # es) = queue_trace (\<lambda>q. pend q @ S) (?l + of_nat (length rows)) es"
      by (simp only: Add_batch queue_trace.simps S_def t_def)
    ultimately show ?thesis using w1(1,4) by (auto simp: Add_batch)
  next
    case (Run_query now q)
    have q: "q \<noteq> []" "in_order t0 (unat (last_event_id (ew_context w))) es" using Cons.prems(6) by (simp_all add: Run_query)
    obtain D where D: "H = D @ pend q" "served (db_view look (ew_db w)) q D" using Cons.prems(5) q(1) by blast
    obtain w1 where w1: "run_scheduled ce e now q w = Inr (map stored_row (pend q), w1)" "db_ready ok_db (ew_db w1)"
      "evicts_nothing e (ew_sub w1)" "ew_context w1 = ew_context w" "store_rel e H (ew_context w1) (db_view look (ew_db w1))"
      "served (db_view look (ew_db w1)) q H"
      "\<forall>q' D'. q' \<noteq> q \<longrightarrow> served (db_view look (ew_db w)) q' D' \<longrightarrow> served (db_view look (ew_db w1)) q' D'"
      using run_scheduled_ok [OF ops Cons.prems(1) rj Cons.prems(2) opt q(1) Cons.prems(3) [unfolded D(1)] D(2) same_range_refl, where now = now, folded D(1)]
      by auto
    have "\<forall>q'. q' \<noteq> [] \<longrightarrow> (\<exists>D. H = D @ (pend(q := [])) q' \<and> served (db_view look (ew_db w1)) q' D)"
      using Cons.prems(5) w1(6,7) by (metis append_Nil2 fun_upd_apply)
    then show ?thesis
      using Cons.IH [OF w1(2,3,5) Cons.prems(4), of "pend(q := [])"] q(2) w1(1,4) by (auto simp: Run_query simp flip: fun_upd_def)
  qed
qed simp

end


lemma rj_braces_codec: "rj_braces codec_rapidjson"
proof -
  have "enc_members ms \<noteq> [] \<and> last (enc_members ms) = CHR ''}''" for ms by (induction ms) auto
  then show ?thesis by (simp add: rj_braces_def codec_rapidjson_def)
qed

definition sample_event_env :: "ephemeral_db event_env" where
  "sample_event_env = \<lparr>ee_db = eph_env, ee_boost = boost_ref, ee_type = ''inotify'', ee_name = ''file_events'', events_expiry = 0,
     events_max = 0, ee_optimize = True\<rparr>"

definition sample_subscriber :: EventSubscriberPlugin where
  "sample_subscriber = \<lparr>es_context = \<lparr>database_namespace = ''inotify.file_events'', event_index = [], last_query_time = 0, last_event_id = 0\<rparr>,
     event_count = 0, subscription_count = 0, min_expiration = 0, query_count = 0, es_queries = []\<rparr>"

definition sample_event_world :: "ephemeral_db event_world" where
  "sample_event_world = \<lparr>ew_sub = sample_subscriber, ew_db = eph_process [], ew_once = False, ew_forwarded = []\<rparr>"

definition file_row :: "string \<Rightarrow> Row" where
  "file_row path = [(''path'', path)]"

lemma sample_event_env_ok:
  "de_ops (ee_db sample_event_env) = EphemeralDatabasePlugin" "rj_ok (de_rj (ee_db sample_event_env))"
  "rj_braces (de_rj (ee_db sample_event_env))" "ee_optimize sample_event_env" "evicts_nothing sample_event_env sample_subscriber"
  by (simp_all add: sample_event_env_def eph_env_def rj_ok_codec rj_braces_codec evicts_nothing_def getMinExpiry_def sample_subscriber_def)

lemma file_row_ok: "no_nul path \<Longrightarrow> row_ok (file_row path)"
  by (simp add: row_ok_def file_row_def om_wf_def no_nul_def)


section \<open>Events that come late\<close>

lemma dropWhile_om_set:
  "u < since \<Longrightarrow> dropWhile (\<lambda>(t, _). t < since) (om_set u v m) = dropWhile (\<lambda>(t, _). t < since) m" for since :: EventTime
  by (induction u v m rule: om_set.induct) auto

lemma index_add_range: "u < since \<Longrightarrow> index_range since 0 (index_add u ids index) = index_range since 0 index"
  by (auto simp: index_range_def index_add_def dropWhile_om_set)

lemma store_rel_newer:
  assumes H: "store_rel e H c V" and n: "unat (last_event_id c) + length rows < 2 ^ 64" and S: "S = stamped t (last_event_id c) rows"
    and W: "\<And>k. prefix ''data.'' k \<Longrightarrow> W kEvents k =
      (case map_of (map (\<lambda>ev. (event_key (dbNamespace e) (ev_id ev), text ev)) S) k of Some v \<Rightarrow> Some v | None \<Rightarrow> V kEvents k)"
  shows "store_rel e H c W"
proof -
  have "W kEvents (event_key (dbNamespace e) i) = V kEvents (event_key (dbNamespace e) i)" if "i \<le> last_event_id c" for i
  proof -
    have "map_of (map (\<lambda>ev. (event_key (dbNamespace e) (ev_id ev), text ev)) S) (event_key (dbNamespace e) i) = None"
      using stamped_ids [OF n, of t, folded S] that by (auto simp: map_of_eq_None_iff image_image)
    then show ?thesis using W [OF event_key_data(1), of "dbNamespace e" i] by simp
  qed
  then show ?thesis using H unfolding store_rel_def by fastforce
qed

text \<open>A query that was served all there is.\<close>

definition caught_up ::
  "'d event_env \<Rightarrow> stored_event list \<Rightarrow> string \<Rightarrow> EventSubscriberPlugin \<Rightarrow> (string \<Rightarrow> string \<Rightarrow> string option) \<Rightarrow> bool" where
  "caught_up e H q s V \<longleftrightarrow> evicts_nothing e s \<and> store_rel e H (es_context s) V \<and> served V q H"

context reliable_database
begin

lemma late_runs:
  assumes ops: "de_ops (ce_db ce) = ops" "de_ops (ee_db e) = ops"
    and rj: "rj_ok (de_rj (ee_db e))" "rj_braces (de_rj (ee_db e))" and opt: "ee_optimize e" and q: "q \<noteq> []"
  shows "db_ready ok_db (ew_db w) \<Longrightarrow> evicts_nothing e (ew_sub w) \<Longrightarrow> store_rel e H c (db_view look (ew_db w)) \<Longrightarrow>
    served (db_view look (ew_db w)) q H \<Longrightarrow> same_range H c (ew_context w) \<Longrightarrow>
    \<exists>w'. ev_trace ce e (map (\<lambda>t. Run_query t q) ts) w = Inr (map (\<lambda>_. (q, [])) ts, w')"
proof (induction ts arbitrary: w)
  case (Cons t ts)
  have H: "store_rel e (H @ []) c (db_view look (ew_db w))" using Cons.prems(3) by simp
  obtain w1 where w1: "run_scheduled ce e t q w = Inr ([], w1)" "db_ready ok_db (ew_db w1)" "evicts_nothing e (ew_sub w1)"
    "ew_context w1 = ew_context w" "store_rel e H c (db_view look (ew_db w1))" "served (db_view look (ew_db w1)) q H"
    using run_scheduled_ok [OF ops Cons.prems(1) rj Cons.prems(2) opt q H Cons.prems(4,5), where now = t] by auto
  then show ?case using Cons.IH [OF w1(2,3,5,6)] Cons.prems(5) by auto
qed simp

lemma late_batch:
  assumes ops: "de_ops (ce_db ce) = ops" "de_ops (ee_db e) = ops"
    and rj: "rj_ok (de_rj (ee_db e))" "rj_braces (de_rj (ee_db e))" and opt: "ee_optimize e" and q: "q \<noteq> []"
    and ready: "db_ready ok_db (ew_db w)" and up: "caught_up e H q (ew_sub w) (db_view look (ew_db w))" and H: "H \<noteq> []"
    and rows: "rows \<noteq> []" "\<forall>r \<in> set rows. row_ok r" "unat (last_event_id (ew_context w)) + length rows < 2 ^ 64"
    and u: "0 < u" "u < fst (last H) - 1"
  shows "\<exists>w1 w2. addBatch e now rows u w = Inr (success, map stored_row (stamped u (last_event_id (ew_context w)) rows), w1) \<and>
    ev_trace ce e (map (\<lambda>t. Run_query t q) ts) w1 = Inr (map (\<lambda>_. (q, [])) ts, w2)"
proof -
  define S where "S = stamped u (last_event_id (ew_context w)) rows"
  let ?c = "ew_context w"
  have none: "evicts_nothing e (ew_sub w)" and rel: "store_rel e H ?c (db_view look (ew_db w))" and served: "served (db_view look (ew_db w)) q H"
    using up by (simp_all add: caught_up_def)
  have t: "u = (if u \<noteq> 0 then u else now)" using u(1) by auto
  obtain w1 where w1: "addBatch e now rows u w = Inr (success, map stored_row S, w1)" "db_ready ok_db (ew_db w1)"
    "ew_context w1 = ?c\<lparr>last_event_id := last_event_id ?c + of_nat (length rows), event_index := index_add u (map ev_id S) (event_index ?c)\<rparr>"
    "evicts_nothing e (ew_sub w1)"
    "\<And>k. prefix ''data.'' k \<Longrightarrow> db_view look (ew_db w1) kEvents k =
       (case map_of (map (\<lambda>ev. (event_key (dbNamespace e) (ev_id ev), row_text (de_rj (ee_db e)) (stored_row ev))) S) k of
          Some v \<Rightarrow> Some v | None \<Rightarrow> db_view look (ew_db w) kEvents k)"
    "\<forall>dm k. dm = kEvents \<and> (deprecated_key k \<or> prefix ''data.'' k) \<or> db_view look (ew_db w1) dm k = db_view look (ew_db w) dm k"
    using addBatch_form [OF ops(2) ready rj(2) none rows t S_def refl] by auto
  have "store_rel e H ?c (db_view look (ew_db w1))"
    by (rule store_rel_newer [OF rel rows(3) S_def]) (rule w1(5))
  moreover have "served (db_view look (ew_db w1)) q H" using w1(6) by (intro served_cong [OF served]) blast
  moreover have "fst (last H) \<noteq> 0" using rel last_in_set [OF H] by (cases "last H") (auto simp: store_rel_def)
  then have "same_range H ?c (ew_context w1)"
    using u H by (auto simp: same_range_def w1(3) ev_stamp_def Let_def index_add_range)
  ultimately show ?thesis using late_runs [OF ops rj opt q w1(2,4), of H ?c ts] w1(1) by (auto simp: S_def)
qed

end

text \<open>
  An event that is stored with a time more than a second before the last one a query was served is never
  returned to that query, however often it runs: the stored position of a query is a time and an identifier, and the
  range it reads starts one second before the time.
\<close>

theorem late_event_never_returned:
  assumes "de_ops (ce_db ce) = EphemeralDatabasePlugin" "de_ops (ee_db e) = EphemeralDatabasePlugin"
    and "rj_ok (de_rj (ee_db e))" "rj_braces (de_rj (ee_db e))" "ee_optimize e" "q \<noteq> []"
    and "db_ready eph_inv (ew_db w)" "caught_up e H q (ew_sub w) (db_view eph_look (ew_db w))" "H \<noteq> []"
    and "rows \<noteq> []" "\<forall>r \<in> set rows. row_ok r" "unat (last_event_id (ew_context w)) + length rows < 2 ^ 64"
    and "0 < u" "u < fst (last H) - 1"
  shows "\<exists>w1 w2. addBatch e now rows u w = Inr (success, map stored_row (stamped u (last_event_id (ew_context w)) rows), w1) \<and>
    ev_trace ce e (map (\<lambda>t. Run_query t q) ts) w1 = Inr (map (\<lambda>_. (q, [])) ts, w2)"
  using assms by (rule eph.late_batch)

lemma sample_world_ok:
  "db_ready eph_inv (ew_db sample_event_world)" "evicts_nothing sample_event_env (ew_sub sample_event_world)"
  "store_rel sample_event_env [] (ew_context sample_event_world) (db_view eph_look (ew_db sample_event_world))"
  "served (db_view eph_look (ew_db sample_event_world)) q []"
  using sample_event_env_ok(5)
  by (simp_all add: sample_event_world_def eph_process_ready eph_inv_Nil sample_subscriber_def dbNamespace_def sample_event_env_def
      eph_look_def eph_domain_def store_rel_def served_def om_wf_def)

theorem late_event_never_returned_witness:
  "\<exists>w. ev_trace sample_config_env sample_event_env
     [Add_batch 100 [file_row ''a''] 0, Run_query 101 ''changes'', Add_batch 105 [file_row ''b''] 50, Run_query 106 ''changes'', Run_query 200 ''changes'']
     sample_event_world = Inr ([(''changes'', [stored_row (100, 1, file_row ''a'')]), (''changes'', []), (''changes'', [])], w)"
proof -
  let ?e = sample_event_env and ?q = "''changes''" and ?H = "[(100, 1, file_row ''a'')] :: stored_event list"
  have l: "last_event_id (ew_context sample_event_world) = 0" by (simp add: sample_event_world_def sample_subscriber_def)
  have S: "stamped 100 0 [file_row ''a''] = ?H" by simp
  obtain w1 where w1: "addBatch ?e 100 [file_row ''a''] 0 sample_event_world = Inr (success, map stored_row ?H, w1)"
    "db_ready eph_inv (ew_db w1)" "store_rel ?e ([] @ ?H) (ew_context w1) (db_view eph_look (ew_db w1))"
    "last_event_id (ew_context w1) = 1" "evicts_nothing ?e (ew_sub w1)"
    "\<forall>dm k. dm = kEvents \<and> (deprecated_key k \<or> prefix ''data.'' k) \<or> db_view eph_look (ew_db w1) dm k = db_view eph_look (ew_db sample_event_world) dm k"
    using eph.addBatch_ok [OF sample_event_env_ok(1) sample_world_ok(1) sample_event_env_ok(3) sample_world_ok(2,3),
        of "[file_row ''a'']" 100 0 100] by (auto simp: l file_row_ok no_nul_def)
  have "served (db_view eph_look (ew_db w1)) ?q []" using w1(6) by (intro served_cong [OF sample_world_ok(4)]) blast
  then obtain w2 where w2: "run_scheduled sample_config_env ?e 101 ?q w1 = Inr (map stored_row ?H, w2)" "db_ready eph_inv (ew_db w2)"
    "evicts_nothing ?e (ew_sub w2)" "ew_context w2 = ew_context w1" "store_rel ?e ([] @ ?H) (ew_context w1) (db_view eph_look (ew_db w2))"
    "served (db_view eph_look (ew_db w2)) ?q ([] @ ?H)"
    using eph.run_scheduled_ok [OF sample_config_ok(1) sample_event_env_ok(1) w1(2) sample_event_env_ok(2,3) w1(5) sample_event_env_ok(4) _ w1(3)
        _ same_range_refl, of ?q 101] by auto
  have up: "caught_up ?e ?H ?q (ew_sub w2) (db_view eph_look (ew_db w2))" using w2 by (simp add: caught_up_def)
  show ?thesis
    using late_event_never_returned [OF sample_config_ok(1) sample_event_env_ok(1-4) _ w2(2) up,
        where rows = "[file_row ''b'']" and u = 50 and now = 105 and ts = "[106, 200]"] w1(1,4) w2(1,4)
    by (auto simp: file_row_ok no_nul_def)
qed

end
