(* ===== verification/EventsStorage.thy ===== *)
theory EventsStorage
  imports EventsSafety
begin

text \<open>
  The store of events and the index in memory agree, whatever is added, read, expired or dropped for lack of
  room; the index stays bounded, and it is rebuilt as it was at a start.
\<close>

section \<open>Agreement of index and store\<close>

definition event_prefix :: "string \<Rightarrow> string" where
  "event_prefix ns = ''data.'' @ ns @ ''.''"

lemma event_key_prefix: "event_key ns i = event_prefix ns @ toIndex i"
  by (simp add: event_key_def event_prefix_def)

definition event_stored :: "'d event_env \<Rightarrow> (string \<Rightarrow> string \<Rightarrow> string option) \<Rightarrow> EventTime \<Rightarrow> EventID \<Rightarrow> bool" where
  "event_stored e V t i \<longleftrightarrow>
     (\<exists>r. row_ok r \<and> V kEvents (event_key (dbNamespace e) i) = Some (row_text (de_rj (ee_db e)) (stored_row (t, i, r))))"

definition stored_ok :: "'d event_env \<Rightarrow> Context \<Rightarrow> (string \<Rightarrow> string \<Rightarrow> string option) \<Rightarrow> bool" where
  "stored_ok e c V \<longleftrightarrow>
     om_wf (event_index c) \<and> database_namespace c = dbNamespace e \<and>
     (\<forall>(t, ids) \<in> set (event_index c). ids \<noteq> [] \<and> sorted_wrt (<) ids) \<and> distinct (map snd (entries (event_index c))) \<and>
     (\<forall>(t, i) \<in> set (entries (event_index c)). 0 < i \<and> i \<le> last_event_id c \<and> event_stored e V t i) \<and>
     (\<forall>k. prefix (event_prefix (dbNamespace e)) k \<longrightarrow> V kEvents k \<noteq> None \<longrightarrow>
        (\<exists>(t, i) \<in> set (entries (event_index c)). k = event_key (dbNamespace e) i))"

lemma event_stored_cong:
  "W kEvents (event_key (dbNamespace e) i) = V kEvents (event_key (dbNamespace e) i) \<Longrightarrow> event_stored e W t i = event_stored e V t i"
  unfolding event_stored_def by simp

lemma stored_okD:
  assumes "stored_ok e c V"
  shows "(t, i) \<in> set (entries (event_index c)) \<Longrightarrow> 0 < i \<and> i \<le> last_event_id c \<and> event_stored e V t i"
    "prefix (event_prefix (dbNamespace e)) k \<Longrightarrow> V kEvents k \<noteq> None \<Longrightarrow> \<exists>t i. (t, i) \<in> set (entries (event_index c)) \<and> k = event_key (dbNamespace e) i"
    "om_wf (event_index c)" "database_namespace c = dbNamespace e" "distinct (map snd (entries (event_index c)))"
    "(t, ids) \<in> set (event_index c) \<Longrightarrow> ids \<noteq> [] \<and> sorted_wrt (<) ids"
  using assms unfolding stored_ok_def by fastforce+

lemma stored_okI:
  assumes "om_wf (event_index c)" "database_namespace c = dbNamespace e" "distinct (map snd (entries (event_index c)))"
    and "\<And>t ids. (t, ids) \<in> set (event_index c) \<Longrightarrow> ids \<noteq> [] \<and> sorted_wrt (<) ids"
    and "\<And>t i. (t, i) \<in> set (entries (event_index c)) \<Longrightarrow> 0 < i \<and> i \<le> last_event_id c \<and> event_stored e V t i"
    and "\<And>k. prefix (event_prefix (dbNamespace e)) k \<Longrightarrow> V kEvents k \<noteq> None \<Longrightarrow>
      \<exists>t i. (t, i) \<in> set (entries (event_index c)) \<and> k = event_key (dbNamespace e) i"
  shows "stored_ok e c V"
  using assms unfolding stored_ok_def by fastforce

lemma stored_ok_keys:
  assumes "stored_ok e c V"
  shows "V kEvents (event_key (dbNamespace e) i) \<noteq> None \<longleftrightarrow> i \<in> set (concat (map snd (event_index c)))"
proof
  assume "V kEvents (event_key (dbNamespace e) i) \<noteq> None"
  then obtain t j where "(t, j) \<in> set (entries (event_index c))" "event_key (dbNamespace e) i = event_key (dbNamespace e) j"
    using stored_okD(2) [OF assms, of "event_key (dbNamespace e) i"] by (auto simp: event_key_prefix)
  then show "i \<in> set (concat (map snd (event_index c)))" unfolding entries_ids by force
next
  assume "i \<in> set (concat (map snd (event_index c)))"
  then obtain t where "(t, i) \<in> set (entries (event_index c))" unfolding entries_ids by force
  then show "V kEvents (event_key (dbNamespace e) i) \<noteq> None" using stored_okD(1) [OF assms] by (auto simp: event_stored_def)
qed

lemma stored_ok_cong:
  assumes "stored_ok e c V" "\<And>k. prefix ''data.'' k \<Longrightarrow> W kEvents k = V kEvents k"
  shows "stored_ok e c W"
proof -
  have "W kEvents k = V kEvents k" if "prefix (event_prefix ns) k" for k ns
    using that assms(2) [of k] by (auto simp: event_prefix_def prefix_def)
  note same = this
  have "event_stored e W t i = event_stored e V t i" for t i
    by (intro event_stored_cong same [of "dbNamespace e"]) (simp add: event_key_prefix)
  then show ?thesis using stored_okD [OF assms(1)] same by (intro stored_okI) auto
qed

text \<open>Dropping the oldest batches, as both kinds of eviction do.\<close>

lemma entries_split: "entries index = entries (take n index) @ entries (drop n index)"
  by (metis append_take_drop_id entries_simps(3))

lemma om_wf_drop: "om_wf index \<Longrightarrow> om_wf (drop n index)"
  by (auto simp: om_wf_def drop_map [symmetric] intro: sorted_wrt_drop)

lemma stored_ok_drop:
  assumes "stored_ok e c V"
    and W: "W = view_del kEvents (\<lambda>k. k \<in> set (map (event_key (dbNamespace e)) (map snd (entries (take n (event_index c)))))) V"
  shows "stored_ok e (c\<lparr>event_index := drop n (event_index c)\<rparr>) W"
proof -
  let ?A = "entries (take n (event_index c))" and ?B = "entries (drop n (event_index c))"
  have ent: "entries (event_index c) = ?A @ ?B" by (rule entries_split)
  note ok = stored_okD [OF assms(1)]
  have disj: "snd ` set ?A \<inter> snd ` set ?B = {}" using ok(5) by (simp add: ent)
  show ?thesis
  proof (rule stored_okI)
    fix t i assume i: "(t, i) \<in> set (entries (event_index (c\<lparr>event_index := drop n (event_index c)\<rparr>)))"
    then have "W kEvents (event_key (dbNamespace e) i) = V kEvents (event_key (dbNamespace e) i)"
      using disj by (force simp: W view_del_def)
    then show "0 < i \<and> i \<le> last_event_id (c\<lparr>event_index := drop n (event_index c)\<rparr>) \<and> event_stored e W t i"
      using ok(1) [of t i] event_stored_cong [of W e i V t] i by (simp add: ent)
  next
    fix k assume k: "prefix (event_prefix (dbNamespace e)) k" "W kEvents k \<noteq> None"
    then have "V kEvents k \<noteq> None" and A: "k \<notin> event_key (dbNamespace e) ` snd ` set ?A"
      by (auto simp: W view_del_def split: if_splits)
    then obtain t i where "(t, i) \<in> set (?A @ ?B)" "k = event_key (dbNamespace e) i" using ok(2) [of k] k(1) unfolding ent by blast
    then show "\<exists>t i. (t, i) \<in> set (entries (event_index (c\<lparr>event_index := drop n (event_index c)\<rparr>))) \<and> k = event_key (dbNamespace e) i"
      using A by force
  next
    fix t ids assume "(t, ids) \<in> set (event_index (c\<lparr>event_index := drop n (event_index c)\<rparr>))"
    then show "ids \<noteq> [] \<and> sorted_wrt (<) ids" using ok(6) [of t ids] by (simp add: in_set_dropD)
  qed (use ok in \<open>simp_all add: om_wf_drop ent\<close>)
qed

text \<open>What an operation on the database and the index keeps: the rest of the subscriber, and all keys that are not events.\<close>

definition sub_frame :: "'d event_world \<Rightarrow> 'd event_world \<Rightarrow> bool" where
  "sub_frame w w' \<longleftrightarrow> event_count (ew_sub w') = event_count (ew_sub w) \<and> min_expiration (ew_sub w') = min_expiration (ew_sub w) \<and>
     last_event_id (ew_context w') = last_event_id (ew_context w) \<and> database_namespace (ew_context w') = database_namespace (ew_context w) \<and>
     length (event_index (ew_context w')) \<le> length (event_index (ew_context w))"

lemma sub_frame_refl [simp]: "sub_frame w w"
  by (simp add: sub_frame_def)

lemma sub_frame_trans: "sub_frame w w1 \<Longrightarrow> sub_frame w1 w2 \<Longrightarrow> sub_frame w w2"
  by (auto simp: sub_frame_def)

context reliable_database
begin

lemma drop_batches_ok:
  assumes "de_ops (ee_db e) = ops" "db_ready ok_db (ew_db w)" "stored_ok e (ew_context w) (db_view look (ew_db w))"
  shows "\<exists>w'. delete_batches e (take n (event_index (ew_context w)))
      (with_context (\<lambda>c. c\<lparr>event_index := drop n (event_index (ew_context w))\<rparr>) w) = Inr w' \<and>
    db_ready ok_db (ew_db w') \<and> stored_ok e (ew_context w') (db_view look (ew_db w')) \<and> sub_frame w w' \<and>
    event_index (ew_context w') = drop n (event_index (ew_context w)) \<and>
    db_view look (ew_db w') = view_del kEvents
      (\<lambda>k. k \<in> set (map (event_key (dbNamespace e)) (map snd (entries (take n (event_index (ew_context w))))))) (db_view look (ew_db w))"
proof -
  let ?keys = "map (event_key (dbNamespace e)) (map snd (entries (take n (event_index (ew_context w)))))"
  obtain p where p: "exn_fold (ev_delete e) ?keys (ew_db w) = Inr p" "db_ready ok_db p"
    "db_view look p = view_del kEvents (\<lambda>k. k \<in> set ?keys) (db_view look (ew_db w))"
    using delete_keys [OF assms(1,2)] by blast
  define w' where "w' = (with_context (\<lambda>c. c\<lparr>event_index := drop n (event_index (ew_context w))\<rparr>) w)\<lparr>ew_db := p\<rparr>"
  have "databaseKeyForEventId (ew_context w\<lparr>event_index := x\<rparr>) = event_key (dbNamespace e)" for x
    using stored_okD(4) [OF assms(3)] by (simp add: fun_eq_iff databaseKeyForEventId_def)
  then have "delete_batches e (take n (event_index (ew_context w)))
      (with_context (\<lambda>c. c\<lparr>event_index := drop n (event_index (ew_context w))\<rparr>) w) = Inr w'"
    using p(1) by (simp add: delete_batches_def with_context_def entries_ids w'_def)
  then show ?thesis using p stored_ok_drop [OF assms(3) p(3)]
    by (intro exI [of _ w']) (simp add: w'_def with_context_def sub_frame_def)
qed

lemma overflow_ok:
  assumes "de_ops (ee_db e) = ops" "db_ready ok_db (ew_db w)" "stored_ok e (ew_context w) (db_view look (ew_db w))"
  shows "\<exists>w'. removeOverflowingEventBatches e n w = Inr w' \<and> db_ready ok_db (ew_db w') \<and>
    stored_ok e (ew_context w') (db_view look (ew_db w')) \<and> sub_frame w w' \<and>
    (n \<noteq> 0 \<longrightarrow> length (event_index (ew_context w')) \<le> unat n)"
proof (cases "n = 0 \<or> length (event_index (ew_context w)) \<le> unat n")
  case True
  then show ?thesis using assms by (auto simp: removeOverflowingEventBatches_def Let_def)
next
  case False
  then show ?thesis
    using drop_batches_ok [OF assms, of "length (event_index (ew_context w)) - unat n"]
    by (auto simp: removeOverflowingEventBatches_def Let_def)
qed

lemma expire_ok:
  assumes "de_ops (ee_db e) = ops" "db_ready ok_db (ew_db w)" "stored_ok e (ew_context w) (db_view look (ew_db w))"
  shows "\<exists>w'. expireEventBatches e expiry now w = Inr w' \<and> db_ready ok_db (ew_db w') \<and>
    stored_ok e (ew_context w') (db_view look (ew_db w')) \<and> sub_frame w w'"
proof (cases "expireEventBatches e expiry now w = Inr w")
  case True
  then show ?thesis using assms by auto
next
  case False
  then obtain n where "expireEventBatches e expiry now w =
      delete_batches e (take n (event_index (ew_context w))) (with_context (\<lambda>c. c\<lparr>event_index := drop n (event_index (ew_context w))\<rparr>) w)"
    unfolding expireEventBatches_def Let_def by (auto split: list.splits prod.splits if_splits)
  then show ?thesis using drop_batches_ok [OF assms, of n] by auto
qed

end

section \<open>Adding a batch\<close>

lemma om_get_in: "om_get m k = Some v \<Longrightarrow> (k, v) \<in> set m"
  by (induction m) (auto simp: om_get_def split: if_splits)

lemma mset_entries_add:
  "om_wf index \<Longrightarrow> mset (entries (index_add t ids index)) = mset (entries index) + mset (map (Pair t) ids)"
proof (induction index)
  case (Cons a index)
  obtain u us where a: "a = (u, us)" by (cases a)
  have wf: "om_wf index" "\<forall>v \<in> fst ` set index. u < v" using Cons.prems by (auto simp: a om_wf_def)
  have "t < u \<Longrightarrow> om_get index t = None"
    using wf(2) om_get_in [of index t] by (cases "om_get index t") force+
  moreover have "u < t \<Longrightarrow> index_add t ids (a # index) = a # index_add t ids index"
    by (auto simp: a index_add_def om_get_def)
  ultimately show ?case using Cons.IH [OF wf(1)]
    by (cases u t rule: linorder_cases) (simp_all add: a index_add_def om_get_def)
qed (simp add: index_add_def om_get_def)

lemma index_add_buckets:
  "(u, us) \<in> set (index_add t ids index) \<Longrightarrow> (u, us) \<in> set index \<or> u = t \<and> (us = ids \<or> (\<exists>old. (t, old) \<in> set index \<and> us = old @ ids))"
proof -
  have "(k', v') \<in> set (om_set k v m) \<Longrightarrow> (k', v') = (k, v) \<or> (k', v') \<in> set m" for k v k' v' and m :: EventIndex
    by (induction k v m rule: om_set.induct) (auto split: if_splits)
  moreover assume "(u, us) \<in> set (index_add t ids index)"
  ultimately show ?thesis using om_get_in [of index t] by (fastforce simp: index_add_def split: option.splits)
qed

lemma index_add_length: "length (index_add t ids index) \<le> length index + 1"
proof -
  have "length (om_set k v m) \<le> length m + 1" for k v and m :: EventIndex by (induction k v m rule: om_set.induct) auto
  then show ?thesis by (simp add: index_add_def)
qed

lemma stored_ok_add:
  assumes ok: "stored_ok e c V"
    and n: "unat (last_event_id c) + length rows < 2 ^ 64" "rows \<noteq> []" "\<forall>r \<in> set rows. row_ok r"
    and S: "S = stamped t (last_event_id c) rows"
    and W: "\<And>k. prefix ''data.'' k \<Longrightarrow> W kEvents k =
      (case map_of (map (\<lambda>ev. (event_key (dbNamespace e) (ev_id ev), row_text (de_rj (ee_db e)) (stored_row ev))) S) k of
         Some v \<Rightarrow> Some v | None \<Rightarrow> V kEvents k)"
  shows "stored_ok e (c\<lparr>last_event_id := last_event_id c + of_nat (length rows),
      event_index := index_add t (map ev_id S) (event_index c)\<rparr>) W"
proof -
  let ?l = "last_event_id c" and ?n = "of_nat (length rows) :: EventID" and ?ids = "map ev_id S" and ?ns = "dbNamespace e"
  let ?data = "map (\<lambda>ev. (event_key ?ns (ev_id ev), row_text (de_rj (ee_db e)) (stored_row ev))) S"
  note ids = stamped_ids [OF n(1), of t, folded S] and old = stored_okD [OF ok]
  have le: "?l \<le> ?l + ?n" using n(1) by (simp add: word_le_nat_alt unat_add_lem [THEN iffD1] unat_of_nat)
  have ent: "mset (entries (index_add t ?ids (event_index c))) = mset (entries (event_index c)) + mset (map (Pair t) ?ids)"
    by (rule mset_entries_add [OF old(3)])
  then have set: "set (entries (index_add t ?ids (event_index c))) = set (entries (event_index c)) \<union> Pair t ` set ?ids"
    by (metis set_append set_map set_mset_mset mset_append)
  have "mset (map snd (entries (index_add t ?ids (event_index c)))) = mset (map snd (entries (event_index c)) @ ?ids)"
    using arg_cong [OF ent, of "image_mset snd"] by (simp add: comp_def image_mset.compositionality)
  moreover have "distinct (map snd (entries (event_index c)) @ ?ids)"
    using old(1,5) ids by (fastforce simp: strict_sorted_iff)
  ultimately have distinct: "distinct (map snd (entries (index_add t ?ids (event_index c))))"
    by (metis mset_eq_imp_distinct_iff)
  have keys: "distinct (map fst ?data)" using ids by (auto simp: strict_sorted_iff distinct_map inj_on_def comp_def)
  have new: "event_stored e W t i" if i: "i \<in> set ?ids" for i
  proof -
    obtain r where r: "(t, i, r) \<in> set S" "r \<in> set rows" using i stamped_mem [of _ _ _ t ?l rows] unfolding S by fastforce
    have "map_of ?data (event_key ?ns i) = Some (row_text (de_rj (ee_db e)) (stored_row (t, i, r)))"
      using r(1) by (intro map_of_is_SomeI [OF keys]) force
    then show ?thesis using W [OF event_key_data(1), of ?ns i] n(3) r(2) unfolding event_stored_def by auto
  qed
  have same: "W kEvents (event_key ?ns i) = V kEvents (event_key ?ns i)" if "i \<le> ?l" for i
  proof -
    have "map_of ?data (event_key ?ns i) = None" using ids that by (auto simp: map_of_eq_None_iff image_image)
    then show ?thesis using W [OF event_key_data(1), of ?ns i] by simp
  qed
  show ?thesis
  proof (rule stored_okI)
    fix u i assume "(u, i) \<in> set (entries (event_index (c\<lparr>last_event_id := ?l + ?n, event_index := index_add t ?ids (event_index c)\<rparr>)))"
    then consider "(u, i) \<in> set (entries (event_index c))" | "u = t" "i \<in> set ?ids" using set by auto
    then show "0 < i \<and> i \<le> last_event_id (c\<lparr>last_event_id := ?l + ?n, event_index := index_add t ?ids (event_index c)\<rparr>) \<and> event_stored e W u i"
    proof cases
      case 1
      then show ?thesis using old(1) [OF 1] le same [of i] event_stored_cong [of W e i V u] by auto
    next
      case 2
      then have "?l < i \<and> i \<le> ?l + ?n" using ids by auto
      then show ?thesis using new 2 by (auto intro: le_less_trans [OF word_zero_le])
    qed
  next
    fix k assume k: "prefix (event_prefix ?ns) k" "W kEvents k \<noteq> None"
    have d: "prefix ''data.'' k" using k(1) by (auto simp: event_prefix_def prefix_def)
    show "\<exists>u i. (u, i) \<in> set (entries (event_index (c\<lparr>last_event_id := ?l + ?n, event_index := index_add t ?ids (event_index c)\<rparr>))) \<and> k = event_key ?ns i"
    proof (cases "map_of ?data k")
      case None
      then have "V kEvents k \<noteq> None" using W [OF d] k(2) by simp
      then show ?thesis using old(2) k(1) set by fastforce
    next
      case (Some v)
      then obtain ev where "ev \<in> set S" "k = event_key ?ns (ev_id ev)" by (auto dest!: map_of_SomeD)
      then show ?thesis using set by (intro exI [of _ t] exI [of _ "ev_id ev"]) auto
    qed
  next
    fix u us assume "(u, us) \<in> set (event_index (c\<lparr>last_event_id := ?l + ?n, event_index := index_add t ?ids (event_index c)\<rparr>))"
    then have "(u, us) \<in> set (event_index c) \<or> us = ?ids \<or> (\<exists>b. (t, b) \<in> set (event_index c) \<and> us = b @ ?ids)"
      using index_add_buckets by fastforce
    moreover have "?ids \<noteq> []" using n(2) by (auto simp: S neq_Nil_conv)
    moreover have "i \<le> ?l" if "(t, b) \<in> set (event_index c)" "i \<in> set b" for b i
      using old(1) [of t i] that by (force simp: entries_def)
    ultimately show "us \<noteq> [] \<and> sorted_wrt (<) us" using old(6) ids by (fastforce simp: sorted_wrt_append)
  qed (use old distinct in \<open>simp_all add: index_add_wf\<close>)
qed

section \<open>Any sequence of batches and queries\<close>

text \<open>At most 255 batches over the limit wait for the next clean-up, which the count of events starts.\<close>

definition buffer_ok :: "'d event_env \<Rightarrow> EventSubscriberPlugin \<Rightarrow> bool" where
  "buffer_ok e s \<longleftrightarrow> events_max e = 0 \<or>
     length (event_index (es_context s)) \<le> unat (events_max e) + unat (event_count s mod kEventsCheckpoint)"

lemma buffer_ok_frame: "buffer_ok e (ew_sub w) \<Longrightarrow> sub_frame w w' \<Longrightarrow> buffer_ok e (ew_sub w')"
  by (auto simp: buffer_ok_def sub_frame_def)

lemma checkpoint_passed:
  assumes "\<not> kEventsCheckpoint \<le> cnt mod kEventsCheckpoint + of_nat n" "n < 2 ^ 63" "0 < n"
  shows "unat (cnt mod kEventsCheckpoint) + 1 \<le> unat ((cnt + of_nat n) mod kEventsCheckpoint)"
proof -
  have n: "unat (of_nat n :: u64) = n" using assms(2) by (simp add: unat_of_nat)
  have m: "unat (cnt mod kEventsCheckpoint) = unat cnt mod 256" by (simp add: kEventsCheckpoint_def unat_mod)
  have "unat cnt mod 256 < 256" by simp
  then have "unat (cnt mod kEventsCheckpoint + of_nat n) = unat cnt mod 256 + n"
    using assms(2) n m by (subst unat_add_lem [THEN iffD1]) simp_all
  then have lt: "unat cnt mod 256 + n < 256" using assms(1) by (simp add: word_le_nat_alt kEventsCheckpoint_def)
  have "unat ((cnt + of_nat n) mod kEventsCheckpoint) = ((unat cnt + n) mod 2 ^ 64) mod 256"
    by (simp add: kEventsCheckpoint_def unat_mod unat_word_ariths n)
  also have "\<dots> = (unat cnt + n) mod 256" by (simp add: mod_mod_cancel)
  also have "\<dots> = unat cnt mod 256 + n" using lt by (metis mod_add_left_eq mod_less)
  finally show ?thesis using m assms(3) by simp
qed

definition store_inv :: "'d event_env \<Rightarrow> EventSubscriberPlugin \<Rightarrow> (string \<Rightarrow> string \<Rightarrow> string option) \<Rightarrow> bool" where
  "store_inv e s V \<longleftrightarrow> stored_ok e (es_context s) V \<and> buffer_ok e s"

text \<open>Batches of rows that can be stored, as long as identifiers do not wrap around; their times are arbitrary.\<close>

fun batches_ok :: "nat \<Rightarrow> ev_op list \<Rightarrow> bool" where
  "batches_ok n [] \<longleftrightarrow> True"
| "batches_ok n (Add_batch now rows custom # es) \<longleftrightarrow>
     rows \<noteq> [] \<and> (\<forall>r \<in> set rows. row_ok r) \<and> length rows < 2 ^ 63 \<and> n + length rows < 2 ^ 64 \<and> batches_ok (n + length rows) es"
| "batches_ok n (Run_query now q # es) \<longleftrightarrow> batches_ok n es"

context reliable_database
begin

lemma addBatch_stored:
  assumes ops: "de_ops (ee_db e) = ops" and ready: "db_ready ok_db (ew_db w)" and rj: "rj_braces (de_rj (ee_db e))"
    and inv: "store_inv e (ew_sub w) (db_view look (ew_db w))"
    and rows: "rows \<noteq> []" "\<forall>r \<in> set rows. row_ok r" "unat (last_event_id (ew_context w)) + length rows < 2 ^ 64" "length rows < 2 ^ 63"
  shows "\<exists>out w'. addBatch e now rows custom w = Inr (success, out, w') \<and> db_ready ok_db (ew_db w') \<and>
    store_inv e (ew_sub w') (db_view look (ew_db w')) \<and>
    last_event_id (ew_context w') = last_event_id (ew_context w) + of_nat (length rows)"
proof -
  define t where "t = (if custom \<noteq> 0 then custom else now)"
  define S where "S = stamped t (last_event_id (ew_context w)) rows"
  let ?clean = "kEventsCheckpoint \<le> event_count (ew_sub w) mod kEventsCheckpoint + of_nat (length rows)"
  obtain w1 where w1: "addBatch e now rows custom w =
      (if ?clean then exn_bind (removeOverflowingEventBatches e (events_max e) w1) (\<lambda>w4.
            exn_bind (expireEventBatches e (getMinExpiry e (ew_sub w4)) now w4) (\<lambda>w5. Inr (success, map stored_row S, w5)))
       else Inr (success, map stored_row S, w1))" "db_ready ok_db (ew_db w1)"
    "event_count (ew_sub w1) = event_count (ew_sub w) + of_nat (length rows)"
    "ew_context w1 = (ew_context w)\<lparr>last_event_id := last_event_id (ew_context w) + of_nat (length rows),
      event_index := index_add t (map ev_id S) (event_index (ew_context w))\<rparr>"
    "\<And>k. prefix ''data.'' k \<Longrightarrow> db_view look (ew_db w1) kEvents k =
       (case map_of (map (\<lambda>ev. (event_key (dbNamespace e) (ev_id ev), row_text (de_rj (ee_db e)) (stored_row ev))) S) k of
          Some v \<Rightarrow> Some v | None \<Rightarrow> db_view look (ew_db w) kEvents k)"
    using addBatch_core [OF ops ready rj rows(1-3) t_def S_def refl] by auto
  have ok1: "stored_ok e (ew_context w1) (db_view look (ew_db w1))"
    unfolding w1(4) by (rule stored_ok_add [OF _ rows(3,1,2) S_def]) (use inv w1(5) in \<open>auto simp: store_inv_def\<close>)
  show ?thesis
  proof (cases ?clean)
    case True
    obtain w2 where w2: "removeOverflowingEventBatches e (events_max e) w1 = Inr w2" "db_ready ok_db (ew_db w2)"
      "stored_ok e (ew_context w2) (db_view look (ew_db w2))" "sub_frame w1 w2"
      "events_max e \<noteq> 0 \<longrightarrow> length (event_index (ew_context w2)) \<le> unat (events_max e)"
      using overflow_ok [OF ops w1(2) ok1] by blast
    obtain w3 where w3: "expireEventBatches e (getMinExpiry e (ew_sub w2)) now w2 = Inr w3" "db_ready ok_db (ew_db w3)"
      "stored_ok e (ew_context w3) (db_view look (ew_db w3))" "sub_frame w2 w3"
      using expire_ok [OF ops w2(2,3)] by blast
    have "buffer_ok e (ew_sub w2)" using w2(5) by (auto simp: buffer_ok_def)
    then have "store_inv e (ew_sub w3) (db_view look (ew_db w3))" using w3(3) buffer_ok_frame [OF _ w3(4)] by (simp add: store_inv_def)
    moreover have "last_event_id (ew_context w3) = last_event_id (ew_context w1)" using sub_frame_trans [OF w2(4) w3(4)] by (simp add: sub_frame_def)
    ultimately show ?thesis using w1(1,4) w2(1) w3(1,2) True by simp
  next
    case False
    have "length (event_index (ew_context w1)) \<le> length (event_index (ew_context w)) + 1" using index_add_length by (simp add: w1(4))
    then have "buffer_ok e (ew_sub w1)"
      using inv checkpoint_passed [OF False rows(4)] rows(1) by (auto simp: store_inv_def buffer_ok_def w1(3))
    then show ?thesis using w1(1,2,4) ok1 False by (simp add: store_inv_def)
  qed
qed

lemma getOptimizeData_total:
  assumes "de_ops (ee_db e) = ops" "db_ready ok_db p"
  shows "\<exists>t i q. getOptimizeData e p = Inr (t, i, q, p)"
proof -
  have *: "dm \<noteq> [] \<Longrightarrow> \<exists>st v. getDatabaseValue (ee_db e) False dm k [] p = Inr (st, v, p)" for dm k
    using get_value [OF assms(2,1), of dm False k] by auto
  obtain s0 q where q: "getDatabaseValue (ee_db e) False kPersistentSettings kExecutingQuery [] p = Inr (s0, q, p)"
    using * [of kPersistentSettings kExecutingQuery] by (auto simp: kPersistentSettings_def)
  obtain s1 v1 s2 v2 where "getDatabaseValue (ee_db e) False kEvents (''optimize.'' @ q) [] p = Inr (s1, v1, p)"
    "getDatabaseValue (ee_db e) False kEvents (''optimize_eid.'' @ q) [] p = Inr (s2, v2, p)"
    using * [of kEvents "''optimize.'' @ q"] * [of kEvents "''optimize_eid.'' @ q"] by (auto simp: kEvents_def)
  then show ?thesis using q by (simp add: getOptimizeData_def)
qed

lemma setOptimizeData_total:
  assumes "de_ops (ee_db e) = ops" "db_ready ok_db p"
  shows "\<exists>p'. setOptimizeData e t i p = Inr p' \<and> db_ready ok_db p' \<and>
    (\<forall>k. prefix ''data.'' k \<longrightarrow> db_view look p' kEvents k = db_view look p kEvents k)"
proof -
  obtain st q where q: "getDatabaseValue (ee_db e) False kPersistentSettings kExecutingQuery [] p = Inr (st, q, p)"
    "ok st = (db_view look p kPersistentSettings kExecutingQuery \<noteq> None)" "q = (case db_view look p kPersistentSettings kExecutingQuery of Some v \<Rightarrow> v | None \<Rightarrow> [])"
    using get_value [OF assms(2,1), of kPersistentSettings False kExecutingQuery] by (auto simp: kPersistentSettings_def)
  show ?thesis
  proof (cases "q = []")
    case True
    then show ?thesis using q(1) assms(2) by (simp add: setOptimizeData_def)
  next
    case False
    then have "db_view look p kPersistentSettings kExecutingQuery = Some q" using q(3) by (simp split: option.splits)
    then obtain p' where p': "setOptimizeData e t i p = Inr p'" "db_ready ok_db p'"
      "db_view look p' = view_put kEvents [(''optimize_eid.'' @ q, toIndex i)] (view_put kEvents [(''optimize.'' @ q, to_string_u64 t)] (db_view look p))"
      using setOptimizeData_ok [OF assms False] by blast
    then show ?thesis using optimize_keys(1,2) [of q] by (auto simp: view_put_def)
  qed
qed

end

lemma index_range_mem: "set (index_range since till index) \<subseteq> set index"
  by (auto simp: index_range_def dest!: set_takeWhileD set_dropWhileD split: if_splits)

lemma range_ids:
  assumes "i \<in> set (concat (map snd (index_range since till index)))"
  shows "\<exists>t. (t, i) \<in> set (entries index)"
proof -
  obtain t ids where "(t, ids) \<in> set (index_range since till index)" "i \<in> set ids" using assms by auto
  then have "(t, i) \<in> set (entries index)" using index_range_mem [of since till index] by (force simp: entries_def)
  then show ?thesis by blast
qed

lemma generateRows_form:
  assumes opt: "opt = (can \<and> ee_optimize e)" and get: "(if opt then getOptimizeData e (ew_db w) else Inr (0, 0, [], ew_db w)) = Inr (t, i, q, p)"
    and from1: "from1 = (if opt then (if t = 0 then 0 else t - 1) else since)"
    and s1: "s1 = (if opt then setExecutedQuery q from1 (ew_sub w) else ew_sub w)"
    and static: "generateRows_static e from1 till i (es_context s1) p = Inr (res, rows, p2)"
    and set: "(if opt \<and> \<not> isEnd res then setOptimizeData e (last_time res) (last_id res) p2 else Inr p2) = Inr p3"
  shows "generateRows e now can since till w =
    (if executedAllQueries s1 then exn_bind (expireEventBatches e (getMinExpiry e s1) (getExpireTime now s1) (w\<lparr>ew_sub := s1, ew_db := p3\<rparr>)) (\<lambda>w2. Inr (rows, w2))
     else Inr (rows, w\<lparr>ew_sub := s1, ew_db := p3\<rparr>))"
proof (cases opt)
  case True
  have "(if t = 0 then 0 else t - 1) = from1" "setExecutedQuery q from1 (ew_sub w) = s1" "getOptimizeData e (ew_db w) = Inr (t, i, q, p)"
    using True get by (simp_all only: from1 s1 if_True)
  then show ?thesis unfolding generateRows_def Let_def opt [symmetric]
    using True static set by (cases "executedAllQueries s1") (simp_all split del: if_split)
next
  case False
  have "since = from1" "ew_sub w = s1" "t = 0" "i = 0" "q = []" "ew_db w = p" using False get by (simp_all add: from1 s1)
  then show ?thesis unfolding generateRows_def Let_def opt [symmetric]
    using False static set by (cases "executedAllQueries s1") simp_all
qed

context reliable_database
begin

lemma read_events_stored:
  assumes "de_ops (ee_db e) = ops" "db_ready ok_db p" "rj_ok (de_rj (ee_db e))" "rj_braces (de_rj (ee_db e))"
    and "stored_ok e c (db_view look p)"
  shows "\<forall>i \<in> set is. \<exists>t. (t, i) \<in> set (entries (event_index c)) \<Longrightarrow>
    \<exists>out. read_events e (map (databaseKeyForEventId c) is) (rows, invalid, p) = Inr (rows @ out, invalid, p) \<and> length out = length is"
proof (induction "is" arbitrary: rows)
  case (Cons i js)
  obtain t where t: "(t, i) \<in> set (entries (event_index c))" using Cons.prems by auto
  obtain r where r: "row_ok r" "db_view look p kEvents (event_key (dbNamespace e) i) = Some (row_text (de_rj (ee_db e)) (stored_row (t, i, r)))"
    using stored_okD(1) [OF assms(5) t] unfolding event_stored_def by blast
  have key: "databaseKeyForEventId c i = event_key (dbNamespace e) i"
    using stored_okD(4) [OF assms(5)] by (simp add: databaseKeyForEventId_def)
  obtain st where "getDatabaseValue (ee_db e) False kEvents (databaseKeyForEventId c i) [] p =
      Inr (st, row_text (de_rj (ee_db e)) (stored_row (t, i, r)), p)"
    using get_some [OF assms(2,1) _ r(2), of False] by (auto simp: key kEvents_def)
  moreover have "deserializeRowJSON (de_rj (ee_db e)) (row_text (de_rj (ee_db e)) (stored_row (t, i, r))) [] = (success, stored_row (t, i, r))"
    using deserializeRowJSON_text [OF assms(3) event_row_ok [OF r(1)]] by simp
  moreover obtain out where "read_events e (map (databaseKeyForEventId c) js) (rows @ [stored_row (t, i, r)], invalid, p) =
      Inr ((rows @ [stored_row (t, i, r)]) @ out, invalid, p)" "length out = length js"
    using Cons.IH [of "rows @ [stored_row (t, i, r)]"] Cons.prems by auto
  ultimately show ?case using row_text_nonempty [OF assms(4)] by (intro exI [of _ "stored_row (t, i, r) # out"]) simp
qed simp

lemma generateRows_stored:
  assumes ops: "de_ops (ee_db e) = ops" and ready: "db_ready ok_db (ew_db w)"
    and rj: "rj_ok (de_rj (ee_db e))" "rj_braces (de_rj (ee_db e))" and ok: "stored_ok e (ew_context w) (db_view look (ew_db w))"
  shows "\<exists>rows w'. generateRows e now can since till w = Inr (rows, w') \<and> db_ready ok_db (ew_db w') \<and>
    stored_ok e (ew_context w') (db_view look (ew_db w')) \<and> sub_frame w w'"
proof -
  let ?p = "ew_db w" and ?c = "ew_context w" and ?opt = "can \<and> ee_optimize e"
  obtain t i q where get: "(if ?opt then getOptimizeData e ?p else Inr (0, 0, [], ?p)) = Inr (t, i, q, ?p)"
    using getOptimizeData_total [OF ops ready] by (cases ?opt) auto
  define from1 where "from1 = (if ?opt then (if t = 0 then 0 else t - 1) else since)"
  define s1 where "s1 = (if ?opt then setExecutedQuery q from1 (ew_sub w) else ew_sub w)"
  have c1: "es_context s1 = ?c" "event_count s1 = event_count (ew_sub w)" "min_expiration s1 = min_expiration (ew_sub w)"
    by (simp_all add: s1_def setExecutedQuery_def)
  let ?ids = "filter (\<lambda>j. \<not> i \<ge> j) (concat (map snd (index_range from1 till (event_index ?c))))"
  obtain out where "read_events e (map (databaseKeyForEventId ?c) ?ids) ([], [], ?p) = Inr (out, [], ?p)"
    using read_events_stored [OF ops ready rj ok, of ?ids "[]" "[]"] range_ids by fastforce
  then have "\<exists>res rows. generateRows_static e from1 till i ?c ?p = Inr (res, rows, ?p)" by (simp add: generateRows_static_def Let_def)
  then obtain res rows where static: "generateRows_static e from1 till i ?c ?p = Inr (res, rows, ?p)" by blast
  obtain p' where p': "(if ?opt \<and> \<not> isEnd res then setOptimizeData e (last_time res) (last_id res) ?p else Inr ?p) = Inr p'"
    "db_ready ok_db p'" "\<forall>k. prefix ''data.'' k \<longrightarrow> db_view look p' kEvents k = db_view look ?p kEvents k"
    using setOptimizeData_total [OF ops ready, of "last_time res" "last_id res"] ready by (cases "?opt \<and> \<not> isEnd res") auto
  define w1 where "w1 = w\<lparr>ew_sub := s1, ew_db := p'\<rparr>"
  have gen: "generateRows e now can since till w =
      (if executedAllQueries s1 then exn_bind (expireEventBatches e (getMinExpiry e s1) (getExpireTime now s1) w1) (\<lambda>w2. Inr (rows, w2)) else Inr (rows, w1))"
    unfolding w1_def by (rule generateRows_form [OF refl get from1_def s1_def _ p'(1)]) (simp add: static c1(1))
  have ok1: "stored_ok e (ew_context w1) (db_view look (ew_db w1))" "db_ready ok_db (ew_db w1)" "sub_frame w w1"
    using stored_ok_cong [OF ok, of "db_view look p'"] p'(2,3) c1 by (simp_all add: w1_def sub_frame_def)
  obtain w2 where "expireEventBatches e (getMinExpiry e s1) (getExpireTime now s1) w1 = Inr w2" "db_ready ok_db (ew_db w2)"
    "stored_ok e (ew_context w2) (db_view look (ew_db w2))" "sub_frame w1 w2"
    using expire_ok [OF ops ok1(2,1)] by blast
  then show ?thesis using gen ok1 sub_frame_trans [OF ok1(3)] by (cases "executedAllQueries s1") auto
qed

lemma run_stored:
  assumes ops: "de_ops (ce_db ce) = ops" "de_ops (ee_db e) = ops" and ready: "db_ready ok_db (ew_db w)"
    and rj: "rj_ok (de_rj (ee_db e))" "rj_braces (de_rj (ee_db e))" and inv: "store_inv e (ew_sub w) (db_view look (ew_db w))"
  shows "\<exists>rows w'. run_scheduled ce e now q w = Inr (rows, w') \<and> db_ready ok_db (ew_db w') \<and>
    store_inv e (ew_sub w') (db_view look (ew_db w')) \<and> last_event_id (ew_context w') = last_event_id (ew_context w)"
proof -
  obtain p where p: "recordQueryStart ce now q (ew_db w) = Inr p" "db_ready ok_db p" "db_view look p kEvents = db_view look (ew_db w) kEvents"
    using recordQueryStart_ok [OF ops(1) ready] by blast
  let ?w = "w\<lparr>ew_db := p\<rparr>"
  have "stored_ok e (ew_context ?w) (db_view look (ew_db ?w))"
    using stored_ok_cong [of e "ew_context w" "db_view look (ew_db w)" "db_view look p"] inv by (simp add: store_inv_def p(3))
  then obtain rows w' where w': "generateRows e now True 0 0 ?w = Inr (rows, w')" "db_ready ok_db (ew_db w')"
    "stored_ok e (ew_context w') (db_view look (ew_db w'))" "sub_frame ?w w'"
    using generateRows_stored [OF ops(2) _ rj, of ?w now True 0 0] p(2) by auto
  have "genTable e now QueryContext_new ?w = generateRows e now True 0 0 ?w" by (simp add: genTable_def QueryContext_new_def)
  moreover have "buffer_ok e (ew_sub w')" using inv by (intro buffer_ok_frame [OF _ w'(4)]) (simp add: store_inv_def)
  ultimately show ?thesis using p(1) w' by (auto simp: run_scheduled_def store_inv_def sub_frame_def)
qed

lemma trace_stored:
  assumes ops: "de_ops (ce_db ce) = ops" "de_ops (ee_db e) = ops" and rj: "rj_ok (de_rj (ee_db e))" "rj_braces (de_rj (ee_db e))"
  shows "db_ready ok_db (ew_db w) \<Longrightarrow> store_inv e (ew_sub w) (db_view look (ew_db w)) \<Longrightarrow>
    batches_ok (unat (last_event_id (ew_context w))) es \<Longrightarrow>
    \<exists>out w'. ev_trace ce e es w = Inr (out, w') \<and> db_ready ok_db (ew_db w') \<and> store_inv e (ew_sub w') (db_view look (ew_db w'))"
proof (induction es arbitrary: w)
  case (Cons op es)
  show ?case
  proof (cases op)
    case (Add_batch now rows custom)
    have o: "rows \<noteq> []" "\<forall>r \<in> set rows. row_ok r" "unat (last_event_id (ew_context w)) + length rows < 2 ^ 64" "length rows < 2 ^ 63"
      using Cons.prems(3) by (auto simp: Add_batch)
    obtain out w1 where w1: "addBatch e now rows custom w = Inr (success, out, w1)" "db_ready ok_db (ew_db w1)"
      "store_inv e (ew_sub w1) (db_view look (ew_db w1))" "last_event_id (ew_context w1) = last_event_id (ew_context w) + of_nat (length rows)"
      using addBatch_stored [OF ops(2) Cons.prems(1) rj(2) Cons.prems(2) o] by blast
    have "unat (last_event_id (ew_context w1)) = unat (last_event_id (ew_context w)) + length rows"
      using o(3) w1(4) by (simp add: unat_add_lem [THEN iffD1] unat_of_nat)
    then show ?thesis using Cons.IH [OF w1(2,3)] Cons.prems(3) w1(1) by (auto simp: Add_batch)
  next
    case (Run_query now q)
    obtain rows w1 where w1: "run_scheduled ce e now q w = Inr (rows, w1)" "db_ready ok_db (ew_db w1)"
      "store_inv e (ew_sub w1) (db_view look (ew_db w1))" "last_event_id (ew_context w1) = last_event_id (ew_context w)"
      using run_stored [OF ops Cons.prems(1) rj Cons.prems(2)] by blast
    show ?thesis using Cons.IH [OF w1(2,3)] Cons.prems(3) w1(1,4) by (auto simp: Run_query)
  qed
qed auto

end

text \<open>
  C19. Whatever is added, at whatever times, whatever queries run, and whatever is expired or dropped on the way, the
  index in memory and the store agree: nothing throws, every event of the index has its row in the database under its
  key, and every row of the subscriber in the database is in the index, so no row is left behind that nothing will
  ever delete.
\<close>

theorem event_index_matches_store:
  assumes "de_ops (ce_db ce) = EphemeralDatabasePlugin" "de_ops (ee_db e) = EphemeralDatabasePlugin"
    and "rj_ok (de_rj (ee_db e))" "rj_braces (de_rj (ee_db e))" "db_ready eph_inv (ew_db w)"
    and "store_inv e (ew_sub w) (db_view eph_look (ew_db w))" "batches_ok (unat (last_event_id (ew_context w))) es"
  shows "\<exists>out w'. ev_trace ce e es w = Inr (out, w') \<and>
    (\<forall>i. db_view eph_look (ew_db w') kEvents (event_key (dbNamespace e) i) \<noteq> None \<longleftrightarrow> i \<in> set (concat (map snd (event_index (ew_context w')))))"
proof -
  obtain out w' where w': "ev_trace ce e es w = Inr (out, w')" "store_inv e (ew_sub w') (db_view eph_look (ew_db w'))"
    using eph.trace_stored [OF assms] by blast
  have ok: "stored_ok e (ew_context w') (db_view eph_look (ew_db w'))" using w'(2) by (simp add: store_inv_def)
  have "db_view eph_look (ew_db w') kEvents (event_key (dbNamespace e) i) \<noteq> None \<longleftrightarrow> i \<in> set (concat (map snd (event_index (ew_context w'))))" for i
    by (rule stored_ok_keys [OF ok])
  then show ?thesis using w'(1) by blast
qed

text \<open>
  With a limit on the number of batches, the index never holds more than the limit and 255 batches, over any
  sequence of batches and queries: the limit is enforced once every 256 events.
\<close>

theorem event_buffer_bounded:
  assumes "de_ops (ce_db ce) = EphemeralDatabasePlugin" "de_ops (ee_db e) = EphemeralDatabasePlugin"
    and "rj_ok (de_rj (ee_db e))" "rj_braces (de_rj (ee_db e))" "db_ready eph_inv (ew_db w)"
    and "store_inv e (ew_sub w) (db_view eph_look (ew_db w))" "batches_ok (unat (last_event_id (ew_context w))) es" "events_max e \<noteq> 0"
  shows "\<exists>out w'. ev_trace ce e es w = Inr (out, w') \<and> length (event_index (ew_context w')) \<le> unat (events_max e) + 255"
proof -
  obtain out w' where w': "ev_trace ce e es w = Inr (out, w')" "store_inv e (ew_sub w') (db_view eph_look (ew_db w'))"
    using eph.trace_stored [OF assms(1-7)] by blast
  have "unat (event_count (ew_sub w') mod kEventsCheckpoint) = unat (event_count (ew_sub w')) mod 256"
    by (simp add: kEventsCheckpoint_def unat_mod)
  moreover have "unat (event_count (ew_sub w')) mod 256 \<le> 255"
    using mod_less_divisor [of 256 "unat (event_count (ew_sub w'))"] by simp
  ultimately have "length (event_index (ew_context w')) \<le> unat (events_max e) + 255"
    using w'(2) assms(8) by (simp add: store_inv_def buffer_ok_def)
  then show ?thesis using w'(1) by blast
qed

definition small_event_env :: "ephemeral_db event_env" where
  "small_event_env = sample_event_env\<lparr>events_max := 2, events_expiry := 86400\<rparr>"

lemma small_event_env_ok:
  "de_ops (ee_db small_event_env) = EphemeralDatabasePlugin" "rj_ok (de_rj (ee_db small_event_env))"
  "rj_braces (de_rj (ee_db small_event_env))" "events_max small_event_env \<noteq> 0"
  "store_inv small_event_env (ew_sub sample_event_world) (db_view eph_look (ew_db sample_event_world))"
  using sample_event_env_ok
  by (simp_all add: small_event_env_def store_inv_def buffer_ok_def stored_ok_def sample_event_world_def sample_subscriber_def om_wf_def
      eph_look_def eph_domain_def dbNamespace_def sample_event_env_def)

theorem event_index_matches_store_witness:
  "\<exists>out w'. ev_trace sample_config_env small_event_env
      (replicate 300 (Add_batch 100 [file_row ''a''] 0) @ [Run_query 105 ''changes'']) sample_event_world = Inr (out, w') \<and>
    (\<forall>i. db_view eph_look (ew_db w') kEvents (event_key (dbNamespace small_event_env) i) \<noteq> None \<longleftrightarrow> i \<in> set (concat (map snd (event_index (ew_context w')))))"
proof -
  have "n + k < 2 ^ 63 \<Longrightarrow> batches_ok n (replicate k (Add_batch 100 [file_row ''a''] 0) @ [Run_query 105 ''changes''])" for n k
    by (induction k arbitrary: n) (auto simp: file_row_ok no_nul_def)
  moreover have "unat (last_event_id (ew_context sample_event_world)) = 0" by (simp add: sample_event_world_def sample_subscriber_def)
  ultimately have "batches_ok (unat (last_event_id (ew_context sample_event_world))) (replicate 300 (Add_batch 100 [file_row ''a''] 0) @ [Run_query 105 ''changes''])"
    by simp
  then show ?thesis
    by (intro event_index_matches_store small_event_env_ok sample_config_ok(1) sample_world_ok(1))
qed

theorem event_buffer_bounded_witness:
  "\<exists>out w'. ev_trace sample_config_env small_event_env
      [Add_batch 100 [file_row ''a''] 0, Add_batch 101 [file_row ''b''] 7, Run_query 105 ''changes'', Add_batch 102 [file_row ''c''] 0]
      sample_event_world = Inr (out, w') \<and> length (event_index (ew_context w')) \<le> 257"
proof -
  have "batches_ok (unat (last_event_id (ew_context sample_event_world)))
      [Add_batch 100 [file_row ''a''] 0, Add_batch 101 [file_row ''b''] 7, Run_query 105 ''changes'', Add_batch 102 [file_row ''c''] 0]"
    by (simp add: sample_event_world_def sample_subscriber_def file_row_ok no_nul_def)
  note run = event_buffer_bounded [OF sample_config_ok(1) small_event_env_ok(1-3) sample_world_ok(1) small_event_env_ok(5) this small_event_env_ok(4)]
  have "unat (events_max small_event_env) + 255 = 257" by (simp add: small_event_env_def)
  then show ?thesis using run by (simp only:)
qed

section \<open>What expires\<close>

text \<open>The batches that are left: those after the limit, or the newest if all are before it; nothing goes while the oldest is not before the limit.\<close>

definition unexpired :: "EventTime \<Rightarrow> EventIndex \<Rightarrow> EventIndex" where
  "unexpired limit index =
     (if index = [] \<or> limit \<le> fst (hd index) then index
      else if filter (\<lambda>(t, _). limit < t) index = [] then [last index] else filter (\<lambda>(t, _). limit < t) index)"

lemma dropWhile_sorted:
  "om_wf index \<Longrightarrow> dropWhile (\<lambda>(t, _). t \<le> limit) index = filter (\<lambda>(t, _). limit < t) index" for limit :: EventTime
proof (induction index)
  case (Cons a index)
  obtain u us where a: "a = (u, us)" by (cases a)
  have wf: "om_wf index" "\<forall>v \<in> fst ` set index. u < v" using Cons.prems by (auto simp: a om_wf_def)
  have "limit < u \<Longrightarrow> filter (\<lambda>(t, _). limit < t) index = index" using wf(2) by (force simp: filter_id_conv)
  then show ?case using Cons.IH [OF wf(1)] by (auto simp: a not_le)
qed simp

lemma expired_drop:
  assumes "om_wf index" "index \<noteq> []" "\<not> limit \<le> fst (hd index)" "m = length (takeWhile (\<lambda>(t, _). t \<le> limit) index)"
  shows "drop (if m \<noteq> 0 \<and> m = length index then m - 1 else m) index = unexpired limit index"
proof -
  have drop: "drop m index = filter (\<lambda>(t, _). limit < t) index"
    using dropWhile_eq_drop [of "\<lambda>(t, _). t \<le> limit" index] dropWhile_sorted [OF assms(1), of limit] by (simp add: assms(4))
  have "m \<le> length index" by (simp add: assms(4) length_takeWhile_le)
  then have all: "filter (\<lambda>(t, _). limit < t) index = [] \<longleftrightarrow> m = length index" using drop by (metis drop_eq_Nil le_antisym)
  moreover have "drop (length index - 1) index = [last index]" using assms(2) by (cases index rule: rev_cases) auto
  ultimately show ?thesis using drop assms(2,3) by (auto simp: unexpired_def)
qed

context reliable_database
begin

lemma expire_unexpired:
  assumes "de_ops (ee_db e) = ops" "db_ready ok_db (ew_db w)" "stored_ok e (ew_context w) (db_view look (ew_db w))"
    and "expiry \<noteq> 0" "now \<noteq> 0" and left: "left = unexpired (now - expiry) (event_index (ew_context w))"
  shows "\<exists>w'. expireEventBatches e expiry now w = Inr w' \<and> event_index (ew_context w') = left \<and>
    db_view look (ew_db w') kEvents = (\<lambda>k. if \<exists>i \<in> set (concat (map snd (event_index (ew_context w)))) - set (concat (map snd left)).
      k = event_key (dbNamespace e) i then None else db_view look (ew_db w) kEvents k)"
proof (cases "event_index (ew_context w) = [] \<or> now - expiry \<le> fst (hd (event_index (ew_context w)))")
  case True
  then have "left = event_index (ew_context w)" by (auto simp: left unexpired_def)
  moreover have "expireEventBatches e expiry now w = Inr w"
    using True by (auto simp: expireEventBatches_def Let_def split: list.splits)
  ultimately show ?thesis by auto
next
  case False
  let ?index = "event_index (ew_context w)"
  define m where "m = length (takeWhile (\<lambda>(t, _). t \<le> now - expiry) ?index)"
  define n where "n = (if m \<noteq> 0 \<and> m = length ?index then m - 1 else m)"
  have drop: "drop n ?index = left"
    unfolding n_def left by (rule expired_drop [OF stored_okD(3) [OF assms(3)] _ _ m_def]) (use False in auto)
  have exp: "expireEventBatches e expiry now w =
      delete_batches e (take n ?index) (with_context (\<lambda>c. c\<lparr>event_index := drop n ?index\<rparr>) w)"
    using assms(4,5) False
    by (cases ?index) (auto simp: expireEventBatches_def Let_def n_def m_def)
  obtain w' where w': "delete_batches e (take n ?index) (with_context (\<lambda>c. c\<lparr>event_index := drop n ?index\<rparr>) w) = Inr w'"
    "event_index (ew_context w') = drop n ?index"
    "db_view look (ew_db w') = view_del kEvents (\<lambda>k. k \<in> set (map (event_key (dbNamespace e)) (map snd (entries (take n ?index))))) (db_view look (ew_db w))"
    using drop_batches_ok [OF assms(1-3), of n] by blast
  have "map snd (entries ?index) = map snd (entries (take n ?index)) @ map snd (entries left)"
    using entries_split [of ?index n] by (simp add: drop)
  then have gone: "set (map snd (entries (take n ?index))) = set (map snd (entries ?index)) - set (map snd (entries left))"
    using stored_okD(5) [OF assms(3)] by auto
  have "k \<in> set (map (event_key (dbNamespace e)) (map snd (entries (take n ?index)))) \<longleftrightarrow>
      (\<exists>i \<in> set (map snd (entries ?index)) - set (map snd (entries left)). k = event_key (dbNamespace e) i)" for k
    unfolding set_map [of "event_key (dbNamespace e)"] gone by blast
  then have "db_view look (ew_db w') kEvents = (\<lambda>k. if \<exists>i \<in> set (map snd (entries ?index)) - set (map snd (entries left)).
      k = event_key (dbNamespace e) i then None else db_view look (ew_db w) kEvents k)"
    by (simp only: w'(3) view_del_def fun_upd_same)
  then show ?thesis using exp w'(1,2) drop unfolding entries_ids by (intro exI [of _ w']) simp
qed

end

text \<open>
  Expiration removes exactly the batches up to the cut, the present time less the expiry, from the index and
  their rows from the store, and nothing else; the newest batch stays even when it is older, and nothing goes while
  the oldest batch is not before the limit.
\<close>

theorem expiration_removes_exactly:
  assumes "de_ops (ee_db e) = EphemeralDatabasePlugin" "db_ready eph_inv (ew_db w)"
    and "stored_ok e (ew_context w) (db_view eph_look (ew_db w))" "expiry \<noteq> 0" "now \<noteq> 0"
    and "left = unexpired (now - expiry) (event_index (ew_context w))"
  shows "\<exists>w'. expireEventBatches e expiry now w = Inr w' \<and> event_index (ew_context w') = left \<and>
    db_view eph_look (ew_db w') kEvents = (\<lambda>k. if \<exists>i \<in> set (concat (map snd (event_index (ew_context w)))) - set (concat (map snd left)).
      k = event_key (dbNamespace e) i then None else db_view eph_look (ew_db w) kEvents k)"
  using assms by (rule eph.expire_unexpired)

lemma sample_store_inv: "store_inv sample_event_env (ew_sub sample_event_world) (db_view eph_look (ew_db sample_event_world))"
  by (simp add: store_inv_def buffer_ok_def stored_ok_def sample_event_world_def sample_subscriber_def om_wf_def
      eph_look_def eph_domain_def dbNamespace_def sample_event_env_def)

text \<open>One batch of one row, in the sample environment.\<close>

lemma sample_add:
  assumes "db_ready eph_inv (ew_db w)" "store_inv sample_event_env (ew_sub w) (db_view eph_look (ew_db w))"
    and "evicts_nothing sample_event_env (ew_sub w)" "unat (last_event_id (ew_context w)) < 100" "0 < t" "row_ok r"
  shows "\<exists>w'. addBatch sample_event_env t [r] 0 w = Inr (success, [stored_row (t, last_event_id (ew_context w) + 1, r)], w') \<and>
    db_ready eph_inv (ew_db w') \<and> store_inv sample_event_env (ew_sub w') (db_view eph_look (ew_db w')) \<and>
    evicts_nothing sample_event_env (ew_sub w') \<and> last_event_id (ew_context w') = last_event_id (ew_context w) + 1 \<and>
    event_index (ew_context w') = index_add t [last_event_id (ew_context w) + 1] (event_index (ew_context w))"
proof -
  have rows: "[r] \<noteq> []" "\<forall>r \<in> set [r]. row_ok r" "unat (last_event_id (ew_context w)) + length [r] < 2 ^ 64" "length [r] < 2 ^ 63"
    using assms(4,6) by simp_all
  obtain out w' where w': "addBatch sample_event_env t [r] 0 w = Inr (success, out, w')" "store_inv sample_event_env (ew_sub w') (db_view eph_look (ew_db w'))"
    using eph.addBatch_stored [OF sample_event_env_ok(1) assms(1) sample_event_env_ok(3) assms(2) rows] by blast
  have t: "t = (if (0 :: EventTime) \<noteq> 0 then 0 else t)" by simp
  show ?thesis
    using eph.addBatch_form [OF sample_event_env_ok(1) assms(1) sample_event_env_ok(3) assms(3) rows(1-3) t refl refl] w'
    by auto
qed

theorem expiration_removes_exactly_witness:
  "\<exists>w1 w2 w3. addBatch sample_event_env 100 [file_row ''a''] 0 sample_event_world = Inr (success, [stored_row (100, 1, file_row ''a'')], w1) \<and>
     addBatch sample_event_env 200 [file_row ''b''] 0 w1 = Inr (success, [stored_row (200, 2, file_row ''b'')], w2) \<and>
     expireEventBatches sample_event_env 50 200 w2 = Inr w3 \<and> event_index (ew_context w2) = [(100, [1]), (200, [2])] \<and>
     event_index (ew_context w3) = [(200, [2])] \<and>
     db_view eph_look (ew_db w3) kEvents (event_key (dbNamespace sample_event_env) 1) = None"
proof -
  have row: "row_ok (file_row ''a'')" "row_ok (file_row ''b'')" by (simp_all add: file_row_ok no_nul_def)
  have s: "last_event_id (ew_context sample_event_world) = 0" "event_index (ew_context sample_event_world) = []"
    by (simp_all add: sample_event_world_def sample_subscriber_def)
  obtain w1 where w1: "addBatch sample_event_env 100 [file_row ''a''] 0 sample_event_world = Inr (success, [stored_row (100, 1, file_row ''a'')], w1)"
    "db_ready eph_inv (ew_db w1)" "store_inv sample_event_env (ew_sub w1) (db_view eph_look (ew_db w1))"
    "evicts_nothing sample_event_env (ew_sub w1)" "last_event_id (ew_context w1) = 1" "event_index (ew_context w1) = [(100, [1])]"
    using sample_add [OF sample_world_ok(1) sample_store_inv sample_world_ok(2) _ _ row(1), of 100] by (auto simp: s index_add_def)
  obtain w2 where w2: "addBatch sample_event_env 200 [file_row ''b''] 0 w1 = Inr (success, [stored_row (200, 2, file_row ''b'')], w2)"
    "db_ready eph_inv (ew_db w2)" "store_inv sample_event_env (ew_sub w2) (db_view eph_look (ew_db w2))"
    "event_index (ew_context w2) = [(100, [1]), (200, [2])]"
    using sample_add [OF w1(2-4) _ _ row(2), of 200] by (auto simp: w1(5,6) index_add_def om_get_def)
  have left: "[(200, [2])] = unexpired (200 - 50) (event_index (ew_context w2))" by (simp add: w2(4) unexpired_def)
  have ok: "stored_ok sample_event_env (ew_context w2) (db_view eph_look (ew_db w2))" using w2(3) by (simp add: store_inv_def)
  show ?thesis
    using expiration_removes_exactly [OF sample_event_env_ok(1) w2(2) ok _ _ left] w1(1) w2(1,4) by (auto simp: w2(4))
qed

end
