(* ===== verification/EventsRestart.thy ===== *)
theory EventsRestart
  imports EventsStorage
begin

text \<open>
  A start of a subscriber: the index that is rebuilt from the stored rows is the one the process had before, as
  long as the identifiers have at most ten digits, so that the order of the keys is the order of the identifiers.
\<close>

section \<open>The order of the keys\<close>

lemma digits_value_acc:
  "\<forall>c \<in> set s. digit_in_base 10 c \<noteq> None \<Longrightarrow> digits_value 10 s acc = acc * 10 ^ length s + digits_value 10 s 0"
proof (induction s arbitrary: acc)
  case (Cons c s)
  obtain d where d: "digit_in_base 10 c = Some d" using Cons.prems by auto
  have s: "\<forall>c \<in> set s. digit_in_base 10 c \<noteq> None" using Cons.prems by simp
  show ?case using Cons.IH [OF s, of "acc * 10 + d"] Cons.IH [OF s, of d] by (simp add: d algebra_simps)
qed simp

lemma digit_less_10: "digit_in_base 10 c = Some d \<Longrightarrow> d < 10"
  by (auto simp: digit_in_base_def split: option.splits if_splits)

lemma digits_value_bound: "\<forall>c \<in> set s. digit_in_base 10 c \<noteq> None \<Longrightarrow> digits_value 10 s 0 < 10 ^ length s"
proof (induction s)
  case (Cons c s)
  obtain d where d: "digit_in_base 10 c = Some d" using Cons.prems by auto
  have s: "\<forall>c \<in> set s. digit_in_base 10 c \<noteq> None" using Cons.prems by simp
  have "d * 10 ^ length s + digits_value 10 s 0 < (d + 1) * 10 ^ length s" using Cons.IH [OF s] by simp
  also have "\<dots> \<le> 10 * 10 ^ length s" using digit_less_10 [OF d] by (intro mult_right_mono) simp_all
  finally show ?case using digits_value_acc [OF s, of d] by (simp add: d)
qed simp

lemma digit_code: "digit_in_base 10 c = Some d \<Longrightarrow> of_char c = d + 48"
  by (auto simp: digit_in_base_def char_digit_def Let_def split: if_splits option.splits)

lemma digit_char_order:
  assumes "digit_in_base 10 c = Some d" "digit_in_base 10 c' = Some d'"
  shows "c < c' \<longleftrightarrow> d < d'" "c = c' \<longleftrightarrow> d = d'"
proof -
  show "c < c' \<longleftrightarrow> d < d'" using digit_code [OF assms(1)] digit_code [OF assms(2)] by (simp add: less_char_def)
  show "c = c' \<longleftrightarrow> d = d'" using digit_code [OF assms(1)] digit_code [OF assms(2)] of_char_eq_iff [of c c', where 'a = nat] by simp
qed

lemma digits_order:
  "length s = length s' \<Longrightarrow> \<forall>c \<in> set s. digit_in_base 10 c \<noteq> None \<Longrightarrow> \<forall>c \<in> set s'. digit_in_base 10 c \<noteq> None \<Longrightarrow>
   digits_value 10 s 0 < digits_value 10 s' 0 \<Longrightarrow> s < s'"
proof (induction s s' rule: list_induct2)
  case (Cons c s c' s')
  obtain d d' where d: "digit_in_base 10 c = Some d" "digit_in_base 10 c' = Some d'" using Cons.prems by auto
  have s: "\<forall>c \<in> set s. digit_in_base 10 c \<noteq> None" "\<forall>c \<in> set s'. digit_in_base 10 c \<noteq> None" using Cons.prems by auto
  have lt: "d * 10 ^ length s + digits_value 10 s 0 < d' * 10 ^ length s + digits_value 10 s' 0"
    using Cons.prems(3) digits_value_acc [OF s(1), of d] digits_value_acc [OF s(2), of d'] Cons.hyps by (simp add: d)
  show ?case
  proof (cases d d' rule: linorder_cases)
    case less
    then show ?thesis using digit_char_order(1) [OF d] by simp
  next
    case equal
    then have "c = c'" using digit_char_order(2) [OF d] by simp
    then show ?thesis using Cons.IH [OF s] lt equal by simp
  next
    case greater
    then have "(d' + 1) * 10 ^ length s \<le> d * 10 ^ length s" by (intro mult_right_mono) simp_all
    then show ?thesis using lt digits_value_bound [OF s(2)] Cons.hyps by simp
  qed
qed simp

lemma nat_digits_length: "n < 10 ^ Suc k \<Longrightarrow> length (nat_digits n) \<le> Suc k"
proof (induction k arbitrary: n)
  case (Suc k)
  then have "n div 10 < 10 ^ Suc k" by (simp add: less_mult_imp_div_less)
  then show ?case using Suc.IH [of "n div 10"] by (subst nat_digits.simps) simp
qed (simp add: nat_digits.simps)

lemma toIndex_order:
  assumes "i < j" "unat j < 10 ^ 10"
  shows "toIndex i < toIndex j"
proof -
  have "unat i < unat j" using assms(1) by (simp add: word_less_nat_alt)
  moreover have "length (toIndex k) = 10" if "unat k < 10 ^ 10" for k
    using nat_digits_length [of "unat k" 9] that by (simp add: toIndex_def to_string_u64_def Let_def)
  ultimately show ?thesis using assms(2) digit_chars_toIndex
    by (intro digits_order) (simp_all add: digits_value_toIndex)
qed

lemma event_key_order: "i < j \<Longrightarrow> unat j < 10 ^ 10 \<Longrightarrow> event_key ns i < event_key ns j"
proof -
  assume "i < j" "unat j < 10 ^ 10"
  then have "toIndex i < toIndex j" by (rule toIndex_order)
  moreover have "pfx @ x < pfx @ y \<longleftrightarrow> x < y" for pfx x y :: string by (induction pfx) auto
  ultimately show ?thesis by (simp add: event_key_prefix)
qed

section \<open>The index as a fold over the events\<close>

definition reindex :: "(EventTime \<times> EventID) list \<Rightarrow> EventIndex \<Rightarrow> EventIndex" where
  "reindex L = fold (\<lambda>(t, i). index_add t [i]) L"

lemma reindex_wf: "om_wf index \<Longrightarrow> om_wf (reindex L index)"
  unfolding reindex_def by (induction L arbitrary: index) (simp_all add: index_add_wf case_prod_unfold)

lemma index_add_get:
  "om_wf index \<Longrightarrow> om_get (index_add u ids index) t =
   (if t = u then Some ((case om_get index t of Some b \<Rightarrow> b | None \<Rightarrow> []) @ ids) else om_get index t)"
  by (simp add: index_add_def)

lemma reindex_get:
  "om_wf index \<Longrightarrow> om_get (reindex L index) t =
   (if map snd (filter (\<lambda>(u, i). u = t) L) = [] then om_get index t
    else Some ((case om_get index t of Some b \<Rightarrow> b | None \<Rightarrow> []) @ map snd (filter (\<lambda>(u, i). u = t) L)))"
proof (induction L arbitrary: index)
  case (Cons a L)
  obtain u i where a: "a = (u, i)" by (cases a)
  have "reindex (a # L) index = reindex L (index_add u [i] index)" by (simp add: reindex_def a)
  then show ?case using Cons.IH [OF index_add_wf [OF Cons.prems], of u "[i]"]
    by (cases "t = u") (simp_all add: a index_add_get [OF Cons.prems])
qed (simp add: reindex_def)

lemma entries_get:
  assumes "om_wf index"
  shows "(t, i) \<in> set (entries index) \<longleftrightarrow> (\<exists>b. om_get index t = Some b \<and> i \<in> set b)"
proof -
  have "distinct (map fst index)" using assms by (auto simp: om_wf_def strict_sorted_iff)
  then have "om_get index t = Some b \<longleftrightarrow> (t, b) \<in> set index" for b unfolding om_get_def by simp
  then show ?thesis by (force simp: entries_def)
qed

lemma reindex_entries:
  assumes wf: "om_wf index" and b: "\<And>t ids. (t, ids) \<in> set index \<Longrightarrow> ids \<noteq> [] \<and> sorted_wrt (<) ids"
    and L: "set L = set (entries index)" "sorted_wrt (<) (map snd L)"
  shows "reindex L [] = index"
proof (rule om_eqI [OF reindex_wf wf])
  show "om_wf ([] :: EventIndex)" by (simp add: om_wf_def)
  fix t
  let ?new = "map snd (filter (\<lambda>(u, i). u = t) L)"
  have new: "set ?new = {i. (t, i) \<in> set (entries index)}" using L(1) by force
  have "sorted_wrt (\<lambda>x y. snd x < snd y) (filter (\<lambda>(u, i). u = t) L)" using L(2) by (intro sorted_wrt_filter) (simp add: sorted_wrt_map)
  then have sorted: "sorted_wrt (<) ?new" by (simp add: sorted_wrt_map)
  have get: "om_get (reindex L []) t = (if ?new = [] then None else Some ?new)"
    using reindex_get [of "[]" L t] by (simp add: om_wf_def)
  show "om_get (reindex L []) t = om_get index t"
  proof (cases "om_get index t")
    case None
    then have "?new = []" using new entries_get [OF wf, of t] by (metis (mono_tags, lifting) empty_Collect_eq option.distinct(1) set_empty)
    then show ?thesis using get None by simp
  next
    case (Some ids)
    then have "(t, ids) \<in> set index" by (rule om_get_in)
    then have ids: "ids \<noteq> []" "sorted_wrt (<) ids" using b by blast+
    have "set ids = set ?new" using new entries_get [OF wf, of t] Some by auto
    then have "?new = ids" using ids(2) sorted by (metis strict_sorted_equal)
    then show ?thesis using get Some ids(1) by simp
  qed
qed

section \<open>The scan at a start\<close>

context prefix_database
begin

lemma kEvents_nonempty: "kEvents \<noteq> []"
  by (simp add: kEvents_def)

lemma index_key_ok:
  assumes "de_ops (ee_db e) = ops" "db_ready ok_db p" "rj_ok (de_rj (ee_db e))" "boost_ok (ee_boost e)"
    and "event_stored e (db_view look p) t i" "0 < i"
  shows "index_key e (event_prefix (dbNamespace e)) (event_key (dbNamespace e) i) (invalid, l, index, p) =
    Inr (invalid, max l i, index_add t [i] index, p)"
proof -
  obtain r where r: "row_ok r" "db_view look p kEvents (event_key (dbNamespace e) i) = Some (row_text (de_rj (ee_db e)) (stored_row (t, i, r)))"
    using assms(5) unfolding event_stored_def by blast
  obtain st where g: "getDatabaseValue (ee_db e) False kEvents (event_key (dbNamespace e) i) [] p =
      Inr (st, row_text (de_rj (ee_db e)) (stored_row (t, i, r)), p)" "ok st"
    using get_some [OF assms(2,1) _ r(2), of False] by (auto simp: kEvents_def)
  have d: "deserializeRowJSON (de_rj (ee_db e)) (row_text (de_rj (ee_db e)) (stored_row (t, i, r))) [] = (success, stored_row (t, i, r))"
    using deserializeRowJSON_text [OF assms(3) event_row_ok [OF r(1)]] by simp
  have "om_wf r" using r(1) by (simp add: row_ok_def)
  then have tm: "om_get (stored_row (t, i, r)) ''time'' = Some (to_string_u64 t)" by (simp add: event_row_def)
  have s: "c_str (drop (length (event_prefix (dbNamespace e))) (event_key (dbNamespace e) i)) = toIndex i"
    by (simp add: event_key_prefix)
  have b: "bo_lexical_u64 (ee_boost e) (to_string_u64 t) = Some t" using assms(4) by (simp add: boost_ok_def)
  show ?thesis using assms(6) g d tm b by (simp add: index_key_def s strtoull_toIndex Let_def)
qed

lemma index_keys_ok:
  assumes "de_ops (ee_db e) = ops" "db_ready ok_db p" "rj_ok (de_rj (ee_db e))" "boost_ok (ee_boost e)"
    and "\<forall>(t, i) \<in> set L. 0 < i \<and> event_stored e (db_view look p) t i"
  shows "exn_fold (index_key e (event_prefix (dbNamespace e))) (map (event_key (dbNamespace e)) (map snd L)) (invalid, l, index, p) =
    Inr (invalid, fold (\<lambda>i m. max m i) (map snd L) l, reindex L index, p)"
  using assms(5)
proof (induction L arbitrary: l index)
  case (Cons a L)
  obtain t i where a: "a = (t, i)" by (cases a)
  have "event_stored e (db_view look p) t i" "0 < i" using Cons.prems by (auto simp: a)
  note step = index_key_ok [OF assms(1-4) this, of invalid l index]
  show ?case using Cons.IH [of "max l i" "index_add t [i] index"] Cons.prems
    by (simp add: a step reindex_def)
qed (simp add: reindex_def)

lemma rebuild_ok:
  assumes ops: "de_ops (ee_db e) = ops" and ready: "db_ready ok_db (ew_db w)" and rj: "rj_ok (de_rj (ee_db e))" and bo: "boost_ok (ee_boost e)"
    and ok: "stored_ok e c (db_view look (ew_db w))" and ns: "database_namespace (ew_context w) = dbNamespace e"
    and small: "unat (last_event_id c) < 10 ^ 10"
    and keys: "\<And>k. db_view look (ew_db w) kEvents k \<noteq> None \<Longrightarrow> \<not> strict_prefix k (event_prefix (dbNamespace e))"
  shows "generateEventDataIndex e w = Inr (success, with_context (\<lambda>c'. c'\<lparr>event_index := event_index c,
    last_event_id := Max (insert 1 (snd ` set (entries (event_index c))))\<rparr>) w)"
proof -
  let ?E = "entries (event_index c)" and ?pfx = "event_prefix (dbNamespace e)" and ?V = "db_view look (ew_db w)"
  define L where "L = sort_key snd ?E"
  note ok' = stored_okD [OF ok]
  have L: "set L = set ?E" "sorted_wrt (<) (map snd L)"
    using ok'(5) by (simp_all add: L_def strict_sorted_iff distinct_map)
  obtain st keys where k: "scanDatabaseKeys (ee_db e) False kEvents [] ?pfx 0 (ew_db w) = Inr (st, keys, ew_db w)" "ok st"
    "set keys = {k. ?V kEvents k \<noteq> None \<and> prefix ?pfx k}" "sorted_wrt (<) keys"
    by (rule scan_prefix [OF ready ops kEvents_nonempty keys])
  have mem: "0 < i \<and> unat i < 10 ^ 10 \<and> event_stored e ?V t i" if "(t, i) \<in> set L" for t i
    using ok'(1) [of t i] that small unfolding L(1) by (auto simp: word_le_nat_alt)
  have "sorted_wrt (\<lambda>i j. event_key (dbNamespace e) i < event_key (dbNamespace e) j) (map snd L)"
    by (rule sorted_wrt_mono_rel [OF _ L(2)]) (use mem in \<open>auto intro: event_key_order\<close>)
  then have "sorted_wrt (<) (map (event_key (dbNamespace e)) (map snd L))" by (simp only: sorted_wrt_map)
  moreover have "set keys = set (map (event_key (dbNamespace e)) (map snd L))"
    using ok'(2) mem unfolding k(3) L(1) event_stored_def by (force simp: L(1) event_key_prefix)
  ultimately have keys_eq: "keys = map (event_key (dbNamespace e)) (map snd L)" using k(4) by (metis strict_sorted_equal)
  have "\<forall>(t, i) \<in> set L. 0 < i \<and> event_stored e ?V t i" using mem by auto
  note fold_keys = index_keys_ok [OF ops ready rj bo this, of "[]" 1 "[]"]
  have last: "fold (\<lambda>i m. max m i) (map snd L) 1 = Max (insert 1 (snd ` set ?E))"
  proof -
    have "(\<lambda>(i :: EventID) m. max m i) = max" by (simp add: fun_eq_iff max.commute)
    then show ?thesis using Max.set_eq_fold [of 1 "map snd L"] by (simp add: L(1))
  qed
  have index: "reindex L [] = event_index c" by (rule reindex_entries [OF ok'(3) _ L]) (rule ok'(6))
  have pfx: "''data.'' @ database_namespace (ew_context w) @ ''.'' = ?pfx" by (simp add: event_prefix_def ns)
  have "exn_fold (ev_delete e) [] (ew_db w) = Inr (ew_db w)" by simp
  then show ?thesis
    unfolding generateEventDataIndex_def Let_def pfx k(1) using k(2) fold_keys
    by (simp add: keys_eq last index with_context_def)
qed

end

text \<open>
  C20. A start rebuilds the index from the database as it was: after any history of a subscriber, a new process with
  the same database gets the same index, batch for batch and in the same order, and goes on numbering after the
  largest identifier that is still stored. The identifiers must have at most ten digits.
\<close>

theorem restart_restores_index:
  assumes "de_ops (ee_db e) = EphemeralDatabasePlugin" "db_ready eph_inv (ew_db w)" "rj_ok (de_rj (ee_db e))" "boost_ok (ee_boost e)"
    and "stored_ok e c (db_view eph_look (ew_db w))" "database_namespace (ew_context w) = dbNamespace e"
    and "unat (last_event_id c) < 10 ^ 10"
    and "\<And>k. db_view eph_look (ew_db w) kEvents k \<noteq> None \<Longrightarrow> \<not> strict_prefix k (event_prefix (dbNamespace e))"
  shows "generateEventDataIndex e w = Inr (success, with_context (\<lambda>c'. c'\<lparr>event_index := event_index c,
    last_event_id := Max (insert 1 (snd ` set (entries (event_index c))))\<rparr>) w)"
  using assms by (rule ephp.rebuild_ok)

theorem restart_restores_index_witness:
  "\<exists>w1. addBatch sample_event_env 100 [file_row ''a''] 0 sample_event_world = Inr (success, [stored_row (100, 1, file_row ''a'')], w1) \<and>
     generateEventDataIndex sample_event_env (sample_event_world\<lparr>ew_db := ew_db w1\<rparr>) =
       Inr (success, with_context (\<lambda>c. c\<lparr>event_index := [(100, [1])], last_event_id := 1\<rparr>) (sample_event_world\<lparr>ew_db := ew_db w1\<rparr>))"
proof -
  let ?e = sample_event_env and ?key = "event_key (dbNamespace sample_event_env) 1"
  have s: "last_event_id (ew_context sample_event_world) = 0" "event_index (ew_context sample_event_world) = []"
    "database_namespace (ew_context sample_event_world) = dbNamespace ?e"
    by (simp_all add: sample_event_world_def sample_subscriber_def dbNamespace_def sample_event_env_def)
  have empty: "db_view eph_look (ew_db sample_event_world) dm k = None" for dm k
    by (simp add: sample_event_world_def eph_look_def eph_domain_def)
  have row: "row_ok (file_row ''a'')" by (simp add: file_row_ok no_nul_def)
  have t: "(100 :: EventTime) = (if (0 :: EventTime) \<noteq> 0 then 0 else 100)" by simp
  obtain w1 where w1: "addBatch ?e 100 [file_row ''a''] 0 sample_event_world = Inr (success, [stored_row (100, 1, file_row ''a'')], w1)"
    "db_ready eph_inv (ew_db w1)" "event_index (ew_context w1) = [(100, [1])]" "last_event_id (ew_context w1) = 1"
    "\<forall>k. prefix ''data.'' k \<longrightarrow> db_view eph_look (ew_db w1) kEvents k =
       (case if k = ?key then Some (row_text (de_rj (ee_db ?e)) (event_row (to_string_u64 100) 1 (file_row ''a''))) else None of
          Some v \<Rightarrow> Some v | None \<Rightarrow> db_view eph_look (ew_db sample_event_world) kEvents k)"
    "\<forall>dm k. dm = kEvents \<and> (deprecated_key k \<or> prefix ''data.'' k) \<or> db_view eph_look (ew_db w1) dm k = None"
    using eph.addBatch_form [OF sample_event_env_ok(1) sample_world_ok(1) sample_event_env_ok(3) sample_world_ok(2) _ _ _ t refl refl, of "[file_row ''a'']"] row
    by (auto simp: s empty index_add_def)
  have only: "k = ?key" if "prefix ''data.'' k" "db_view eph_look (ew_db w1) kEvents k \<noteq> None" for k
    using w1(5) that empty by (auto split: if_splits)
  obtain w2 where w2: "addBatch ?e 100 [file_row ''a''] 0 sample_event_world = Inr (success, [stored_row (100, 1, file_row ''a'')], w2)"
    "store_inv ?e (ew_sub w2) (db_view eph_look (ew_db w2))"
    using sample_add [OF sample_world_ok(1) sample_store_inv sample_world_ok(2) _ _ row, of 100] by (auto simp: s)
  have ok: "stored_ok ?e (ew_context w1) (db_view eph_look (ew_db w1))" using w1(1) w2 by (simp add: store_inv_def)
  have keys: "\<not> strict_prefix k (event_prefix (dbNamespace ?e))" if "db_view eph_look (ew_db w1) kEvents k \<noteq> None" for k
  proof
    assume "strict_prefix k (event_prefix (dbNamespace ?e))"
    then have k: "prefix k (event_prefix (dbNamespace ?e))" "k \<noteq> event_prefix (dbNamespace ?e)" by (simp_all add: strict_prefix_def)
    have "\<not> deprecated_key k" using k(1) by (cases k) (simp_all add: deprecated_key_def event_prefix_def)
    then have "prefix ''data.'' k" using w1(6) [rule_format, of kEvents k] that by simp
    then have "k = ?key" using only that by blast
    then show False using k by (simp add: event_key_prefix)
  qed
  show ?thesis
    using restart_restores_index [OF sample_event_env_ok(1), of "sample_event_world\<lparr>ew_db := ew_db w1\<rparr>" "ew_context w1"]
      w1(1-4) ok keys s(3) sample_event_env_ok(2) by (simp add: sample_event_env_def boost_ref_ok)
qed

end
