(* ===== verification/EventPublishers.thy ===== *)
theory EventPublishers
  imports Events
begin

text \<open>
  Publishers, subscribers and the factory that holds them: \<open>events/eventfactory.cpp\<close>,
  \<open>events/eventpublisherplugin.cpp\<close>, \<open>events/eventpublisher.h\<close>, \<open>events/eventsubscriber.h\<close>,
  \<open>events/eventer.h\<close> and \<open>events/subscription.cpp\<close>. The virtual methods of publishers and subscribers are
  an argument; their calls are recorded.
\<close>

section \<open>State\<close>

datatype EventState = EVENT_NONE | EVENT_SETUP | EVENT_RUNNING | EVENT_PAUSED | EVENT_FAILED

record 'sc Subscription =
  subscriber_name :: string
  sub_context :: 'sc
  sub_callback :: bool

record 'sc EventPublisherPlugin =
  pub_state :: EventState
  pub_ending :: bool
  pub_started :: bool
  restart_count :: u64
  next_ec_id :: u64
  subscriptions :: "'sc Subscription list"

definition EventPublisherPlugin_new :: "'sc EventPublisherPlugin" where
  "EventPublisherPlugin_new =
     \<lparr>pub_state = EVENT_NONE, pub_ending = False, pub_started = False, restart_count = 0, next_ec_id = 0, subscriptions = []\<rparr>"

text \<open>A subscriber as the factory sees it, with the storage of its events inside.\<close>

record event_subscriber =
  evs_plugin :: EventSubscriberPlugin
  evs_disabled :: bool
  evs_state :: EventState
  evs_type :: string

record 'ec EventContext =
  ec_id :: u64
  ec_time :: u64
  ec_data :: 'ec

datatype virtual_call =
    Sub_tearDown string | Sub_setUp string | Sub_init string
  | Pub_tearDown string | Pub_setUp string | Pub_stop string | Pub_run string
  | Log_event string string | Configure string

record 'sc EventFactory =
  event_pubs :: "(string, 'sc EventPublisherPlugin) omap"
  event_subs :: "(string, event_subscriber) omap"
  ef_loggers :: "string list"
  ef_threads :: "string list"
  ef_calls :: "virtual_call list"

text \<open>
  What subclasses decide: whether \<open>setUp\<close> succeeds, the subscriptions that \<open>init\<close> makes and its status, the
  status of each turn of a publisher's loop, and which subscriptions an event is for. \<open>fe_parser\<close> is the data of
  the config parser for events, \<open>fe_subscriber_plugins\<close> the names in the registry of subscribers, \<open>fe_ends_with\<close>
  is \<open>boost::ends_with\<close>.
\<close>

record ('sc, 'ec) factory_env =
  disable_events :: bool
  fe_parser :: "json option"
  fe_setUp_sub :: "string \<Rightarrow> EventSubscriberPlugin \<Rightarrow> Status \<times> EventSubscriberPlugin"
  fe_init :: "string \<Rightarrow> ('sc \<times> bool) list \<times> Status"
  fe_setUp_pub :: "string \<Rightarrow> Status"
  fe_run :: "string \<Rightarrow> nat \<Rightarrow> Status"
  fe_shouldFire :: "string \<Rightarrow> 'sc \<Rightarrow> 'ec EventContext option \<Rightarrow> bool"
  fe_subscriber_plugins :: "string list"
  fe_ends_with :: "string \<Rightarrow> string \<Rightarrow> bool"

definition called :: "virtual_call \<Rightarrow> 'sc EventFactory \<Rightarrow> 'sc EventFactory" where
  "called c ef = ef\<lparr>ef_calls := ef_calls ef @ [c]\<rparr>"

definition EventFactory_new :: "'sc EventFactory" where
  "EventFactory_new = \<lparr>event_pubs = [], event_subs = [], ef_loggers = [], ef_threads = [], ef_calls = []\<rparr>"

section \<open>A publisher\<close>

definition pub_addSubscription :: "'sc Subscription \<Rightarrow> 'sc EventPublisherPlugin \<Rightarrow> 'sc EventPublisherPlugin" where
  "pub_addSubscription subscription p = p\<lparr>subscriptions := subscriptions p @ [subscription]\<rparr>"

definition pub_removeSubscriptions :: "string \<Rightarrow> 'sc EventPublisherPlugin \<Rightarrow> 'sc EventPublisherPlugin" where
  "pub_removeSubscriptions subscriber p = p\<lparr>subscriptions := filter (\<lambda>s. subscriber_name s \<noteq> subscriber) (subscriptions p)\<rparr>"

definition numSubscriptions_pub :: "'sc EventPublisherPlugin \<Rightarrow> nat" where
  "numSubscriptions_pub p = length (subscriptions p)"

definition Subscription_create :: "string \<Rightarrow> 'sc \<Rightarrow> bool \<Rightarrow> 'sc Subscription" where
  "Subscription_create name mc cb = \<lparr>subscriber_name = name, sub_context = mc, sub_callback = cb\<rparr>"

section \<open>The factory\<close>

definition getEventPublisher :: "string \<Rightarrow> 'sc EventFactory \<Rightarrow> 'sc EventPublisherPlugin option" where
  "getEventPublisher type_id ef = om_get (event_pubs ef) type_id"

definition ef_exists :: "string \<Rightarrow> 'sc EventFactory \<Rightarrow> bool" where
  "ef_exists name_id ef \<longleftrightarrow> om_get (event_subs ef) name_id \<noteq> None"

definition getEventSubscriber :: "string \<Rightarrow> 'sc EventFactory \<Rightarrow> event_subscriber option" where
  "getEventSubscriber name_id ef = (if \<not> ef_exists name_id ef then None else om_get (event_subs ef) name_id)"

definition publisherTypes :: "'sc EventFactory \<Rightarrow> string list" where
  "publisherTypes ef = om_keys (event_pubs ef)"

definition subscriberNames :: "'sc EventFactory \<Rightarrow> string list" where
  "subscriberNames ef = om_keys (event_subs ef)"

definition numEventPublishers :: "'sc EventFactory \<Rightarrow> nat" where
  "numEventPublishers ef = length (event_pubs ef)"

definition set_pub :: "string \<Rightarrow> 'sc EventPublisherPlugin \<Rightarrow> 'sc EventFactory \<Rightarrow> 'sc EventFactory" where
  "set_pub type_id p ef = ef\<lparr>event_pubs := om_set type_id p (event_pubs ef)\<rparr>"

definition set_sub :: "string \<Rightarrow> event_subscriber \<Rightarrow> 'sc EventFactory \<Rightarrow> 'sc EventFactory" where
  "set_sub name s ef = ef\<lparr>event_subs := om_set name s (event_subs ef)\<rparr>"

definition ef_addSubscription :: "string \<Rightarrow> 'sc Subscription \<Rightarrow> 'sc EventFactory \<Rightarrow> Status \<times> 'sc EventFactory" where
  "ef_addSubscription type_id subscription ef =
     (case getEventPublisher type_id ef of
        None \<Rightarrow> (failure ''Unknown event publisher'', ef)
      | Some publisher \<Rightarrow> (Status_code 0, set_pub type_id (pub_addSubscription subscription publisher) ef))"

definition numSubscriptions_type :: "string \<Rightarrow> 'sc EventFactory \<Rightarrow> nat" where
  "numSubscriptions_type type_id ef =
     (case getEventPublisher type_id ef of None \<Rightarrow> 0 | Some publisher \<Rightarrow> numSubscriptions_pub publisher)"

text \<open>\<open>EventSubscriber::subscribe\<close>: the count is of the subscriptions that were added.\<close>

definition subscribe ::
  "string \<Rightarrow> 'sc \<times> bool \<Rightarrow> event_subscriber \<times> 'sc EventFactory \<Rightarrow> event_subscriber \<times> 'sc EventFactory" where
  "subscribe name sub s_ef =
     (let (s, ef) = s_ef;
          (stat, ef1) = ef_addSubscription (evs_type s) (Subscription_create name (fst sub) (snd sub)) ef
      in (if ok stat then s\<lparr>evs_plugin := (evs_plugin s)\<lparr>subscription_count := subscription_count (evs_plugin s) + 1\<rparr>\<rparr> else s, ef1))"

definition removeSubscriptions :: "string \<Rightarrow> event_subscriber \<Rightarrow> 'sc EventFactory \<Rightarrow> event_subscriber \<times> 'sc EventFactory" where
  "removeSubscriptions name s ef =
     (s\<lparr>evs_plugin := (evs_plugin s)\<lparr>subscription_count := 0\<rparr>\<rparr>,
      case getEventPublisher (evs_type s) ef of
        None \<Rightarrow> ef
      | Some publisher \<Rightarrow> set_pub (evs_type s) (pub_removeSubscriptions name publisher) ef)"

section \<open>Registration of subscribers\<close>

text \<open>
  One list of the parser's data: the names are compared one by one, and every match sets the flag. The accessors
  of RapidJSON assert the kind of a value.\<close>

fun names_member :: "string \<Rightarrow> json list \<Rightarrow> bool throwing" where
  "names_member name [] = Inr False"
| "names_member name (JString s # js) = exn_bind (names_member name js) (\<lambda>b. Inr (c_str s = name \<or> b))"
| "names_member name (j # js) = Inl (undefined_behaviour ''GetString'')"

definition config_lists :: "string \<Rightarrow> members \<Rightarrow> string \<Rightarrow> bool throwing" where
  "config_lists key events name =
     (case FindMember events key of Some (JArray js) \<Rightarrow> names_member name js | _ \<Rightarrow> Inr False)"

definition subscriber_disabled :: "json option \<Rightarrow> string \<Rightarrow> bool \<Rightarrow> bool throwing" where
  "subscriber_disabled parser name disabled =
     (case parser of
        None \<Rightarrow> Inr disabled
      | Some (JObject data) \<Rightarrow>
          (case FindMember data ''events'' of
             Some (JObject events) \<Rightarrow>
               exn_bind (config_lists ''enable_subscribers'' events name) (\<lambda>enable.
               exn_bind (config_lists ''disable_subscribers'' events name) (\<lambda>disable.
                 Inr (disable \<or> (\<not> enable \<and> disabled))))
           | _ \<Rightarrow> Inl (undefined_behaviour ''HasMember''))
      | Some _ \<Rightarrow> Inl (undefined_behaviour ''operator[]''))"

text \<open>Initialization after \<open>setUp\<close> gave \<open>status\<close>: the subscriptions are made, or the subscriber is paused.\<close>

definition subscriber_init ::
  "('sc, 'ec) factory_env \<Rightarrow> string \<Rightarrow> Status \<Rightarrow> event_subscriber \<Rightarrow> 'sc EventFactory \<Rightarrow> Status \<times> event_subscriber \<times> 'sc EventFactory" where
  "subscriber_init e name status s ef =
     (if \<not> disable_events e \<and> \<not> evs_disabled s
      then let (subs, st) = fe_init e name; (s1, ef1) = fold (subscribe name) subs (s, called (Sub_init name) ef)
           in (st, s1\<lparr>evs_state := EVENT_RUNNING\<rparr>, ef1)
      else (status, s\<lparr>evs_state := EVENT_PAUSED\<rparr>, ef))"

definition subscriber_setup ::
  "('sc, 'ec) factory_env \<Rightarrow> string \<Rightarrow> bool \<Rightarrow> event_subscriber \<Rightarrow> 'sc EventFactory \<Rightarrow> Status \<times> 'sc EventFactory" where
  "subscriber_setup e name disabled s ef =
     (let ef1 = (if evs_state s \<noteq> EVENT_NONE then called (Sub_tearDown name) ef else ef);
          (status, plugin) = fe_setUp_sub e name (evs_plugin s);
          s1 = s\<lparr>evs_plugin := plugin, evs_disabled := (disabled \<or> \<not> ok status), evs_state := EVENT_SETUP\<rparr>;
          (status1, s2, ef2) = subscriber_init e name status s1 (called (Sub_setUp name) ef1)
      in if \<not> ok status1
         then (failure (st_message status1), set_sub name (s2\<lparr>evs_state := EVENT_FAILED\<rparr>) ef2)
         else (success, set_sub name s2 ef2))"

text \<open>\<open>sub\<close> is the plugin after the cast to a subscriber, which may fail.\<close>

definition registerEventSubscriber ::
  "('sc, 'ec) factory_env \<Rightarrow> string \<Rightarrow> event_subscriber option \<Rightarrow> 'sc EventFactory \<Rightarrow> (Status \<times> 'sc EventFactory) throwing" where
  "registerEventSubscriber e name sub ef =
     (case sub of
        None \<Rightarrow> Inr (failure (''Invalid subscriber type: '' @ name), ef)
      | Some s \<Rightarrow>
          if name = [] then Inr (failure ''Subscribers must have set a name'', ef)
          else exn_bind (subscriber_disabled (fe_parser e) name (evs_disabled s)) (\<lambda>disabled.
            Inr (subscriber_setup e name disabled s ef)))"

definition deregisterEventSubscriber :: "string \<Rightarrow> 'sc EventFactory \<Rightarrow> Status \<times> 'sc EventFactory" where
  "deregisterEventSubscriber sub ef =
     (case om_get (event_subs ef) sub of
        None \<Rightarrow> (failure ''Event subscriber is missing'', ef)
      | Some _ \<Rightarrow> (Status_code 0, called (Sub_tearDown sub) (ef\<lparr>event_subs := om_del sub (event_subs ef)\<rparr>)))"

section \<open>Registration of publishers\<close>

definition registerEventPublisher ::
  "('sc, 'ec) factory_env \<Rightarrow> string \<Rightarrow> 'sc EventPublisherPlugin option \<Rightarrow> 'sc EventFactory \<Rightarrow> Status \<times> 'sc EventFactory" where
  "registerEventPublisher e type_id pub ef =
     (case pub of
        None \<Rightarrow> (failure (''Invalid publisher type: '' @ type_id), ef)
      | Some p \<Rightarrow>
          if type_id = [] then (failure ''Publishers must have a type'', ef)
          else if om_get (event_pubs ef) type_id \<noteq> None then (failure ''Duplicate publisher type'', ef)
          else if disable_events e then (success, set_pub type_id p ef)
          else let ef1 = (if pub_state p \<noteq> EVENT_NONE then called (Pub_tearDown type_id) ef else ef);
                   status = fe_setUp_pub e type_id;
                   ef2 = called (Pub_setUp type_id) ef1;
                   p1 = p\<lparr>pub_state := EVENT_SETUP\<rparr>
               in if \<not> ok status then (status, set_pub type_id (p1\<lparr>pub_ending := True\<rparr>) ef2)
                  else (success, set_pub type_id p1 ef2))"

definition deregisterEventPublisher :: "('sc, 'ec) factory_env \<Rightarrow> string \<Rightarrow> 'sc EventFactory \<Rightarrow> Status \<times> 'sc EventFactory" where
  "deregisterEventPublisher e type_id ef =
     (case getEventPublisher type_id ef of
        None \<Rightarrow> (failure ''No event publisher to deregister'', ef)
      | Some publisher \<Rightarrow>
          (success,
           if disable_events e then ef
           else if \<not> pub_started publisher
           then called (Pub_tearDown type_id) (ef\<lparr>event_pubs := om_del type_id (event_pubs ef)\<rparr>)
           else called (Pub_stop type_id) (set_pub type_id (publisher\<lparr>pub_ending := True\<rparr>) ef)))"

section \<open>Firing events\<close>

text \<open>What \<open>fire\<close> fills in: the identifier, and the time unless the event has one.\<close>

definition fill_context :: "u64 \<Rightarrow> u64 \<Rightarrow> u64 \<Rightarrow> 'ec EventContext \<Rightarrow> 'ec EventContext" where
  "fill_context now i time ec =
     ec\<lparr>ec_id := i, ec_time := (if ec_time ec = 0 then (if time = 0 then now else time) else ec_time ec)\<rparr>"

definition fireCallback :: "('sc, 'ec) factory_env \<Rightarrow> string \<Rightarrow> 'sc Subscription \<Rightarrow> 'ec EventContext option \<Rightarrow> bool" where
  "fireCallback e type_id sub ec \<longleftrightarrow> fe_shouldFire e type_id (sub_context sub) ec \<and> sub_callback sub"

definition subscriber_running :: "string \<Rightarrow> 'sc EventFactory \<Rightarrow> bool" where
  "subscriber_running name ef \<longleftrightarrow>
     (case getEventSubscriber name ef of None \<Rightarrow> False | Some es \<Rightarrow> evs_state es = EVENT_RUNNING)"

text \<open>
  The callbacks that are called, in order, with the event they get. The event may be a null pointer, which is
  passed on as it is.\<close>

definition fire ::
  "('sc, 'ec) factory_env \<Rightarrow> u64 \<Rightarrow> string \<Rightarrow> 'ec EventContext option \<Rightarrow> u64 \<Rightarrow> 'sc EventFactory
   \<Rightarrow> ('sc Subscription \<times> 'ec EventContext option) list \<times> 'sc EventFactory" where
  "fire e now type_id ec time ef =
     (case getEventPublisher type_id ef of
        None \<Rightarrow> ([], ef)
      | Some p \<Rightarrow>
          if pub_ending p then ([], ef)
          else let ec1 = map_option (fill_context now (next_ec_id p) time) ec
               in (map (\<lambda>s. (s, ec1))
                     (filter (\<lambda>s. subscriber_running (subscriber_name s) ef \<and> fireCallback e type_id s ec1) (subscriptions p)),
                   set_pub type_id (p\<lparr>next_ec_id := next_ec_id p + 1\<rparr>) ef))"

definition addForwarder :: "string \<Rightarrow> 'sc EventFactory \<Rightarrow> 'sc EventFactory" where
  "addForwarder logger ef = ef\<lparr>ef_loggers := ef_loggers ef @ [logger]\<rparr>"

definition forwardEvent :: "string \<Rightarrow> 'sc EventFactory \<Rightarrow> 'sc EventFactory" where
  "forwardEvent event ef = fold (\<lambda>logger. called (Log_event logger event)) (ef_loggers ef) ef"

section \<open>The threads of publishers\<close>

text \<open>
  The loop of a publisher's thread. \<open>ends n\<close> says whether another thread has ended the publisher before turn \<open>n\<close>,
  and \<open>fe_run\<close> how turn \<open>n\<close> ends; the loop may go on for ever, so it has fuel.\<close>

fun run_loop ::
  "('sc, 'ec) factory_env \<Rightarrow> string \<Rightarrow> (nat \<Rightarrow> bool) \<Rightarrow> nat \<Rightarrow> nat \<Rightarrow> u64 \<Rightarrow> (Status \<times> nat \<times> u64) option" where
  "run_loop e type_id ends 0 n restarts = None"
| "run_loop e type_id ends (Suc fuel) n restarts =
     (if ends n then Some (Status_msg 0 ''OK'', n, restarts)
      else let status = fe_run e type_id n
           in if \<not> ok status then Some (status, Suc n, restarts) else run_loop e type_id ends fuel (Suc n) (restarts + 1))"

definition pub_start :: "string \<Rightarrow> 'sc EventPublisherPlugin \<Rightarrow> 'sc EventFactory \<Rightarrow> 'sc EventFactory" where
  "pub_start type_id p ef = set_pub type_id (p\<lparr>pub_started := True, pub_state := EVENT_RUNNING\<rparr>) ef"

definition pub_finish :: "string \<Rightarrow> 'sc EventPublisherPlugin \<Rightarrow> 'sc EventFactory \<Rightarrow> 'sc EventFactory" where
  "pub_finish type_id p ef = called (Pub_tearDown type_id) (set_pub type_id (p\<lparr>pub_state := EVENT_NONE\<rparr>) ef)"

definition pub_run ::
  "('sc, 'ec) factory_env \<Rightarrow> nat \<Rightarrow> (nat \<Rightarrow> bool) \<Rightarrow> string \<Rightarrow> 'sc EventFactory \<Rightarrow> (Status \<times> 'sc EventFactory) option" where
  "pub_run e fuel ends type_id ef =
     (if disable_events e then Some (success, ef)
      else case getEventPublisher type_id ef of
        None \<Rightarrow> Some (failure ''Event publisher is missing'', ef)
      | Some p \<Rightarrow>
          if pub_started p then Some (failure ''Cannot restart an event publisher'', ef)
          else let p1 = p\<lparr>pub_started := True, pub_state := EVENT_RUNNING\<rparr>
               in case run_loop e type_id (\<lambda>n. pub_ending p1 \<or> ends n) fuel 0 (restart_count p1) of
            None \<Rightarrow> None
          | Some (status, turns, restarts) \<Rightarrow>
              Some (success, pub_finish type_id (p1\<lparr>restart_count := restarts\<rparr>)
                (fold called (replicate turns (Pub_run type_id)) (pub_start type_id p ef))))"

definition ef_delay :: "('sc, 'ec) factory_env \<Rightarrow> 'sc EventFactory \<Rightarrow> 'sc EventFactory" where
  "ef_delay e ef =
     (if disable_events e then ef
      else ef\<lparr>ef_threads := ef_threads ef @ map fst (filter (\<lambda>(_, p). \<not> pub_ending p) (event_pubs ef))\<rparr>)"

definition ef_end :: "('sc, 'ec) factory_env \<Rightarrow> 'sc EventFactory \<Rightarrow> 'sc EventFactory" where
  "ef_end e ef =
     (let ef1 = fold (\<lambda>type_id ef. snd (deregisterEventPublisher e type_id ef)) (publisherTypes ef) ef
      in ef1\<lparr>ef_threads := (if disable_events e then ef_threads ef1 else []), event_pubs := [], event_subs := []\<rparr>)"

section \<open>Updates of the configuration\<close>

record SubscriberExpirationDetails =
  max_interval :: u64
  details_count :: u64

definition add_query :: "u64 \<Rightarrow> SubscriberExpirationDetails option \<Rightarrow> SubscriberExpirationDetails" where
  "add_query interval d =
     (let details = (case d of Some x \<Rightarrow> x | None \<Rightarrow> \<lparr>max_interval = 0, details_count = 0\<rparr>)
      in details\<lparr>max_interval := (if interval > max_interval details then interval else max_interval details),
                 details_count := details_count details + 1\<rparr>)"

text \<open>The callback for one scheduled query: the subscribers among its tables, each once.\<close>

definition scan_query ::
  "'d config_env \<Rightarrow> ('sc, 'ec) factory_env \<Rightarrow> ScheduledQuery \<Rightarrow> (string, SubscriberExpirationDetails) omap
   \<Rightarrow> (string, SubscriberExpirationDetails) omap" where
  "scan_query ce e query subscriber_details =
     (let subscribers = remdups (filter (\<lambda>t. t \<in> set (fe_subscriber_plugins e)) (ce_query_tables ce (sq_query query)))
      in fold (\<lambda>s ds. om_set s (add_query (sq_interval query) (om_get ds s)) ds) subscribers subscriber_details)"

definition min_expiry_for :: "SubscriberExpirationDetails \<Rightarrow> u64" where
  "min_expiry_for details = (let m = max_interval details * 3 in m + (60 - m mod 60))"

definition apply_details :: "string \<times> SubscriberExpirationDetails \<Rightarrow> 'sc EventFactory \<Rightarrow> 'sc EventFactory" where
  "apply_details nd ef =
     (case getEventSubscriber (fst nd) ef of
        None \<Rightarrow> ef
      | Some s \<Rightarrow> set_sub (fst nd)
          (s\<lparr>evs_plugin := resetQueryCount (details_count (snd nd)) (setMinExpiry (min_expiry_for (snd nd)) (evs_plugin s))\<rparr>) ef)"

definition configUpdate ::
  "'d config_env \<Rightarrow> ('sc, 'ec) factory_env \<Rightarrow> u64 \<Rightarrow> Schedule \<times> 'd db_process \<Rightarrow> 'sc EventFactory
   \<Rightarrow> (Schedule \<times> 'd db_process \<times> 'sc EventFactory) throwing" where
  "configUpdate ce e now sp ef =
     exn_bind (scheduledQueries ce now (\<lambda>name query (p, ds). Inr (p, scan_query ce e query ds)) (\<lambda>_. False) False (fst sp, snd sp, []))
       (\<lambda>(s, p, subscriber_details).
          let ef1 = fold apply_details subscriber_details ef
          in Inr (s, p, if disable_events e then ef1 else called (Configure ''event_publisher'') (called (Configure ''event_subscriber'') ef1)))"

section \<open>Attaching events\<close>

text \<open>
  The plugins of both registries in their order. The status of a registration is only logged; a subscriber whose
  name lacks the suffix is skipped.
\<close>

fun attach_subscribers ::
  "('sc, 'ec) factory_env \<Rightarrow> (string \<times> event_subscriber option) list \<Rightarrow> 'sc EventFactory \<Rightarrow> 'sc EventFactory throwing" where
  "attach_subscribers e [] ef = Inr ef"
| "attach_subscribers e ((name, sub) # subs) ef =
     (if \<not> fe_ends_with e name ''_events'' then attach_subscribers e subs ef
      else exn_bind (registerEventSubscriber e name sub ef) (\<lambda>(status, ef1). attach_subscribers e subs ef1))"

definition attachEvents ::
  "'d config_env \<Rightarrow> ('sc, 'ec) factory_env \<Rightarrow> u64 \<Rightarrow> (string \<times> 'sc EventPublisherPlugin option) list
   \<Rightarrow> (string \<times> event_subscriber option) list \<Rightarrow> Schedule \<times> 'd db_process \<Rightarrow> 'sc EventFactory
   \<Rightarrow> (Schedule \<times> 'd db_process \<times> 'sc EventFactory) throwing" where
  "attachEvents ce e now publishers subscribers sp ef =
     exn_bind (attach_subscribers e subscribers (fold (\<lambda>(type_id, p) ef. snd (registerEventPublisher e type_id p ef)) publishers ef))
       (\<lambda>ef1. configUpdate ce e now sp ef1)"

end
