(* ===== verification/EventPublishersSafety.thy ===== *)
theory EventPublishersSafety
  imports EventPublishers EventsSafety ConfigSafety
begin

text \<open>
  Properties of the factory of events: who gets an event, what an update of the configuration sets, how the
  threads of publishers end.
\<close>

section \<open>Steps of the factory\<close>

text \<open>
  What the threads of the process do to the factory, one operation at a time, with the callbacks that are called.
  Publishers are registered before their loop has started.
\<close>

inductive factory_step ::
  "('sc, 'ec) factory_env \<Rightarrow> 'sc EventFactory \<Rightarrow> ('sc Subscription \<times> 'ec EventContext option) list \<Rightarrow> 'sc EventFactory \<Rightarrow> bool"
  for e :: "('sc, 'ec) factory_env"
where
  register_sub: "registerEventSubscriber e name sub ef = Inr (st, ef') \<Longrightarrow> factory_step e ef [] ef'"
| deregister_sub: "deregisterEventSubscriber name ef = (st, ef') \<Longrightarrow> factory_step e ef [] ef'"
| register_pub: "\<not> pub_started p \<Longrightarrow> registerEventPublisher e type_id (Some p) ef = (st, ef') \<Longrightarrow> factory_step e ef [] ef'"
| deregister_pub: "deregisterEventPublisher e type_id ef = (st, ef') \<Longrightarrow> factory_step e ef [] ef'"
| add_subscription: "ef_addSubscription type_id s ef = (st, ef') \<Longrightarrow> factory_step e ef [] ef'"
| drop_subscriptions: "om_get (event_subs ef) name = Some s \<Longrightarrow> removeSubscriptions name s ef = (s', ef') \<Longrightarrow>
    factory_step e ef [] (set_sub name s' ef')"
| fired: "fire e now type_id ec time ef = (out, ef') \<Longrightarrow> factory_step e ef out ef'"
| thread_starts: "\<not> disable_events e \<Longrightarrow> getEventPublisher type_id ef = Some p \<Longrightarrow> \<not> pub_started p \<Longrightarrow>
    factory_step e ef [] (pub_start type_id p ef)"
| thread_ends: "getEventPublisher type_id ef = Some p \<Longrightarrow> pub_state p = EVENT_RUNNING \<Longrightarrow>
    factory_step e ef [] (pub_finish type_id p ef)"
| details_applied: "factory_step e ef [] (fold apply_details ds ef)"
| configured: "factory_step e ef [] (called (Configure registry) ef)"
| delayed: "factory_step e ef [] (ef_delay e ef)"
| ended: "factory_step e ef [] (ef_end e ef)"

inductive factory_reach :: "('sc, 'ec) factory_env \<Rightarrow> 'sc EventFactory \<Rightarrow> bool" for e :: "('sc, 'ec) factory_env"
where
  reach_new: "factory_reach e EventFactory_new"
| reach_step: "factory_reach e ef \<Longrightarrow> factory_step e ef out ef' \<Longrightarrow> factory_reach e ef'"

text \<open>
  Subscribers of the factory are past their set-up, and those that run are not disabled. A publisher runs exactly
  while its thread does, and none runs or has started when events are disabled.
\<close>

definition sub_ok :: "('sc, 'ec) factory_env \<Rightarrow> event_subscriber \<Rightarrow> bool" where
  "sub_ok e s \<longleftrightarrow> evs_state s \<in> {EVENT_RUNNING, EVENT_PAUSED, EVENT_FAILED} \<and>
     (evs_state s = EVENT_RUNNING \<longrightarrow> \<not> evs_disabled s \<and> \<not> disable_events e)"

definition pub_ok :: "('sc, 'ec) factory_env \<Rightarrow> 'sc EventPublisherPlugin \<Rightarrow> bool" where
  "pub_ok e p \<longleftrightarrow> pub_started p \<longrightarrow> \<not> disable_events e \<and> pub_state p \<in> {EVENT_RUNNING, EVENT_NONE}"

definition factory_ok :: "('sc, 'ec) factory_env \<Rightarrow> 'sc EventFactory \<Rightarrow> bool" where
  "factory_ok e ef \<longleftrightarrow> om_wf (event_pubs ef) \<and> om_wf (event_subs ef) \<and>
     (\<forall>n s. om_get (event_subs ef) n = Some s \<longrightarrow> sub_ok e s) \<and> (\<forall>t p. om_get (event_pubs ef) t = Some p \<longrightarrow> pub_ok e p)"

lemma called_simps [simp]:
  "event_pubs (called c ef) = event_pubs ef" "event_subs (called c ef) = event_subs ef"
  by (simp_all add: called_def)

lemma fold_called_simps [simp]:
  "event_pubs (fold called cs ef) = event_pubs ef" "event_subs (fold called cs ef) = event_subs ef"
  by (induction cs arbitrary: ef) simp_all

lemma factory_ok_set_pub: "factory_ok e ef \<Longrightarrow> pub_ok e p \<Longrightarrow> factory_ok e (set_pub t p ef)"
  by (auto simp: factory_ok_def set_pub_def)

lemma factory_ok_set_sub: "factory_ok e ef \<Longrightarrow> sub_ok e s \<Longrightarrow> factory_ok e (set_sub n s ef)"
  by (auto simp: factory_ok_def set_sub_def)

lemma factory_ok_called [simp]: "factory_ok e (called c ef) \<longleftrightarrow> factory_ok e ef"
  by (simp add: factory_ok_def)

lemma factory_ok_pub: "factory_ok e ef \<Longrightarrow> getEventPublisher t ef = Some p \<Longrightarrow> pub_ok e p"
  by (auto simp: factory_ok_def getEventPublisher_def)

lemma addSubscription_ok: "factory_ok e ef \<Longrightarrow> factory_ok e (snd (ef_addSubscription t s ef))"
  using factory_ok_pub [of e ef t]
  by (auto simp: ef_addSubscription_def pub_addSubscription_def pub_ok_def intro!: factory_ok_set_pub split: option.splits)

lemma subscribe_state: "evs_state (fst (subscribe n x (s, ef))) = evs_state s" "evs_disabled (fst (subscribe n x (s, ef))) = evs_disabled s"
  "evs_type (fst (subscribe n x (s, ef))) = evs_type s"
  by (simp_all add: subscribe_def case_prod_unfold Let_def)

lemma fold_subscribe_ok:
  "factory_ok e ef \<Longrightarrow> fold (subscribe n) xs (s, ef) = (s', ef') \<Longrightarrow> factory_ok e ef' \<and> evs_disabled s' = evs_disabled s"
proof (induction xs arbitrary: s ef)
  case (Cons x xs)
  obtain s1 ef1 where 1: "subscribe n x (s, ef) = (s1, ef1)" by fastforce
  have "factory_ok e ef1"
    using addSubscription_ok [OF Cons.prems(1)] 1 by (auto simp: subscribe_def case_prod_unfold Let_def)
  then show ?case using Cons.IH [of ef1 s1] Cons.prems(2) subscribe_state(2) [of n x s ef] 1 by simp
qed simp

lemma subscriber_init_ok:
  assumes "factory_ok e ef" "subscriber_init e n st s ef = (st', s', ef')"
  shows "factory_ok e ef' \<and> sub_ok e s'"
proof (cases "\<not> disable_events e \<and> \<not> evs_disabled s")
  case True
  obtain subs st1 where i: "fe_init e n = (subs, st1)" by fastforce
  obtain s1 ef1 where f: "fold (subscribe n) subs (s, called (Sub_init n) ef) = (s1, ef1)" by fastforce
  have "factory_ok e ef1 \<and> evs_disabled s1 = evs_disabled s" using fold_subscribe_ok [OF _ f] assms(1) by simp
  then show ?thesis using assms(2) True i f by (auto simp: subscriber_init_def sub_ok_def)
next
  case False
  then show ?thesis using assms by (auto simp: subscriber_init_def sub_ok_def)
qed

lemma register_sub_ok:
  assumes "factory_ok e ef" "registerEventSubscriber e n sub ef = Inr (st, ef')"
  shows "factory_ok e ef'"
proof -
  have kept: "factory_ok e (snd (subscriber_setup e n disabled s ef))" for disabled s
  proof -
    define ef1 where "ef1 = (if evs_state s \<noteq> EVENT_NONE then called (Sub_tearDown n) ef else ef)"
    obtain st1 plugin where p: "fe_setUp_sub e n (evs_plugin s) = (st1, plugin)" by fastforce
    define s1 where "s1 = s\<lparr>evs_plugin := plugin, evs_disabled := (disabled \<or> \<not> ok st1), evs_state := EVENT_SETUP\<rparr>"
    obtain st2 s2 ef2 where i: "subscriber_init e n st1 s1 (called (Sub_setUp n) ef1) = (st2, s2, ef2)" by (cases "subscriber_init e n st1 s1 (called (Sub_setUp n) ef1)")
    have "factory_ok e ef2 \<and> sub_ok e s2" using subscriber_init_ok [OF _ i] assms(1) by (simp add: ef1_def)
    moreover have "sub_ok e (s2\<lparr>evs_state := EVENT_FAILED\<rparr>)" by (simp add: sub_ok_def)
    ultimately show ?thesis using p i by (simp add: subscriber_setup_def factory_ok_set_sub flip: ef1_def s1_def)
  qed
  then show ?thesis using assms
    by (auto simp: registerEventSubscriber_def exn_bind_Inr_iff split: option.splits if_splits) (metis snd_conv)
qed

lemma factory_ok_del_pub: "factory_ok e ef \<Longrightarrow> factory_ok e (ef\<lparr>event_pubs := om_del t (event_pubs ef)\<rparr>)"
  by (auto simp: factory_ok_def split: if_splits)

lemma factory_ok_del_sub: "factory_ok e ef \<Longrightarrow> factory_ok e (ef\<lparr>event_subs := om_del n (event_subs ef)\<rparr>)"
  by (auto simp: factory_ok_def split: if_splits)

lemma deregister_pub_ok: "factory_ok e ef \<Longrightarrow> factory_ok e (snd (deregisterEventPublisher e t ef))"
  using factory_ok_pub [of e ef t]
  by (auto simp: deregisterEventPublisher_def pub_ok_def intro!: factory_ok_set_pub factory_ok_del_pub split: option.splits if_splits)

lemma factory_ok_sub: "factory_ok e ef \<Longrightarrow> om_get (event_subs ef) n = Some s \<Longrightarrow> sub_ok e s"
  by (simp add: factory_ok_def)

lemma getEventSubscriber_get [simp]: "getEventSubscriber n ef = om_get (event_subs ef) n"
  by (auto simp: getEventSubscriber_def ef_exists_def)

lemma apply_details_ok: "factory_ok e ef \<Longrightarrow> factory_ok e (apply_details d ef)"
  using factory_ok_sub [of e ef "fst d"]
  by (auto simp: apply_details_def sub_ok_def intro!: factory_ok_set_sub split: option.splits)

lemma fold_keeps: "(\<And>x s. P s \<Longrightarrow> P (f x s)) \<Longrightarrow> P s \<Longrightarrow> P (fold f xs s)"
  by (induction xs arbitrary: s) auto

lemma fire_deliveries:
  assumes "fire e now t ec time ef = (out, ef')" "(s, x) \<in> set out"
  obtains p where "getEventPublisher t ef = Some p" "\<not> pub_ending p" "s \<in> set (subscriptions p)" "subscriber_running (subscriber_name s) ef"
  using assms by (auto simp: fire_def Let_def split: option.splits if_splits)

lemma fire_ok: "factory_ok e ef \<Longrightarrow> fire e now t ec time ef = (out, ef') \<Longrightarrow> factory_ok e ef'"
  using factory_ok_pub [of e ef t]
  by (auto simp: fire_def Let_def pub_ok_def intro!: factory_ok_set_pub split: option.splits if_splits)

lemma register_pub_ok:
  "factory_ok e ef \<Longrightarrow> \<not> pub_started p \<Longrightarrow> factory_ok e (snd (registerEventPublisher e t (Some p) ef))"
  by (auto simp: registerEventPublisher_def Let_def pub_ok_def intro!: factory_ok_set_pub)

lemma removeSubscriptions_ok:
  "factory_ok e ef \<Longrightarrow> om_get (event_subs ef) n = Some s \<Longrightarrow> removeSubscriptions n s ef = (s', ef') \<Longrightarrow> factory_ok e (set_sub n s' ef')"
  using factory_ok_pub [of e ef "evs_type s"] factory_ok_sub [of e ef n s]
  by (auto simp: removeSubscriptions_def pub_removeSubscriptions_def pub_ok_def sub_ok_def
      intro!: factory_ok_set_sub factory_ok_set_pub split: option.splits)

lemma factory_step_ok: "factory_step e ef out ef' \<Longrightarrow> factory_ok e ef \<Longrightarrow> factory_ok e ef'"
proof (induction rule: factory_step.induct)
  case (register_sub name sub ef st ef')
  then show ?case by (blast intro: register_sub_ok)
next
  case (deregister_sub name ef st ef')
  then show ?case by (auto simp: deregisterEventSubscriber_def intro: factory_ok_del_sub split: option.splits)
next
  case (register_pub p type_id ef st ef')
  then show ?case by (metis register_pub_ok snd_conv)
next
  case (deregister_pub type_id ef st ef')
  then show ?case by (metis deregister_pub_ok snd_conv)
next
  case (add_subscription type_id s ef st ef')
  then show ?case by (metis addSubscription_ok snd_conv)
next
  case (drop_subscriptions ef name s s' ef')
  then show ?case by (blast intro: removeSubscriptions_ok)
next
  case (fired now type_id ec time ef out ef')
  then show ?case by (blast intro: fire_ok)
next
  case (thread_starts type_id ef p)
  then show ?case by (auto simp: pub_start_def pub_ok_def intro: factory_ok_set_pub)
next
  case (thread_ends type_id ef p)
  then show ?case using factory_ok_pub [of e ef type_id p] by (auto simp: pub_finish_def pub_ok_def intro!: factory_ok_set_pub)
next
  case (details_applied ef ds)
  then show ?case using fold_keeps [of "factory_ok e" apply_details ef ds] by (blast intro: apply_details_ok)
next
  case (configured ef registry)
  then show ?case by simp
next
  case (delayed ef)
  then show ?case by (simp add: ef_delay_def factory_ok_def)
next
  case (ended ef)
  then show ?case by (simp add: ef_end_def Let_def factory_ok_def om_wf_def)
qed

lemma factory_reach_ok: "factory_reach e ef \<Longrightarrow> factory_ok e ef"
proof (induction rule: factory_reach.induct)
  case reach_new
  show ?case by (simp add: EventFactory_new_def factory_ok_def om_wf_def)
qed (rule factory_step_ok)

text \<open>
  C28. In every state that registrations, removals, configuration updates, running threads and fired events can lead
  to, an event is passed only to callbacks of subscribers that are registered, running and not disabled, in the
  order of the subscriptions; a publisher that is ending passes on nothing, and nothing at all is passed on when
  events are disabled.
\<close>

theorem events_reach_only_running:
  assumes "factory_reach e ef" "fire e now type_id ec time ef = (out, ef')"
  shows "(\<forall>(s, x) \<in> set out. \<exists>p es. om_get (event_pubs ef) type_id = Some p \<and> \<not> pub_ending p \<and> s \<in> set (subscriptions p) \<and>
      om_get (event_subs ef) (subscriber_name s) = Some es \<and> evs_state es = EVENT_RUNNING \<and> \<not> evs_disabled es) \<and>
    (disable_events e \<longrightarrow> out = [])"
proof -
  have ok: "factory_ok e ef" by (rule factory_reach_ok [OF assms(1)])
  have run: "\<exists>p es. om_get (event_pubs ef) type_id = Some p \<and> \<not> pub_ending p \<and> s \<in> set (subscriptions p) \<and>
      om_get (event_subs ef) (subscriber_name s) = Some es \<and> evs_state es = EVENT_RUNNING \<and> \<not> evs_disabled es \<and> \<not> disable_events e"
    if sx: "(s, x) \<in> set out" for s x
  proof -
    obtain p where p: "getEventPublisher type_id ef = Some p" "\<not> pub_ending p" "s \<in> set (subscriptions p)" "subscriber_running (subscriber_name s) ef"
      by (rule fire_deliveries [OF assms(2) sx])
    then obtain es where es: "om_get (event_subs ef) (subscriber_name s) = Some es" "evs_state es = EVENT_RUNNING"
      by (auto simp: subscriber_running_def split: option.splits)
    then have "\<not> evs_disabled es \<and> \<not> disable_events e" using factory_ok_sub [OF ok es(1)] by (simp add: sub_ok_def)
    then show ?thesis using p es by (simp add: getEventPublisher_def)
  qed
  have "out = []" if "disable_events e" using run that by (cases out) fastforce+
  then show ?thesis using run by fastforce
qed

section \<open>A registered subscriber gets its events\<close>

lemma fold_subscribe_pub:
  assumes "om_wf (event_pubs ef)" "getEventPublisher (evs_type s) ef = Some p" "fold (subscribe n) xs (s, ef) = (s', ef')"
  shows "getEventPublisher (evs_type s) ef' = Some (p\<lparr>subscriptions := subscriptions p @ map (\<lambda>(c, b). Subscription_create n c b) xs\<rparr>) \<and>
    event_subs ef' = event_subs ef \<and>
    subscription_count (evs_plugin s') = subscription_count (evs_plugin s) + of_nat (length xs)"
  using assms
proof (induction xs arbitrary: s ef p)
  case (Cons x xs)
  let ?p = "p\<lparr>subscriptions := subscriptions p @ [Subscription_create n (fst x) (snd x)]\<rparr>"
  let ?s = "s\<lparr>evs_plugin := (evs_plugin s)\<lparr>subscription_count := subscription_count (evs_plugin s) + 1\<rparr>\<rparr>"
  have step: "subscribe n x (s, ef) = (?s, set_pub (evs_type s) ?p ef)"
    using Cons.prems(2) by (simp add: subscribe_def ef_addSubscription_def pub_addSubscription_def)
  have get: "getEventPublisher (evs_type ?s) (set_pub (evs_type s) ?p ef) = Some ?p" "om_wf (event_pubs (set_pub (evs_type s) ?p ef))"
    using Cons.prems(1) by (simp_all add: getEventPublisher_def set_pub_def)
  show ?case using Cons.IH [OF get(2,1)] Cons.prems(3) by (simp add: step case_prod_unfold set_pub_def)
qed simp

text \<open>
  A subscriber whose registration succeeds while it is enabled gets, from the next event of its publisher on, one
  call for each subscription that its initialization made and that is for the event, in their order, after the calls
  for subscriptions it had before; and the subscriptions made are counted.
\<close>

theorem registered_subscriber_served:
  assumes "factory_reach e ef" "registerEventSubscriber e name (Some s) ef = Inr (st, ef1)" "ok st"
    and "\<not> disable_events e" "subscriber_disabled (fe_parser e) name (evs_disabled s) = Inr False" "ok (fst (fe_setUp_sub e name (evs_plugin s)))"
    and "getEventPublisher (evs_type s) ef = Some p" "\<not> pub_ending p" "fe_init e name = (subs, st')" "ok st'"
    and "fire e now (evs_type s) ec time ef1 = (out, ef2)"
  defines "ec1 \<equiv> map_option (fill_context now (next_ec_id p) time) ec"
  shows "filter (\<lambda>(x, _). subscriber_name x = name) out =
      map (\<lambda>x. (x, ec1)) (filter (\<lambda>x. fireCallback e (evs_type s) x ec1)
        (filter (\<lambda>x. subscriber_name x = name) (subscriptions p) @ map (\<lambda>(c, b). Subscription_create name c b) subs)) \<and>
    (\<exists>es. om_get (event_subs ef1) name = Some es \<and>
      subscription_count (evs_plugin es) = subscription_count (snd (fe_setUp_sub e name (evs_plugin s))) + of_nat (length subs))"
proof -
  have name: "name \<noteq> []" using assms(2,3) by (auto simp: registerEventSubscriber_def)
  obtain st1 plugin where p1: "fe_setUp_sub e name (evs_plugin s) = (st1, plugin)" by fastforce
  define ef0 where "ef0 = called (Sub_init name) (called (Sub_setUp name) (if evs_state s \<noteq> EVENT_NONE then called (Sub_tearDown name) ef else ef))"
  define s1 where "s1 = s\<lparr>evs_plugin := plugin, evs_disabled := False, evs_state := EVENT_SETUP\<rparr>"
  obtain s2 ef3 where f: "fold (subscribe name) subs (s1, ef0) = (s2, ef3)" by fastforce
  have ef1: "ef1 = set_sub name (s2\<lparr>evs_state := EVENT_RUNNING\<rparr>) ef3"
    using assms(2-6,9,10) name p1 f
    by (simp add: registerEventSubscriber_def subscriber_setup_def subscriber_init_def s1_def ef0_def Let_def split: if_splits)
  have wf: "om_wf (event_pubs ef0)" "getEventPublisher (evs_type s1) ef0 = Some p" "om_wf (event_subs ef0)"
    using factory_reach_ok [OF assms(1)] assms(7) by (simp_all add: factory_ok_def ef0_def getEventPublisher_def s1_def)
  let ?p = "p\<lparr>subscriptions := subscriptions p @ map (\<lambda>(c, b). Subscription_create name c b) subs\<rparr>"
  have p: "getEventPublisher (evs_type s) ef1 = Some ?p" "om_get (event_subs ef1) name = Some (s2\<lparr>evs_state := EVENT_RUNNING\<rparr>)"
    "subscription_count (evs_plugin s2) = subscription_count plugin + of_nat (length subs)"
    using fold_subscribe_pub [OF wf(1,2) f] wf(3) by (simp_all add: ef1 set_sub_def getEventPublisher_def s1_def)
  have run: "subscriber_running name ef1" by (simp add: subscriber_running_def p(2))
  have out: "out = map (\<lambda>x. (x, ec1)) (filter (\<lambda>x. subscriber_running (subscriber_name x) ef1 \<and> fireCallback e (evs_type s) x ec1)
      (subscriptions p @ map (\<lambda>(c, b). Subscription_create name c b) subs))"
    using assms(8,11) p(1) by (simp add: fire_def Let_def ec1_def)
  have select: "filter (\<lambda>(x, _). subscriber_name x = name) (map (\<lambda>x. (x, ec1)) (filter (\<lambda>x. R (subscriber_name x) \<and> F x) xs)) =
      map (\<lambda>x. (x, ec1)) (filter F (filter (\<lambda>x. subscriber_name x = name) xs))" if "R name" for R F xs
    using that by (induction xs) auto
  have new: "filter (\<lambda>x. subscriber_name x = name) (map (\<lambda>(c, b). Subscription_create name c b) subs) =
      map (\<lambda>(c, b). Subscription_create name c b) subs"
    by (induction subs) (auto simp: Subscription_create_def)
  have "filter (\<lambda>(x, _). subscriber_name x = name) out = map (\<lambda>x. (x, ec1)) (filter (\<lambda>x. fireCallback e (evs_type s) x ec1)
      (filter (\<lambda>x. subscriber_name x = name) (subscriptions p @ map (\<lambda>(c, b). Subscription_create name c b) subs)))"
    unfolding out by (rule select [of "\<lambda>n. subscriber_running n ef1", OF run])
  then show ?thesis using p(2,3) p1 unfolding filter_append [of "\<lambda>x. subscriber_name x = name"] new by simp
qed

section \<open>Updates of the configuration\<close>

text \<open>The queries that an iteration over the schedule visits.\<close>

definition visited_queries ::
  "'d config_env \<Rightarrow> u64 \<Rightarrow> Schedule \<times> 'd db_process \<Rightarrow> (Schedule \<times> 'd db_process \<times> ScheduledQuery list) throwing" where
  "visited_queries ce now sp =
     scheduledQueries ce now (\<lambda>name query (p, qs). Inr (p, qs @ [query])) (\<lambda>_. False) False (fst sp, snd sp, [])"

lemma pack_visits:
  "pack_scheduledQueries ce now (\<lambda>n q (p, x). Inr (p, f q x)) (\<lambda>_. False) d pk qs (s, p, x) = Inr (qs', s', p', x') \<Longrightarrow>
   \<exists>vs. pack_scheduledQueries ce now (\<lambda>n q (p, x). Inr (p, x @ [q])) (\<lambda>_. False) d pk qs (s, p, l) = Inr (qs', s', p', l @ vs) \<and> x' = fold f vs x"
proof (induction qs arbitrary: s p x l qs' s' p' x')
  case (Cons q qs)
  let ?n = "getQueryName (ce_delimiter ce) pk (sq_name q)"
  obtain skip q1 s1 p1 where deny: "deny_query ce now d ?n q (s, p) = Inr (skip, q1, s1, p1)"
    using Cons.prems by (auto simp: Let_def exn_bind_Inr_iff)
  show ?case
  proof (cases skip)
    case True
    then obtain qs1 where r: "pack_scheduledQueries ce now (\<lambda>n q (p, x). Inr (p, f q x)) (\<lambda>_. False) d pk qs (s1, p1, x) = Inr (qs1, s', p', x')" "qs' = q1 # qs1"
      using Cons.prems deny by (auto simp: Let_def exn_bind_Inr_iff)
    then show ?thesis using Cons.IH [OF r(1), of l] deny True by (auto simp: Let_def)
  next
    case False
    then obtain qs1 where r: "pack_scheduledQueries ce now (\<lambda>n q (p, x). Inr (p, f q x)) (\<lambda>_. False) d pk qs (s1, p1, f q1 x) = Inr (qs1, s', p', x')" "qs' = q1 # qs1"
      using Cons.prems deny by (auto simp: Let_def exn_bind_Inr_iff)
    obtain vs where "pack_scheduledQueries ce now (\<lambda>n q (p, x). Inr (p, x @ [q])) (\<lambda>_. False) d pk qs (s1, p1, l @ [q1]) = Inr (qs1, s', p', (l @ [q1]) @ vs)"
      "x' = fold f vs (f q1 x)"
      using Cons.IH [OF r(1), of "l @ [q1]"] by blast
    then show ?thesis using deny False r(2) by (intro exI [of _ "q1 # vs"]) (simp add: Let_def)
  qed
qed simp

lemma packs_visit:
  "packs_scheduledQueries ce now (\<lambda>n q (p, x). Inr (p, f q x)) (\<lambda>_. False) d pks (s, p, x) = Inr (pks', s', p', x') \<Longrightarrow>
   \<exists>vs. packs_scheduledQueries ce now (\<lambda>n q (p, x). Inr (p, x @ [q])) (\<lambda>_. False) d pks (s, p, l) = Inr (pks', s', p', l @ vs) \<and> x' = fold f vs x"
proof (induction pks arbitrary: s p x l pks' s' p' x')
  case (Cons pk pks)
  obtain run pk1 where run: "shouldPackExecute (pack_refresh_interval (ce_pack ce)) now (ce_discovery ce) pk = (run, pk1)" by fastforce
  obtain qs s1 p1 x1 pks1 where r: "(if run then pack_scheduledQueries ce now (\<lambda>n q (p, x). Inr (p, f q x)) (\<lambda>_. False) d (pk_name pk1) (pk_schedule pk1) (s, p, x)
         else Inr (pk_schedule pk1, s, p, x)) = Inr (qs, s1, p1, x1)"
      "packs_scheduledQueries ce now (\<lambda>n q (p, x). Inr (p, f q x)) (\<lambda>_. False) d pks (s1, p1, x1) = Inr (pks1, s', p', x')"
      "pks' = pk1\<lparr>pk_schedule := qs\<rparr> # pks1"
    using Cons.prems run by (auto simp: exn_bind_Inr_iff)
  obtain vs where v: "(if run then pack_scheduledQueries ce now (\<lambda>n q (p, x). Inr (p, x @ [q])) (\<lambda>_. False) d (pk_name pk1) (pk_schedule pk1) (s, p, l)
         else Inr (pk_schedule pk1, s, p, l)) = Inr (qs, s1, p1, l @ vs)" "x1 = fold f vs x"
    using r(1) pack_visits [of ce now f d "pk_name pk1" "pk_schedule pk1" s p x qs s1 p1 x1 l] by (cases run) auto
  obtain ws where "packs_scheduledQueries ce now (\<lambda>n q (p, x). Inr (p, x @ [q])) (\<lambda>_. False) d pks (s1, p1, l @ vs) = Inr (pks1, s', p', (l @ vs) @ ws)"
    "x' = fold f ws x1" using Cons.IH [OF r(2), of "l @ vs"] by blast
  then show ?case using v r(3) run by (intro exI [of _ "vs @ ws"]) simp
qed simp

lemma scheduled_visits:
  assumes "scheduledQueries ce now (\<lambda>n q (p, x). Inr (p, f q x)) (\<lambda>_. False) False (s, p, x) = Inr (s', p', x')"
  shows "\<exists>qs. visited_queries ce now (s, p) = Inr (s', p', qs) \<and> x' = fold f qs x"
proof -
  obtain pks s1 where r: "packs_scheduledQueries ce now (\<lambda>n q (p, x). Inr (p, f q x)) (\<lambda>_. False) False (packs s) (s, p, x) = Inr (pks, s1, p', x')"
    "s' = s1\<lparr>packs := pks\<rparr>" using assms by (auto simp: scheduledQueries_def exn_bind_Inr_iff)
  show ?thesis using packs_visit [OF r(1), of "[]"] r(2) by (auto simp: visited_queries_def scheduledQueries_def)
qed

definition uses_subscriber :: "'d config_env \<Rightarrow> ('sc, 'ec) factory_env \<Rightarrow> string \<Rightarrow> ScheduledQuery \<Rightarrow> bool" where
  "uses_subscriber ce e n q \<longleftrightarrow> n \<in> set (ce_query_tables ce (sq_query q)) \<and> n \<in> set (fe_subscriber_plugins e)"

lemma scan_query_get:
  assumes "om_wf ds"
  shows "om_wf (scan_query ce e q ds) \<and> om_get (scan_query ce e q ds) n =
    (if uses_subscriber ce e n q then Some (add_query (sq_interval q) (om_get ds n)) else om_get ds n)"
proof -
  have "om_wf ds \<Longrightarrow> distinct xs \<Longrightarrow> om_wf (fold (\<lambda>s ds. om_set s (g (om_get ds s)) ds) xs ds) \<and>
      om_get (fold (\<lambda>s ds. om_set s (g (om_get ds s)) ds) xs ds) n = (if n \<in> set xs then Some (g (om_get ds n)) else om_get ds n)"
    for g :: "'x option \<Rightarrow> 'x" and xs and ds :: "(string, 'x) omap"
    by (induction xs arbitrary: ds) auto
  then show ?thesis using assms by (auto simp: scan_query_def uses_subscriber_def)
qed

lemma scan_queries_get:
  "om_wf ds \<Longrightarrow> om_wf (fold (scan_query ce e) qs ds) \<and> om_get (fold (scan_query ce e) qs ds) n =
    fold (\<lambda>q d. Some (add_query (sq_interval q) d)) (filter (uses_subscriber ce e n) qs) (om_get ds n)"
  by (induction qs arbitrary: ds) (simp_all add: scan_query_get)

lemma details_of:
  assumes "qs \<noteq> []"
  shows "\<exists>d. fold (\<lambda>q d. Some (add_query (sq_interval q) d)) qs None = Some d \<and> details_count d = of_nat (length qs) \<and>
    (\<forall>q \<in> set qs. sq_interval q \<le> max_interval d) \<and> max_interval d \<in> insert 0 (sq_interval ` set qs)"
  using assms
proof (induction qs rule: rev_induct)
  case (snoc q qs)
  show ?case
  proof (cases "qs = []")
    case True
    then show ?thesis by (auto simp: add_query_def not_less)
  next
    case False
    then obtain d where d: "fold (\<lambda>q d. Some (add_query (sq_interval q) d)) qs None = Some d" "details_count d = of_nat (length qs)"
      "\<forall>q \<in> set qs. sq_interval q \<le> max_interval d" "max_interval d \<in> insert 0 (sq_interval ` set qs)" using snoc.IH by blast
    then show ?thesis by (auto simp: add_query_def not_less intro: order_trans less_imp_le)
  qed
qed simp

lemma fold_apply_details:
  "om_wf (event_subs ef) \<Longrightarrow> distinct (map fst ds) \<Longrightarrow> om_get (event_subs ef) n = Some s \<Longrightarrow>
   om_get (event_subs (fold apply_details ds ef)) n = Some (case map_of ds n of None \<Rightarrow> s
     | Some d \<Rightarrow> s\<lparr>evs_plugin := resetQueryCount (details_count d) (setMinExpiry (min_expiry_for d) (evs_plugin s))\<rparr>)"
proof (induction ds arbitrary: ef s)
  case (Cons nd ds)
  obtain m d where nd: "nd = (m, d)" by (cases nd)
  have wf: "om_wf (event_subs (apply_details nd ef))"
    using Cons.prems(1) by (auto simp: apply_details_def set_sub_def split: option.splits)
  have "om_get (event_subs (apply_details nd ef)) n =
      Some (if m = n then s\<lparr>evs_plugin := resetQueryCount (details_count d) (setMinExpiry (min_expiry_for d) (evs_plugin s))\<rparr> else s)"
    using Cons.prems(1,3) by (auto simp: nd apply_details_def set_sub_def split: option.splits)
  moreover have "m = n \<Longrightarrow> map_of ds n = None" using Cons.prems(2) by (auto simp: nd map_of_eq_None_iff)
  ultimately show ?case using Cons.IH [OF wf] Cons.prems(2) by (auto simp: nd)
qed simp

lemma next_minute: "m + (60 - m mod 60) = 60 * (m div 60 + 1)" for m :: nat
proof -
  define q r where "q = m div 60" and "r = m mod 60"
  then have "m = 60 * q + r" "r < 60" by simp_all
  then show ?thesis unfolding q_def [symmetric] r_def [symmetric] by arith
qed

lemma min_expiry_bounds:
  assumes "unat (max_interval d) \<le> 604800"
  shows "60 dvd unat (min_expiry_for d) \<and> 3 * unat (max_interval d) < unat (min_expiry_for d)"
proof -
  let ?m = "3 * unat (max_interval d)"
  have m: "unat (max_interval d * 3) = ?m" using assms by (subst unat_mult_lem [THEN iffD1]) simp_all
  have r: "unat (max_interval d * 3 mod 60) = ?m mod 60" using m by (simp add: unat_mod)
  have "?m mod 60 < 60" by simp
  then have s: "unat (60 - max_interval d * 3 mod 60) = 60 - ?m mod 60"
    using r by (subst unat_sub) (simp_all add: word_le_nat_alt)
  then have "unat (min_expiry_for d) = ?m + (60 - ?m mod 60)"
    using m assms unfolding min_expiry_for_def Let_def by (subst unat_add_lem [THEN iffD1]) simp_all
  then have "unat (min_expiry_for d) = 60 * (?m div 60 + 1)" "?m < unat (min_expiry_for d)"
    using \<open>?m mod 60 < 60\<close> by (simp_all only: next_minute, linarith)
  then show ?thesis by (metis dvd_triv_left)
qed

text \<open>
  An update of the configuration gives each registered subscriber the number of scheduled queries that read its
  table, and an expiration in whole minutes that is longer than three intervals of any of them, so that no event
  expires between two runs of a query; intervals are those that packs accept.
\<close>

theorem config_update_sets_expiration:
  assumes "factory_reach e ef" "configUpdate ce e now sp ef = Inr (s', p', ef')" "om_get (event_subs ef) n = Some es"
    and "visited_queries ce now sp = Inr (sv, pv, qs)" "filter (uses_subscriber ce e n) qs \<noteq> []"
    and "\<forall>q \<in> set qs. unat (sq_interval q) \<le> 604800"
  shows "\<exists>es'. om_get (event_subs ef') n = Some es' \<and>
    query_count (evs_plugin es') = of_nat (length (filter (uses_subscriber ce e n) qs)) \<and> 60 dvd unat (min_expiration (evs_plugin es')) \<and>
    (\<forall>q \<in> set (filter (uses_subscriber ce e n) qs). 3 * unat (sq_interval q) < unat (min_expiration (evs_plugin es')))"
proof -
  obtain ds where ds: "scheduledQueries ce now (\<lambda>n q (p, x). Inr (p, scan_query ce e q x)) (\<lambda>_. False) False (fst sp, snd sp, []) = Inr (s', p', ds)"
    and ef': "event_subs ef' = event_subs (fold apply_details ds ef)"
    using assms(2) by (auto simp: configUpdate_def Let_def exn_bind_Inr_iff split: if_splits)
  have ds_eq: "ds = fold (scan_query ce e) qs []" using scheduled_visits [OF ds] assms(4) by auto
  have wf: "om_wf ds" "om_get ds n = fold (\<lambda>q d. Some (add_query (sq_interval q) d)) (filter (uses_subscriber ce e n) qs) None"
    using scan_queries_get [of "[]" ce e qs n] by (simp_all add: ds_eq om_wf_def)
  obtain d where d: "om_get ds n = Some d" "details_count d = of_nat (length (filter (uses_subscriber ce e n) qs))"
    "\<forall>q \<in> set (filter (uses_subscriber ce e n) qs). sq_interval q \<le> max_interval d"
    "max_interval d \<in> insert 0 (sq_interval ` set (filter (uses_subscriber ce e n) qs))"
    using details_of [OF assms(5)] wf(2) by auto
  have "unat (max_interval d) \<le> 604800" using d(4) assms(6) by auto
  note bounds = min_expiry_bounds [OF this]
  have "om_wf (event_subs ef)" using factory_reach_ok [OF assms(1)] by (simp add: factory_ok_def)
  moreover have "distinct (map fst ds)" using wf(1) om_keys_distinct [of ds] by (simp add: om_keys_def)
  ultimately have get: "om_get (event_subs ef') n = Some (es\<lparr>evs_plugin := resetQueryCount (details_count d) (setMinExpiry (min_expiry_for d) (evs_plugin es))\<rparr>)"
    using fold_apply_details [of ef ds n es] assms(3) d(1) by (simp add: ef' om_get_def)
  have "3 * unat (sq_interval q) < unat (min_expiry_for d)" if "q \<in> set (filter (uses_subscriber ce e n) qs)" for q
    using bounds d(3) that by (fastforce simp: word_le_nat_alt intro: le_less_trans)
  then show ?thesis using get d(2) bounds by (simp add: resetQueryCount_def setMinExpiry_def)
qed

section \<open>The end of threads and of the factory\<close>

lemma run_loop_ends:
  "n \<le> m \<Longrightarrow> ends m \<or> \<not> ok (fe_run e t m) \<Longrightarrow> m - n < fuel \<Longrightarrow>
   \<exists>st turns r. run_loop e t ends fuel n restarts = Some (st, turns, r) \<and> turns \<le> Suc m"
proof (induction fuel arbitrary: n restarts)
  case (Suc fuel)
  show ?case
  proof (cases "ends n \<or> \<not> ok (fe_run e t n)")
    case True
    then show ?thesis using Suc.prems(1) by (auto simp: Let_def)
  next
    case False
    then have "n \<noteq> m" using Suc.prems(2) by auto
    then show ?thesis using Suc.IH [of "Suc n" "restarts + 1"] Suc.prems False by (simp add: Let_def)
  qed
qed simp

lemma ef_calls_called [simp]: "ef_calls (called c ef) = ef_calls ef @ [c]"
  by (simp add: called_def)

lemma ef_calls_fold_called [simp]: "ef_calls (fold called cs ef) = ef_calls ef @ cs"
  by (induction cs arbitrary: ef) simp_all

lemma ef_calls_set [simp]: "ef_calls (set_pub t p ef) = ef_calls ef" "ef_calls (set_sub n s ef) = ef_calls ef"
  by (simp_all add: set_pub_def set_sub_def)

text \<open>
  C29. The thread of a publisher ends if another thread ends the publisher or one of its turns fails: after that many
  turns at most it has torn the publisher down, once and last, and it cannot be started again.
\<close>

theorem publisher_thread_ends:
  assumes "factory_reach e ef" "\<not> disable_events e" "getEventPublisher t ef = Some p" "\<not> pub_started p"
    and "ends m \<or> \<not> ok (fe_run e t m)" "m < fuel"
  shows "\<exists>ef' turns. pub_run e fuel ends t ef = Some (success, ef') \<and> turns \<le> Suc m \<and>
    ef_calls ef' = ef_calls ef @ replicate turns (Pub_run t) @ [Pub_tearDown t] \<and>
    (\<exists>p'. getEventPublisher t ef' = Some p' \<and> pub_state p' = EVENT_NONE) \<and>
    pub_run e fuel2 ends2 t ef' = Some (failure ''Cannot restart an event publisher'', ef')"
proof -
  have wf: "om_wf (event_pubs ef)" using factory_reach_ok [OF assms(1)] by (simp add: factory_ok_def)
  obtain st turns r where l: "run_loop e t (\<lambda>n. pub_ending p \<or> ends n) fuel 0 (restart_count p) = Some (st, turns, r)" "turns \<le> Suc m"
    using run_loop_ends [of 0 m "\<lambda>n. pub_ending p \<or> ends n" e t fuel "restart_count p"] assms(5,6) by auto
  define ef' where "ef' = pub_finish t (p\<lparr>pub_started := True, pub_state := EVENT_RUNNING, restart_count := r\<rparr>)
    (fold called (replicate turns (Pub_run t)) (pub_start t p ef))"
  have run: "pub_run e fuel ends t ef = Some (success, ef')"
    using assms(2-4) l(1) by (simp add: pub_run_def ef'_def Let_def)
  have get: "getEventPublisher t ef' = Some (p\<lparr>pub_started := True, pub_state := EVENT_NONE, restart_count := r\<rparr>)"
    using wf by (simp add: ef'_def pub_finish_def pub_start_def getEventPublisher_def set_pub_def)
  have calls: "ef_calls ef' = ef_calls ef @ replicate turns (Pub_run t) @ [Pub_tearDown t]"
    by (simp add: ef'_def pub_finish_def pub_start_def del: fold_replicate)
  have again: "pub_run e fuel2 ends2 t ef' = Some (failure ''Cannot restart an event publisher'', ef')"
    using assms(2) get by (simp add: pub_run_def)
  show ?thesis using run l(2) calls get again by (intro exI [of _ ef'] exI [of _ turns]) simp
qed

lemma fold_deregister:
  assumes "\<not> disable_events e"
  shows "om_wf (event_pubs ef) \<Longrightarrow> distinct ts \<Longrightarrow> (\<And>t. t \<in> set ts \<Longrightarrow> om_get (event_pubs ef) t = Some (f t)) \<Longrightarrow>
    ef_calls (fold (\<lambda>t ef. snd (deregisterEventPublisher e t ef)) ts ef) =
      ef_calls ef @ map (\<lambda>t. if pub_started (f t) then Pub_stop t else Pub_tearDown t) ts"
proof (induction ts arbitrary: ef)
  case (Cons t ts)
  let ?ef = "snd (deregisterEventPublisher e t ef)"
  have t: "getEventPublisher t ef = Some (f t)" using Cons.prems(3) by (simp add: getEventPublisher_def)
  have "ef_calls ?ef = ef_calls ef @ [if pub_started (f t) then Pub_stop t else Pub_tearDown t]"
    using t assms by (simp add: deregisterEventPublisher_def)
  moreover have "om_wf (event_pubs ?ef)" "\<And>u. u \<noteq> t \<Longrightarrow> om_get (event_pubs ?ef) u = om_get (event_pubs ef) u"
    using t assms Cons.prems(1) by (auto simp: deregisterEventPublisher_def set_pub_def)
  moreover have "\<And>u. u \<in> set ts \<Longrightarrow> u \<noteq> t" using Cons.prems(2) by auto
  ultimately show ?case using Cons.IH [of ?ef] Cons.prems(2,3) by simp
qed simp

text \<open>
  The end of the factory reaches every publisher exactly once, in the order of their names: a publisher whose
  thread has started is asked to stop, any other is torn down; no publisher, subscriber or thread is left.
\<close>

theorem end_releases_publishers:
  assumes "factory_reach e ef" "\<not> disable_events e"
  shows "ef_calls (ef_end e ef) =
      ef_calls ef @ map (\<lambda>(t, p). if pub_started p then Pub_stop t else Pub_tearDown t) (event_pubs ef) \<and>
    publisherTypes (ef_end e ef) = [] \<and> subscriberNames (ef_end e ef) = [] \<and> ef_threads (ef_end e ef) = []"
proof -
  have wf: "om_wf (event_pubs ef)" using factory_reach_ok [OF assms(1)] by (simp add: factory_ok_def)
  let ?f = "\<lambda>t. the (om_get (event_pubs ef) t)"
  have f: "om_get (event_pubs ef) t = Some p" if "(t, p) \<in> set (event_pubs ef)" for t p
    using that by (simp add: om_get_mem [OF wf])
  have "ef_calls (ef_end e ef) = ef_calls ef @ map (\<lambda>t. if pub_started (?f t) then Pub_stop t else Pub_tearDown t) (publisherTypes ef)"
    using fold_deregister [OF assms(2) wf, of "publisherTypes ef" ?f] om_keys_distinct [OF wf] f
    by (fastforce simp: ef_end_def Let_def publisherTypes_def om_keys_def)
  also have "map (\<lambda>t. if pub_started (?f t) then Pub_stop t else Pub_tearDown t) (publisherTypes ef) =
      map (\<lambda>(t, p). if pub_started p then Pub_stop t else Pub_tearDown t) (event_pubs ef)"
    using f by (auto simp: publisherTypes_def om_keys_def)
  finally show ?thesis using assms(2) by (simp add: ef_end_def Let_def publisherTypes_def subscriberNames_def om_keys_def)
qed

section \<open>A factory with one publisher and one subscriber\<close>

definition sample_factory_env :: "(unit, unit) factory_env" where
  "sample_factory_env =
     \<lparr>disable_events = False, fe_parser = None, fe_setUp_sub = (\<lambda>_ p. (success, p)), fe_init = (\<lambda>_. ([((), True)], success)),
      fe_setUp_pub = (\<lambda>_. success), fe_run = (\<lambda>_ n. if n < 3 then success else failure ''closed''), fe_shouldFire = (\<lambda>_ _ _. True),
      fe_subscriber_plugins = [''file_events''], fe_ends_with = (\<lambda>s t. suffix t s)\<rparr>"

definition sample_event_subscriber :: event_subscriber where
  "sample_event_subscriber =
     \<lparr>evs_plugin = sample_subscriber, evs_disabled = False, evs_state = EVENT_NONE, evs_type = ''audit''\<rparr>"

definition audit_factory :: "unit EventFactory" where
  "audit_factory = snd (registerEventPublisher sample_factory_env ''audit'' (Some EventPublisherPlugin_new) EventFactory_new)"

definition served_factory :: "unit EventFactory" where
  "served_factory = audit_factory
     \<lparr>event_pubs := [(''audit'', EventPublisherPlugin_new\<lparr>pub_state := EVENT_SETUP, subscriptions := [Subscription_create ''file_events'' () True]\<rparr>)],
      event_subs := [(''file_events'', sample_event_subscriber\<lparr>evs_state := EVENT_RUNNING, evs_plugin := sample_subscriber\<lparr>subscription_count := 1\<rparr>\<rparr>)],
      ef_calls := [Pub_setUp ''audit'', Sub_setUp ''file_events'', Sub_init ''file_events'']\<rparr>"

lemma audit_factory_eq: "audit_factory = \<lparr>event_pubs = [(''audit'', EventPublisherPlugin_new\<lparr>pub_state := EVENT_SETUP\<rparr>)], event_subs = [],
    ef_loggers = [], ef_threads = [], ef_calls = [Pub_setUp ''audit'']\<rparr>"
  by (simp add: audit_factory_def registerEventPublisher_def sample_factory_env_def EventFactory_new_def Let_def set_pub_def called_def
      EventPublisherPlugin_new_def)

lemma served_factory_registered:
  "registerEventSubscriber sample_factory_env ''file_events'' (Some sample_event_subscriber) audit_factory = Inr (success, served_factory)"
  by (simp add: registerEventSubscriber_def subscriber_disabled_def subscriber_setup_def subscriber_init_def sample_factory_env_def
      sample_event_subscriber_def served_factory_def audit_factory_eq subscribe_def ef_addSubscription_def getEventPublisher_def
      om_get_def pub_addSubscription_def set_pub_def set_sub_def called_def EventPublisherPlugin_new_def Let_def
      sample_subscriber_def)

lemma sample_reach: "factory_reach sample_factory_env audit_factory" "factory_reach sample_factory_env served_factory"
proof -
  have "factory_step sample_factory_env EventFactory_new [] audit_factory"
    by (rule register_pub [of EventPublisherPlugin_new]) (auto simp: audit_factory_def EventPublisherPlugin_new_def intro: prod_eqI)
  then show a: "factory_reach sample_factory_env audit_factory" by (rule reach_step [OF reach_new])
  show "factory_reach sample_factory_env served_factory"
    by (rule reach_step [OF a register_sub [OF served_factory_registered]])
qed

definition sample_event :: "unit EventContext" where
  "sample_event = \<lparr>ec_id = 0, ec_time = 0, ec_data = ()\<rparr>"

lemma sample_fire: "fst (fire sample_factory_env 77 ''audit'' (Some sample_event) 0 served_factory) =
    [(Subscription_create ''file_events'' () True, Some (sample_event\<lparr>ec_time := 77\<rparr>))]"
  by (simp add: fire_def served_factory_def getEventPublisher_def EventPublisherPlugin_new_def subscriber_running_def
      getEventSubscriber_def ef_exists_def om_get_def fireCallback_def sample_factory_env_def Subscription_create_def fill_context_def
      sample_event_def sample_event_subscriber_def Let_def)

theorem events_reach_only_running_witness:
  "fst (fire sample_factory_env 77 ''audit'' (Some sample_event) 0 served_factory) =
     [(Subscription_create ''file_events'' () True, Some (sample_event\<lparr>ec_time := 77\<rparr>))] \<and>
   (\<exists>p es. om_get (event_pubs served_factory) ''audit'' = Some p \<and> \<not> pub_ending p \<and>
     om_get (event_subs served_factory) ''file_events'' = Some es \<and> evs_state es = EVENT_RUNNING \<and> \<not> evs_disabled es)"
  using events_reach_only_running [OF sample_reach(2) prod.collapse [symmetric], of 77 "''audit''" "Some sample_event" 0]
  unfolding sample_fire by (auto simp: Subscription_create_def)

theorem registered_subscriber_served_witness:
  "filter (\<lambda>(x, _). subscriber_name x = ''file_events'') (fst (fire sample_factory_env 77 ''audit'' (Some sample_event) 0 served_factory)) =
   [(Subscription_create ''file_events'' () True, Some (sample_event\<lparr>ec_time := 77\<rparr>))]"
proof -
  let ?e = sample_factory_env
  have pub: "getEventPublisher (evs_type sample_event_subscriber) audit_factory = Some (EventPublisherPlugin_new\<lparr>pub_state := EVENT_SETUP\<rparr>)"
    by (simp add: audit_factory_eq getEventPublisher_def sample_event_subscriber_def om_get_def)
  have on: "\<not> disable_events ?e" "subscriber_disabled (fe_parser ?e) ''file_events'' (evs_disabled sample_event_subscriber) = Inr False"
    "ok (fst (fe_setUp_sub ?e ''file_events'' (evs_plugin sample_event_subscriber)))" "fe_init ?e ''file_events'' = ([((), True)], success)"
    by (simp_all add: sample_factory_env_def sample_event_subscriber_def subscriber_disabled_def)
  have live: "\<not> pub_ending (EventPublisherPlugin_new\<lparr>pub_state := EVENT_SETUP\<rparr> :: unit EventPublisherPlugin)" "evs_type sample_event_subscriber = ''audit''"
    by (simp_all add: EventPublisherPlugin_new_def sample_event_subscriber_def)
  have "filter (\<lambda>(x, _). subscriber_name x = ''file_events'') (fst (fire ?e 77 (evs_type sample_event_subscriber) (Some sample_event) 0 served_factory)) =
      map (\<lambda>x. (x, Some (sample_event\<lparr>ec_time := 77\<rparr>))) [Subscription_create ''file_events'' () True]"
    using registered_subscriber_served [OF sample_reach(1) served_factory_registered _ on(1-3) pub live(1) on(4) _ prod.collapse [symmetric],
        of 77 "Some sample_event" 0]
    by (simp add: EventPublisherPlugin_new_def fill_context_def sample_event_def fireCallback_def sample_factory_env_def Subscription_create_def)
  then show ?thesis by (simp add: live(2))
qed

theorem publisher_thread_ends_witness:
  "\<exists>ef' turns. pub_run sample_factory_env 10 (\<lambda>_. False) ''audit'' audit_factory = Some (success, ef') \<and> turns \<le> 4 \<and>
     ef_calls ef' = Pub_setUp ''audit'' # replicate turns (Pub_run ''audit'') @ [Pub_tearDown ''audit'']"
  using publisher_thread_ends [OF sample_reach(1), of "''audit''" "EventPublisherPlugin_new\<lparr>pub_state := EVENT_SETUP\<rparr>" "\<lambda>_. False" 3 10 0 "\<lambda>_. False"]
  by (fastforce simp: sample_factory_env_def audit_factory_eq getEventPublisher_def om_get_def EventPublisherPlugin_new_def)

theorem end_releases_publishers_witness:
  "ef_calls (ef_end sample_factory_env audit_factory) = [Pub_setUp ''audit'', Pub_tearDown ''audit''] \<and>
   publisherTypes (ef_end sample_factory_env audit_factory) = []"
  using end_releases_publishers [OF sample_reach(1)] by (simp add: sample_factory_env_def audit_factory_eq EventPublisherPlugin_new_def)

definition file_config_env :: "ephemeral_db config_env" where
  "file_config_env = sample_config_env\<lparr>ce_query_tables := (\<lambda>_. [''file_events''])\<rparr>"

definition file_schedule :: Schedule where
  "file_schedule = Schedule_blank\<lparr>packs := [Pack_blank\<lparr>pk_name := ''x'', pk_valid := True,
     pk_schedule := [(ScheduledQuery_new ''x'' ''a'' ''select 1'')\<lparr>sq_interval := 300\<rparr>]\<rparr>]\<rparr>"

theorem config_update_sets_expiration_witness:
  "\<exists>s' p' ef' es'. configUpdate file_config_env sample_factory_env 5000 (file_schedule, eph_process []) served_factory = Inr (s', p', ef') \<and>
     om_get (event_subs ef') ''file_events'' = Some es' \<and> query_count (evs_plugin es') = 1 \<and>
     900 < unat (min_expiration (evs_plugin es'))"
proof -
  let ?ce = file_config_env and ?q = "(ScheduledQuery_new ''x'' ''a'' ''select 1'')\<lparr>sq_interval := 300\<rparr>"
  obtain sv pv where v: "visited_queries ?ce 5000 (file_schedule, eph_process []) = Inr (sv, pv, [?q])"
    by (simp add: visited_queries_def file_schedule_def file_config_env_def scheduledQueries_def Schedule_blank_def Pack_blank_def
      shouldPackExecute_def checkDiscovery_def sample_config_env_def sample_pack_env_def ScheduledQuery_new_def deny_query_def om_get_def
      getQueryName_def Let_def word_less_nat_alt)
  obtain s' p' ef' where u: "configUpdate ?ce sample_factory_env 5000 (file_schedule, eph_process []) served_factory = Inr (s', p', ef')"
    by (simp add: configUpdate_def file_schedule_def file_config_env_def scheduledQueries_def Schedule_blank_def Pack_blank_def
      shouldPackExecute_def checkDiscovery_def sample_config_env_def sample_pack_env_def ScheduledQuery_new_def deny_query_def om_get_def
      getQueryName_def Let_def word_less_nat_alt)
  obtain es where es: "om_get (event_subs served_factory) ''file_events'' = Some es" by (simp add: served_factory_def om_get_def)
  have used: "filter (uses_subscriber ?ce sample_factory_env ''file_events'') [?q] = [?q]" by (simp add: uses_subscriber_def file_config_env_def sample_factory_env_def)
  then show ?thesis using config_update_sets_expiration [OF sample_reach(2) u es v] u by auto
qed

section \<open>Attaching\<close>

text \<open>Attaching is a sequence of steps of the factory.\<close>

lemma attach_subscribers_reach:
  "factory_reach e ef \<Longrightarrow> attach_subscribers e subs ef = Inr ef' \<Longrightarrow> factory_reach e ef'"
proof (induction subs arbitrary: ef)
  case (Cons x subs)
  obtain n s where x: "x = (n, s)" by (cases x)
  show ?case
  proof (cases "fe_ends_with e n ''_events''")
    case True
    then obtain st ef1 where r: "registerEventSubscriber e n s ef = Inr (st, ef1)" "attach_subscribers e subs ef1 = Inr ef'"
      using Cons.prems(2) x by (auto simp: exn_bind_Inr_iff)
    show ?thesis by (rule Cons.IH [OF reach_step [OF Cons.prems(1) register_sub [OF r(1)]] r(2)])
  next
    case False
    then show ?thesis using Cons x by simp
  qed
qed simp

lemma register_publishers_reach:
  "factory_reach e ef \<Longrightarrow> \<forall>t p. (t, Some p) \<in> set pubs \<longrightarrow> \<not> pub_started p \<Longrightarrow>
   factory_reach e (fold (\<lambda>(t, p) ef. snd (registerEventPublisher e t p ef)) pubs ef)"
proof (induction pubs arbitrary: ef)
  case (Cons x pubs)
  obtain t p where x: "x = (t, p)" by (cases x)
  have "factory_reach e (snd (registerEventPublisher e t p ef))"
  proof (cases p)
    case None
    then show ?thesis using Cons.prems(1) by (simp add: registerEventPublisher_def)
  next
    case (Some q)
    then have "(t, Some q) \<in> set (x # pubs)" using x by simp
    then have "\<not> pub_started q" using Cons.prems(2) by blast
    then have "factory_step e ef [] (snd (registerEventPublisher e t (Some q) ef))" by (rule register_pub) (rule prod.collapse [symmetric])
    then show ?thesis unfolding Some by (rule reach_step [OF Cons.prems(1)])
  qed
  then show ?case using Cons.IH Cons.prems(2) x by simp
qed simp

lemma configUpdate_reach:
  assumes "factory_reach e ef" "configUpdate ce e now sp ef = Inr (s', p', ef')"
  shows "factory_reach e ef'"
proof -
  obtain ds where "ef' = fold apply_details ds ef \<or>
      ef' = called (Configure ''event_publisher'') (called (Configure ''event_subscriber'') (fold apply_details ds ef))"
    using assms(2) by (auto simp: configUpdate_def Let_def exn_bind_Inr_iff split: if_splits)
  moreover have "factory_reach e (fold apply_details ds ef)" by (rule reach_step [OF assms(1) details_applied])
  ultimately show ?thesis by (auto intro: reach_step [OF _ configured])
qed

text \<open>
  Attaching the plugins of the registries, from an empty factory, gives a factory in which every publisher and
  every subscriber is consistent with its life cycle, and in which events are passed to running subscribers only.
\<close>

theorem attached_factory_consistent:
  assumes "attachEvents ce e now pubs subs sp EventFactory_new = Inr (s', p', ef)"
    and "\<forall>t p. (t, Some p) \<in> set pubs \<longrightarrow> \<not> pub_started p"
  shows "factory_reach e ef \<and> factory_ok e ef"
proof -
  obtain ef1 where a: "attach_subscribers e subs (fold (\<lambda>(t, p) ef. snd (registerEventPublisher e t p ef)) pubs EventFactory_new) = Inr ef1"
    and c: "configUpdate ce e now sp ef1 = Inr (s', p', ef)"
    using assms(1) by (auto simp: attachEvents_def exn_bind_Inr_iff)
  have "factory_reach e ef1" by (rule attach_subscribers_reach [OF register_publishers_reach [OF reach_new assms(2)] a])
  then have "factory_reach e ef" by (rule configUpdate_reach [OF _ c])
  then show ?thesis using factory_reach_ok by blast
qed

end
