(* ===== verification/Watcher.thy ===== *)
theory Watcher
  imports Scheduler Packs QueryPerformances
begin

text \<open>
  The watchdog: \<open>core/watcher.cpp\<close>, \<open>core/watcher.h\<close>, and what it uses of processes from
  \<open>process/posix/process.cpp\<close>, \<open>process/posix/process_ops.cpp\<close> and \<open>core/system.cpp\<close>. The operating system is
  a record of calls over a state of its own.
\<close>

section \<open>Limits\<close>

datatype WatchdogLimitType = MEMORY_LIMIT | UTILIZATION_LIMIT | RESPAWN_LIMIT | RESPAWN_DELAY | LATENCY_LIMIT | INTERVAL

record LimitDefinition =
  limit_normal :: u64
  limit_restrictive :: u64
  limit_disabled :: u64

definition kWatchdogLimits :: "(WatchdogLimitType \<times> LimitDefinition) list" where
  "kWatchdogLimits =
     [(MEMORY_LIMIT, \<lparr>limit_normal = 200, limit_restrictive = 100, limit_disabled = 10000\<rparr>),
      (UTILIZATION_LIMIT, \<lparr>limit_normal = 10, limit_restrictive = 5, limit_disabled = 100\<rparr>),
      (RESPAWN_LIMIT, \<lparr>limit_normal = 4, limit_restrictive = 4, limit_disabled = 1000\<rparr>),
      (RESPAWN_DELAY, \<lparr>limit_normal = 5, limit_restrictive = 5, limit_disabled = 1\<rparr>),
      (LATENCY_LIMIT, \<lparr>limit_normal = 12, limit_restrictive = 6, limit_disabled = 1000\<rparr>),
      (INTERVAL, \<lparr>limit_normal = 3, limit_restrictive = 3, limit_disabled = 3\<rparr>)]"

text \<open>The flags, with the number of processors, the platform, and whether verbose messages are on.\<close>

record watchdog_flags =
  watchdog_level :: int
  watchdog_memory_limit :: u64
  watchdog_utilization_limit :: u64
  watchdog_latency_limit :: u64
  watchdog_delay :: u64
  watchdog_max_delay :: u64
  enable_extensions_watchdog :: bool
  watchdog_forced_shutdown_delay :: u64
  alarm_timeout :: u64
  kNumOfCPUs :: u64
  wf_platform :: u32
  wf_verbose :: bool

definition getWorkerLimit :: "watchdog_flags \<Rightarrow> WatchdogLimitType \<Rightarrow> u64" where
  "getWorkerLimit f name =
     (case map_of kWatchdogLimits name of
        None \<Rightarrow> 0
      | Some limits \<Rightarrow>
          if name = MEMORY_LIMIT \<and> watchdog_memory_limit f > 0 then watchdog_memory_limit f
          else if name = UTILIZATION_LIMIT \<and> watchdog_utilization_limit f > 0 then watchdog_utilization_limit f
          else if name = LATENCY_LIMIT \<and> watchdog_latency_limit f > 0 then watchdog_latency_limit f
          else if watchdog_level f = -1 then limit_disabled limits
          else if watchdog_level f = 1 then limit_restrictive limits
          else limit_normal limits)"

section \<open>Measurements\<close>

record PerformanceState =
  ps_sustained_latency :: u64
  ps_user_time :: u64
  ps_system_time :: u64
  ps_last_respawn_time :: u64
  ps_initial_footprint :: u64

definition PerformanceState_new :: PerformanceState where
  "PerformanceState_new =
     \<lparr>ps_sustained_latency = 0, ps_user_time = 0, ps_system_time = 0, ps_last_respawn_time = 0, ps_initial_footprint = 0\<rparr>"

record PerformanceChange =
  pc_sustained_latency :: u64
  pc_footprint :: u64
  pc_check_interval :: u64
  pc_parent :: int

definition cpuUtilizationTimeLimit :: "watchdog_flags \<Rightarrow> PerformanceChange \<Rightarrow> u64" where
  "cpuUtilizationTimeLimit f change =
     (let percent_ul = getWorkerLimit f UTILIZATION_LIMIT;
          percent_ul = (if percent_ul > 100 then 100 else percent_ul);
          check_interval_milliseconds = pc_check_interval change * 1000
      in percent_ul * check_interval_milliseconds * kNumOfCPUs f div 100)"

text \<open>A column of a process row as \<open>long long\<close>: 0 if the text is no number; the exception is a missing column.\<close>

definition row_longlong :: "Row \<Rightarrow> string \<Rightarrow> int throwing" where
  "row_longlong r column = exn_bind (row_at r column) (\<lambda>s. Inr (case longlong_value s of Some v \<Rightarrow> v | None \<Rightarrow> 0))"

text \<open>
  The columns in the order they are read: parent, user time, system time, footprint. What has been assigned when
  one is missing is kept, and the flag says whether all were there.
\<close>

definition process_columns :: "watchdog_flags \<Rightarrow> Row \<Rightarrow> int \<times> int \<times> int \<times> int \<times> bool" where
  "process_columns f r =
     (case row_longlong r ''parent'' of Inl _ \<Rightarrow> (0, 0, 0, 0, False) | Inr p \<Rightarrow>
      let parent = sint (word_of_int p :: u32) in
      (case row_longlong r ''user_time'' of Inl _ \<Rightarrow> (parent, 0, 0, 0, False) | Inr u \<Rightarrow>
      (case row_longlong r ''system_time'' of Inl _ \<Rightarrow> (parent, u, 0, 0, False) | Inr s \<Rightarrow>
      (case row_longlong r (if isPlatform TYPE_WINDOWS (wf_platform f) then ''total_size'' else ''resident_size'') of
         Inl _ \<Rightarrow> (parent, u, s, 0, False)
       | Inr m \<Rightarrow> (parent, u, s, m, True)))))"

definition getChange :: "watchdog_flags \<Rightarrow> Row \<Rightarrow> PerformanceState \<Rightarrow> PerformanceChange \<times> PerformanceState" where
  "getChange f r state =
     (let (parent, user_time, system_time, size, complete) = process_columns f r;
          check_interval = (if getWorkerLimit f INTERVAL < 1 then 1 else getWorkerLimit f INTERVAL);
          change = \<lparr>pc_sustained_latency = 0, pc_footprint = word_of_int size, pc_check_interval = check_interval, pc_parent = parent\<rparr>;
          state1 = (if complete then state else state\<lparr>ps_sustained_latency := 0\<rparr>);
          cpu_ul = cpuUtilizationTimeLimit f change;
          user_time_diff = word_of_int user_time - ps_user_time state1;
          sys_time_diff = word_of_int system_time - ps_system_time state1;
          cpu_utilization_time = user_time_diff + sys_time_diff;
          state2 = (if cpu_utilization_time > cpu_ul then state1\<lparr>ps_sustained_latency := ps_sustained_latency state1 + 1\<rparr>
                    else state1\<lparr>ps_sustained_latency := 0\<rparr>);
          state3 = state2\<lparr>ps_user_time := word_of_int user_time, ps_system_time := word_of_int system_time\<rparr>;
          state4 = (if ps_initial_footprint state3 = 0 then state3\<lparr>ps_initial_footprint := pc_footprint change\<rparr> else state3)
      in (change\<lparr>pc_sustained_latency := ps_sustained_latency state4,
                 pc_footprint := (if pc_footprint change < ps_initial_footprint state4 then 0
                                  else pc_footprint change - ps_initial_footprint state4)\<rparr>, state4))"

definition exceededMemoryLimit :: "watchdog_flags \<Rightarrow> PerformanceChange \<Rightarrow> bool" where
  "exceededMemoryLimit f change \<longleftrightarrow>
     (if pc_footprint change = 0 then False else pc_footprint change > getWorkerLimit f MEMORY_LIMIT * 1024 * 1024)"

definition exceededCyclesLimit :: "watchdog_flags \<Rightarrow> PerformanceChange \<Rightarrow> bool" where
  "exceededCyclesLimit f change \<longleftrightarrow>
     (if pc_sustained_latency change = 0 then False
      else pc_sustained_latency change * pc_check_interval change \<ge> getWorkerLimit f LATENCY_LIMIT)"

section \<open>Processes\<close>

text \<open>A process is its identifier; \<open>kInvalidPid\<close> stands for none.\<close>

definition kInvalidPid :: int where "kInvalidPid = -1"

datatype ProcessState = PROCESS_ERROR | PROCESS_STILL_ALIVE | PROCESS_EXITED | PROCESS_STATE_CHANGE

datatype signal = SIGTERM | SIGKILL | SIGUSR1

text \<open>What \<open>waitpid\<close> with \<open>WNOHANG\<close> answers: an error with \<open>errno\<close>, nothing, or a status.\<close>

datatype wait_result = Wait_failed int | Wait_none | Wait_status u32

definition ECHILD :: int where "ECHILD = 10"

text \<open>The macros of \<open>sys/wait.h\<close>.\<close>

definition WTERMSIG :: "u32 \<Rightarrow> u32" where "WTERMSIG status = and status 0x7f"
definition WIFEXITED :: "u32 \<Rightarrow> bool" where "WIFEXITED status \<longleftrightarrow> WTERMSIG status = 0"
definition WIFSIGNALED :: "u32 \<Rightarrow> bool" where "WIFSIGNALED status \<longleftrightarrow> WTERMSIG status \<noteq> 0 \<and> WTERMSIG status \<noteq> 0x7f"
definition WEXITSTATUS :: "u32 \<Rightarrow> int" where "WEXITSTATUS status = uint (drop_bit 8 (and status 0xff00))"

text \<open>
  The operating system and the parts of the process around the watchdog. \<open>os_fork\<close> forks and executes a program
  and gives the child, negative on failure; \<open>os_rows\<close> is the table of processes; \<open>os_path_rows\<close> the path of this
  process; \<open>os_interrupted\<close> tells whether another thread has interrupted the runner and \<open>os_signalled\<close> whether a
  signal handler has bound the fates of watcher and worker.
\<close>

record 'w os_env =
  os_waitpid :: "int \<Rightarrow> 'w \<Rightarrow> wait_result \<times> 'w"
  os_kill :: "int \<Rightarrow> signal \<Rightarrow> 'w \<Rightarrow> 'w"
  os_fork :: "string \<Rightarrow> 'w \<Rightarrow> int \<times> 'w"
  os_sleep :: "u64 \<Rightarrow> 'w \<Rightarrow> 'w"
  os_pause :: "u64 \<Rightarrow> 'w \<Rightarrow> 'w"
  os_now :: "'w \<Rightarrow> u64"
  os_getpid :: int
  os_getppid :: "'w \<Rightarrow> int"
  os_rows :: "int \<Rightarrow> 'w \<Rightarrow> QueryData"
  os_path_rows :: "'w \<Rightarrow> QueryData"
  os_complete :: "string \<Rightarrow> string"
  os_pathExists :: "string \<Rightarrow> 'w \<Rightarrow> bool"
  os_safePermissions :: "string \<Rightarrow> 'w \<Rightarrow> bool"
  os_extensions_variable :: "'w \<Rightarrow> bool"
  os_set_extensions_variable :: "'w \<Rightarrow> 'w"
  os_interrupted :: "'w \<Rightarrow> bool"
  os_signalled :: "'w \<Rightarrow> bool"

text \<open>\<open>Watcher\<close>; an extension has a pointer to a process, which may be null.\<close>

record Watcher =
  wt_state :: PerformanceState
  extension_states :: "(string, PerformanceState) omap"
  worker :: int
  worker_start_time :: u64
  worker_restarts :: u64
  extensions :: "(string, int option) omap"
  restart_worker :: bool
  worker_status :: int
  extensions_watched :: bool

text \<open>
  The runner and its surroundings: the watcher, the restarts of extensions, the shutdown request and the operating
  system. \<open>ww_signals\<close> records every signal sent.
\<close>

record 'w watch_world =
  ww_watcher :: Watcher
  extension_restarts :: "(string, u64) omap"
  ww_shutdown :: ShutdownData
  ww_signals :: "(int \<times> signal) list"
  ww_os :: 'w

definition Watcher_new :: Watcher where
  "Watcher_new =
     \<lparr>wt_state = PerformanceState_new, extension_states = [], worker = kInvalidPid, worker_start_time = 0, worker_restarts = 0,
      extensions = [], restart_worker = True, worker_status = -1, extensions_watched = False\<rparr>"

definition isValid :: "int \<Rightarrow> bool" where
  "isValid p \<longleftrightarrow> p \<noteq> kInvalidPid"

definition send :: "'w os_env \<Rightarrow> int \<Rightarrow> signal \<Rightarrow> 'w watch_world \<Rightarrow> 'w watch_world" where
  "send e p s w = w\<lparr>ww_signals := ww_signals w @ [(p, s)], ww_os := os_kill e p s (ww_os w)\<rparr>"

definition kill :: "'w os_env \<Rightarrow> int \<Rightarrow> 'w watch_world \<Rightarrow> 'w watch_world" where
  "kill e p w = (if \<not> isValid p then w else send e p SIGKILL w)"

definition killGracefully :: "'w os_env \<Rightarrow> int \<Rightarrow> 'w watch_world \<Rightarrow> 'w watch_world" where
  "killGracefully e p w = (if \<not> isValid p then w else send e p SIGTERM w)"

definition warnResourceLimitHit :: "'w os_env \<Rightarrow> int \<Rightarrow> 'w watch_world \<Rightarrow> 'w watch_world" where
  "warnResourceLimitHit e p w = send e p SIGUSR1 w"

text \<open>The state of a process and its exit status, which is left at \<open>status\<close> unless the process has exited.\<close>

definition checkStatus :: "'w os_env \<Rightarrow> int \<Rightarrow> int \<Rightarrow> 'w watch_world \<Rightarrow> ProcessState \<times> int \<times> 'w watch_world" where
  "checkStatus e p status w =
     (if \<not> isValid p then (PROCESS_ERROR, status, w)
      else let (result, os) = os_waitpid e p (ww_os w); w1 = w\<lparr>ww_os := os\<rparr>
           in case result of
                Wait_failed errno \<Rightarrow> (if errno = ECHILD then PROCESS_EXITED else PROCESS_ERROR, status, w1)
              | Wait_none \<Rightarrow> (PROCESS_STILL_ALIVE, status, w1)
              | Wait_status s \<Rightarrow> if WIFEXITED s \<or> WIFSIGNALED s then (PROCESS_EXITED, WEXITSTATUS s, w1)
                                else (PROCESS_STATE_CHANGE, status, w1))"

text \<open>
  The loop of \<open>cleanup\<close>: \<open>turns\<close> times the process is checked and 200 milliseconds are waited, the delay going
  up in steps of 200 from 0 while it is below the timeout.
\<close>

fun cleanup_loop :: "'w os_env \<Rightarrow> int \<Rightarrow> nat \<Rightarrow> 'w watch_world \<Rightarrow> bool \<times> 'w watch_world" where
  "cleanup_loop e p 0 w = (False, w)"
| "cleanup_loop e p (Suc turns) w =
     (let (st, _, w1) = checkStatus e p 0 w
      in if st = PROCESS_EXITED then (True, w1)
         else cleanup_loop e p turns (w1\<lparr>ww_os := os_sleep e 200 (ww_os w1)\<rparr>))"

definition cleanup :: "'w os_env \<Rightarrow> int \<Rightarrow> u64 \<Rightarrow> 'w watch_world \<Rightarrow> bool \<times> 'w watch_world" where
  "cleanup e p timeout w = (if \<not> isValid p then (False, w) else cleanup_loop e p ((unat timeout + 199) div 200) w)"

definition isLauncherProcessDead :: "'w os_env \<Rightarrow> int \<Rightarrow> 'w \<Rightarrow> bool" where
  "isLauncherProcessDead e launcher os \<longleftrightarrow> (if \<not> isValid launcher then True else os_getppid e os \<noteq> launcher)"

section \<open>The watcher's records\<close>

definition reset_counters :: "u64 \<Rightarrow> PerformanceState \<Rightarrow> PerformanceState" where
  "reset_counters respawn_time s =
     s\<lparr>ps_sustained_latency := 0, ps_user_time := 0, ps_system_time := 0, ps_last_respawn_time := respawn_time\<rparr>"

definition resetWorkerCounters :: "u64 \<Rightarrow> Watcher \<Rightarrow> Watcher" where
  "resetWorkerCounters respawn_time w = w\<lparr>wt_state := reset_counters respawn_time (wt_state w)\<rparr>"

text \<open>\<open>extension_states_[extension]\<close> makes a new state if there is none.\<close>

definition extension_state :: "string \<Rightarrow> Watcher \<Rightarrow> PerformanceState" where
  "extension_state extension w = (case om_get (extension_states w) extension of Some s \<Rightarrow> s | None \<Rightarrow> PerformanceState_new)"

definition set_extension_state :: "string \<Rightarrow> PerformanceState \<Rightarrow> Watcher \<Rightarrow> Watcher" where
  "set_extension_state extension s w = w\<lparr>extension_states := om_set extension s (extension_states w)\<rparr>"

definition resetExtensionCounters :: "string \<Rightarrow> u64 \<Rightarrow> Watcher \<Rightarrow> Watcher" where
  "resetExtensionCounters extension respawn_time w =
     set_extension_state extension (reset_counters respawn_time (extension_state extension w)) w"

fun find_extension :: "(string, int option) omap \<Rightarrow> int \<Rightarrow> string throwing" where
  "find_extension [] child = Inr []"
| "find_extension ((_, None) # es) child = Inl (undefined_behaviour ''null process'')"
| "find_extension ((name, Some p) # es) child = (if p = child then Inr name else find_extension es child)"

definition getExtensionPath :: "int \<Rightarrow> Watcher \<Rightarrow> string throwing" where
  "getExtensionPath child w = find_extension (extensions w) child"

definition removeExtensionPath :: "string \<Rightarrow> Watcher \<Rightarrow> Watcher" where
  "removeExtensionPath extension w =
     w\<lparr>extensions := om_del extension (extensions w), extension_states := om_del extension (extension_states w)\<rparr>"

text \<open>The state of a child, with the way to write it back: \<open>getState\<close> returns a reference.\<close>

definition getState :: "int \<Rightarrow> Watcher \<Rightarrow> (PerformanceState \<times> (PerformanceState \<Rightarrow> Watcher \<Rightarrow> Watcher)) throwing" where
  "getState child w =
     (if child = worker w then Inr (wt_state w, \<lambda>s w. w\<lparr>wt_state := s\<rparr>)
      else exn_bind (getExtensionPath child w) (\<lambda>path. Inr (extension_state path w, set_extension_state path)))"

definition setWorker :: "int \<Rightarrow> Watcher \<Rightarrow> Watcher" where
  "setWorker child w = w\<lparr>worker := child\<rparr>"

definition setExtension :: "string \<Rightarrow> int option \<Rightarrow> Watcher \<Rightarrow> Watcher" where
  "setExtension extension child w = w\<lparr>extensions_watched := True, extensions := om_set extension child (extensions w)\<rparr>"

text \<open>
  The search of \<open>reset\<close> among the extensions. \<open>child\<close> is a reference to the process that the entry owns: replacing
  the entry destroys it, and the comparison for any later extension reads freed memory.
\<close>

fun reset_extensions :: "(string, int option) omap \<Rightarrow> int \<Rightarrow> Watcher \<Rightarrow> Watcher throwing" where
  "reset_extensions [] child w = Inr w"
| "reset_extensions ((_, None) # es) child w = Inl (undefined_behaviour ''null process'')"
| "reset_extensions ((name, Some p) # es) child w =
     (if p = child
      then let w1 = resetExtensionCounters name 0 (setExtension name (Some kInvalidPid) w)
           in if es = [] then Inr w1 else Inl (undefined_behaviour ''use of a destroyed process'')
      else reset_extensions es child w)"

definition reset :: "int \<Rightarrow> Watcher \<Rightarrow> Watcher throwing" where
  "reset child w =
     (if child = worker w then Inr (resetWorkerCounters 0 (w\<lparr>worker := kInvalidPid\<rparr>))
      else reset_extensions (extensions w) child w)"

definition loadExtensions :: "string list \<Rightarrow> Watcher \<Rightarrow> Watcher" where
  "loadExtensions autoload_paths w =
     fold (\<lambda>path w. resetExtensionCounters path 0 (setExtension path (Some kInvalidPid) w)) autoload_paths w"

definition hasManagedExtensions :: "'w os_env \<Rightarrow> 'w watch_world \<Rightarrow> bool" where
  "hasManagedExtensions e w \<longleftrightarrow> (if extensions_watched (ww_watcher w) then True else os_extensions_variable e (ww_os w))"

definition bindFates :: "Watcher \<Rightarrow> Watcher" where
  "bindFates w = w\<lparr>restart_worker := False\<rparr>"

definition fatesBound :: "'w os_env \<Rightarrow> 'w watch_world \<Rightarrow> bool" where
  "fatesBound e w \<longleftrightarrow> \<not> restart_worker (ww_watcher w) \<or> os_signalled e (ww_os w)"

definition workerRestarted :: "Watcher \<Rightarrow> Watcher" where
  "workerRestarted w = w\<lparr>worker_restarts := worker_restarts w + 1\<rparr>"

section \<open>Checks of a child\<close>

definition upd_watcher :: "(Watcher \<Rightarrow> Watcher) \<Rightarrow> 'w watch_world \<Rightarrow> 'w watch_world" where
  "upd_watcher g w = w\<lparr>ww_watcher := g (ww_watcher w)\<rparr>"

definition request_shutdown :: "int \<Rightarrow> 'w watch_world \<Rightarrow> 'w watch_world" where
  "request_shutdown retcode w = w\<lparr>ww_shutdown := requestShutdown retcode (ww_shutdown w)\<rparr>"

definition memory_message :: "watchdog_flags \<Rightarrow> PerformanceChange \<Rightarrow> string" where
  "memory_message f change =
     ''Memory limits exceeded: '' @ to_string_u64 (pc_footprint change) @ '' bytes (limit is ''
       @ to_string_u64 (getWorkerLimit f MEMORY_LIMIT) @ ''MB)''"

definition cycles_message :: "watchdog_flags \<Rightarrow> PerformanceChange \<Rightarrow> string" where
  "cycles_message f change =
     ''Maximum sustainable CPU utilization limit '' @ to_string_u64 (cpuUtilizationTimeLimit f change) @ ''ms exceeded for ''
       @ to_string_u64 (pc_sustained_latency change * pc_check_interval change) @ '' seconds''"

definition isWatcherHealthy ::
  "watchdog_flags \<Rightarrow> 'w os_env \<Rightarrow> PerformanceState \<Rightarrow> 'w watch_world \<Rightarrow> Status \<times> PerformanceState" where
  "isWatcherHealthy f e watcher_state w =
     (case os_rows e (os_getpid e) (ww_os w) of
        [] \<Rightarrow> (Status_msg 1 ''Cannot find watcher process'', watcher_state)
      | row # _ \<Rightarrow>
          let (change, state) = getChange f row watcher_state
          in (if exceededMemoryLimit f change then Status_msg 1 (memory_message f change) else Status_code 0, state))"

definition isChildSane :: "watchdog_flags \<Rightarrow> 'w os_env \<Rightarrow> int \<Rightarrow> 'w watch_world \<Rightarrow> (Status \<times> 'w watch_world) throwing" where
  "isChildSane f e child w =
     (case os_rows e child (ww_os w) of
        [] \<Rightarrow> Inr (Status_msg 1 ''Cannot find process'', w)
      | row # _ \<Rightarrow>
          exn_bind (getState child (ww_watcher w)) (\<lambda>(state, put).
            let (change, state1) = getChange f row state; w1 = upd_watcher (put state1) w
            in if pc_parent change \<noteq> os_getpid e
               then exn_bind (reset child (ww_watcher w1)) (\<lambda>wt. Inr (Status_code 0, w1\<lparr>ww_watcher := wt\<rparr>))
               else if exceededCyclesLimit f change then Inr (Status_msg 1 (cycles_message f change), w1)
               else if exceededMemoryLimit f change then Inr (Status_msg 1 (memory_message f change), w1)
               else Inr (Status_code 0, w1)))"

definition delayedTime :: "watchdog_flags \<Rightarrow> 'w watch_world \<Rightarrow> u64" where
  "delayedTime f w = worker_start_time (ww_watcher w) + watchdog_delay f"

definition stop_timeout :: "watchdog_flags \<Rightarrow> bool \<Rightarrow> u64" where
  "stop_timeout f force = (if force then watchdog_forced_shutdown_delay f else alarm_timeout f - 4) * 1000"

definition stopChild :: "watchdog_flags \<Rightarrow> 'w os_env \<Rightarrow> int \<Rightarrow> bool \<Rightarrow> 'w watch_world \<Rightarrow> 'w watch_world" where
  "stopChild f e child force w =
     (let (exited, w1) = (if stop_timeout f force > 0 then cleanup e child (stop_timeout f force) (killGracefully e child w)
                          else (False, w))
      in if exited then w1
         else let (exited2, w2) = cleanup e child 2000 (kill e child w1)
              in if exited2 then w2 else request_shutdown EXIT_CATASTROPHIC w2)"

definition watch :: "watchdog_flags \<Rightarrow> 'w os_env \<Rightarrow> int \<Rightarrow> 'w watch_world \<Rightarrow> (bool \<times> 'w watch_world) throwing" where
  "watch f e child w =
     (let (result, process_status, w1) = checkStatus e child 0 w
      in if fatesBound e w1 then Inr (False, w1)
         else if \<not> isValid child \<or> result = PROCESS_ERROR then Inr (False, w1)
         else if result = PROCESS_STILL_ALIVE
         then exn_bind (isChildSane f e child w1) (\<lambda>(status, w2).
           if \<not> ok status \<and> os_now e (ww_os w2) \<ge> delayedTime f w2
           then Inr (False, stopChild f e child True (warnResourceLimitHit e child w2))
           else Inr (True, w2))
         else if result = PROCESS_EXITED
         then Inr (False, upd_watcher (\<lambda>wt. wt\<lparr>worker_status := process_status\<rparr>) w1)
         else Inr (True, w1))"

section \<open>New processes\<close>

definition EXIT_FAILURE :: int where "EXIT_FAILURE = 1"
definition EXIT_SUCCESS :: int where "EXIT_SUCCESS = 0"

text \<open>\<open>fork\<close> and \<open>execve\<close>; a null pointer if there is no child.\<close>

definition launch :: "'w os_env \<Rightarrow> string \<Rightarrow> 'w watch_world \<Rightarrow> int option \<times> 'w watch_world" where
  "launch e path w = (let (p, os) = os_fork e path (ww_os w) in (if p < 0 then None else Some p, w\<lparr>ww_os := os\<rparr>))"

text \<open>The delay of a worker that respawns too quickly. A power of two that does not fit has no defined conversion.\<close>

definition respawn_delay :: "watchdog_flags \<Rightarrow> u64 \<Rightarrow> u64 throwing" where
  "respawn_delay f restarts =
     (if unat restarts \<ge> 64 then Inl (undefined_behaviour ''conversion of pow'')
      else let delay = getWorkerLimit f RESPAWN_DELAY + 2 ^ unat restarts
           in Inr (if delay < watchdog_max_delay f then delay else watchdog_max_delay f))"

definition worker_backoff :: "watchdog_flags \<Rightarrow> 'w os_env \<Rightarrow> 'w watch_world \<Rightarrow> 'w watch_world throwing" where
  "worker_backoff f e w =
     (if ps_last_respawn_time (wt_state (ww_watcher w)) > os_now e (ww_os w) - getWorkerLimit f RESPAWN_LIMIT
      then let w1 = upd_watcher workerRestarted w
           in exn_bind (respawn_delay f (worker_restarts (ww_watcher w1))) (\<lambda>delay.
                Inr (w1\<lparr>ww_os := os_pause e delay (ww_os w1)\<rparr>))
      else Inr w)"

definition launch_worker :: "'w os_env \<Rightarrow> 'w watch_world \<Rightarrow> 'w watch_world" where
  "launch_worker e w =
     (case os_path_rows e (ww_os w) of
        [row] \<Rightarrow>
          (case om_get row ''path'' of
             None \<Rightarrow> request_shutdown EXIT_FAILURE w
           | Some path \<Rightarrow>
               if path = [] then request_shutdown EXIT_FAILURE w
               else let w1 = (if hasManagedExtensions e w then w\<lparr>ww_os := os_set_extensions_variable e (ww_os w)\<rparr> else w);
                        exec_path = os_complete e path
                    in if \<not> os_pathExists e exec_path (ww_os w1) then w1
                       else if \<not> os_safePermissions e exec_path (ww_os w1) then request_shutdown EXIT_FAILURE w1
                       else (case launch e exec_path w1 of
                               (None, w2) \<Rightarrow> request_shutdown EXIT_FAILURE w2
                             | (Some p, w2) \<Rightarrow>
                                 upd_watcher (\<lambda>wt. (resetWorkerCounters (os_now e (ww_os w2)) (setWorker p wt))\<lparr>worker_status := -1\<rparr>) w2))
      | _ \<Rightarrow> request_shutdown EXIT_FAILURE w)"

definition createWorker :: "watchdog_flags \<Rightarrow> 'w os_env \<Rightarrow> 'w watch_world \<Rightarrow> 'w watch_world throwing" where
  "createWorker f e w =
     (if os_interrupted e (ww_os w) then Inr w
      else exn_bind (worker_backoff f e (upd_watcher (\<lambda>wt. wt\<lparr>worker_start_time := os_now e (ww_os w)\<rparr>) w))
             (\<lambda>w1. Inr (launch_worker e w1)))"

text \<open>The last line of \<open>createExtension\<close> reads the process for a verbose message.\<close>

definition createExtension :: "watchdog_flags \<Rightarrow> 'w os_env \<Rightarrow> string \<Rightarrow> 'w watch_world \<Rightarrow> 'w watch_world throwing" where
  "createExtension f e extension w =
     (if os_interrupted e (ww_os w) then Inr w
      else let w0 = upd_watcher (set_extension_state extension (extension_state extension (ww_watcher w))) w;
               exec_path = os_complete e extension
           in if \<not> os_pathExists e exec_path (ww_os w0) then Inr w0
              else if \<not> os_safePermissions e exec_path (ww_os w0) then Inr w0
              else let (p, w1) = launch e exec_path w0;
                       w2 = (if p = None then request_shutdown EXIT_FAILURE w1 else w1);
                       w3 = upd_watcher (\<lambda>wt. resetExtensionCounters extension (os_now e (ww_os w2)) (setExtension extension p wt)) w2
                   in if p = None \<and> wf_verbose f then Inl (undefined_behaviour ''null process'') else Inr w3)"

section \<open>The watch loop\<close>

definition set_extension_restarts :: "string \<Rightarrow> u64 \<Rightarrow> 'w watch_world \<Rightarrow> 'w watch_world" where
  "set_extension_restarts extension n w = w\<lparr>extension_restarts := om_set extension n (extension_restarts w)\<rparr>"

definition restart_extension :: "watchdog_flags \<Rightarrow> 'w os_env \<Rightarrow> string \<Rightarrow> 'w watch_world \<Rightarrow> (bool \<times> 'w watch_world) throwing" where
  "restart_extension f e extension w =
     exn_bind (createExtension f e extension w) (\<lambda>w'.
       Inr (True, set_extension_restarts extension ((case om_get (extension_restarts w') extension of Some n \<Rightarrow> n | None \<Rightarrow> 0) + 1) w'))"

text \<open>One extension: whether the loop over the extensions goes on.\<close>

definition watch_extension :: "watchdog_flags \<Rightarrow> 'w os_env \<Rightarrow> string \<Rightarrow> 'w watch_world \<Rightarrow> (bool \<times> 'w watch_world) throwing" where
  "watch_extension f e extension w =
     (case om_get (extensions (ww_watcher w)) extension of
        Some (Some p) \<Rightarrow>
          let (status, _, w1) = checkStatus e p 0 w
          in if status \<noteq> PROCESS_STILL_ALIVE then restart_extension f e extension w1
             else if \<not> enable_extensions_watchdog f then Inr (True, set_extension_restarts extension 0 w1)
             else if os_now e (ww_os w1) < delayedTime f w1 then Inr (False, w1)
             else exn_bind (isChildSane f e p w1) (\<lambda>(s, w2).
               if \<not> ok s
               then let w3 = stopChild f e p True w2
                    in restart_extension f e extension (w3\<lparr>ww_os := os_pause e (getWorkerLimit f INTERVAL) (ww_os w3)\<rparr>)
               else Inr (True, set_extension_restarts extension 0 w2))
      | _ \<Rightarrow> Inl (undefined_behaviour ''null process''))"

fun watch_each :: "watchdog_flags \<Rightarrow> 'w os_env \<Rightarrow> string list \<Rightarrow> 'w watch_world \<Rightarrow> 'w watch_world throwing" where
  "watch_each f e [] w = Inr w"
| "watch_each f e (x # xs) w =
     exn_bind (watch_extension f e x w) (\<lambda>(goes_on, w1). if goes_on then watch_each f e xs w1 else Inr w1)"

definition watchExtensions :: "watchdog_flags \<Rightarrow> 'w os_env \<Rightarrow> 'w watch_world \<Rightarrow> 'w watch_world throwing" where
  "watchExtensions f e w = watch_each f e (om_keys (extensions (ww_watcher w))) w"

definition runner_ok :: "'w os_env \<Rightarrow> 'w watch_world \<Rightarrow> bool" where
  "runner_ok e w \<longleftrightarrow>
     (let status = worker_status (ww_watcher w)
      in if status = EXIT_SUCCESS \<or> status = EXIT_CATASTROPHIC then False
         else isValid (worker (ww_watcher w)) \<or> hasManagedExtensions e w)"

text \<open>The worker's part of a turn: whether the turn goes on after it.\<close>

definition watch_worker :: "watchdog_flags \<Rightarrow> 'w os_env \<Rightarrow> 'w watch_world \<Rightarrow> (bool \<times> 'w watch_world) throwing" where
  "watch_worker f e w =
     exn_bind (watch f e (worker (ww_watcher w)) w) (\<lambda>(alive, w1).
       if alive then Inr (True, w1)
       else if fatesBound e w1 then Inr (False, w1)
       else if worker_status (ww_watcher w1) = EXIT_CATASTROPHIC then Inr (False, request_shutdown EXIT_CATASTROPHIC w1)
       else if worker_restarts (ww_watcher w1) = getWorkerLimit f RESPAWN_LIMIT then Inr (False, request_shutdown EXIT_FAILURE w1)
       else exn_bind (createWorker f e w1) (\<lambda>w2.
         Inr (\<not> (os_interrupted e (ww_os w2) \<or> sd_requested (ww_shutdown w2)), w2)))"

definition watch_turn ::
  "watchdog_flags \<Rightarrow> 'w os_env \<Rightarrow> bool \<Rightarrow> bool \<Rightarrow> PerformanceState \<Rightarrow> 'w watch_world
   \<Rightarrow> (bool \<times> PerformanceState \<times> 'w watch_world) throwing" where
  "watch_turn f e use_worker run_once watcher_state w =
     exn_bind (if use_worker then watch_worker f e w else Inr (True, w)) (\<lambda>(goes_on, w1).
       if \<not> goes_on then Inr (False, watcher_state, w1)
       else exn_bind (watchExtensions f e w1) (\<lambda>w2.
         let (status, state1) = (if use_worker then isWatcherHealthy f e watcher_state w2 else (Status_code 0, watcher_state))
         in if \<not> ok status then Inr (False, state1, request_shutdown EXIT_CATASTROPHIC w2)
            else if run_once then Inr (False, state1, w2)
            else let w3 = w2\<lparr>ww_os := os_pause e (getWorkerLimit f INTERVAL) (ww_os w2)\<rparr>
                 in Inr (\<not> os_interrupted e (ww_os w3) \<and> runner_ok e w3, state1, w3)))"

text \<open>The loop may go on for as long as the worker is well, so it has fuel; \<open>None\<close> is a loop that has not ended.\<close>

fun watch_loop ::
  "watchdog_flags \<Rightarrow> 'w os_env \<Rightarrow> bool \<Rightarrow> bool \<Rightarrow> nat \<Rightarrow> PerformanceState \<Rightarrow> 'w watch_world \<Rightarrow> 'w watch_world throwing option" where
  "watch_loop f e use_worker run_once 0 watcher_state w = None"
| "watch_loop f e use_worker run_once (Suc fuel) watcher_state w =
     (case watch_turn f e use_worker run_once watcher_state w of
        Inl ex \<Rightarrow> Some (Inl ex)
      | Inr (goes_on, state1, w1) \<Rightarrow>
          if goes_on then watch_loop f e use_worker run_once fuel state1 w1 else Some (Inr w1))"

definition WatcherRunner_start ::
  "watchdog_flags \<Rightarrow> 'w os_env \<Rightarrow> bool \<Rightarrow> bool \<Rightarrow> nat \<Rightarrow> 'w watch_world \<Rightarrow> 'w watch_world throwing option" where
  "WatcherRunner_start f e use_worker run_once fuel w =
     watch_loop f e use_worker run_once fuel PerformanceState_new (upd_watcher (resetWorkerCounters 0) w)"

text \<open>
  The end of the runner: every extension is stopped, each in a thread of its own, then the worker if there is one;
  the threads are joined. Their order is that of the extensions here.
\<close>

fun stop_extensions :: "watchdog_flags \<Rightarrow> 'w os_env \<Rightarrow> (string, int option) omap \<Rightarrow> 'w watch_world \<Rightarrow> 'w watch_world throwing" where
  "stop_extensions f e [] w = Inr w"
| "stop_extensions f e ((_, None) # es) w = Inl (undefined_behaviour ''null process'')"
| "stop_extensions f e ((_, Some p) # es) w = stop_extensions f e es (stopChild f e p False w)"

definition WatcherRunner_stop :: "watchdog_flags \<Rightarrow> 'w os_env \<Rightarrow> 'w watch_world \<Rightarrow> 'w watch_world throwing" where
  "WatcherRunner_stop f e w =
     exn_bind (stop_extensions f e (extensions (ww_watcher w)) w) (\<lambda>w1.
       Inr (if isValid (worker (ww_watcher w1)) then stopChild f e (worker (ww_watcher w1)) False w1 else w1))"

text \<open>The worker's own watch over its launcher.\<close>

fun WatcherWatcherRunner_start :: "watchdog_flags \<Rightarrow> 'w os_env \<Rightarrow> int \<Rightarrow> nat \<Rightarrow> 'w watch_world \<Rightarrow> 'w watch_world option" where
  "WatcherWatcherRunner_start f e launcher 0 w = None"
| "WatcherWatcherRunner_start f e launcher (Suc fuel) w =
     (if os_interrupted e (ww_os w) then Some w
      else if isLauncherProcessDead e launcher (ww_os w) then Some (request_shutdown EXIT_SUCCESS w)
      else WatcherWatcherRunner_start f e launcher fuel (w\<lparr>ww_os := os_pause e (getWorkerLimit f INTERVAL) (ww_os w)\<rparr>))"

end
