(* ===== verification/WatcherSafety.thy ===== *)
theory WatcherSafety
  imports Watcher
begin

text \<open>
  Properties of the watchdog: when it stops a child, how often it restarts the worker, and that a child is not left
  running unnoticed.
\<close>

section \<open>What the operations leave alone\<close>

lemma send_simps [simp]:
  "ww_watcher (send e p s w) = ww_watcher w" "ww_shutdown (send e p s w) = ww_shutdown w"
  "ww_signals (send e p s w) = ww_signals w @ [(p, s)]" "extension_restarts (send e p s w) = extension_restarts w"
  by (simp_all add: send_def)

lemma kill_simps [simp]:
  "ww_watcher (kill e p w) = ww_watcher w" "ww_shutdown (kill e p w) = ww_shutdown w"
  "ww_watcher (killGracefully e p w) = ww_watcher w" "ww_shutdown (killGracefully e p w) = ww_shutdown w"
  "ww_watcher (warnResourceLimitHit e p w) = ww_watcher w" "ww_shutdown (warnResourceLimitHit e p w) = ww_shutdown w"
  by (simp_all add: kill_def killGracefully_def warnResourceLimitHit_def)

lemma checkStatus_frame:
  "checkStatus e p st w = (r, st', w') \<Longrightarrow> ww_watcher w' = ww_watcher w \<and> ww_shutdown w' = ww_shutdown w \<and> ww_signals w' = ww_signals w"
  by (auto simp: checkStatus_def Let_def split: if_splits prod.splits wait_result.splits)

lemma cleanup_loop_frame:
  "cleanup_loop e p n w = (b, w') \<Longrightarrow> ww_watcher w' = ww_watcher w \<and> ww_shutdown w' = ww_shutdown w \<and> ww_signals w' = ww_signals w \<and>
    (b \<longrightarrow> (\<exists>w0 st. checkStatus e p 0 w0 = (PROCESS_EXITED, st, w')))"
proof (induction n arbitrary: w)
  case (Suc n)
  obtain r st w1 where c: "checkStatus e p 0 w = (r, st, w1)" by (cases "checkStatus e p 0 w")
  note f = checkStatus_frame [OF c]
  show ?case
  proof (cases "r = PROCESS_EXITED")
    case True
    then show ?thesis using Suc.prems c f by auto
  next
    case False
    then have "cleanup_loop e p n (w1\<lparr>ww_os := os_sleep e 200 (ww_os w1)\<rparr>) = (b, w')" using Suc.prems c by simp
    from Suc.IH [OF this] f show ?thesis by simp
  qed
qed simp

lemma cleanup_frame:
  "cleanup e p t w = (b, w') \<Longrightarrow> ww_watcher w' = ww_watcher w \<and> ww_shutdown w' = ww_shutdown w \<and> ww_signals w' = ww_signals w \<and>
    (b \<longrightarrow> (\<exists>w0 st. checkStatus e p 0 w0 = (PROCESS_EXITED, st, w')))"
  using cleanup_loop_frame [of e p "(unat t + 199) div 200" w b w'] by (auto simp: cleanup_def split: if_splits)

lemma request_shutdown_simps [simp]:
  "ww_watcher (request_shutdown c w) = ww_watcher w" "ww_signals (request_shutdown c w) = ww_signals w"
  "ww_os (request_shutdown c w) = ww_os w" "sd_requested (ww_shutdown (request_shutdown c w))"
  by (simp_all add: request_shutdown_def requestShutdown_def setShutdownExitCode_def)

section \<open>Stopping a child\<close>

text \<open>The three ways in which a child is stopped.\<close>

lemma stopChild_cases:
  assumes "isValid p"
  obtains (graceful) w0 st where "checkStatus e p 0 w0 = (PROCESS_EXITED, st, stopChild f e p force w)"
      "ww_signals (stopChild f e p force w) = ww_signals w @ [(p, SIGTERM)]" "ww_shutdown (stopChild f e p force w) = ww_shutdown w"
  | (killed) w0 st xs where "checkStatus e p 0 w0 = (PROCESS_EXITED, st, stopChild f e p force w)"
      "ww_signals (stopChild f e p force w) = ww_signals w @ xs @ [(p, SIGKILL)]" "set xs \<subseteq> {(p, SIGTERM)}"
      "ww_shutdown (stopChild f e p force w) = ww_shutdown w"
  | (stuck) xs where "ww_shutdown (stopChild f e p force w) = requestShutdown EXIT_CATASTROPHIC (ww_shutdown w)"
      "ww_signals (stopChild f e p force w) = ww_signals w @ xs @ [(p, SIGKILL)]" "set xs \<subseteq> {(p, SIGTERM)}"
proof -
  obtain b w1 where 1: "(if stop_timeout f force > 0 then cleanup e p (stop_timeout f force) (killGracefully e p w) else (False, w)) = (b, w1)"
    by (cases "if stop_timeout f force > 0 then cleanup e p (stop_timeout f force) (killGracefully e p w) else (False, w)")
  then obtain xs where xs: "ww_signals w1 = ww_signals w @ xs" "set xs \<subseteq> {(p, SIGTERM)}" "ww_shutdown w1 = ww_shutdown w"
      "b \<longrightarrow> xs = [(p, SIGTERM)] \<and> (\<exists>w0 st. checkStatus e p 0 w0 = (PROCESS_EXITED, st, w1))"
    using cleanup_frame [of e p "stop_timeout f force" "killGracefully e p w" b w1] assms
    by (fastforce simp: killGracefully_def split: if_splits)
  obtain b2 w2 where 2: "cleanup e p 2000 (kill e p w1) = (b2, w2)" by fastforce
  have w2: "ww_signals w2 = ww_signals w @ xs @ [(p, SIGKILL)]" "ww_shutdown w2 = ww_shutdown w"
    using cleanup_frame [OF 2] xs assms by (simp_all add: kill_def)
  have stop: "stopChild f e p force w = (if b then w1 else if b2 then w2 else request_shutdown EXIT_CATASTROPHIC w2)"
    unfolding stopChild_def 1 by (simp add: 2)
  show thesis
  proof (cases b)
    case True
    then show thesis using graceful xs stop by auto
  next
    case False
    show thesis
    proof (cases b2)
      case True
      then show thesis using killed [of _ _ xs] cleanup_frame [OF 2] w2 xs(2) stop False by auto
    next
      case no: False
      then show thesis using stuck [of xs] w2 xs(2) stop False by (simp add: request_shutdown_def)
    qed
  qed
qed


lemma stopChild_watcher [simp]: "ww_watcher (stopChild f e p force w) = ww_watcher w"
proof -
  obtain b w1 where 1: "(if stop_timeout f force > 0 then cleanup e p (stop_timeout f force) (killGracefully e p w) else (False, w)) = (b, w1)"
    by (cases "if stop_timeout f force > 0 then cleanup e p (stop_timeout f force) (killGracefully e p w) else (False, w)")
  have "ww_watcher w1 = ww_watcher w"
    using 1 cleanup_frame [of e p "stop_timeout f force" "killGracefully e p w" b w1] by (auto split: if_splits)
  moreover obtain b2 w2 where 2: "cleanup e p 2000 (kill e p w1) = (b2, w2)" by fastforce
  moreover have "ww_watcher w2 = ww_watcher w1" using cleanup_frame [OF 2] by simp
  ultimately show ?thesis unfolding stopChild_def 1 by (simp add: 2)
qed

section \<open>When the worker is stopped\<close>

lemma upd_watcher_simps [simp]:
  "ww_watcher (upd_watcher g w) = g (ww_watcher w)" "ww_signals (upd_watcher g w) = ww_signals w"
  "ww_shutdown (upd_watcher g w) = ww_shutdown w" "ww_os (upd_watcher g w) = ww_os w"
  by (simp_all add: upd_watcher_def)

lemma isChildSane_cases:
  assumes "isChildSane f e p w = Inr (s, w')"
  obtains (gone) "os_rows e p (ww_os w) = []" "\<not> ok s" "w' = w"
  | (foreign) row rows st put wt where "os_rows e p (ww_os w) = row # rows" "getState p (ww_watcher w) = Inr (st, put)"
      "pc_parent (fst (getChange f row st)) \<noteq> os_getpid e" "reset p (put (snd (getChange f row st)) (ww_watcher w)) = Inr wt"
      "ok s" "w' = w\<lparr>ww_watcher := wt\<rparr>"
  | (own) row rows st put where "os_rows e p (ww_os w) = row # rows" "getState p (ww_watcher w) = Inr (st, put)"
      "pc_parent (fst (getChange f row st)) = os_getpid e" "w' = upd_watcher (put (snd (getChange f row st))) w"
      "ok s \<longleftrightarrow> \<not> exceededCyclesLimit f (fst (getChange f row st)) \<and> \<not> exceededMemoryLimit f (fst (getChange f row st))"
proof (cases "os_rows e p (ww_os w)")
  case Nil
  then have "Status_msg 1 ''Cannot find process'' = s" "w' = w" using assms by (simp_all add: isChildSane_def)
  moreover from this(1) have "\<not> ok s" by auto
  ultimately show thesis using gone [OF Nil] by blast
next
  case (Cons row rows)
  have "\<not> isl (getState p (ww_watcher w))"
    using assms Cons by (cases "getState p (ww_watcher w)") (simp_all add: isChildSane_def)
  then obtain sp where "getState p (ww_watcher w) = Inr sp" by (cases "getState p (ww_watcher w)") simp_all
  then obtain st put where st: "getState p (ww_watcher w) = Inr (st, put)" by (cases sp) simp
  obtain c st1 where c: "getChange f row st = (c, st1)" by fastforce
  show thesis
  proof (cases "pc_parent c = os_getpid e")
    case True
    then have "w' = upd_watcher (put st1) w" "ok s \<longleftrightarrow> \<not> exceededCyclesLimit f c \<and> \<not> exceededMemoryLimit f c"
      using assms Cons st c by (auto simp: isChildSane_def Let_def split: if_splits)
    then show thesis using own [OF Cons st] c True by simp
  next
    case False
    then obtain wt where wt: "reset p (put st1 (ww_watcher w)) = Inr wt" "w' = w\<lparr>ww_watcher := wt\<rparr>" "s = Status_code 0"
      using assms Cons st c by (cases "reset p (put st1 (ww_watcher w))") (simp_all add: isChildSane_def upd_watcher_def)
    then show thesis using foreign [OF Cons st] c False by simp
  qed
qed

lemma isChildSane_frame:
  "isChildSane f e p w = Inr (s, w') \<Longrightarrow> ww_signals w' = ww_signals w \<and> ww_shutdown w' = ww_shutdown w \<and> ww_os w' = ww_os w"
  by (erule isChildSane_cases) simp_all

lemma getChange_parent: "pc_parent (fst (getChange f row st)) = fst (process_columns f row)"
  by (cases "process_columns f row") (simp add: getChange_def Let_def)

text \<open>A child that is found insane is missing from the table of processes, or is the watcher's own.\<close>

lemma insane_child_own:
  assumes "isChildSane f e p w = Inr (s, w')" "\<not> ok s"
  shows "os_rows e p (ww_os w) = [] \<or> fst (process_columns f (hd (os_rows e p (ww_os w)))) = os_getpid e"
  by (rule isChildSane_cases [OF assms(1)]) (use assms(2) in \<open>simp_all add: getChange_parent\<close>)


section \<open>The limit on processor time\<close>

text \<open>Whether each of a sequence of measurements, after the times \<open>t\<close>, shows more time used than allowed.\<close>

definition check_interval_of :: "watchdog_flags \<Rightarrow> u64" where
  "check_interval_of f = (if getWorkerLimit f INTERVAL < 1 then 1 else getWorkerLimit f INTERVAL)"

definition allowed_time :: "watchdog_flags \<Rightarrow> u64" where
  "allowed_time f = (if getWorkerLimit f UTILIZATION_LIMIT > 100 then 100 else getWorkerLimit f UTILIZATION_LIMIT) * (check_interval_of f * 1000) * kNumOfCPUs f div 100"

definition used_times :: "watchdog_flags \<Rightarrow> Row \<Rightarrow> u64 \<times> u64" where
  "used_times f r = (case process_columns f r of (_, u, s, _) \<Rightarrow> (word_of_int u, word_of_int s))"

fun overloads :: "watchdog_flags \<Rightarrow> u64 \<times> u64 \<Rightarrow> Row list \<Rightarrow> bool list" where
  "overloads f t [] = []"
| "overloads f t (r # rs) =
     ((fst (used_times f r) - fst t) + (snd (used_times f r) - snd t) > allowed_time f) # overloads f (used_times f r) rs"

definition measured :: "watchdog_flags \<Rightarrow> Row list \<Rightarrow> PerformanceState \<Rightarrow> PerformanceState" where
  "measured f rs s = fold (\<lambda>r s. snd (getChange f r s)) rs s"

definition complete_row :: "watchdog_flags \<Rightarrow> Row \<Rightarrow> bool" where
  "complete_row f r \<longleftrightarrow> (case process_columns f r of (_, _, _, _, c) \<Rightarrow> c)"

lemma cpu_limit_eq: "pc_check_interval c = check_interval_of f \<Longrightarrow> cpuUtilizationTimeLimit f c = allowed_time f"
  by (simp add: cpuUtilizationTimeLimit_def allowed_time_def Let_def)

lemma getChange_cpu:
  assumes "complete_row f r"
  defines "t \<equiv> used_times f r"
  shows "ps_user_time (snd (getChange f r s)) = fst t" "ps_system_time (snd (getChange f r s)) = snd t"
    "ps_sustained_latency (snd (getChange f r s)) =
       (if (fst t - ps_user_time s) + (snd t - ps_system_time s) > allowed_time f then ps_sustained_latency s + 1 else 0)"
    "pc_sustained_latency (fst (getChange f r s)) = ps_sustained_latency (snd (getChange f r s))"
    "pc_check_interval (fst (getChange f r s)) = check_interval_of f"
proof -
  obtain p u y m where c: "process_columns f r = (p, u, y, m, True)"
    using assms(1) by (cases "process_columns f r") (auto simp: complete_row_def)
  have t: "fst t = word_of_int u" "snd t = word_of_int y" by (simp_all add: t_def used_times_def c)
  show "ps_user_time (snd (getChange f r s)) = fst t" "ps_system_time (snd (getChange f r s)) = snd t"
    "pc_sustained_latency (fst (getChange f r s)) = ps_sustained_latency (snd (getChange f r s))"
    "pc_check_interval (fst (getChange f r s)) = check_interval_of f"
    by (simp_all add: getChange_def c t Let_def check_interval_of_def)
  show "ps_sustained_latency (snd (getChange f r s)) =
       (if (fst t - ps_user_time s) + (snd t - ps_system_time s) > allowed_time f then ps_sustained_latency s + 1 else 0)"
    unfolding t by (simp add: getChange_def c Let_def cpu_limit_eq check_interval_of_def)
qed

lemma measured_snoc: "measured f (rs @ [r]) s = snd (getChange f r (measured f rs s))"
  by (simp add: measured_def)

lemma overloads_snoc:
  assumes "\<forall>x \<in> set rs. complete_row f x"
  shows "overloads f (ps_user_time s, ps_system_time s) (rs @ [r]) = overloads f (ps_user_time s, ps_system_time s) rs @
    [(fst (used_times f r) - ps_user_time (measured f rs s)) + (snd (used_times f r) - ps_system_time (measured f rs s)) > allowed_time f]"
  using assms
proof (induction rs arbitrary: s)
  case (Cons x rs)
  have "used_times f x = (ps_user_time (snd (getChange f x s)), ps_system_time (snd (getChange f x s)))"
    using Cons.prems by (simp add: getChange_cpu prod_eq_iff)
  then show ?case using Cons.IH [of "snd (getChange f x s)"] Cons.prems by (simp add: measured_def)
qed (simp add: measured_def)

lemma length_overloads: "length (overloads f t rs) = length rs"
  by (induction f t rs rule: overloads.induct) simp_all

text \<open>The count of the last overloads in a row.\<close>

definition run_of_overloads :: "bool list \<Rightarrow> nat" where
  "run_of_overloads os = length (takeWhile id (rev os))"

lemma run_of_overloads_snoc: "run_of_overloads (os @ [b]) = (if b then Suc (run_of_overloads os) else 0)"
  by (simp add: run_of_overloads_def)

lemma run_of_overloads_le: "run_of_overloads os \<le> length os"
  using length_takeWhile_le [of id "rev os"] by (simp add: run_of_overloads_def)

lemma run_of_overloads_iff: "k \<le> length os \<Longrightarrow> k \<le> run_of_overloads os \<longleftrightarrow> set (drop (length os - k) os) \<subseteq> {True}"
proof (induction os arbitrary: k rule: rev_induct)
  case (snoc b os)
  show ?case
  proof (cases k)
    case (Suc j)
    then have "drop (length (os @ [b]) - k) (os @ [b]) = drop (length os - j) os @ [b]" using snoc.prems by simp
    then show ?thesis using snoc.IH [of j] snoc.prems Suc by (auto simp: run_of_overloads_snoc)
  qed simp
qed simp

lemma sustained_latency_counts:
  assumes "\<forall>x \<in> set rs. complete_row f x" "ps_sustained_latency s = 0"
  shows "ps_sustained_latency (measured f rs s) = of_nat (run_of_overloads (overloads f (ps_user_time s, ps_system_time s) rs))"
  using assms
proof (induction rs rule: rev_induct)
  case Nil
  then show ?case by (simp add: measured_def run_of_overloads_def)
next
  case (snoc r rs)
  then show ?case by (simp add: measured_snoc overloads_snoc run_of_overloads_snoc getChange_cpu)
qed

lemma product_word_le:
  "n * unat i < 2 ^ 64 \<Longrightarrow> (l :: u64) \<le> of_nat n * i \<longleftrightarrow> unat l \<le> n * unat i"
proof (cases "i = 0")
  case False
  assume a: "n * unat i < 2 ^ 64"
  have "1 \<le> unat i" using False by (simp add: Suc_le_eq unat_gt_0)
  then have "n * 1 \<le> n * unat i" by (rule mult_le_mono2)
  then have "n < 2 ^ 64" using a by linarith
  then have "unat (of_nat n * i) = n * unat i"
    using a by (subst unat_mult_lem [THEN iffD1]) (simp_all add: unat_of_nat take_bit_nat_eq_self)
  then show ?thesis by (simp add: word_le_nat_alt)
qed (simp add: word_le_nat_alt)

text \<open>
  C37. A child is reported for its use of the processor exactly if the latest checks, as many in a row as the latency
  limit takes at the check interval, have each found more time used since the check before than the configured
  share of all processors: one check within the limit starts the count afresh.
\<close>

theorem cpu_limit_needs_sustained_use:
  assumes "\<forall>x \<in> set (rs @ [r]). complete_row f x" "ps_sustained_latency s = 0"
    and "(length rs + 1) * unat (check_interval_of f) < 2 ^ 64"
  defines "os \<equiv> overloads f (ps_user_time s, ps_system_time s) (rs @ [r])"
  shows "exceededCyclesLimit f (fst (getChange f r (measured f rs s))) \<longleftrightarrow>
    (\<exists>k. 0 < k \<and> k \<le> length os \<and> unat (getWorkerLimit f LATENCY_LIMIT) \<le> k * unat (check_interval_of f) \<and>
      set (drop (length os - k) os) \<subseteq> {True})"
proof -
  let ?n = "run_of_overloads os" and ?i = "check_interval_of f" and ?c = "fst (getChange f r (measured f rs s))"
  have r: "complete_row f r" "\<forall>x \<in> set rs. complete_row f x" using assms(1) by simp_all
  have len: "length os = length rs + 1" by (simp add: os_def length_overloads)
  have n: "?n \<le> length rs + 1" using run_of_overloads_le [of os] len by simp
  have c: "pc_sustained_latency ?c = of_nat ?n" "pc_check_interval ?c = ?i"
    using sustained_latency_counts [OF assms(1,2)] r(1) by (simp_all add: os_def getChange_cpu measured_snoc)
  have small: "?n * unat ?i < 2 ^ 64" using assms(3) mult_le_mono1 [OF n, of "unat ?i"] by linarith
  have i: "1 \<le> unat ?i" by (auto simp: check_interval_of_def word_less_nat_alt)
  have "?n * 1 \<le> ?n * unat ?i" by (rule mult_le_mono2 [OF i])
  then have "?n < 2 ^ 64" using small by linarith
  then have "unat (of_nat ?n :: u64) = ?n" by (simp add: unat_of_nat take_bit_nat_eq_self)
  then have zero: "(of_nat ?n :: u64) = 0 \<longleftrightarrow> ?n = 0" using unat_eq_zero [of "of_nat ?n :: u64"] by (simp only:)
  have "exceededCyclesLimit f ?c \<longleftrightarrow> ?n \<noteq> 0 \<and> unat (getWorkerLimit f LATENCY_LIMIT) \<le> ?n * unat ?i"
    unfolding exceededCyclesLimit_def c zero product_word_le [OF small] by simp
  also have "\<dots> \<longleftrightarrow> (\<exists>k. 0 < k \<and> k \<le> ?n \<and> unat (getWorkerLimit f LATENCY_LIMIT) \<le> k * unat ?i)"
    by (auto intro: le_trans mult_le_mono1)
  also have "\<dots> \<longleftrightarrow> (\<exists>k. 0 < k \<and> k \<le> length os \<and> k \<le> ?n \<and> unat (getWorkerLimit f LATENCY_LIMIT) \<le> k * unat ?i)"
    using run_of_overloads_le [of os] by (auto intro: le_trans)
  also have "\<dots> \<longleftrightarrow> (\<exists>k. 0 < k \<and> k \<le> length os \<and> unat (getWorkerLimit f LATENCY_LIMIT) \<le> k * unat ?i \<and> set (drop (length os - k) os) \<subseteq> {True})"
    by (intro ex_cong1) (auto simp only: run_of_overloads_iff)
  finally show ?thesis .
qed

section \<open>Restarts of the worker\<close>

text \<open>The turns of the watch loop, from a watcher that has not restarted a worker yet.\<close>

inductive watch_reach :: "watchdog_flags \<Rightarrow> 'w os_env \<Rightarrow> bool \<Rightarrow> bool \<Rightarrow> PerformanceState \<Rightarrow> 'w watch_world \<Rightarrow> bool"
  for f :: watchdog_flags and e :: "'w os_env" and use_worker run_once :: bool
where
  reach_start: "worker_restarts (ww_watcher w) = 0 \<Longrightarrow>
    watch_reach f e use_worker run_once PerformanceState_new (upd_watcher (resetWorkerCounters 0) w)"
| reach_turn: "watch_reach f e use_worker run_once ws w \<Longrightarrow> watch_turn f e use_worker run_once ws w = Inr (True, ws', w') \<Longrightarrow>
    watch_reach f e use_worker run_once ws' w'"

text \<open>What the checks of children and the care for extensions leave alone.\<close>

definition same_restarts :: "'w watch_world \<Rightarrow> 'w watch_world \<Rightarrow> bool" where
  "same_restarts w w' \<longleftrightarrow> worker_restarts (ww_watcher w') = worker_restarts (ww_watcher w) \<and>
     (extensions (ww_watcher w) = [] \<longrightarrow> extensions (ww_watcher w') = [])"

lemma same_restarts_refl [intro, simp]: "ww_watcher w' = ww_watcher w \<Longrightarrow> same_restarts w w'"
  by (simp add: same_restarts_def)

lemma same_restarts_trans [trans]: "same_restarts w w' \<Longrightarrow> same_restarts w' w'' \<Longrightarrow> same_restarts w w''"
  by (simp add: same_restarts_def)

lemma getState_put:
  "getState p wt = Inr (st, put) \<Longrightarrow> worker_restarts (put s wt') = worker_restarts wt' \<and> extensions (put s wt') = extensions wt'"
  by (auto simp: getState_def exn_bind_Inr_iff set_extension_state_def split: if_splits)

lemma reset_extensions_restarts:
  "reset_extensions es p wt = Inr wt' \<Longrightarrow> worker_restarts wt' = worker_restarts wt \<and> (es = [] \<longrightarrow> wt' = wt)"
  by (induction es p wt rule: reset_extensions.induct)
    (auto simp: Let_def resetExtensionCounters_def set_extension_state_def setExtension_def split: if_splits)

lemma reset_restarts:
  "reset p wt = Inr wt' \<Longrightarrow> worker_restarts wt' = worker_restarts wt \<and> (extensions wt = [] \<longrightarrow> extensions wt' = [])"
  using reset_extensions_restarts [of "extensions wt" p wt wt'] by (auto simp: reset_def resetWorkerCounters_def split: if_splits)

lemma isChildSane_restarts:
  assumes "isChildSane f e p w = Inr (s, w')"
  shows "same_restarts w w'"
proof (rule isChildSane_cases [OF assms], goal_cases)
  case (2 row rows st put wt)
  then show ?case using getState_put [OF 2(2)] reset_restarts [OF 2(4)] by (simp add: same_restarts_def)
next
  case (3 row rows st put)
  then show ?case using getState_put [OF 3(2)] by (simp add: same_restarts_def)
qed simp

lemma watch_restarts:
  assumes "watch f e p w = Inr (b, w')"
  shows "same_restarts w w'"
proof -
  obtain r st w1 where c: "checkStatus e p 0 w = (r, st, w1)" by (cases "checkStatus e p 0 w")
  have 1: "same_restarts w w1" using checkStatus_frame [OF c] by simp
  show ?thesis
  proof (cases "\<not> fatesBound e w1 \<and> isValid p \<and> r = PROCESS_STILL_ALIVE")
    case True
    then obtain s w2 where s: "isChildSane f e p w1 = Inr (s, w2)" "w' = w2 \<or> w' = stopChild f e p True (warnResourceLimitHit e p w2)"
      using assms c by (auto simp: watch_def Let_def exn_bind_Inr_iff split: if_splits)
    have "same_restarts w2 w'" using s(2) by auto
    then show ?thesis using 1 isChildSane_restarts [OF s(1)] by (blast intro: same_restarts_trans)
  next
    case False
    then have "w' = w1 \<or> w' = upd_watcher (\<lambda>wt. wt\<lparr>worker_status := st\<rparr>) w1"
      using assms c by (auto simp: watch_def Let_def split: if_splits)
    then show ?thesis using 1 by (auto simp: same_restarts_def)
  qed
qed

lemma launch_watcher: "launch e path w = (p, w') \<Longrightarrow> ww_watcher w' = ww_watcher w \<and> ww_shutdown w' = ww_shutdown w"
  by (auto simp: launch_def split: prod.splits)

lemma createExtension_restarts:
  "createExtension f e x w = Inr w' \<Longrightarrow> worker_restarts (ww_watcher w') = worker_restarts (ww_watcher w)"
  by (auto simp: createExtension_def Let_def set_extension_state_def resetExtensionCounters_def setExtension_def
      dest: launch_watcher split: if_splits prod.splits)

lemma restart_extension_restarts:
  "restart_extension f e x w = Inr (b, w') \<Longrightarrow> worker_restarts (ww_watcher w') = worker_restarts (ww_watcher w)"
  by (auto simp: restart_extension_def exn_bind_Inr_iff set_extension_restarts_def dest: createExtension_restarts)

lemma watch_extension_restarts:
  assumes "watch_extension f e x w = Inr (b, w')"
  shows "worker_restarts (ww_watcher w') = worker_restarts (ww_watcher w)"
proof -
  obtain p where p: "om_get (extensions (ww_watcher w)) x = Some (Some p)"
    using assms by (auto simp: watch_extension_def split: option.splits)
  obtain r st w1 where c: "checkStatus e p 0 w = (r, st, w1)" by (cases "checkStatus e p 0 w")
  note body = assms [unfolded watch_extension_def p option.case c Let_def prod.case]
  have w1: "worker_restarts (ww_watcher w1) = worker_restarts (ww_watcher w)" using checkStatus_frame [OF c] by simp
  show ?thesis
  proof (cases "r = PROCESS_STILL_ALIVE \<and> enable_extensions_watchdog f \<and> \<not> os_now e (ww_os w1) < delayedTime f w1")
    case True
    then obtain s w2 where s: "isChildSane f e p w1 = Inr (s, w2)" using body by (auto simp: exn_bind_Inr_iff)
    have "worker_restarts (ww_watcher w2) = worker_restarts (ww_watcher w)"
      using isChildSane_restarts [OF s] w1 by (simp add: same_restarts_def)
    then show ?thesis using body True s by (auto simp: set_extension_restarts_def dest!: restart_extension_restarts split: if_splits)
  next
    case False
    then show ?thesis using body w1 by (auto simp: set_extension_restarts_def dest!: restart_extension_restarts split: if_splits)
  qed
qed

lemma watch_each_restarts: "watch_each f e xs w = Inr w' \<Longrightarrow> worker_restarts (ww_watcher w') = worker_restarts (ww_watcher w)"
  by (induction xs arbitrary: w) (auto simp: exn_bind_Inr_iff dest: watch_extension_restarts split: if_splits)

lemma watchExtensions_restarts: "watchExtensions f e w = Inr w' \<Longrightarrow> same_restarts w w'"
  using watch_each_restarts [of f e _ w w'] by (auto simp: watchExtensions_def same_restarts_def om_keys_def)

lemma launch_worker_restarts: "same_restarts w (launch_worker e w)"
proof -
  have "same_restarts w2 (upd_watcher (\<lambda>wt. (resetWorkerCounters t (setWorker p wt))\<lparr>worker_status := -1\<rparr>) w2)" for w2 :: "'b watch_world" and t p
    by (simp add: same_restarts_def resetWorkerCounters_def setWorker_def)
  then show ?thesis
    by (auto simp: launch_worker_def Let_def same_restarts_def resetWorkerCounters_def setWorker_def dest!: launch_watcher
        split: list.split option.split prod.split)
qed

lemma createWorker_restarts:
  assumes "createWorker f e w = Inr w'"
  shows "worker_restarts (ww_watcher w') \<in> {worker_restarts (ww_watcher w), worker_restarts (ww_watcher w) + 1} \<and>
    (extensions (ww_watcher w) = [] \<longrightarrow> extensions (ww_watcher w') = [])"
  using assms launch_worker_restarts [of _ e]
  by (auto simp: createWorker_def worker_backoff_def exn_bind_Inr_iff Let_def same_restarts_def workerRestarted_def split: if_splits)

lemma next_below: "n + 1 \<le> l \<and> n \<le> n + 1" if "n \<le> l" "n \<noteq> l" for n l :: u64
proof -
  have "n < l" using that by (rule order.not_eq_order_implies_strict [rotated])
  moreover have "unat l < 2 ^ 64" using unat_u64_bound [of l] by simp
  ultimately have "unat n + 1 < 2 ^ 64" by (simp add: word_less_nat_alt)
  then have "unat (n + 1) = unat n + 1" by (simp add: unat_word_ariths)
  then show ?thesis using \<open>n < l\<close> by (simp add: word_le_nat_alt word_less_nat_alt)
qed

lemma watch_worker_restarts:
  assumes "watch_worker f e w = Inr (b, w')" "worker_restarts (ww_watcher w) \<le> getWorkerLimit f RESPAWN_LIMIT"
  shows "worker_restarts (ww_watcher w) \<le> worker_restarts (ww_watcher w') \<and>
    worker_restarts (ww_watcher w') \<le> getWorkerLimit f RESPAWN_LIMIT \<and>
    (extensions (ww_watcher w) = [] \<longrightarrow> extensions (ww_watcher w') = [])"
proof -
  obtain alive w1 where a: "watch f e (worker (ww_watcher w)) w = Inr (alive, w1)"
    using assms(1) by (auto simp: watch_worker_def exn_bind_Inr_iff)
  note s = watch_restarts [OF a, unfolded same_restarts_def]
  show ?thesis
  proof (cases "alive \<or> fatesBound e w1 \<or> worker_status (ww_watcher w1) = EXIT_CATASTROPHIC \<or>
      worker_restarts (ww_watcher w1) = getWorkerLimit f RESPAWN_LIMIT")
    case True
    then have "ww_watcher w' = ww_watcher w1" using assms(1) a by (auto simp: watch_worker_def split: if_splits)
    then show ?thesis using s assms(2) by simp
  next
    case False
    then obtain w2 where c: "createWorker f e w1 = Inr w2" "w' = w2" using assms(1) a by (auto simp: watch_worker_def exn_bind_Inr_iff)
    have "worker_restarts (ww_watcher w) \<noteq> getWorkerLimit f RESPAWN_LIMIT" using False s by simp
    from next_below [OF assms(2) this] show ?thesis using createWorker_restarts [OF c(1)] s c(2) assms(2) by auto
  qed
qed

lemma watch_turn_restarts:
  assumes "watch_turn f e use_worker run_once ws w = Inr (b, ws', w')" "worker_restarts (ww_watcher w) \<le> getWorkerLimit f RESPAWN_LIMIT"
  shows "worker_restarts (ww_watcher w) \<le> worker_restarts (ww_watcher w') \<and>
    worker_restarts (ww_watcher w') \<le> getWorkerLimit f RESPAWN_LIMIT \<and>
    (extensions (ww_watcher w) = [] \<longrightarrow> extensions (ww_watcher w') = [])"
proof -
  obtain g w1 where 1: "(if use_worker then watch_worker f e w else Inr (True, w)) = Inr (g, w1)"
    using assms(1) by (auto simp: watch_turn_def exn_bind_Inr_iff)
  have w1: "worker_restarts (ww_watcher w) \<le> worker_restarts (ww_watcher w1) \<and>
      worker_restarts (ww_watcher w1) \<le> getWorkerLimit f RESPAWN_LIMIT \<and> (extensions (ww_watcher w) = [] \<longrightarrow> extensions (ww_watcher w1) = [])"
    using 1 assms(2) watch_worker_restarts [of f e w g w1] by (auto split: if_splits)
  show ?thesis
  proof (cases g)
    case False
    then show ?thesis using assms(1) 1 w1 by (simp add: watch_turn_def)
  next
    case True
    then obtain w2 where 2: "watchExtensions f e w1 = Inr w2" using assms(1) 1 by (auto simp: watch_turn_def exn_bind_Inr_iff)
    then have "ww_watcher w' = ww_watcher w2" using assms(1) 1 True by (auto simp: watch_turn_def Let_def split: prod.splits if_splits)
    then show ?thesis using watchExtensions_restarts [OF 2] w1 by (simp add: same_restarts_def)
  qed
qed

lemma watch_reach_restarts:
  "watch_reach f e use_worker run_once ws w \<Longrightarrow> worker_restarts (ww_watcher w) \<le> getWorkerLimit f RESPAWN_LIMIT"
proof (induction rule: watch_reach.induct)
  case (reach_start w)
  then show ?case by (simp add: resetWorkerCounters_def)
next
  case (reach_turn ws w ws' w')
  then show ?case using watch_turn_restarts by blast
qed

text \<open>Without extensions and below 64 restarts, a turn has no undefined behaviour.\<close>

lemma isChildSane_returns:
  assumes "extensions (ww_watcher w) = []"
  shows "\<exists>r. isChildSane f e (worker (ww_watcher w)) w = Inr r"
proof (cases "os_rows e (worker (ww_watcher w)) (ww_os w)")
  case (Cons row rows)
  obtain c st where c: "getChange f row (wt_state (ww_watcher w)) = (c, st)" by fastforce
  show ?thesis using Cons c by (simp add: isChildSane_def getState_def reset_def Let_def)
qed (simp add: isChildSane_def)

lemma watch_returns:
  assumes "extensions (ww_watcher w) = []"
  shows "\<exists>r. watch f e (worker (ww_watcher w)) w = Inr r"
proof -
  obtain r st w1 where c: "checkStatus e (worker (ww_watcher w)) 0 w = (r, st, w1)" by (cases "checkStatus e (worker (ww_watcher w)) 0 w")
  have w1: "ww_watcher w1 = ww_watcher w" using checkStatus_frame [OF c] by simp
  obtain s w2 where "isChildSane f e (worker (ww_watcher w)) w1 = Inr (s, w2)"
    using isChildSane_returns [of w1 f e] assms w1 by auto
  then show ?thesis using c by (auto simp: watch_def Let_def)
qed

lemma createWorker_returns:
  assumes "unat (worker_restarts (ww_watcher w)) < 63"
  shows "\<exists>r. createWorker f e w = Inr r"
proof -
  have "unat (worker_restarts (ww_watcher w) + 1) < 64"
    using assms by (simp add: unat_word_ariths)
  then have "\<exists>r. worker_backoff f e (upd_watcher (\<lambda>wt. wt\<lparr>worker_start_time := os_now e (ww_os w)\<rparr>) w) = Inr r"
    by (simp add: worker_backoff_def respawn_delay_def workerRestarted_def Let_def)
  then show ?thesis by (auto simp: createWorker_def)
qed

lemma watch_turn_returns:
  assumes "extensions (ww_watcher w) = []" "unat (worker_restarts (ww_watcher w)) < 63"
    "worker_restarts (ww_watcher w) \<le> getWorkerLimit f RESPAWN_LIMIT"
  shows "\<exists>r. watch_turn f e use_worker run_once ws w = Inr r"
proof -
  obtain alive w1 where a: "watch f e (worker (ww_watcher w)) w = Inr (alive, w1)" using watch_returns [OF assms(1), of f e] by auto
  have "unat (worker_restarts (ww_watcher w1)) < 63" using watch_restarts [OF a] assms(2) by (simp add: same_restarts_def)
  then obtain w2 where "createWorker f e w1 = Inr w2" using createWorker_returns by blast
  then have "\<exists>r. watch_worker f e w = Inr r" using a by (auto simp: watch_worker_def)
  then obtain g w3 where 3: "(if use_worker then watch_worker f e w else Inr (True, w)) = Inr (g, w3)"
    by (cases use_worker) auto
  then have "extensions (ww_watcher w3) = []"
    using watch_worker_restarts [of f e w g w3] assms by (auto split: if_splits)
  then have "watchExtensions f e w3 = Inr w3" by (simp add: watchExtensions_def om_keys_def)
  then show ?thesis using 3 by (auto simp: watch_turn_def Let_def split: prod.splits)
qed

text \<open>
  In every run of the watch loop the worker is restarted at most as often as the limit allows: the count never
  falls, never passes the limit, and at the limit a worker that has gone ends the watcher with a failure instead of
  being replaced. Unless the limits are switched off, a turn of a watcher without extensions always completes.
\<close>

theorem respawns_bounded:
  assumes "watch_reach f e use_worker run_once ws w"
  shows "worker_restarts (ww_watcher w) \<le> getWorkerLimit f RESPAWN_LIMIT \<and>
    (\<forall>b ws' w'. watch_turn f e use_worker run_once ws w = Inr (b, ws', w') \<longrightarrow>
      worker_restarts (ww_watcher w) \<le> worker_restarts (ww_watcher w') \<and> worker_restarts (ww_watcher w') \<le> getWorkerLimit f RESPAWN_LIMIT) \<and>
    (\<forall>w1. watch f e (worker (ww_watcher w)) w = Inr (False, w1) \<and> \<not> fatesBound e w1 \<and>
      worker_restarts (ww_watcher w) = getWorkerLimit f RESPAWN_LIMIT \<longrightarrow>
      (\<exists>c. watch_worker f e w = Inr (False, request_shutdown c w1) \<and> c \<in> {EXIT_FAILURE, EXIT_CATASTROPHIC})) \<and>
    (extensions (ww_watcher w) = [] \<and> watchdog_level f \<noteq> -1 \<longrightarrow> (\<exists>r. watch_turn f e use_worker run_once ws w = Inr r))"
proof -
  note le = watch_reach_restarts [OF assms]
  have "watchdog_level f \<noteq> -1 \<Longrightarrow> getWorkerLimit f RESPAWN_LIMIT = 4"
    by (simp add: getWorkerLimit_def kWatchdogLimits_def)
  then have small: "watchdog_level f \<noteq> -1 \<Longrightarrow> unat (worker_restarts (ww_watcher w)) < 63"
    using le by (simp add: word_le_nat_alt)
  have give_up: "\<exists>c. watch_worker f e w = Inr (False, request_shutdown c w1) \<and> c \<in> {EXIT_FAILURE, EXIT_CATASTROPHIC}"
    if "watch f e (worker (ww_watcher w)) w = Inr (False, w1)" "\<not> fatesBound e w1" "worker_restarts (ww_watcher w) = getWorkerLimit f RESPAWN_LIMIT" for w1
    using that watch_restarts [OF that(1)] by (cases "worker_status (ww_watcher w1) = EXIT_CATASTROPHIC") (auto simp: watch_worker_def same_restarts_def)
  show ?thesis using le watch_turn_restarts [OF _ le] give_up watch_turn_returns [OF _ small le] by blast
qed

section \<open>The replacement of a worker\<close>

text \<open>The program can be executed: its path is known, exists and is safe, and a fork gives \<open>p\<close>; nobody interrupts.\<close>

definition launchable :: "'w os_env \<Rightarrow> string \<Rightarrow> int \<Rightarrow> bool" where
  "launchable e path p \<longleftrightarrow> path \<noteq> [] \<and> 0 \<le> p \<and> (\<forall>os. os_path_rows e os = [[(''path'', path)]] \<and> os_pathExists e (os_complete e path) os \<and>
     os_safePermissions e (os_complete e path) os \<and> fst (os_fork e (os_complete e path) os) = p \<and>
     \<not> os_interrupted e os \<and> \<not> os_signalled e os)"

text \<open>The state after a new worker \<open>p\<close>: counters at zero, but the memory baseline of the worker before.\<close>

definition fresh_worker :: "int \<Rightarrow> 'w watch_world \<Rightarrow> 'w watch_world \<Rightarrow> bool" where
  "fresh_worker p w w' \<longleftrightarrow> worker (ww_watcher w') = p \<and> worker_status (ww_watcher w') = -1 \<and>
     ps_sustained_latency (wt_state (ww_watcher w')) = 0 \<and> ps_user_time (wt_state (ww_watcher w')) = 0 \<and>
     ps_system_time (wt_state (ww_watcher w')) = 0 \<and>
     ps_initial_footprint (wt_state (ww_watcher w')) = ps_initial_footprint (wt_state (ww_watcher w)) \<and> ww_shutdown w' = ww_shutdown w"

lemma launch_worker_new:
  assumes "launchable e path p"
  shows "fresh_worker p w (launch_worker e w)"
proof -
  define w1 where "w1 = (if hasManagedExtensions e w then w\<lparr>ww_os := os_set_extensions_variable e (ww_os w)\<rparr> else w)"
  have w1: "ww_watcher w1 = ww_watcher w" "ww_shutdown w1 = ww_shutdown w" by (simp_all add: w1_def)
  obtain os where os: "os_fork e (os_complete e path) (ww_os w1) = (p, os)" using assms unfolding launchable_def by (metis prod.collapse)
  have l: "launch e (os_complete e path) w1 = (Some p, w1\<lparr>ww_os := os\<rparr>)" using assms os by (simp add: launch_def launchable_def)
  have "launch_worker e w = upd_watcher (\<lambda>wt. (resetWorkerCounters (os_now e os) (setWorker p wt))\<lparr>worker_status := -1\<rparr>) (w1\<lparr>ww_os := os\<rparr>)"
    using assms l by (simp add: launch_worker_def launchable_def om_get_def Let_def flip: w1_def)
  then show ?thesis using w1 by (simp add: fresh_worker_def resetWorkerCounters_def reset_counters_def setWorker_def)
qed

lemma createWorker_new:
  assumes "launchable e path p" "unat (worker_restarts (ww_watcher w)) < 63"
  shows "\<exists>w'. createWorker f e w = Inr w' \<and> fresh_worker p w w'"
proof -
  define w0 where "w0 = upd_watcher (\<lambda>wt. wt\<lparr>worker_start_time := os_now e (ww_os w)\<rparr>) w"
  have ni: "\<not> os_interrupted e (ww_os w)" using assms(1) by (simp add: launchable_def)
  obtain w1 where w1: "worker_backoff f e w0 = Inr w1"
    using createWorker_returns [OF assms(2), of f e] ni by (auto simp: createWorker_def w0_def exn_bind_Inr_iff)
  have "wt_state (ww_watcher w1) = wt_state (ww_watcher w)" "ww_shutdown w1 = ww_shutdown w"
    using w1 by (auto simp: worker_backoff_def w0_def exn_bind_Inr_iff Let_def workerRestarted_def split: if_splits)
  then have "fresh_worker p w (launch_worker e w1)"
    using launch_worker_new [OF assms(1), of w1] by (simp add: fresh_worker_def)
  then show ?thesis using ni w1 by (simp add: createWorker_def w0_def)
qed

text \<open>
  A worker that has exited with any status but the catastrophic one, with success or by a signal included, is
  replaced in the same turn while restarts are left: the watch goes on over a new process with its counters at
  zero, except for the memory baseline, which stays that of the worker before.
\<close>

theorem exited_worker_replaced:
  assumes "launchable e path p" "isValid p" "isValid (worker (ww_watcher w))" "restart_worker (ww_watcher w)" "\<not> sd_requested (ww_shutdown w)"
    and "fst (os_waitpid e (worker (ww_watcher w)) (ww_os w)) = Wait_status s" "WIFEXITED s \<or> WIFSIGNALED s" "WEXITSTATUS s \<noteq> EXIT_CATASTROPHIC"
    and "worker_restarts (ww_watcher w) \<noteq> getWorkerLimit f RESPAWN_LIMIT" "unat (worker_restarts (ww_watcher w)) < 63"
  shows "\<exists>w'. watch_worker f e w = Inr (True, w') \<and> fresh_worker p w w' \<and> runner_ok e w'"
proof -
  let ?os = "snd (os_waitpid e (worker (ww_watcher w)) (ww_os w))"
  define w1 where "w1 = upd_watcher (\<lambda>wt. wt\<lparr>worker_status := WEXITSTATUS s\<rparr>) (w\<lparr>ww_os := ?os\<rparr>)"
  have c: "checkStatus e (worker (ww_watcher w)) 0 w = (PROCESS_EXITED, WEXITSTATUS s, w\<lparr>ww_os := ?os\<rparr>)"
    using assms(3,6,7) by (auto simp: checkStatus_def case_prod_unfold Let_def)
  have quiet: "\<not> os_signalled e os" "\<not> os_interrupted e os" for os using assms(1) by (simp_all add: launchable_def)
  have watch: "watch f e (worker (ww_watcher w)) w = Inr (False, w1)"
    using c assms(3,4) quiet by (simp add: watch_def fatesBound_def w1_def)
  obtain w2 where w2: "createWorker f e w1 = Inr w2" "fresh_worker p w1 w2"
    using createWorker_new [OF assms(1), of w1 f] assms(10) by (auto simp: w1_def)
  have "watch_worker f e w = Inr (True, w2)"
    using watch w2 assms(4,5,8,9) quiet by (simp add: watch_worker_def fatesBound_def fresh_worker_def w1_def)
  then show ?thesis using w2(2) assms(2) by (simp add: fresh_worker_def runner_ok_def EXIT_SUCCESS_def EXIT_CATASTROPHIC_def w1_def)
qed

text \<open>
  A worker whose launcher has died, and which nobody interrupts before it notices, requests its own shutdown at
  its next check: after \<open>n\<close> checks that found the launcher alive, check \<open>n + 1\<close> ends the loop.
\<close>

theorem orphaned_worker_shuts_down:
  assumes "\<forall>k \<le> n. \<not> os_interrupted e ((os_pause e (getWorkerLimit f INTERVAL) ^^ k) (ww_os w))"
    and "\<forall>k < n. \<not> isLauncherProcessDead e launcher ((os_pause e (getWorkerLimit f INTERVAL) ^^ k) (ww_os w))"
    and "isLauncherProcessDead e launcher ((os_pause e (getWorkerLimit f INTERVAL) ^^ n) (ww_os w))" "n < fuel"
  shows "\<exists>w'. WatcherWatcherRunner_start f e launcher fuel w = Some w' \<and> sd_requested (ww_shutdown w')"
  using assms
proof (induction n arbitrary: fuel w)
  case 0
  then show ?case by (cases fuel) auto
next
  case (Suc n)
  let ?w = "w\<lparr>ww_os := os_pause e (getWorkerLimit f INTERVAL) (ww_os w)\<rparr>"
  obtain fuel' where fuel: "fuel = Suc fuel'" "n < fuel'" using Suc.prems(4) by (cases fuel) auto
  have shift: "(os_pause e (getWorkerLimit f INTERVAL) ^^ k) (ww_os ?w) = (os_pause e (getWorkerLimit f INTERVAL) ^^ Suc k) (ww_os w)" for k
    by (simp add: funpow_swap1)
  have "\<not> os_interrupted e (ww_os w)" "\<not> isLauncherProcessDead e launcher (ww_os w)"
    using Suc.prems(1) [rule_format, of 0] Suc.prems(2) [rule_format, of 0] by simp_all
  moreover have "\<exists>w'. WatcherWatcherRunner_start f e launcher fuel' ?w = Some w' \<and> sd_requested (ww_shutdown w')"
    by (rule Suc.IH [OF _ _ _ fuel(2)]) (unfold shift, use Suc.prems in auto)
  ultimately show ?case using fuel by simp
qed

section \<open>A small operating system\<close>

definition sample_flags :: watchdog_flags where
  "sample_flags =
     \<lparr>watchdog_level = 0, watchdog_memory_limit = 0, watchdog_utilization_limit = 0, watchdog_latency_limit = 3, watchdog_delay = 60,
      watchdog_max_delay = 600, enable_extensions_watchdog = False, watchdog_forced_shutdown_delay = 4, alarm_timeout = 15,
      kNumOfCPUs = 2, wf_platform = TYPE_LINUX, wf_verbose = False\<rparr>"

text \<open>The state is the time. A worker answers \<open>waitpid\<close> as \<open>result\<close> says and is not in the table of processes.\<close>

definition sample_os :: "wait_result \<Rightarrow> nat os_env" where
  "sample_os result =
     \<lparr>os_waitpid = (\<lambda>_ t. (result, t)), os_kill = (\<lambda>_ _ t. t), os_fork = (\<lambda>_ t. (42, t)), os_sleep = (\<lambda>_ t. t), os_pause = (\<lambda>s t. t + unat s),
      os_now = of_nat, os_getpid = 7, os_getppid = (\<lambda>t. if t < 3 then 1 else 0), os_rows = (\<lambda>_ _. []), os_path_rows = (\<lambda>_. [[(''path'', ''/osqueryd'')]]),
      os_complete = id, os_pathExists = (\<lambda>_ _. True), os_safePermissions = (\<lambda>_ _. True), os_extensions_variable = (\<lambda>_. False),
      os_set_extensions_variable = id, os_interrupted = (\<lambda>_. False), os_signalled = (\<lambda>_. False)\<rparr>"

definition sample_world :: "nat watch_world" where
  "sample_world = \<lparr>ww_watcher = Watcher_new\<lparr>worker := 41\<rparr>, extension_restarts = [], ww_shutdown = \<lparr>sd_requested = False, sd_retcode = 0\<rparr>,
     ww_signals = [], ww_os = 1000\<rparr>"


definition no_time_world :: "nat watch_world" where
  "no_time_world = sample_world\<lparr>ww_os := 0\<rparr>"

definition sample_row :: "string \<Rightarrow> Row" where
  "sample_row u = [(''parent'', ''7''), (''resident_size'', ''1''), (''system_time'', ''0''), (''user_time'', u)]"

lemma sample_columns:
  "process_columns sample_flags (sample_row ''5000'') = (7, 5000, 0, 1, True)"
  by (simp add: process_columns_def sample_flags_def sample_row_def row_longlong_def row_at_def om_get_def)
    code_simp

theorem respawns_bounded_witness:
  "worker_restarts (ww_watcher (upd_watcher (resetWorkerCounters 0) sample_world)) \<le> 4 \<and>
   (\<exists>r. watch_turn sample_flags (sample_os Wait_none) True False PerformanceState_new (upd_watcher (resetWorkerCounters 0) sample_world) = Inr r)"
proof -
  have "watch_reach sample_flags (sample_os Wait_none) True False PerformanceState_new (upd_watcher (resetWorkerCounters 0) sample_world)"
    by (rule reach_start) (simp add: sample_world_def Watcher_new_def)
  from respawns_bounded [OF this] show ?thesis
    by (simp add: sample_flags_def getWorkerLimit_def kWatchdogLimits_def resetWorkerCounters_def sample_world_def Watcher_new_def)
qed

theorem exited_worker_replaced_witness:
  "\<exists>w'. watch_worker sample_flags (sample_os (Wait_status 0)) sample_world = Inr (True, w') \<and> worker (ww_watcher w') = 42"
  using exited_worker_replaced [of "sample_os (Wait_status 0)" "''/osqueryd''" 42 sample_world 0 sample_flags]
  by (auto simp: launchable_def sample_os_def sample_world_def Watcher_new_def isValid_def kInvalidPid_def WIFEXITED_def WTERMSIG_def
      WEXITSTATUS_def EXIT_CATASTROPHIC_def sample_flags_def getWorkerLimit_def kWatchdogLimits_def fresh_worker_def)

theorem orphaned_worker_shuts_down_witness:
  "\<exists>w'. WatcherWatcherRunner_start sample_flags (sample_os Wait_none) 1 10 no_time_world = Some w' \<and> sd_requested (ww_shutdown w')"
  by (rule orphaned_worker_shuts_down [of 1])
    (simp_all add: sample_os_def no_time_world_def sample_flags_def getWorkerLimit_def kWatchdogLimits_def isLauncherProcessDead_def
      isValid_def kInvalidPid_def le_Suc_eq)


theorem cpu_limit_needs_sustained_use_witness:
  "exceededCyclesLimit sample_flags (fst (getChange sample_flags (sample_row ''5000'') (measured sample_flags [] PerformanceState_new)))"
proof -
  have 1: "\<forall>x \<in> set ([] @ [sample_row ''5000'']). complete_row sample_flags x" "ps_sustained_latency PerformanceState_new = 0"
    by (simp_all add: complete_row_def sample_columns PerformanceState_new_def)
  have 2: "check_interval_of sample_flags = 3" "getWorkerLimit sample_flags LATENCY_LIMIT = 3" "allowed_time sample_flags = 600"
    by (simp_all add: check_interval_of_def allowed_time_def getWorkerLimit_def kWatchdogLimits_def sample_flags_def)
  have "overloads sample_flags (ps_user_time PerformanceState_new, ps_system_time PerformanceState_new) ([] @ [sample_row ''5000'']) = [True]"
    by (simp add: used_times_def sample_columns 2 PerformanceState_new_def word_less_nat_alt)
  then show ?thesis
    using cpu_limit_needs_sustained_use [OF 1] by (subst cpu_limit_needs_sustained_use [OF 1]) (auto simp: 2 intro!: exI [of _ 1])
qed

end
