(* ===== verification/BufferedLogs.thy ===== *)
theory BufferedLogs
  imports PrefixScans
begin

text \<open>
  The forwarder of logs: \<open>plugins/logger/buffered.cpp\<close> and \<open>plugins/logger/buffered.h\<close>. Lines are stored in the
  database under generated keys, sent in batches by a thread of their own, and deleted once a send has succeeded.
\<close>

section \<open>State\<close>

record StatusLogLine =
  sl_severity :: int
  sl_filename :: string
  sl_line :: u64
  sl_message :: string
  sl_calendar_time :: string
  sl_time :: u64
  sl_identifier :: string

text \<open>
  What the forwarder is built with, and what it calls: \<open>bf_send\<close> is the subclass's \<open>send\<close>, \<open>bf_interrupted\<close> tells
  whether the thread has been interrupted, both by the number of sends so far; \<open>bf_configure\<close> gives the log period
  and the largest backoff that \<open>applyNewConfiguration\<close> sets at each tick.
\<close>

record 'd forward_env =
  bf_db :: "'d db_env"
  index_name :: string
  max_log_lines :: u64
  buffered_log_max :: u64
  bf_decorations :: "(string, string) omap"
  decorations_top_level :: bool
  kVersion :: string
  bf_send :: "nat \<Rightarrow> string list \<Rightarrow> string \<Rightarrow> Status"
  bf_interrupted :: "nat \<Rightarrow> bool"
  bf_configure :: "nat \<Rightarrow> int \<times> int"

text \<open>The backoff of one kind of log: the number of failures counted and the seconds left.\<close>

record backoff =
  bo_count :: u64
  bo_period :: int

text \<open>\<open>BufferedLogForwarder\<close> with the database; \<open>bl_sent\<close> records the calls of \<open>send\<close> with their status.\<close>

record 'd forwarder =
  log_period :: int
  max_backoff_period :: int
  results_backoff :: backoff
  statuses_backoff :: backoff
  log_index :: u64
  buffer_count :: u64
  bl_ticks :: nat
  bl_sent :: "(string \<times> string list \<times> Status) list"
  bl_db :: "'d db_process"

definition kMaxLogLines :: u64 where "kMaxLogLines = 1024"
definition kLogPeriod :: int where "kLogPeriod = 4"

definition BufferedLogForwarder_new :: "int \<Rightarrow> int \<Rightarrow> 'd db_process \<Rightarrow> 'd forwarder" where
  "BufferedLogForwarder_new period max_backoff p =
     \<lparr>log_period = period, max_backoff_period = max_backoff, results_backoff = \<lparr>bo_count = 0, bo_period = 0\<rparr>,
      statuses_backoff = \<lparr>bo_count = 0, bo_period = 0\<rparr>, log_index = 0, buffer_count = 0, bl_ticks = 0, bl_sent = [], bl_db = p\<rparr>"

section \<open>Keys\<close>

definition isIndex :: "'d forward_env \<Rightarrow> string \<Rightarrow> bool \<Rightarrow> bool" where
  "isIndex e index results =
     (let target = length (index_name e) + 1
      in target < length index \<and> index ! target = (if results then CHR ''r'' else CHR ''s''))"

definition isResultIndex :: "'d forward_env \<Rightarrow> string \<Rightarrow> bool" where "isResultIndex e index = isIndex e index True"
definition isStatusIndex :: "'d forward_env \<Rightarrow> string \<Rightarrow> bool" where "isStatusIndex e index = isIndex e index False"

definition genIndexPrefix :: "'d forward_env \<Rightarrow> bool \<Rightarrow> string" where
  "genIndexPrefix e results = index_name e @ ''_'' @ (if results then ''r'' else ''s'') @ ''_''"

text \<open>\<open>now\<close> is the time of the clock, used if no time is given. The counter goes up before its value is used.\<close>

definition genIndex :: "'d forward_env \<Rightarrow> u64 \<Rightarrow> bool \<Rightarrow> u64 \<Rightarrow> 'd forwarder \<Rightarrow> string \<times> 'd forwarder" where
  "genIndex e now results time b =
     (let t = (if time = 0 then now else time); i = log_index b + 1
      in (genIndexPrefix e results @ to_string_u64 t @ ''_'' @ to_string_u64 i, b\<lparr>log_index := i\<rparr>))"

definition genResultIndex :: "'d forward_env \<Rightarrow> u64 \<Rightarrow> u64 \<Rightarrow> 'd forwarder \<Rightarrow> string \<times> 'd forwarder" where
  "genResultIndex e now time b = genIndex e now True time b"

definition genStatusIndex :: "'d forward_env \<Rightarrow> u64 \<Rightarrow> u64 \<Rightarrow> 'd forwarder \<Rightarrow> string \<times> 'd forwarder" where
  "genStatusIndex e now time b = genIndex e now False time b"

section \<open>The buffer\<close>

definition addValueWithCount :: "'d forward_env \<Rightarrow> string \<Rightarrow> string \<Rightarrow> string \<Rightarrow> 'd forwarder \<Rightarrow> (Status \<times> 'd forwarder) throwing" where
  "addValueWithCount e domain key v b =
     exn_bind (setDatabaseValue (bf_db e) False domain key v (bl_db b)) (\<lambda>(status, p).
       Inr (status, b\<lparr>bl_db := p, buffer_count := (if ok status then buffer_count b + 1 else buffer_count b)\<rparr>))"

definition deleteValueWithCount :: "'d forward_env \<Rightarrow> string \<Rightarrow> string \<Rightarrow> 'd forwarder \<Rightarrow> (Status \<times> 'd forwarder) throwing" where
  "deleteValueWithCount e domain key b =
     exn_bind (deleteDatabaseValue (bf_db e) False domain key (bl_db b)) (\<lambda>(status, p).
       Inr (status, b\<lparr>bl_db := p, buffer_count := (if ok status \<and> buffer_count b > 0 then buffer_count b - 1 else buffer_count b)\<rparr>))"

definition bl_setUp :: "'d forward_env \<Rightarrow> 'd forwarder \<Rightarrow> (Status \<times> 'd forwarder) throwing" where
  "bl_setUp e b =
     exn_bind (scanDatabaseKeys (bf_db e) False kLogs [] (index_name e) 0 (bl_db b)) (\<lambda>(status, indexes, p).
       if \<not> ok status then Inr (Status_msg 1 ''Error scanning for buffered log count'', b\<lparr>bl_db := p\<rparr>)
       else Inr (Status_code 0, b\<lparr>bl_db := p, buffer_count := of_nat (length indexes)\<rparr>))"

definition bl_logString :: "'d forward_env \<Rightarrow> u64 \<Rightarrow> string \<Rightarrow> u64 \<Rightarrow> 'd forwarder \<Rightarrow> (Status \<times> 'd forwarder) throwing" where
  "bl_logString e now s time b =
     (let (index, b1) = genResultIndex e now time b in addValueWithCount e kLogs index s b1)"

text \<open>The JSON text of a status line, with the decorations at the top or in an object of their own.\<close>

definition status_members :: "'d forward_env \<Rightarrow> StatusLogLine \<Rightarrow> members" where
  "status_members e item =
     (let rj = de_rj (bf_db e);
          m = json_addRef rj ''version'' (kVersion e)
               (json_addRef rj ''message'' (sl_message item)
               (json_add_ulong rj ''line'' (sl_line item)
               (json_addRef rj ''filename'' (sl_filename item)
               (json_add_longlong rj ''severity'' (sl_severity item)
               (json_add_ulong rj ''unixTime'' (sl_time item)
               (json_addRef rj ''calendarTime'' (sl_calendar_time item)
               (json_addRef rj ''hostIdentifier'' (sl_identifier item) [])))))));
          decorate = fold (\<lambda>(k, v). json_addCopy rj k v)
      in if bf_decorations e = [] then m
         else if \<not> decorations_top_level e then json_add rj ''decorations'' (JObject (decorate (bf_decorations e) [])) m
         else decorate (bf_decorations e) m)"

definition status_text :: "'d forward_env \<Rightarrow> StatusLogLine \<Rightarrow> string" where
  "status_text e item = snd (json_toString (de_rj (bf_db e)) (JObject (status_members e item)))"

fun bl_logStatus :: "'d forward_env \<Rightarrow> u64 \<Rightarrow> StatusLogLine list \<Rightarrow> u64 \<Rightarrow> 'd forwarder \<Rightarrow> (Status \<times> 'd forwarder) throwing" where
  "bl_logStatus e now [] time b = Inr (Status_code 0, b)"
| "bl_logStatus e now (item # rest) time b =
     (let (status, json) = json_toString (de_rj (bf_db e)) (JObject (status_members e item))
      in if \<not> ok status then Inr (status, b)
         else let (index, b1) = genStatusIndex e now time b
              in exn_bind (addValueWithCount e kLogs index json b1) (\<lambda>(status, b2).
                   if \<not> ok status then Inr (status, b2) else bl_logStatus e now rest time b2))"

section \<open>Sending\<close>

text \<open>The values of the keys, the results apart from the rest; a key that cannot be read is passed over.\<close>

fun collect_logs :: "'d forward_env \<Rightarrow> string list \<Rightarrow> 'd db_process \<Rightarrow> (string list \<times> string list \<times> 'd db_process) throwing" where
  "collect_logs e [] p = Inr ([], [], p)"
| "collect_logs e (index # indexes) p =
     exn_bind (getDatabaseValue (bf_db e) False kLogs index [] p) (\<lambda>(status, v, p1).
     exn_bind (collect_logs e indexes p1) (\<lambda>(results, statuses, p2).
       Inr (if \<not> ok status then (results, statuses, p2)
            else if isResultIndex e index then (v # results, statuses, p2)
            else (results, v # statuses, p2))))"

definition backoff_failed :: "int \<Rightarrow> int \<Rightarrow> backoff \<Rightarrow> backoff" where
  "backoff_failed period max_period bo =
     (if max_period > 0
      then let n = bo_count bo + 1; t = sint (word_of_int period * n * n :: u64)
           in if t > max_period then \<lparr>bo_count = n - 1, bo_period = max_period\<rparr> else \<lparr>bo_count = n, bo_period = t\<rparr>
      else bo)"

definition get_backoff :: "bool \<Rightarrow> 'd forwarder \<Rightarrow> backoff" where
  "get_backoff results b = (if results then results_backoff b else statuses_backoff b)"

definition set_backoff :: "bool \<Rightarrow> backoff \<Rightarrow> 'd forwarder \<Rightarrow> 'd forwarder" where
  "set_backoff results bo b = (if results then b\<lparr>results_backoff := bo\<rparr> else b\<lparr>statuses_backoff := bo\<rparr>)"

definition delete_index :: "'d forward_env \<Rightarrow> string \<Rightarrow> 'd forwarder \<Rightarrow> 'd forwarder throwing" where
  "delete_index e index b = exn_bind (deleteValueWithCount e kLogs index b) (\<lambda>(_, b1). Inr b1)"

definition delete_sent :: "'d forward_env \<Rightarrow> bool \<Rightarrow> string list \<Rightarrow> 'd forwarder \<Rightarrow> 'd forwarder throwing" where
  "delete_sent e results indexes b =
     exn_fold (\<lambda>index b. if \<not> isIndex e index results then Inr b else delete_index e index b) indexes b"

text \<open>The results, or the statuses, of a check: whether the check goes on.\<close>

definition send_logs ::
  "'d forward_env \<Rightarrow> bool \<Rightarrow> bool \<Rightarrow> string list \<Rightarrow> string list \<Rightarrow> 'd forwarder \<Rightarrow> (bool \<times> 'd forwarder) throwing" where
  "send_logs e results enabled indexes lines b =
     (if \<not> enabled \<or> lines = [] then Inr (True, b)
      else let log_type = (if results then ''result'' else ''status'');
               status = bf_send e (length (bl_sent b)) lines log_type;
               b1 = b\<lparr>bl_sent := bl_sent b @ [(log_type, lines, status)]\<rparr>
           in if \<not> ok status
              then if bf_interrupted e (length (bl_sent b1)) then Inr (False, b1)
                   else Inr (True, set_backoff results (backoff_failed (log_period b1) (max_backoff_period b1) (get_backoff results b1)) b1)
              else exn_bind (delete_sent e results indexes b1) (\<lambda>b2.
                     Inr (True, set_backoff results \<lparr>bo_count = 0, bo_period = 0\<rparr> b2)))"

section \<open>Purging\<close>

text \<open>
  The oldest \<open>n\<close> of the keys: \<open>std::nth_element\<close> puts the \<open>n\<close> least, in the order of what follows the prefix,
  first; the order among equals is not specified and is that of a stable sort here.
\<close>

definition oldest :: "nat \<Rightarrow> nat \<Rightarrow> string list \<Rightarrow> string list" where
  "oldest prefix_size n indexes = take n (sort_key (drop prefix_size) indexes)"

definition bl_purge :: "'d forward_env \<Rightarrow> 'd forwarder \<Rightarrow> 'd forwarder throwing" where
  "bl_purge e b =
     (if buffer_count b \<le> buffered_log_max e then Inr b
      else let purge_count = buffer_count b - buffered_log_max e
           in exn_bind (scanDatabaseKeys (bf_db e) False kLogs [] (genIndexPrefix e True) purge_count (bl_db b)) (\<lambda>(st, indexes, p1).
             if \<not> ok st then Inr (b\<lparr>bl_db := p1\<rparr>)
             else exn_bind (scanDatabaseKeys (bf_db e) False kLogs [] (genIndexPrefix e False) purge_count p1) (\<lambda>(st2, status_indexes, p2).
               if \<not> ok st2 then Inr (b\<lparr>bl_db := p2\<rparr>)
               else let all_indexes = indexes @ status_indexes; n = unat (ucast purge_count :: u32)
                    in if length all_indexes < unat purge_count then Inr (b\<lparr>bl_db := p2\<rparr>)
                       else if n = 0 then Inl (undefined_behaviour ''nth_element past the end'')
                       else exn_fold (delete_index e) (oldest (length (genIndexPrefix e True)) n all_indexes) (b\<lparr>bl_db := p2\<rparr>))))"

definition bl_check :: "'d forward_env \<Rightarrow> bool \<Rightarrow> bool \<Rightarrow> 'd forwarder \<Rightarrow> 'd forwarder throwing" where
  "bl_check e send_results send_statuses b =
     exn_bind (scanDatabaseKeys (bf_db e) False kLogs [] (index_name e) (max_log_lines e) (bl_db b)) (\<lambda>(_, indexes, p).
     exn_bind (collect_logs e indexes p) (\<lambda>(results, statuses, p1).
     exn_bind (send_logs e True send_results indexes results (b\<lparr>bl_db := p1\<rparr>)) (\<lambda>(goes_on, b1).
       if \<not> goes_on then Inr b1
       else exn_bind (send_logs e False send_statuses indexes statuses b1) (\<lambda>(goes_on, b2).
         if \<not> goes_on then Inr b2
         else if buffered_log_max e > 0 then bl_purge e b2 else Inr b2))))"

section \<open>The thread\<close>

definition backoffTick :: "'d forwarder \<Rightarrow> 'd forwarder" where
  "backoffTick b =
     (if max_backoff_period b \<le> log_period b
      then b\<lparr>results_backoff := \<lparr>bo_count = 0, bo_period = 0\<rparr>, statuses_backoff := \<lparr>bo_count = 0, bo_period = 0\<rparr>\<rparr>
      else let tick = (\<lambda>bo. if bo_period bo > 0 then bo\<lparr>bo_period := bo_period bo - log_period b\<rparr> else bo)
           in b\<lparr>results_backoff := tick (results_backoff b), statuses_backoff := tick (statuses_backoff b)\<rparr>)"

definition applyNewConfiguration :: "'d forward_env \<Rightarrow> 'd forwarder \<Rightarrow> 'd forwarder" where
  "applyNewConfiguration e b =
     b\<lparr>log_period := fst (bf_configure e (bl_ticks b)), max_backoff_period := snd (bf_configure e (bl_ticks b)), bl_ticks := bl_ticks b + 1\<rparr>"

text \<open>
  The inner loop waits while both kinds back off; both loops may go on for ever and have fuel. The thread is asked
  for its end by \<open>stops\<close>, by the number of ticks.
\<close>

fun wait_loop :: "'d forward_env \<Rightarrow> (nat \<Rightarrow> bool) \<Rightarrow> nat \<Rightarrow> 'd forwarder \<Rightarrow> 'd forwarder option" where
  "wait_loop e stops 0 b = None"
| "wait_loop e stops (Suc fuel) b =
     (let b1 = backoffTick (applyNewConfiguration e b)
      in if \<not> stops (bl_ticks b1) \<and> bo_period (results_backoff b1) > 0 \<and> bo_period (statuses_backoff b1) > 0
         then wait_loop e stops fuel b1 else Some b1)"

fun bl_start :: "'d forward_env \<Rightarrow> (nat \<Rightarrow> bool) \<Rightarrow> nat \<Rightarrow> 'd forwarder \<Rightarrow> 'd forwarder throwing option" where
  "bl_start e stops 0 b = None"
| "bl_start e stops (Suc fuel) b =
     (if stops (bl_ticks b) then Some (Inr b)
      else case bl_check e (bo_period (results_backoff b) \<le> 0) (bo_period (statuses_backoff b) \<le> 0) b of
             Inl ex \<Rightarrow> Some (Inl ex)
           | Inr b1 \<Rightarrow> (case wait_loop e stops (Suc fuel) b1 of None \<Rightarrow> None | Some b2 \<Rightarrow> bl_start e stops fuel b2))"

end
