(* ===== verification/BufferedLogsSafety.thy ===== *)
theory BufferedLogsSafety
  imports BufferedLogs "HOL-Library.Multiset"
begin

text \<open>
  Properties of the log forwarder: every line is delivered exactly once or still buffered, the count of the buffer
  is exact and bounded, and what is purged is oldest.
\<close>

section \<open>Scans with a limit\<close>

locale limited_scans = prefix_database +
  assumes scan_limit_law: "ok_db d \<Longrightarrow> \<forall>k \<in> set (dkeys d domain). \<not> strict_prefix k pfx \<Longrightarrow> limit \<noteq> 0 \<Longrightarrow>
    \<exists>st. db_scan ops domain [] pfx limit d = Inr (st, take (unat limit) (filter (prefix pfx) (dkeys d domain))) \<and> ok st"
begin

text \<open>The keys with a prefix in order, up to the limit; 0 is no limit.\<close>

lemma scan_limit:
  assumes "db_ready ok_db p" "de_ops e = ops" "domain \<noteq> []"
    and "\<And>k. db_view look p domain k \<noteq> None \<Longrightarrow> \<not> strict_prefix k pfx"
  obtains st keys where "scanDatabaseKeys e False domain [] pfx limit p = Inr (st, (if limit = 0 then keys else take (unat limit) keys), p)" "ok st"
    "set keys = {k. db_view look p domain k \<noteq> None \<and> prefix pfx k}" "sorted_wrt (<) keys"
proof (cases "limit = 0")
  case True
  obtain st keys where "scanDatabaseKeys e False domain [] pfx 0 p = Inr (st, keys, p)" "ok st"
    "set keys = {k. db_view look p domain k \<noteq> None \<and> prefix pfx k}" "sorted_wrt (<) keys" by (rule scan_prefix [OF assms])
  then show thesis using that [of st keys] True by simp
next
  case False
  obtain d where d: "db_state p = Some d" "ok_db d" "db_view look p = look d"
    using assms(1) by (rule ready_view)
  let ?keys = "filter (prefix pfx) (dkeys d domain)"
  obtain st where g: "db_scan ops domain [] pfx limit d = Inr (st, take (unat limit) ?keys)" "ok st"
    using scan_limit_law [OF d(2) _ False, of domain pfx] assms(4) dkeys_law [OF d(2), of domain] d(3) by auto
  have "scanDatabaseKeys e False domain [] pfx limit p = Inr (st, take (unat limit) ?keys, p)"
    using assms d g by (auto simp: scanDatabaseKeys_def read_plugin_ready [OF assms(1) d(1)] db_ready_def)
  moreover have "set ?keys = {k. db_view look p domain k \<noteq> None \<and> prefix pfx k}"
    using dkeys_law [OF d(2), of domain] d(3) by auto
  moreover have "sorted_wrt (<) ?keys" by (rule sorted_wrt_filter [OF dkeys_sorted [OF d(2)]])
  ultimately show thesis using that [of st ?keys] g(2) False by simp
qed

lemma delete_value_status:
  assumes "db_ready ok_db p" "de_ops e = ops" "domain \<noteq> []"
  shows "\<exists>st p'. deleteDatabaseValue e False domain k p = Inr (st, p') \<and> ok st \<and> db_ready ok_db p' \<and>
           db_view look p' = view_del domain (\<lambda>k'. k' = k) (db_view look p)"
proof -
  obtain d where d: "db_state p = Some d" "ok_db d" using assms(1) by (rule ready_view)
  obtain st d' where g: "db_remove ops domain k d = (st, d')" by fastforce
  have "ok st" using remove_ok [OF d(2), of domain k] g by simp
  moreover have "deleteDatabaseValue e False domain k p = Inr (st, put_state d' p)"
    using assms d g by (auto simp: deleteDatabaseValue_def with_plugin_ready [OF assms(1) d(1)] db_ready_def)
  moreover obtain st1 p1 where "deleteDatabaseValue e False domain k p = Inr (st1, p1)" "db_ready ok_db p1"
    "db_view look p1 = view_del domain (\<lambda>k'. k' = k) (db_view look p)" using delete_value_ok [OF assms] by blast
  ultimately show ?thesis by auto
qed

end

lemma eph_scan_loop_limit:
  "\<forall>k \<in> set ks. \<not> strict_prefix k pfx \<Longrightarrow> limit \<noteq> 0 \<Longrightarrow> length rs < unat limit \<Longrightarrow>
   eph_scan_loop pfx limit ks rs = Inr (rs @ take (unat limit - length rs) (filter (prefix pfx) ks))"
proof (induction ks arbitrary: rs)
  case (Cons k ks)
  have m: "(if pfx = [] then Inr True else mismatch_prefix pfx k) = Inr (prefix pfx k)"
    using Cons.prems(1) mismatch_prefix_ok [of k pfx] by auto
  have pos: "limit > 0" using Cons.prems(2) by (simp add: word_neq_0_conv)
  show ?case
  proof (cases "prefix pfx k \<and> \<not> unat limit \<le> Suc (length rs)")
    case True
    then have "unat limit - length rs = Suc (unat limit - Suc (length rs))" by linarith
    then show ?thesis using Cons.IH [of "rs @ [k]"] Cons.prems True m pos by (simp add: Let_def)
  next
    case False
    show ?thesis
    proof (cases "prefix pfx k")
      case True
      then have "unat limit - length rs = 1" using False Cons.prems(3) by linarith
      then show ?thesis using False True m pos by (simp add: Let_def)
    next
      case no: False
      then show ?thesis using Cons.IH [of rs] Cons.prems m by simp
    qed
  qed
qed simp

interpretation ephl: limited_scans EphemeralDatabasePlugin eph_look eph_keys eph_inv
proof (unfold_locales, goal_cases)
  case (1 d domain pfx limit)
  then have "eph_scan_loop pfx limit (eph_keys d domain) [] = Inr (take (unat limit) (filter (prefix pfx) (eph_keys d domain)))"
    using eph_scan_loop_limit [of "eph_keys d domain" pfx limit "[]"] by (simp add: unat_gt_0)
  then show ?case
    by (cases "om_get d domain") (simp_all add: EphemeralDatabasePlugin_def eph_scan_def eph_keys_def eph_domain_def om_keys_def)
qed

section \<open>Keys of the forwarder\<close>

definition own_key :: "'d forward_env \<Rightarrow> bool \<Rightarrow> u64 \<Rightarrow> u64 \<Rightarrow> string" where
  "own_key e r t i = genIndexPrefix e r @ to_string_u64 t @ ''_'' @ to_string_u64 i"

lemma genIndex_key: "genIndex e now r time b = (own_key e r (if time = 0 then now else time) (log_index b + 1), b\<lparr>log_index := log_index b + 1\<rparr>)"
  by (simp add: genIndex_def own_key_def Let_def)

lemma to_string_no_underscore: "CHR ''_'' \<notin> set (to_string_u64 t)"
proof
  assume "CHR ''_'' \<in> set (to_string_u64 t)"
  then have "digit_in_base 10 (CHR ''_'') \<noteq> None" using nat_digits_all_digits [of "unat t"] by (auto simp: to_string_u64_def)
  then show False by (simp add: digit_in_base_def char_digit_def)
qed

lemma own_key_inj: "own_key e r t i = own_key e r' t' j \<longleftrightarrow> r = r' \<and> t = t' \<and> i = j"
proof
  assume k: "own_key e r t i = own_key e r' t' j"
  then have "r = r'" and tail: "to_string_u64 t @ CHR ''_'' # to_string_u64 i = to_string_u64 t' @ CHR ''_'' # to_string_u64 j"
    by (auto simp: own_key_def genIndexPrefix_def split: if_splits)
  have "takeWhile (\<lambda>c. c \<noteq> CHR ''_'') (to_string_u64 a @ CHR ''_'' # x) = to_string_u64 a" for a x
    using to_string_no_underscore [of a] by (subst takeWhile_append2) auto
  then have "to_string_u64 t = to_string_u64 t'" using tail by metis
  then show "r = r' \<and> t = t' \<and> i = j" using \<open>r = r'\<close> tail by (simp add: to_string_u64_inj)
qed simp

lemma own_key_prefix: "prefix (index_name e) (own_key e r t i)" "prefix (genIndexPrefix e r) (own_key e r t i)"
  "prefix (genIndexPrefix e r') (own_key e r t i) \<longleftrightarrow> r' = r"
  by (auto simp: own_key_def genIndexPrefix_def)

lemma own_key_isIndex [simp]: "isIndex e (own_key e r t i) r' \<longleftrightarrow> r' = r"
  by (auto simp: isIndex_def own_key_def genIndexPrefix_def Let_def nth_append)

section \<open>The buffer as a bag of lines\<close>

type_synonym log_view = "string \<Rightarrow> string \<Rightarrow> string option"

definition buffered :: "'d forward_env \<Rightarrow> log_view \<Rightarrow> string set" where
  "buffered e V = {k. V kLogs k \<noteq> None \<and> prefix (index_name e) k}"

definition line_of :: "log_view \<Rightarrow> string \<Rightarrow> string" where
  "line_of V k = the (V kLogs k)"

definition stored_lines :: "'d forward_env \<Rightarrow> log_view \<Rightarrow> string multiset" where
  "stored_lines e V = image_mset (line_of V) (mset_set (buffered e V))"

text \<open>
  The buffer holds keys that the forwarder has generated, each with a number of its own up to \<open>i\<close>, and \<open>n\<close> is their
  count. No other key of the domain is a proper prefix of the forwarder's name.
\<close>

definition log_inv :: "'d forward_env \<Rightarrow> u64 \<Rightarrow> u64 \<Rightarrow> log_view \<Rightarrow> bool" where
  "log_inv e i n V \<longleftrightarrow> (\<forall>k. V kLogs k \<noteq> None \<longrightarrow> \<not> strict_prefix k (index_name e)) \<and>
     (\<forall>k \<in> buffered e V. \<exists>r t j. k = own_key e r t j \<and> j \<le> i) \<and> finite (buffered e V) \<and>
     card (buffered e V) \<le> unat i \<and> unat n = card (buffered e V)"

lemma log_invD:
  assumes "log_inv e i n V"
  shows "\<And>k. V kLogs k \<noteq> None \<Longrightarrow> \<not> strict_prefix k (index_name e)"
    "\<And>k. k \<in> buffered e V \<Longrightarrow> \<exists>r t j. k = own_key e r t j \<and> j \<le> i" "finite (buffered e V)"
    "card (buffered e V) \<le> unat i" "unat n = card (buffered e V)"
  using assms by (auto simp: log_inv_def)

lemma log_inv_no_strict_prefix:
  assumes "log_inv e i n V" "V kLogs k \<noteq> None"
  shows "\<not> strict_prefix k (genIndexPrefix e r)"
proof
  assume sp: "strict_prefix k (genIndexPrefix e r)"
  show False
  proof (cases "prefix (index_name e) k")
    case True
    then obtain r' t j where k: "k = own_key e r' t j" using log_invD(2) [OF assms(1), of k] assms(2) by (auto simp: buffered_def)
    have "length (genIndexPrefix e r) = length (genIndexPrefix e r')" by (simp add: genIndexPrefix_def)
    moreover have "length k < length (genIndexPrefix e r)" by (rule prefix_length_less [OF sp])
    ultimately show False by (simp add: k own_key_def)
  next
    case False
    have "prefix k (genIndexPrefix e r)" "prefix (index_name e) (genIndexPrefix e r)"
      using sp by (auto simp: strict_prefix_def genIndexPrefix_def)
    then have "prefix k (index_name e)" using False prefix_same_cases by blast
    then show False using log_invD(1) [OF assms] False by (auto simp: strict_prefix_def)
  qed
qed

text \<open>Deleting a set of buffered keys takes their lines out of the bag.\<close>

lemma buffered_del: "buffered e (view_del kLogs (\<lambda>k. k \<in> K) V) = buffered e V - K"
  by (auto simp: buffered_def view_del_def)

lemma stored_lines_del:
  assumes "finite (buffered e V)" "distinct ks" "set ks \<subseteq> buffered e V"
  shows "stored_lines e V = stored_lines e (view_del kLogs (\<lambda>k. k \<in> set ks) V) + mset (map (line_of V) ks)"
proof -
  let ?B = "buffered e V"
  have "mset_set ?B = mset_set (?B - set ks) + mset_set (set ks)"
    using assms by (metis Diff_disjoint Diff_partition finite_subset inf_commute mset_set_Union sup_commute finite_Diff)
  moreover have "mset_set (set ks) = mset ks" by (rule mset_set_set [OF assms(2)])
  moreover have "image_mset (line_of (view_del kLogs (\<lambda>k. k \<in> set ks) V)) (mset_set (?B - set ks)) = image_mset (line_of V) (mset_set (?B - set ks))"
    by (rule image_mset_cong) (use assms(1) in \<open>auto simp: line_of_def view_del_def\<close>)
  ultimately show ?thesis by (simp add: stored_lines_def buffered_del)
qed

lemma log_inv_del:
  assumes "log_inv e i n V" "set ks \<subseteq> buffered e V" "distinct ks" "unat m = unat n - length ks"
  shows "log_inv e i m (view_del kLogs (\<lambda>k. k \<in> set ks) V)"
proof -
  have "card (buffered e V - set ks) = card (buffered e V) - length ks"
    using assms(2,3) by (simp add: card_Diff_subset distinct_card)
  then show ?thesis using log_invD [OF assms(1)] assms(4)
    by (auto simp: log_inv_def buffered_del) (auto simp: view_del_def split: if_splits)
qed

text \<open>A new key adds its line.\<close>

lemma log_inv_add:
  fixes r :: bool and t :: u64 and v :: string
  assumes "log_inv e i n V" "unat i + 1 < 2 ^ 64"
  defines "V' \<equiv> view_put kLogs [(own_key e r t (i + 1), v)] V"
  shows "log_inv e (i + 1) (n + 1) V' \<and> stored_lines e V' = add_mset v (stored_lines e V)"
proof -
  let ?k = "own_key e r t (i + 1)"
  have i: "unat (i + 1) = unat i + 1" using assms(2) by (simp add: unat_word_ariths)
  have n: "unat (n + 1) = unat n + 1" using log_invD(4,5) [OF assms(1)] assms(2) by (simp add: unat_word_ariths)
  have new: "?k \<notin> buffered e V"
  proof
    assume "?k \<in> buffered e V"
    then have "i + 1 \<le> i" using log_invD(2) [OF assms(1)] by (fastforce simp: own_key_inj)
    then show False using i by (simp add: word_le_nat_alt)
  qed
  have V': "V' kLogs = (V kLogs)(?k \<mapsto> v)" by (auto simp: V'_def view_put_def)
  have B: "buffered e V' = insert ?k (buffered e V)" by (auto simp: buffered_def V' own_key_prefix split: if_splits)
  have "image_mset (line_of V') (mset_set (buffered e V)) = image_mset (line_of V) (mset_set (buffered e V))"
    by (rule image_mset_cong) (use new log_invD(3) [OF assms(1)] in \<open>auto simp: line_of_def V'\<close>)
  then have "stored_lines e V' = add_mset v (stored_lines e V)"
    using new log_invD(3) [OF assms(1)] by (simp add: stored_lines_def B line_of_def V')
  moreover have "\<exists>r t j. k = own_key e r t j \<and> j \<le> i + 1" if k: "k \<in> insert ?k (buffered e V)" for k
  proof (cases "k = ?k")
    case False
    then obtain r' t' j where "k = own_key e r' t' j" "j \<le> i" using k log_invD(2) [OF assms(1)] by blast
    then show ?thesis using i by (fastforce simp: word_le_nat_alt)
  qed auto
  moreover have "\<not> strict_prefix k (index_name e)" if "V' kLogs k \<noteq> None" for k
    using that log_invD(1) [OF assms(1), of k] own_key_prefix(1) [of e r t "i + 1"]
    by (auto simp: V' strict_prefix_def split: if_splits)
  ultimately show ?thesis using log_invD(3-5) [OF assms(1)] new i n by (auto simp: log_inv_def B)
qed

section \<open>Operations on the buffer\<close>

definition delivered :: "'d forwarder \<Rightarrow> string multiset" where
  "delivered b = mset (concat (map (\<lambda>(_, lines, st). if ok st then lines else []) (bl_sent b)))"

lemma delete_sent_filter: "delete_sent e r ks b = exn_fold (delete_index e) (filter (\<lambda>k. isIndex e k r) ks) b"
  by (induction ks arbitrary: b) (auto simp: delete_sent_def intro!: exn_bind_cong)

text \<open>The forwarder's database is ready, and its buffer is as the invariant says.\<close>

definition fw_ok :: "('d \<Rightarrow> log_view) \<Rightarrow> ('d \<Rightarrow> bool) \<Rightarrow> 'd forward_env \<Rightarrow> 'd forwarder \<Rightarrow> bool" where
  "fw_ok look ok_db e b \<longleftrightarrow> db_ready ok_db (bl_db b) \<and> log_inv e (log_index b) (buffer_count b) (db_view look (bl_db b))"

definition fw_lines :: "('d \<Rightarrow> log_view) \<Rightarrow> 'd forward_env \<Rightarrow> 'd forwarder \<Rightarrow> string multiset" where
  "fw_lines look e b = stored_lines e (db_view look (bl_db b))"

context limited_scans
begin

lemma add_line:
  assumes "de_ops (bf_db e) = ops" "fw_ok look ok_db e b" "unat (log_index b) + 1 < 2 ^ 64"
  shows "\<exists>st p. addValueWithCount e kLogs (own_key e r t (log_index b + 1)) v (b\<lparr>log_index := log_index b + 1\<rparr>) =
      Inr (st, b\<lparr>log_index := log_index b + 1, buffer_count := buffer_count b + 1, bl_db := p\<rparr>) \<and> ok st \<and>
    fw_ok look ok_db e (b\<lparr>log_index := log_index b + 1, buffer_count := buffer_count b + 1, bl_db := p\<rparr>) \<and>
    stored_lines e (db_view look p) = add_mset v (fw_lines look e b)"
proof -
  obtain st p where p: "setDatabaseValue (bf_db e) False kLogs (own_key e r t (log_index b + 1)) v (bl_db b) = Inr (st, p)" "ok st"
    "db_ready ok_db p" "db_view look p = view_put kLogs [(own_key e r t (log_index b + 1), v)] (db_view look (bl_db b))"
    using set_value [of "bl_db b" "bf_db e" kLogs "own_key e r t (log_index b + 1)" v] assms(1,2) by (auto simp: fw_ok_def kLogs_def)
  have "log_inv e (log_index b + 1) (buffer_count b + 1) (db_view look p) \<and> stored_lines e (db_view look p) = add_mset v (fw_lines look e b)"
    unfolding p(4) fw_lines_def by (rule log_inv_add) (use assms(2,3) in \<open>simp_all add: fw_ok_def\<close>)
  then show ?thesis using p by (intro exI [of _ st] exI [of _ p]) (cases b, simp add: addValueWithCount_def fw_ok_def)
qed

lemma delete_indexes:
  assumes "de_ops (bf_db e) = ops"
  shows "fw_ok look ok_db e b \<Longrightarrow> distinct ks \<Longrightarrow> set ks \<subseteq> buffered e (db_view look (bl_db b)) \<Longrightarrow>
    \<exists>n p. exn_fold (delete_index e) ks b = Inr (b\<lparr>buffer_count := n, bl_db := p\<rparr>) \<and> fw_ok look ok_db e (b\<lparr>buffer_count := n, bl_db := p\<rparr>) \<and>
      unat n = unat (buffer_count b) - length ks \<and> db_view look p = view_del kLogs (\<lambda>k. k \<in> set ks) (db_view look (bl_db b))"
proof (induction ks arbitrary: b)
  case Nil
  then show ?case by (intro exI [of _ "buffer_count b"] exI [of _ "bl_db b"]) (simp add: view_del_def)
next
  case (Cons k ks)
  let ?V = "db_view look (bl_db b)"
  obtain st p where p: "deleteDatabaseValue (bf_db e) False kLogs k (bl_db b) = Inr (st, p)" "ok st" "db_ready ok_db p"
    "db_view look p = view_del kLogs (\<lambda>k'. k' = k) ?V"
    using delete_value_status [of "bl_db b" "bf_db e" kLogs k] Cons.prems(1) assms by (auto simp: fw_ok_def kLogs_def)
  have "card (buffered e ?V) > 0" using Cons.prems(1,3) by (auto simp: fw_ok_def card_gt_0_iff dest: log_invD(3))
  then have "unat (buffer_count b) > 0" using Cons.prems(1) by (auto simp: fw_ok_def dest!: log_invD(5))
  then have pos: "buffer_count b > 0" "unat (buffer_count b - 1) = unat (buffer_count b) - 1"
    by (simp_all add: word_less_nat_alt unat_minus_one unat_gt_0)
  let ?b = "b\<lparr>buffer_count := buffer_count b - 1, bl_db := p\<rparr>"
  have del: "db_view look p = view_del kLogs (\<lambda>k'. k' \<in> set [k]) ?V" using p(4) by simp
  have "log_inv e (log_index b) (buffer_count b - 1) (view_del kLogs (\<lambda>k'. k' \<in> set [k]) ?V)"
    by (rule log_inv_del [of _ _ "buffer_count b"]) (use Cons.prems pos in \<open>auto simp: fw_ok_def\<close>)
  then have ok: "fw_ok look ok_db e ?b" using p(3) del by (simp add: fw_ok_def)
  have sub: "set ks \<subseteq> buffered e (db_view look (bl_db ?b))" using Cons.prems(2,3) buffered_del [of e "set [k]" ?V] by (auto simp: p(4))
  obtain n q where q: "exn_fold (delete_index e) ks ?b = Inr (?b\<lparr>buffer_count := n, bl_db := q\<rparr>)"
    "fw_ok look ok_db e (?b\<lparr>buffer_count := n, bl_db := q\<rparr>)" "unat n = unat (buffer_count ?b) - length ks"
    "db_view look q = view_del kLogs (\<lambda>k. k \<in> set ks) (db_view look (bl_db ?b))"
    using Cons.IH [OF ok _ sub] Cons.prems(2) by auto
  have step: "delete_index e k b = Inr ?b" using p pos by (simp add: delete_index_def deleteValueWithCount_def)
  have "db_view look q = view_del kLogs (\<lambda>k'. k' \<in> set (k # ks)) ?V" using q(4) p(4) by (auto simp: view_del_def fun_eq_iff)
  then show ?case using q step pos by (intro exI [of _ n] exI [of _ q]) simp
qed

lemma collect_buffered:
  assumes "de_ops (bf_db e) = ops" "db_ready ok_db p" "\<forall>k \<in> set ks. db_view look p kLogs k \<noteq> None"
  shows "collect_logs e ks p = Inr (map (line_of (db_view look p)) (filter (isResultIndex e) ks),
    map (line_of (db_view look p)) (filter (\<lambda>k. \<not> isResultIndex e k) ks), p)"
  using assms(3)
proof (induction ks)
  case (Cons k ks)
  obtain st where "getDatabaseValue (bf_db e) False kLogs k [] p = Inr (st, line_of (db_view look p) k, p)" "ok st"
    using get_value [OF assms(2,1), of kLogs False k] Cons.prems by (auto simp: kLogs_def line_of_def)
  then show ?case using Cons by simp
qed simp

end

section \<open>Sending and purging\<close>

lemma set_backoff_simps [simp]:
  "bl_db (set_backoff r bo b) = bl_db b" "log_index (set_backoff r bo b) = log_index b" "buffer_count (set_backoff r bo b) = buffer_count b"
  "bl_sent (set_backoff r bo b) = bl_sent b"
  by (simp_all add: set_backoff_def)

lemma delivered_send: "bl_sent b' = bl_sent b @ [(ty, ls, st)] \<Longrightarrow> delivered b' = delivered b + (if ok st then mset ls else {#})"
  by (simp add: delivered_def)

lemma fw_ok_cong:
  "fw_ok look ok_db e b \<Longrightarrow> bl_db b' = bl_db b \<Longrightarrow> log_index b' = log_index b \<Longrightarrow> buffer_count b' = buffer_count b \<Longrightarrow> fw_ok look ok_db e b'"
  by (simp add: fw_ok_def)

lemma delivered_cong: "bl_sent b' = bl_sent b \<Longrightarrow> delivered b' = delivered b"
  by (simp add: delivered_def)

text \<open>The steps that move lines from the buffer to the receiver, or drop \<open>D\<close>.\<close>

definition moves :: "('d \<Rightarrow> log_view) \<Rightarrow> ('d \<Rightarrow> bool) \<Rightarrow> 'd forward_env \<Rightarrow> string multiset \<Rightarrow> 'd forwarder \<Rightarrow> 'd forwarder \<Rightarrow> bool" where
  "moves look ok_db e D b b' \<longleftrightarrow> fw_ok look ok_db e b' \<and> fw_lines look e b + delivered b = fw_lines look e b' + delivered b' + D \<and>
     log_index b' = log_index b"

context limited_scans
begin

lemma send_logs_ok:
  assumes "de_ops (bf_db e) = ops" "fw_ok look ok_db e b" "distinct ks" "set (filter (\<lambda>k. isIndex e k r) ks) \<subseteq> buffered e (db_view look (bl_db b))"
    and "lines = map (line_of (db_view look (bl_db b))) (filter (\<lambda>k. isIndex e k r) ks)"
  shows "\<exists>g b'. send_logs e r enabled ks lines b = Inr (g, b') \<and> moves look ok_db e {#} b b' \<and>
    (\<forall>k. \<not> isIndex e k r \<longrightarrow> db_view look (bl_db b') kLogs k = db_view look (bl_db b) kLogs k) \<and> (g \<or> (\<exists>n. bf_interrupted e n)) \<and>
    (enabled \<and> (\<forall>n ls ty. ok (bf_send e n ls ty)) \<longrightarrow>
       g \<and> db_view look (bl_db b') = view_del kLogs (\<lambda>k. k \<in> set (filter (\<lambda>k. isIndex e k r) ks)) (db_view look (bl_db b)))"
proof -
  let ?K = "filter (\<lambda>k. isIndex e k r) ks" and ?V = "db_view look (bl_db b)"
  define ty where "ty = (if r then ''result'' else ''status'')"
  define st where "st = bf_send e (length (bl_sent b)) lines ty"
  define b1 where "b1 = b\<lparr>bl_sent := bl_sent b @ [(ty, lines, st)]\<rparr>"
  have b1: "fw_ok look ok_db e b1" "bl_db b1 = bl_db b" "log_index b1 = log_index b" using assms(2) by (simp_all add: b1_def fw_ok_def)
  have d1: "delivered b1 = delivered b + (if ok st then mset lines else {#})" by (rule delivered_send) (simp add: b1_def)
  show ?thesis
  proof (cases "enabled \<and> lines \<noteq> []")
    case False
    then show ?thesis using assms(2) by (intro exI [of _ True] exI [of _ b]) (auto simp: send_logs_def moves_def view_del_def assms(5) filter_empty_conv fun_eq_iff)
  next
    case True
    show ?thesis
    proof (cases "ok st")
      case False
      let ?b = "set_backoff r (backoff_failed (log_period b1) (max_backoff_period b1) (get_backoff r b1)) b1"
      have "send_logs e r enabled ks lines b = (if bf_interrupted e (length (bl_sent b1)) then Inr (False, b1) else Inr (True, ?b))"
        unfolding send_logs_def Let_def ty_def [symmetric] st_def [symmetric] b1_def [symmetric] using True False by simp
      moreover have "moves look ok_db e {#} b b1" "moves look ok_db e {#} b ?b"
        using b1 d1 False by (auto simp: moves_def fw_lines_def fw_ok_def delivered_def)
      moreover have "\<not> (\<forall>n ls ty. ok (bf_send e n ls ty))" using False unfolding st_def by blast
      ultimately show ?thesis using b1(2) by auto
    next
      case sent: True
      have K: "distinct ?K" "set ?K \<subseteq> buffered e (db_view look (bl_db b1))" using assms(3,4) b1(2) by auto
      obtain n p where p: "exn_fold (delete_index e) ?K b1 = Inr (b1\<lparr>buffer_count := n, bl_db := p\<rparr>)"
        "fw_ok look ok_db e (b1\<lparr>buffer_count := n, bl_db := p\<rparr>)" "db_view look p = view_del kLogs (\<lambda>k. k \<in> set ?K) ?V"
        using delete_indexes [OF assms(1) b1(1) K] b1(2) by auto
      let ?b = "set_backoff r \<lparr>bo_count = 0, bo_period = 0\<rparr> (b1\<lparr>buffer_count := n, bl_db := p\<rparr>)"
      have run: "send_logs e r enabled ks lines b = Inr (True, ?b)"
        using True sent p(1) by (simp add: send_logs_def delete_sent_filter Let_def ty_def st_def b1_def)
      have "delivered ?b = delivered b1" by (simp add: delivered_def)
      moreover have "finite (buffered e ?V)" using assms(2) by (auto simp: fw_ok_def dest: log_invD(3))
      then have "stored_lines e ?V = stored_lines e (db_view look p) + mset lines"
        using stored_lines_del [OF _ K(1)] K(2) b1(2) assms(5) p(3) by simp
      ultimately have "moves look ok_db e {#} b ?b"
        using p(2) b1(3) d1 sent by (simp add: moves_def fw_lines_def fw_ok_def)
      then show ?thesis using run p(3) by (intro exI [of _ True] exI [of _ ?b]) (auto simp: view_del_def)
    qed
  qed
qed

end

text \<open>The least elements of two sorted lists.\<close>

lemma take_sorted_least:
  assumes "k \<in> set (take n (sort_key f A))"
  shows "length (filter (\<lambda>x. f x < f k) A) < n"
proof -
  let ?L = "sort_key f A"
  obtain i where i: "i < n" "i < length ?L" "k = ?L ! i" using assms by (auto simp: in_set_conv_nth)
  have "\<not> f x < f k" if x: "x \<in> set (drop i ?L)" for x
  proof -
    obtain j where "j < length (drop i ?L)" "x = drop i ?L ! j" using x by (metis in_set_conv_nth)
    then have j: "i + j < length ?L" "x = ?L ! (i + j)" using i(2) by simp_all
    then have "map f ?L ! i \<le> map f ?L ! (i + j)" by (intro sorted_nth_mono) (simp_all add: sorted_sort_key)
    then show ?thesis using i j by simp
  qed
  then have "filter (\<lambda>x. f x < f k) (drop i ?L) = []" by (simp add: filter_empty_conv)
  then have "filter (\<lambda>x. f x < f k) ?L = filter (\<lambda>x. f x < f k) (take i ?L)"
    by (metis append_Nil2 append_take_drop_id filter_append)
  then have "length (filter (\<lambda>x. f x < f k) ?L) \<le> i"
    using length_filter_le [of "\<lambda>x. f x < f k" "take i ?L"] i(2) by simp
  moreover have "mset (filter (\<lambda>x. f x < f k) ?L) = mset (filter (\<lambda>x. f x < f k) A)" by simp
  then have "length (filter (\<lambda>x. f x < f k) ?L) = length (filter (\<lambda>x. f x < f k) A)" by (rule mset_eq_length)
  ultimately show ?thesis using i(1) by simp
qed

lemma filter_length_mono: "(\<And>x. P x \<Longrightarrow> Q x) \<Longrightarrow> length (filter P xs) \<le> length (filter Q xs)"
  by (induction xs) (auto intro: le_SucI)

lemma merged_oldest:
  assumes "sorted_wrt (\<lambda>x y. f x < f y) R" "sorted_wrt (\<lambda>x y. f x < f y) S"
    and "k \<in> set (take n (sort_key f (take n R @ take n S)))" "k' \<in> set R \<union> set S" "k' \<notin> set (take n (sort_key f (take n R @ take n S)))"
  shows "f k \<le> f k'"
proof (cases "k' \<in> set (take n R @ take n S)")
  case True
  let ?L = "sort_key f (take n R @ take n S)"
  have "k' \<in> set (drop n ?L)"
    using True assms(5) by (metis append_take_drop_id Un_iff set_append set_sort)
  moreover have "sorted (map f (take n ?L @ drop n ?L))" by (simp only: append_take_drop_id sorted_sort_key)
  ultimately show ?thesis using assms(3) unfolding map_append sorted_append by auto
next
  case False
  have beyond: "n \<le> length (filter (\<lambda>x. f x < f k') (take n X))" if X: "sorted_wrt (\<lambda>x y. f x < f y) X" "k' \<in> set X" "k' \<notin> set (take n X)" for X
  proof -
    have k': "k' \<in> set (drop n X)" using X(2,3) by (metis append_take_drop_id Un_iff set_append)
    then have "length (take n X) = n" by (cases "n \<le> length X") auto
    moreover have "sorted_wrt (\<lambda>x y. f x < f y) (take n X @ drop n X)" using X(1) by simp
    then have "filter (\<lambda>x. f x < f k') (take n X) = take n X" using k' unfolding sorted_wrt_append by (auto simp: filter_id_conv)
    ultimately show ?thesis by simp
  qed
  show ?thesis
  proof (rule ccontr)
    assume "\<not> f k \<le> f k'"
    then have less: "f k' < f k" by simp
    have "length (filter (\<lambda>x. f x < f k') (take n R @ take n S)) \<le> length (filter (\<lambda>x. f x < f k) (take n R @ take n S))"
      by (rule filter_length_mono) (use less in auto)
    moreover have "n \<le> length (filter (\<lambda>x. f x < f k') (take n R @ take n S))"
      using assms(1,2,4) False beyond [of R] beyond [of S] by auto
    ultimately show False using take_sorted_least [OF assms(3)] by simp
  qed
qed

lemma append_less_append [simp]: "p @ a < p @ b \<longleftrightarrow> a < b" for a b :: string
  by (induction p) simp_all

lemma moves_trans: "moves look ok_db e D b b1 \<Longrightarrow> moves look ok_db e D' b1 b2 \<Longrightarrow> moves look ok_db e (D + D') b b2"
  unfolding moves_def by (metis union_assoc union_commute)

lemma moves_refl: "fw_ok look ok_db e b \<Longrightarrow> moves look ok_db e {#} b b"
  by (simp add: moves_def)

lemma own_key_suffix: "drop (length (genIndexPrefix e True)) (own_key e r t i) = to_string_u64 t @ ''_'' @ to_string_u64 i"
  by (simp add: own_key_def genIndexPrefix_def)

lemma buffered_kinds:
  assumes "log_inv e i n V"
  shows "buffered e V = {k. V kLogs k \<noteq> None \<and> prefix (genIndexPrefix e True) k} \<union> {k. V kLogs k \<noteq> None \<and> prefix (genIndexPrefix e False) k}"
    "{k. V kLogs k \<noteq> None \<and> prefix (genIndexPrefix e True) k} \<inter> {k. V kLogs k \<noteq> None \<and> prefix (genIndexPrefix e False) k} = {}"
proof -
  have own: "\<exists>r t j. k = own_key e r t j" if "V kLogs k \<noteq> None" "prefix (index_name e) k" for k
    using log_invD(2) [OF assms, of k] that by (auto simp: buffered_def)
  have "prefix (genIndexPrefix e r) k \<Longrightarrow> prefix (index_name e) k" for r k by (auto simp: genIndexPrefix_def prefix_def)
  moreover have "prefix (genIndexPrefix e True) k \<or> prefix (genIndexPrefix e False) k" if in_buffer: "V kLogs k \<noteq> None" "prefix (index_name e) k" for k
  proof -
    obtain r t j where "k = own_key e r t j" using own [OF in_buffer] by blast
    then show ?thesis by (cases r) (simp_all add: own_key_prefix)
  qed
  ultimately show "buffered e V = {k. V kLogs k \<noteq> None \<and> prefix (genIndexPrefix e True) k} \<union> {k. V kLogs k \<noteq> None \<and> prefix (genIndexPrefix e False) k}"
    unfolding buffered_def by blast
  show "{k. V kLogs k \<noteq> None \<and> prefix (genIndexPrefix e True) k} \<inter> {k. V kLogs k \<noteq> None \<and> prefix (genIndexPrefix e False) k} = {}"
    by (auto simp: genIndexPrefix_def prefix_def)
qed

text \<open>Keys with one prefix are sorted by what follows it.\<close>

lemma sorted_suffixes:
  assumes "sorted_wrt (<) keys" "\<forall>k \<in> set keys. prefix (genIndexPrefix e r) k"
  shows "sorted_wrt (\<lambda>x y. drop (length (genIndexPrefix e True)) x < drop (length (genIndexPrefix e True)) y) keys"
proof -
  have len: "length (genIndexPrefix e True) = length (genIndexPrefix e r)" by (simp add: genIndexPrefix_def)
  show ?thesis unfolding len
  proof (rule sorted_wrt_mono_rel [OF _ assms(1)])
    fix x y
    assume "x \<in> set keys" "y \<in> set keys" "x < y"
    moreover from this obtain a b where "x = genIndexPrefix e r @ a" "y = genIndexPrefix e r @ b" using assms(2) unfolding prefix_def by blast
    ultimately show "drop (length (genIndexPrefix e r)) x < drop (length (genIndexPrefix e r)) y" by simp
  qed
qed

context limited_scans
begin

lemma scan_kind:
  assumes "de_ops (bf_db e) = ops" "fw_ok look ok_db e b" "c \<noteq> 0"
  defines "V \<equiv> db_view look (bl_db b)" and "suf \<equiv> drop (length (genIndexPrefix e True))"
  obtains st keys where "scanDatabaseKeys (bf_db e) False kLogs [] (genIndexPrefix e r) c (bl_db b) = Inr (st, take (unat c) keys, bl_db b)" "ok st"
    "set keys = {k. V kLogs k \<noteq> None \<and> prefix (genIndexPrefix e r) k}" "distinct keys" "sorted_wrt (\<lambda>x y. suf x < suf y) keys"
proof -
  have inv: "db_ready ok_db (bl_db b)" "log_inv e (log_index b) (buffer_count b) V" using assms(2) by (simp_all add: fw_ok_def V_def)
  have klogs: "kLogs \<noteq> []" by (simp add: kLogs_def)
  have noprefix: "db_view look (bl_db b) kLogs k \<noteq> None \<Longrightarrow> \<not> strict_prefix k (genIndexPrefix e r)" for k
    using log_inv_no_strict_prefix [OF inv(2)] by (simp add: V_def)
  obtain st keys where s: "scanDatabaseKeys (bf_db e) False kLogs [] (genIndexPrefix e r) c (bl_db b) =
      Inr (st, (if c = 0 then keys else take (unat c) keys), bl_db b)" "ok st"
    "set keys = {k. V kLogs k \<noteq> None \<and> prefix (genIndexPrefix e r) k}" "sorted_wrt (<) keys"
    unfolding V_def by (rule scan_limit [OF inv(1) assms(1) klogs noprefix])
  have "distinct keys" using s(4) by (simp add: strict_sorted_iff)
  moreover have "sorted_wrt (\<lambda>x y. suf x < suf y) keys" unfolding suf_def by (rule sorted_suffixes [OF s(4), of e r]) (simp add: s(3))
  ultimately show thesis using that [of st keys] s assms(3) by simp
qed

lemma purge_ok:
  assumes "de_ops (bf_db e) = ops" "fw_ok look ok_db e b" "unat (buffer_count b) < 2 ^ 32"
  defines "V \<equiv> db_view look (bl_db b)" and "suf \<equiv> drop (length (genIndexPrefix e True))"
  shows "\<exists>n p ks. bl_purge e b = Inr (b\<lparr>buffer_count := n, bl_db := p\<rparr>) \<and> fw_ok look ok_db e (b\<lparr>buffer_count := n, bl_db := p\<rparr>) \<and>
    db_view look p = view_del kLogs (\<lambda>k. k \<in> set ks) V \<and> set ks \<subseteq> buffered e V \<and> distinct ks \<and>
    length ks = unat (buffer_count b) - unat (buffered_log_max e) \<and> n \<le> buffered_log_max e \<and>
    (\<forall>k \<in> set ks. \<forall>k' \<in> buffered e V - set ks. suf k \<le> suf k')"
proof (cases "buffer_count b \<le> buffered_log_max e")
  case True
  then show ?thesis using assms(2)
    by (intro exI [of _ "buffer_count b"] exI [of _ "bl_db b"] exI [of _ "[]"]) (simp add: bl_purge_def V_def view_del_def word_le_nat_alt)
next
  case False
  define c where "c = buffer_count b - buffered_log_max e"
  have c: "unat c = unat (buffer_count b) - unat (buffered_log_max e)" "0 < unat c" "unat c < 2 ^ 32" "c \<noteq> 0"
    using False assms(3) by (auto simp: c_def word_le_nat_alt unat_sub)
  have inv: "db_ready ok_db (bl_db b)" "log_inv e (log_index b) (buffer_count b) V" using assms(2) by (simp_all add: fw_ok_def V_def)
  obtain st R where R: "scanDatabaseKeys (bf_db e) False kLogs [] (genIndexPrefix e True) c (bl_db b) = Inr (st, take (unat c) R, bl_db b)" "ok st"
    "set R = {k. V kLogs k \<noteq> None \<and> prefix (genIndexPrefix e True) k}" "distinct R" "sorted_wrt (\<lambda>x y. suf x < suf y) R"
    unfolding V_def suf_def by (rule scan_kind [OF assms(1,2) c(4)])
  obtain st2 S where S: "scanDatabaseKeys (bf_db e) False kLogs [] (genIndexPrefix e False) c (bl_db b) = Inr (st2, take (unat c) S, bl_db b)" "ok st2"
    "set S = {k. V kLogs k \<noteq> None \<and> prefix (genIndexPrefix e False) k}" "distinct S" "sorted_wrt (\<lambda>x y. suf x < suf y) S"
    unfolding V_def suf_def by (rule scan_kind [OF assms(1,2) c(4)])
  have B: "set R \<union> set S = buffered e V" "set R \<inter> set S = {}"
    using buffered_kinds [OF inv(2)] by (auto simp: R(3) S(3))
  have "length R + length S = card (buffered e V)"
    using card_Un_disjoint [of "set R" "set S"] B R(4) S(4) by (simp add: distinct_card)
  then have many: "unat c \<le> length (take (unat c) R @ take (unat c) S)" using log_invD(5) [OF inv(2)] c(1) by auto
  define ks where "ks = take (unat c) (sort_key suf (take (unat c) R @ take (unat c) S))"
  have ks: "length ks = unat c" using many by (simp add: ks_def)
  have "distinct (take (unat c) R @ take (unat c) S)" using R(4) S(4) B(2) by (auto dest: in_set_takeD)
  then have dist: "distinct ks" by (simp add: ks_def)
  have "set ks \<subseteq> set (take (unat c) R @ take (unat c) S)" unfolding ks_def by (metis set_sort set_take_subset)
  then have sub: "set ks \<subseteq> buffered e V" using B(1) set_take_subset [of "unat c" R] set_take_subset [of "unat c" S] by auto
  have n32: "unat (ucast c :: u32) = unat c" using c(3) by (simp add: unsigned_ucast_eq take_bit_nat_eq_self)
  have run: "bl_purge e b = exn_fold (delete_index e) ks b"
    using False R S many n32 c(2) by (simp add: bl_purge_def oldest_def ks_def suf_def Let_def flip: c_def)
  obtain n p where p: "exn_fold (delete_index e) ks b = Inr (b\<lparr>buffer_count := n, bl_db := p\<rparr>)" "fw_ok look ok_db e (b\<lparr>buffer_count := n, bl_db := p\<rparr>)"
    "unat n = unat (buffer_count b) - length ks" "db_view look p = view_del kLogs (\<lambda>k. k \<in> set ks) V"
    using delete_indexes [OF assms(1,2) dist] sub by (auto simp: V_def)
  have old: "suf k \<le> suf k'" if "k \<in> set ks" "k' \<in> buffered e V - set ks" for k k'
    using merged_oldest [OF R(5) S(5), of k "unat c" k'] that B(1) by (simp add: ks_def)
  have "n \<le> buffered_log_max e" using p(3) ks c(1) by (simp add: word_le_nat_alt)
  with run p sub dist ks c(1) old show ?thesis
    by (intro exI [of _ n] exI [of _ p] exI [of _ ks] conjI ballI) (simp_all only:)
qed

end

section \<open>A check\<close>

context limited_scans
begin

text \<open>What a check finds: some of the buffered keys, with the lines of both kinds.\<close>

lemma check_finds:
  assumes "de_ops (bf_db e) = ops" "fw_ok look ok_db e b"
  obtains st ks where "scanDatabaseKeys (bf_db e) False kLogs [] (index_name e) (max_log_lines e) (bl_db b) = Inr (st, ks, bl_db b)"
    "set ks \<subseteq> buffered e (db_view look (bl_db b))" "distinct ks"
    "length ks = (if max_log_lines e = 0 then card (buffered e (db_view look (bl_db b))) else min (card (buffered e (db_view look (bl_db b)))) (unat (max_log_lines e)))"
    "\<forall>k \<in> set ks. isIndex e k False \<longleftrightarrow> \<not> isIndex e k True"
    "collect_logs e ks (bl_db b) = Inr (map (line_of (db_view look (bl_db b))) (filter (\<lambda>k. isIndex e k True) ks),
      map (line_of (db_view look (bl_db b))) (filter (\<lambda>k. isIndex e k False) ks), bl_db b)"
proof -
  let ?V = "db_view look (bl_db b)"
  have inv: "db_ready ok_db (bl_db b)" "log_inv e (log_index b) (buffer_count b) ?V" using assms(2) by (simp_all add: fw_ok_def)
  have logs: "kLogs \<noteq> []" by (simp add: kLogs_def)
  obtain st keys where scan: "scanDatabaseKeys (bf_db e) False kLogs [] (index_name e) (max_log_lines e) (bl_db b) =
      Inr (st, (if max_log_lines e = 0 then keys else take (unat (max_log_lines e)) keys), bl_db b)"
    "set keys = {k. ?V kLogs k \<noteq> None \<and> prefix (index_name e) k}" "sorted_wrt (<) keys"
    using log_invD(1) [OF inv(2)] by (rule scan_limit [OF inv(1) assms(1) logs])
  define ks where "ks = (if max_log_lines e = 0 then keys else take (unat (max_log_lines e)) keys)"
  have ks: "set ks \<subseteq> buffered e ?V" "distinct ks"
    using scan(2,3) set_take_subset [of _ keys] by (auto simp: ks_def buffered_def strict_sorted_iff)
  have kinds: "isIndex e k False \<longleftrightarrow> \<not> isIndex e k True" if k: "k \<in> set ks" for k
  proof -
    obtain r t j where "k = own_key e r t j" using log_invD(2) [OF inv(2), of k] ks(1) k by blast
    then show ?thesis by simp
  qed
  have "filter (isResultIndex e) ks = filter (\<lambda>k. isIndex e k True) ks" "filter (\<lambda>k. \<not> isResultIndex e k) ks = filter (\<lambda>k. isIndex e k False) ks"
    using kinds by (auto simp: isResultIndex_def intro: filter_cong)
  then have "collect_logs e ks (bl_db b) = Inr (map (line_of ?V) (filter (\<lambda>k. isIndex e k True) ks), map (line_of ?V) (filter (\<lambda>k. isIndex e k False) ks), bl_db b)"
    using collect_buffered [OF assms(1) inv(1), of ks] ks(1) by (auto simp: buffered_def)
  moreover have "card (buffered e ?V) = length keys"
    using distinct_card [of keys] scan(2,3) by (simp add: buffered_def strict_sorted_iff)
  then have "length ks = (if max_log_lines e = 0 then card (buffered e ?V) else min (card (buffered e ?V)) (unat (max_log_lines e)))"
    by (simp add: ks_def)
  ultimately show thesis using that [of st ks] scan(1) ks kinds by (simp flip: ks_def)
qed

text \<open>A purge drops the lines of the keys it deletes.\<close>

lemma purge_moves:
  assumes "de_ops (bf_db e) = ops" "fw_ok look ok_db e b" "unat (log_index b) < 2 ^ 32"
  shows "\<exists>b' D. bl_purge e b = Inr b' \<and> moves look ok_db e D b b' \<and> buffer_count b' \<le> buffered_log_max e"
proof -
  let ?V = "db_view look (bl_db b)"
  have inv: "log_inv e (log_index b) (buffer_count b) ?V" using assms(2) by (simp add: fw_ok_def)
  have small: "unat (buffer_count b) < 2 ^ 32" using log_invD(4,5) [OF inv] assms(3) by simp
  obtain n p ks where p: "bl_purge e b = Inr (b\<lparr>buffer_count := n, bl_db := p\<rparr>)" "fw_ok look ok_db e (b\<lparr>buffer_count := n, bl_db := p\<rparr>)"
    "db_view look p = view_del kLogs (\<lambda>k. k \<in> set ks) ?V" "set ks \<subseteq> buffered e ?V" "distinct ks" "n \<le> buffered_log_max e"
    using purge_ok [OF assms(1,2) small] by blast
  have "stored_lines e ?V = stored_lines e (db_view look p) + mset (map (line_of ?V) ks)"
    unfolding p(3) by (rule stored_lines_del [OF log_invD(3) [OF inv] p(5,4)])
  then have "moves look ok_db e (mset (map (line_of ?V) ks)) b (b\<lparr>buffer_count := n, bl_db := p\<rparr>)"
    using p(2) by (simp add: moves_def fw_lines_def delivered_def add_ac)
  then show ?thesis using p(1,6) by auto
qed

lemma check_ok:
  assumes "de_ops (bf_db e) = ops" "fw_ok look ok_db e b" "unat (log_index b) < 2 ^ 32"
  shows "\<exists>b' D. bl_check e sr ss b = Inr b' \<and> moves look ok_db e D b b' \<and> (buffered_log_max e = 0 \<longrightarrow> D = {#}) \<and>
    (buffered_log_max e > 0 \<and> (\<forall>n. \<not> bf_interrupted e n) \<longrightarrow> buffer_count b' \<le> buffered_log_max e)"
proof -
  let ?V = "db_view look (bl_db b)"
  obtain st ks where scan: "scanDatabaseKeys (bf_db e) False kLogs [] (index_name e) (max_log_lines e) (bl_db b) = Inr (st, ks, bl_db b)"
    and ks: "set ks \<subseteq> buffered e ?V" "distinct ks" and kinds: "\<forall>k \<in> set ks. isIndex e k False \<longleftrightarrow> \<not> isIndex e k True"
    and collect: "collect_logs e ks (bl_db b) = Inr (map (line_of ?V) (filter (\<lambda>k. isIndex e k True) ks), map (line_of ?V) (filter (\<lambda>k. isIndex e k False) ks), bl_db b)"
    by (rule check_finds [OF assms(1,2)])
  let ?R = "map (line_of ?V) (filter (\<lambda>k. isIndex e k True) ks)" and ?S = "map (line_of ?V) (filter (\<lambda>k. isIndex e k False) ks)"
  obtain g1 b1 where 1: "send_logs e True sr ks ?R b = Inr (g1, b1)" "moves look ok_db e {#} b b1" "g1 \<or> (\<exists>n. bf_interrupted e n)"
    "\<forall>k. \<not> isIndex e k True \<longrightarrow> db_view look (bl_db b1) kLogs k = ?V kLogs k"
    using send_logs_ok [OF assms(1,2) ks(2) _ refl, of True sr] ks(1) by auto
  have fw1: "fw_ok look ok_db e b1" using 1(2) by (simp add: moves_def)
  have same: "db_view look (bl_db b1) kLogs k = ?V kLogs k" if "k \<in> set ks" "isIndex e k False" for k using 1(4) kinds that by auto
  have S1: "?S = map (line_of (db_view look (bl_db b1))) (filter (\<lambda>k. isIndex e k False) ks)" using same by (auto simp: line_of_def)
  have sub1: "set (filter (\<lambda>k. isIndex e k False) ks) \<subseteq> buffered e (db_view look (bl_db b1))" using same ks(1) by (auto simp: buffered_def)
  obtain g2 b2 where 2: "send_logs e False ss ks ?S b1 = Inr (g2, b2)" "moves look ok_db e {#} b1 b2" "g2 \<or> (\<exists>n. bf_interrupted e n)"
    using send_logs_ok [OF assms(1) fw1 ks(2) sub1 S1, of ss] by auto
  have fw2: "fw_ok look ok_db e b2" "moves look ok_db e {#} b b2" "unat (log_index b2) < 2 ^ 32"
    using 1(2) 2(2) moves_trans [OF 1(2) 2(2)] assms(3) by (simp_all add: moves_def)
  obtain b3 D where 3: "bl_purge e b2 = Inr b3" "moves look ok_db e D b2 b3" "buffer_count b3 \<le> buffered_log_max e"
    using purge_moves [OF assms(1) fw2(1,3)] by blast
  have "bl_check e sr ss b = Inr (if \<not> g1 then b1 else if \<not> g2 then b2 else if buffered_log_max e > 0 then b3 else b2)"
    using scan collect 1(1) 2(1) 3(1) by (simp add: bl_check_def)
  then show ?thesis using 1(2,3) 2(3) fw2(2) 3(3) moves_trans [OF fw2(2) 3(2)] by (cases "g1 \<and> g2 \<and> buffered_log_max e > 0") (auto split: if_splits)
qed

end

context limited_scans
begin

text \<open>If every send succeeds, a check empties the buffer of all that it found.\<close>

lemma check_sends:
  assumes "de_ops (bf_db e) = ops" "fw_ok look ok_db e b" "buffered_log_max e = 0" "\<forall>n ls ty. ok (bf_send e n ls ty)"
  defines "B \<equiv> (\<lambda>b. card (buffered e (db_view look (bl_db b))))"
  shows "\<exists>b'. bl_check e True True b = Inr b' \<and> moves look ok_db e {#} b b' \<and>
    B b' = (if max_log_lines e = 0 then 0 else B b - unat (max_log_lines e))"
proof -
  let ?V = "db_view look (bl_db b)"
  obtain st ks where scan: "scanDatabaseKeys (bf_db e) False kLogs [] (index_name e) (max_log_lines e) (bl_db b) = Inr (st, ks, bl_db b)"
    and ks: "set ks \<subseteq> buffered e ?V" "distinct ks" "length ks = (if max_log_lines e = 0 then card (buffered e ?V) else min (card (buffered e ?V)) (unat (max_log_lines e)))"
    and kinds: "\<forall>k \<in> set ks. isIndex e k False \<longleftrightarrow> \<not> isIndex e k True"
    and collect: "collect_logs e ks (bl_db b) = Inr (map (line_of ?V) (filter (\<lambda>k. isIndex e k True) ks), map (line_of ?V) (filter (\<lambda>k. isIndex e k False) ks), bl_db b)"
    by (rule check_finds [OF assms(1,2)])
  let ?R = "map (line_of ?V) (filter (\<lambda>k. isIndex e k True) ks)" and ?S = "map (line_of ?V) (filter (\<lambda>k. isIndex e k False) ks)"
  have subR: "set (filter (\<lambda>k. isIndex e k True) ks) \<subseteq> buffered e ?V" using ks(1) by auto
  obtain b1 where 1: "send_logs e True True ks ?R b = Inr (True, b1)" "moves look ok_db e {#} b b1"
    "db_view look (bl_db b1) = view_del kLogs (\<lambda>k. k \<in> set (filter (\<lambda>k. isIndex e k True) ks)) ?V"
    using send_logs_ok [OF assms(1,2) ks(2) subR refl, of True] assms(4) by auto
  have fw1: "fw_ok look ok_db e b1" using 1(2) by (simp add: moves_def)
  have S1: "?S = map (line_of (db_view look (bl_db b1))) (filter (\<lambda>k. isIndex e k False) ks)"
    and sub1: "set (filter (\<lambda>k. isIndex e k False) ks) \<subseteq> buffered e (db_view look (bl_db b1))"
    using kinds ks(1) by (auto simp: 1(3) line_of_def buffered_def view_del_def)
  obtain b2 where 2: "send_logs e False True ks ?S b1 = Inr (True, b2)" "moves look ok_db e {#} b1 b2"
    "db_view look (bl_db b2) = view_del kLogs (\<lambda>k. k \<in> set (filter (\<lambda>k. isIndex e k False) ks)) (db_view look (bl_db b1))"
    using send_logs_ok [OF assms(1) fw1 ks(2) sub1 S1, of True] assms(4) by auto
  have "buffered e (db_view look (bl_db b2)) = buffered e ?V - set ks"
    unfolding 2(3) buffered_del 1(3) using kinds by auto
  then have "B b2 = B b - length ks" using ks(1,2) by (simp add: B_def card_Diff_subset distinct_card)
  then have "B b2 = (if max_log_lines e = 0 then 0 else B b - unat (max_log_lines e))" using ks(3) by (auto simp: B_def)
  moreover have "bl_check e True True b = Inr b2" using scan collect 1(1) 2(1) assms(3) by (simp add: bl_check_def)
  ultimately show ?thesis using moves_trans [OF 1(2) 2(2)] by auto
qed

lemma checks_drain:
  assumes "de_ops (bf_db e) = ops" "buffered_log_max e = 0" "\<forall>n ls ty. ok (bf_send e n ls ty)" "max_log_lines e \<noteq> 0"
  shows "fw_ok look ok_db e b \<Longrightarrow> \<exists>b'. exn_fold (\<lambda>_. bl_check e True True) (replicate n ()) b = Inr b' \<and> moves look ok_db e {#} b b' \<and>
    card (buffered e (db_view look (bl_db b'))) = card (buffered e (db_view look (bl_db b))) - n * unat (max_log_lines e)"
proof (induction n arbitrary: b)
  case 0
  then show ?case by (auto simp: moves_refl)
next
  case (Suc n)
  obtain b1 where 1: "bl_check e True True b = Inr b1" "moves look ok_db e {#} b b1"
    "card (buffered e (db_view look (bl_db b1))) = card (buffered e (db_view look (bl_db b))) - unat (max_log_lines e)"
    using check_sends [OF assms(1) Suc.prems assms(2,3)] assms(4) by auto
  have fw1: "fw_ok look ok_db e b1" using 1(2) by (simp add: moves_def)
  obtain b2 where "exn_fold (\<lambda>_. bl_check e True True) (replicate n ()) b1 = Inr b2" "moves look ok_db e {#} b1 b2"
    "card (buffered e (db_view look (bl_db b2))) = card (buffered e (db_view look (bl_db b1))) - n * unat (max_log_lines e)"
    using Suc.IH [OF fw1] by blast
  then show ?case using 1 moves_trans [OF 1(2), of "{#}" b2] by auto
qed

end

section \<open>Sequences of operations\<close>

datatype fw_op = Log_result string u64 u64 | Log_status "StatusLogLine list" u64 u64 | Check bool bool | Tick

fun fw_step :: "'d forward_env \<Rightarrow> fw_op \<Rightarrow> 'd forwarder \<Rightarrow> 'd forwarder throwing" where
  "fw_step e (Log_result s time now) b = exn_bind (bl_logString e now s time b) (\<lambda>(_, b'). Inr b')"
| "fw_step e (Log_status lines time now) b = exn_bind (bl_logStatus e now lines time b) (\<lambda>(_, b'). Inr b')"
| "fw_step e (Check sr ss) b = bl_check e sr ss b"
| "fw_step e Tick b = Inr (backoffTick (applyNewConfiguration e b))"

fun logged_lines :: "'d forward_env \<Rightarrow> fw_op \<Rightarrow> string list" where
  "logged_lines e (Log_result s time now) = [s]"
| "logged_lines e (Log_status lines time now) = map (status_text e) lines"
| "logged_lines e _ = []"

definition all_logged :: "'d forward_env \<Rightarrow> fw_op list \<Rightarrow> string list" where
  "all_logged e ops = concat (map (logged_lines e) ops)"

text \<open>A step that logs \<open>ls\<close> and drops \<open>D\<close>.\<close>

definition logs :: "('d \<Rightarrow> log_view) \<Rightarrow> ('d \<Rightarrow> bool) \<Rightarrow> 'd forward_env \<Rightarrow> string list \<Rightarrow> string multiset \<Rightarrow> 'd forwarder \<Rightarrow> 'd forwarder \<Rightarrow> bool" where
  "logs look ok_db e ls D b b' \<longleftrightarrow> fw_ok look ok_db e b' \<and>
     fw_lines look e b + delivered b + mset ls = fw_lines look e b' + delivered b' + D \<and> unat (log_index b') = unat (log_index b) + length ls"

lemma logs_trans: "logs look ok_db e ls D b b1 \<Longrightarrow> logs look ok_db e ls' D' b1 b2 \<Longrightarrow> logs look ok_db e (ls @ ls') (D + D') b b2"
  unfolding logs_def by (simp add: add_ac) (metis union_assoc union_commute)

lemma moves_logs: "moves look ok_db e D b b' \<Longrightarrow> logs look ok_db e [] D b b'"
  by (simp add: moves_def logs_def)

context limited_scans
begin

lemma logString_ok:
  assumes "de_ops (bf_db e) = ops" "fw_ok look ok_db e b" "unat (log_index b) + 1 < 2 ^ 64"
  shows "\<exists>st b'. bl_logString e now s time b = Inr (st, b') \<and> ok st \<and> logs look ok_db e [s] {#} b b'"
proof -
  have "unat (log_index b + 1) = unat (log_index b) + 1" using assms(3) by (simp add: unat_word_ariths)
  then show ?thesis
    using add_line [OF assms, of True "if time = 0 then now else time" s]
    by (auto simp: bl_logString_def genResultIndex_def genIndex_key logs_def fw_lines_def delivered_def)
qed

lemma logStatus_ok:
  assumes "de_ops (bf_db e) = ops"
  shows "fw_ok look ok_db e b \<Longrightarrow> unat (log_index b) + length lines < 2 ^ 64 \<Longrightarrow>
    \<exists>st b'. bl_logStatus e now lines time b = Inr (st, b') \<and> ok st \<and> logs look ok_db e (map (status_text e) lines) {#} b b'"
proof (induction lines arbitrary: b)
  case Nil
  then show ?case by (auto simp: logs_def)
next
  case (Cons x lines)
  have i: "unat (log_index b + 1) = unat (log_index b) + 1" "unat (log_index b) + 1 < 2 ^ 64" using Cons.prems(2) by (auto simp: unat_word_ariths)
  let ?t = "if time = 0 then now else time"
  obtain st p where p: "addValueWithCount e kLogs (own_key e False ?t (log_index b + 1)) (status_text e x) (b\<lparr>log_index := log_index b + 1\<rparr>) =
      Inr (st, b\<lparr>log_index := log_index b + 1, buffer_count := buffer_count b + 1, bl_db := p\<rparr>)" "ok st"
    "fw_ok look ok_db e (b\<lparr>log_index := log_index b + 1, buffer_count := buffer_count b + 1, bl_db := p\<rparr>)"
    "stored_lines e (db_view look p) = add_mset (status_text e x) (fw_lines look e b)"
    using add_line [OF assms Cons.prems(1) i(2), of False ?t "status_text e x"] by blast
  let ?b = "b\<lparr>log_index := log_index b + 1, buffer_count := buffer_count b + 1, bl_db := p\<rparr>"
  have one: "logs look ok_db e [status_text e x] {#} b ?b"
    using p(3,4) i(1) by (simp add: logs_def fw_lines_def delivered_def)
  obtain st' b' where "bl_logStatus e now lines time ?b = Inr (st', b')" "ok st'" "logs look ok_db e (map (status_text e) lines) {#} ?b b'"
    using Cons.IH [OF p(3)] Cons.prems(2) i(1) by auto
  moreover have "bl_logStatus e now (x # lines) time b = bl_logStatus e now lines time ?b"
    using p(1,2) by (simp add: genStatusIndex_def genIndex_key status_text_def json_toString_def)
  moreover have "logs look ok_db e (map (status_text e) (x # lines)) {#} b b'" if "logs look ok_db e (map (status_text e) lines) {#} ?b b'" for b'
    using logs_trans [OF one that] by simp
  ultimately show ?case by metis
qed

lemma tick_ok: "fw_ok look ok_db e b \<Longrightarrow> logs look ok_db e [] {#} b (backoffTick (applyNewConfiguration e b))"
  by (auto simp: logs_def fw_ok_def fw_lines_def delivered_def backoffTick_def applyNewConfiguration_def Let_def)

lemma step_ok:
  assumes "de_ops (bf_db e) = ops" "fw_ok look ok_db e b" "unat (log_index b) + length (logged_lines e op) < 2 ^ 32"
  shows "\<exists>b' D. fw_step e op b = Inr b' \<and> logs look ok_db e (logged_lines e op) D b b' \<and> (buffered_log_max e = 0 \<longrightarrow> D = {#})"
proof (cases op)
  case (Log_result s time now)
  then show ?thesis using logString_ok [OF assms(1,2), of now s time] assms(3) by fastforce
next
  case (Log_status lines time now)
  then show ?thesis using logStatus_ok [OF assms(1,2), of lines now time] assms(3) by fastforce
next
  case (Check sr ss)
  then show ?thesis using check_ok [OF assms(1,2), of sr ss] assms(3) moves_logs by fastforce
next
  case Tick
  then show ?thesis using tick_ok [OF assms(2)] by auto
qed

lemma trace_ok:
  assumes "de_ops (bf_db e) = ops"
  shows "fw_ok look ok_db e b \<Longrightarrow> unat (log_index b) + length (all_logged e xs) < 2 ^ 32 \<Longrightarrow>
    \<exists>b' D. exn_fold (fw_step e) xs b = Inr b' \<and> logs look ok_db e (all_logged e xs) D b b' \<and> (buffered_log_max e = 0 \<longrightarrow> D = {#})"
proof (induction xs arbitrary: b)
  case Nil
  then show ?case by (auto simp: logs_def all_logged_def)
next
  case (Cons x xs)
  obtain b1 D where 1: "fw_step e x b = Inr b1" "logs look ok_db e (logged_lines e x) D b b1" "buffered_log_max e = 0 \<longrightarrow> D = {#}"
    using step_ok [OF assms Cons.prems(1), of x] Cons.prems(2) by (auto simp: all_logged_def)
  obtain b2 D' where 2: "exn_fold (fw_step e) xs b1 = Inr b2" "logs look ok_db e (all_logged e xs) D' b1 b2" "buffered_log_max e = 0 \<longrightarrow> D' = {#}"
    using Cons.IH [of b1] 1(2) Cons.prems(2) by (auto simp: logs_def all_logged_def)
  show ?case using 1 2 logs_trans [OF 1(2) 2(2)]
    by (intro exI [of _ b2] exI [of _ "D + D'"]) (simp add: all_logged_def)
qed

end

section \<open>Properties\<close>

lemma exn_fold_append: "exn_fold f (xs @ ys) b = exn_bind (exn_fold f xs b) (exn_fold f ys)"
proof (induction xs arbitrary: b)
  case (Cons x xs)
  then show ?case by (cases "f x b") auto
qed simp

text \<open>A store none of whose keys can be mistaken for one of the forwarder's.\<close>

definition fresh_store :: "'d forward_env \<Rightarrow> log_view \<Rightarrow> bool" where
  "fresh_store e V \<longleftrightarrow> (\<forall>k. V kLogs k \<noteq> None \<longrightarrow> \<not> prefix k (index_name e) \<and> \<not> prefix (index_name e) k)"

lemma fresh_store_buffered: "fresh_store e V \<Longrightarrow> buffered e V = {}"
  by (auto simp: fresh_store_def buffered_def)

lemma new_forwarder_ok:
  assumes "db_ready ok_db p" "fresh_store e (db_view look p)"
  shows "fw_ok look ok_db e (BufferedLogForwarder_new period mb p)" "fw_lines look e (BufferedLogForwarder_new period mb p) = {#}"
    "delivered (BufferedLogForwarder_new period mb p) = {#}" "log_index (BufferedLogForwarder_new period mb p) = 0"
  using assms fresh_store_buffered [OF assms(2)]
  by (auto simp: fw_ok_def log_inv_def BufferedLogForwarder_new_def delivered_def fw_lines_def stored_lines_def fresh_store_def strict_prefix_def)

lemma run_ok:
  assumes "de_ops (bf_db e) = EphemeralDatabasePlugin" "db_ready eph_inv p" "fresh_store e (db_view eph_look p)"
    and "length (all_logged e xs) < 2 ^ 32"
  obtains b D where "exn_fold (fw_step e) xs (BufferedLogForwarder_new period mb p) = Inr b" "fw_ok eph_look eph_inv e b"
    "mset (all_logged e xs) = fw_lines eph_look e b + delivered b + D" "unat (log_index b) = length (all_logged e xs)" "buffered_log_max e = 0 \<longrightarrow> D = {#}"
proof -
  note new = new_forwarder_ok [OF assms(2,3), of period mb]
  have n: "unat (log_index (BufferedLogForwarder_new period mb p)) + length (all_logged e xs) < 2 ^ 32" using assms(4) new(4) by simp
  obtain b D where "exn_fold (fw_step e) xs (BufferedLogForwarder_new period mb p) = Inr b"
    "logs eph_look eph_inv e (all_logged e xs) D (BufferedLogForwarder_new period mb p) b" "buffered_log_max e = 0 \<longrightarrow> D = {#}"
    using ephl.trace_ok [OF assms(1) new(1) n] by blast
  then show thesis using that [of b D] new by (simp add: logs_def)
qed

text \<open>A forwarder on an empty in-memory store, whose first two sends fail.\<close>

definition sample_forward :: "u64 \<Rightarrow> ephemeral_db forward_env" where
  "sample_forward bound = \<lparr>bf_db = eph_env, index_name = ''tls'', max_log_lines = 2, buffered_log_max = bound, bf_decorations = [],
     decorations_top_level = False, kVersion = ''5.18.1'', bf_send = (\<lambda>n ls ty. Status_code (if n < 2 then 1 else 0)),
     bf_interrupted = (\<lambda>_. False), bf_configure = (\<lambda>_. (4, 3600))\<rparr>"

definition sample_log_ops :: "fw_op list" where
  "sample_log_ops = [Log_result ''a'' 5 0, Log_result ''b'' 0 7, Check True True, Tick, Log_result ''c'' 9 0, Check True True]"

lemma sample_forward_ok:
  "de_ops (bf_db (sample_forward m)) = EphemeralDatabasePlugin" "fresh_store (sample_forward m) (db_view eph_look (eph_process []))"
  "all_logged (sample_forward m) sample_log_ops = [''a'', ''b'', ''c'']" "buffered_log_max (sample_forward m) = m"
  "bf_interrupted (sample_forward m) n = False" "bf_configure (sample_forward m) n = (4, 3600)" "max_log_lines (sample_forward m) = 2"
  "db_ready eph_inv (eph_process [])"
  using eph_process_ready [OF eph_inv_Nil]
  by (simp_all add: sample_forward_def fresh_store_def all_logged_def sample_log_ops_def eph_look_def eph_domain_def om_get_def)

lemma sample_forward_runs: "\<exists>b. exn_fold (fw_step (sample_forward m)) sample_log_ops (BufferedLogForwarder_new 4 3600 (eph_process [])) = Inr b"
proof (rule run_ok [of "sample_forward m" "eph_process []" sample_log_ops 4 3600], goal_cases)
  case (5 b D)
  then show ?case by blast
qed (use sample_forward_ok in simp_all)



text \<open>
  The buffer is bounded. After any sequence of operations a check that is not interrupted leaves at most
  \<open>buffered_log_max\<close> keys in the store, and the forwarder's count is their exact number.
\<close>

theorem checked_buffer_bounded:
  assumes "de_ops (bf_db e) = EphemeralDatabasePlugin" "db_ready eph_inv p" "fresh_store e (db_view eph_look p)"
    and "0 < buffered_log_max e" "\<forall>n. \<not> bf_interrupted e n" "length (all_logged e xs) < 2 ^ 32"
  shows "\<exists>b. exn_fold (fw_step e) (xs @ [Check sr ss]) (BufferedLogForwarder_new period mb p) = Inr b \<and>
    card (buffered e (db_view eph_look (bl_db b))) \<le> unat (buffered_log_max e) \<and>
    unat (buffer_count b) = card (buffered e (db_view eph_look (bl_db b)))"
proof -
  obtain b D where b: "exn_fold (fw_step e) xs (BufferedLogForwarder_new period mb p) = Inr b" "fw_ok eph_look eph_inv e b"
    "mset (all_logged e xs) = fw_lines eph_look e b + delivered b + D" "unat (log_index b) = length (all_logged e xs)" "buffered_log_max e = 0 \<longrightarrow> D = {#}"
    by (rule run_ok [OF assms(1-3,6)])
  obtain b' D' where "bl_check e sr ss b = Inr b'" "moves eph_look eph_inv e D' b b'" "buffer_count b' \<le> buffered_log_max e"
    using ephl.check_ok [OF assms(1) b(2), of sr ss] b(4) assms(4-6) by auto
  then show ?thesis using b(1) log_invD(5) [of e "log_index b'" "buffer_count b'"]
    by (auto simp: exn_fold_append moves_def fw_ok_def word_le_nat_alt)
qed

theorem checked_buffer_bounded_witness:
  "\<exists>b. exn_fold (fw_step (sample_forward 1)) (sample_log_ops @ [Check True False]) (BufferedLogForwarder_new 4 3600 (eph_process [])) = Inr b \<and>
     card (buffered (sample_forward 1) (db_view eph_look (bl_db b))) \<le> 1"
  using checked_buffer_bounded [of "sample_forward 1" "eph_process []" sample_log_ops True False 4 3600] sample_forward_ok
  by auto

text \<open>
  A purge drops as many lines as the limit is exceeded by, and each of them is at most as new as every line
  that stays: the keys of results and statuses together are compared by what follows their prefixes, the time and the number.
\<close>

theorem purge_drops_oldest:
  assumes "de_ops (bf_db e) = EphemeralDatabasePlugin" "db_ready eph_inv p" "fresh_store e (db_view eph_look p)"
    and "length (all_logged e xs) < 2 ^ 32" "exn_fold (fw_step e) xs (BufferedLogForwarder_new period mb p) = Inr b"
  defines "V \<equiv> db_view eph_look (bl_db b)" and "suf \<equiv> drop (length (genIndexPrefix e True))"
  shows "\<exists>n p' ks. bl_purge e b = Inr (b\<lparr>buffer_count := n, bl_db := p'\<rparr>) \<and> db_view eph_look p' = view_del kLogs (\<lambda>k. k \<in> set ks) V \<and>
    set ks \<subseteq> buffered e V \<and> distinct ks \<and> length ks = card (buffered e V) - unat (buffered_log_max e) \<and>
    (\<forall>k \<in> set ks. \<forall>k' \<in> buffered e V - set ks. suf k \<le> suf k')"
proof -
  obtain b1 D where b1: "exn_fold (fw_step e) xs (BufferedLogForwarder_new period mb p) = Inr b1" "fw_ok eph_look eph_inv e b1"
    "mset (all_logged e xs) = fw_lines eph_look e b1 + delivered b1 + D" "unat (log_index b1) = length (all_logged e xs)" "buffered_log_max e = 0 \<longrightarrow> D = {#}"
    by (rule run_ok [OF assms(1-4)])
  have ok: "fw_ok eph_look eph_inv e b" using b1(1,2) assms(5) by simp
  have inv: "log_inv e (log_index b) (buffer_count b) V" using ok by (simp add: fw_ok_def V_def)
  have "unat (buffer_count b) < 2 ^ 32" using log_invD(4,5) [OF inv] b1(1,4) assms(4,5) by simp
  from ephl.purge_ok [OF assms(1) ok this] show ?thesis
    unfolding V_def [symmetric] suf_def [symmetric] log_invD(5) [OF inv] by blast
qed

theorem purge_drops_oldest_witness:
  "\<exists>b n p' ks. exn_fold (fw_step (sample_forward 5)) sample_log_ops (BufferedLogForwarder_new 4 3600 (eph_process [])) = Inr b \<and>
     bl_purge (sample_forward 5) b = Inr (b\<lparr>buffer_count := n, bl_db := p'\<rparr>) \<and> set ks \<subseteq> buffered (sample_forward 5) (db_view eph_look (bl_db b)) \<and>
     length ks = card (buffered (sample_forward 5) (db_view eph_look (bl_db b))) - 5"
proof -
  obtain b where b: "exn_fold (fw_step (sample_forward 5)) sample_log_ops (BufferedLogForwarder_new 4 3600 (eph_process [])) = Inr b"
    using sample_forward_runs by blast
  show ?thesis using purge_drops_oldest [of "sample_forward 5" "eph_process []" sample_log_ops, OF _ _ _ _ b] sample_forward_ok b
    by simp blast
qed

lemma wait_loop_mono: "wait_loop e stops n b = Some b' \<Longrightarrow> n \<le> m \<Longrightarrow> wait_loop e stops m b = Some b'"
proof (induction n arbitrary: m b)
  case (Suc n)
  then obtain m' where "m = Suc m'" "n \<le> m'" by (cases m) auto
  then show ?case using Suc by (auto simp: Let_def split: if_splits)
qed simp

text \<open>
  Waiting ends. While the configured log period is positive, the inner loop of the forwarder's thread returns after
  at most as many turns as the seconds of backoff left for the results, and then one kind has no backoff left or the
  thread has been asked to end.
\<close>

theorem waiting_ends:
  assumes "\<forall>n. 0 < fst (bf_configure e n)"
  shows "\<exists>b'. wait_loop e stops (Suc (nat (bo_period (results_backoff b)))) b = Some b' \<and>
    (stops (bl_ticks b') \<or> bo_period (results_backoff b') \<le> 0 \<or> bo_period (statuses_backoff b') \<le> 0)"
proof (induction "nat (bo_period (results_backoff b))" arbitrary: b rule: less_induct)
  case less
  let ?b = "backoffTick (applyNewConfiguration e b)"
  show ?case
  proof (cases "\<not> stops (bl_ticks ?b) \<and> bo_period (results_backoff ?b) > 0 \<and> bo_period (statuses_backoff ?b) > 0")
    case True
    have p: "0 < fst (bf_configure e (bl_ticks b))" using assms by blast
    have lt: "nat (bo_period (results_backoff ?b)) < nat (bo_period (results_backoff b))"
      using True p by (auto simp: backoffTick_def applyNewConfiguration_def Let_def split: if_splits)
    obtain b' where "wait_loop e stops (Suc (nat (bo_period (results_backoff ?b)))) ?b = Some b'"
      "stops (bl_ticks b') \<or> bo_period (results_backoff b') \<le> 0 \<or> bo_period (statuses_backoff b') \<le> 0" using less [OF lt] by blast
    moreover from this(1) have "wait_loop e stops (nat (bo_period (results_backoff b))) ?b = Some b'"
      by (rule wait_loop_mono) (rule Suc_leI [OF lt])
    ultimately show ?thesis using True by (auto simp: Let_def)
  qed (auto simp: Let_def not_less)
qed

theorem waiting_ends_witness:
  "\<exists>b'. wait_loop (sample_forward 0) (\<lambda>_. False) (Suc (nat 16))
       (BufferedLogForwarder_new 4 3600 (eph_process [])\<lparr>results_backoff := \<lparr>bo_count = 2, bo_period = 16\<rparr>, statuses_backoff := \<lparr>bo_count = 1, bo_period = 4\<rparr>\<rparr>) = Some b' \<and>
     (bo_period (results_backoff b') \<le> 0 \<or> bo_period (statuses_backoff b') \<le> 0)"
  using waiting_ends [of "sample_forward 0" "\<lambda>_. False"
      "BufferedLogForwarder_new 4 3600 (eph_process [])\<lparr>results_backoff := \<lparr>bo_count = 2, bo_period = 16\<rparr>, statuses_backoff := \<lparr>bo_count = 1, bo_period = 4\<rparr>\<rparr>"]
    sample_forward_ok(6)
  by simp



end
