(* ===== verification/AuditRecords.thy ===== *)
theory AuditRecords
  imports Packs "HOL-Library.Monad_Syntax"
begin

text \<open>
  The audit publisher of Linux: \<open>events/linux/auditdnetlink\<close> (reading and parsing of raw records, the queues between
  the threads) and \<open>events/linux/auditeventpublisher\<close> (assembling of records into events). The kernel and libaudit
  give raw records; \<open>boost::algorithm::unhex\<close> is a parameter.
\<close>

section \<open>Constants of the kernel\<close>

definition AUDIT_GET :: int where "AUDIT_GET = 1000"
definition AUDIT_USER :: int where "AUDIT_USER = 1005"
definition AUDIT_LOGIN :: int where "AUDIT_LOGIN = 1006"
definition AUDIT_LIST_RULES :: int where "AUDIT_LIST_RULES = 1013"
definition AUDIT_FIRST_USER_MSG :: int where "AUDIT_FIRST_USER_MSG = 1100"
definition AUDIT_USER_AVC :: int where "AUDIT_USER_AVC = 1107"
definition AUDIT_LAST_USER_MSG :: int where "AUDIT_LAST_USER_MSG = 1199"
definition AUDIT_DAEMON_START :: int where "AUDIT_DAEMON_START = 1200"
definition AUDIT_DAEMON_CONFIG :: int where "AUDIT_DAEMON_CONFIG = 1203"
definition AUDIT_SYSCALL :: int where "AUDIT_SYSCALL = 1300"
definition AUDIT_PATH :: int where "AUDIT_PATH = 1302"
definition AUDIT_CONFIG_CHANGE :: int where "AUDIT_CONFIG_CHANGE = 1305"
definition AUDIT_CWD :: int where "AUDIT_CWD = 1307"
definition AUDIT_EXECVE :: int where "AUDIT_EXECVE = 1309"
definition AUDIT_OBJ_PID :: int where "AUDIT_OBJ_PID = 1318"
definition AUDIT_EOE :: int where "AUDIT_EOE = 1320"
definition AUDIT_SECCOMP :: int where "AUDIT_SECCOMP = 1326"
definition AUDIT_AVC :: int where "AUDIT_AVC = 1400"
definition AUDIT_INTEGRITY_LAST_MSG :: int where "AUDIT_INTEGRITY_LAST_MSG = 1899"
definition AUDIT_KERNEL :: int where "AUDIT_KERNEL = 2000"
definition AUDIT_FIRST_USER_MSG2 :: int where "AUDIT_FIRST_USER_MSG2 = 2100"
definition AUDIT_LAST_USER_MSG2 :: int where "AUDIT_LAST_USER_MSG2 = 2999"
definition NLMSG_NOOP :: int where "NLMSG_NOOP = 1"
definition NLMSG_ERROR :: int where "NLMSG_ERROR = 2"
definition NLMSG_DONE :: int where "NLMSG_DONE = 3"

lemmas audit_types = AUDIT_GET_def AUDIT_USER_def AUDIT_LOGIN_def AUDIT_LIST_RULES_def AUDIT_FIRST_USER_MSG_def
  AUDIT_USER_AVC_def AUDIT_LAST_USER_MSG_def AUDIT_DAEMON_START_def AUDIT_DAEMON_CONFIG_def AUDIT_SYSCALL_def AUDIT_PATH_def
  AUDIT_CONFIG_CHANGE_def AUDIT_CWD_def AUDIT_EXECVE_def AUDIT_OBJ_PID_def AUDIT_EOE_def AUDIT_SECCOMP_def AUDIT_AVC_def
  AUDIT_INTEGRITY_LAST_MSG_def AUDIT_KERNEL_def AUDIT_FIRST_USER_MSG2_def AUDIT_LAST_USER_MSG2_def
  NLMSG_NOOP_def NLMSG_ERROR_def NLMSG_DONE_def

text \<open>\<open>AUDIT_USER_AVC\<close>, and 1400 to 1417, the records of the security modules.\<close>

definition kSELinuxEventList :: "int list" where
  "kSELinuxEventList = AUDIT_USER_AVC # map (\<lambda>n. AUDIT_AVC + int n) [0..<18]"

definition kAppArmorEventSet :: "int list" where
  "kAppArmorEventSet = [AUDIT_AVC]"

section \<open>Data\<close>

type_synonym field_map = "(string, string) omap"

record AuditEventRecord =
  rec_type :: int
  rec_time :: u64
  audit_id :: string
  rec_fields :: field_map
  raw_data :: string

text \<open>
  \<open>audit_reply\<close>: the type in the netlink header, the bytes of the payload, and for a status message the process
  identifier in it.
\<close>

record audit_reply =
  nlmsg_type :: int
  nl_payload :: string
  status_pid :: int

datatype field_value = Text string | Number u64

record SyscallAuditEventData =
  syscall_number :: u64
  sd_succeeded :: bool
  sd_process_id :: int
  sd_parent_process_id :: int
  sd_uid :: "u32 option"
  sd_auid :: "u32 option"
  sd_euid :: "u32 option"
  sd_fsuid :: "u32 option"
  sd_suid :: "u32 option"
  sd_gid :: "u32 option"
  sd_egid :: "u32 option"
  sd_fsgid :: "u32 option"
  sd_sgid :: "u32 option"
  sd_executable_path :: string

datatype event_data =
    UserAuditEventData u64
  | SyscallData SyscallAuditEventData
  | AppArmorAuditEventData "(string \<times> field_value) list"
  | SeccompAuditEventData "(string \<times> field_value) list"

datatype event_type = UserEvent | Syscall | SELinux | AppArmor | Seccomp

record AuditEvent =
  ae_type :: event_type
  ae_data :: event_data
  record_list :: "AuditEventRecord list"

type_synonym AuditTraceContext = "(string, AuditEvent) omap"

record audit_env =
  unhex :: "string \<Rightarrow> string option"
  executable_path :: string
  audit_getpid :: int
  audit_persist :: bool
  disable_audit :: bool
  audit_allow_fim_events :: bool
  audit_allow_process_events :: bool
  audit_allow_sockets :: bool
  audit_allow_user_events :: bool
  audit_allow_selinux_events :: bool
  audit_allow_kill_process_events :: bool
  audit_allow_apparmor_events :: bool
  audit_allow_seccomp_events :: bool

section \<open>Fields\<close>

text \<open>Whether the field is there, and the value stored in the output argument.\<close>

definition GetStringFieldFromMap :: "field_map \<Rightarrow> string \<Rightarrow> string \<Rightarrow> bool \<times> string" where
  "GetStringFieldFromMap fs name default_value =
     (case om_get fs name of None \<Rightarrow> (False, default_value) | Some v \<Rightarrow> (True, v))"

definition GetIntegerFieldFromMap :: "field_map \<Rightarrow> string \<Rightarrow> nat \<Rightarrow> u64 \<Rightarrow> bool \<times> u64" where
  "GetIntegerFieldFromMap fs field_name base default_value =
     (let (found, string_value) = GetStringFieldFromMap fs field_name []
      in if \<not> found then (False, default_value)
         else case object (tryTo_u64 (\<lambda>_. []) base string_value) of
                Inl v \<Rightarrow> (True, v)
              | Inr _ \<Rightarrow> (False, default_value))"

definition CopyFieldFromMap :: "Row \<Rightarrow> field_map \<Rightarrow> string \<Rightarrow> string \<Rightarrow> Row" where
  "CopyFieldFromMap row fs name default_value = om_set name (snd (GetStringFieldFromMap fs name default_value)) row"

definition StripQuotes :: "string \<Rightarrow> string" where
  "StripQuotes v =
     (if length v \<ge> 3 \<and> v ! 0 = CHR 0x22 \<and> v ! (length v - 1) = CHR 0x22 then take (length v - 2) (drop 1 v) else v)"

definition DecodeAuditPathValues :: "audit_env \<Rightarrow> string \<Rightarrow> string" where
  "DecodeAuditPathValues e s =
     (if length s > 1 \<and> s ! 0 = CHR 0x22 then take (length s - 2) (drop 1 s)
      else case unhex e s of Some x \<Rightarrow> x | None \<Rightarrow> s)"

definition GetEventRecord :: "AuditEvent \<Rightarrow> int \<Rightarrow> AuditEventRecord option" where
  "GetEventRecord event record_type = find (\<lambda>r. rec_type r = record_type) (record_list event)"

section \<open>Parsing of raw records\<close>

definition IsSELinuxRecord :: "audit_reply \<Rightarrow> bool" where
  "IsSELinuxRecord reply \<longleftrightarrow> nlmsg_type reply \<in> set kSELinuxEventList \<and> \<not> str_contains (c_str (nl_payload reply)) ''apparmor=''"

definition isAppArmorRecord :: "audit_reply \<Rightarrow> bool" where
  "isAppArmorRecord reply \<longleftrightarrow> nlmsg_type reply \<in> set kAppArmorEventSet \<and> str_contains (c_str (nl_payload reply)) ''apparmor=''"

definition ShouldHandle :: "audit_env \<Rightarrow> audit_reply \<Rightarrow> bool" where
  "ShouldHandle e reply =
     (let t = nlmsg_type reply in
      if isAppArmorRecord reply then audit_allow_apparmor_events e
      else if IsSELinuxRecord reply then audit_allow_selinux_events e
      else if t = AUDIT_SECCOMP then audit_allow_seccomp_events e
      else \<not> (t = NLMSG_NOOP \<or> t = NLMSG_DONE \<or> t = NLMSG_ERROR \<or> t = AUDIT_LIST_RULES \<or> t = AUDIT_GET \<or>
              AUDIT_GET + 1 \<le> t \<and> t \<le> AUDIT_LIST_RULES - 1 \<or> AUDIT_LIST_RULES + 1 \<le> t \<and> t \<le> AUDIT_FIRST_USER_MSG - 1 \<or>
              AUDIT_DAEMON_START \<le> t \<and> t \<le> AUDIT_DAEMON_CONFIG \<or> t = AUDIT_CONFIG_CHANGE))"

text \<open>The pointer to the text that \<open>AdjustAuditReply\<close> sets, null for other types of messages.\<close>

definition reply_message :: "audit_reply \<Rightarrow> string option" where
  "reply_message reply =
     (let t = nlmsg_type reply in
      if t = AUDIT_USER \<or> t = AUDIT_LOGIN \<or> t = AUDIT_KERNEL \<or> AUDIT_FIRST_USER_MSG \<le> t \<and> t \<le> AUDIT_LAST_USER_MSG \<or>
         AUDIT_FIRST_USER_MSG2 \<le> t \<and> t \<le> AUDIT_LAST_USER_MSG2 \<or> AUDIT_SYSCALL \<le> t \<and> t \<le> AUDIT_INTEGRITY_LAST_MSG
      then Some (nl_payload reply) else None)"

text \<open>\<open>emplace\<close>: an entry that is there already stays.\<close>

definition om_emplace :: "'k::linorder \<Rightarrow> 'v \<Rightarrow> ('k, 'v) omap \<Rightarrow> ('k, 'v) omap" where
  "om_emplace k v m = (if om_has m k then m else om_set k v m)"

text \<open>The loop over the characters of a message, with the key and value so far and the two flags.\<close>

fun tokenize :: "string \<Rightarrow> string \<Rightarrow> string \<Rightarrow> bool \<Rightarrow> bool \<Rightarrow> field_map \<Rightarrow> field_map" where
  "tokenize [] k v found_assignment found_enclose m = (if k \<noteq> [] then om_emplace k v m else m)"
| "tokenize (c # cs) k v found_assignment found_enclose m =
     (if found_enclose \<and> c = CHR 0x22 \<or> \<not> found_enclose \<and> c = CHR '' ''
      then let v1 = (if c = CHR 0x22 then v @ [c] else v)
           in tokenize cs [] [] False False (if k \<noteq> [] then om_emplace k v1 m else m)
      else if \<not> found_assignment \<and> c = CHR '' '' then tokenize cs k v found_assignment found_enclose m
      else if found_assignment then tokenize cs k (v @ [c]) True (found_enclose \<or> c = CHR 0x22) m
      else if c = CHR ''='' then tokenize cs k v True found_enclose m
      else tokenize cs (k @ [c]) v False found_enclose m)"

text \<open>\<open>boost::string_ref::substr\<close>. The function is \<open>noexcept\<close>: an exception ends the process.\<close>

definition view_substr :: "string \<Rightarrow> nat \<Rightarrow> nat \<Rightarrow> string throwing" where
  "view_substr s pos n = (if pos > length s then Inl (aborted ''std::out_of_range in a noexcept function'') else Inr (take n (drop pos s)))"

definition ParseAuditReply :: "audit_reply \<Rightarrow> (bool \<times> AuditEventRecord) throwing" where
  "ParseAuditReply reply =
     (let r0 = \<lparr>rec_type = nlmsg_type reply, rec_time = 0, audit_id = [], rec_fields = [], raw_data = []\<rparr>
      in case reply_message reply of None \<Rightarrow> Inl (undefined_behaviour ''null message'') | Some message_view \<Rightarrow>
         (case str_find ''): '' message_view of None \<Rightarrow> Inr (False, r0) | Some preamble_end \<Rightarrow>
          exn_bind (view_substr message_view 6 10) (\<lambda>stamp.
          exn_bind (view_substr message_view 6 (unat (of_nat preamble_end - 6 :: u64))) (\<lambda>i.
            let r1 = r0\<lparr>rec_time := (case object (tryTo_u64 (\<lambda>_. []) 10 stamp) of Inl t \<Rightarrow> t | Inr _ \<Rightarrow> 0), audit_id := i\<rparr>
            in if IsSELinuxRecord reply then Inr (True, r1\<lparr>raw_data := c_str message_view\<rparr>)
               else let r2 = (if isAppArmorRecord reply then r1\<lparr>raw_data := c_str message_view\<rparr> else r1)
                    in exn_bind (view_substr message_view (preamble_end + 3) (length message_view)) (\<lambda>field_view.
                         Inr (True, r2\<lparr>rec_fields := tokenize field_view [] [] False False []\<rparr>))))))"

section \<open>The queues between the threads\<close>

definition kUnprocessedRecordsThreshold :: u64 where "kUnprocessedRecordsThreshold = 4096"

text \<open>\<open>AuditdContext\<close>, with the local queue of the parser's turn; what throttling only counts for messages is left out.\<close>

record AuditdContext =
  unprocessed_records :: "audit_reply list"
  processed_events :: "AuditEventRecord list"
  acquire_handle :: bool
  unprocessed_records_amount :: u64
  processed_records_backlog :: u64
  parser_queue :: "audit_reply list"

definition AuditdContext_new :: AuditdContext where
  "AuditdContext_new = \<lparr>unprocessed_records = [], processed_events = [], acquire_handle = True, unprocessed_records_amount = 0,
     processed_records_backlog = 0, parser_queue = []\<rparr>"

text \<open>What a turn of the reader's loop meets: the outcome of \<open>poll\<close> and, if there is input, of \<open>recvfrom\<close>.\<close>

datatype received = Poll_timeout | Poll_failed bool | Poll_other | Recv_failed | Protocol_error | Invalid_endpoint | Broken_event | Received audit_reply

text \<open>
  The loop reads up to the room in the buffer and says whether the handle has to be reset; the end of the outcomes
  is an interruption. \<open>Poll_failed\<close> says whether the failure was an interrupted call.
\<close>

fun acquire_loop :: "nat \<Rightarrow> received list \<Rightarrow> audit_reply list \<times> bool" where
  "acquire_loop 0 rs = ([], False)"
| "acquire_loop (Suc room) [] = ([], False)"
| "acquire_loop (Suc room) (r # rs) =
     (case r of
        Poll_timeout \<Rightarrow> ([], False)
      | Poll_failed eintr \<Rightarrow> ([], \<not> eintr)
      | Poll_other \<Rightarrow> ([], False)
      | Received reply \<Rightarrow> (let (xs, reset) = acquire_loop room rs in (reply # xs, reset))
      | _ \<Rightarrow> ([], True))"

definition acquireMessages :: "received list \<Rightarrow> AuditdContext \<Rightarrow> bool \<times> AuditdContext" where
  "acquireMessages rs c =
     (let (xs, reset_handle) = acquire_loop 1024 rs
      in (\<not> reset_handle, c\<lparr>unprocessed_records := unprocessed_records c @ xs,
            unprocessed_records_amount := unprocessed_records_amount c + of_nat (length xs)\<rparr>))"

text \<open>The reader waits in its last loop while this holds, the parser in its own.\<close>

definition reader_throttled :: "AuditdContext \<Rightarrow> bool" where
  "reader_throttled c \<longleftrightarrow> unprocessed_records_amount c > kUnprocessedRecordsThreshold"

definition parser_throttled :: "AuditdContext \<Rightarrow> bool" where
  "parser_throttled c \<longleftrightarrow> processed_records_backlog c > kUnprocessedRecordsThreshold"

text \<open>A turn of the reader's thread once a handle is there.\<close>

definition reader_turn :: "received list \<Rightarrow> AuditdContext \<Rightarrow> AuditdContext" where
  "reader_turn rs c = (let (fine, c1) = acquireMessages rs c in if fine then c1 else c1\<lparr>acquire_handle := True\<rparr>)"

text \<open>The parser takes the whole queue, and parses it without the lock.\<close>

definition parser_take :: "AuditdContext \<Rightarrow> AuditdContext" where
  "parser_take c = c\<lparr>parser_queue := unprocessed_records c, unprocessed_records := []\<rparr>"

definition parse_reply :: "audit_env \<Rightarrow> audit_reply \<Rightarrow> AuditEventRecord list throwing" where
  "parse_reply e reply =
     (if nlmsg_type reply = AUDIT_GET \<or> \<not> ShouldHandle e reply then Inr []
      else exn_bind (ParseAuditReply reply) (\<lambda>(parsed, r). Inr (if parsed then [r] else [])))"

fun parse_replies :: "audit_env \<Rightarrow> audit_reply list \<Rightarrow> AuditEventRecord list throwing" where
  "parse_replies e [] = Inr []"
| "parse_replies e (reply # queue) =
     exn_bind (parse_reply e reply) (\<lambda>rs. exn_bind (parse_replies e queue) (\<lambda>rest. Inr (rs @ rest)))"

definition control_lost :: "audit_env \<Rightarrow> audit_reply \<Rightarrow> bool" where
  "control_lost e reply \<longleftrightarrow> nlmsg_type reply = AUDIT_GET \<and> status_pid reply \<noteq> audit_getpid e \<and> audit_persist e"

definition parser_finish :: "audit_env \<Rightarrow> AuditdContext \<Rightarrow> AuditdContext throwing" where
  "parser_finish e c =
     exn_bind (parse_replies e (parser_queue c)) (\<lambda>new.
       let c1 = (if list_ex (control_lost e) (parser_queue c) then c\<lparr>acquire_handle := True\<rparr> else c);
           c2 = (if new \<noteq> []
                 then c1\<lparr>processed_events := processed_events c1 @ new,
                         processed_records_backlog := of_nat (length (processed_events c1 @ new))\<rparr>
                 else c1)
       in Inr (c2\<lparr>unprocessed_records_amount := unprocessed_records_amount c2 - of_nat (length (parser_queue c)), parser_queue := []\<rparr>))"

definition getEvents :: "AuditdContext \<Rightarrow> AuditEventRecord list \<times> AuditdContext" where
  "getEvents c =
     (if processed_events c \<noteq> []
      then (processed_events c, c\<lparr>processed_events := [], processed_records_backlog := 0\<rparr>)
      else ([], c))"

section \<open>Assembling of events\<close>

definition IsPublisherEnabled :: "audit_env \<Rightarrow> bool" where
  "IsPublisherEnabled e \<longleftrightarrow>
     (if disable_audit e then False
      else audit_allow_fim_events e \<or> audit_allow_process_events e \<or> audit_allow_sockets e \<or> audit_allow_user_events e \<or>
           audit_allow_selinux_events e \<or> audit_allow_kill_process_events e \<or> audit_allow_apparmor_events e \<or> audit_allow_seccomp_events e)"

text \<open>The members of the data of AppArmor and seccomp events, with their initial values.\<close>

definition apparmor_fields :: "(string \<times> field_value) list" where
  "apparmor_fields =
     map (\<lambda>n. (n, Text [])) [''apparmor'', ''operation'', ''profile'', ''name'', ''comm'', ''denied_mask'', ''capname'',
       ''requested_mask'', ''info'', ''error'', ''namespace'', ''label''] @
     map (\<lambda>n. (n, Number 0)) [''parent'', ''pid'', ''capability'', ''fsuid'', ''ouid'']"

definition seccomp_fields :: "(string \<times> field_value) list" where
  "seccomp_fields =
     [(''auid'', Number 0), (''uid'', Number 0), (''gid'', Number 0), (''ses'', Number 0), (''pid'', Number 0), (''comm'', Text []),
      (''exe'', Text []), (''sig'', Number 0), (''arch'', Number 0), (''syscall'', Number 0), (''compat'', Number 0), (''ip'', Text []),
      (''code'', Number 0)]"

text \<open>The value of a text field and of a number: absent ones are empty and 0.\<close>

definition text_field :: "field_map \<Rightarrow> string \<Rightarrow> string" where
  "text_field fs name = (let (found, v) = GetStringFieldFromMap fs name [] in if found then v else [])"

definition number_field :: "field_map \<Rightarrow> string \<Rightarrow> nat \<Rightarrow> u64" where
  "number_field fs name base = (let (found, v) = GetIntegerFieldFromMap fs name base (- 1) in if found then v else 0)"

definition apparmor_data :: "field_map \<Rightarrow> (string \<times> field_value) list" where
  "apparmor_data fs =
     map (\<lambda>(name, x). (name, case x of Text _ \<Rightarrow> Text (StripQuotes (text_field fs name)) | Number _ \<Rightarrow> Number (number_field fs name 10)))
       apparmor_fields"

definition parseSeccompEvent :: "field_map \<Rightarrow> (string \<times> field_value) list" where
  "parseSeccompEvent fs =
     map (\<lambda>(name, x). (name, case x of Text _ \<Rightarrow> Text (text_field fs name)
                              | Number _ \<Rightarrow> Number (number_field fs name (if name = ''arch'' \<or> name = ''code'' then 16 else 10))))
       seccomp_fields"

text \<open>An integer field that has to be there.\<close>

definition need_field :: "field_map \<Rightarrow> string \<Rightarrow> u64 option" where
  "need_field fs name = (let (found, v) = GetIntegerFieldFromMap fs name 10 (- 1) in if found then Some v else None)"

definition to_int32 :: "u64 \<Rightarrow> int" where
  "to_int32 v = sint (ucast v :: u32)"

text \<open>
  The data of a system call record, or none if the record is passed over: a field is missing, the record is of osquery
  itself, or the call has failed and is not one of those that may. The data is copied into the event before the user
  and group identifiers are stored, so that the event holds indeterminate ones (\<open>None\<close>).
\<close>

definition syscall_data :: "audit_env \<Rightarrow> int list \<Rightarrow> field_map \<Rightarrow> SyscallAuditEventData option" where
  "syscall_data e allowed_to_fail fs = do {
     raw \<leftarrow> om_get fs ''exe'';
     let path = DecodeAuditPathValues e raw;
     _ \<leftarrow> (if executable_path e = path then None else Some ());
     nr \<leftarrow> need_field fs ''syscall'';
     let succeeded = (snd (GetStringFieldFromMap fs ''success'' ''yes'') = ''yes'');
     _ \<leftarrow> (if \<not> succeeded \<and> to_int32 nr \<notin> set allowed_to_fail then None else Some ());
     pid \<leftarrow> need_field fs ''pid'';
     ppid \<leftarrow> need_field fs ''ppid'';
     _ \<leftarrow> need_field fs ''uid'';
     _ \<leftarrow> need_field fs ''auid'';
     _ \<leftarrow> need_field fs ''euid'';
     _ \<leftarrow> need_field fs ''fsuid'';
     _ \<leftarrow> need_field fs ''suid'';
     _ \<leftarrow> need_field fs ''gid'';
     _ \<leftarrow> need_field fs ''egid'';
     _ \<leftarrow> need_field fs ''fsgid'';
     _ \<leftarrow> need_field fs ''sgid'';
     Some \<lparr>syscall_number = nr, sd_succeeded = succeeded, sd_process_id = to_int32 pid, sd_parent_process_id = to_int32 ppid,
       sd_uid = None, sd_auid = None, sd_euid = None, sd_fsuid = None, sd_suid = None, sd_gid = None, sd_egid = None,
       sd_fsgid = None, sd_sgid = None, sd_executable_path = path\<rparr>
   }"

definition user_event :: "AuditEventRecord \<Rightarrow> AuditEvent" where
  "user_event r = \<lparr>ae_type = UserEvent, ae_data = UserAuditEventData (word_of_int (rec_type r)), record_list = [r]\<rparr>"

text \<open>One record: an event of its own, the start of an event, its end, or one more record of it.\<close>

definition assemble_record ::
  "audit_env \<Rightarrow> int list \<Rightarrow> AuditEventRecord \<Rightarrow> AuditEvent list \<times> AuditTraceContext \<Rightarrow> AuditEvent list \<times> AuditTraceContext" where
  "assemble_record e allowed_to_fail r s =
     (let (events, trace) = s; fs = rec_fields r in
      if AUDIT_FIRST_USER_MSG \<le> rec_type r \<and> rec_type r \<le> AUDIT_LAST_USER_MSG then (events @ [user_event r], trace)
      else if rec_type r \<in> set kSELinuxEventList
      then if \<not> om_has fs ''apparmor''
           then (events @ [\<lparr>ae_type = SELinux, ae_data = UserAuditEventData 0, record_list = [r]\<rparr>], trace)
           else if map_of (apparmor_data fs) ''apparmor'' = Some (Text []) then (events, trace)
           else (events @ [\<lparr>ae_type = AppArmor, ae_data = AppArmorAuditEventData (apparmor_data fs), record_list = [r]\<rparr>], trace)
      else if rec_type r = AUDIT_SECCOMP
      then (events @ [\<lparr>ae_type = Seccomp, ae_data = SeccompAuditEventData (parseSeccompEvent fs), record_list = [r]\<rparr>], trace)
      else if rec_type r = AUDIT_SYSCALL
      then let trace1 = om_del (audit_id r) trace
           in case syscall_data e allowed_to_fail fs of
                None \<Rightarrow> (events, trace1)
              | Some d \<Rightarrow> (events, om_set (audit_id r) \<lparr>ae_type = Syscall, ae_data = SyscallData d, record_list = [r]\<rparr> trace1)
      else case om_get trace (audit_id r) of
             None \<Rightarrow> (events, trace)
           | Some ev \<Rightarrow> if rec_type r = AUDIT_EOE then (events @ [ev], om_del (audit_id r) trace)
                        else (events, om_set (audit_id r) (ev\<lparr>record_list := record_list ev @ [r]\<rparr>) trace))"

text \<open>The time in an identifier, 0 if there is none.\<close>

definition id_time :: "string \<Rightarrow> int" where
  "id_time i = (case longlong_value (take 10 i) of Some t \<Rightarrow> t | None \<Rightarrow> 0)"

definition drop_stale :: "int \<Rightarrow> AuditTraceContext \<Rightarrow> AuditTraceContext" where
  "drop_stale now trace = filter (\<lambda>(i, _). \<not> now - id_time i \<ge> 300) trace"

definition AuditEventPublisher_ProcessEvents ::
  "audit_env \<Rightarrow> int list \<Rightarrow> int \<Rightarrow> AuditEventRecord list \<Rightarrow> AuditTraceContext \<Rightarrow> AuditEvent list \<times> AuditTraceContext" where
  "AuditEventPublisher_ProcessEvents e allowed_to_fail now records trace =
     (let (events, trace1) = fold (assemble_record e allowed_to_fail) records ([], trace) in (events, drop_stale now trace1))"

text \<open>
  The publisher: whether there is a netlink object, the events being assembled, the calls that may fail. A run gives
  the events to fire, none if there are none.
\<close>

record AuditEventPublisher =
  ap_netlink :: bool
  audit_trace_context :: AuditTraceContext
  syscalls_allowed_to_fail :: "int list"

definition ap_setUp :: "audit_env \<Rightarrow> Status" where
  "ap_setUp e = (if \<not> IsPublisherEnabled e then Status_msg 1 ''Publisher disabled via configuration'' else success)"

definition ap_configure :: "audit_env \<Rightarrow> int list \<Rightarrow> AuditEventPublisher \<Rightarrow> AuditEventPublisher" where
  "ap_configure e socket_syscalls pub =
     (if \<not> IsPublisherEnabled e then pub else pub\<lparr>ap_netlink := True, syscalls_allowed_to_fail := socket_syscalls\<rparr>)"

definition ap_tearDown :: "audit_env \<Rightarrow> AuditEventPublisher \<Rightarrow> AuditEventPublisher" where
  "ap_tearDown e pub = (if \<not> IsPublisherEnabled e then pub else pub\<lparr>ap_netlink := False\<rparr>)"

definition ap_run ::
  "audit_env \<Rightarrow> int \<Rightarrow> AuditEventPublisher \<Rightarrow> AuditdContext \<Rightarrow> (Status \<times> AuditEvent list option \<times> AuditEventPublisher \<times> AuditdContext) throwing" where
  "ap_run e now pub c =
     (if \<not> IsPublisherEnabled e then Inr (Status_msg 1 ''Publisher disabled via configuration'', None, pub, c)
      else if \<not> ap_netlink pub then Inl (undefined_behaviour ''null netlink'')
      else let (records, c1) = getEvents c;
               (events, trace) = AuditEventPublisher_ProcessEvents e (syscalls_allowed_to_fail pub) now records (audit_trace_context pub)
           in Inr (success, if events \<noteq> [] then Some events else None, pub\<lparr>audit_trace_context := trace\<rparr>, c1))"

end
