(* ===== verification/AuditTables.thy ===== *)
theory AuditTables
  imports AuditRecords Events
begin

text \<open>
  The tables over audit events: \<open>tables/events/linux/process_events\<close> with the ancestry of processes, \<open>socket_events\<close>,
  \<open>user_events\<close>, \<open>selinux_events\<close> and \<open>apparmor_events\<close>. System calls have their numbers on x86-64.
\<close>

section \<open>System calls\<close>

definition NR_connect :: int where "NR_connect = 42"
definition NR_accept :: int where "NR_accept = 43"
definition NR_bind :: int where "NR_bind = 49"
definition NR_clone :: int where "NR_clone = 56"
definition NR_fork :: int where "NR_fork = 57"
definition NR_vfork :: int where "NR_vfork = 58"
definition NR_execve :: int where "NR_execve = 59"
definition NR_kill :: int where "NR_kill = 62"
definition NR_tkill :: int where "NR_tkill = 200"
definition NR_tgkill :: int where "NR_tgkill = 234"
definition NR_accept4 :: int where "NR_accept4 = 288"
definition NR_execveat :: int where "NR_execveat = 322"
definition CLONE_PARENT :: u64 where "CLONE_PARENT = 0x8000"
definition CLONE_THREAD :: u64 where "CLONE_THREAD = 0x10000"

lemmas syscall_numbers = NR_connect_def NR_accept_def NR_bind_def NR_clone_def NR_fork_def NR_vfork_def NR_execve_def NR_kill_def
  NR_tkill_def NR_tgkill_def NR_accept4_def NR_execveat_def

definition kSyscallNameMap :: "(int \<times> string) list" where
  "kSyscallNameMap = [(NR_execve, ''execve''), (NR_execveat, ''execveat''), (NR_clone, ''clone''), (NR_kill, ''kill''), (NR_tkill, ''tkill''),
     (NR_tgkill, ''tgkill''), (NR_fork, ''fork''), (NR_vfork, ''vfork'')]"

definition kExecProcessEventsSyscalls :: "int list" where "kExecProcessEventsSyscalls = [NR_execve, NR_execveat]"
definition kKillProcessEventsSyscalls :: "int list" where "kKillProcessEventsSyscalls = [NR_kill, NR_tkill, NR_tgkill]"
definition kForkProcessEventsSyscalls :: "int list" where "kForkProcessEventsSyscalls = [NR_clone, NR_fork, NR_vfork]"

section \<open>Ancestry of processes\<close>

text \<open>
  What the table reads: \<open>pe_read n path\<close> is the content that the \<open>n\<close>th call of \<open>readFile\<close> gives, none on failure, so
  that processes may come and go between two reads; \<open>pe_stat\<close> gives mode and times of a file as texts.
\<close>

record proc_env =
  pe_audit :: audit_env
  pe_boost :: boost_lib
  pe_rj :: rapidjson
  pe_uptime :: int
  pe_read :: "nat \<Rightarrow> string \<Rightarrow> string option"
  pe_stat :: "string \<Rightarrow> (string \<times> string \<times> string \<times> string) option"
  process_events_enable_ancestry :: bool
  process_events_max_ancestry_depth :: u32

record ProcessInfo =
  pi_pid :: int
  pi_ppid :: int
  pi_path :: string
  pi_cmdline :: string

type_synonym ProcessInfoCache = "(int, ProcessInfo) omap"

definition getProcAttr :: "string \<Rightarrow> int \<Rightarrow> string" where
  "getProcAttr attr pid = ''/proc/'' @ to_string_int pid @ ''/'' @ attr"

text \<open>\<open>find_last_not_of\<close> and \<open>substr\<close>: blanks at the end go, unless there is nothing else.\<close>

definition cmdline_blank :: "char \<Rightarrow> bool" where
  "cmdline_blank c \<longleftrightarrow> c = CHR '' '' \<or> c = CHR 0x09 \<or> c = CHR 0x0A \<or> c = CHR 0x0D"

definition readProcCmdline :: "proc_env \<Rightarrow> int \<Rightarrow> nat \<Rightarrow> string \<times> nat" where
  "readProcCmdline e pid n =
     (case pe_read e n (getProcAttr ''cmdline'' pid) of
        None \<Rightarrow> ([], n + 1)
      | Some content \<Rightarrow>
          let c1 = map (\<lambda>c. if c = CHR 0x00 then CHR '' '' else c) content
          in (if list_all cmdline_blank c1 then c1 else rev (dropWhile cmdline_blank (rev c1)), n + 1))"

definition readProcExePath :: "proc_env \<Rightarrow> int \<Rightarrow> nat \<Rightarrow> string \<times> nat" where
  "readProcExePath e pid n = (case pe_read e n (getProcAttr ''exe'' pid) of None \<Rightarrow> ([], n + 1) | Some path \<Rightarrow> (path, n + 1))"

definition readProcParentPid :: "proc_env \<Rightarrow> int \<Rightarrow> nat \<Rightarrow> int \<times> nat" where
  "readProcParentPid e pid n =
     (case pe_read e n (getProcAttr ''stat'' pid) of
        None \<Rightarrow> (0, n + 1)
      | Some content \<Rightarrow>
          let fs = osq_split (pe_boost e) content '' ''
          in if length fs < 4 then (0, n + 1)
             else (case stoll 10 (fs ! 3) of Inr v \<Rightarrow> sint (word_of_int v :: u32) | Inl _ \<Rightarrow> 0, n + 1))"

definition getProcessInfo :: "proc_env \<Rightarrow> int \<Rightarrow> ProcessInfoCache \<Rightarrow> nat \<Rightarrow> bool \<times> ProcessInfo \<times> ProcessInfoCache \<times> nat" where
  "getProcessInfo e pid cache n =
     (case om_get cache pid of
        Some info \<Rightarrow> (True, info, cache, n)
      | None \<Rightarrow>
          let (ppid, n1) = readProcParentPid e pid n; (path, n2) = readProcExePath e pid n1; (cmdline, n3) = readProcCmdline e pid n2;
              info = \<lparr>pi_pid = pid, pi_ppid = ppid, pi_path = path, pi_cmdline = cmdline\<rparr>
          in if ppid > 0 then (True, info, om_set pid info cache, n3) else (False, info, cache, n3))"

text \<open>The object for the parent of a process at a depth.\<close>

definition ancestor_object :: "proc_env \<Rightarrow> int \<Rightarrow> nat \<Rightarrow> nat \<Rightarrow> json \<times> nat" where
  "ancestor_object e ppid depth n =
     (let rj = pe_rj e; (grandparent_pid, n1) = readProcParentPid e ppid n; (path, n2) = readProcExePath e ppid n1;
          (cmdline, n3) = readProcCmdline e ppid n2
      in (JObject (json_addCopy rj ''depth'' (to_string_nat (depth + 1))
            (json_addCopy rj ''cmdline'' cmdline
            (json_addCopy rj ''path'' path
            (json_addCopy rj ''ppid'' (to_string_int grandparent_pid)
            (json_addCopy rj ''pid'' (to_string_int ppid) []))))), n3))"

text \<open>
  The walk up the tree with \<open>left\<close> turns to go: the ancestors found, the process it ends at and the depth. The
  depth is below the flag's 32 bits, so it does not wrap.
\<close>

fun ancestry_loop :: "proc_env \<Rightarrow> nat \<Rightarrow> int \<Rightarrow> int list \<Rightarrow> nat \<Rightarrow> ProcessInfoCache \<Rightarrow> nat \<Rightarrow> json list \<Rightarrow> json list \<times> int \<times> nat \<times> nat" where
  "ancestry_loop e 0 current_pid visited depth cache n ancestors = (ancestors, current_pid, depth, n)"
| "ancestry_loop e (Suc left) current_pid visited depth cache n ancestors =
     (if \<not> current_pid > 1 then (ancestors, current_pid, depth, n)
      else if current_pid \<in> set visited then (ancestors, current_pid, depth, n)
      else let (found, info, cache1, n1) = getProcessInfo e current_pid cache n
           in if \<not> found then (ancestors, current_pid, depth, n1)
              else if pi_ppid info = current_pid then (ancestors, current_pid, depth, n1)
              else let (ancestors1, n2) = (if pi_ppid info > 0
                                            then let (obj, n2) = ancestor_object e (pi_ppid info) depth n1 in (json_push obj ancestors, n2)
                                            else (ancestors, n1))
                   in ancestry_loop e left (pi_ppid info) (current_pid # visited) (depth + 1) cache1 n2 ancestors1)"

definition ancestry_json :: "proc_env \<Rightarrow> int \<Rightarrow> nat \<Rightarrow> json \<times> nat" where
  "ancestry_json e pid n =
     (let max_depth = unat (process_events_max_ancestry_depth e);
          (ancestors, current_pid, depth, n1) = ancestry_loop e max_depth pid [] 0 [] n [];
          truncated = (depth \<ge> max_depth \<and> current_pid > 1);
          rj = pe_rj e
      in (JObject (json_add_bool rj ''truncated'' truncated
           (json_add_ulong rj ''depth'' (of_nat depth)
           (json_add rj ''ancestors'' (JArray ancestors) []))), n1))"

definition BuildProcessAncestry :: "proc_env \<Rightarrow> int \<Rightarrow> nat \<Rightarrow> string \<times> nat" where
  "BuildProcessAncestry e pid n =
     (if \<not> process_events_enable_ancestry e then (''{}'', n)
      else let (j, n1) = ancestry_json e pid n; (status, result) = json_toString (pe_rj e) j
           in (if \<not> ok status then ''{}'' else result, n1))"

section \<open>process\_events\<close>

definition GetSyscallName :: "int \<Rightarrow> string option" where
  "GetSyscallName syscall_nr = map_of kSyscallNameMap syscall_nr"

text \<open>The output arguments of the getters: the default is the largest number.\<close>

definition int_out :: "field_map \<Rightarrow> string \<Rightarrow> nat \<Rightarrow> u64" where
  "int_out fs name base = snd (GetIntegerFieldFromMap fs name base (- 1))"

definition GetProcessIDs :: "int \<Rightarrow> AuditEventRecord \<Rightarrow> Status \<times> u64 \<times> u64" where
  "GetProcessIDs syscall_nr r =
     (let fs = rec_fields r in
      if rec_type r \<noteq> AUDIT_SYSCALL then (failure ''Invalid record type'', 0, 0)
      else if syscall_nr = NR_fork \<or> syscall_nr = NR_vfork then (success, int_out fs ''pid'' 10, int_out fs ''exit'' 10)
      else if syscall_nr = NR_clone
      then (success, if and (int_out fs ''a0'' 16) CLONE_PARENT \<noteq> 0 then int_out fs ''ppid'' 10 else int_out fs ''pid'' 10, int_out fs ''exit'' 10)
      else (success, int_out fs ''ppid'' 10, int_out fs ''pid'' 10))"

definition IsThreadClone :: "int \<Rightarrow> AuditEventRecord \<Rightarrow> Status \<times> bool" where
  "IsThreadClone syscall_nr r =
     (if rec_type r \<noteq> AUDIT_SYSCALL then (failure ''Invalid record type'', False)
      else if syscall_nr \<noteq> NR_clone then (success, False)
      else (success, and (int_out (rec_fields r) ''a0'' 16) CLONE_THREAD \<noteq> 0))"

definition copy_fields :: "field_map \<Rightarrow> (string \<times> string) list \<Rightarrow> Row \<Rightarrow> Row" where
  "copy_fields fs names row = fold (\<lambda>(name, d) row. CopyFieldFromMap row fs name d) names row"

text \<open>The arguments of the call, in the order of the map of fields.\<close>

definition execve_cmdline :: "audit_env \<Rightarrow> field_map \<Rightarrow> string" where
  "execve_cmdline e fs =
     fold (\<lambda>(name, v) cmdline. if name = ''argc'' then cmdline
             else (if cmdline \<noteq> [] then cmdline @ '' '' else cmdline) @ DecodeAuditPathValues e v) fs []"

definition ProcessExecveEventData :: "audit_env \<Rightarrow> AuditEvent \<Rightarrow> Row \<Rightarrow> Status \<times> Row" where
  "ProcessExecveEventData e event row =
     (case GetEventRecord event AUDIT_CWD of None \<Rightarrow> (failure ''Malformed AUDIT_CWD event'', row) | Some cwd \<Rightarrow>
      let row1 = CopyFieldFromMap row (rec_fields cwd) ''cwd'' [] in
      (case GetEventRecord event AUDIT_EXECVE of None \<Rightarrow> (failure ''Malformed AUDIT_EXECVE event'', row1) | Some ex \<Rightarrow>
      let cmdline = execve_cmdline e (rec_fields ex);
          row2 = om_set ''cmdline_size'' (to_string_nat (length cmdline)) (om_set ''cmdline'' cmdline row1) in
      (case GetEventRecord event AUDIT_PATH of None \<Rightarrow> (failure ''Malformed AUDIT_PATH event'', row2) | Some path \<Rightarrow>
      let fs = rec_fields path; row3 = CopyFieldFromMap row2 fs ''mode'' [];
          row4 = om_set ''owner_uid'' (snd (GetStringFieldFromMap fs ''ouid'' ''0'')) row3
      in (success, om_set ''owner_gid'' (snd (GetStringFieldFromMap fs ''ogid'' ''0'')) row4))))"

definition kill_fields :: "AuditEvent \<Rightarrow> AuditEventRecord \<Rightarrow> Row \<Rightarrow> Row" where
  "kill_fields event r row =
     (let obj = (case GetEventRecord event AUDIT_OBJ_PID of None \<Rightarrow> [] | Some o_rec \<Rightarrow> rec_fields o_rec)
      in copy_fields obj [(''ocomm'', []), (''oses'', ''-1''), (''oauid'', ''-1'')]
           (copy_fields (rec_fields r) [(''tty'', []), (''ses'', ''-1''), (''comm'', [])] row))"

definition kBasicColumns :: "string list" where
  "kBasicColumns = [''auid'', ''uid'', ''euid'', ''fsuid'', ''suid'', ''gid'', ''egid'', ''fsgid'', ''sgid'']"

text \<open>The columns that every row has, up to the path.\<close>

definition basic_row :: "proc_env \<Rightarrow> u64 \<Rightarrow> field_map \<Rightarrow> Row" where
  "basic_row e nr fs =
     om_set ''path'' (DecodeAuditPathValues (pe_audit e) (snd (GetStringFieldFromMap fs ''exe'' [])))
       (om_set ''syscall'' (case GetSyscallName (to_int32 nr) of Some name \<Rightarrow> name | None \<Rightarrow> to_string_u64 nr)
       (copy_fields fs (map (\<lambda>n. (n, ''0'')) kBasicColumns)
       (om_set ''uptime'' (to_string_int (pe_uptime e)) [])))"

definition id_columns :: "u64 \<Rightarrow> u64 \<Rightarrow> string \<Rightarrow> Row \<Rightarrow> Row" where
  "id_columns parent pid ancestry row =
     om_set ''env_count'' ''0'' (om_set ''env_size'' ''0'' (om_set ''env'' [] (om_set ''overflows'' []
       (om_set ''ancestry'' ancestry (om_set ''pid'' (to_string_u64 pid) (om_set ''parent'' (to_string_u64 parent) row))))))"

text \<open>The row of one event, if it has one, and the number of reads so far.\<close>

definition process_event :: "proc_env \<Rightarrow> AuditEvent \<Rightarrow> nat \<Rightarrow> Row option \<times> nat" where
  "process_event e event n =
     (case ae_data event of SyscallData d \<Rightarrow>
        let nr = to_int32 (syscall_number d);
            is_exec = (nr \<in> set kExecProcessEventsSyscalls);
            is_kill = (nr \<notin> set kExecProcessEventsSyscalls \<and> nr \<notin> set kForkProcessEventsSyscalls \<and> nr \<in> set kKillProcessEventsSyscalls)
        in if ae_type event \<noteq> Syscall \<or> \<not> sd_succeeded d then (None, n)
           else if \<not> is_exec \<and> nr \<notin> set kForkProcessEventsSyscalls \<and> \<not> is_kill then (None, n)
           else (case GetEventRecord event AUDIT_SYSCALL of None \<Rightarrow> (None, n) | Some r \<Rightarrow>
             let (status, is_thread) = IsThreadClone nr r in
             if \<not> ok status \<or> is_thread then (None, n)
             else let row = basic_row e (syscall_number d) (rec_fields r); (s, parent, pid) = GetProcessIDs nr r in
               if \<not> ok s then (None, n)
               else let (ancestry, n1) = BuildProcessAncestry e (to_int32 pid) n; row1 = id_columns parent pid ancestry row in
                 if is_exec
                 then let (status, row2) = ProcessExecveEventData (pe_audit e) event row1 in (if \<not> ok status then None else Some row2, n1)
                 else if is_kill then (Some (kill_fields event r row1), n1)
                 else (Some (om_set ''owner_gid'' ''0'' (om_set ''owner_uid'' ''0'' row1)), n1))
      | _ \<Rightarrow> (None, n))"

fun AuditProcessEvents :: "proc_env \<Rightarrow> AuditEvent list \<Rightarrow> nat \<Rightarrow> Row list \<times> nat" where
  "AuditProcessEvents e [] n = ([], n)"
| "AuditProcessEvents e (event # events) n =
     (let (row, n1) = process_event e event n; (rows, n2) = AuditProcessEvents e events n1
      in ((case row of None \<Rightarrow> [] | Some r \<Rightarrow> [r]) @ rows, n2))"

text \<open>Mode and times of the file: the mode of the record stays if there is one.\<close>

definition stat_columns :: "proc_env \<Rightarrow> Row \<Rightarrow> Row throwing" where
  "stat_columns e row =
     exn_bind (row_at row ''path'') (\<lambda>path.
       Inr (case pe_stat e (c_str path) of
              Some (mode, atime, mtime, ctime) \<Rightarrow>
                let row1 = (case om_get row ''mode'' of Some m \<Rightarrow> if m = [] then om_set ''mode'' mode row else row | None \<Rightarrow> om_set ''mode'' mode row)
                in om_set ''ctime'' ctime (om_set ''mtime'' mtime (om_set ''atime'' atime (om_set ''btime'' ''0'' row1)))
            | None \<Rightarrow> om_set ''mtime'' ''0'' (om_set ''atime'' ''0'' (om_set ''ctime'' ''0'' row))))"

fun stat_rows :: "proc_env \<Rightarrow> Row list \<Rightarrow> Row list throwing" where
  "stat_rows e [] = Inr []"
| "stat_rows e (row # rows) = exn_bind (stat_columns e row) (\<lambda>r. exn_bind (stat_rows e rows) (\<lambda>rs. Inr (r # rs)))"

definition process_events_init :: "audit_env \<Rightarrow> Status" where
  "process_events_init e = (if \<not> audit_allow_process_events e then Status_msg 1 ''Subscriber disabled via configuration'' else success)"

definition process_events_Callback ::
  "'d event_env \<Rightarrow> u64 \<Rightarrow> proc_env \<Rightarrow> AuditEvent list \<Rightarrow> nat \<Rightarrow> 'd event_world \<Rightarrow> (Status \<times> nat \<times> 'd event_world) throwing" where
  "process_events_Callback ev now e events n w =
     (let (rows, n1) = AuditProcessEvents e events n
      in exn_bind (stat_rows e rows) (\<lambda>rows1. exn_bind (addBatch_now ev now rows1 w) (\<lambda>(_, _, w1). Inr (success, n1, w1))))"

section \<open>user\_events, selinux\_events, apparmor\_events\<close>

definition user_row :: "proc_env \<Rightarrow> AuditEventRecord \<Rightarrow> Row" where
  "user_row e r =
     (let fs = rec_fields r;
          row = copy_fields fs [(''uid'', []), (''pid'', []), (''auid'', []), (''terminal'', [])]
                  (om_set ''type'' (to_string_int (rec_type r)) (om_set ''uptime'' (to_string_int (pe_uptime e)) []));
          row1 = om_set ''path'' (DecodeAuditPathValues (pe_audit e) (snd (GetStringFieldFromMap fs ''exe'' [])))
                   (om_set ''address'' (snd (GetStringFieldFromMap fs ''addr'' [])) row);
          message = snd (GetStringFieldFromMap fs ''msg'' [])
      in if length message > 1 then om_set ''message'' (tl message) row1 else row1)"

definition UserEvents :: "proc_env \<Rightarrow> AuditEvent list \<Rightarrow> Row list" where
  "UserEvents e events = concat (map (\<lambda>event. if ae_type event \<noteq> UserEvent then [] else map (user_row e) (record_list event)) events)"

definition kSELinuxRecordLabels :: "(int \<times> string) list" where
  "kSELinuxRecordLabels =
     (AUDIT_USER_AVC, ''USER_AVC'') # zip (map (\<lambda>n. AUDIT_AVC + int n) [0..<18])
       [''AVC'', ''SELINUX_ERR'', ''AVC_PATH'', ''MAC_POLICY_LOAD'', ''MAC_STATUS'', ''MAC_CONFIG_CHANGE'', ''MAC_UNLBL_ALLOW'',
        ''MAC_CIPSOV4_ADD'', ''MAC_CIPSOV4_DEL'', ''MAC_MAP_ADD'', ''MAC_MAP_DEL'', ''MAC_IPSEC_ADDSA'', ''MAC_IPSEC_DELSA'',
        ''MAC_IPSEC_ADDSPD'', ''MAC_IPSEC_DELSPD'', ''MAC_IPSEC_EVENT'', ''MAC_UNLBL_STCADD'', ''MAC_UNLBL_STCDEL'']"

definition kAppArmorRecordLabels :: "(int \<times> string) list" where
  "kAppArmorRecordLabels = [(AUDIT_AVC, ''AA'')]"

definition record_label :: "(int \<times> string) list \<Rightarrow> int \<Rightarrow> string" where
  "record_label labels t = (case map_of labels t of None \<Rightarrow> to_string_int t | Some name \<Rightarrow> name)"

definition label_row :: "proc_env \<Rightarrow> (int \<times> string) list \<Rightarrow> AuditEventRecord \<Rightarrow> Row" where
  "label_row e labels r =
     om_set ''uptime'' (to_string_int (pe_uptime e)) (om_set ''message'' (raw_data r) (om_set ''type'' (record_label labels (rec_type r)) []))"

definition SELinuxEvents :: "proc_env \<Rightarrow> AuditEvent list \<Rightarrow> Row list" where
  "SELinuxEvents e events =
     concat (map (\<lambda>event. if ae_type event \<noteq> SELinux then [] else map (label_row e kSELinuxRecordLabels) (record_list event)) events)"

definition apparmor_row :: "proc_env \<Rightarrow> AuditEvent \<Rightarrow> Row list" where
  "apparmor_row e event =
     (if ae_type event \<noteq> AppArmor then []
      else case (record_list event, ae_data event) of
             ([r], AppArmorAuditEventData fs) \<Rightarrow>
               [fold (\<lambda>(name, x). om_set name (case x of Text s \<Rightarrow> s | Number v \<Rightarrow> to_string_u64 v)) fs (label_row e kAppArmorRecordLabels r)]
           | _ \<Rightarrow> [])"

definition AppArmorEvents :: "proc_env \<Rightarrow> AuditEvent list \<Rightarrow> Row list" where
  "AppArmorEvents e events = concat (map (apparmor_row e) events)"

section \<open>socket\_events\<close>

definition AUDIT_SOCKADDR :: int where "AUDIT_SOCKADDR = 1306"
definition EAGAIN :: int where "EAGAIN = 11"
definition EINPROGRESS :: int where "EINPROGRESS = 115"

definition getSocketEventsSyscalls :: "bool \<Rightarrow> int list" where
  "getSocketEventsSyscalls audit_allow_accept_socket_events =
     (if audit_allow_accept_socket_events then [NR_bind, NR_connect] @ [NR_accept, NR_accept4] else [NR_bind, NR_connect])"

text \<open>\<open>std::string::substr\<close> in a function that may not throw.\<close>

definition hex_number :: "string \<Rightarrow> int" where
  "hex_number s = (case stoll 16 s of Inr v \<Rightarrow> v | Inl _ \<Rightarrow> 0)"

definition ip4FromSaddr :: "string \<Rightarrow> nat \<Rightarrow> string throwing" where
  "ip4FromSaddr saddr offset =
     exn_bind (view_substr saddr offset 8) (\<lambda>s.
       let result = (word_of_int (hex_number s) :: u64);
           octet = (\<lambda>k. to_string_u64 (and (drop_bit k result) 0xff))
       in Inr (octet 24 @ ''.'' @ octet 16 @ ''.'' @ octet 8 @ ''.'' @ octet 0))"

fun ip6_groups :: "string \<Rightarrow> nat list \<Rightarrow> string throwing" where
  "ip6_groups saddr [] = Inr []"
| "ip6_groups saddr (i # is) =
     exn_bind (view_substr saddr (16 + i * 4) 4) (\<lambda>s.
     exn_bind (ip6_groups saddr is) (\<lambda>rest. Inr (s @ (if i = 0 \<or> i mod 7 \<noteq> 0 then '':'' else []) @ rest)))"

text \<open>The path of a local socket: from the fourth or sixth digit up to the first two zeros after it.\<close>

definition unix_path :: "audit_env \<Rightarrow> string \<Rightarrow> string throwing" where
  "unix_path e saddr =
     (let begin_at = (if saddr ! 4 = CHR ''0'' \<and> saddr ! 5 = CHR ''0'' then 6 else 4 :: nat);
          end_at = (case str_find ''00'' (drop begin_at saddr) of None \<Rightarrow> length saddr | Some p \<Rightarrow> p + 4)
      in exn_bind (view_substr saddr begin_at (unat (of_nat end_at - of_nat begin_at :: u64))) (\<lambda>s.
           Inr (case unhex e s of Some path \<Rightarrow> path | None \<Rightarrow> ''unknown'')))"

text \<open>Whether the address is known, the row, and whether the socket is a local one. The address has four digits at least.\<close>

definition parseSockAddr :: "audit_env \<Rightarrow> string \<Rightarrow> Row \<Rightarrow> (bool \<times> Row \<times> bool) throwing" where
  "parseSockAddr e saddr row =
     (let bind = (om_get row ''action'' = Some ''bind'');
          address_column = (if bind then ''local_address'' else ''remote_address'');
          port_column = (if bind then ''local_port'' else ''remote_port'')
      in if saddr ! 0 = CHR ''0'' \<and> saddr ! 1 = CHR ''2''
         then exn_bind (view_substr saddr 4 4) (\<lambda>p. exn_bind (ip4FromSaddr saddr 8) (\<lambda>a.
                Inr (True, om_set address_column a (om_set port_column (to_string_int (hex_number p)) (om_set ''family'' ''2'' row)), False)))
         else if saddr ! 0 = CHR ''0'' \<and> saddr ! 1 = CHR ''A''
         then exn_bind (view_substr saddr 4 4) (\<lambda>p. exn_bind (ip6_groups saddr [0..<8]) (\<lambda>a.
                Inr (True, om_set address_column (map tolower a) (om_set port_column (to_string_int (hex_number p)) (om_set ''family'' ''10'' row)), False)))
         else if saddr ! 0 = CHR ''0'' \<and> saddr ! 1 = CHR ''1'' \<and> length saddr > 6
         then exn_bind (unix_path e saddr) (\<lambda>path. Inr (True, om_set ''socket'' path (om_set ''family'' ''1'' row), True))
         else Inr (False, row, False))"

record socket_flags =
  allow_failed_socket_events :: bool
  allow_unix_socket_events :: bool
  allow_accept_events :: bool
  allow_null_accept_events :: bool

datatype SyscallStatus = Failed | Succeeded | InProgress | NoClient

definition socket_action :: "socket_flags \<Rightarrow> u64 \<Rightarrow> string option" where
  "socket_action f nr =
     (if nr = word_of_int NR_bind then Some ''bind''
      else if nr = word_of_int NR_connect then Some ''connect''
      else if (nr = word_of_int NR_accept \<or> nr = word_of_int NR_accept4) \<and> allow_accept_events f then Some ''accept''
      else None)"

text \<open>The status of a call, none if the record is malformed.\<close>

definition socket_status :: "socket_flags \<Rightarrow> SyscallAuditEventData \<Rightarrow> field_map \<Rightarrow> SyscallStatus option" where
  "socket_status f d fs =
     (let nr = syscall_number d; accepts = (nr = word_of_int NR_accept \<or> nr = word_of_int NR_accept4) in
      if sd_succeeded d then Some Succeeded
      else if nr = word_of_int NR_connect \<or> accepts
      then (case need_field fs ''exit'' of None \<Rightarrow> None | Some v \<Rightarrow>
              let exit_code = to_int32 v
              in Some (if nr = word_of_int NR_connect then (if exit_code = - EINPROGRESS then InProgress else Failed)
                       else if exit_code = - EAGAIN \<and> allow_null_accept_events f then NoClient else Failed))
      else Some Failed)"

definition status_row :: "SyscallStatus \<Rightarrow> Row \<Rightarrow> Row" where
  "status_row st row =
     om_set ''success'' (if st = Failed then ''0'' else ''1'')
       (om_set ''status'' (case st of Failed \<Rightarrow> ''failed'' | Succeeded \<Rightarrow> ''succeeded'' | InProgress \<Rightarrow> ''in_progress'' | NoClient \<Rightarrow> ''no_client'') row)"

text \<open>\<open>at\<close> on the fields in a function that may not throw.\<close>

definition fields_at :: "field_map \<Rightarrow> string \<Rightarrow> string throwing" where
  "fields_at fs name = (case om_get fs name of None \<Rightarrow> Inl (aborted ''std::out_of_range in a noexcept function'') | Some v \<Rightarrow> Inr v)"

definition socket_columns :: "proc_env \<Rightarrow> field_map \<Rightarrow> Row \<Rightarrow> Row throwing" where
  "socket_columns e fs row =
     exn_bind (fields_at fs ''exe'') (\<lambda>exe. exn_bind (fields_at fs ''a0'') (\<lambda>a0.
       Inr (om_set ''remote_port'' ''0'' (om_set ''local_port'' ''0'' (om_set ''protocol'' ''0''
         (om_set ''uptime'' (to_string_int (pe_uptime e)) (om_set ''fd'' a0 (om_set ''path'' (DecodeAuditPathValues (pe_audit e) exe)
         (copy_fields fs [(''auid'', []), (''pid'', [])] row)))))))))"

definition socket_event :: "proc_env \<Rightarrow> socket_flags \<Rightarrow> AuditEvent \<Rightarrow> Row option throwing" where
  "socket_event e f event =
     (case ae_data event of SyscallData d \<Rightarrow>
        if ae_type event \<noteq> Syscall then Inr None
        else (case socket_action f (syscall_number d) of None \<Rightarrow> Inr None | Some action \<Rightarrow>
             (case GetEventRecord event AUDIT_SYSCALL of None \<Rightarrow> Inr None | Some r \<Rightarrow>
             (case socket_status f d (rec_fields r) of None \<Rightarrow> Inr None | Some st \<Rightarrow>
              if st = Failed \<and> \<not> allow_failed_socket_events f \<or> st = NoClient \<and> \<not> allow_null_accept_events f then Inr None
              else (case GetEventRecord event AUDIT_SOCKADDR of None \<Rightarrow> Inr None | Some a \<Rightarrow>
                let saddr = snd (GetStringFieldFromMap (rec_fields a) ''saddr'' [])
                in if length saddr < 4 \<or> saddr ! 0 = CHR ''1'' \<and> saddr ! 1 = CHR ''0'' then Inr None
                   else exn_bind (socket_columns e (rec_fields r) (status_row st (om_set ''action'' action []))) (\<lambda>row.
                        exn_bind (parseSockAddr (pe_audit e) saddr row) (\<lambda>(known, row1, unix_socket).
                          Inr (if \<not> known \<or> unix_socket \<and> \<not> allow_unix_socket_events f then None else Some row1)))))))
      | _ \<Rightarrow> Inr None)"

fun SocketEvents :: "proc_env \<Rightarrow> socket_flags \<Rightarrow> AuditEvent list \<Rightarrow> Row list throwing" where
  "SocketEvents e f [] = Inr []"
| "SocketEvents e f (event # events) =
     exn_bind (socket_event e f event) (\<lambda>row. exn_bind (SocketEvents e f events) (\<lambda>rows.
       Inr (case row of None \<Rightarrow> rows | Some r \<Rightarrow> r # rows)))"

end
