(* ===== verification/AuditSafety.thy ===== *)
theory AuditSafety
  imports AuditTables
begin

text \<open>
  Properties of the audit publisher: records of many events that arrive interleaved and in several batches are
  assembled into exactly the events the kernel has sent, the threads hand on every record once and in order
  within bounded queues, and messages are parsed back to their fields.
\<close>

section \<open>Machines with one state per key\<close>

text \<open>
  A step on a map of states that reads and writes only the state under the key of its input, and puts out only things
  with that key: what is put out for a key depends on the inputs with that key alone.
\<close>

fun one_run :: "('r \<Rightarrow> 's option \<Rightarrow> 'o list \<times> 's option) \<Rightarrow> 'r list \<Rightarrow> 's option \<Rightarrow> 'o list \<times> 's option" where
  "one_run one [] s = ([], s)"
| "one_run one (r # rs) s = (let (os, s1) = one r s; (os', s2) = one_run one rs s1 in (os @ os', s2))"

lemma one_run_append:
  "one_run one (xs @ ys) s =
     (fst (one_run one xs s) @ fst (one_run one ys (snd (one_run one xs s))), snd (one_run one ys (snd (one_run one xs s))))"
  by (induction xs arbitrary: s) (auto simp: case_prod_unfold Let_def)

definition all_pending :: "('m \<Rightarrow> 'k \<Rightarrow> 's option) \<Rightarrow> ('m \<Rightarrow> bool) \<Rightarrow> ('k \<Rightarrow> 's \<Rightarrow> bool) \<Rightarrow> 'm \<Rightarrow> bool" where
  "all_pending get sound pending m \<longleftrightarrow> sound m \<and> (\<forall>k s. get m k = Some s \<longrightarrow> pending k s)"

locale keyed_machine =
  fixes key :: "'r \<Rightarrow> 'k"
    and one :: "'r \<Rightarrow> 's option \<Rightarrow> 'o list \<times> 's option"
    and step :: "'r \<Rightarrow> 'o list \<times> 'm \<Rightarrow> 'o list \<times> 'm"
    and get :: "'m \<Rightarrow> 'k \<Rightarrow> 's option"
    and sound :: "'m \<Rightarrow> bool"
    and okey :: "'o \<Rightarrow> 'k"
    and pending :: "'k \<Rightarrow> 's \<Rightarrow> bool"
  assumes step_law: "sound m \<Longrightarrow> \<exists>m'. step r (outs, m) = (outs @ fst (one r (get m (key r))), m') \<and> sound m' \<and>
      (\<forall>k. get m' k = (if k = key r then snd (one r (get m (key r))) else get m k))"
    and one_law: "(\<forall>s. so = Some s \<longrightarrow> pending (key r) s) \<Longrightarrow>
      (\<forall>x \<in> set (fst (one r so)). okey x = key r) \<and> (\<forall>s. snd (one r so) = Some s \<longrightarrow> pending (key r) s)"
begin

lemma projection:
  assumes "all_pending get sound pending m"
  shows "all_pending get sound pending (snd (fold step rs (outs, m))) \<and>
    filter (\<lambda>x. okey x = k) (fst (fold step rs (outs, m))) =
      filter (\<lambda>x. okey x = k) outs @ fst (one_run one (filter (\<lambda>r. key r = k) rs) (get m k)) \<and>
    get (snd (fold step rs (outs, m))) k = snd (one_run one (filter (\<lambda>r. key r = k) rs) (get m k))"
  using assms
proof (induction rs arbitrary: outs m)
  case (Cons r rs)
  let ?o = "one r (get m (key r))"
  have "sound m" using Cons.prems by (simp add: all_pending_def)
  then obtain m' where m': "step r (outs, m) = (outs @ fst ?o, m')" "sound m'" "\<forall>k. get m' k = (if k = key r then snd ?o else get m k)"
    using step_law by blast
  have o: "\<forall>x \<in> set (fst ?o). okey x = key r" "\<forall>s. snd ?o = Some s \<longrightarrow> pending (key r) s"
    using one_law [of "get m (key r)" r] Cons.prems by (auto simp: all_pending_def)
  have "all_pending get sound pending m'" using m'(2,3) o(2) Cons.prems by (auto simp: all_pending_def split: if_splits)
  note IH = Cons.IH [OF this, of "outs @ fst ?o"]
  have "filter (\<lambda>x. okey x = k) (fst ?o) = (if key r = k then fst ?o else [])"
    using o(1) by (auto simp: filter_empty_conv filter_id_conv)
  then show ?case using IH m'(1,3) by (auto simp: case_prod_unfold Let_def)
qed simp

end

section \<open>Assembling\<close>

definition event_id :: "AuditEvent \<Rightarrow> string" where
  "event_id ev = audit_id (hd (record_list ev))"

text \<open>The events of a record that is complete in itself; none for a record of a system call.\<close>

definition standalone :: "AuditEventRecord \<Rightarrow> AuditEvent list option" where
  "standalone r =
     (if AUDIT_FIRST_USER_MSG \<le> rec_type r \<and> rec_type r \<le> AUDIT_LAST_USER_MSG then Some [user_event r]
      else if rec_type r \<in> set kSELinuxEventList
      then if \<not> om_has (rec_fields r) ''apparmor'' then Some [\<lparr>ae_type = SELinux, ae_data = UserAuditEventData 0, record_list = [r]\<rparr>]
           else if map_of (apparmor_data (rec_fields r)) ''apparmor'' = Some (Text []) then Some []
           else Some [\<lparr>ae_type = AppArmor, ae_data = AppArmorAuditEventData (apparmor_data (rec_fields r)), record_list = [r]\<rparr>]
      else if rec_type r = AUDIT_SECCOMP
      then Some [\<lparr>ae_type = Seccomp, ae_data = SeccompAuditEventData (parseSeccompEvent (rec_fields r)), record_list = [r]\<rparr>]
      else None)"

definition started :: "audit_env \<Rightarrow> int list \<Rightarrow> AuditEventRecord \<Rightarrow> AuditEvent option" where
  "started e al r = map_option (\<lambda>d. \<lparr>ae_type = Syscall, ae_data = SyscallData d, record_list = [r]\<rparr>) (syscall_data e al (rec_fields r))"

text \<open>One record against the event under its identifier.\<close>

definition assemble_one :: "audit_env \<Rightarrow> int list \<Rightarrow> AuditEventRecord \<Rightarrow> AuditEvent option \<Rightarrow> AuditEvent list \<times> AuditEvent option" where
  "assemble_one e al r so =
     (case standalone r of Some outs \<Rightarrow> (outs, so) | None \<Rightarrow>
      if rec_type r = AUDIT_SYSCALL then ([], started e al r)
      else case so of
             None \<Rightarrow> ([], None)
           | Some ev \<Rightarrow> if rec_type r = AUDIT_EOE then ([ev], None) else ([], Some (ev\<lparr>record_list := record_list ev @ [r]\<rparr>)))"

lemma assemble_record_split:
  "assemble_record e al r (evs, trace) =
     (case standalone r of Some outs \<Rightarrow> (evs @ outs, trace) | None \<Rightarrow>
      if rec_type r = AUDIT_SYSCALL
      then (evs, case started e al r of None \<Rightarrow> om_del (audit_id r) trace | Some ev \<Rightarrow> om_set (audit_id r) ev (om_del (audit_id r) trace))
      else case om_get trace (audit_id r) of
             None \<Rightarrow> (evs, trace)
           | Some ev \<Rightarrow> if rec_type r = AUDIT_EOE then (evs @ [ev], om_del (audit_id r) trace)
                        else (evs, om_set (audit_id r) (ev\<lparr>record_list := record_list ev @ [r]\<rparr>) trace))"
  by (simp add: assemble_record_def standalone_def started_def Let_def split: option.split)

lemma standalone_id: "standalone r = Some outs \<Longrightarrow> x \<in> set outs \<Longrightarrow> record_list x = [r]"
  by (auto simp: standalone_def user_event_def split: if_splits)

definition collecting :: "string \<Rightarrow> AuditEvent \<Rightarrow> bool" where
  "collecting i ev \<longleftrightarrow> record_list ev \<noteq> [] \<and> (\<forall>r \<in> set (record_list ev). audit_id r = i)"

interpretation asm: keyed_machine audit_id "assemble_one e al" "assemble_record e al" om_get om_wf event_id collecting for e al
proof (unfold_locales, goal_cases)
  case (1 m r outs)
  then show ?case
    unfolding assemble_record_split assemble_one_def by (cases "standalone r") (auto split: option.splits)
next
  case (2 so r)
  then show ?case
    by (cases "standalone r") (auto simp: assemble_one_def event_id_def collecting_def started_def dest: standalone_id split: option.splits if_splits)
qed

section \<open>Batches\<close>

text \<open>Runs of the publisher, each with its time and the records it finds.\<close>

fun publish :: "audit_env \<Rightarrow> int list \<Rightarrow> (int \<times> AuditEventRecord list) list \<Rightarrow> AuditTraceContext \<Rightarrow> AuditEvent list \<times> AuditTraceContext" where
  "publish e al [] trace = ([], trace)"
| "publish e al ((now, rs) # batches) trace =
     (let (events, trace1) = AuditEventPublisher_ProcessEvents e al now rs trace; (rest, trace2) = publish e al batches trace1
      in (events @ rest, trace2))"

abbreviation traced :: "AuditTraceContext \<Rightarrow> bool" where
  "traced \<equiv> all_pending om_get om_wf collecting"

lemma om_get_filter: "om_get (filter (\<lambda>(k, _). P k) m) k = (if P k then om_get m k else None)"
  by (induction m) (auto simp: om_get_Cons)

lemma drop_stale_get: "om_get (drop_stale now trace) k = (if now - id_time k \<ge> 300 then None else om_get trace k)"
  by (simp add: drop_stale_def om_get_filter)

lemma om_wf_drop_stale: "om_wf trace \<Longrightarrow> om_wf (drop_stale now trace)"
  unfolding drop_stale_def by (rule om_wf_filter)

lemma traced_drop_stale: "traced trace \<Longrightarrow> traced (drop_stale now trace)"
  by (auto simp: all_pending_def drop_stale_get om_wf_drop_stale split: if_splits)

lemma publish_projection:
  assumes "\<forall>b \<in> set batches. fst b - id_time i < 300" "traced trace"
  shows "filter (\<lambda>ev. event_id ev = i) (fst (publish e al batches trace)) =
      fst (one_run (assemble_one e al) (filter (\<lambda>r. audit_id r = i) (concat (map snd batches))) (om_get trace i))"
  using assms
proof (induction batches arbitrary: trace)
  case (Cons b batches)
  obtain now rs where b: "b = (now, rs)" by fastforce
  let ?run = "fold (assemble_record e al) rs ([], trace)" and ?one = "one_run (assemble_one e al) (filter (\<lambda>r. audit_id r = i) rs) (om_get trace i)"
  note p = asm.projection [OF Cons.prems(2), of e al rs "[]" i]
  let ?trace = "drop_stale now (snd ?run)"
  have t: "traced ?trace" "om_get ?trace i = snd ?one"
    using p Cons.prems(1) b by (simp_all add: traced_drop_stale drop_stale_get)
  have "filter (\<lambda>ev. event_id ev = i) (fst (publish e al batches ?trace)) =
      fst (one_run (assemble_one e al) (filter (\<lambda>r. audit_id r = i) (concat (map snd batches))) (snd ?one))"
    using Cons.IH [OF _ t(1)] Cons.prems(1) t(2) by simp
  then show ?case using p by (simp add: b AuditEventPublisher_ProcessEvents_def case_prod_unfold Let_def one_run_append)
qed simp

text \<open>A record that goes on with the event under its identifier.\<close>

definition continues :: "AuditEventRecord \<Rightarrow> bool" where
  "continues r \<longleftrightarrow> standalone r = None \<and> rec_type r \<noteq> AUDIT_SYSCALL \<and> rec_type r \<noteq> AUDIT_EOE"

lemma standalone_syscall [simp]: "rec_type r = AUDIT_SYSCALL \<or> rec_type r = AUDIT_EOE \<Longrightarrow> standalone r = None"
  by (auto simp: standalone_def audit_types kSELinuxEventList_def)

lemma one_run_continues:
  "list_all continues ms \<Longrightarrow> one_run (assemble_one e al) ms (Some ev) = ([], Some (ev\<lparr>record_list := record_list ev @ ms\<rparr>))"
  by (induction ms arbitrary: ev) (simp_all add: continues_def assemble_one_def)

text \<open>
  C21. Events are assembled from interleaved records. Whatever records of other events and of other kinds come in
  between, in whatever batches they are read, and whatever is left over under the same identifier: a system call
  whose records arrive within five minutes gives exactly one event, with its own records in their order.
\<close>

theorem interleaved_event_assembled:
  assumes "traced trace" "\<forall>b \<in> set batches. fst b - id_time i < 300"
    and "filter (\<lambda>r. audit_id r = i) (concat (map snd batches)) = s # ms @ [t]"
    and "rec_type s = AUDIT_SYSCALL" "syscall_data e al (rec_fields s) = Some d" "list_all continues ms" "rec_type t = AUDIT_EOE"
  shows "filter (\<lambda>ev. event_id ev = i) (fst (publish e al batches trace)) =
    [\<lparr>ae_type = Syscall, ae_data = SyscallData d, record_list = s # ms\<rparr>]"
proof -
  let ?ev = "\<lparr>ae_type = Syscall, ae_data = SyscallData d, record_list = [s]\<rparr>"
  have "assemble_one e al s (om_get trace i) = ([], Some ?ev)" using assms(4,5) by (simp add: assemble_one_def started_def)
  moreover have "assemble_one e al t (Some ev) = ([ev], None)" for ev using assms(7) by (simp add: assemble_one_def AUDIT_SYSCALL_def AUDIT_EOE_def)
  ultimately have "fst (one_run (assemble_one e al) (s # ms @ [t]) (om_get trace i)) = [?ev\<lparr>record_list := record_list ?ev @ ms\<rparr>]"
    using one_run_continues [OF assms(6), of e al ?ev] by (simp add: one_run_append)
  then show ?thesis using publish_projection [OF assms(2,1), of e al] assms(3) by simp
qed

text \<open>A system call with its records, interleaved with the records of another one, in two batches.\<close>

definition sample_audit :: audit_env where
  "sample_audit = \<lparr>unhex = (\<lambda>_. None), executable_path = ''/usr/bin/osqueryd'', audit_getpid = 7, audit_persist = True, disable_audit = False,
     audit_allow_fim_events = False, audit_allow_process_events = True, audit_allow_sockets = False, audit_allow_user_events = False,
     audit_allow_selinux_events = False, audit_allow_kill_process_events = False, audit_allow_apparmor_events = False,
     audit_allow_seccomp_events = False\<rparr>"

lemma need_field_printed: "om_get fs name = Some (to_string_u64 v) \<Longrightarrow> need_field fs name = Some v"
  by (simp add: need_field_def GetIntegerFieldFromMap_def GetStringFieldFromMap_def tryTo_u64_def tryTo_catch_def throwingStringToInt_ulonglong_def Expected_value_def)

definition sample_call_fields :: "u64 \<Rightarrow> field_map" where
  "sample_call_fields pid =
     [(''auid'', to_string_u64 0), (''egid'', to_string_u64 0), (''euid'', to_string_u64 0), (''exe'', ''/bin/sh''), (''fsgid'', to_string_u64 0), (''fsuid'', to_string_u64 0), (''gid'', to_string_u64 0),
      (''pid'', to_string_u64 pid), (''ppid'', to_string_u64 9), (''sgid'', to_string_u64 0), (''success'', ''yes''), (''suid'', to_string_u64 0), (''syscall'', to_string_u64 59), (''uid'', to_string_u64 0)]"

definition sample_record :: "int \<Rightarrow> string \<Rightarrow> field_map \<Rightarrow> AuditEventRecord" where
  "sample_record t i fs = \<lparr>rec_type = t, rec_time = 100, audit_id = i, rec_fields = fs, raw_data = []\<rparr>"

definition sample_batches :: "(int \<times> AuditEventRecord list) list" where
  "sample_batches =
     [(101, [sample_record AUDIT_SYSCALL ''100.0:1'' (sample_call_fields 21), sample_record AUDIT_SYSCALL ''100.0:2'' (sample_call_fields 22),
        sample_record AUDIT_CWD ''100.0:1'' [(''cwd'', ''/'')]]),
      (102, [sample_record AUDIT_EOE ''100.0:2'' [], sample_record AUDIT_EOE ''100.0:1'' []])]"

definition sample_call_data :: "int \<Rightarrow> SyscallAuditEventData" where
  "sample_call_data pid = \<lparr>syscall_number = 59, sd_succeeded = True, sd_process_id = pid, sd_parent_process_id = 9, sd_uid = None, sd_auid = None,
     sd_euid = None, sd_fsuid = None, sd_suid = None, sd_gid = None, sd_egid = None, sd_fsgid = None, sd_sgid = None, sd_executable_path = ''/bin/sh''\<rparr>"

lemma sample_call_fields_data: "syscall_data sample_audit [] (sample_call_fields 21) = Some (sample_call_data 21)"
proof -
  have get: "om_get (sample_call_fields 21) ''exe'' = Some ''/bin/sh''" "om_get (sample_call_fields 21) ''success'' = Some ''yes''"
    by (simp_all add: sample_call_fields_def om_get_Cons)
  have need: "need_field (sample_call_fields 21) ''syscall'' = Some 59" "need_field (sample_call_fields 21) ''pid'' = Some 21"
    "need_field (sample_call_fields 21) ''ppid'' = Some 9"
    "need_field (sample_call_fields 21) ''uid'' = Some 0" "need_field (sample_call_fields 21) ''auid'' = Some 0" "need_field (sample_call_fields 21) ''euid'' = Some 0"
    "need_field (sample_call_fields 21) ''fsuid'' = Some 0" "need_field (sample_call_fields 21) ''suid'' = Some 0" "need_field (sample_call_fields 21) ''gid'' = Some 0"
    "need_field (sample_call_fields 21) ''egid'' = Some 0" "need_field (sample_call_fields 21) ''fsgid'' = Some 0" "need_field (sample_call_fields 21) ''sgid'' = Some 0"
    by (rule need_field_printed; simp add: sample_call_fields_def om_get_Cons)+
  show ?thesis
    by (simp add: syscall_data_def get need DecodeAuditPathValues_def sample_audit_def GetStringFieldFromMap_def sample_call_data_def to_int32_def)
qed

lemma sample_id_time: "id_time ''100.0:1'' = 100"
  by code_simp

theorem interleaved_event_assembled_witness:
  "filter (\<lambda>ev. event_id ev = ''100.0:1'') (fst (publish sample_audit [] sample_batches [])) =
     [\<lparr>ae_type = Syscall, ae_data = SyscallData (sample_call_data 21),
       record_list = [sample_record AUDIT_SYSCALL ''100.0:1'' (sample_call_fields 21), sample_record AUDIT_CWD ''100.0:1'' [(''cwd'', ''/'')]]\<rparr>]"
proof -
  have "continues (sample_record AUDIT_CWD i fs)" for i fs
    by (auto simp: continues_def standalone_def sample_record_def audit_types kSELinuxEventList_def)
  then show ?thesis
    using sample_call_fields_data
    by (intro interleaved_event_assembled [where t = "sample_record AUDIT_EOE ''100.0:1'' []"])
      (simp_all add: all_pending_def sample_batches_def sample_id_time, simp_all add: sample_record_def)
qed

section \<open>What is published\<close>

text \<open>
  An event that is being collected, and one that is published: a system call starts with the record its data comes
  from, never one of osquery itself, and all its records have one identifier.
\<close>

definition call_event :: "audit_env \<Rightarrow> int list \<Rightarrow> AuditEvent \<Rightarrow> bool" where
  "call_event e al ev \<longleftrightarrow> ae_type ev = Syscall \<and>
     (\<exists>r rs d. record_list ev = r # rs \<and> rec_type r = AUDIT_SYSCALL \<and> syscall_data e al (rec_fields r) = Some d \<and> ae_data ev = SyscallData d \<and>
       list_all (\<lambda>x. continues x \<and> audit_id x = audit_id r) rs)"

definition single_event :: "AuditEvent \<Rightarrow> bool" where
  "single_event ev \<longleftrightarrow> ae_type ev \<noteq> Syscall \<and> (\<exists>r outs. record_list ev = [r] \<and> standalone r = Some outs \<and> ev \<in> set outs)"

definition calls_at :: "audit_env \<Rightarrow> int list \<Rightarrow> AuditTraceContext \<Rightarrow> bool" where
  "calls_at e al trace \<longleftrightarrow> om_wf trace \<and> (\<forall>k ev. om_get trace k = Some ev \<longrightarrow> call_event e al ev \<and> event_id ev = k)"

lemma standalone_type: "standalone r = Some outs \<Longrightarrow> ev \<in> set outs \<Longrightarrow> ae_type ev \<noteq> Syscall"
  by (auto simp: standalone_def user_event_def split: if_splits)

lemma call_event_extend:
  assumes "call_event e al ev" "event_id ev = audit_id r" "continues r"
  shows "call_event e al (ev\<lparr>record_list := record_list ev @ [r]\<rparr>) \<and> event_id (ev\<lparr>record_list := record_list ev @ [r]\<rparr>) = audit_id r"
  using assms by (auto simp: call_event_def event_id_def)

lemma assemble_record_published:
  assumes "calls_at e al trace" "assemble_record e al r (evs, trace) = (evs', trace')"
  shows "calls_at e al trace' \<and> (\<exists>outs. evs' = evs @ outs \<and> (\<forall>ev \<in> set outs. call_event e al ev \<or> single_event ev))"
proof (cases "standalone r")
  case (Some outs)
  then have "single_event ev" if "ev \<in> set outs" for ev
    using that standalone_id [OF Some that] standalone_type [OF Some that] by (auto simp: single_event_def)
  then show ?thesis using assms Some by (auto simp: assemble_record_split)
next
  case None
  then have cont: "continues r \<longleftrightarrow> rec_type r \<noteq> AUDIT_SYSCALL \<and> rec_type r \<noteq> AUDIT_EOE" by (simp add: continues_def)
  have start: "call_event e al ev \<and> event_id ev = audit_id r" if "started e al r = Some ev" "rec_type r = AUDIT_SYSCALL" for ev
    using that by (auto simp: started_def call_event_def event_id_def)
  have ext: "call_event e al (ev\<lparr>record_list := record_list ev @ [r]\<rparr>) \<and> event_id (ev\<lparr>record_list := record_list ev @ [r]\<rparr>) = audit_id r"
    if "om_get trace (audit_id r) = Some ev" "rec_type r \<noteq> AUDIT_SYSCALL" "rec_type r \<noteq> AUDIT_EOE" for ev
    using call_event_extend [of e al ev r] assms(1) that cont by (simp add: calls_at_def)
  show ?thesis using assms None start ext
    by (auto simp: assemble_record_split calls_at_def split: if_splits option.splits)
qed

lemma fold_published:
  "calls_at e al trace \<Longrightarrow> fold (assemble_record e al) rs (evs, trace) = (evs', trace') \<Longrightarrow>
   calls_at e al trace' \<and> (\<exists>outs. evs' = evs @ outs \<and> (\<forall>ev \<in> set outs. call_event e al ev \<or> single_event ev))"
proof (induction rs arbitrary: evs trace)
  case (Cons r rs)
  obtain evs1 trace1 where 1: "assemble_record e al r (evs, trace) = (evs1, trace1)" by fastforce
  note s = assemble_record_published [OF Cons.prems(1) 1]
  then show ?case using Cons.IH [of trace1 evs1] Cons.prems(2) 1 by fastforce
qed auto

lemma publish_published:
  "calls_at e al trace \<Longrightarrow> \<forall>ev \<in> set (fst (publish e al batches trace)). call_event e al ev \<or> single_event ev"
proof (induction batches arbitrary: trace)
  case (Cons b batches)
  obtain now rs where b: "b = (now, rs)" by fastforce
  obtain evs trace1 where 1: "fold (assemble_record e al) rs ([], trace) = (evs, trace1)" by fastforce
  note s = fold_published [OF Cons.prems 1]
  have "calls_at e al (drop_stale now trace1)" using s by (auto simp: calls_at_def drop_stale_get om_wf_drop_stale split: if_splits)
  then show ?case using Cons.IH [of "drop_stale now trace1"] s by (auto simp: b 1 AuditEventPublisher_ProcessEvents_def case_prod_unfold Let_def)
qed simp

lemma syscall_data_path: "syscall_data e al fs = Some d \<Longrightarrow> sd_executable_path d \<noteq> executable_path e"
  by (auto simp: syscall_data_def Let_def bind_eq_Some_conv split: if_splits)

text \<open>
  Whatever records come in, every event that is published is either one record that is complete in itself or a
  system call that begins with its own record, goes on with records of the same identifier, none of which begins or
  ends a call, and is never a call of osquery itself.
\<close>

theorem published_events_wellformed:
  "set (fst (publish e al batches [])) \<subseteq>
     {ev. single_event ev \<or> call_event e al ev \<and> (\<exists>d. ae_data ev = SyscallData d \<and> sd_executable_path d \<noteq> executable_path e)}"
proof
  fix ev
  assume "ev \<in> set (fst (publish e al batches []))"
  then have "call_event e al ev \<or> single_event ev" using publish_published [of e al "[]" batches] by (auto simp: calls_at_def)
  then show "ev \<in> {ev. single_event ev \<or> call_event e al ev \<and> (\<exists>d. ae_data ev = SyscallData d \<and> sd_executable_path d \<noteq> executable_path e)}"
    using syscall_data_path by (auto simp: call_event_def)
qed

text \<open>
  Denials by user-space object managers never reach the table of SELinux events, although their type is on its list:
  the publisher takes every record of that type for a user message first.
\<close>

theorem user_avc_never_listed:
  "Some ''USER_AVC'' \<notin> (\<lambda>row. om_get row ''type'') ` set (SELinuxEvents pe (fst (publish e al batches [])))"
proof
  assume "Some ''USER_AVC'' \<in> (\<lambda>row. om_get row ''type'') ` set (SELinuxEvents pe (fst (publish e al batches [])))"
  then obtain ev r where ev: "ev \<in> set (fst (publish e al batches []))" "ae_type ev = SELinux" "r \<in> set (record_list ev)"
    and label: "record_label kSELinuxRecordLabels (rec_type r) = ''USER_AVC''"
    by (auto simp: SELinuxEvents_def label_row_def om_get_Cons split: if_splits)
  have "single_event ev" using publish_published [of e al "[]" batches] ev by (fastforce simp: calls_at_def call_event_def)
  then have "rec_type r \<noteq> AUDIT_USER_AVC" "rec_type r \<in> set kSELinuxEventList"
    using ev(2,3) by (auto simp: single_event_def standalone_def user_event_def audit_types split: if_splits)
  then obtain n where "n < 18" "rec_type r = AUDIT_AVC + int n" by (auto simp: kSELinuxEventList_def)
  then show False using label
    by (auto simp: record_label_def kSELinuxRecordLabels_def audit_types upt_rec less_Suc_eq numeral_eq_Suc)
qed

section \<open>Parsing\<close>

lemma tokenize_key:
  "CHR '' '' \<notin> set k' \<Longrightarrow> CHR ''='' \<notin> set k' \<Longrightarrow> tokenize (k' @ cs) k v False False m = tokenize cs (k @ k') v False False m"
  by (induction k' arbitrary: k) auto

lemma tokenize_value:
  "CHR '' '' \<notin> set v' \<Longrightarrow> CHR 0x22 \<notin> set v' \<Longrightarrow> tokenize (v' @ cs) k v True False m = tokenize cs k (v @ v') True False m"
  by (induction v' arbitrary: v) auto

lemma tokenize_enclosed:
  "CHR 0x22 \<notin> set w \<Longrightarrow> k \<noteq> [] \<Longrightarrow>
   tokenize (w @ CHR 0x22 # cs) k v True True m = tokenize cs [] [] False False (om_emplace k (v @ w @ [CHR 0x22]) m)"
  by (induction w arbitrary: v) auto

text \<open>How the kernel writes a field: a name, and a plain value or one in quotes.\<close>

definition field_written :: "string \<times> string \<Rightarrow> bool" where
  "field_written kv \<longleftrightarrow> fst kv \<noteq> [] \<and> CHR '' '' \<notin> set (fst kv) \<and> CHR ''='' \<notin> set (fst kv) \<and>
     (CHR '' '' \<notin> set (snd kv) \<and> CHR 0x22 \<notin> set (snd kv) \<or> (\<exists>w. snd kv = CHR 0x22 # w @ [CHR 0x22] \<and> CHR 0x22 \<notin> set w))"

fun print_fields :: "(string \<times> string) list \<Rightarrow> string" where
  "print_fields [] = []"
| "print_fields [(k, v)] = k @ ''='' @ v"
| "print_fields ((k, v) # kv # kvs) = k @ ''='' @ v @ '' '' @ print_fields (kv # kvs)"

lemma tokenize_field:
  assumes "field_written (k, v)"
  shows "tokenize (k @ ''='' @ v) [] [] False False m = om_emplace k v m"
    "tokenize (k @ ''='' @ v @ CHR '' '' # cs) [] [] False False m = tokenize cs [] [] False False (om_emplace k v m)"
proof -
  have k: "k \<noteq> []" and key: "tokenize (k @ xs) [] [] False False m = tokenize xs k [] False False m" for xs
    using assms tokenize_key [of k xs "[]" "[]" m] by (auto simp: field_written_def)
  consider "CHR '' '' \<notin> set v" "CHR 0x22 \<notin> set v" | w where "v = CHR 0x22 # w @ [CHR 0x22]" "CHR 0x22 \<notin> set w"
    using assms by (auto simp: field_written_def)
  then have "tokenize (k @ ''='' @ v) [] [] False False m = om_emplace k v m \<and>
      tokenize (k @ ''='' @ v @ CHR '' '' # cs) [] [] False False m = tokenize cs [] [] False False (om_emplace k v m)"
  proof cases
    case 1
    then show ?thesis using k tokenize_value [of v "[]" k "[]" m] tokenize_value [of v "CHR '' '' # cs" k "[]" m] by (simp add: key)
  next
    case 2
    then show ?thesis using k tokenize_enclosed [of w k "[]" "[CHR 0x22]" m] tokenize_enclosed [of w k "CHR '' '' # cs" "[CHR 0x22]" m]
      by (simp add: key)
  qed
  then show "tokenize (k @ ''='' @ v) [] [] False False m = om_emplace k v m"
    "tokenize (k @ ''='' @ v @ CHR '' '' # cs) [] [] False False m = tokenize cs [] [] False False (om_emplace k v m)" by auto
qed

lemma tokenize_print:
  "list_all field_written kvs \<Longrightarrow> tokenize (print_fields kvs) [] [] False False m = fold (\<lambda>(k, v). om_emplace k v) kvs m"
  by (induction kvs arbitrary: m rule: print_fields.induct) (simp_all add: tokenize_field [simplified])

lemma fold_emplace: "om_wf (m @ kvs) \<Longrightarrow> fold (\<lambda>(k, v). om_emplace k v) kvs m = m @ kvs"
proof (induction kvs arbitrary: m)
  case (Cons kv kvs)
  have less: "\<And>x. x \<in> set m \<Longrightarrow> fst x < fst kv" using Cons.prems by (fastforce simp: om_wf_def sorted_wrt_append)
  then have "\<not> om_has m (fst kv)" by (fastforce simp: om_has_def om_get_None_iff)
  then have "om_emplace (fst kv) (snd kv) m = m @ [kv]" using om_set_last [of m "fst kv" "snd kv"] less by (simp add: om_emplace_def)
  then show ?case using Cons.IH [of "m @ [kv]"] Cons.prems by (simp add: case_prod_unfold)
qed simp

lemma str_find_first:
  assumes "p \<noteq> []" "hd p \<notin> set xs"
  shows "str_find p (xs @ p @ ys) = Some (length xs)"
  using assms(2)
proof (induction xs)
  case Nil
  then show ?case using assms(1) by (cases p) auto
next
  case (Cons c xs)
  then show ?case using assms(1) by (cases p) auto
qed



section \<open>The threads\<close>

text \<open>
  The reader, the parser and the publisher in any order: the context, the raw records the reader has got so far, and
  the records the publisher has taken. The reader goes on reading, and the parser goes on to take the next queue, when
  they are not throttled; the parser's turn ends if no record ends the process.
\<close>

inductive audit_reach :: "audit_env \<Rightarrow> AuditdContext \<Rightarrow> audit_reply list \<Rightarrow> AuditEventRecord list \<Rightarrow> bool" for e where
  start: "audit_reach e AuditdContext_new [] []"
| reads: "audit_reach e c rs out \<Longrightarrow> \<not> reader_throttled c \<Longrightarrow> audit_reach e (reader_turn xs c) (rs @ fst (acquire_loop 1024 xs)) out"
| takes: "audit_reach e c rs out \<Longrightarrow> \<not> parser_throttled c \<Longrightarrow> parser_queue c = [] \<Longrightarrow> audit_reach e (parser_take c) rs out"
| parses: "audit_reach e c rs out \<Longrightarrow> parser_finish e c = Inr c' \<Longrightarrow> audit_reach e c' rs out"
| gets: "audit_reach e c rs out \<Longrightarrow> getEvents c = (xs, c') \<Longrightarrow> audit_reach e c' rs (out @ xs)"

definition in_transit :: "AuditdContext \<Rightarrow> audit_reply list" where
  "in_transit c = parser_queue c @ unprocessed_records c"

lemma acquire_loop_length: "length (fst (acquire_loop room xs)) \<le> room"
  by (induction room xs rule: acquire_loop.induct) (auto simp: case_prod_unfold Let_def split: received.split)

lemma reader_turn_simps:
  "unprocessed_records (reader_turn xs c) = unprocessed_records c @ fst (acquire_loop 1024 xs)" "parser_queue (reader_turn xs c) = parser_queue c"
  "processed_events (reader_turn xs c) = processed_events c" "processed_records_backlog (reader_turn xs c) = processed_records_backlog c"
  "unprocessed_records_amount (reader_turn xs c) = unprocessed_records_amount c + of_nat (length (fst (acquire_loop 1024 xs)))"
  by (simp_all add: reader_turn_def acquireMessages_def case_prod_unfold Let_def)

lemma parse_replies_append:
  "parse_replies e xs = Inr a \<Longrightarrow> parse_replies e ys = Inr b \<Longrightarrow> parse_replies e (xs @ ys) = Inr (a @ b)"
  by (induction xs arbitrary: a) (auto simp: exn_bind_Inr_iff)

lemma parse_replies_length: "parse_replies e xs = Inr a \<Longrightarrow> length a \<le> length xs"
proof (induction xs arbitrary: a)
  case (Cons x xs)
  then obtain y b where "parse_reply e x = Inr y" "parse_replies e xs = Inr b" "a = y @ b" by (auto simp: exn_bind_Inr_iff)
  moreover from this(1) have "length y \<le> 1" by (auto simp: parse_reply_def exn_bind_Inr_iff split: if_splits)
  ultimately show ?case using Cons.IH by fastforce
qed simp

lemma parser_finish_cases:
  assumes "parser_finish e c = Inr c'"
  obtains new where "parse_replies e (parser_queue c) = Inr new" "parser_queue c' = []" "unprocessed_records c' = unprocessed_records c"
    "processed_events c' = processed_events c @ new" "unprocessed_records_amount c' = unprocessed_records_amount c - of_nat (length (parser_queue c))"
    "processed_records_backlog c' = (if new = [] then processed_records_backlog c else of_nat (length (processed_events c @ new)))"
proof -
  obtain new where "parse_replies e (parser_queue c) = Inr new" using assms by (auto simp: parser_finish_def exn_bind_Inr_iff)
  then show thesis using that [of new] assms by (auto simp: parser_finish_def Let_def split: if_splits)
qed

text \<open>
  C22. Between the threads no record is lost, duplicated or reordered: in whatever order reader, parser and publisher take
  their turns, the raw records read so far are those parsed, those in the parser's hands and those waiting, in this
  order, and the parsed ones give exactly the records taken by the publisher and those waiting for it.
\<close>

theorem records_handed_on_in_order:
  assumes "audit_reach e c rs out"
  shows "\<exists>parsed. rs = parsed @ in_transit c \<and> parse_replies e parsed = Inr (out @ processed_events c)"
  using assms
proof induction
  case start
  then show ?case by (simp add: AuditdContext_new_def in_transit_def)
next
  case (reads c rs out xs)
  then show ?case by (auto simp: in_transit_def reader_turn_simps)
next
  case (takes c rs out)
  then show ?case by (auto simp: in_transit_def parser_take_def)
next
  case (parses c rs out c')
  obtain parsed where p: "rs = parsed @ in_transit c" "parse_replies e parsed = Inr (out @ processed_events c)" using parses.IH by blast
  obtain new where "parse_replies e (parser_queue c) = Inr new" "parser_queue c' = []" "unprocessed_records c' = unprocessed_records c"
    "processed_events c' = processed_events c @ new" using parser_finish_cases [OF parses.hyps(2)] by metis
  then show ?case using p parse_replies_append [OF p(2)] by (intro exI [of _ "parsed @ parser_queue c"]) (simp add: in_transit_def)
next
  case (gets c rs out xs c')
  then show ?case by (auto simp: getEvents_def in_transit_def split: if_splits)
qed

text \<open>What the counters and the queues satisfy at every moment.\<close>

definition queue_inv :: "AuditdContext \<Rightarrow> bool" where
  "queue_inv c \<longleftrightarrow> unprocessed_records_amount c = of_nat (length (in_transit c)) \<and> length (in_transit c) \<le> 5120 \<and>
     processed_records_backlog c = of_nat (length (processed_events c)) \<and>
     length (processed_events c) \<le> (if parser_queue c = [] then 9216 else 4096)"

lemma counter_threshold: "n \<le> 10000 \<Longrightarrow> (of_nat n :: u64) > kUnprocessedRecordsThreshold \<longleftrightarrow> n > 4096"
  by (simp add: kUnprocessedRecordsThreshold_def word_less_nat_alt unat_of_nat take_bit_nat_eq_self)

lemma audit_reach_queues:
  assumes "audit_reach e c rs out"
  shows "queue_inv c"
  using assms
proof induction
  case start
  then show ?case by (simp add: AuditdContext_new_def in_transit_def queue_inv_def)
next
  case (reads c rs out xs)
  have "length (in_transit c) \<le> 4096"
    using reads.hyps(2) reads.IH counter_threshold [of "length (in_transit c)"] by (auto simp: queue_inv_def reader_throttled_def)
  then show ?case using reads.IH acquire_loop_length [of 1024 xs]
    by (simp add: queue_inv_def in_transit_def reader_turn_simps add.assoc split: if_splits)
next
  case (takes c rs out)
  have "length (processed_events c) \<le> 4096"
    using takes.hyps(2,3) takes.IH counter_threshold [of "length (processed_events c)"] by (auto simp: queue_inv_def parser_throttled_def)
  then show ?case using takes.IH takes.hyps(3) by (simp add: queue_inv_def in_transit_def parser_take_def)
next
  case (parses c rs out c')
  obtain new where new: "parse_replies e (parser_queue c) = Inr new" and c': "parser_queue c' = []" "unprocessed_records c' = unprocessed_records c"
    "processed_events c' = processed_events c @ new" "unprocessed_records_amount c' = unprocessed_records_amount c - of_nat (length (parser_queue c))"
    "processed_records_backlog c' = (if new = [] then processed_records_backlog c else of_nat (length (processed_events c @ new)))"
    by (rule parser_finish_cases [OF parses.hyps(2)])
  have "length new \<le> length (parser_queue c)" by (rule parse_replies_length [OF new])
  then show ?case using parses.IH by (auto simp: queue_inv_def in_transit_def c' split: if_splits)
next
  case (gets c rs out xs c')
  then show ?case by (auto simp: getEvents_def in_transit_def queue_inv_def split: if_splits)
qed

text \<open>
  C24. The queues are bounded. The reader never has more than 5120 raw records in transit and the parser never leaves more
  than 9216 parsed ones, however fast the kernel sends and however slowly the publisher reads; the atomic counters
  that throttle the threads are exact.
\<close>

theorem audit_queues_bounded:
  assumes "audit_reach e c rs out"
  shows "length (in_transit c) \<le> 5120 \<and> length (processed_events c) \<le> 9216 \<and>
    unprocessed_records_amount c = of_nat (length (in_transit c)) \<and> processed_records_backlog c = of_nat (length (processed_events c))"
  using audit_reach_queues [OF assms] by (simp add: queue_inv_def split: if_splits)

text \<open>A turn of each thread on one message.\<close>

definition sample_reply :: audit_reply where
  "sample_reply = \<lparr>nlmsg_type = AUDIT_CWD, nl_payload = ''audit(1.0:1): cwd=/'', status_pid = 0\<rparr>"

lemma sample_audit_reach: "audit_reach e (parser_take (reader_turn [Received sample_reply, Poll_timeout] AuditdContext_new)) ([] @ [sample_reply]) []"
proof -
  have read: "audit_reach e (reader_turn [Received sample_reply, Poll_timeout] AuditdContext_new)
      ([] @ fst (acquire_loop 1024 [Received sample_reply, Poll_timeout])) []"
    by (rule reads [OF start]) (simp add: reader_throttled_def AuditdContext_new_def kUnprocessedRecordsThreshold_def)
  have "fst (acquire_loop 1024 [Received sample_reply, Poll_timeout]) = [sample_reply]" by (simp add: numeral_eq_Suc)
  then show ?thesis using takes [OF read]
    by (simp add: parser_throttled_def reader_turn_simps AuditdContext_new_def kUnprocessedRecordsThreshold_def)
qed

theorem records_handed_on_in_order_witness:
  "\<exists>parsed. [sample_reply] = parsed @ in_transit (parser_take (reader_turn [Received sample_reply, Poll_timeout] AuditdContext_new)) \<and>
     parse_replies sample_audit parsed = Inr (processed_events (parser_take (reader_turn [Received sample_reply, Poll_timeout] AuditdContext_new)))"
  using records_handed_on_in_order [OF sample_audit_reach] by simp

theorem audit_queues_bounded_witness:
  "unprocessed_records_amount (parser_take (reader_turn [Received sample_reply, Poll_timeout] AuditdContext_new)) =
     of_nat (length (in_transit (parser_take (reader_turn [Received sample_reply, Poll_timeout] AuditdContext_new))))"
  using audit_queues_bounded [OF sample_audit_reach] by blast

end
