(* ===== verification/AncestrySafety.thy ===== *)
theory AncestrySafety
  imports AuditSafety
begin

text \<open>
  The ancestry column of \<open>process_events\<close> (\<open>tables/events/linux/process_events.cpp\<close>): what the walk costs whatever
  \<open>/proc\<close> says, that it lists the chain of parents of a process tree that stands still, and where the reading of
  \<open>/proc/<pid>/stat\<close> breaks it off; the command line that a row has for the arguments of \<open>execve\<close>, and which events
  give a row.
\<close>

section \<open>Cost of the walk\<close>

lemma readProcParentPid_reads [simp]: "snd (readProcParentPid e pid n) = n + 1"
  by (simp add: readProcParentPid_def Let_def split: option.split)

lemma readProcExePath_reads [simp]: "snd (readProcExePath e pid n) = n + 1"
  by (simp add: readProcExePath_def split: option.split)

lemma readProcCmdline_reads [simp]: "snd (readProcCmdline e pid n) = n + 1"
  by (simp add: readProcCmdline_def Let_def split: option.split)

lemma ancestor_object_reads [simp]: "snd (ancestor_object e pid d n) = n + 3"
  by (simp add: ancestor_object_def case_prod_unfold Let_def)

text \<open>A process that is not in the cache is read, and is in the cache afterwards if its parent is known.\<close>

lemma getProcessInfo_miss:
  assumes "om_get cache pid = None"
  obtains info where "pi_ppid info = fst (readProcParentPid e pid n)"
    "getProcessInfo e pid cache n =
       (fst (readProcParentPid e pid n) > 0, info, if fst (readProcParentPid e pid n) > 0 then om_set pid info cache else cache, n + 3)"
proof (rule that)
  let ?p = "fst (readProcParentPid e pid n)"
  let ?info = "\<lparr>pi_pid = pid, pi_ppid = ?p, pi_path = fst (readProcExePath e pid (n + 1)), pi_cmdline = fst (readProcCmdline e pid (n + 2))\<rparr>"
  show "pi_ppid ?info = ?p" by simp
  show "getProcessInfo e pid cache n = (?p > 0, ?info, if ?p > 0 then om_set pid ?info cache else cache, n + 3)"
    using assms by (cases "?p > 0") (simp_all add: getProcessInfo_def case_prod_unfold Let_def)
qed

text \<open>One turn of the walk, with the cache holding visited processes only: it never spares a read.\<close>

definition cache_visited :: "ProcessInfoCache \<Rightarrow> int list \<Rightarrow> bool" where
  "cache_visited cache visited \<longleftrightarrow> fst ` set cache \<subseteq> set visited"

lemma ancestry_turn:
  assumes "cache_visited cache visited"
  obtains cache1 where "cache_visited cache1 (pid # visited)"
    "ancestry_loop e (Suc left) pid visited d cache n anc =
       (let p = fst (readProcParentPid e pid n) in
        if \<not> pid > 1 \<or> pid \<in> set visited then (anc, pid, d, n)
        else if \<not> p > 0 \<or> p = pid then (anc, pid, d, n + 3)
        else ancestry_loop e left p (pid # visited) (d + 1) cache1 (n + 6) (anc @ [fst (ancestor_object e p d (n + 3))]))"
proof (cases "pid \<in> set visited")
  case False
  then have "om_get cache pid = None" using assms by (auto simp: om_get_None_iff cache_visited_def)
  then obtain info where i: "pi_ppid info = fst (readProcParentPid e pid n)"
    and g: "getProcessInfo e pid cache n =
       (fst (readProcParentPid e pid n) > 0, info, if fst (readProcParentPid e pid n) > 0 then om_set pid info cache else cache, n + 3)"
    by (rule getProcessInfo_miss)
  have "cache_visited (om_set pid info cache) (pid # visited)" using assms by (auto simp: cache_visited_def om_set_keys_set)
  then show thesis
  proof (rule that)
    show "ancestry_loop e (Suc left) pid visited d cache n anc =
       (let p = fst (readProcParentPid e pid n) in
        if \<not> pid > 1 \<or> pid \<in> set visited then (anc, pid, d, n)
        else if \<not> p > 0 \<or> p = pid then (anc, pid, d, n + 3)
        else ancestry_loop e left p (pid # visited) (d + 1) (om_set pid info cache) (n + 6) (anc @ [fst (ancestor_object e p d (n + 3))]))"
      using False by (cases "fst (readProcParentPid e pid n) > 0") (simp_all add: g i Let_def case_prod_unfold json_push_def add.commute [of n 6])
  qed
next
  case True
  have "cache_visited cache (pid # visited)" using assms by (auto simp: cache_visited_def)
  then show thesis by (rule that) (simp add: True)
qed

declare ancestry_loop.simps(2) [simp del]

lemma ancestry_loop_cost:
  assumes "cache_visited cache visited" "ancestry_loop e left pid visited d cache n anc = (anc', q, d', n')"
  shows "\<exists>k \<le> left. d' = d + k \<and> length anc' = length anc + k \<and> (n' = n + 6 * k \<or> n' = n + 6 * k + 3)"
  using assms
proof (induction left arbitrary: pid visited d cache n anc)
  case (Suc left)
  obtain cache1 where "cache_visited cache1 (pid # visited)"
    and t: "ancestry_loop e (Suc left) pid visited d cache n anc =
       (let p = fst (readProcParentPid e pid n) in
        if \<not> pid > 1 \<or> pid \<in> set visited then (anc, pid, d, n)
        else if \<not> p > 0 \<or> p = pid then (anc, pid, d, n + 3)
        else ancestry_loop e left p (pid # visited) (d + 1) cache1 (n + 6) (anc @ [fst (ancestor_object e p d (n + 3))]))"
    by (rule ancestry_turn [OF Suc.prems(1)])
  from Suc.IH [OF this(1)] Suc.prems(2) show ?case
    unfolding t Let_def by (fastforce split: if_splits)
qed auto

section \<open>The chain of parents\<close>

text \<open>A tree of processes that stands still: every read of a file gives the same.\<close>

definition proc_stable :: "proc_env \<Rightarrow> bool" where
  "proc_stable e \<longleftrightarrow> (\<forall>n path. pe_read e n path = pe_read e 0 path)"

definition parent_of :: "proc_env \<Rightarrow> int \<Rightarrow> int" where
  "parent_of e pid = fst (readProcParentPid e pid 0)"

lemma stable_reads:
  assumes "proc_stable e"
  shows "fst (readProcParentPid e pid n) = parent_of e pid" "fst (ancestor_object e pid d n) = fst (ancestor_object e pid d 0)"
proof -
  have r: "pe_read e m path = pe_read e 0 path" for m path using assms by (simp add: proc_stable_def)
  have p: "fst (readProcParentPid e q m) = parent_of e q" for q m
    by (simp add: parent_of_def readProcParentPid_def r [of m] Let_def split: option.split)
  moreover have "fst (readProcExePath e q m) = fst (readProcExePath e q 0)" "fst (readProcCmdline e q m) = fst (readProcCmdline e q 0)" for q m
    by (simp_all add: readProcExePath_def readProcCmdline_def r [of m] Let_def split: option.split)
  ultimately show "fst (readProcParentPid e pid n) = parent_of e pid" "fst (ancestor_object e pid d n) = fst (ancestor_object e pid d 0)"
    by (simp_all add: ancestor_object_def case_prod_unfold Let_def) (metis)
qed

text \<open>A process whose chain of parents ends at the first process after \<open>k\<close> steps.\<close>

definition descends :: "proc_env \<Rightarrow> int \<Rightarrow> nat \<Rightarrow> bool" where
  "descends e pid k \<longleftrightarrow> (parent_of e ^^ k) pid = 1 \<and> list_all (\<lambda>i. (parent_of e ^^ i) pid > 1) [0..<k]"

lemma descends_Suc: "descends e pid (Suc k) \<longleftrightarrow> pid > 1 \<and> descends e (parent_of e pid) k"
  by (simp add: descends_def list_all_iff funpow_swap1 upt_conv_Cons_Cons less_Suc_eq_0_disj Ball_def del: upt_Suc) (metis funpow_swap1 funpow_simps_right(2) comp_apply not0_implies_Suc Suc_less_eq funpow_0 zero_less_Suc)

lemma funpow_step: "(f ^^ Suc i) x = (f ^^ i) (f x)"
  by (simp add: funpow_swap1)

text \<open>The chain does not come back to a process it has left.\<close>

lemma funpow_return: "(f ^^ i) x = x \<Longrightarrow> (f ^^ (k mod i)) x = (f ^^ k) x" for f :: "'a \<Rightarrow> 'a"
  by (metis funpow_mod_eq)

lemma descends_no_return:
  assumes "descends e pid k" "pid > 1" "0 < i" "i \<le> k"
  shows "(parent_of e ^^ i) pid \<noteq> pid"
proof
  assume "(parent_of e ^^ i) pid = pid"
  then have "(parent_of e ^^ (k mod i)) pid = 1" using funpow_return assms(1) by (metis descends_def)
  moreover have "k mod i < k" using assms(3,4) by (meson mod_less_divisor order_less_le_trans)
  then have "1 < (parent_of e ^^ (k mod i)) pid" using assms(1) by (simp add: descends_def list_all_iff)
  ultimately show False by simp
qed

lemma ancestry_loop_chain:
  assumes "proc_stable e" "cache_visited cache visited" "descends e pid k" "\<forall>i \<le> k. (parent_of e ^^ i) pid \<notin> set visited"
  shows "\<exists>n'. ancestry_loop e left pid visited d cache n anc =
    (anc @ map (\<lambda>i. fst (ancestor_object e ((parent_of e ^^ i) pid) (d + i - 1) 0)) [1..<Suc (min k left)],
     (parent_of e ^^ min k left) pid, d + min k left, n')"
  using assms(2-)
proof (induction left arbitrary: pid visited d cache n anc k)
  case (Suc left)
  obtain cache1 where c: "cache_visited cache1 (pid # visited)"
    and t: "ancestry_loop e (Suc left) pid visited d cache n anc =
       (let p = fst (readProcParentPid e pid n) in
        if \<not> pid > 1 \<or> pid \<in> set visited then (anc, pid, d, n)
        else if \<not> p > 0 \<or> p = pid then (anc, pid, d, n + 3)
        else ancestry_loop e left p (pid # visited) (d + 1) cache1 (n + 6) (anc @ [fst (ancestor_object e p d (n + 3))]))"
    by (rule ancestry_turn [OF Suc.prems(1)])
  show ?case
  proof (cases k)
    case 0
    then have "pid = 1" using Suc.prems(2) by (simp add: descends_def)
    then show ?thesis unfolding t by (simp add: 0)
  next
    case (Suc k')
    let ?p = "parent_of e pid"
    have pid: "pid > 1" "descends e ?p k'" using Suc.prems(2) by (simp_all add: Suc descends_Suc)
    have pos: "?p > 0" using pid(2) by (cases k') (simp add: descends_def, simp add: descends_Suc)
    have new: "(parent_of e ^^ i) ?p \<noteq> pid \<and> (parent_of e ^^ i) ?p \<notin> set visited" if "i \<le> k'" for i
      using descends_no_return [OF Suc.prems(2) pid(1), of "Suc i"] Suc.prems(3) that by (simp add: Suc funpow_swap1) (metis Suc_le_mono funpow_step)
    have t2: "ancestry_loop e (Suc left) pid visited d cache n anc =
       ancestry_loop e left ?p (pid # visited) (d + 1) cache1 (n + 6) (anc @ [fst (ancestor_object e ?p d 0)])"
      unfolding t Let_def stable_reads(1) [OF assms(1)] stable_reads(2) [OF assms(1), of _ _ "n + 3"]
      using pid(1) pos new [of 0] Suc.prems(3) [rule_format, of 0] by simp
    have "\<forall>i \<le> k'. (parent_of e ^^ i) ?p \<notin> set (pid # visited)" using new by auto
    from Suc.IH [OF c pid(2) this, of "d + 1" "n + 6" "anc @ [fst (ancestor_object e ?p d 0)]"] obtain n' where
      "ancestry_loop e (Suc left) pid visited d cache n anc =
        ((anc @ [fst (ancestor_object e ?p d 0)]) @ map (\<lambda>i. fst (ancestor_object e ((parent_of e ^^ i) ?p) (d + 1 + i - 1) 0)) [1..<Suc (min k' left)],
         (parent_of e ^^ min k' left) ?p, d + 1 + min k' left, n')" unfolding t2 by blast
    then show ?thesis
      by (auto simp: Suc funpow_swap1 upt_conv_Cons map_Suc_upt [symmetric] comp_def simp del: upt_Suc)
  qed
qed auto

section \<open>Reading of the parent\<close>

text \<open>
  A line of \<open>/proc/<pid>/stat\<close>: the process, its name in parentheses, a letter for its state, its parent, and more fields,
  of which the last one may end in a line feed.
\<close>

definition stat_line :: "int \<Rightarrow> string \<Rightarrow> char \<Rightarrow> int \<Rightarrow> string list \<Rightarrow> string" where
  "stat_line pid name st ppid rest = join_with ([to_string_int pid, ''('' @ name @ '')'', [st], to_string_int ppid] @ rest) '' ''"

definition stat_token :: "string \<Rightarrow> bool" where
  "stat_token s \<longleftrightarrow> s \<noteq> [] \<and> CHR '' '' \<notin> set s"

lemma osq_split_tokens:
  assumes "boost_ok bo" "list_all stat_token xs" "xs \<noteq> []"
  shows "osq_split bo (join_with xs '' '') '' '' = map strip_spaces xs"
proof -
  have "tokens (\<lambda>c. c = CHR '' '') (join_with xs '' '') = xs"
    using assms(2,3) by (intro tokens_join) (auto simp: list_all_iff stat_token_def)
  moreover have "filter (\<lambda>t. t \<noteq> []) xs = xs" using assms(2) by (auto simp: list_all_iff stat_token_def filter_id_conv)
  moreover have "bo_trim bo = strip_spaces" using assms(1) by (auto simp: boost_ok_def)
  ultimately show ?thesis using assms(1) by (simp add: osq_split_def boost_ok_def)
qed

lemma nat_digits_plain: "c \<in> set (nat_digits n) \<Longrightarrow> \<not> isspace c"
  by (auto dest: nat_digits_chars)

lemma to_string_int_plain: "c \<in> set (to_string_int i) \<Longrightarrow> \<not> isspace c"
  by (auto simp: to_string_int_def isspace_def [of "CHR ''-''"] dest: nat_digits_plain split: if_splits)

lemma to_string_int_token [simp]: "stat_token (to_string_int i)" "CHR '' '' \<notin> set (to_string_int i)" "to_string_int i \<noteq> []"
  "strip_spaces (to_string_int i) = to_string_int i"
proof -
  show s: "CHR '' '' \<notin> set (to_string_int i)" using to_string_int_plain [of "CHR '' ''" i] by (auto simp: isspace_def)
  show e: "to_string_int i \<noteq> []" by (simp add: to_string_int_def)
  show "stat_token (to_string_int i)" using s e by (simp add: stat_token_def)
  show "strip_spaces (to_string_int i) = to_string_int i" using to_string_int_plain by (intro strip_spaces_plain) blast
qed

text \<open>The parent is the number at the front of the fourth word of the line.\<close>

lemma readProcParentPid_word:
  assumes "boost_ok (pe_boost e)" "pe_read e n (getProcAttr ''stat'' pid) = Some (join_with ws '' '')" "list_all stat_token ws" "4 \<le> length ws"
  shows "fst (readProcParentPid e pid n) = (case stoll 10 (strip_spaces (ws ! 3)) of Inr v \<Rightarrow> sint (word_of_int v :: u32) | Inl _ \<Rightarrow> 0)"
proof -
  have "ws \<noteq> []" using assms(4) by auto
  then show ?thesis using assms osq_split_tokens [OF assms(1,3)] by (simp add: readProcParentPid_def Let_def)
qed

lemma sint_u32: "- (2 ^ 31) \<le> i \<Longrightarrow> i < 2 ^ 31 \<Longrightarrow> sint (word_of_int i :: u32) = i"
  by (simp add: sint_sbintrunc' signed_take_bit_int_eq_self)

lemma stat_line_parent:
  assumes "boost_ok (pe_boost e)" "pe_read e n (getProcAttr ''stat'' pid) = Some (stat_line q name st ppid rest)"
    "list_all stat_token ([st] # rest)" "CHR '' '' \<notin> set name" "- (2 ^ 31) \<le> ppid" "ppid < 2 ^ 31"
  shows "fst (readProcParentPid e pid n) = ppid"
proof -
  have "list_all stat_token ([to_string_int q, ''('' @ name @ '')'', [st], to_string_int ppid] @ rest)"
    using assms(3,4) by (simp add: stat_token_def)
  from readProcParentPid_word [OF assms(1) assms(2) [unfolded stat_line_def] this] show ?thesis
    using assms(5,6) stosigned_to_string [of 64 ppid] by (simp add: stoll_def sint_u32)
qed

text \<open>
  A name with one blank puts the state where the parent is expected; a name of more words chooses the word that is taken
  for the parent.
\<close>

lemma strto_raw_letter: "digit_in_base 10 c = None \<Longrightarrow> strto_raw 10 [c] = None"
  by (auto simp: strto_raw_def strip_sign_def strip_prefix_def has_digit_def Let_def)

lemma strto_raw_forged: "strto_raw 10 (nat_digits m @ '')'' @ s) = Some (False, m)"
proof -
  obtain d cs where d: "nat_digits m = digit_char d # cs" "d < 10" using hd_nat_digits by blast
  have "digits_value 10 (nat_digits m @ '')'' @ s) 0 = m"
    using nat_digits_all_digits digits_value_nat_digits [of m] by (simp add: digits_value_append digit_in_base_def char_digit_def)
  then have v: "digits_value 10 (digit_char d # cs @ '')'' @ s) 0 = m" by (simp only: d(1) append_Cons)
  show ?thesis
    unfolding strto_raw_def d(1) Let_def using d(2) v
    by (simp add: strip_sign_def strip_prefix_def has_digit_def del: digits_value.simps)
qed

lemma one_blank_parent:
  assumes "boost_ok (pe_boost e)" "pe_read e n (getProcAttr ''stat'' pid) = Some (stat_line q (w @ '' '' @ v) st ppid rest)"
    "list_all stat_token rest" "CHR '' '' \<notin> set (w @ v)" "digit_in_base 10 st = None" "\<not> isspace st"
  shows "fst (readProcParentPid e pid n) = 0"
proof -
  let ?ws = "[to_string_int q, ''('' @ w, v @ '')'', [st], to_string_int ppid] @ rest"
  have eq: "stat_line q (w @ '' '' @ v) st ppid rest = join_with ?ws '' ''" by (cases rest) (simp_all add: stat_line_def)
  have "list_all stat_token ?ws" using assms(3,4,6) by (auto simp: stat_token_def isspace_def)
  from readProcParentPid_word [OF assms(1) assms(2) [unfolded eq] this] show ?thesis
    using assms(5,6) strip_spaces_plain [of "[st]"] by (simp add: stoll_def stosigned_def strto_raw_letter)
qed

lemma two_blanks_parent:
  assumes "boost_ok (pe_boost e)" "pe_read e n (getProcAttr ''stat'' pid) = Some (stat_line q (w @ '' '' @ v @ '' '' @ to_string_nat m) st ppid rest)"
    "list_all stat_token ([st] # rest)" "CHR '' '' \<notin> set (w @ v)" "v \<noteq> []" "m < 2 ^ 31"
  shows "fst (readProcParentPid e pid n) = int m"
proof -
  let ?ws = "[to_string_int q, ''('' @ w, v, to_string_nat m @ '')'', [st], to_string_int ppid] @ rest"
  have eq: "stat_line q (w @ '' '' @ v @ '' '' @ to_string_nat m) st ppid rest = join_with ?ws '' ''" by (cases rest) (simp_all add: stat_line_def)
  have digits: "c \<in> set (nat_digits m) \<Longrightarrow> \<not> isspace c" for c by (rule nat_digits_plain)
  have "CHR '' '' \<notin> set (nat_digits m)" using digits [of "CHR '' ''"] by (auto simp: isspace_def)
  then have "list_all stat_token ?ws" using assms(3-5) by (auto simp: stat_token_def to_string_nat_def)
  from readProcParentPid_word [OF assms(1) assms(2) [unfolded eq] this]
  have "fst (readProcParentPid e pid n) = (case stoll 10 (strip_spaces (nat_digits m @ '')'')) of Inr v \<Rightarrow> sint (word_of_int v :: u32) | Inl _ \<Rightarrow> 0)"
    by (simp add: to_string_nat_def)
  also have "strip_spaces (nat_digits m @ '')'') = nat_digits m @ '')''" using digits by (intro strip_spaces_plain) (auto simp: isspace_def)
  finally show ?thesis using strto_raw_forged [of m "[]"] assms(6) sint_u32 [of "int m"] by (simp add: stoll_def stosigned_def)
qed

section \<open>The ancestry of a process\<close>

lemma ancestry_members:
  "json_add_bool rj ''truncated'' b (json_add_ulong rj ''depth'' w (json_add rj ''ancestors'' a [])) =
     [(''ancestors'', a), (''depth'', JInt (uint w)), (''truncated'', JBool b)]"
  by (simp add: json_add_simps json_add_def HasMember_def FindMember_def)

lemma uint_depth: "k \<le> unat (w :: u32) \<Longrightarrow> uint (of_nat k :: u64) = int k"
proof -
  assume "k \<le> unat w"
  also have "unat w < 2 ^ 32" using unsigned_less [of w] by simp
  finally show ?thesis by (simp add: unsigned_of_nat take_bit_nat_eq_self)
qed

text \<open>
  Whatever the files of \<open>/proc\<close> hold and however they change during the walk, the ancestry of a process is one object with
  at most as many ancestors as the flag allows, as many as its depth says, marked as truncated only at the limit; and
  the walk reads exactly six files for each ancestor, and three more at most where it breaks off. The cache of the
  walk, which is there to spare reads, never does.
\<close>

theorem ancestry_bounded:
  "\<exists>k ancestors b. fst (ancestry_json e pid n) = JObject [(''ancestors'', JArray ancestors), (''depth'', JInt (int k)), (''truncated'', JBool b)] \<and>
     k \<le> unat (process_events_max_ancestry_depth e) \<and> length ancestors = k \<and>
     b \<in> {False, k = unat (process_events_max_ancestry_depth e)} \<and>
     snd (ancestry_json e pid n) \<in> {n + 6 * k, n + 6 * k + 3}"
proof -
  let ?m = "unat (process_events_max_ancestry_depth e)"
  obtain anc q d n1 where l: "ancestry_loop e ?m pid [] 0 [] n [] = (anc, q, d, n1)" by (metis prod_cases4)
  then obtain k where "k \<le> ?m" "d = k" "length anc = k" "n1 = n + 6 * k \<or> n1 = n + 6 * k + 3"
    using ancestry_loop_cost [of "[]" "[]" e ?m pid 0 n "[]"] by (auto simp: cache_visited_def)
  then show ?thesis by (auto simp: ancestry_json_def l ancestry_members uint_depth)
qed

text \<open>The chain of parents in the files: each process but the last has a line that names the next one as its parent.\<close>

fun parent_chain :: "proc_env \<Rightarrow> int \<Rightarrow> int list \<Rightarrow> bool" where
  "parent_chain e pid [] \<longleftrightarrow> pid = 1"
| "parent_chain e pid (q # qs) \<longleftrightarrow> pid > 1 \<and> q < 2 ^ 31 \<and>
     (\<exists>name st rest. pe_read e 0 (getProcAttr ''stat'' pid) = Some (stat_line pid name st q rest) \<and>
        list_all stat_token ([st] # rest) \<and> CHR '' '' \<notin> set name) \<and> parent_chain e q qs"

lemma parent_chain_pos: "parent_chain e pid qs \<Longrightarrow> pid > 0"
  by (cases qs) auto

lemma parent_chain_descends:
  "boost_ok (pe_boost e) \<Longrightarrow> parent_chain e pid qs \<Longrightarrow>
   descends e pid (length qs) \<and> map (\<lambda>i. (parent_of e ^^ i) pid) [1..<Suc (length qs)] = qs"
proof (induction qs arbitrary: pid)
  case (Cons q qs)
  then have q: "q > 0" using parent_chain_pos [of e q qs] by simp
  then have p: "parent_of e pid = q" using Cons.prems by (auto simp: parent_of_def intro!: stat_line_parent)
  have "descends e q (length qs)" "map (\<lambda>i. (parent_of e ^^ i) q) [1..<Suc (length qs)] = qs" using Cons by auto
  moreover have "map (\<lambda>i. (parent_of e ^^ i) pid) [1..<Suc (Suc (length qs))] = q # map (\<lambda>i. (parent_of e ^^ i) q) [1..<Suc (length qs)]"
    by (simp add: upt_conv_Cons map_Suc_upt [symmetric] comp_def funpow_swap1 p del: upt_Suc)
  ultimately show ?case using Cons.prems p by (simp add: descends_Suc del: upt_Suc)
qed (simp add: descends_def)

lemma ancestor_object_members:
  "fst (ancestor_object e q d 0) = JObject [(''pid'', JString (to_string_int q)), (''ppid'', JString (to_string_int (parent_of e q))),
     (''path'', JString (fst (readProcExePath e q 1))), (''cmdline'', JString (fst (readProcCmdline e q 2))),
     (''depth'', JString (to_string_nat (d + 1)))]"
  by (simp add: ancestor_object_def case_prod_unfold Let_def json_addCopy_def json_add_def HasMember_def FindMember_def parent_of_def numeral_2_eq_2)


text \<open>A shell started by a session, and a process with a blank in its name.\<close>

definition sample_proc :: "u32 \<Rightarrow> (string \<times> string) list \<Rightarrow> proc_env" where
  "sample_proc depth files =
     \<lparr>pe_audit = sample_audit, pe_boost = boost_ref, pe_rj = codec_rapidjson, pe_uptime = 5, pe_read = (\<lambda>_ path. map_of files path), pe_stat = (\<lambda>_. None),
      process_events_enable_ancestry = True, process_events_max_ancestry_depth = depth\<rparr>"

definition sample_files :: "(string \<times> string) list" where
  "sample_files =
     [(getProcAttr ''stat'' 30, stat_line 30 ''ls'' (CHR ''R'') 20 [''30'', ''0'']), (getProcAttr ''stat'' 20, stat_line 20 ''sh'' (CHR ''S'') 10 [''20'']),
      (getProcAttr ''stat'' 10, stat_line 10 ''sshd'' (CHR ''S'') 1 [''10'']), (getProcAttr ''stat'' 40, stat_line 40 ''tmux: server'' (CHR ''S'') 1 [''40'']),
      (getProcAttr ''stat'' 50, stat_line 50 ''a b 20'' (CHR ''S'') 40 [''50'']),
      (getProcAttr ''cmdline'' 20, ''sh'' @ [CHR 0x00] @ ''-i'' @ [CHR 0x00])]"

lemma sample_proc_stable: "proc_stable (sample_proc depth files)" "pe_boost (sample_proc depth files) = boost_ref"
  by (simp_all add: proc_stable_def sample_proc_def)

lemma sample_stat:
  "pe_read (sample_proc depth sample_files) n (getProcAttr ''stat'' 30) = Some (stat_line 30 ''ls'' (CHR ''R'') 20 [''30'', ''0''])"
  "pe_read (sample_proc depth sample_files) n (getProcAttr ''stat'' 20) = Some (stat_line 20 ''sh'' (CHR ''S'') 10 [''20''])"
  "pe_read (sample_proc depth sample_files) n (getProcAttr ''stat'' 10) = Some (stat_line 10 ''sshd'' (CHR ''S'') 1 [''10''])"
  "pe_read (sample_proc depth sample_files) n (getProcAttr ''stat'' 40) = Some (stat_line 40 (''tmux:'' @ '' '' @ ''server'') (CHR ''S'') 1 [''40''])"
  "pe_read (sample_proc depth sample_files) n (getProcAttr ''stat'' 50) = Some (stat_line 50 (''a'' @ '' '' @ ''b'' @ '' '' @ to_string_nat 20) (CHR ''S'') 40 [''50''])"
  by (simp_all add: sample_proc_def sample_files_def getProcAttr_def to_string_int_def to_string_nat_def nat_digits.simps digit_char_def char_of_def bit_0)


text \<open>
  The ancestry of a process with one blank in its name is empty and not marked as truncated, whatever its parents are: the
  line is split at blanks and the state of the process is read as its parent.
\<close>

theorem spaced_name_hides_ancestors:
  assumes "boost_ok (pe_boost e)" "pe_read e n (getProcAttr ''stat'' pid) = Some (stat_line pid (w @ '' '' @ v) st ppid rest)"
    "list_all stat_token rest" "CHR '' '' \<notin> set (w @ v)" "digit_in_base 10 st = None" "\<not> isspace st"
    "0 < process_events_max_ancestry_depth e"
  shows "fst (ancestry_json e pid n) = JObject [(''ancestors'', JArray []), (''depth'', JInt 0), (''truncated'', JBool False)]"
proof -
  obtain left where m: "unat (process_events_max_ancestry_depth e) = Suc left" using assms(7) by (metis not0_implies_Suc unat_eq_zero word_gt_0_no less_irrefl)
  have "ancestry_loop e (Suc left) pid [] 0 [] n [] \<in> {([], pid, 0, n), ([], pid, 0, n + 3)}"
    by (rule ancestry_turn [of "[]" "[]" pid e left 0 n "[]"]) (auto simp: cache_visited_def one_blank_parent [OF assms(1-6)])
  then show ?thesis by (auto simp: ancestry_json_def m ancestry_members)
qed

theorem spaced_name_hides_ancestors_witness:
  "fst (ancestry_json (sample_proc 10 sample_files) 40 0) = JObject [(''ancestors'', JArray []), (''depth'', JInt 0), (''truncated'', JBool False)]"
  by (rule spaced_name_hides_ancestors [OF _ sample_stat(4)])
    (simp_all add: sample_proc_stable stat_token_def digit_in_base_def char_digit_def isspace_def sample_proc_def)

text \<open>
  A process chooses the parent it is shown with: if its name has two blanks and ends in a number, that number is read as its
  parent.
\<close>

theorem forged_name_sets_parent:
  assumes "boost_ok (pe_boost e)" "pe_read e n (getProcAttr ''stat'' pid) = Some (stat_line pid (w @ '' '' @ v @ '' '' @ to_string_nat m) st ppid rest)"
    "list_all stat_token ([st] # rest)" "CHR '' '' \<notin> set (w @ v)" "v \<noteq> []" "m < 2 ^ 31"
  shows "fst (readProcParentPid e pid n) = int m"
  by (rule two_blanks_parent [OF assms])

theorem forged_name_sets_parent_witness: "fst (readProcParentPid (sample_proc 10 sample_files) 50 0) = 20"
  using forged_name_sets_parent [OF _ sample_stat(5), of 10 0] by (simp add: sample_proc_stable stat_token_def)

section \<open>The command line\<close>

text \<open>The fields of an \<open>EXECVE\<close> record as the kernel writes them and the parser takes them up one by one.\<close>

definition argument_field :: "nat \<Rightarrow> string" where
  "argument_field i = CHR ''a'' # to_string_nat i"

definition execve_fields :: "string list \<Rightarrow> field_map" where
  "execve_fields ys = fold (\<lambda>(k, v). om_emplace k v) ((''argc'', to_string_nat (length ys)) # map (\<lambda>i. (argument_field i, ys ! i)) [0..<length ys]) []"

text \<open>The numbers of the arguments in the order of their decimal texts.\<close>

definition text_order :: "nat \<Rightarrow> nat list" where
  "text_order n = sort_key to_string_nat [0..<n]"

lemma to_string_nat_inject [simp]: "to_string_nat i = to_string_nat j \<longleftrightarrow> i = j"
  by (metis digits_value_nat_digits to_string_nat_def)

lemma argument_field_distinct [simp]: "argument_field i = argument_field j \<longleftrightarrow> i = j" "argument_field i \<noteq> ''argc''"
proof -
  show "argument_field i = argument_field j \<longleftrightarrow> i = j" by (simp add: argument_field_def)
  have "CHR ''r'' \<notin> set (nat_digits i)" using nat_digits_all_digits [of i] by (auto simp: digit_in_base_def char_digit_def)
  then show "argument_field i \<noteq> ''argc''" by (auto simp: argument_field_def to_string_nat_def)
qed

lemma om_emplace_fold:
  assumes "om_wf m" "distinct (map fst kvs)" "fst ` set kvs \<inter> fst ` set m = {}"
  shows "om_wf (fold (\<lambda>(k, v). om_emplace k v) kvs m) \<and> set (fold (\<lambda>(k, v). om_emplace k v) kvs m) = set m \<union> set kvs"
  using assms
proof (induction kvs arbitrary: m)
  case (Cons kv kvs)
  obtain k v where kv: "kv = (k, v)" by force
  have new: "k \<notin> fst ` set m" using Cons.prems(3) by (auto simp: kv)
  then have e: "om_emplace k v m = om_set k v m" by (simp add: om_emplace_def om_has_def om_get_None_iff [symmetric])
  have s: "set (om_set k v m) = insert (k, v) (set m)"
    using new Cons.prems(1) by (auto simp: om_get_mem [OF om_wf_set [OF Cons.prems(1)], symmetric] om_get_mem [OF Cons.prems(1), symmetric] om_get_None_iff [symmetric] split: if_splits)
  have "fst ` set kvs \<inter> fst ` set (om_set k v m) = {}" using Cons.prems(2,3) by (auto simp: kv om_set_keys_set)
  then show ?case using Cons.IH [of "om_set k v m"] Cons.prems(1,2) by (simp add: kv e s) 
qed simp

lemma execve_fields_wf: "om_wf (execve_fields ys)"
  and execve_fields_set: "set (execve_fields ys) = insert (''argc'', to_string_nat (length ys)) ((\<lambda>i. (argument_field i, ys ! i)) ` {..<length ys})"
proof -
  let ?kvs = "(''argc'', to_string_nat (length ys)) # map (\<lambda>i. (argument_field i, ys ! i)) [0..<length ys]"
  have "distinct (map fst ?kvs)" by (auto simp: comp_def distinct_map inj_on_def argument_field_distinct(2) [symmetric] simp del: argument_field_distinct(2))
  from om_emplace_fold [OF om_wf_Nil this]
  show "om_wf (execve_fields ys)" "set (execve_fields ys) = insert (''argc'', to_string_nat (length ys)) ((\<lambda>i. (argument_field i, ys ! i)) ` {..<length ys})"
    by (auto simp: execve_fields_def simp del: fold_simps)
qed

lemma text_order_set [simp]: "set (text_order n) = {..<n}"
  by (auto simp: text_order_def)

lemma text_order_sorted: "sorted_wrt (\<lambda>i j. to_string_nat i < to_string_nat j) (text_order n)"
proof -
  have "distinct (map to_string_nat (text_order n))" by (simp add: text_order_def distinct_map inj_on_def)
  then have "sorted_wrt (<) (map to_string_nat (text_order n))" by (simp add: strict_sorted_iff text_order_def)
  then show ?thesis by (simp add: sorted_wrt_map)
qed

lemma execve_fields_arguments:
  "filter (\<lambda>(k, v). k \<noteq> ''argc'') (execve_fields ys) = map (\<lambda>i. (argument_field i, ys ! i)) (text_order (length ys))" (is "?l = ?r")
proof (rule om_eqI)
  show l: "om_wf ?l" using execve_fields_wf [of ys] by (rule om_wf_filter)
  show r: "om_wf ?r" using text_order_sorted [of "length ys"] by (simp add: om_wf_def sorted_wrt_map argument_field_def)
  have "set ?l = set ?r" by (auto simp: execve_fields_set)
  then have "om_get ?l k = Some v \<longleftrightarrow> om_get ?r k = Some v" for k v by (simp only: om_get_mem [OF l] om_get_mem [OF r])
  then show "om_get ?l k = om_get ?r k" for k by (rule option_eqI)
qed

lemma fold_words:
  assumes "list_all (\<lambda>kv. f (snd kv) \<noteq> []) kvs"
  shows "fold (\<lambda>(k, v) s. (if s \<noteq> [] then s @ '' '' else s) @ f v) kvs s = join_with ((if s = [] then [] else [s]) @ map (f \<circ> snd) kvs) '' ''"
  using assms
proof (induction kvs arbitrary: s)
  case (Cons kv kvs)
  obtain k v where kv: "kv = (k, v)" by force
  have "f v \<noteq> []" using Cons.prems by (simp add: kv)
  then show ?case using Cons.IH [of "(if s \<noteq> [] then s @ '' '' else s) @ f v"] Cons.prems by (cases kvs) (simp_all add: kv)
qed simp

lemma execve_cmdline_filter:
  "execve_cmdline e fs = fold (\<lambda>(k, v) s. (if s \<noteq> [] then s @ '' '' else s) @ DecodeAuditPathValues e v) (filter (\<lambda>(k, v). k \<noteq> ''argc'') fs) []"
proof -
  have "fold (\<lambda>(name, v) cmdline. if name = ''argc'' then cmdline else (if cmdline \<noteq> [] then cmdline @ '' '' else cmdline) @ DecodeAuditPathValues e v) fs s =
    fold (\<lambda>(k, v) s. (if s \<noteq> [] then s @ '' '' else s) @ DecodeAuditPathValues e v) (filter (\<lambda>(k, v). k \<noteq> ''argc'') fs) s" for s
    by (induction fs arbitrary: s) (auto simp del: append_is_Nil_conv)
  then show ?thesis by (simp only: execve_cmdline_def)
qed

lemma execve_cmdline_order:
  assumes "list_all (\<lambda>y. DecodeAuditPathValues e y \<noteq> []) ys"
  shows "execve_cmdline e (execve_fields ys) = join_with (map (\<lambda>i. DecodeAuditPathValues e (ys ! i)) (text_order (length ys))) '' ''"
proof -
  have "list_all (\<lambda>kv. DecodeAuditPathValues e (snd kv) \<noteq> []) (map (\<lambda>i. (argument_field i, ys ! i)) (text_order (length ys)))"
    using assms by (auto simp: list_all_iff)
  from fold_words [OF this, of "[]"] show ?thesis by (simp add: execve_cmdline_filter execve_fields_arguments comp_def)
qed

lemma text_order_digits: "n \<le> 10 \<Longrightarrow> text_order n = [0..<n]"
proof -
  assume n: "n \<le> 10"
  have less: "to_string_nat i < to_string_nat j" if "i < j" "j < 10" for i j
    using that by (simp add: to_string_nat_def nat_digits.simps less_char_def of_char_digit_char)
  have "sorted_wrt (\<lambda>i j. to_string_nat i < to_string_nat j) [0..<n]"
    using n less by (auto simp: sorted_wrt_iff_nth_less)
  then have "sorted (map to_string_nat [0..<n])" by (auto simp: sorted_wrt_map elim: sorted_wrt_mono_rel [rotated])
  then show ?thesis unfolding text_order_def by (rule sort_key_id_if_sorted)
qed

text \<open>
  The command line of an \<open>execve\<close> is made of its arguments, decoded and separated by blanks, in the order of the decimal
  texts of their numbers; up to ten arguments this is the order in which the program got them.
\<close>

theorem execve_cmdline_joined:
  assumes "list_all (\<lambda>y. DecodeAuditPathValues e y \<noteq> []) ys"
  shows "execve_cmdline e (execve_fields ys) = join_with (map (\<lambda>i. DecodeAuditPathValues e (ys ! i)) (text_order (length ys))) '' '' \<and>
    (length ys \<le> 10 \<longrightarrow> execve_cmdline e (execve_fields ys) = join_with (map (DecodeAuditPathValues e) ys) '' '')"
proof (intro conjI impI)
  show "execve_cmdline e (execve_fields ys) = join_with (map (\<lambda>i. DecodeAuditPathValues e (ys ! i)) (text_order (length ys))) '' ''"
    by (rule execve_cmdline_order [OF assms])
  assume "length ys \<le> 10"
  then have "map (\<lambda>i. DecodeAuditPathValues e (ys ! i)) (text_order (length ys)) = map (DecodeAuditPathValues e) ys"
    by (auto simp: text_order_digits intro!: nth_equalityI)
  then show "execve_cmdline e (execve_fields ys) = join_with (map (DecodeAuditPathValues e) ys) '' ''"
    by (simp add: execve_cmdline_order [OF assms])
qed

theorem execve_cmdline_joined_witness:
  "execve_cmdline sample_audit (execve_fields [''tar'', ''xf'', ''a.tar'']) = ''tar xf a.tar''"
  using execve_cmdline_joined [of sample_audit "[''tar'', ''xf'', ''a.tar'']", THEN conjunct2, THEN mp] by (simp add: DecodeAuditPathValues_def sample_audit_def)

text \<open>With eleven arguments the last one comes third.\<close>

lemma eleven_arguments_reordered:
  assumes "list_all (\<lambda>y. DecodeAuditPathValues e y \<noteq> []) ys" "length ys = 11"
  shows "execve_cmdline e (execve_fields ys) = join_with (map (\<lambda>i. DecodeAuditPathValues e (ys ! i)) [0, 1, 10, 2, 3, 4, 5, 6, 7, 8, 9]) '' ''"
proof -
  have "text_order 11 = [0, 1, 10, 2, 3, 4, 5, 6, 7, 8, 9]" by code_simp
  then show ?thesis using execve_cmdline_order [OF assms(1)] assms(2) by simp
qed

section \<open>The rows of process\_events\<close>

definition kEveryColumn :: "string set" where
  "kEveryColumn = {''uptime'', ''auid'', ''uid'', ''euid'', ''fsuid'', ''suid'', ''gid'', ''egid'', ''fsgid'', ''sgid'', ''syscall'', ''path'', ''parent'', ''pid'',
     ''ancestry'', ''overflows'', ''env'', ''env_size'', ''env_count''}"

definition kExecColumns :: "string set" where
  "kExecColumns = {''cwd'', ''cmdline'', ''cmdline_size'', ''mode'', ''owner_uid'', ''owner_gid''}"

definition kKillColumns :: "string set" where
  "kKillColumns = {''tty'', ''ses'', ''comm'', ''ocomm'', ''oses'', ''oauid''}"

definition row_columns :: "Row \<Rightarrow> string set" where
  "row_columns row = fst ` set row"

lemma row_columns_set [simp]: "row_columns (om_set k v row) = insert k (row_columns row)"
  by (simp add: row_columns_def om_set_keys_set)

lemma row_columns_copy [simp]: "row_columns (CopyFieldFromMap row fs k d) = insert k (row_columns row)"
  by (simp add: CopyFieldFromMap_def)

lemma om_wf_copy [simp]: "om_wf row \<Longrightarrow> om_wf (CopyFieldFromMap row fs k d)"
  by (simp add: CopyFieldFromMap_def)

lemma id_columns_row:
  "om_wf row \<Longrightarrow> om_wf (id_columns p q a row)"
  "row_columns (id_columns p q a row) = {''parent'', ''pid'', ''ancestry'', ''overflows'', ''env'', ''env_size'', ''env_count''} \<union> row_columns row"
  by (auto simp: id_columns_def)

lemma row_columns_Nil [simp]: "row_columns [] = {}"
  by (simp add: row_columns_def)

lemma basic_row_columns: "om_wf (basic_row e nr fs)" "row_columns (id_columns p q a (basic_row e nr fs)) = kEveryColumn"
proof -
  show "om_wf (basic_row e nr fs)" by (simp add: basic_row_def copy_fields_def kBasicColumns_def del: om_set.simps)
  show "row_columns (id_columns p q a (basic_row e nr fs)) = kEveryColumn"
    by (simp add: id_columns_row(2) basic_row_def copy_fields_def kBasicColumns_def kEveryColumn_def del: om_set.simps) (simp only: insert_commute)
qed

definition process_row :: "Row \<Rightarrow> bool" where
  "process_row row \<longleftrightarrow> om_wf row \<and>
     row_columns row \<in> {kEveryColumn \<union> kExecColumns, kEveryColumn \<union> kKillColumns, kEveryColumn \<union> {''owner_uid'', ''owner_gid''}}"

lemma ProcessExecveEventData_row:
  assumes "ProcessExecveEventData e event row = (s, row')" "ok s" "om_wf row"
  shows "om_wf row' \<and> row_columns row' = row_columns row \<union> kExecColumns"
  using assms by (auto simp: ProcessExecveEventData_def Let_def kExecColumns_def split: option.splits)

lemma kill_fields_row: "om_wf row \<Longrightarrow> om_wf (kill_fields event r row) \<and> row_columns (kill_fields event r row) = row_columns row \<union> kKillColumns"
  by (auto simp: kill_fields_def Let_def copy_fields_def kKillColumns_def)

lemma row_kinds:
  fixes e p q a nr fs
  defines "row1 \<equiv> id_columns p q a (basic_row e nr fs)"
  shows "ok (fst (ProcessExecveEventData env event row1)) \<Longrightarrow> process_row (snd (ProcessExecveEventData env event row1))"
    "process_row (kill_fields event r row1)" "process_row (om_set ''owner_gid'' ''0'' (om_set ''owner_uid'' ''0'' row1))"
proof -
  have row1: "om_wf row1" "row_columns row1 = kEveryColumn" by (simp_all add: row1_def basic_row_columns id_columns_row(1))
  show "ok (fst (ProcessExecveEventData env event row1)) \<Longrightarrow> process_row (snd (ProcessExecveEventData env event row1))"
    using ProcessExecveEventData_row [of env event row1] row1 by (auto simp: process_row_def prod_eq_iff)
  show "process_row (kill_fields event r row1)" using kill_fields_row [OF row1(1)] row1(2) by (simp add: process_row_def)
  show "process_row (om_set ''owner_gid'' ''0'' (om_set ''owner_uid'' ''0'' row1))" using row1 by (simp add: process_row_def insert_commute)
qed

lemma process_event_row: "fst (process_event e event n) = Some row \<Longrightarrow> process_row row"
  by (auto simp: process_event_def Let_def case_prod_unfold row_kinds split: event_data.splits if_splits option.splits)

lemma AuditProcessEvents_rows: "list_all process_row (fst (AuditProcessEvents e events n))"
proof (induction events arbitrary: n)
  case (Cons event events)
  then show ?case
    by (auto simp: Let_def case_prod_unfold split: option.split intro: process_event_row)
qed simp

text \<open>A row as the callback stores it: the columns of its kind, three times, and mode and time of creation if the file was found.\<close>

definition stored_row :: "Row \<Rightarrow> bool" where
  "stored_row row \<longleftrightarrow> om_wf row \<and>
     row_columns row \<in> {kEveryColumn \<union> kind \<union> {''atime'', ''mtime'', ''ctime''} \<union> found |kind found.
       kind \<in> {kExecColumns, kKillColumns, {''owner_uid'', ''owner_gid''}} \<and> found \<in> {{}, {''mode'', ''btime''}}}"

lemma row_columns_get: "k \<in> row_columns row \<longleftrightarrow> (\<exists>v. om_get row k = Some v)"
  using om_get_None_iff [of row k] by (auto simp: row_columns_def)

lemma stat_columns_found: "pe_stat e (c_str path) = Some (mode, a, m, c) \<Longrightarrow> om_get row ''path'' = Some path \<Longrightarrow>
   \<exists>row'. stat_columns e row = Inr row' \<and> (om_wf row \<longrightarrow> om_wf row') \<and> row_columns row' = row_columns row \<union> {''atime'', ''mtime'', ''ctime''} \<union> {''mode'', ''btime''}"
proof -
  assume st: "pe_stat e (c_str path) = Some (mode, a, m, c)" and path: "om_get row ''path'' = Some path"
  let ?row1 = "case om_get row ''mode'' of Some m \<Rightarrow> if m = [] then om_set ''mode'' mode row else row | None \<Rightarrow> om_set ''mode'' mode row"
  have row1: "om_wf row \<longrightarrow> om_wf ?row1" "row_columns ?row1 = insert ''mode'' (row_columns row)"
    by (cases "om_get row ''mode''"; simp add: insert_absorb row_columns_get)+
  have "stat_columns e row = Inr (om_set ''ctime'' c (om_set ''mtime'' m (om_set ''atime'' a (om_set ''btime'' ''0'' ?row1))))"
    by (simp add: stat_columns_def row_at_def path st Let_def)
  moreover have "row_columns (om_set ''ctime'' c (om_set ''mtime'' m (om_set ''atime'' a (om_set ''btime'' ''0'' ?row1)))) =
      row_columns row \<union> {''atime'', ''mtime'', ''ctime''} \<union> {''mode'', ''btime''}"
    unfolding row_columns_set row1(2) by blast
  ultimately show ?thesis using row1(1) by (intro exI conjI) (assumption | simp)+
qed

lemma stat_columns_missing: "pe_stat e (c_str path) = None \<Longrightarrow> om_get row ''path'' = Some path \<Longrightarrow>
   \<exists>row'. stat_columns e row = Inr row' \<and> (om_wf row \<longrightarrow> om_wf row') \<and> row_columns row' = row_columns row \<union> {''atime'', ''mtime'', ''ctime''}"
  by (simp add: stat_columns_def row_at_def) blast

lemma stat_columns_row: "process_row row \<Longrightarrow> \<exists>row'. stat_columns e row = Inr row' \<and> stored_row row'"
proof -
  assume row: "process_row row"
  then have "kEveryColumn \<subseteq> row_columns row" by (auto simp: process_row_def)
  moreover have "''path'' \<in> kEveryColumn" by (simp add: kEveryColumn_def)
  ultimately have "''path'' \<in> row_columns row" by blast
  then obtain path where path: "om_get row ''path'' = Some path" by (auto simp: row_columns_get)
  have w: "om_wf row" using row by (simp add: process_row_def)
  obtain found row' where row': "found \<in> {{}, {''mode'', ''btime''}}" "stat_columns e row = Inr row'" "om_wf row'"
      "row_columns row' = row_columns row \<union> {''atime'', ''mtime'', ''ctime''} \<union> found"
  proof (cases "pe_stat e (c_str path)")
    case None
    from stat_columns_missing [OF this path] obtain r where "stat_columns e row = Inr r" "om_wf r" "row_columns r = row_columns row \<union> {''atime'', ''mtime'', ''ctime''}"
      using w by blast
    then show thesis by (intro that [of "{}" r]) simp_all
  next
    case (Some st)
    obtain mode a m c where "st = (mode, a, m, c)" by (metis prod_cases4)
    from stat_columns_found [OF Some [unfolded this] path] obtain r where "stat_columns e row = Inr r" "om_wf r"
        "row_columns r = row_columns row \<union> {''atime'', ''mtime'', ''ctime''} \<union> {''mode'', ''btime''}" using w by blast
    then show thesis by (intro that [of "{''mode'', ''btime''}" r]) simp_all
  qed
  obtain kind where kind: "kind \<in> {kExecColumns, kKillColumns, {''owner_uid'', ''owner_gid''}}" "row_columns row = kEveryColumn \<union> kind"
    using row unfolding process_row_def by blast
  then have "stored_row row'" unfolding stored_row_def mem_Collect_eq row'(4) kind(2) using row'(1,3) kind(1) by blast
  then show ?thesis using row'(2) by blast
qed


end
