(* ===== verification/SocketSafety.thy ===== *)
theory SocketSafety
  imports AncestrySafety
begin

text \<open>
  The addresses of \<open>socket_events\<close> (\<open>tables/events/linux/socket_events.cpp\<close>): the kernel writes the bytes of a socket
  address as hexadecimal digits; the table shows the address and the port they stand for.
\<close>

section \<open>Hexadecimal digits\<close>

type_synonym u8 = "8 word"
type_synonym u16 = "16 word"

definition hex_digit :: "nat \<Rightarrow> char" where
  "hex_digit n = (if n < 10 then char_of (48 + n) else char_of (55 + n))"

definition hex_byte :: "nat \<Rightarrow> string" where
  "hex_byte n = [hex_digit (n div 16), hex_digit (n mod 16)]"

definition hex_word :: "u16 \<Rightarrow> string" where
  "hex_word w = hex_byte (unat w div 256) @ hex_byte (unat w mod 256)"

lemma of_char_hex_digit: "n < 16 \<Longrightarrow> of_char (hex_digit n) = (if n < 10 then 48 + n else 55 + n :: nat)"
  by (auto simp: hex_digit_def of_char_of)

lemma hex_digit_value [simp]: "n < 16 \<Longrightarrow> digit_in_base 16 (hex_digit n) = Some n"
  by (auto simp: digit_in_base_def char_digit_def of_char_hex_digit Let_def)

lemma hex_digit_plain:
  assumes "n < 16"
  shows "\<not> isspace (hex_digit n)" "hex_digit n \<noteq> CHR ''-''" "hex_digit n \<noteq> CHR ''+''" "hex_digit n \<noteq> CHR ''x''" "hex_digit n \<noteq> CHR ''X''"
  using of_char_hex_digit [OF assms] isspace_of_char [of "hex_digit n"] assms by (auto split: if_splits)

lemma hex_number_digits:
  assumes "ns = m # k # l" "list_all (\<lambda>n. n < 16) ns" "length ns \<le> 15"
  shows "hex_number (map hex_digit ns) = int (fold (\<lambda>n acc. acc * 16 + n) ns 0)"
proof -
  have v: "digits_value 16 (map hex_digit ns) acc = fold (\<lambda>n acc. acc * 16 + n) ns acc" for acc
    using assms(2) by (induction ns arbitrary: acc) auto
  have b: "fold (\<lambda>n acc. acc * 16 + n) ns acc < (acc + 1) * 16 ^ length ns" for acc
    using assms(2)
  proof (induction ns arbitrary: acc)
    case (Cons n ns)
    then have "fold (\<lambda>n acc. acc * 16 + n) ns (acc * 16 + n) < (acc * 16 + n + 1) * 16 ^ length ns" by simp
    also have "\<dots> \<le> ((acc + 1) * 16) * 16 ^ length ns" using Cons.prems by (intro mult_right_mono) auto
    finally show ?case by (simp add: algebra_simps)
  qed simp
  have v0: "digits_value 16 (hex_digit m # hex_digit k # map hex_digit l) 0 = fold (\<lambda>n acc. acc * 16 + n) l (m * 16 + k)"
    using v [of 0] by (simp add: assms(1) del: digits_value.simps)
  have "strto_raw 16 (map hex_digit ns) = Some (False, fold (\<lambda>n acc. acc * 16 + n) ns 0)"
    using assms(1,2) hex_digit_plain [of m] hex_digit_plain [of k]
    by (simp add: strto_raw_def strip_sign_def strip_prefix_def has_digit_def Let_def v0 del: digits_value.simps)
  moreover have "fold (\<lambda>n acc. acc * 16 + n) ns 0 < 2 ^ 63"
  proof -
    have "fold (\<lambda>n acc. acc * 16 + n) ns 0 < 16 ^ length ns" using b [of 0] by simp
    also have "(16 :: nat) ^ length ns \<le> 16 ^ 15" by (rule power_increasing) (use assms(3) in auto)
    finally show ?thesis by simp
  qed
  ultimately show ?thesis by (simp add: hex_number_def stoll_def stosigned_def Let_def)
qed

lemma hex_byte_digits: "hex_byte n = map hex_digit [n div 16, n mod 16]"
  by (simp add: hex_byte_def)

lemma byte_digits: "unat (b :: u8) div 16 < 16" "unat b mod 16 < 16" "unat b < 256"
proof -
  show "unat b < 256" using unsigned_less [of b, where 'a = nat] by simp
  then show "unat b div 16 < 16" "unat b mod 16 < 16" by auto
qed

lemma word_digits: "unat (w :: u16) div 256 div 16 < 16" "unat w div 256 mod 16 < 16" "unat w mod 256 div 16 < 16" "unat w mod 256 mod 16 < 16"
proof -
  have "unat w < 65536" using unsigned_less [of w, where 'a = nat] by simp
  then show "unat w div 256 div 16 < 16" "unat w div 256 mod 16 < 16" "unat w mod 256 div 16 < 16" "unat w mod 256 mod 16 < 16" by auto
qed

lemma hex_number_word: "hex_number (hex_word w) = int (unat w)"
proof -
  let ?n = "unat w"
  have "hex_number (map hex_digit [?n div 256 div 16, ?n div 256 mod 16, ?n mod 256 div 16, ?n mod 256 mod 16]) =
      int (fold (\<lambda>n acc. acc * 16 + n) [?n div 256 div 16, ?n div 256 mod 16, ?n mod 256 div 16, ?n mod 256 mod 16] 0)"
    using word_digits [of w] by (intro hex_number_digits) auto
  also have "map hex_digit [?n div 256 div 16, ?n div 256 mod 16, ?n mod 256 div 16, ?n mod 256 mod 16] = hex_word w"
    by (simp add: hex_word_def hex_byte_def)
  finally show ?thesis by simp
qed

definition ip4_number :: "u8 \<Rightarrow> u8 \<Rightarrow> u8 \<Rightarrow> u8 \<Rightarrow> nat" where
  "ip4_number a b c d = ((unat a * 256 + unat b) * 256 + unat c) * 256 + unat d"

lemma hex_number_ip4:
  "hex_number (hex_byte (unat a) @ hex_byte (unat b) @ hex_byte (unat c) @ hex_byte (unat d)) = int (ip4_number a b c d)"
proof -
  let ?ns = "concat (map (\<lambda>n. [n div 16, n mod 16]) [unat a, unat b, unat c, unat d])"
  have "hex_number (map hex_digit ?ns) = int (fold (\<lambda>n acc. acc * 16 + n) ?ns 0)"
    using byte_digits [of a] byte_digits [of b] byte_digits [of c] byte_digits [of d] by (intro hex_number_digits) auto
  moreover have "map hex_digit ?ns = hex_byte (unat a) @ hex_byte (unat b) @ hex_byte (unat c) @ hex_byte (unat d)" by (simp add: hex_byte_def)
  ultimately show ?thesis by (simp add: ip4_number_def)
qed

lemma ip4_octet:
  "unat (and (drop_bit k (word_of_nat n :: u64)) 0xff) = n div 2 ^ k mod 256" if "n < 2 ^ 32"
proof -
  have "(0xff :: u64) = mask 8" by (simp add: mask_eq_exp_minus_1)
  then have m: "and (drop_bit k (word_of_nat n :: u64)) 0xff = take_bit 8 (drop_bit k (word_of_nat n))" by (simp only: take_bit_eq_mask)
  have n: "unat (word_of_nat n :: u64) = n" "take_bit 64 n = n" using that by (simp_all add: unsigned_of_nat take_bit_nat_eq_self)
  have "unat (take_bit 8 (drop_bit k (word_of_nat n :: u64))) = take_bit 8 (drop_bit k n)"
    using n by (simp only: unsigned_take_bit_eq unsigned_drop_bit_eq) simp
  then show ?thesis unfolding m by (simp add: drop_bit_eq_div [of k n] take_bit_eq_mod [of 8 "n div 2 ^ k"])
qed

lemma byte_step: "y < 256 \<Longrightarrow> (x * 256 + y) div 256 = x" "y < 256 \<Longrightarrow> (x * 256 + y) mod 256 = y" for x y :: nat
  by simp_all

lemma ip4_octets:
  "ip4_number a b c d < 2 ^ 32" "ip4_number a b c d div 2 ^ 24 mod 256 = unat a" "ip4_number a b c d div 2 ^ 16 mod 256 = unat b"
  "ip4_number a b c d div 2 ^ 8 mod 256 = unat c" "ip4_number a b c d div 2 ^ 0 mod 256 = unat d"
proof -
  note bytes = byte_digits(3) [of a] byte_digits(3) [of b] byte_digits(3) [of c] byte_digits(3) [of d]
  have d: "n div 2 ^ 24 = n div 256 div 256 div 256" "n div 2 ^ 16 = n div 256 div 256" "n div 2 ^ 8 = n div 256" for n :: nat
    by (simp_all add: div_mult2_eq [symmetric])
  show "ip4_number a b c d < 2 ^ 32" using bytes by (simp add: ip4_number_def)
  show "ip4_number a b c d div 2 ^ 24 mod 256 = unat a" "ip4_number a b c d div 2 ^ 16 mod 256 = unat b"
    "ip4_number a b c d div 2 ^ 8 mod 256 = unat c"
    using bytes by (simp_all only: ip4_number_def d byte_step) simp_all
  show "ip4_number a b c d div 2 ^ 0 mod 256 = unat d" using bytes by (simp only: ip4_number_def power_0 div_by_1 byte_step)
qed

section \<open>Addresses\<close>

text \<open>The dotted form of an IPv4 address, and the printed form of the port.\<close>

definition dotted_quad :: "u8 \<Rightarrow> u8 \<Rightarrow> u8 \<Rightarrow> u8 \<Rightarrow> string" where
  "dotted_quad a b c d = join_with (map (\<lambda>x. to_string_nat (unat x)) [a, b, c, d]) ''.''"

lemma ip4FromSaddr_bytes:
  assumes "length p = n"
  shows "ip4FromSaddr (p @ hex_byte (unat a) @ hex_byte (unat b) @ hex_byte (unat c) @ hex_byte (unat d) @ rest) n = Inr (dotted_quad a b c d)"
proof -
  let ?s = "hex_byte (unat a) @ hex_byte (unat b) @ hex_byte (unat c) @ hex_byte (unat d)"
  have "length ?s = 8" by (simp add: hex_byte_def)
  then have s: "view_substr (p @ ?s @ rest) n 8 = Inr ?s" using assms by (simp add: view_substr_def)
  have oct: "to_string_u64 (and (drop_bit k (word_of_int (hex_number ?s))) 0xff) = nat_digits (ip4_number a b c d div 2 ^ k mod 256)" for k
    unfolding hex_number_ip4 to_string_u64_def of_int_of_nat_eq by (simp only: ip4_octet [OF ip4_octets(1)])
  show ?thesis
    using s unfolding ip4FromSaddr_def by (simp only: append_assoc exn_bind.simps Let_def oct ip4_octets)
      (simp add: dotted_quad_def to_string_nat_def)
qed

text \<open>The sockets of the kernel: family, port and address, and for IPv6 the flow between them.\<close>

definition saddr_ipv4 :: "u16 \<Rightarrow> u8 \<Rightarrow> u8 \<Rightarrow> u8 \<Rightarrow> u8 \<Rightarrow> string \<Rightarrow> string" where
  "saddr_ipv4 port a b c d rest = ''0200'' @ hex_word port @ hex_byte (unat a) @ hex_byte (unat b) @ hex_byte (unat c) @ hex_byte (unat d) @ rest"

definition saddr_ipv6 :: "u16 \<Rightarrow> u16 \<Rightarrow> u16 \<Rightarrow> u16 list \<Rightarrow> string \<Rightarrow> string" where
  "saddr_ipv6 port f g groups rest = ''0A00'' @ hex_word port @ hex_word f @ hex_word g @ concat (map hex_word groups) @ rest"

lemma length_hex_word [simp]: "length (hex_word w) = 4"
  by (simp add: hex_word_def hex_byte_def)

lemma view_substr_mid: "length p = n \<Longrightarrow> length s = k \<Longrightarrow> view_substr (p @ s @ rest) n k = Inr s"
  by (simp add: view_substr_def)

lemma ip6_groups_words:
  assumes "length p = 16" "length ws = 8"
  shows "ip6_groups (p @ concat (map hex_word ws) @ rest) [0..<8] = Inr (join_with (map hex_word ws) '':'')"
proof -
  obtain w0 w1 w2 w3 w4 w5 w6 w7 where ws: "ws = [w0, w1, w2, w3, w4, w5, w6, w7]"
    using assms(2) by (auto simp: numeral_eq_Suc length_Suc_conv)
  have g: "view_substr (p @ concat (map hex_word ws) @ rest) (16 + i * 4) 4 = Inr (hex_word (ws ! i))" if "i < 8" for i
  proof -
    have l: "length (concat (map hex_word (take i ws))) = i * 4" using that assms(2) by (simp add: length_concat comp_def sum_list_triv)
    have "concat (map hex_word ws) = concat (map hex_word (take i ws)) @ hex_word (ws ! i) @ concat (map hex_word (drop (Suc i) ws))"
      using that assms(2) by (metis concat.simps(2) concat_append id_take_nth_drop list.simps(9) map_append)
    then have "p @ concat (map hex_word ws) @ rest = (p @ concat (map hex_word (take i ws))) @ hex_word (ws ! i) @ concat (map hex_word (drop (Suc i) ws)) @ rest" by simp
    then show ?thesis using l assms(1) by (simp only:) (intro view_substr_mid, simp_all)
  qed
  have r: "[0..<8] = [0, 1, 2, 3, 4, 5, 6, 7 :: nat]" by (simp add: upt_conv_Cons)
  show ?thesis
    using g [of 0] g [of 1] g [of 2] g [of 3] g [of 4] g [of 5] g [of 6] g [of 7]
    unfolding r ip6_groups.simps by (simp only: exn_bind.simps) (simp add: ws)
qed

text \<open>
  C27. An address that the kernel reports for a call of \<open>bind\<close>, \<open>connect\<close> or \<open>accept\<close> is shown as it is: family, port and the
  dotted form of an IPv4 address, or the eight groups of an IPv6 address in small letters; in the local columns for
  \<open>bind\<close> and in the remote ones otherwise, whatever follows the address.
\<close>

theorem socket_address_decoded:
  "parseSockAddr e (saddr_ipv4 port a b c d rest) row =
     Inr (True, om_set (if om_get row ''action'' = Some ''bind'' then ''local_address'' else ''remote_address'') (dotted_quad a b c d)
       (om_set (if om_get row ''action'' = Some ''bind'' then ''local_port'' else ''remote_port'') (to_string_int (uint port)) (om_set ''family'' ''2'' row)), False) \<and>
   parseSockAddr e (saddr_ipv6 port f g [w0, w1, w2, w3, w4, w5, w6, w7] rest) row =
     Inr (True, om_set (if om_get row ''action'' = Some ''bind'' then ''local_address'' else ''remote_address'')
         (map tolower (join_with (map hex_word [w0, w1, w2, w3, w4, w5, w6, w7]) '':''))
       (om_set (if om_get row ''action'' = Some ''bind'' then ''local_port'' else ''remote_port'') (to_string_int (uint port)) (om_set ''family'' ''10'' row)), False)"
proof
  let ?s4 = "saddr_ipv4 port a b c d rest" and ?s6 = "saddr_ipv6 port f g [w0, w1, w2, w3, w4, w5, w6, w7] rest"
  have "view_substr ?s4 4 4 = Inr (hex_word port)" "ip4FromSaddr ?s4 8 = Inr (dotted_quad a b c d)" "?s4 ! 0 = CHR ''0''" "?s4 ! 1 = CHR ''2''"
    using view_substr_mid [of "''0200''" 4 "hex_word port" 4] ip4FromSaddr_bytes [of "''0200'' @ hex_word port" 8 a b c d rest]
    by (simp_all add: saddr_ipv4_def)
  then show "parseSockAddr e ?s4 row =
     Inr (True, om_set (if om_get row ''action'' = Some ''bind'' then ''local_address'' else ''remote_address'') (dotted_quad a b c d)
       (om_set (if om_get row ''action'' = Some ''bind'' then ''local_port'' else ''remote_port'') (to_string_int (uint port)) (om_set ''family'' ''2'' row)), False)"
    by (simp only: parseSockAddr_def Let_def exn_bind.simps hex_number_word of_nat_unat) simp
  have "view_substr ?s6 4 4 = Inr (hex_word port)" "?s6 ! 0 = CHR ''0''" "?s6 ! 1 = CHR ''A''"
      "ip6_groups ?s6 [0..<8] = Inr (join_with (map hex_word [w0, w1, w2, w3, w4, w5, w6, w7]) '':'')"
    using view_substr_mid [of "''0A00''" 4 "hex_word port" 4] ip6_groups_words [of "''0A00'' @ hex_word port @ hex_word f @ hex_word g" "[w0, w1, w2, w3, w4, w5, w6, w7]" rest]
    by (simp_all add: saddr_ipv6_def)
  then show "parseSockAddr e ?s6 row =
     Inr (True, om_set (if om_get row ''action'' = Some ''bind'' then ''local_address'' else ''remote_address'')
         (map tolower (join_with (map hex_word [w0, w1, w2, w3, w4, w5, w6, w7]) '':''))
       (om_set (if om_get row ''action'' = Some ''bind'' then ''local_port'' else ''remote_port'') (to_string_int (uint port)) (om_set ''family'' ''10'' row)), False)"
    by (simp only: parseSockAddr_def Let_def exn_bind.simps hex_number_word of_nat_unat) simp
qed

end
