(* ===== verification/Dispatching.thy ===== *)
theory Dispatching
  imports Results
begin

text \<open>
  The threads of services: \<open>dispatcher/dispatcher.cpp\<close> and \<open>dispatcher.h\<close>. A service is a runnable, known by a number; its
  thread enters \<open>run\<close>, executes the service's own \<open>start\<close>, and removes the service from the dispatcher. An operation
  under the dispatcher's lock is one step; a wait is a step that is not possible yet.
\<close>

section \<open>Runnables\<close>

text \<open>\<open>stops\<close> counts the calls of the virtual \<open>stop\<close>, \<open>notified\<close> those of \<open>notify_one\<close>.\<close>

record InternalRunnable =
  runnable_name :: string
  has_run :: bool
  is_interrupted :: bool
  stops :: nat
  notified :: nat

definition InternalRunnable_new :: "string \<Rightarrow> InternalRunnable" where
  "InternalRunnable_new name = \<lparr>runnable_name = name, has_run = False, is_interrupted = False, stops = 0, notified = 0\<rparr>"

definition interrupt :: "InternalRunnable \<Rightarrow> InternalRunnable" where
  "interrupt r = (if \<not> is_interrupted r then r\<lparr>is_interrupted := True, stops := stops r + 1, notified := notified r + 1\<rparr> else r)"

text \<open>Whether \<open>pause\<close> waits at all: it looks at the flag under the lock that \<open>interrupt\<close> notifies under.\<close>

definition pause_waits :: "InternalRunnable \<Rightarrow> bool" where
  "pause_waits r \<longleftrightarrow> \<not> is_interrupted r"

section \<open>The dispatcher\<close>

text \<open>
  A thread is created with its service and goes through its phases: in \<open>start\<close>, back from it, and ended, when it has
  removed the service. \<open>joiner\<close> is the thread in \<open>joinServices\<close>.
\<close>

datatype phase = Created | Started | Returned | Ended

datatype joiner = Idle | Next | Waiting nat | Joined

record Dispatcher =
  service_threads :: "nat list"
  services :: "nat list"
  stopping :: bool

record dispatch_world =
  dw_dispatcher :: Dispatcher
  dw_runnable :: "nat \<Rightarrow> InternalRunnable"
  dw_threads :: "(nat \<times> phase) list"
  dw_joiner :: joiner

definition Dispatcher_new :: Dispatcher where
  "Dispatcher_new = \<lparr>service_threads = [], services = [], stopping = False\<rparr>"

definition serviceCount :: "Dispatcher \<Rightarrow> nat" where
  "serviceCount d = length (services d)"

definition resetStopping :: "Dispatcher \<Rightarrow> Dispatcher" where
  "resetStopping d = d\<lparr>stopping := False\<rparr>"

definition addService :: "nat \<Rightarrow> dispatch_world \<Rightarrow> Status \<times> dispatch_world" where
  "addService service w =
     (let d = dw_dispatcher w in
      if has_run (dw_runnable w service) then (Status_msg 1 ''Cannot schedule a service twice'', w)
      else if stopping d then (Status_msg 1 ''Cannot add service, dispatcher is stopping'', w)
      else (success, w\<lparr>dw_threads := dw_threads w @ [(service, Created)],
              dw_dispatcher := d\<lparr>service_threads := service_threads d @ [length (dw_threads w)], services := services d @ [service]\<rparr>\<rparr>))"

definition removeService :: "nat \<Rightarrow> Dispatcher \<Rightarrow> Dispatcher" where
  "removeService service d = d\<lparr>services := filter (\<lambda>target. target \<noteq> service) (services d)\<rparr>"

text \<open>The three parts of \<open>run\<close> around the service's \<open>start\<close>.\<close>

definition run_enter :: "nat \<Rightarrow> dispatch_world \<Rightarrow> dispatch_world" where
  "run_enter t w =
     (let service = fst (dw_threads w ! t)
      in w\<lparr>dw_threads := (dw_threads w)[t := (service, Started)],
           dw_runnable := (dw_runnable w)(service := (dw_runnable w service)\<lparr>has_run := True\<rparr>)\<rparr>)"

definition run_return :: "nat \<Rightarrow> dispatch_world \<Rightarrow> dispatch_world" where
  "run_return t w = w\<lparr>dw_threads := (dw_threads w)[t := (fst (dw_threads w ! t), Returned)]\<rparr>"

definition run_leave :: "nat \<Rightarrow> dispatch_world \<Rightarrow> dispatch_world" where
  "run_leave t w =
     (let service = fst (dw_threads w ! t)
      in w\<lparr>dw_threads := (dw_threads w)[t := (service, Ended)], dw_dispatcher := removeService service (dw_dispatcher w)\<rparr>)"

text \<open>\<open>assureRun\<close> waits for every service before it is interrupted.\<close>

definition assureRun :: "dispatch_world \<Rightarrow> bool" where
  "assureRun w \<longleftrightarrow> list_all (\<lambda>s. has_run (dw_runnable w s)) (services (dw_dispatcher w))"

definition stopServices :: "dispatch_world \<Rightarrow> dispatch_world" where
  "stopServices w =
     (let d = dw_dispatcher w
      in w\<lparr>dw_dispatcher := d\<lparr>stopping := True\<rparr>,
           dw_runnable := fold (\<lambda>s rs. rs(s := interrupt (rs s))) (services d) (dw_runnable w)\<rparr>)"

text \<open>A turn of the loop of \<open>joinServices\<close> up to the join, and the end of the join.\<close>

definition join_turn :: "dispatch_world \<Rightarrow> dispatch_world" where
  "join_turn w =
     (let d = dw_dispatcher w in
      if service_threads d \<noteq> []
      then w\<lparr>dw_joiner := Waiting (last (service_threads d)), dw_dispatcher := d\<lparr>service_threads := butlast (service_threads d)\<rparr>\<rparr>
      else w\<lparr>dw_joiner := Joined, dw_dispatcher := d\<lparr>services := []\<rparr>\<rparr>)"

definition join_end :: "dispatch_world \<Rightarrow> dispatch_world" where
  "join_end w = w\<lparr>dw_joiner := Next\<rparr>"

definition phase_of :: "dispatch_world \<Rightarrow> nat \<Rightarrow> phase" where
  "phase_of w t = snd (dw_threads w ! t)"

section \<open>Steps\<close>

text \<open>
  What the threads and the joiner do by themselves. \<open>ret\<close> says when the \<open>start\<close> of a service may return: at any time, or
  when it is interrupted.
\<close>

inductive thread_step :: "(dispatch_world \<Rightarrow> nat \<Rightarrow> bool) \<Rightarrow> dispatch_world \<Rightarrow> dispatch_world \<Rightarrow> bool" for ret where
  enters: "t < length (dw_threads w) \<Longrightarrow> phase_of w t = Created \<Longrightarrow> thread_step ret w (run_enter t w)"
| returns: "t < length (dw_threads w) \<Longrightarrow> phase_of w t = Started \<Longrightarrow> ret w (fst (dw_threads w ! t)) \<Longrightarrow> thread_step ret w (run_return t w)"
| leaves: "t < length (dw_threads w) \<Longrightarrow> phase_of w t = Returned \<Longrightarrow> thread_step ret w (run_leave t w)"
| turns: "dw_joiner w = Next \<Longrightarrow> thread_step ret w (join_turn w)"
| joins: "dw_joiner w = Waiting t \<Longrightarrow> phase_of w t = Ended \<Longrightarrow> thread_step ret w (join_end w)"

text \<open>The worlds that are reached when services are added, stopped and joined at any time.\<close>

inductive dispatch_reach :: "(nat \<Rightarrow> string) \<Rightarrow> dispatch_world \<Rightarrow> bool" for names where
  begins: "dispatch_reach names \<lparr>dw_dispatcher = Dispatcher_new, dw_runnable = (\<lambda>s. InternalRunnable_new (names s)), dw_threads = [], dw_joiner = Idle\<rparr>"
| adds: "dispatch_reach names w \<Longrightarrow> dispatch_reach names (snd (addService s w))"
| steps: "dispatch_reach names w \<Longrightarrow> thread_step (\<lambda>_ _. True) w w' \<Longrightarrow> dispatch_reach names w'"
| stops: "dispatch_reach names w \<Longrightarrow> assureRun w \<Longrightarrow> dispatch_reach names (stopServices w)"
| asks: "dispatch_reach names w \<Longrightarrow> dw_joiner w = Idle \<or> dw_joiner w = Joined \<Longrightarrow> dispatch_reach names (w\<lparr>dw_joiner := Next\<rparr>)"

lemmas dispatch_defs = addService_def removeService_def run_enter_def run_return_def run_leave_def stopServices_def join_turn_def join_end_def Let_def

section \<open>Invariants\<close>

definition live :: "dispatch_world \<Rightarrow> nat set" where
  "live w = {s. \<exists>p. (s, p) \<in> set (dw_threads w) \<and> p \<noteq> Ended}"

definition waits_for :: "dispatch_world \<Rightarrow> nat set" where
  "waits_for w = set (service_threads (dw_dispatcher w)) \<union> (case dw_joiner w of Waiting t \<Rightarrow> {t} | _ \<Rightarrow> {})"

text \<open>
  Every thread that has not ended is still to be joined; a service is registered exactly as long as its thread has not
  ended, and once the dispatcher is stopping it is interrupted.
\<close>

definition dispatch_inv :: "dispatch_world \<Rightarrow> bool" where
  "dispatch_inv w \<longleftrightarrow>
     set (services (dw_dispatcher w)) = live w \<and>
     waits_for w \<subseteq> {..<length (dw_threads w)} \<and>
     (\<forall>t < length (dw_threads w). phase_of w t \<noteq> Ended \<longrightarrow> t \<in> waits_for w) \<and>
     (\<forall>s p. (s, p) \<in> set (dw_threads w) \<longrightarrow> p \<noteq> Created \<longrightarrow> has_run (dw_runnable w s)) \<and>
     (stopping (dw_dispatcher w) \<longrightarrow> (\<forall>s \<in> live w. is_interrupted (dw_runnable w s)))"

abbreviation once :: "dispatch_world \<Rightarrow> bool" where
  "once w \<equiv> distinct (map fst (dw_threads w))"

lemma update_other: "s \<noteq> fst (ths ! t) \<Longrightarrow> (s, q) \<in> set (ths[t := (fst (ths ! t), p)]) \<longleftrightarrow> (s, q) \<in> set ths"
proof (cases "t < length ths")
  case True
  assume "s \<noteq> fst (ths ! t)"
  then have "(ths[t := (fst (ths ! t), p)]) ! i = (s, q) \<longleftrightarrow> ths ! i = (s, q)" for i
    using True by (cases "i = t") (auto simp: prod_eq_iff)
  then show ?thesis by (simp add: in_set_conv_nth)
qed (simp add: list_update_beyond)

lemma update_same:
  assumes "distinct (map fst ths)" "t < length ths"
  shows "(fst (ths ! t), q) \<in> set (ths[t := (fst (ths ! t), p)]) \<longleftrightarrow> q = p" "(fst (ths ! t), q) \<in> set ths \<longleftrightarrow> q = snd (ths ! t)"
proof -
  have u: "i = t" if "i < length ths" "fst (ths ! i) = fst (ths ! t)" for i
    using assms that by (metis length_map nth_eq_iff_index_eq nth_map)
  show "(fst (ths ! t), q) \<in> set (ths[t := (fst (ths ! t), p)]) \<longleftrightarrow> q = p"
    using assms(2) u by (force simp: in_set_conv_nth nth_list_update)
  show "(fst (ths ! t), q) \<in> set ths \<longleftrightarrow> q = snd (ths ! t)"
    using assms(2) u by (metis in_set_conv_nth prod.collapse fst_conv snd_conv)
qed

lemma map_fst_update [simp]: "map fst (ths[t := (fst (ths ! t), p)]) = map fst ths"
  by (metis fst_conv list_update_beyond list_update_id map_update not_le nth_map)

text \<open>A thread that changes its phase, with everything else as it is.\<close>

lemma live_phase:
  assumes "once w" "t < length (dw_threads w)"
  shows "live (w\<lparr>dw_threads := (dw_threads w)[t := (fst (dw_threads w ! t), p)]\<rparr>) =
    (if p = Ended then live w - {fst (dw_threads w ! t)} else insert (fst (dw_threads w ! t)) (live w))"
proof (rule set_eqI)
  let ?ths = "dw_threads w"
  fix s show "s \<in> live (w\<lparr>dw_threads := ?ths[t := (fst (?ths ! t), p)]\<rparr>) \<longleftrightarrow> s \<in> (if p = Ended then live w - {fst (?ths ! t)} else insert (fst (?ths ! t)) (live w))"
    using update_other [of s ?ths t _ p] update_same(1) [OF assms, of _ p] by (cases "s = fst (?ths ! t)") (auto simp: live_def)
qed

lemma live_thread: "t < length (dw_threads w) \<Longrightarrow> phase_of w t \<noteq> Ended \<Longrightarrow> fst (dw_threads w ! t) \<in> live w"
  unfolding live_def phase_of_def by (metis (mono_tags, lifting) mem_Collect_eq nth_mem prod.collapse)

lemma phase_of_update: "t < length (dw_threads w) \<Longrightarrow> phase_of (w\<lparr>dw_threads := (dw_threads w)[t := (s, p)]\<rparr>) u = (if u = t then p else phase_of w u)"
  by (auto simp: phase_of_def nth_list_update)

lemma threads_update:
  assumes "once w" "t < length (dw_threads w)" "(s, q) \<in> set ((dw_threads w)[t := (fst (dw_threads w ! t), p)])"
  shows "s = fst (dw_threads w ! t) \<and> q = p \<or> s \<noteq> fst (dw_threads w ! t) \<and> (s, q) \<in> set (dw_threads w)"
  using assms update_other [of s "dw_threads w" t q p] update_same(1) [OF assms(1,2), of q p] by metis

lemma interrupt_simps [simp]: "is_interrupted (interrupt r)" "has_run (interrupt r) = has_run r"
  by (simp_all add: interrupt_def)

lemma fold_interrupt:
  "is_interrupted (fold (\<lambda>s rs. rs(s := interrupt (rs s))) ss rs s) \<longleftrightarrow> s \<in> set ss \<or> is_interrupted (rs s)"
  "has_run (fold (\<lambda>s rs. rs(s := interrupt (rs s))) ss rs s) = has_run (rs s)"
  by (induction ss arbitrary: rs) auto

section \<open>Every operation keeps the invariant\<close>

lemma addService_inv:
  assumes "dispatch_inv w" "once (snd (addService s w))"
  shows "dispatch_inv (snd (addService s w))"
proof (cases "has_run (dw_runnable w s) \<or> stopping (dw_dispatcher w)")
  case False
  let ?w = "snd (addService s w)"
  have l: "live ?w = insert s (live w)" using False by (auto simp: addService_def Let_def live_def)
  have p: "phase_of ?w t = (if t < length (dw_threads w) then phase_of w t else Created)" if "t < length (dw_threads ?w)" for t
    using False that by (auto simp: addService_def Let_def phase_of_def nth_append)
  have v: "waits_for ?w = insert (length (dw_threads w)) (waits_for w)" using False by (auto simp: addService_def Let_def waits_for_def)
  show ?thesis unfolding dispatch_inv_def
  proof (intro conjI)
    show "\<forall>t < length (dw_threads ?w). phase_of ?w t \<noteq> Ended \<longrightarrow> t \<in> waits_for ?w"
      using p v assms(1) False by (auto simp: dispatch_inv_def addService_def Let_def less_Suc_eq)
  qed (use assms(1) False l v in \<open>auto simp: dispatch_inv_def addService_def Let_def\<close>)
qed (use assms(1) in \<open>auto simp: addService_def Let_def\<close>)

lemma stopServices_inv: "dispatch_inv w \<Longrightarrow> dispatch_inv (stopServices w)"
  by (auto simp: dispatch_inv_def stopServices_def Let_def live_def waits_for_def phase_of_def fold_interrupt)

lemma join_turn_inv:
  assumes "dispatch_inv w" "dw_joiner w = Next"
  shows "dispatch_inv (join_turn w)"
proof (cases "service_threads (dw_dispatcher w) = []")
  case False
  have "set (service_threads (dw_dispatcher w)) = insert (last (service_threads (dw_dispatcher w))) (set (butlast (service_threads (dw_dispatcher w))))"
    using False by (metis append_butlast_last_id list.simps(15) rotate1.simps(2) set_rotate1)
  then have "waits_for (join_turn w) = waits_for w" using False assms(2) by (auto simp: join_turn_def Let_def waits_for_def)
  then show ?thesis using assms(1) False by (auto simp: dispatch_inv_def join_turn_def Let_def live_def phase_of_def)
next
  case True
  then have "live w = {}" using assms by (fastforce simp: dispatch_inv_def waits_for_def live_def phase_of_def in_set_conv_nth)
  then show ?thesis using assms True by (auto simp: dispatch_inv_def join_turn_def Let_def live_def waits_for_def phase_of_def)
qed

lemma join_end_inv: "dispatch_inv w \<Longrightarrow> dw_joiner w = Waiting t \<Longrightarrow> phase_of w t = Ended \<Longrightarrow> dispatch_inv (join_end w)"
  by (auto simp: dispatch_inv_def join_end_def live_def waits_for_def phase_of_def)

text \<open>The steps of \<open>run\<close> as a change of phase.\<close>

lemma phase_inv:
  assumes "dispatch_inv w" "once w" "t < length (dw_threads w)" "phase_of w t \<noteq> Ended"
    and w': "dw_threads w' = (dw_threads w)[t := (fst (dw_threads w ! t), p)]" "dw_joiner w' = dw_joiner w"
      "service_threads (dw_dispatcher w') = service_threads (dw_dispatcher w)" "stopping (dw_dispatcher w') = stopping (dw_dispatcher w)"
      "set (services (dw_dispatcher w')) = (if p = Ended then set (services (dw_dispatcher w)) - {fst (dw_threads w ! t)} else set (services (dw_dispatcher w)))"
      "\<And>s. is_interrupted (dw_runnable w' s) = is_interrupted (dw_runnable w s)" "\<And>s. has_run (dw_runnable w s) \<Longrightarrow> has_run (dw_runnable w' s)"
      "has_run (dw_runnable w' (fst (dw_threads w ! t)))"
  shows "dispatch_inv w'"
proof -
  let ?s = "fst (dw_threads w ! t)"
  have "live w' = live (w\<lparr>dw_threads := (dw_threads w)[t := (?s, p)]\<rparr>)" by (simp add: live_def w'(1))
  also have "\<dots> = (if p = Ended then live w - {?s} else live w)"
    using live_phase [OF assms(2,3), of p] live_thread [OF assms(3,4)] by (simp add: insert_absorb)
  finally have l: "live w' = (if p = Ended then live w - {?s} else live w)" .
  have ph: "phase_of w' u = (if u = t then p else phase_of w u)" for u
    using phase_of_update [OF assms(3), of ?s p u] by (simp add: phase_of_def w'(1))
  have v: "waits_for w' = waits_for w" by (simp add: waits_for_def w')
  show ?thesis unfolding dispatch_inv_def
  proof (intro conjI)
    show "\<forall>s q. (s, q) \<in> set (dw_threads w') \<longrightarrow> q \<noteq> Created \<longrightarrow> has_run (dw_runnable w' s)"
      using threads_update [OF assms(2,3)] assms(1) w'(7,8) unfolding w'(1) dispatch_inv_def by blast
    show "\<forall>u < length (dw_threads w'). phase_of w' u \<noteq> Ended \<longrightarrow> u \<in> waits_for w'"
      using assms(1,3,4) by (auto simp: dispatch_inv_def ph v w'(1))
  qed (use assms(1) in \<open>auto simp: dispatch_inv_def l v w' split: if_splits\<close>)
qed

lemma started_has_run:
  assumes "dispatch_inv w" "t < length (dw_threads w)" "phase_of w t \<noteq> Created"
  shows "has_run (dw_runnable w (fst (dw_threads w ! t)))"
proof -
  have "(fst (dw_threads w ! t), phase_of w t) \<in> set (dw_threads w)" using assms(2) by (simp add: phase_of_def)
  then show ?thesis using assms(1,3) unfolding dispatch_inv_def by blast
qed

lemma thread_step_inv:
  assumes "thread_step ret w w'" "dispatch_inv w" "once w"
  shows "dispatch_inv w'"
  using assms
proof cases
  case (enters t)
  show ?thesis by (rule phase_inv [OF assms(2,3) enters(2), of _ Started]) (use enters in \<open>simp_all add: run_enter_def Let_def\<close>)
next
  case (returns t)
  have "has_run (dw_runnable w (fst (dw_threads w ! t)))"
    using started_has_run [OF assms(2) returns(2)] returns(3) by simp
  then show ?thesis by (intro phase_inv [OF assms(2,3) returns(2), of _ Returned]) (use returns in \<open>simp_all add: run_return_def\<close>)
next
  case (leaves t)
  have "has_run (dw_runnable w (fst (dw_threads w ! t)))"
    using started_has_run [OF assms(2) leaves(2)] leaves(3) by simp
  then show ?thesis by (intro phase_inv [OF assms(2,3) leaves(2), of _ Ended]) (use leaves in \<open>auto simp: run_leave_def removeService_def Let_def\<close>)
next
  case turns
  then show ?thesis using join_turn_inv assms(2) by simp
next
  case (joins t)
  then show ?thesis using join_end_inv assms(2) by blast
qed

lemma thread_step_services: "thread_step ret w w' \<Longrightarrow> map fst (dw_threads w') = map fst (dw_threads w)"
  by (erule thread_step.cases) (simp_all add: dispatch_defs)

lemma once_before: "once (snd (addService s w)) \<Longrightarrow> once w"
  by (simp add: addService_def Let_def split: if_splits)

lemma dispatch_reach_inv: "dispatch_reach names w \<Longrightarrow> once w \<Longrightarrow> dispatch_inv w"
proof (induction rule: dispatch_reach.induct)
  case begins
  show ?case by (simp add: dispatch_inv_def Dispatcher_new_def live_def waits_for_def)
next
  case (adds w s)
  then show ?case using addService_inv once_before by blast
next
  case (steps w w')
  then show ?case using thread_step_inv thread_step_services by metis
next
  case (stops w)
  then show ?case using stopServices_inv by (simp add: stopServices_def Let_def)
next
  case (asks w)
  then show ?case by (auto simp: dispatch_inv_def live_def waits_for_def phase_of_def)
qed

lemma interrupts_keep: "(\<And>r. P r \<Longrightarrow> P (interrupt r)) \<Longrightarrow> P (rs s) \<Longrightarrow> P (fold (\<lambda>s rs. rs(s := interrupt (rs s))) ss rs s)"
proof (induction ss arbitrary: rs)
  case (Cons a ss)
  then show ?case using Cons.IH [of "rs(a := interrupt (rs a))"] by (cases "a = s") simp_all
qed simp

lemma stops_once: "dispatch_reach names w \<Longrightarrow> stops (dw_runnable w s) = (if is_interrupted (dw_runnable w s) then 1 else 0)"
proof (induction arbitrary: s rule: dispatch_reach.induct)
  case begins
  show ?case by (simp add: InternalRunnable_new_def)
next
  case (steps w w')
  from steps.hyps(2) show ?case using steps.IH by cases (simp_all add: dispatch_defs)
next
  case (stops w)
  have "stops (interrupt r) = (if is_interrupted (interrupt r) then 1 else 0)" if "stops r = (if is_interrupted r then 1 else 0)" for r
    using that by (simp add: interrupt_def)
  from interrupts_keep [of "\<lambda>r. stops r = (if is_interrupted r then 1 else 0)" "dw_runnable w" s, OF this stops.IH]
  show ?case unfolding stopServices_def Let_def by simp
qed (auto simp: addService_def Let_def)

section \<open>Properties\<close>

text \<open>
  C34. Whatever is added, stopped and joined, in whatever order the threads run: if no service is added twice, the registered
  services are exactly those whose threads have not ended; once the dispatcher is stopping each of them is interrupted,
  and \<open>stop\<close> is called once for a service that is interrupted and never for another one.
\<close>

theorem stopped_services_interrupted:
  assumes "dispatch_reach names w" "distinct (map fst (dw_threads w))"
  shows "set (services (dw_dispatcher w)) = {s. \<exists>p. (s, p) \<in> set (dw_threads w) \<and> p \<noteq> Ended} \<and>
    (stopping (dw_dispatcher w) \<longrightarrow> set (services (dw_dispatcher w)) \<subseteq> {s. is_interrupted (dw_runnable w s)}) \<and>
    stops (dw_runnable w s) = (if is_interrupted (dw_runnable w s) then 1 else 0)"
  using dispatch_reach_inv [OF assms] stops_once [OF assms(1), of s] by (auto simp: dispatch_inv_def live_def)

text \<open>Two services, one of which has ended when the dispatcher is stopped.\<close>

definition sample_dispatch :: dispatch_world where
  "sample_dispatch = stopServices (run_leave 0 (run_return 0 (run_enter 1 (run_enter 0 (snd (addService 8 (snd (addService 7
     \<lparr>dw_dispatcher = Dispatcher_new, dw_runnable = (\<lambda>s. InternalRunnable_new ''service''), dw_threads = [], dw_joiner = Idle\<rparr>))))))))"

lemma sample_dispatch_reach: "dispatch_reach (\<lambda>_. ''service'') sample_dispatch"
  unfolding sample_dispatch_def
  by (intro dispatch_reach.stops dispatch_reach.steps [OF _ thread_step.leaves] dispatch_reach.steps [OF _ thread_step.returns]
      dispatch_reach.steps [OF _ thread_step.enters] dispatch_reach.adds dispatch_reach.begins)
    (simp_all add: addService_def run_enter_def run_return_def run_leave_def removeService_def InternalRunnable_new_def Dispatcher_new_def assureRun_def phase_of_def Let_def)

lemma sample_dispatch_state:
  "dw_threads sample_dispatch = [(7, Ended), (8, Started)]" "services (dw_dispatcher sample_dispatch) = [8]" "stopping (dw_dispatcher sample_dispatch)"
  "service_threads (dw_dispatcher sample_dispatch) = [0, 1]" "dw_joiner sample_dispatch = Idle"
  by (simp_all add: sample_dispatch_def addService_def run_enter_def run_return_def run_leave_def removeService_def stopServices_def
      InternalRunnable_new_def Dispatcher_new_def Let_def)

theorem stopped_services_interrupted_witness: "is_interrupted (dw_runnable sample_dispatch 8) \<and> stops (dw_runnable sample_dispatch 8) = 1"
  using stopped_services_interrupted [OF sample_dispatch_reach, of 8] by (simp add: sample_dispatch_state)

fun phase_rank :: "phase \<Rightarrow> nat" where
  "phase_rank Created = 3"
| "phase_rank Started = 2"
| "phase_rank Returned = 1"
| "phase_rank Ended = 0"

definition steps_left :: "dispatch_world \<Rightarrow> nat" where
  "steps_left w = sum_list (map (phase_rank \<circ> snd) (dw_threads w)) + 2 * length (service_threads (dw_dispatcher w)) +
     (case dw_joiner w of Waiting _ \<Rightarrow> 2 | Next \<Rightarrow> 1 | _ \<Rightarrow> 0)"

lemma phase_sum:
  assumes "t < length ths" "phase_rank p < phase_rank (snd (ths ! t))"
  shows "sum_list (map (phase_rank \<circ> snd) (ths[t := (s, p)])) < sum_list (map (phase_rank \<circ> snd) ths)"
proof -
  have "sum_list (map (phase_rank \<circ> snd) (ths[t := (s, p)])) = sum_list (map (phase_rank \<circ> snd) ths) + phase_rank p - phase_rank (snd (ths ! t))"
    using assms(1) by (simp add: map_update sum_list_update)
  moreover have "phase_rank (snd (ths ! t)) \<le> sum_list (map (phase_rank \<circ> snd) ths)"
    using assms(1) by (intro member_le_sum_list) auto
  ultimately show ?thesis using assms(2) by linarith
qed

lemma thread_step_decreases: "thread_step ret w w' \<Longrightarrow> steps_left w' < steps_left w"
proof (erule thread_step.cases, goal_cases)
  case (1 t w)
  then show ?case using phase_sum [of t "dw_threads w" Started] by (simp add: steps_left_def run_enter_def phase_of_def Let_def)
next
  case (2 t w)
  then show ?case using phase_sum [of t "dw_threads w" Returned] by (simp add: steps_left_def run_return_def phase_of_def)
next
  case (3 t w)
  then show ?case using phase_sum [of t "dw_threads w" Ended] by (simp add: steps_left_def run_leave_def removeService_def phase_of_def Let_def)
next
  case (4 w)
  then show ?case by (cases "service_threads (dw_dispatcher w)" rule: rev_cases) (simp_all add: steps_left_def join_turn_def Let_def)
qed (simp add: steps_left_def join_end_def)

text \<open>What stays as it is while the threads run: a stopping dispatcher, interrupted services, the services of the threads.\<close>

lemma thread_step_frame:
  "thread_step ret w w' \<Longrightarrow> stopping (dw_dispatcher w') = stopping (dw_dispatcher w) \<and> (dw_joiner w \<noteq> Idle \<longrightarrow> dw_joiner w' \<noteq> Idle)"
  by (erule thread_step.cases) (auto simp: dispatch_defs)

text \<open>A thread that has not ended can go on in a stopping dispatcher, if services return when they are interrupted.\<close>

abbreviation returns_interrupted :: "dispatch_world \<Rightarrow> nat \<Rightarrow> bool" where
  "returns_interrupted w s \<equiv> is_interrupted (dw_runnable w s)"

lemma thread_goes_on:
  assumes "dispatch_inv w" "stopping (dw_dispatcher w)" "t < length (dw_threads w)" "phase_of w t \<noteq> Ended"
  shows "\<exists>w'. thread_step returns_interrupted w w'"
proof (cases "phase_of w t")
  case Started
  have "is_interrupted (dw_runnable w (fst (dw_threads w ! t)))"
    using assms live_thread [OF assms(3,4)] by (auto simp: dispatch_inv_def)
  then show ?thesis using thread_step.returns [OF assms(3) Started, of returns_interrupted] by blast
qed (use assms thread_step.enters thread_step.leaves in blast)+

lemma joiner_goes_on:
  assumes "dispatch_inv w" "stopping (dw_dispatcher w)" "dw_joiner w \<noteq> Idle" "\<And>w'. \<not> thread_step returns_interrupted w w'"
  shows "dw_joiner w = Joined \<and> live w = {}"
proof -
  have ended: "phase_of w t = Ended" if "t < length (dw_threads w)" for t using thread_goes_on [OF assms(1,2) that] assms(4) by blast
  then have "live w = {}" by (fastforce simp: live_def phase_of_def in_set_conv_nth)
  moreover have "dw_joiner w \<noteq> Next" using assms(4) thread_step.turns by blast
  moreover have "dw_joiner w \<noteq> Waiting t" for t
  proof
    assume j: "dw_joiner w = Waiting t"
    then have "t < length (dw_threads w)" using assms(1) by (auto simp: dispatch_inv_def waits_for_def)
    then show False using assms(4) thread_step.joins [OF j ended] by blast
  qed
  ultimately show ?thesis using assms(3) by (cases "dw_joiner w") auto
qed

lemma thread_steps_keep:
  assumes "(thread_step returns_interrupted ^^ n) w w'" "dispatch_inv w" "once w" "stopping (dw_dispatcher w)" "dw_joiner w \<noteq> Idle"
  shows "dispatch_inv w' \<and> once w' \<and> stopping (dw_dispatcher w') \<and> dw_joiner w' \<noteq> Idle \<and> n + steps_left w' \<le> steps_left w"
  using assms
proof (induction n arbitrary: w')
  case (Suc n)
  then obtain v where v: "(thread_step returns_interrupted ^^ n) w v" "thread_step returns_interrupted v w'" by auto
  then show ?case
    using Suc.IH [OF v(1) Suc.prems(2-)] thread_step_inv [OF v(2)] thread_step_services [OF v(2)] thread_step_frame [OF v(2)] thread_step_decreases [OF v(2)]
    by (metis add_Suc dual_order.trans less_eq_Suc_le add_Suc_right nat_add_left_cancel_le)
qed simp



text \<open>
  A service that is added twice before its first thread runs gets two threads; when one of them ends, the service is removed
  for both, and a stop does not interrupt the other: the join waits for a service that was never told to end.
\<close>

theorem twice_added_not_interrupted:
  "\<exists>w. dispatch_reach names w \<and> stopping (dw_dispatcher w) \<and> dw_threads w = [(s, Ended), (s, Started)] \<and>
     \<not> is_interrupted (dw_runnable w s) \<and> service_threads (dw_dispatcher w) = [0, 1]"
proof -
  let ?w0 = "\<lparr>dw_dispatcher = Dispatcher_new, dw_runnable = (\<lambda>s. InternalRunnable_new (names s)), dw_threads = [], dw_joiner = Idle\<rparr>"
  let ?w = "stopServices (run_leave 0 (run_return 0 (run_enter 1 (run_enter 0 (snd (addService s (snd (addService s ?w0))))))))"
  have "dispatch_reach names ?w"
    by (intro dispatch_reach.stops dispatch_reach.steps [OF _ thread_step.leaves] dispatch_reach.steps [OF _ thread_step.returns]
        dispatch_reach.steps [OF _ thread_step.enters] dispatch_reach.adds dispatch_reach.begins)
      (simp_all add: addService_def run_enter_def run_return_def run_leave_def removeService_def InternalRunnable_new_def Dispatcher_new_def assureRun_def phase_of_def Let_def)
  moreover have "stopping (dw_dispatcher ?w) \<and> dw_threads ?w = [(s, Ended), (s, Started)] \<and> \<not> is_interrupted (dw_runnable ?w s) \<and>
      service_threads (dw_dispatcher ?w) = [0, 1]"
    by (simp add: addService_def run_enter_def run_return_def run_leave_def removeService_def stopServices_def InternalRunnable_new_def Dispatcher_new_def Let_def)
  ultimately show ?thesis by blast
qed

end
