(* ===== verification/StatusLogs.thy ===== *)
theory StatusLogs
  imports BufferedLogs Tables Texts
begin

text \<open>
  The logger: \<open>logger/logger.cpp\<close> and \<open>core/plugins/logger.cpp\<close>. Status lines of the process are buffered in a sink until
  they are relayed, as JSON and through the registry, to the logger plugins that take them; results and snapshots go
  to the plugins one by one. What a plugin does with a line is a parameter. A relay in a thread of its own is a task
  that has not run yet.
\<close>

section \<open>Logger plugins\<close>

record 'l logger_ops =
  lo_logString :: "'l \<Rightarrow> string \<Rightarrow> Status \<times> 'l"
  lo_logStatus :: "'l \<Rightarrow> StatusLogLine list \<Rightarrow> Status \<times> 'l"
  lo_logSnapshot :: "'l \<Rightarrow> string \<Rightarrow> Status \<times> 'l"
  lo_logEvent :: "'l \<Rightarrow> string \<Rightarrow> Status \<times> 'l"
  lo_init :: "'l \<Rightarrow> string \<Rightarrow> StatusLogLine list \<Rightarrow> 'l"
  lo_usesLogStatus :: "'l \<Rightarrow> bool"
  lo_usesLogEvent :: "'l \<Rightarrow> bool"

record 'l LoggerPlugin =
  process_name :: string
  lp_state :: 'l

definition LOGGER_FEATURE_LOGSTATUS :: int where "LOGGER_FEATURE_LOGSTATUS = 1"
definition LOGGER_FEATURE_LOGEVENT :: int where "LOGGER_FEATURE_LOGEVENT = 2"

text \<open>\<open>GetInt\<close> of a value of another kind fails RapidJSON's assertion.\<close>

definition json_GetInt :: "json \<Rightarrow> int throwing" where
  "json_GetInt v =
     (case v of JInt i \<Rightarrow> if - (2 ^ 31) \<le> i \<and> i < 2 ^ 31 then Inr i else Inl (undefined_behaviour ''GetInt'')
      | _ \<Rightarrow> Inl (undefined_behaviour ''GetInt''))"

definition text_member :: "json \<Rightarrow> string \<Rightarrow> string throwing" where
  "text_member v k = exn_bind (json_member v k) json_GetString"

definition uint_member :: "json \<Rightarrow> string \<Rightarrow> u64 throwing" where
  "uint_member v k = exn_bind (json_member v k) json_GetUint64"

definition deserialize_line :: "json \<Rightarrow> StatusLogLine throwing" where
  "deserialize_line v =
     exn_bind (exn_bind (json_member v ''s'') json_GetInt) (\<lambda>s. exn_bind (text_member v ''f'') (\<lambda>f.
     exn_bind (uint_member v ''i'') (\<lambda>i. exn_bind (text_member v ''m'') (\<lambda>m. exn_bind (text_member v ''c'') (\<lambda>c.
     exn_bind (uint_member v ''u'') (\<lambda>u. exn_bind (text_member v ''h'') (\<lambda>h.
       Inr \<lparr>sl_severity = s, sl_filename = f, sl_line = i, sl_message = m, sl_calendar_time = c, sl_time = u, sl_identifier = h\<rparr>)))))))"

definition deserializeIntermediateLog :: "rapidjson \<Rightarrow> PluginRequest \<Rightarrow> StatusLogLine list \<Rightarrow> StatusLogLine list throwing" where
  "deserializeIntermediateLog rj request lines =
     (case om_get request ''log'' of
        None \<Rightarrow> Inr lines
      | Some s \<Rightarrow>
          (case rj_parse rj (c_str s) of
             None \<Rightarrow> Inr lines
           | Some doc \<Rightarrow> exn_bind (json_GetArray doc)
               (\<lambda>vs. exn_fold (\<lambda>v ls. exn_bind (deserialize_line v) (\<lambda>l. Inr (ls @ [l]))) vs lines)))"

text \<open>\<open>logStringBatch\<close> as the base class has it: the number of lines that were refused.\<close>

fun batch_strings :: "'l logger_ops \<Rightarrow> json list \<Rightarrow> nat \<Rightarrow> 'l \<Rightarrow> (nat \<times> 'l) throwing" where
  "batch_strings ops [] errors s = Inr (errors, s)"
| "batch_strings ops (v # vs) errors s =
     exn_bind (json_GetString v) (\<lambda>line.
       let (status, s1) = lo_logString ops s line in batch_strings ops vs (if \<not> ok status then errors + 1 else errors) s1)"

definition logStringBatch :: "rapidjson \<Rightarrow> 'l logger_ops \<Rightarrow> 'l \<Rightarrow> string \<Rightarrow> (Status \<times> 'l) throwing" where
  "logStringBatch rj ops s event_batch =
     (case rj_parse rj event_batch of
        None \<Rightarrow> Inr (failure ''Invalid event batch passed to logEventBatch'', s)
      | Some doc \<Rightarrow> exn_bind (json_GetArray doc) (\<lambda>vs. exn_bind (batch_strings ops vs 0 s) (\<lambda>(errors, s1).
          Inr (if errors \<noteq> 0 then failure (''logEventBatch has failed to log '' @ to_string_nat errors @ ''events'') else success, s1))))"

definition LoggerPlugin_call ::
  "rapidjson \<Rightarrow> 'l logger_ops \<Rightarrow> 'l LoggerPlugin \<Rightarrow> PluginRequest \<Rightarrow> PluginResponse \<Rightarrow> (Status \<times> PluginResponse \<times> 'l LoggerPlugin) throwing" where
  "LoggerPlugin_call rj ops p request response =
     (let done_with = (\<lambda>(status, s). (status, response, p\<lparr>lp_state := s\<rparr>)) in
      case om_get request ''string'' of Some line \<Rightarrow> Inr (done_with (lo_logString ops (lp_state p) line)) | None \<Rightarrow>
      case om_get request ''string_batch'' of Some b \<Rightarrow> exn_bind (logStringBatch rj ops (lp_state p) b) (\<lambda>r. Inr (done_with r)) | None \<Rightarrow>
      case om_get request ''snapshot'' of Some line \<Rightarrow> Inr (done_with (lo_logSnapshot ops (lp_state p) line)) | None \<Rightarrow>
      case om_get request ''init'' of Some name \<Rightarrow>
        exn_bind (deserializeIntermediateLog rj request []) (\<lambda>lines.
          Inr (Status_code 0, response, p\<lparr>process_name := name, lp_state := lo_init ops (lp_state p) name lines\<rparr>)) | None \<Rightarrow>
      case om_get request ''status'' of Some _ \<Rightarrow>
        exn_bind (deserializeIntermediateLog rj request []) (\<lambda>lines. Inr (done_with (lo_logStatus ops (lp_state p) lines))) | None \<Rightarrow>
      case om_get request ''event'' of Some line \<Rightarrow> Inr (done_with (lo_logEvent ops (lp_state p) line)) | None \<Rightarrow>
      if om_get request ''action'' = Some ''features''
      then Inr (Status_code ((if lo_usesLogStatus ops (lp_state p) then LOGGER_FEATURE_LOGSTATUS else 0) +
                             (if lo_usesLogEvent ops (lp_state p) then LOGGER_FEATURE_LOGEVENT else 0)), response, p)
      else Inr (Status_msg 1 ''Unsupported call to logger plugin'', response, p))"

section \<open>The sink\<close>

text \<open>
  What the logger reads: flags, the host identifier, whether the process is a daemon and whether its database is up.
\<close>

record 'l logger_env =
  lg_rj :: rapidjson
  lg_boost :: boost_lib
  lg_ops :: "'l logger_ops"
  lg_plugins :: "'l LoggerPlugin Plugin_ops"
  lg_registry :: registry_env
  lg_ignore :: bool
  lg_what :: "cpp_exn \<Rightarrow> string"
  lg_items :: log_env
  lg_identifier :: string
  lg_daemon :: bool
  lg_database :: bool
  disable_logging :: bool
  logger_status_sync :: bool
  logger_event_type :: bool
  logger_snapshot_event_type :: bool

record BufferedLogSink =
  sink_logs :: "StatusLogLine list"
  sink_enabled :: bool
  sinks :: "string list"

text \<open>The process: the sink, the registries, the loggers that events are forwarded to, and whether a relay is under way.\<close>

record 'l log_world =
  lw_sink :: BufferedLogSink
  lw_registry :: "'l LoggerPlugin RegistryFactory"
  lw_forwarders :: "string list"
  lw_sending :: bool

datatype LoggerRelayMode = Sync | Async

definition BufferedLogSink_new :: BufferedLogSink where
  "BufferedLogSink_new = \<lparr>sink_logs = [], sink_enabled = False, sinks = []\<rparr>"

definition sink_addPlugin :: "string \<Rightarrow> BufferedLogSink \<Rightarrow> BufferedLogSink" where
  "sink_addPlugin name b = b\<lparr>sinks := sinks b @ [name]\<rparr>"

definition sink_resetPlugins :: "BufferedLogSink \<Rightarrow> BufferedLogSink" where
  "sink_resetPlugins b = b\<lparr>sinks := []\<rparr>"

definition sink_enable :: "BufferedLogSink \<Rightarrow> BufferedLogSink" where
  "sink_enable b = b\<lparr>sink_enabled := True\<rparr>"

definition queuedStatuses :: "'l log_world \<Rightarrow> nat" where
  "queuedStatuses w = length (sink_logs (lw_sink w))"

definition intermediate_line :: "rapidjson \<Rightarrow> StatusLogLine \<Rightarrow> json" where
  "intermediate_line rj l =
     JObject (json_add_ulong rj ''u'' (sl_time l) (json_addRef rj ''c'' (sl_calendar_time l) (json_addRef rj ''h'' (sl_identifier l)
       (json_addRef rj ''m'' (sl_message l) (json_add_ulong rj ''i'' (sl_line l) (json_addRef rj ''f'' (sl_filename l)
       (json_add rj ''s'' (JInt (sl_severity l)) [])))))))"

definition serializeIntermediateLog :: "rapidjson \<Rightarrow> StatusLogLine list \<Rightarrow> PluginRequest \<Rightarrow> PluginRequest" where
  "serializeIntermediateLog rj lines request =
     om_set ''log'' (snd (json_toString rj (JArray (fold (\<lambda>l doc. json_push (intermediate_line rj l) doc) lines [])))) request"

definition rf_getActive :: "'p RegistryFactory \<Rightarrow> string \<Rightarrow> string throwing" where
  "rf_getActive f registry_name = exn_bind (rf_registry f registry_name) (\<lambda>r. Inr (active r))"

text \<open>The logger plugins: \<open>call\<close> is that of the base class, the other virtual methods are those of the plugin.\<close>

definition logger_plugins :: "'l logger_env \<Rightarrow> 'l LoggerPlugin Plugin_ops" where
  "logger_plugins e = (lg_plugins e)\<lparr>op_call := LoggerPlugin_call (lg_rj e) (lg_ops e)\<rparr>"

definition call_logger :: "'l logger_env \<Rightarrow> string \<Rightarrow> PluginRequest \<Rightarrow> 'l log_world \<Rightarrow> (Status \<times> 'l log_world) throwing" where
  "call_logger e logger request w =
     exn_bind (rf_call (lg_ignore e) (lg_what e) (logger_plugins e) (lg_registry e) ''logger'' logger request [] (lw_registry w))
       (\<lambda>(status, _, f). Inr (status, w\<lparr>lw_registry := f\<rparr>))"

text \<open>The task that relays what is buffered.\<close>

definition sender :: "'l logger_env \<Rightarrow> 'l log_world \<Rightarrow> 'l log_world throwing" where
  "sender e w =
     (let status_logs = sink_logs (lw_sink w) in
      if status_logs = [] then Inr w
      else let request = serializeIntermediateLog (lg_rj e) (map (\<lambda>l. l\<lparr>sl_identifier := lg_identifier e\<rparr>) status_logs) [(''status'', ''true'')];
               w1 = w\<lparr>lw_sink := (lw_sink w)\<lparr>sink_logs := []\<rparr>\<rparr>
           in exn_bind (rf_getActive (lw_registry w1) ''logger'') (\<lambda>logger_plugin.
                exn_fold (\<lambda>logger w. if logger \<in> set (sinks (lw_sink w)) then exn_bind (call_logger e logger request w) (\<lambda>(_, w'). Inr w') else Inr w)
                  (osq_split (lg_boost e) logger_plugin '','') w1))"

definition waitLogRelay :: "'l logger_env \<Rightarrow> 'l log_world \<Rightarrow> 'l log_world throwing" where
  "waitLogRelay e w = (if lw_sending w then exn_bind (sender e w) (\<lambda>w'. Inr (w'\<lparr>lw_sending := False\<rparr>)) else Inr w)"

definition relayStatusLogs :: "'l logger_env \<Rightarrow> LoggerRelayMode \<Rightarrow> 'l log_world \<Rightarrow> 'l log_world throwing" where
  "relayStatusLogs e mode w =
     (if disable_logging e \<or> \<not> lg_database e then Inr w
      else if sink_logs (lw_sink w) = [] then Inr w
      else if mode = Sync then sender e w
      else exn_bind (waitLogRelay e w) (\<lambda>w'. Inr (w'\<lparr>lw_sending := True\<rparr>)))"

definition sink_send :: "'l logger_env \<Rightarrow> StatusLogLine \<Rightarrow> 'l log_world \<Rightarrow> 'l log_world throwing" where
  "sink_send e l w =
     (let w1 = w\<lparr>lw_sink := (lw_sink w)\<lparr>sink_logs := sink_logs (lw_sink w) @ [l\<lparr>sl_identifier := []\<rparr>]\<rparr>\<rparr>
      in if sink_enabled (lw_sink w1) \<and> \<not> lg_daemon e then relayStatusLogs e (if logger_status_sync e then Sync else Async) w1 else Inr w1)"

section \<open>Starting the loggers\<close>

text \<open>The flags of Glog that the logger sets; \<open>shell_default\<close> says that the flag \<open>logger_min_status\<close> was left alone in a shell.\<close>

record glog_flags =
  minloglevel :: int
  alsologtostderr :: bool
  glog_v :: int
  stderrthreshold :: int
  logtostderr :: bool

definition GLOG_INFO :: int where "GLOG_INFO = 0"
definition GLOG_WARNING :: int where "GLOG_WARNING = 1"

definition setVerboseLevel :: "bool \<Rightarrow> bool \<Rightarrow> int \<Rightarrow> int \<Rightarrow> bool \<Rightarrow> glog_flags \<Rightarrow> glog_flags" where
  "setVerboseLevel verbose shell_default logger_min_status logger_min_stderr logger_stderr g =
     (let g1 = (if verbose then g\<lparr>minloglevel := GLOG_INFO, alsologtostderr := True, glog_v := 1\<rparr>
                else g\<lparr>minloglevel := (if shell_default then GLOG_WARNING else logger_min_status), stderrthreshold := logger_min_stderr\<rparr>);
          g2 = (if \<not> logger_stderr then g1\<lparr>stderrthreshold := 3, alsologtostderr := False\<rparr> else g1)
      in g2\<lparr>logtostderr := True\<rparr>)"

definition init_logger :: "'l logger_env \<Rightarrow> string \<Rightarrow> string \<Rightarrow> bool \<times> 'l log_world \<Rightarrow> (bool \<times> 'l log_world) throwing" where
  "init_logger e name logger s =
     (let (forward, w) = s in
      if \<not> rf_exists (lw_registry w) ''logger'' logger False then Inr (forward, w)
      else exn_bind (call_logger e logger [(''init'', name)] w) (\<lambda>(_, w1).
           exn_bind (call_logger e logger [(''action'', ''features'')] w1) (\<lambda>(status, w2).
             let uses_status = (and (st_code status) LOGGER_FEATURE_LOGSTATUS > 0);
                 w3 = (if uses_status then w2\<lparr>lw_sink := sink_addPlugin logger (lw_sink w2)\<rparr> else w2);
                 w4 = (if and (st_code status) LOGGER_FEATURE_LOGEVENT > 0 then w3\<lparr>lw_forwarders := lw_forwarders w3 @ [logger]\<rparr> else w3)
             in Inr (forward \<or> uses_status, w4))))"

definition initLogger :: "'l logger_env \<Rightarrow> string \<Rightarrow> 'l log_world \<Rightarrow> 'l log_world throwing" where
  "initLogger e name w =
     (let w1 = w\<lparr>lw_sink := sink_resetPlugins (lw_sink w)\<rparr>
      in exn_bind (rf_getActive (lw_registry w1) ''logger'') (\<lambda>logger_plugin.
         exn_bind (exn_fold (init_logger e name) (osq_split (lg_boost e) logger_plugin '','') (False, w1)) (\<lambda>(forward, w2).
           if forward then relayStatusLogs e Sync (w2\<lparr>lw_sink := sink_enable (lw_sink w2)\<rparr>) else Inr w2)))"

section \<open>Results\<close>

text \<open>A plugin of this process is called directly, another one through the registry.\<close>

definition log_line ::
  "'l logger_env \<Rightarrow> ('l \<Rightarrow> string \<Rightarrow> Status \<times> 'l) \<Rightarrow> string \<Rightarrow> PluginRequest \<Rightarrow> string \<Rightarrow> Status \<times> 'l log_world \<Rightarrow> (Status \<times> 'l log_world) throwing" where
  "log_line e method message request logger s =
     (let (_, w) = s; f = lw_registry w in
      if rf_exists f ''logger'' logger True
      then exn_bind (rf_registry f ''logger'') (\<lambda>r. case om_get (items r) logger of
             None \<Rightarrow> Inl (undefined_behaviour ''null pointer'')
           | Some p \<Rightarrow> let (status, l) = method (lp_state (pl_state p)) message;
                            r1 = r\<lparr>items := om_set logger (p\<lparr>pl_state := (pl_state p)\<lparr>lp_state := l\<rparr>\<rparr>) (items r)\<rparr>
                        in Inr (status, w\<lparr>lw_registry := f\<lparr>registries := om_set ''logger'' r1 (registries f)\<rparr>\<rparr>))
      else call_logger e logger request w)"

definition logString :: "'l logger_env \<Rightarrow> string \<Rightarrow> string \<Rightarrow> string \<Rightarrow> 'l log_world \<Rightarrow> (Status \<times> 'l log_world) throwing" where
  "logString e message category receiver w =
     (if disable_logging e then Inr (success, w)
      else exn_fold (log_line e (lo_logString (lg_ops e)) message [(''category'', category), (''string'', message)])
             (osq_split (lg_boost e) receiver '','') (Status_code 0, w))"

text \<open>The lines of an item: one for each row, or one for the item.\<close>

definition item_lines :: "'l logger_env \<Rightarrow> bool \<Rightarrow> QueryLogItem \<Rightarrow> (Status \<times> string list) throwing" where
  "item_lines e as_events item =
     (if as_events then serializeQueryLogItemAsEventsJSON (lg_items e) item []
      else let (status, json) = serializeQueryLogItemJSON (lg_items e) item in Inr (status, [json]))"

definition logQueryLogItem :: "'l logger_env \<Rightarrow> QueryLogItem \<Rightarrow> string \<Rightarrow> 'l log_world \<Rightarrow> (Status \<times> 'l log_world) throwing" where
  "logQueryLogItem e item receiver w =
     (if disable_logging e then Inr (success, w)
      else exn_bind (item_lines e (logger_event_type e) item) (\<lambda>(status, json_items).
             if \<not> ok status then Inr (status, w)
             else exn_fold (\<lambda>json (_, w). logString e json ''event'' receiver w) json_items (status, w)))"

definition logSnapshotQuery :: "'l logger_env \<Rightarrow> QueryLogItem \<Rightarrow> 'l log_world \<Rightarrow> (Status \<times> 'l log_world) throwing" where
  "logSnapshotQuery e item w =
     (if disable_logging e then Inr (success, w)
      else exn_bind (item_lines e (logger_snapshot_event_type e) item) (\<lambda>(status, json_items).
             if \<not> ok status then Inr (status, w)
             else exn_fold (\<lambda>json (status, w). exn_bind (rf_getActive (lw_registry w) ''logger'') (\<lambda>receiver.
                    exn_fold (log_line e (lo_logSnapshot (lg_ops e)) json [(''snapshot'', json)]) (osq_split (lg_boost e) receiver '','') (status, w)))
                    json_items (status, w)))"

end
