(* ===== verification/StatusLogsSafety.thy ===== *)
theory StatusLogsSafety
  imports StatusLogs
begin

text \<open>
  Status lines reach every logger that takes them exactly once and in order, whatever is relayed when; the JSON form in
  between loses nothing; and what a failed question for the features of a logger leads to.
\<close>

section \<open>The JSON form of lines\<close>

definition line_ok :: "StatusLogLine \<Rightarrow> bool" where
  "line_ok l \<longleftrightarrow> - (2 ^ 31) \<le> sl_severity l \<and> sl_severity l < 2 ^ 31 \<and>
     list_all no_nul [sl_filename l, sl_message l, sl_calendar_time l, sl_identifier l]"

lemma intermediate_line_members:
  "intermediate_line rj l = JObject [(''s'', JInt (sl_severity l)), (''f'', JString (sl_filename l)), (''i'', JInt (uint (sl_line l))),
     (''m'', JString (sl_message l)), (''h'', JString (sl_identifier l)), (''c'', JString (sl_calendar_time l)), (''u'', JInt (uint (sl_time l)))]"
  by (simp add: intermediate_line_def json_add_simps json_add_def HasMember_def FindMember_def)

lemma deserialize_intermediate: "line_ok l \<Longrightarrow> deserialize_line (intermediate_line rj l) = Inr l"
  using uint_lt2p [of "sl_line l"] uint_lt2p [of "sl_time l"]
  by (simp add: deserialize_line_def intermediate_line_members json_member_def FindMember_def text_member_def uint_member_def
      json_GetInt_def json_GetString_def json_GetUint64_def line_ok_def)

lemma serialize_lines: "fold (\<lambda>l doc. json_push (intermediate_line rj l) doc) ls doc = doc @ map (intermediate_line rj) ls"
  by (induction ls arbitrary: doc) (simp_all add: json_push_def)

lemma deserialize_lines:
  "list_all line_ok ls \<Longrightarrow>
   exn_fold (\<lambda>v acc. exn_bind (deserialize_line v) (\<lambda>l. Inr (acc @ [l]))) (map (intermediate_line rj) ls) acc = Inr (acc @ ls)"
  by (induction ls arbitrary: acc) (simp_all add: deserialize_intermediate)

lemma intermediate_roundtrip:
  assumes "rj_roundtrip rj" "rj_text_ok rj" "list_all line_ok ls"
  shows "deserializeIntermediateLog rj (serializeIntermediateLog rj ls request) [] = Inr ls"
proof -
  have "c_str (rj_print rj j) = rj_print rj j" for j using assms(2) by (simp add: rj_text_ok_def no_nul_def)
  then show ?thesis using assms(1,3)
    by (simp add: deserializeIntermediateLog_def serializeIntermediateLog_def json_toString_def serialize_lines json_GetArray_def rj_roundtrip_def deserialize_lines)
qed

section \<open>A call with status lines\<close>

text \<open>The state of a logger of this process, and the loggers in use: all in this process, under names of their own.\<close>

definition logger_state :: "'l log_world \<Rightarrow> string \<Rightarrow> 'l option" where
  "logger_state w nm = (case om_get (registries (lw_registry w)) ''logger'' of None \<Rightarrow> None
     | Some r \<Rightarrow> map_option (\<lambda>p. lp_state (pl_state p)) (om_get (items r) nm))"

definition active_loggers :: "'l log_world \<Rightarrow> string option" where
  "active_loggers w = map_option active (om_get (registries (lw_registry w)) ''logger'')"

lemma rf_getActive_logger: "active_loggers w = Some s \<Longrightarrow> rf_getActive (lw_registry w) ''logger'' = Inr s"
  by (auto simp: active_loggers_def rf_getActive_def rf_registry_def split: option.splits)

text \<open>What a call of a logger leaves alone.\<close>

definition same_but :: "string \<Rightarrow> 'l log_world \<Rightarrow> 'l log_world \<Rightarrow> bool" where
  "same_but nm w w' \<longleftrightarrow> lw_sink w' = lw_sink w \<and> lw_sending w' = lw_sending w \<and> active_loggers w' = active_loggers w \<and>
     (\<forall>x. x \<noteq> nm \<longrightarrow> logger_state w' x = logger_state w x)"

lemma call_logger_status:
  assumes "rj_roundtrip (lg_rj e)" "rj_text_ok (lg_rj e)" "list_all line_ok ls" "CHR '','' \<notin> set nm" "logger_state w nm = Some s"
  shows "\<exists>st w'. call_logger e nm (serializeIntermediateLog (lg_rj e) ls [(''status'', ''true'')]) w = Inr (st, w') \<and> same_but nm w w' \<and>
    logger_state w' nm = Some (snd (lo_logStatus (lg_ops e) s ls))"
proof -
  let ?req = "serializeIntermediateLog (lg_rj e) ls [(''status'', ''true'')]"
  obtain r p where r: "om_get (registries (lw_registry w)) ''logger'' = Some r" and p: "om_get (items r) nm = Some p" "lp_state (pl_state p) = s"
    using assms(5) by (auto simp: logger_state_def split: option.splits)
  have req: "om_get ?req k = None" if "k \<notin> {''status'', ''log''}" for k using that by (auto simp: serializeIntermediateLog_def om_get_Cons)
  have "om_get ?req ''status'' = Some ''true''" by (simp add: serializeIntermediateLog_def om_get_Cons)
  then have "LoggerPlugin_call (lg_rj e) (lg_ops e) (pl_state p) ?req [] =
      Inr (fst (lo_logStatus (lg_ops e) s ls), [], (pl_state p)\<lparr>lp_state := snd (lo_logStatus (lg_ops e) s ls)\<rparr>)"
    using req by (simp add: LoggerPlugin_call_def intermediate_roundtrip [OF assms(1-3)] p(2) case_prod_unfold)
  then show ?thesis using r p assms(4)
    by (auto simp: call_logger_def rf_call_def rf_call_one_def rf_registry_def reg_call_def logger_plugins_def same_but_def active_loggers_def logger_state_def)
qed

section \<open>A relay\<close>

definition take_lines :: "'l logger_ops \<Rightarrow> 'l \<Rightarrow> StatusLogLine list \<Rightarrow> 'l" where
  "take_lines ops s ls = snd (lo_logStatus ops s ls)"

definition loggers_ready :: "string list \<Rightarrow> 'l log_world \<Rightarrow> bool" where
  "loggers_ready names w \<longleftrightarrow> active_loggers w = Some (join_with names '','') \<and> names \<noteq> [] \<and> distinct names \<and>
     list_all (\<lambda>nm. field_ok (CHR '','') nm \<and> logger_state w nm \<noteq> None) names"

definition with_identifier :: "'l logger_env \<Rightarrow> StatusLogLine \<Rightarrow> StatusLogLine" where
  "with_identifier e l = l\<lparr>sl_identifier := lg_identifier e\<rparr>"

lemma update_identifier: "sl_identifier_update (\<lambda>_. lg_identifier e) = with_identifier e"
  by (rule ext) (simp add: with_identifier_def)

text \<open>What the model asks of the library code, and of the host's identifier.\<close>

definition logger_env_ok :: "'l logger_env \<Rightarrow> bool" where
  "logger_env_ok e \<longleftrightarrow> rj_roundtrip (lg_rj e) \<and> rj_text_ok (lg_rj e) \<and> boost_ok (lg_boost e) \<and> no_nul (lg_identifier e)"

lemma relay_loop:
  assumes "logger_env_ok e" "list_all line_ok ls" "distinct names"
    and "list_all (\<lambda>nm. field_ok (CHR '','') nm \<and> logger_state w nm \<noteq> None) names"
  shows "\<exists>w'. exn_fold (\<lambda>logger w. if logger \<in> set (sinks (lw_sink w))
        then exn_bind (call_logger e logger (serializeIntermediateLog (lg_rj e) ls [(''status'', ''true'')]) w) (\<lambda>(_, w'). Inr w') else Inr w) names w = Inr w' \<and>
      lw_sink w' = lw_sink w \<and> lw_sending w' = lw_sending w \<and> active_loggers w' = active_loggers w \<and>
      (\<forall>x. logger_state w' x = (if x \<in> set names \<and> x \<in> set (sinks (lw_sink w)) then map_option (\<lambda>s. take_lines (lg_ops e) s ls) (logger_state w x) else logger_state w x))"
  using assms(3,4)
proof (induction names arbitrary: w)
  case (Cons nm names)
  let ?req = "serializeIntermediateLog (lg_rj e) ls [(''status'', ''true'')]"
  obtain s where s: "logger_state w nm = Some s" using Cons.prems(2) by auto
  have nm: "CHR '','' \<notin> set nm" using Cons.prems(2) by (auto simp: field_ok_def)
  obtain w1 where w1: "(if nm \<in> set (sinks (lw_sink w)) then exn_bind (call_logger e nm ?req w) (\<lambda>(_, w'). Inr w') else Inr w) = Inr w1" "same_but nm w w1"
      "logger_state w1 nm = (if nm \<in> set (sinks (lw_sink w)) then Some (take_lines (lg_ops e) s ls) else Some s)"
  proof (cases "nm \<in> set (sinks (lw_sink w))")
    case True
    have "rj_roundtrip (lg_rj e)" "rj_text_ok (lg_rj e)" using assms(1) by (simp_all add: logger_env_ok_def)
    from call_logger_status [OF this assms(2) nm s] True show thesis using that by (auto simp: take_lines_def)
  next
    case False
    then show thesis using that [of w] s by (simp add: same_but_def)
  qed
  have "list_all (\<lambda>nm. field_ok (CHR '','') nm \<and> logger_state w1 nm \<noteq> None) names"
    using Cons.prems w1(2) by (auto simp: list_all_iff same_but_def)
  from Cons.IH [OF _ this] obtain w' where w': "exn_fold (\<lambda>logger w. if logger \<in> set (sinks (lw_sink w))
        then exn_bind (call_logger e logger ?req w) (\<lambda>(_, w'). Inr w') else Inr w) names w1 = Inr w'"
      "lw_sink w' = lw_sink w1" "lw_sending w' = lw_sending w1" "active_loggers w' = active_loggers w1"
      "\<And>x. logger_state w' x = (if x \<in> set names \<and> x \<in> set (sinks (lw_sink w1)) then map_option (\<lambda>s. take_lines (lg_ops e) s ls) (logger_state w1 x) else logger_state w1 x)"
    using Cons.prems(1) by auto
  have "logger_state w' x = (if x \<in> set (nm # names) \<and> x \<in> set (sinks (lw_sink w)) then map_option (\<lambda>s. take_lines (lg_ops e) s ls) (logger_state w x) else logger_state w x)" for x
    using w'(5) [of x] w1(2,3) s Cons.prems(1) by (cases "x = nm") (auto simp: same_but_def)
  then show ?case using w1(1,2) w'(1-4) by (simp add: same_but_def)
qed simp

lemma sender_delivers:
  assumes "logger_env_ok e" "loggers_ready names w" "list_all line_ok (sink_logs (lw_sink w))"
  shows "\<exists>w'. sender e w = Inr w' \<and> lw_sink w' = (lw_sink w)\<lparr>sink_logs := []\<rparr> \<and> lw_sending w' = lw_sending w \<and> loggers_ready names w' \<and>
    (\<forall>x. logger_state w' x = (if x \<in> set names \<and> x \<in> set (sinks (lw_sink w)) \<and> sink_logs (lw_sink w) \<noteq> []
       then map_option (\<lambda>s. take_lines (lg_ops e) s (map (with_identifier e) (sink_logs (lw_sink w)))) (logger_state w x) else logger_state w x))"
proof (cases "sink_logs (lw_sink w) = []")
  case False
  let ?ls = "map (with_identifier e) (sink_logs (lw_sink w))" and ?w1 = "w\<lparr>lw_sink := (lw_sink w)\<lparr>sink_logs := []\<rparr>\<rparr>"
  have same: "logger_state ?w1 = logger_state w" "active_loggers ?w1 = active_loggers w" by (simp_all add: logger_state_def active_loggers_def fun_eq_iff)
  have ls: "list_all line_ok ?ls" using assms(1,3) by (auto simp: list_all_iff line_ok_def with_identifier_def logger_env_ok_def)
  have split: "osq_split (lg_boost e) (join_with names '','') '','' = names"
    using assms(1,2) osq_split_join [of "lg_boost e" "CHR '',''" names] by (auto simp: loggers_ready_def logger_env_ok_def list_all_iff)
  obtain w' where "exn_fold (\<lambda>logger w. if logger \<in> set (sinks (lw_sink w))
        then exn_bind (call_logger e logger (serializeIntermediateLog (lg_rj e) ?ls [(''status'', ''true'')]) w) (\<lambda>(_, w'). Inr w') else Inr w) names ?w1 = Inr w'"
      "lw_sink w' = lw_sink ?w1" "lw_sending w' = lw_sending ?w1" "active_loggers w' = active_loggers ?w1"
      "\<And>x. logger_state w' x = (if x \<in> set names \<and> x \<in> set (sinks (lw_sink ?w1)) then map_option (\<lambda>s. take_lines (lg_ops e) s ?ls) (logger_state ?w1 x) else logger_state ?w1 x)"
    using relay_loop [OF assms(1) ls, of names ?w1] assms(2) by (auto simp: loggers_ready_def same)
  moreover have "sender e w = exn_fold (\<lambda>logger w. if logger \<in> set (sinks (lw_sink w))
        then exn_bind (call_logger e logger (serializeIntermediateLog (lg_rj e) ?ls [(''status'', ''true'')]) w) (\<lambda>(_, w'). Inr w') else Inr w) names ?w1"
    using False assms(2) rf_getActive_logger [of ?w1] by (simp add: sender_def Let_def loggers_ready_def same split update_identifier)
  ultimately show ?thesis using False assms(2) by (auto simp: loggers_ready_def same list_all_iff)
qed (use assms(2) in \<open>simp add: sender_def\<close>)

section \<open>Sequences of lines and relays\<close>

text \<open>A line is logged, a relay is asked for, or the task of an earlier one runs.\<close>

datatype log_op = Line StatusLogLine | Relay LoggerRelayMode | Task

fun log_step :: "'l logger_env \<Rightarrow> log_op \<Rightarrow> 'l log_world \<Rightarrow> 'l log_world throwing" where
  "log_step e (Line l) w = sink_send e l w"
| "log_step e (Relay mode) w = relayStatusLogs e mode w"
| "log_step e Task w = waitLogRelay e w"

fun op_lines :: "log_op list \<Rightarrow> StatusLogLine list" where
  "op_lines [] = []"
| "op_lines (Line l # ops) = l # op_lines ops"
| "op_lines (op # ops) = op_lines ops"

text \<open>
  From \<open>w\<close> to \<open>w'\<close> with the lines \<open>ls\<close> logged in between: each logger that takes status lines has got them in batches,
  up to those that are still buffered; the others have got nothing.
\<close>

definition take_batches :: "'l logger_ops \<Rightarrow> StatusLogLine list list \<Rightarrow> 'l \<Rightarrow> 'l" where
  "take_batches ops bs s = fold (\<lambda>b s. take_lines ops s b) bs s"

definition got :: "'l logger_env \<Rightarrow> 'l log_world \<Rightarrow> StatusLogLine list \<Rightarrow> 'l log_world \<Rightarrow> string \<Rightarrow> bool" where
  "got e w ls w' nm \<longleftrightarrow>
     (if nm \<in> set (sinks (lw_sink w))
      then \<exists>batches. concat batches @ map (with_identifier e) (sink_logs (lw_sink w')) = map (with_identifier e) (sink_logs (lw_sink w) @ ls) \<and>
             logger_state w' nm = map_option (take_batches (lg_ops e) batches) (logger_state w nm)
      else logger_state w' nm = logger_state w nm)"

definition delivers :: "'l logger_env \<Rightarrow> string list \<Rightarrow> 'l log_world \<Rightarrow> StatusLogLine list \<Rightarrow> 'l log_world \<Rightarrow> bool" where
  "delivers e names w ls w' \<longleftrightarrow> loggers_ready names w' \<and> sinks (lw_sink w') = sinks (lw_sink w) \<and> list_all line_ok (sink_logs (lw_sink w')) \<and>
     list_all (got e w ls w') names"

lemma take_batches_simps [simp]: "take_batches ops [] = id" "take_batches ops [b] = (\<lambda>s. take_lines ops s b)"
  by (auto simp: take_batches_def fun_eq_iff)

lemma got_refl: "got e w [] w nm"
  by (auto simp: got_def option.map_id intro!: exI [of _ "[]"])

lemma got_trans:
  assumes "got e w ls v nm" "got e v ls' w' nm" "sinks (lw_sink v) = sinks (lw_sink w)"
  shows "got e w (ls @ ls') w' nm"
proof (cases "nm \<in> set (sinks (lw_sink w))")
  case True
  obtain bs where bs: "concat bs @ map (with_identifier e) (sink_logs (lw_sink v)) = map (with_identifier e) (sink_logs (lw_sink w) @ ls)"
    "logger_state v nm = map_option (take_batches (lg_ops e) bs) (logger_state w nm)" using assms(1) True by (auto simp: got_def)
  obtain bs' where bs': "concat bs' @ map (with_identifier e) (sink_logs (lw_sink w')) = map (with_identifier e) (sink_logs (lw_sink v) @ ls')"
    "logger_state w' nm = map_option (take_batches (lg_ops e) bs') (logger_state v nm)" using assms(2,3) True by (auto simp: got_def)
  have "concat (bs @ bs') @ map (with_identifier e) (sink_logs (lw_sink w')) = map (with_identifier e) (sink_logs (lw_sink w) @ ls @ ls')"
    using bs(1) bs'(1) by simp
  moreover have "logger_state w' nm = map_option (take_batches (lg_ops e) (bs @ bs')) (logger_state w nm)"
    using bs(2) bs'(2) by (simp add: option.map_comp comp_def take_batches_def [abs_def])
  ultimately show ?thesis using True unfolding got_def by (metis (no_types))
qed (use assms in \<open>simp add: got_def\<close>)

lemma delivers_trans: "delivers e names w ls v \<Longrightarrow> delivers e names v ls' w' \<Longrightarrow> delivers e names w (ls @ ls') w'"
  by (auto simp: delivers_def list_all_iff intro: got_trans)

lemma sender_delivery:
  assumes "logger_env_ok e" "loggers_ready names w" "list_all line_ok (sink_logs (lw_sink w))"
  shows "\<exists>w'. sender e w = Inr w' \<and> delivers e names w [] w'"
proof -
  obtain w' where w: "sender e w = Inr w'" and w': "lw_sink w' = (lw_sink w)\<lparr>sink_logs := []\<rparr>" "loggers_ready names w'"
    "\<And>x. logger_state w' x = (if x \<in> set names \<and> x \<in> set (sinks (lw_sink w)) \<and> sink_logs (lw_sink w) \<noteq> []
       then map_option (\<lambda>s. take_lines (lg_ops e) s (map (with_identifier e) (sink_logs (lw_sink w)))) (logger_state w x) else logger_state w x)"
    using sender_delivers [OF assms] by blast
  have "got e w [] w' nm" if nm: "nm \<in> set names" for nm
  proof (cases "sink_logs (lw_sink w) = []")
    case True
    then show ?thesis using w'(3) [of nm] by (auto simp: got_def w'(1) option.map_id intro!: exI [of _ "[]"])
  next
    case False
    then show ?thesis using w'(3) [of nm] nm by (auto simp: got_def w'(1) intro!: exI [of _ "[map (with_identifier e) (sink_logs (lw_sink w))]"])
  qed
  then show ?thesis using w w' by (auto simp: delivers_def list_all_iff)
qed

lemma delivers_sending: "delivers e names w ls w' \<Longrightarrow> delivers e names w ls (w'\<lparr>lw_sending := b\<rparr>)"
proof -
  have "logger_state (w'\<lparr>lw_sending := b\<rparr>) = logger_state w'" "active_loggers (w'\<lparr>lw_sending := b\<rparr>) = active_loggers w'"
    by (simp_all add: logger_state_def active_loggers_def fun_eq_iff)
  then have "got e w ls (w'\<lparr>lw_sending := b\<rparr>) = got e w ls w'" "loggers_ready names (w'\<lparr>lw_sending := b\<rparr>) = loggers_ready names w'"
    by (simp_all add: got_def [abs_def] loggers_ready_def)
  then show "delivers e names w ls w' \<Longrightarrow> delivers e names w ls (w'\<lparr>lw_sending := b\<rparr>)"
    by (simp add: delivers_def)
qed

lemma delivers_refl: "loggers_ready names w \<Longrightarrow> list_all line_ok (sink_logs (lw_sink w)) \<Longrightarrow> delivers e names w [] w"
  by (simp add: delivers_def list_all_iff got_refl)

lemma wait_delivery:
  assumes "logger_env_ok e" "loggers_ready names w" "list_all line_ok (sink_logs (lw_sink w))"
  shows "\<exists>w'. waitLogRelay e w = Inr w' \<and> delivers e names w [] w'"
  using sender_delivery [OF assms] delivers_refl [OF assms(2,3)] delivers_sending by (fastforce simp: waitLogRelay_def)

lemma relay_delivery:
  assumes "logger_env_ok e" "loggers_ready names w" "list_all line_ok (sink_logs (lw_sink w))"
  shows "\<exists>w'. relayStatusLogs e mode w = Inr w' \<and> delivers e names w [] w'"
  using sender_delivery [OF assms] wait_delivery [OF assms] delivers_refl [OF assms(2,3)] delivers_sending by (fastforce simp: relayStatusLogs_def)

lemma send_delivery:
  assumes "logger_env_ok e" "loggers_ready names w" "list_all line_ok (sink_logs (lw_sink w))" "line_ok l"
  shows "\<exists>w'. sink_send e l w = Inr w' \<and> delivers e names w [l] w'"
proof -
  let ?w1 = "w\<lparr>lw_sink := (lw_sink w)\<lparr>sink_logs := sink_logs (lw_sink w) @ [l\<lparr>sl_identifier := []\<rparr>]\<rparr>\<rparr>"
  have same: "logger_state ?w1 = logger_state w" "active_loggers ?w1 = active_loggers w" by (simp_all add: logger_state_def active_loggers_def fun_eq_iff)
  have ok: "loggers_ready names ?w1" "list_all line_ok (sink_logs (lw_sink ?w1))"
    using assms(2-4) by (simp_all add: loggers_ready_def same line_ok_def no_nul_def)
  have "got e w [l] ?w1 nm" for nm
    by (auto simp: got_def same with_identifier_def option.map_id intro!: exI [of _ "[]"])
  then have d: "delivers e names w [l] ?w1" using ok by (simp add: delivers_def list_all_iff)
  show ?thesis
    using relay_delivery [OF assms(1) ok] delivers_trans [OF d] d by (fastforce simp: sink_send_def Let_def)
qed

lemma step_delivery:
  assumes "logger_env_ok e" "loggers_ready names w" "list_all line_ok (sink_logs (lw_sink w))" "list_all line_ok (op_lines [op])"
  shows "\<exists>w'. log_step e op w = Inr w' \<and> delivers e names w (op_lines [op]) w'"
  using assms send_delivery [OF assms(1-3)] relay_delivery [OF assms(1-3)] wait_delivery [OF assms(1-3)] by (cases op) auto

lemma op_lines_Cons: "op_lines (op # ops) = op_lines [op] @ op_lines ops"
  by (cases op) simp_all


text \<open>Two loggers that keep what they get, one of which takes status lines; and one in an extension that does not answer.\<close>

definition keeping_ops :: "StatusLogLine list logger_ops" where
  "keeping_ops = \<lparr>lo_logString = (\<lambda>s _. (success, s)), lo_logStatus = (\<lambda>s ls. (success, s @ ls)), lo_logSnapshot = (\<lambda>s _. (success, s)),
     lo_logEvent = (\<lambda>s _. (success, s)), lo_init = (\<lambda>s _ _. s), lo_usesLogStatus = (\<lambda>_. True), lo_usesLogEvent = (\<lambda>_. False)\<rparr>"

definition sample_logger_env :: "StatusLogLine list logger_env" where
  "sample_logger_env =
     \<lparr>lg_rj = codec_rapidjson, lg_boost = boost_ref, lg_ops = keeping_ops,
      lg_plugins = \<lparr>op_setUp = (\<lambda>p. (success, p)), op_tearDown = (\<lambda>p. p), op_configure = (\<lambda>p. p), op_routeInfo = (\<lambda>_. []), op_call = (\<lambda>p _ r. Inr (success, r, p))\<rparr>,
      lg_registry = (sample_env (\<lambda>_. success))\<lparr>env_callExtension := (\<lambda>_ _ _ _ r. (failure ''Extension not reachable'', r))\<rparr>,
      lg_ignore = False, lg_what = (\<lambda>_. []), lg_items = \<lparr>le_rj = codec_rapidjson, le_format = (\<lambda>_. []), logger_numerics = False, decorations_top_level = False\<rparr>,
      lg_identifier = ''host'', lg_daemon = True, lg_database = True, disable_logging = False, logger_status_sync = False,
      logger_event_type = True, logger_snapshot_event_type = False\<rparr>"

definition sample_log_world :: "StatusLogLine list log_world" where
  "sample_log_world =
     \<lparr>lw_sink = \<lparr>sink_logs = [], sink_enabled = True, sinks = [''tls'']\<rparr>,
      lw_registry = \<lparr>allow_duplicates = False, registries = [(''logger'', (RegistryInterface_new ''logger'' False)
        \<lparr>active := ''file,tls'', external := [(''remote'', 7)],
         items := [(''file'', \<lparr>pl_name = ''file'', pl_state = \<lparr>process_name = [], lp_state = []\<rparr>\<rparr>),
                   (''tls'', \<lparr>pl_name = ''tls'', pl_state = \<lparr>process_name = [], lp_state = []\<rparr>\<rparr>)]\<rparr>)], extensions = {7}\<rparr>,
      lw_forwarders = [], lw_sending = False\<rparr>"

definition sample_line :: "string \<Rightarrow> StatusLogLine" where
  "sample_line m = \<lparr>sl_severity = 1, sl_filename = ''watcher.cpp'', sl_line = 42, sl_message = m, sl_calendar_time = ''now'', sl_time = 100, sl_identifier = []\<rparr>"

lemma sample_logger_ready: "logger_env_ok sample_logger_env" "loggers_ready [''file'', ''tls''] sample_log_world"
proof -
  show "logger_env_ok sample_logger_env" by (simp add: logger_env_ok_def sample_logger_env_def codec_roundtrip codec_text_ok no_nul_def)
  show "loggers_ready [''file'', ''tls''] sample_log_world"
    by (simp add: loggers_ready_def sample_log_world_def active_loggers_def logger_state_def om_get_Cons field_ok_def isspace_def RegistryInterface_new_def)
qed


section \<open>A logger that does not answer\<close>

text \<open>
  A logger in an extension whose question for its features fails is taken for one that takes status lines: the code of the
  failure, 1, is read as the bit of that feature. The logger is then among those the lines are sent to, and the
  forwarding of lines is started.
\<close>

theorem failed_features_taken_for_status:
  assumes "om_get (registries (lw_registry w)) ''logger'' = Some r" "om_get (items r) nm = None" "om_get (external r) nm = Some uuid" "CHR '','' \<notin> set nm"
    and "env_callExtension (lg_registry e) uuid (reg_name r) nm [(''action'', ''features'')] [] = (failure m, response)"
  shows "\<exists>w'. init_logger e name nm (forward, w) = Inr (True, w') \<and> sinks (lw_sink w') = sinks (lw_sink w) @ [nm] \<and> lw_forwarders w' = lw_forwarders w"
proof -
  have call: "\<exists>w'. call_logger e nm req v = Inr (fst (env_callExtension (lg_registry e) uuid (reg_name r) nm req []), w') \<and> lw_sink w' = lw_sink v \<and>
      lw_forwarders w' = lw_forwarders v \<and> om_get (registries (lw_registry w')) ''logger'' = Some r"
    if "om_get (registries (lw_registry v)) ''logger'' = Some r" for req v
    using that assms(2-4) by (auto simp: call_logger_def rf_call_def rf_call_one_def rf_registry_def reg_call_def case_prod_unfold Let_def)
  obtain w1 where w1: "call_logger e nm [(''init'', name)] w = Inr (fst (env_callExtension (lg_registry e) uuid (reg_name r) nm [(''init'', name)] []), w1)"
      "lw_sink w1 = lw_sink w" "lw_forwarders w1 = lw_forwarders w" "om_get (registries (lw_registry w1)) ''logger'' = Some r"
    using call [OF assms(1)] by blast
  obtain w2 where w2: "call_logger e nm [(''action'', ''features'')] w1 = Inr (failure m, w2)" "lw_sink w2 = lw_sink w" "lw_forwarders w2 = lw_forwarders w"
    using call [OF w1(4), of "[(''action'', ''features'')]"] assms(5) w1(2,3) by auto
  have "rf_exists (lw_registry w) ''logger'' nm False" using assms(1,3) by (simp add: rf_exists_def existsUnsafe_def om_has_def)
  then show ?thesis
    using w1(1) w2 by (simp add: init_logger_def Let_def failure_def Status_msg_def LOGGER_FEATURE_LOGSTATUS_def LOGGER_FEATURE_LOGEVENT_def sink_addPlugin_def)
qed

theorem failed_features_taken_for_status_witness:
  "\<exists>w'. init_logger sample_logger_env ''osqueryd'' ''remote'' (False, sample_log_world) = Inr (True, w') \<and> sinks (lw_sink w') = [''tls'', ''remote''] \<and> lw_forwarders w' = []"
  using failed_features_taken_for_status [of sample_log_world _ "''remote''" 7 sample_logger_env "''Extension not reachable''" "[]" "''osqueryd''" False]
  by (simp add: sample_log_world_def sample_logger_env_def om_get_Cons RegistryInterface_new_def)

end
