(* ===== verification/PathSets.thy ===== *)
theory PathSets
  imports Texts
begin

text \<open>
  Paths and patterns of the file event publishers: \<open>patternedPath\<close> of \<open>events/pathset.h\<close>. A path is the list of its
  components; in a pattern \<open>*\<close> stands for one component and \<open>**\<close> for the rest. A set of paths finds a path by the
  comparison \<open>Compare\<close>, for which a pattern and a path that it matches are equivalent.
\<close>

section \<open>Comparison and creation\<close>

type_synonym Path = "string list"

text \<open>The loop over the components both paths have: the value it returns, none if it comes to the end.\<close>

fun Compare_loop :: "Path \<Rightarrow> Path \<Rightarrow> bool option" where
  "Compare_loop (l # ls) (r # rs) =
     (if l = ''**'' \<or> r = ''**'' then Some False
      else if l = ''*'' \<or> r = ''*'' then Compare_loop ls rs
      else if r < l then Some False
      else if l < r then Some True
      else Compare_loop ls rs)"
| "Compare_loop _ _ = None"

text \<open>After the loop the last common component is looked at, which an empty path does not have.\<close>

definition Compare :: "Path \<Rightarrow> Path \<Rightarrow> bool throwing" where
  "Compare lhs rhs =
     (case Compare_loop lhs rhs of
        Some b \<Rightarrow> Inr b
      | None \<Rightarrow>
          if lhs = [] \<or> rhs = [] then Inl (undefined_behaviour ''vector index'')
          else let ndx = min (length lhs) (length rhs)
               in if ndx = length rhs \<and> rhs ! (ndx - 1) = ''*'' \<or> ndx = length lhs \<and> lhs ! (ndx - 1) = ''*'' then Inr False
                  else Inr (length lhs < length rhs))"

text \<open>\<open>toks\<close> stands for Boost's tokenizer with the separator \<open>/\<close>.\<close>

definition createPath :: "(string \<Rightarrow> string list) \<Rightarrow> string \<Rightarrow> Path" where
  "createPath toks str = (if str = ''/'' then [[]] else []) @ toks str"

fun vpath_loop :: "string list \<Rightarrow> Path \<Rightarrow> Path list" where
  "vpath_loop [] path = [path]"
| "vpath_loop (c # cs) path = (if c = ''**'' then [path, path @ [c]] else vpath_loop cs (path @ [c]))"

definition createVPath :: "(string \<Rightarrow> string list) \<Rightarrow> string \<Rightarrow> Path list" where
  "createVPath toks str = vpath_loop (toks str) (if str = ''/'' then [[]] else [])"

section \<open>What is equivalent\<close>

definition equivalent :: "Path \<Rightarrow> Path \<Rightarrow> bool" where
  "equivalent p q \<longleftrightarrow> Compare p q = Inr False \<and> Compare q p = Inr False"

text \<open>A pattern against a path: a star at the end of a pattern matches any number of components.\<close>

fun path_matches :: "Path \<Rightarrow> Path \<Rightarrow> bool" where
  "path_matches [] [] = True"
| "path_matches (q # qs) (c # cs) =
     (if q = ''**'' then True
      else if q = ''*'' then qs = [] \<or> path_matches qs cs
      else q = c \<and> path_matches qs cs)"
| "path_matches _ _ = False"

definition plain_path :: "Path \<Rightarrow> bool" where
  "plain_path p \<longleftrightarrow> list_all (\<lambda>c. c \<noteq> ''*'' \<and> c \<noteq> ''**'') p"

text \<open>The comparison with the last components remembered: whether they are stars.\<close>

fun less_after :: "bool \<Rightarrow> bool \<Rightarrow> Path \<Rightarrow> Path \<Rightarrow> bool" where
  "less_after sl sr (l # ls) (r # rs) =
     (if l = ''**'' \<or> r = ''**'' then False
      else if l = ''*'' \<or> r = ''*'' then less_after (l = ''*'') (r = ''*'') ls rs
      else if r < l then False
      else if l < r then True
      else less_after False False ls rs)"
| "less_after sl sr [] rs = (if rs = [] \<and> sr \<or> sl then False else rs \<noteq> [])"
| "less_after sl sr (l # ls) [] = False"

definition compare_end :: "Path \<Rightarrow> Path \<Rightarrow> bool" where
  "compare_end lhs rhs =
     (let ndx = min (length lhs) (length rhs)
      in \<not> (ndx = length rhs \<and> rhs ! (ndx - 1) = ''*'' \<or> ndx = length lhs \<and> lhs ! (ndx - 1) = ''*'') \<and> length lhs < length rhs)"

lemma compare_end_Cons:
  "ls \<noteq> [] \<Longrightarrow> rs \<noteq> [] \<Longrightarrow> compare_end (l # ls) (r # rs) = compare_end ls rs"
  "compare_end [l] (r # rs) = (if rs = [] \<and> r = ''*'' \<or> l = ''*'' then False else rs \<noteq> [])" "\<not> compare_end (l # ls) [r]"
proof -
  show "ls \<noteq> [] \<Longrightarrow> rs \<noteq> [] \<Longrightarrow> compare_end (l # ls) (r # rs) = compare_end ls rs"
    by (cases ls; cases rs) (simp_all add: compare_end_def Let_def)
  show "compare_end [l] (r # rs) = (if rs = [] \<and> r = ''*'' \<or> l = ''*'' then False else rs \<noteq> [])" "\<not> compare_end (l # ls) [r]"
    by (auto simp: compare_end_def Let_def)
qed

lemma less_after_loop:
  "less_after sl sr (l # ls) (r # rs) = (case Compare_loop (l # ls) (r # rs) of Some b \<Rightarrow> b | None \<Rightarrow> compare_end (l # ls) (r # rs))"
proof (induction ls arbitrary: sl sr l r rs)
  case Nil
  show ?case by (cases rs) (simp_all add: compare_end_Cons)
next
  case (Cons l' ls)
  show ?case
  proof (cases rs)
    case (Cons r' rs')
    have e: "compare_end (l # l' # ls) (r # r' # rs') = compare_end (l' # ls) (r' # rs')" by (simp add: compare_end_Cons)
    have ih: "less_after sl sr (l' # ls) (r' # rs') = (case Compare_loop (l' # ls) (r' # rs') of Some b \<Rightarrow> b | None \<Rightarrow> compare_end (l' # ls) (r' # rs'))" for sl sr
      by (rule Cons.IH)
    show ?thesis unfolding Cons less_after.simps(1) [of sl sr l] Compare_loop.simps(1) [of l] ih e
      by (simp del: less_after.simps Compare_loop.simps)
  qed (simp add: compare_end_Cons)
qed

lemma Compare_less_after:
  assumes "lhs \<noteq> []" "rhs \<noteq> []"
  shows "Compare lhs rhs = Inr (less_after False False lhs rhs)"
proof -
  obtain l ls r rs where "lhs = l # ls" "rhs = r # rs" using assms by (meson neq_Nil_conv)
  then have "less_after False False lhs rhs = (case Compare_loop lhs rhs of Some b \<Rightarrow> b | None \<Rightarrow> compare_end lhs rhs)"
    using less_after_loop [of False False l ls r rs] by (simp only:)
  moreover have "Compare lhs rhs = Inr (case Compare_loop lhs rhs of Some b \<Rightarrow> b | None \<Rightarrow> compare_end lhs rhs)"
    using assms by (auto simp: Compare_def compare_end_def Let_def split: option.split)
  ultimately show ?thesis by simp
qed

lemma less_after_nil: "less_after sl sr p [] \<longleftrightarrow> False"
  by (cases p) simp_all

lemma less_after_matches:
  "plain_path p \<Longrightarrow> \<not> less_after s False q p \<and> \<not> less_after False s p q \<longleftrightarrow> (if q = [] then p = [] \<or> s else path_matches q p)"
proof (induction q arbitrary: s p)
  case (Cons c q)
  show ?case
  proof (cases p)
    case (Cons d p')
    have d: "d \<noteq> ''*''" "d \<noteq> ''**''" "plain_path p'" using Cons.prems by (simp_all add: Cons plain_path_def)
    consider "c = ''**''" | "c = ''*''" | "c \<noteq> ''**''" "c \<noteq> ''*''" "c = d" | "c \<noteq> ''**''" "c \<noteq> ''*''" "c < d" | "c \<noteq> ''**''" "c \<noteq> ''*''" "d < c"
      using linorder_less_linear [of c d] by blast
    then show ?thesis
    proof cases
      case 2
      then show ?thesis using Cons.IH [OF d(3), of True] d by (cases q) (simp_all add: Cons)
    next
      case 3
      then show ?thesis using Cons.IH [OF d(3), of False] d by (cases q; cases p') (simp_all add: Cons)
    qed (use d in \<open>auto simp: Cons\<close>)
  qed simp
qed (auto simp: less_after_nil)

text \<open>
  For a path without wildcards, a pattern is equivalent to it exactly if it matches: component by component, with \<open>*\<close> for any
  component and \<open>**\<close> for any rest. But a \<open>*\<close> at the end of a pattern matches any rest as well.
\<close>

theorem equivalent_matches:
  assumes "plain_path p" "p \<noteq> []" "q \<noteq> []"
  shows "equivalent q p \<longleftrightarrow> path_matches q p"
  using less_after_matches [OF assms(1), of False q] assms(2,3) by (simp add: equivalent_def Compare_less_after)

lemma trailing_star_matches_deeper: "plain_path p \<Longrightarrow> path_matches (p @ [''*'']) (p @ c # cs)"
  by (induction p) (auto simp: plain_path_def)

text \<open>The comparison is not a strict weak order: two paths that a pattern is equivalent to are different.\<close>

lemma equivalence_not_transitive: "equivalent [''a''] [''*''] \<and> equivalent [''*''] [''b''] \<and> Compare [''a''] [''b''] = Inr True"
  by (simp add: equivalent_def Compare_def less_char_def)

text \<open>A pattern that begins with \<open>**\<close> puts the empty path into the set, with which nothing can be compared.\<close>

lemma root_wildcard_undefined:
  assumes "toks ''/**'' = [''**'']"
  shows "[] \<in> set (createVPath toks ''/**'')" "Compare p [] = Inl (undefined_behaviour ''vector index'')"
  using assms by (simp_all add: createVPath_def Compare_def)

end
