(* ===== verification/VirtualTables.thy ===== *)
theory VirtualTables
  imports Tables
begin

text \<open>
  The module that shows table plugins to SQLite, \<open>sql/virtual_table.cpp\<close> and the rows of
  \<open>sql/dynamic_table_row.cpp\<close>: \<open>xCreate\<close> reads a table's columns over the registry, \<open>xBestIndex\<close> picks the constraints
  a table is given and the columns it has to fill, \<open>xFilter\<close> builds the context of a scan and generates the rows,
  the cursor walks over them and \<open>xUpdate\<close> forwards a change to the table. SQLite calls these functions; what it
  hands to them is an argument.
\<close>

section \<open>Values and codes of SQLite\<close>

datatype sqlite_value = SV_INTEGER int | SV_FLOAT rat | SV_TEXT string | SV_BLOB string | SV_NULL

text \<open>
  An argument of \<open>xFilter\<close>: the value it reads as, and the values that \<open>sqlite3_vtab_in_first\<close> and
  \<open>sqlite3_vtab_in_next\<close> give for it.
\<close>

record filter_arg =
  arg_value :: sqlite_value
  arg_in :: "sqlite_value list"

definition SQLITE_OK :: int where "SQLITE_OK = 0"
definition SQLITE_ERROR :: int where "SQLITE_ERROR = 1"
definition SQLITE_NOMEM :: int where "SQLITE_NOMEM = 7"
definition SQLITE_READONLY :: int where "SQLITE_READONLY = 8"
definition SQLITE_CONSTRAINT :: int where "SQLITE_CONSTRAINT = 19"
definition SQLITE_MISMATCH :: int where "SQLITE_MISMATCH = 20"
definition SQLITE_RANGE :: int where "SQLITE_RANGE = 25"

lemmas sqlite_codes = SQLITE_OK_def SQLITE_ERROR_def SQLITE_NOMEM_def SQLITE_READONLY_def SQLITE_CONSTRAINT_def
  SQLITE_MISMATCH_def SQLITE_RANGE_def

text \<open>
  What the module reads: conversions of SQLite values (\<open>sqlite3_value_text\<close> gives no text for NULL), of doubles, the
  registry, flags, and of the tables whether \<open>generate\<close> throws and what a generator yields.
\<close>

record vtab_env =
  ve_text :: "sqlite_value \<Rightarrow> string option"
  ve_int64 :: "sqlite_value \<Rightarrow> int"
  ve_double :: "rat \<Rightarrow> string"
  ve_strtod :: "string \<Rightarrow> rat option"
  ve_rj :: rapidjson
  ve_what :: "cpp_exn \<Rightarrow> string"
  ve_plugins :: "TablePlugin Plugin_ops"
  ve_registry :: registry_env
  ve_ignore :: bool
  ve_throws :: "TablePlugin \<Rightarrow> QueryContext \<Rightarrow> cpp_exn option"
  ve_generator :: "TablePlugin \<Rightarrow> QueryContext \<Rightarrow> Row list option"
  ve_declare :: "string \<Rightarrow> int"
  ve_admin :: bool
  extensions_default_index :: bool
  ignore_table_exceptions :: bool

definition table_plugins :: "vtab_env \<Rightarrow> TablePlugin Plugin_ops" where
  "table_plugins e = (ve_plugins e)\<lparr>op_call := (\<lambda>p request _. exn_bind (TablePlugin_call (ve_rj e) p request) (\<lambda>(st, r). Inr (st, r, p)))\<rparr>"

definition call_table :: "vtab_env \<Rightarrow> string \<Rightarrow> PluginRequest \<Rightarrow> TablePlugin RegistryFactory
    \<Rightarrow> (Status \<times> PluginResponse \<times> TablePlugin RegistryFactory) throwing" where
  "call_table e name request f = rf_call (ve_ignore e) (ve_what e) (table_plugins e) (ve_registry e) ''table'' name request [] f"

section \<open>Tables, instances and cursors\<close>

text \<open>The transient part of \<open>VirtualTableContent\<close>: the index of a plan is the \<open>int\<close> SQLite carries from plan to scan.\<close>

type_synonym ConstraintSet = "(string \<times> Constraint) list"

record table_content = VirtualTableContent +
  vt_aliases :: "(string, nat) omap"
  vt_constraints :: "(int, ConstraintSet) omap"
  vt_colsUsed :: "(int, string list) omap"
  vt_colsUsedBitsets :: "(int, u64) omap"

definition table_content_new :: "string \<Rightarrow> table_content" where
  "table_content_new name =
     \<lparr>vt_name = name, vt_columns = [], vt_attributes = 0, vt_cache = [], vt_aliases = [], vt_constraints = [], vt_colsUsed = [],
      vt_colsUsedBitsets = []\<rparr>"

record SQLiteDBInstance =
  primary :: bool
  managed :: bool
  use_cache :: bool
  affected_tables :: "string list"

definition addAffectedTable :: "string \<Rightarrow> SQLiteDBInstance \<Rightarrow> SQLiteDBInstance" where
  "addAffectedTable name i = i\<lparr>affected_tables := List.insert name (affected_tables i)\<rparr>"

text \<open>A generator is what it has left to yield, its current row first.\<close>

record BaseCursor =
  cur_id :: nat
  cur_rows :: "Row list"
  cur_generator :: "Row list option"
  cur_current :: Row
  uses_generator :: bool
  cur_row :: nat
  cur_n :: nat

definition xOpen :: "nat \<Rightarrow> BaseCursor \<times> nat" where
  "xOpen kPlannerCursorID =
     (\<lparr>cur_id = kPlannerCursorID, cur_rows = [], cur_generator = None, cur_current = [], uses_generator = False, cur_row = 0, cur_n = 0\<rparr>,
      kPlannerCursorID + 1)"

definition xEof :: "BaseCursor \<Rightarrow> (bool \<times> BaseCursor) throwing" where
  "xEof cur =
     (if uses_generator cur then
        (case cur_generator cur of
           None \<Rightarrow> Inl (undefined_behaviour ''null generator'')
         | Some [] \<Rightarrow> Inr (True, cur\<lparr>cur_generator := None\<rparr>)
         | Some _ \<Rightarrow> Inr (False, cur))
      else Inr (cur_row cur \<ge> cur_n cur, cur))"

text \<open>Resuming a generator that has ended is undefined.\<close>

definition xNext :: "BaseCursor \<Rightarrow> BaseCursor throwing" where
  "xNext cur =
     (if uses_generator cur then
        (case cur_generator cur of
           Some (_ # rs) \<Rightarrow> Inr (cur\<lparr>cur_generator := Some rs, cur_current := (case rs of r # _ \<Rightarrow> r | [] \<Rightarrow> cur_current cur),
                                   cur_row := cur_row cur + 1\<rparr>)
         | _ \<Rightarrow> Inl (undefined_behaviour ''ended generator''))
      else Inr (cur\<lparr>cur_row := cur_row cur + 1\<rparr>))"

section \<open>Rows\<close>

definition get_rowid :: "vtab_env \<Rightarrow> Row \<Rightarrow> int \<Rightarrow> int \<times> int option" where
  "get_rowid e r default_value =
     (case om_get r ''rowid'' of
        None \<Rightarrow> (SQLITE_OK, Some default_value)
      | Some field \<Rightarrow> (case expected_value (tryTo_longlong (ve_what e) 10 field) of
            None \<Rightarrow> (SQLITE_ERROR, None)
          | Some i \<Rightarrow> (SQLITE_OK, Some i)))"

text \<open>The position past the last row is an error; one further is not a position of the vector.\<close>

definition xRowid :: "vtab_env \<Rightarrow> BaseCursor \<Rightarrow> (int \<times> int) throwing" where
  "xRowid e cur =
     (if cur_row cur > length (cur_rows cur) then Inl (undefined_behaviour ''iterator'')
      else if cur_row cur = length (cur_rows cur) then Inr (SQLITE_ERROR, 0)
      else (case get_rowid e (cur_rows cur ! cur_row cur) (int (cur_row cur)) of
              (rc, id') \<Rightarrow> Inr (rc, case id' of Some i \<Rightarrow> i | None \<Rightarrow> 0)))"

text \<open>
  The value of a column as SQLite gets it, none when the type is unknown; \<open>sqlite3_result_int\<close> takes an \<open>int\<close>, so that a
  \<open>long\<close> is cut to its low 32 bits.
\<close>

definition column_value :: "vtab_env \<Rightarrow> ColumnType \<Rightarrow> string \<Rightarrow> sqlite_value option" where
  "column_value e type v =
     (if type = TEXT_TYPE \<or> type = BLOB_TYPE then Some (SV_TEXT v)
      else if v = [] \<and> type \<in> {INTEGER_TYPE, BIGINT_TYPE, UNSIGNED_BIGINT_TYPE, DOUBLE_TYPE} then Some SV_NULL
      else if type = INTEGER_TYPE then
        (case expected_value (tryTo_longlong (ve_what e) 0 v) of
           None \<Rightarrow> Some SV_NULL | Some i \<Rightarrow> Some (SV_INTEGER (signed_take_bit 31 i)))
      else if type = BIGINT_TYPE \<or> type = UNSIGNED_BIGINT_TYPE then
        (case expected_value (tryTo_longlong (ve_what e) 0 v) of None \<Rightarrow> Some SV_NULL | Some i \<Rightarrow> Some (SV_INTEGER i))
      else if type = DOUBLE_TYPE then
        (case ve_strtod e v of None \<Rightarrow> Some SV_NULL | Some d \<Rightarrow> Some (SV_FLOAT d))
      else None)"

text \<open>
  The name and the type are references into the columns of the table: reading an aliased column overwrites the alias with
  the column it stands for. \<open>row[column_name]\<close> adds an empty value when the row has none, before the row is asked whether it
  has one.
\<close>

definition resolve_alias :: "nat \<Rightarrow> table_content \<Rightarrow> table_content" where
  "resolve_alias col content =
     (case vt_columns content ! col of (name, type, options) \<Rightarrow>
        case om_get (vt_aliases content) name of
          None \<Rightarrow> content
        | Some target \<Rightarrow>
            (case vt_columns content ! target of (name', type', _) \<Rightarrow>
               content\<lparr>vt_columns := (vt_columns content)[col := (name', type', options)]\<rparr>))"

definition get_column :: "vtab_env \<Rightarrow> nat \<Rightarrow> Row \<Rightarrow> table_content \<Rightarrow> sqlite_value option \<times> Row \<times> table_content" where
  "get_column e col r content =
     (let content' = resolve_alias col content;
          (name, type, _) = vt_columns content' ! col;
          v = (case om_get r name of Some v \<Rightarrow> v | None \<Rightarrow> []);
          r' = om_set name v r
      in (if \<not> om_has r' name then Some SV_NULL else column_value e type v, r', content'))"

definition xColumn :: "vtab_env \<Rightarrow> nat \<Rightarrow> BaseCursor \<Rightarrow> table_content \<Rightarrow> int \<times> sqlite_value option \<times> BaseCursor \<times> table_content" where
  "xColumn e col cur content =
     (if col \<ge> length (vt_columns content) then (SQLITE_ERROR, None, cur, content)
      else if \<not> uses_generator cur \<and> cur_row cur \<ge> length (cur_rows cur) then (SQLITE_ERROR, None, cur, content)
      else if uses_generator cur then
        (case get_column e col (cur_current cur) content of (v, r, c) \<Rightarrow> (SQLITE_OK, v, cur\<lparr>cur_current := r\<rparr>, c))
      else (case get_column e col (cur_rows cur ! cur_row cur) content of
              (v, r, c) \<Rightarrow> (SQLITE_OK, v, cur\<lparr>cur_rows := (cur_rows cur)[cur_row cur := r]\<rparr>, c)))"

section \<open>Creating a table\<close>

text \<open>The place of the first column of a name, \<open>0\<close> when there is none.\<close>

definition alias_target :: "TableColumns \<Rightarrow> string \<Rightarrow> nat" where
  "alias_target cols target =
     (case List.find (\<lambda>i. fst (cols ! i) = target) [0..<length cols] of Some i \<Rightarrow> i | None \<Rightarrow> 0)"

definition column_options :: "vtab_env \<Rightarrow> bool \<Rightarrow> string option \<Rightarrow> ColumnOptions" where
  "column_options e is_extension cop =
     (let options = (case cop of None \<Rightarrow> OPT_DEFAULT
                      | Some s \<Rightarrow> (case lit_bigint s of Some n \<Rightarrow> signed_take_bit 31 n | None \<Rightarrow> OPT_DEFAULT))
      in if is_extension \<and> extensions_default_index e \<and> options = OPT_DEFAULT then OPT_INDEX else options)"

definition create_column :: "vtab_env \<Rightarrow> bool \<Rightarrow> PluginRequest \<Rightarrow> table_content \<times> string list \<Rightarrow> table_content \<times> string list" where
  "create_column e is_extension column s =
     (let (content, views) = s in
      case om_get column ''id'' of None \<Rightarrow> (content, views) | Some cid \<Rightarrow>
        (let cname = om_get column ''name''; ctype = om_get column ''type'' in
         if cid = ''column'' \<and> cname \<noteq> None \<and> ctype \<noteq> None then
           (content\<lparr>vt_columns := vt_columns content @
              [(the cname, columnTypeName_of (the ctype), column_options e is_extension (om_get column ''op''))]\<rparr>, views)
         else if cid = ''alias'' then
           (content, case om_get column ''alias'' of Some calias \<Rightarrow> insort_insert calias views | None \<Rightarrow> views)
         else if cid = ''columnAlias'' \<and> cname \<noteq> None then
           (case om_get column ''target'' of
              None \<Rightarrow> (content, views)
            | Some ctarget \<Rightarrow>
                (let cols = vt_columns content @ [(the cname, UNKNOWN_TYPE, OPT_HIDDEN)]
                 in (content\<lparr>vt_columns := cols, vt_aliases := om_set (the cname) (alias_target cols ctarget) (vt_aliases content)\<rparr>, views)))
         else if cid = ''attributes'' then
           (case om_get column ''attributes'' of
              None \<Rightarrow> (content, views)
            | Some cattr \<Rightarrow> (case lit_bigint cattr of
                 None \<Rightarrow> (content, views) | Some n \<Rightarrow> (content\<lparr>vt_attributes := signed_take_bit 31 n\<rparr>, views)))
         else (content, views)))"

text \<open>The code, the table and the statements that create its views; the outcome of each statement is not looked at.\<close>

definition xCreate :: "vtab_env \<Rightarrow> string list \<Rightarrow> string list \<Rightarrow> TablePlugin RegistryFactory
    \<Rightarrow> (int \<times> table_content option \<times> string list \<times> TablePlugin RegistryFactory) throwing" where
  "xCreate e extension_table_list argv f =
     (case argv of [] \<Rightarrow> Inr (SQLITE_NOMEM, None, [], f)
      | name # _ \<Rightarrow> exn_bind (call_table e name [(''action'', ''columns'')] f) (\<lambda>(status, response, f').
          if \<not> ok status \<or> response = [] then Inr (SQLITE_ERROR, None, [], f')
          else let is_extension = name \<in> set extension_table_list;
                   rc = ve_declare e (''CREATE TABLE '' @ name @ columnDefinition_response response True is_extension)
               in if rc \<noteq> SQLITE_OK then Inr (rc, None, [], f')
                  else let (content, views) = fold (create_column e is_extension) response (table_content_new name, [])
                       in Inr (rc, Some content, map (\<lambda>view. ''CREATE VIEW '' @ view @ '' AS SELECT * FROM '' @ name) views, f')))"

text \<open>The module of a table is made once; only one made for an extension has \<open>xUpdate\<close>.\<close>

definition getVirtualTableModule :: "string \<Rightarrow> bool \<Rightarrow> (string, bool) omap \<times> string list \<Rightarrow> bool \<times> (string, bool) omap \<times> string list" where
  "getVirtualTableModule table_name extension s =
     (let (sqlite_module_map, extension_table_list) = s in
      case om_get sqlite_module_map table_name of
        Some has_xUpdate \<Rightarrow> (has_xUpdate, s)
      | None \<Rightarrow> (extension, om_set table_name extension sqlite_module_map,
                  if extension then List.insert table_name extension_table_list else extension_table_list))"

section \<open>Changing a table\<close>

definition getColumnValue :: "vtab_env \<Rightarrow> nat \<Rightarrow> sqlite_value list \<Rightarrow> string option" where
  "getColumnValue e index argv =
     (if index \<ge> length argv then None
      else Some (case argv ! index of
                   SV_INTEGER i \<Rightarrow> to_string_int i
                 | SV_FLOAT d \<Rightarrow> ve_double e d
                 | SV_BLOB s \<Rightarrow> s
                 | SV_TEXT s \<Rightarrow> s
                 | SV_NULL \<Rightarrow> []))"

definition update_value :: "string \<times> ColumnType \<times> ColumnOptions \<Rightarrow> sqlite_value \<Rightarrow> json option" where
  "update_value column v =
     (case column of (_, columnType, columnOptions) \<Rightarrow>
        case v of
          SV_INTEGER i \<Rightarrow> if columnType \<notin> {INTEGER_TYPE, BIGINT_TYPE, UNSIGNED_BIGINT_TYPE} then None else Some (JInt i)
        | SV_FLOAT d \<Rightarrow> if columnType \<noteq> DOUBLE_TYPE then None else Some (JDouble d)
        | SV_BLOB s \<Rightarrow> if columnType \<noteq> BLOB_TYPE then None else Some (JString s)
        | SV_TEXT s \<Rightarrow> if columnType \<noteq> TEXT_TYPE then None else Some (JString s)
        | SV_NULL \<Rightarrow> if columnOptions = OPT_INDEX \<or> columnOptions = OPT_REQUIRED then None else Some JNull)"

fun update_values :: "TableColumns \<Rightarrow> sqlite_value list \<Rightarrow> json list option" where
  "update_values (c # cs) (v # vs) =
     (case update_value c v of None \<Rightarrow> None
      | Some j \<Rightarrow> (case update_values cs vs of None \<Rightarrow> None | Some js \<Rightarrow> Some (j # js)))"
| "update_values _ _ = Some []"

definition serializeUpdateParameters :: "vtab_env \<Rightarrow> sqlite_value list \<Rightarrow> TableColumns \<Rightarrow> int + string" where
  "serializeUpdateParameters e argv columnDescriptors =
     (if length columnDescriptors \<noteq> length argv - 2 then Inl SQLITE_RANGE
      else case update_values columnDescriptors (drop 2 argv) of
             None \<Rightarrow> Inl SQLITE_MISMATCH
           | Some js \<Rightarrow> Inr (c_str (rj_print (ve_rj e) (JArray js))))"

text \<open>The request of a delete, an insert or an update. \<open>insert\<close> into a map keeps a value that is there.\<close>

definition update_request :: "vtab_env \<Rightarrow> table_content \<Rightarrow> sqlite_value list \<Rightarrow> int + PluginRequest" where
  "update_request e content argv =
     (if length argv = 1 then Inr [(''action'', ''delete''), (''id'', to_string_int (ve_int64 e (argv ! 0)))]
      else if argv ! 0 = SV_NULL then
        exn_bind (serializeUpdateParameters e argv (vt_columns content)) (\<lambda>values.
          let request = om_set ''json_value_array'' values [(''action'', ''insert'')] in
          if argv ! 1 \<noteq> SV_NULL
          then (case getColumnValue e 1 argv of
                  None \<Rightarrow> Inl SQLITE_ERROR
                | Some rowid \<Rightarrow> Inr (om_set ''id'' rowid (om_set ''auto_rowid'' ''true'' request)))
          else Inr (om_set ''auto_rowid'' ''false'' request))
      else case argv ! 0 of
        SV_INTEGER _ \<Rightarrow>
          (case getColumnValue e 0 argv of None \<Rightarrow> Inl SQLITE_ERROR | Some current_rowid \<Rightarrow>
             (let request = om_set ''id'' current_rowid [(''action'', ''update'')];
                  request1 = (case argv ! 1 of
                     SV_INTEGER _ \<Rightarrow> (case getColumnValue e 1 argv of
                        None \<Rightarrow> Inl SQLITE_ERROR
                      | Some new_rowid \<Rightarrow> Inr (if new_rowid \<noteq> current_rowid then om_set ''new_id'' new_rowid request else request))
                   | _ \<Rightarrow> Inr request)
              in exn_bind request1 (\<lambda>r. exn_bind (serializeUpdateParameters e argv (vt_columns content)) (\<lambda>values.
                   Inr (om_set ''json_value_array'' values r)))))
      | _ \<Rightarrow> Inl SQLITE_ERROR)"

text \<open>The row id an insert returns to SQLite.\<close>

definition insert_rowid :: "vtab_env \<Rightarrow> sqlite_value list \<Rightarrow> PluginRequest \<Rightarrow> Row \<Rightarrow> int option" where
  "insert_rowid e argv request response =
     (case (if om_get request ''auto_rowid'' = Some ''true'' then getColumnValue e 1 argv else om_get response ''id'') of
        None \<Rightarrow> None
      | Some rowid \<Rightarrow> expected_value (tryTo_longlong (ve_what e) 10 rowid))"

text \<open>The code, the error message and the row id that are set.\<close>

definition update_outcome :: "vtab_env \<Rightarrow> table_content \<Rightarrow> sqlite_value list \<Rightarrow> PluginRequest \<Rightarrow> PluginResponse
    \<Rightarrow> int \<times> string option \<times> int option" where
  "update_outcome e content argv request response_list =
     (case response_list of
        [response] \<Rightarrow>
          (case om_get response ''status'' of
             None \<Rightarrow> (SQLITE_ERROR, None, None)
           | Some status \<Rightarrow>
               if status = ''readonly'' then (SQLITE_READONLY, Some (''table '' @ vt_name content @ '' may not be modified''), None)
               else if status = ''failure'' then (SQLITE_ERROR, om_get response ''message'', None)
               else if status = ''constraint'' then (SQLITE_CONSTRAINT, None, None)
               else if status \<noteq> ''success'' then (SQLITE_ERROR, None, None)
               else if om_get request ''action'' = Some ''insert'' then
                 (case insert_rowid e argv request response of
                    None \<Rightarrow> (SQLITE_ERROR, None, None) | Some rowid \<Rightarrow> (SQLITE_OK, None, Some rowid))
               else (SQLITE_OK, None, None))
      | _ \<Rightarrow> (SQLITE_ERROR, None, None))"

definition xUpdate :: "vtab_env \<Rightarrow> table_content \<Rightarrow> sqlite_value list \<Rightarrow> TablePlugin RegistryFactory
    \<Rightarrow> ((int \<times> string option \<times> int option) \<times> TablePlugin RegistryFactory) throwing" where
  "xUpdate e content argv f =
     (case update_request e content argv of
        Inl rc \<Rightarrow> Inr ((rc, None, None), f)
      | Inr r \<Rightarrow>
          (let request = setRequestFromContext (ve_rj e) (QueryContext_of (VirtualTableContent.truncate content)) r
           in exn_bind (call_table e (vt_name content) request f) (\<lambda>(_, response_list, f').
                Inr (update_outcome e content argv request response_list, f'))))"

section \<open>Planning a scan\<close>

definition sensibleComparison :: "ColumnType \<Rightarrow> u8 \<Rightarrow> bool" where
  "sensibleComparison type op \<longleftrightarrow>
     \<not> (type = TEXT_TYPE \<and> (op = GREATER_THAN \<or> op = GREATER_THAN_OR_EQUALS \<or> op = LESS_THAN \<or> op = LESS_THAN_OR_EQUALS))"

text \<open>A constraint SQLite proposes; \<open>ic_in\<close> is what \<open>sqlite3_vtab_in\<close> says of processing it all at once.\<close>

record index_constraint =
  ic_column :: int
  ic_op :: u8
  ic_usable :: bool
  ic_in :: bool

record sqlite3_index_info =
  aConstraint :: "index_constraint list"
  colUsed :: u64

text \<open>
  The loop over the constraints: the set that is recorded, the cost (a whole number), whether a required column has a
  constraint, and for every constraint its \<open>argvIndex\<close> and whether it is to be processed all at once.
\<close>

record best_state =
  bs_constraints :: ConstraintSet
  bs_cost :: nat
  bs_required :: bool
  bs_usage :: "(nat \<times> bool) list"

definition kMaxIndexCost :: nat where "kMaxIndexCost = 1000000"

definition best_constraint :: "TableColumns \<Rightarrow> index_constraint \<Rightarrow> best_state \<Rightarrow> best_state" where
  "best_constraint columns c s =
     (let unused = s\<lparr>bs_usage := bs_usage s @ [(0, False)]\<rparr> in
      if \<not> ic_usable c then unused
      else if ic_column c < 0 \<or> nat (ic_column c) \<ge> length columns then unused
      else case columns ! nat (ic_column c) of (name, type, options) \<Rightarrow>
        if \<not> sensibleComparison type (ic_op c) then unused\<lparr>bs_cost := bs_cost s + 10\<rparr>
        else if \<not> has_option options OPT_REQUIRED \<and> \<not> has_option options (OPT_INDEX OR OPT_ADDITIONAL) then unused
        else let at_once = ic_in c \<and> has_option options OPT_OPTIMIZED
             in \<lparr>bs_constraints = bs_constraints s @ [(name, \<lparr>c_op = (if at_once then IN_OP else ic_op c), c_expr = []\<rparr>)],
                 bs_cost = 1, bs_required = (bs_required s \<or> has_option options OPT_REQUIRED),
                 bs_usage = bs_usage s @ [(length (bs_constraints s) + 1, at_once)]\<rparr>)"

text \<open>The loop over the columns: bits, names and whether a required column is used. Bit 63 stands for every column from the 64th on.\<close>

definition column_bit :: "nat \<Rightarrow> nat" where
  "column_bit i = (if i < 63 then i else 63)"

definition used_column :: "table_content \<Rightarrow> nat \<Rightarrow> u64 \<times> string list \<times> bool \<Rightarrow> u64 \<times> string list \<times> bool" where
  "used_column content i s =
     (let (bits, names, required) = s in
      if \<not> bit bits (column_bit i) then s
      else case vt_columns content ! i of (name, _, options) \<Rightarrow>
        (let required' = (required \<or> has_option options OPT_REQUIRED) in
         case om_get (vt_aliases content) name of
           None \<Rightarrow> (bits, List.insert name names, required')
         | Some real_index \<Rightarrow>
             (set_bit (column_bit real_index) (unset_bit (column_bit i) bits), List.insert (fst (vt_columns content ! real_index)) names, required')))"

definition used_columns :: "table_content \<Rightarrow> u64 \<Rightarrow> u64 \<times> string list \<times> bool" where
  "used_columns content used =
     (if used \<noteq> 0 then fold (used_column content) [0..<length (vt_columns content)] (used, [], False) else (used, [], False))"

text \<open>
  \<open>kConstraintIndexID\<close> is a \<open>size_t\<close> and the index an \<open>int\<close>. The result is what SQLite reads: the use of every constraint, the
  index and the cost.
\<close>

definition xBestIndex :: "sqlite3_index_info \<Rightarrow> u64 \<Rightarrow> SQLiteDBInstance \<Rightarrow> table_content
    \<Rightarrow> ((nat \<times> bool) list \<times> int \<times> nat) \<times> u64 \<times> SQLiteDBInstance \<times> table_content" where
  "xBestIndex info kConstraintIndexID inst content =
     (let s = fold (best_constraint (vt_columns content)) (aConstraint info)
                \<lparr>bs_constraints = [], bs_cost = kMaxIndexCost, bs_required = False, bs_usage = []\<rparr>;
          (bits, names, hasRequiredColumns) = used_columns content (colUsed info);
          cost = (if hasRequiredColumns \<and> \<not> bs_required s then kMaxIndexCost else bs_cost s);
          idxNum = signed_take_bit 31 (uint kConstraintIndexID)
      in ((bs_usage s, idxNum, cost), kConstraintIndexID + 1, addAffectedTable (vt_name content) inst,
          content\<lparr>vt_constraints := om_set idxNum (bs_constraints s) (vt_constraints content),
                  vt_colsUsed := om_set idxNum names (vt_colsUsed content),
                  vt_colsUsedBitsets := om_set idxNum bits (vt_colsUsedBitsets content)\<rparr>))"

section \<open>Scanning\<close>

definition TABLE_USER_BASED :: int where "TABLE_USER_BASED = 8"

definition constraint_list :: "(string, ConstraintList) omap \<Rightarrow> string \<Rightarrow> ConstraintList" where
  "constraint_list m name = (case om_get m name of Some cl \<Rightarrow> cl | None \<Rightarrow> ConstraintList_new)"

text \<open>One value of a constraint: the recorded constraint keeps the last expression.\<close>

definition constraint_lambda :: "vtab_env \<Rightarrow> bool \<Rightarrow> string \<Rightarrow> sqlite_value \<Rightarrow> Constraint \<times> (string, ConstraintList) omap
    \<Rightarrow> Constraint \<times> (string, ConstraintList) omap" where
  "constraint_lambda e safe name v s =
     (let (c, m) = s in
      case ve_text e v of
        None \<Rightarrow> s
      | Some expr \<Rightarrow>
          if \<not> safe \<and> c_str expr = [] then s
          else let c' = c\<lparr>c_expr := c_str expr\<rparr> in (c', om_set name (cl_add c' (constraint_list m name)) m))"

text \<open>A constraint marked for \<open>IN\<close> is turned back to \<open>EQUALS\<close> in the recorded set.\<close>

definition filter_constraint :: "vtab_env \<Rightarrow> filter_arg \<Rightarrow> string \<times> Constraint \<Rightarrow> (string, ConstraintList) omap
    \<Rightarrow> (string \<times> Constraint) \<times> (string, ConstraintList) omap" where
  "filter_constraint e a nc m =
     (let (name, c) = nc;
          (c', m') = (if c_op c = IN_OP then fold (constraint_lambda e True name) (arg_in a) (c\<lparr>c_op := EQUALS\<rparr>, m)
                      else constraint_lambda e False name (arg_value a) (c, m))
      in ((name, c'), m'))"

fun filter_args :: "vtab_env \<Rightarrow> filter_arg list \<Rightarrow> ConstraintSet \<Rightarrow> (string, ConstraintList) omap
    \<Rightarrow> (ConstraintSet \<times> (string, ConstraintList) omap) throwing" where
  "filter_args e [] cs m = Inr (cs, m)"
| "filter_args e (a # as) [] m = Inl (undefined_behaviour ''constraints'')"
| "filter_args e (a # as) (nc # cs) m =
     (let (nc', m') = filter_constraint e a nc m
      in exn_bind (filter_args e as cs m') (\<lambda>(cs', m''). Inr (nc' # cs', m'')))"

text \<open>\<open>options\<close> of a name: those of the last column of that name.\<close>

definition name_options :: "TableColumns \<Rightarrow> string \<Rightarrow> ColumnOptions" where
  "name_options columns name =
     (case map_of (rev (map (\<lambda>(n, _, options). (n, options)) columns)) name of Some options \<Rightarrow> options | None \<Rightarrow> OPT_DEFAULT)"

definition base_constraints :: "TableColumns \<Rightarrow> (string, ConstraintList) omap" where
  "base_constraints columns =
     fold (\<lambda>(name, type, _) m. om_set name ((constraint_list m name)\<lparr>cl_affinity := type\<rparr>) m) columns []"

text \<open>
  The context of a scan, whether a constraint on a required column is missing, and the table with its recorded constraints as the
  scan leaves them. The bitset of a context that was not planned is an empty \<open>optional\<close>.
\<close>

definition scan_context :: "vtab_env \<Rightarrow> int \<Rightarrow> filter_arg list \<Rightarrow> bool \<Rightarrow> table_content \<Rightarrow> (QueryContext \<times> bool \<times> table_content) throwing" where
  "scan_context e idxNum argv cached content =
     (let columns = vt_columns content;
          required = list_ex (\<lambda>(_, _, options). has_option options OPT_REQUIRED) columns;
          recorded = (case om_get (vt_constraints content) idxNum of Some cs \<Rightarrow> cs | None \<Rightarrow> [])
      in exn_bind (if vt_constraints content \<noteq> [] then filter_args e argv recorded (base_constraints columns)
                   else Inr (recorded, base_constraints columns)) (\<lambda>(cs, m).
         let content' = (if vt_constraints content \<noteq> [] then content\<lparr>vt_constraints := om_set idxNum cs (vt_constraints content)\<rparr> else content);
             satisfied = (\<not> required \<or> list_ex (\<lambda>(name, _). has_option (name_options columns name) OPT_REQUIRED) cs)
         in if vt_colsUsedBitsets content' = [] then Inl (undefined_behaviour ''empty optional'')
            else Inr ((QueryContext_of (VirtualTableContent.truncate content'))\<lparr>
                   qc_use_cache := cached, qc_constraints := m,
                   qc_colsUsedBitset := Some (case om_get (vt_colsUsedBitsets content') idxNum of Some b \<Rightarrow> b | None \<Rightarrow> 0),
                   qc_colsUsed := (if vt_colsUsed content' \<noteq> []
                                   then Some (case om_get (vt_colsUsed content') idxNum of Some ns \<Rightarrow> ns | None \<Rightarrow> []) else None)\<rparr>,
                 satisfied, content')))"

text \<open>
  \<open>xFilter\<close>: the code, the error message that is set, the cursor, the table and the registry. The warnings about user based and
  event based tables and the flag \<open>table_delay\<close> change nothing else. A generator is given a moved context, and the move leaves the bitset behind.
\<close>

definition required_message :: "string \<Rightarrow> string" where
  "required_message name = ''Table '' @ name @ '' was queried without a required column in the WHERE clause''"

definition generate_rows :: "vtab_env \<Rightarrow> string \<Rightarrow> QueryContext \<Rightarrow> BaseCursor \<Rightarrow> TablePlugin RegistryFactory
    \<Rightarrow> (int \<times> string option \<times> BaseCursor \<times> TablePlugin RegistryFactory) throwing" where
  "generate_rows e name context cur f =
     (case (if rf_exists f ''table'' name True then map_option (\<lambda>r. om_get (items r) name) (om_get (registries f) ''table'') else None) of
        Some (Some p) \<Rightarrow>
          (let table = pl_state p in
           case ve_generator e table (context\<lparr>qc_colsUsedBitset := None\<rparr>) of
             Some rs \<Rightarrow> Inr (SQLITE_OK, None, cur\<lparr>uses_generator := True, cur_generator := Some rs,
                                               cur_current := (case rs of r # _ \<Rightarrow> r | [] \<Rightarrow> cur_current cur)\<rparr>, f)
           | None \<Rightarrow>
               (case ve_throws e table context of
                  Some exn \<Rightarrow> if \<not> ignore_table_exceptions e then Inl exn else Inr (SQLITE_ERROR, Some (ve_what e exn), cur, f)
                | None \<Rightarrow> (let rows = tp_generate table context in Inr (SQLITE_OK, None, cur\<lparr>cur_rows := rows, cur_n := length rows\<rparr>, f))))
      | _ \<Rightarrow> exn_bind (call_table e name (setRequestFromContext (ve_rj e) context [(''action'', ''generate'')]) f) (\<lambda>(status, qd, f').
               if \<not> ok status then Inr (SQLITE_ERROR, Some (st_message status), cur, f')
               else Inr (SQLITE_OK, None, cur\<lparr>cur_rows := qd, cur_n := length qd\<rparr>, f')))"

definition xFilter :: "vtab_env \<Rightarrow> int \<Rightarrow> filter_arg list \<Rightarrow> SQLiteDBInstance \<Rightarrow> BaseCursor \<Rightarrow> table_content \<Rightarrow> TablePlugin RegistryFactory
    \<Rightarrow> (int \<times> string option \<times> SQLiteDBInstance \<times> BaseCursor \<times> table_content \<times> TablePlugin RegistryFactory) throwing" where
  "xFilter e idxNum argv inst cur content f =
     (let inst' = addAffectedTable (vt_name content) inst;
          cur' = cur\<lparr>cur_row := 0, cur_n := 0, cur_rows := []\<rparr>
      in exn_bind (scan_context e idxNum argv (use_cache inst) content) (\<lambda>(context, required_satisfied, content').
           if \<not> required_satisfied
           then Inr (SQLITE_CONSTRAINT,
                     if list_ex (\<lambda>(name, _). name = ''uid'' \<or> name = ''username'')
                          (case om_get (vt_constraints content') idxNum of Some cs \<Rightarrow> cs | None \<Rightarrow> [])
                        \<or> vt_attributes content AND TABLE_USER_BASED = 0 \<or> \<not> ve_admin e
                     then Some (required_message (vt_name content)) else None, inst', cur', content', f)
           else exn_bind (generate_rows e (vt_name content) context cur' f) (\<lambda>(rc, message, cur'', f'). Inr (rc, message, inst', cur'', content', f'))))"

end
