(* ===== verification/VirtualTablesSafety.thy ===== *)
theory VirtualTablesSafety
  imports VirtualTables
begin

text \<open>
  What a table and SQLite can rely on: a table is created with the columns of its route info, a scan is told exactly the
  columns the query uses, gets every constraint the plan accepted, and is refused without one on a required column; the cursor
  visits every row once. Also what goes wrong on a second scan, after an aliased column was read, and for values that are missing
  or too large.
\<close>

section \<open>Columns in use\<close>

definition real_column :: "table_content \<Rightarrow> nat \<Rightarrow> nat" where
  "real_column content i =
     (case om_get (vt_aliases content) (fst (vt_columns content ! i)) of Some j \<Rightarrow> j | None \<Rightarrow> i)"

text \<open>An alias stands for a column of the table that is no alias.\<close>

definition aliases_ok :: "table_content \<Rightarrow> bool" where
  "aliases_ok content \<longleftrightarrow>
     list_all (\<lambda>(_, j). j < length (vt_columns content) \<and> \<not> om_has (vt_aliases content) (fst (vt_columns content ! j))) (vt_aliases content)"

lemma aliases_okD:
  "aliases_ok content \<Longrightarrow> om_get (vt_aliases content) a = Some j \<Longrightarrow>
   j < length (vt_columns content) \<and> om_get (vt_aliases content) (fst (vt_columns content ! j)) = None"
  by (fastforce simp: aliases_ok_def list_all_iff om_get_def om_has_def dest: map_of_SomeD)

lemma real_column_real: "aliases_ok content \<Longrightarrow> real_column content i = j \<Longrightarrow> real_column content j = j"
  using aliases_okD [of content "fst (vt_columns content ! i)" j] by (auto simp: real_column_def split: option.splits)

lemma used_columns_prefix:
  assumes "aliases_ok content" "n \<le> length (vt_columns content)" "length (vt_columns content) \<le> 63"
    and "fold (used_column content) [0..<n] (used, [], False) = (bits, names, required)"
  shows "set names = {fst (vt_columns content ! real_column content i) | i. i < n \<and> bit used i} \<and>
    (\<forall>k < 64. bit bits k \<longleftrightarrow> n \<le> k \<and> bit used k \<or> (\<exists>i < n. bit used i \<and> real_column content i = k))"
  using assms(2,4)
proof (induction n arbitrary: bits names required)
  case 0
  then show ?case by auto
next
  case (Suc n)
  obtain b ns r where s: "fold (used_column content) [0..<n] (used, [], False) = (b, ns, r)" by (metis prod_cases3)
  have IH: "set ns = {fst (vt_columns content ! real_column content i) | i. i < n \<and> bit used i}"
    "\<And>k. k < 64 \<Longrightarrow> bit b k \<longleftrightarrow> n \<le> k \<and> bit used k \<or> (\<exists>i < n. bit used i \<and> real_column content i = k)"
    using Suc.IH [OF _ s] Suc.prems(1) by auto
  have n: "n < 63" "column_bit n = n" using Suc.prems(1) assms(3) by (simp_all add: column_bit_def)
  obtain name type options where col: "vt_columns content ! n = (name, type, options)" by (metis prod_cases3)
  have step: "used_column content n (b, ns, r) = (bits, names, required)" using Suc.prems(2) s by simp
  have hit: "bit b n \<longleftrightarrow> bit used n \<or> (\<exists>i < n. bit used i \<and> real_column content i = n)" using IH(2) [of n] n by auto
  have old: "{F i | i. i < Suc n \<and> bit used i} = {F i | i. i < n \<and> bit used i} \<union> (if bit used n then {F n} else {})"
    for F :: "nat \<Rightarrow> string" by (auto simp: less_Suc_eq)
  have ex: "(\<exists>i < Suc n. bit used i \<and> real_column content i = k) \<longleftrightarrow>
      (\<exists>i < n. bit used i \<and> real_column content i = k) \<or> bit used n \<and> real_column content n = k" for k
    by (auto simp: less_Suc_eq)
  show ?case
  proof (cases "om_get (vt_aliases content) name")
    case None
    then have real: "real_column content n = n" by (simp add: real_column_def col)
    have s': "names = (if bit b n then List.insert name ns else ns)" "bits = b"
      using step n None by (auto simp: used_column_def col split: if_splits)
    have "set names = {fst (vt_columns content ! real_column content i) | i. i < Suc n \<and> bit used i}"
      unfolding old s'(1) using hit by (auto simp: IH(1) real col) (metis col fst_conv)
    moreover have "bit bits k \<longleftrightarrow> Suc n \<le> k \<and> bit used k \<or> (\<exists>i < Suc n. bit used i \<and> real_column content i = k)" if "k < 64" for k
      unfolding ex s'(2) IH(2) [OF that] real by (auto simp: Suc_le_eq le_less)
    ultimately show ?thesis by blast
  next
    case (Some j)
    then have real: "real_column content n = j" by (simp add: real_column_def col)
    have j: "j < 63" "column_bit j = j" "j \<noteq> n"
      using aliases_okD [OF assms(1) Some] assms(3) Some by (auto simp: column_bit_def col)
    have none: "real_column content i \<noteq> n" for i using real_column_real [OF assms(1), of i n] real j by auto
    have s': "names = (if bit used n then List.insert (fst (vt_columns content ! j)) ns else ns)"
      "bits = (if bit used n then set_bit j (unset_bit n b) else b)"
      using step n j Some hit none by (auto simp: used_column_def col split: if_splits)
    have "set names = {fst (vt_columns content ! real_column content i) | i. i < Suc n \<and> bit used i}"
      unfolding old s'(1) by (simp add: IH(1) real)
    moreover have "bit bits k \<longleftrightarrow> Suc n \<le> k \<and> bit used k \<or> (\<exists>i < Suc n. bit used i \<and> real_column content i = k)" if "k < 64" for k
      unfolding ex s'(2) using IH(2) [OF that] none [of k] j that none
      by (cases "k = n"; cases "k = j") (auto simp: real bit_set_bit_iff bit_unset_bit_iff Suc_le_eq le_less)
    ultimately show ?thesis by blast
  qed
qed

section \<open>Constraints\<close>

text \<open>The proposals a plan accepts, and the column each is about.\<close>

definition accepted :: "TableColumns \<Rightarrow> index_constraint \<Rightarrow> bool" where
  "accepted columns c \<longleftrightarrow>
     ic_usable c \<and> 0 \<le> ic_column c \<and> nat (ic_column c) < length columns \<and>
     (case columns ! nat (ic_column c) of (_, type, options) \<Rightarrow>
        sensibleComparison type (ic_op c) \<and> has_option options (OPT_REQUIRED OR OPT_INDEX OR OPT_ADDITIONAL))"

definition about :: "TableColumns \<Rightarrow> index_constraint \<Rightarrow> string" where
  "about columns c = fst (columns ! nat (ic_column c))"

definition options_of :: "TableColumns \<Rightarrow> index_constraint \<Rightarrow> ColumnOptions" where
  "options_of columns c = snd (snd (columns ! nat (ic_column c)))"

definition at_once :: "TableColumns \<Rightarrow> index_constraint \<Rightarrow> bool" where
  "at_once columns c \<longleftrightarrow> ic_in c \<and> has_option (options_of columns c) OPT_OPTIMIZED"

definition recorded_constraint :: "TableColumns \<Rightarrow> index_constraint \<Rightarrow> string \<times> Constraint" where
  "recorded_constraint columns c = (about columns c, \<lparr>c_op = (if at_once columns c then IN_OP else ic_op c), c_expr = []\<rparr>)"

text \<open>What a table is given for a proposal: one constraint, or for \<open>IN\<close> one per value. An empty or missing text is left out.\<close>

definition passed :: "vtab_env \<Rightarrow> TableColumns \<Rightarrow> index_constraint \<times> filter_arg \<Rightarrow> Constraint list" where
  "passed e columns ca =
     (let (c, a) = ca in
      if at_once columns c then map (\<lambda>t. \<lparr>c_op = EQUALS, c_expr = c_str t\<rparr>) (List.map_filter (ve_text e) (arg_in a))
      else case ve_text e (arg_value a) of
             None \<Rightarrow> []
           | Some t \<Rightarrow> if c_str t = [] then [] else [\<lparr>c_op = ic_op c, c_expr = c_str t\<rparr>])"

lemma has_option_OR: "has_option options (a OR b) \<longleftrightarrow> has_option options a \<or> has_option options b"
  by (simp add: has_option_def bit.conj_disj_distrib or_eq_0_iff)

lemma best_constraint_accepted:
  "accepted columns c \<Longrightarrow> best_constraint columns c s =
     \<lparr>bs_constraints = bs_constraints s @ [recorded_constraint columns c], bs_cost = 1,
      bs_required = (bs_required s \<or> has_option (options_of columns c) OPT_REQUIRED),
      bs_usage = bs_usage s @ [(length (bs_constraints s) + 1, at_once columns c)]\<rparr>"
  by (auto simp: best_constraint_def accepted_def recorded_constraint_def about_def options_of_def at_once_def has_option_OR Let_def
      split: prod.splits)

lemma best_constraint_refused:
  "\<not> accepted columns c \<Longrightarrow> \<exists>k. best_constraint columns c s = s\<lparr>bs_usage := bs_usage s @ [(0, False)], bs_cost := k\<rparr>"
  by (cases s) (auto simp: best_constraint_def accepted_def has_option_OR Let_def split: prod.splits)

lemma best_fold:
  "bs_constraints (fold (best_constraint columns) cs s) = bs_constraints s @ map (recorded_constraint columns) (filter (accepted columns) cs) \<and>
   (bs_required (fold (best_constraint columns) cs s) \<longleftrightarrow>
      bs_required s \<or> (\<exists>c \<in> set cs. accepted columns c \<and> has_option (options_of columns c) OPT_REQUIRED)) \<and>
   filter (\<lambda>k. k \<noteq> 0) (map fst (bs_usage (fold (best_constraint columns) cs s))) =
     filter (\<lambda>k. k \<noteq> 0) (map fst (bs_usage s)) @
     map (\<lambda>k. length (bs_constraints s) + k + 1) [0..<length (filter (accepted columns) cs)]"
proof (induction cs arbitrary: s)
  case (Cons c cs)
  show ?case
  proof (cases "accepted columns c")
    case True
    have "[0..<Suc n] = 0 # map Suc [0..<n]" for n by (simp only: upt_conv_Cons map_Suc_upt zero_less_Suc)
    then show ?thesis using Cons.IH [of "best_constraint columns c s"] True by (simp add: best_constraint_accepted o_def)
  next
    case False
    then show ?thesis using Cons.IH [of "best_constraint columns c s"] best_constraint_refused [of columns c s] by auto
  qed
qed simp

definition with_more :: "Constraint list \<Rightarrow> ConstraintList \<Rightarrow> ConstraintList" where
  "with_more xs cl = cl\<lparr>cl_constraints := cl_constraints cl @ xs\<rparr>"

lemma with_more_simps [simp]: "with_more [] cl = cl" "with_more ys (with_more xs cl) = with_more (xs @ ys) cl" "cl_add c cl = with_more [c] cl"
  by (simp_all add: with_more_def cl_add_def)

lemma lambda_fold:
  assumes "fold (constraint_lambda e True name) vs (c, m) = (c', m')" "om_get m name = Some cl"
  shows "om_get m' n = (if n = name then Some (with_more (map (\<lambda>t. \<lparr>c_op = c_op c, c_expr = c_str t\<rparr>) (List.map_filter (ve_text e) vs)) cl)
    else om_get m n)"
  using assms
proof (induction vs arbitrary: c m cl)
  case (Cons v vs)
  show ?case
  proof (cases "ve_text e v")
    case None
    then show ?thesis using Cons by (simp add: constraint_lambda_def List.map_filter_simps)
  next
    case (Some t)
    let ?c = "c\<lparr>c_expr := c_str t\<rparr>"
    have c: "?c = \<lparr>c_op = c_op c, c_expr = c_str t\<rparr>" by simp
    have "constraint_lambda e True name v (c, m) = (?c, om_set name (with_more [?c] cl) m)"
      using Some Cons.prems(2) by (simp add: constraint_lambda_def constraint_list_def Let_def)
    then show ?thesis
      using Cons.IH [of ?c "om_set name (with_more [?c] cl) m" "with_more [?c] cl"] Cons.prems(1) Some
      unfolding c by (simp add: List.map_filter_simps)
  qed
qed (simp add: List.map_filter_simps)

lemma filter_constraint_passed:
  assumes "om_get m (about columns c) = Some cl" "ic_op c \<noteq> IN_OP"
    and "filter_constraint e a (recorded_constraint columns c) m = (nc, m')"
  shows "fst nc = about columns c \<and>
    om_get m' n = (if n = about columns c then Some (with_more (passed e columns (c, a)) cl) else om_get m n)"
proof (cases "at_once columns c")
  case True
  then show ?thesis
    using assms(3) lambda_fold [OF _ assms(1), of e "arg_in a" "\<lparr>c_op = EQUALS, c_expr = []\<rparr>"]
    by (auto simp: filter_constraint_def recorded_constraint_def passed_def split: prod.splits)
next
  case False
  then show ?thesis using assms
    by (auto simp: filter_constraint_def recorded_constraint_def passed_def constraint_lambda_def constraint_list_def Let_def
        split: option.splits if_splits)
qed

lemma filter_args_passed:
  assumes "length argv = length cs" "\<forall>c \<in> set cs. ic_op c \<noteq> IN_OP \<and> om_get m (about columns c) \<noteq> None"
  shows "\<exists>cs' m'. filter_args e argv (map (recorded_constraint columns) cs) m = Inr (cs', m') \<and> map fst cs' = map (about columns) cs \<and>
    (\<forall>n cl. om_get m n = Some cl \<longrightarrow>
       om_get m' n = Some (with_more (concat (map (passed e columns) (filter (\<lambda>(c, _). about columns c = n) (zip cs argv)))) cl))"
  using assms
proof (induction cs argv arbitrary: m rule: list_induct2')
  case (4 c cs a argv)
  obtain nc m1 where f: "filter_constraint e a (recorded_constraint columns c) m = (nc, m1)" by fastforce
  obtain cl where cl: "om_get m (about columns c) = Some cl" using "4.prems"(2) by auto
  have m1: "fst nc = about columns c"
    "\<And>n. om_get m1 n = (if n = about columns c then Some (with_more (passed e columns (c, a)) cl) else om_get m n)"
    using filter_constraint_passed [OF cl _ f] "4.prems"(2) by auto
  obtain cs' m' where IH: "filter_args e argv (map (recorded_constraint columns) cs) m1 = Inr (cs', m')" "map fst cs' = map (about columns) cs"
    "\<And>n cl. om_get m1 n = Some cl \<Longrightarrow>
       om_get m' n = Some (with_more (concat (map (passed e columns) (filter (\<lambda>(c, _). about columns c = n) (zip cs argv)))) cl)"
    using "4.IH" [of m1] "4.prems" m1(2) by fastforce
  show ?case using IH(1,2) IH(3) cl m1 f by auto
qed auto

section \<open>The context of a scan\<close>

definition add_affinity :: "string \<times> ColumnType \<times> ColumnOptions \<Rightarrow> (string, ConstraintList) omap \<Rightarrow> (string, ConstraintList) omap" where
  "add_affinity = (\<lambda>(name, type, _) m. om_set name ((constraint_list m name)\<lparr>cl_affinity := type\<rparr>) m)"

lemma affinity_other: "n \<notin> fst ` set cols \<Longrightarrow> om_get (fold add_affinity cols m) n = om_get m n"
  by (induction cols arbitrary: m) (auto simp: add_affinity_def)

lemma affinity_fold:
  "distinct (map fst cols) \<Longrightarrow> (n, t, opts) \<in> set cols \<Longrightarrow>
   om_get (fold add_affinity cols m) n = Some ((constraint_list m n)\<lparr>cl_affinity := t\<rparr>)"
proof (induction cols arbitrary: m)
  case (Cons c cols)
  then show ?case
  proof (cases "c = (n, t, opts)")
    case True
    then show ?thesis using Cons.prems affinity_other [of n cols] by (simp add: add_affinity_def)
  next
    case False
    then have "fst c \<noteq> n" using Cons.prems image_eqI [of n fst "(n, t, opts)" "set cols"] by auto
    then have "constraint_list (add_affinity c m) n = constraint_list m n"
      by (cases c) (simp add: add_affinity_def constraint_list_def)
    then show ?thesis using Cons False by simp
  qed
qed simp

lemma base_constraints_of:
  assumes "distinct (map fst cols)" "(n, t, opts) \<in> set cols"
  shows "om_get (base_constraints cols) n = Some \<lparr>cl_affinity = t, cl_constraints = []\<rparr>"
  using affinity_fold [OF assms, of "[]"]
  by (simp add: base_constraints_def add_affinity_def constraint_list_def ConstraintList_new_def)

lemma name_options_of:
  assumes "distinct (map fst cols)" "(n, t, opts) \<in> set cols"
  shows "name_options cols n = opts"
proof -
  let ?os = "map (\<lambda>(n, _, options). (n, options)) cols"
  have "map fst (rev ?os) = rev (map fst cols)" by (simp add: rev_map o_def case_prod_unfold)
  then have "distinct (map fst (rev ?os))" using assms(1) by simp
  moreover have "(n, opts) \<in> set (rev ?os)" using assms(2) by (auto intro: rev_image_eqI)
  ultimately show ?thesis by (simp add: name_options_def map_of_is_SomeI)
qed

lemma om_set_nonempty: "om_set k v m \<noteq> []"
  by (cases m) (auto split: if_splits)

lemma accepted_column:
  assumes "accepted cols c"
  obtains type where "(about cols c, type, options_of cols c) \<in> set cols"
  using assms that by (force simp: accepted_def about_def options_of_def in_set_conv_nth)

lemma planned_constraints:
  assumes "xBestIndex info k inst content = ((usage, idxNum, cost), k', inst', content')"
  shows "om_get (vt_constraints content') idxNum =
      Some (map (recorded_constraint (vt_columns content)) (filter (accepted (vt_columns content)) (aConstraint info)))"
    "vt_constraints content' \<noteq> []" "vt_colsUsedBitsets content' \<noteq> []" "vt_columns content' = vt_columns content"
    "filter (\<lambda>k. k \<noteq> 0) (map fst usage) = [1..<Suc (length (filter (accepted (vt_columns content)) (aConstraint info)))]"
proof -
  let ?s = "\<lparr>bs_constraints = [], bs_cost = kMaxIndexCost, bs_required = False, bs_usage = []\<rparr>"
  note best = best_fold [of "vt_columns content" "aConstraint info" ?s]
  show c: "om_get (vt_constraints content') idxNum =
      Some (map (recorded_constraint (vt_columns content)) (filter (accepted (vt_columns content)) (aConstraint info)))"
    "vt_columns content' = vt_columns content"
    using assms best by (auto simp: xBestIndex_def Let_def split: prod.splits)
  then show "vt_constraints content' \<noteq> []" by auto
  show "vt_colsUsedBitsets content' \<noteq> []" using assms by (auto simp: xBestIndex_def Let_def om_set_nonempty split: prod.splits)
  have "map (\<lambda>k. k + 1) [0..<n] = [1..<Suc n]" for n :: nat by (simp add: map_Suc_upt)
  then show "filter (\<lambda>k. k \<noteq> 0) (map fst usage) = [1..<Suc (length (filter (accepted (vt_columns content)) (aConstraint info)))]"
    using assms best by (auto simp: xBestIndex_def Let_def split: prod.splits)
qed

lemma scan_planned:
  assumes "distinct (map fst (vt_columns content))" "\<forall>c \<in> set (aConstraint info). ic_op c \<noteq> IN_OP"
    and "xBestIndex info k inst content = ((usage, idxNum, cost), k', inst', content')"
    and "length argv = length (filter (accepted (vt_columns content)) (aConstraint info))"
  obtains ctx satisfied content'' where
    "scan_context e idxNum argv cached content' = Inr (ctx, satisfied, content'')"
    "\<And>n cl. om_get (base_constraints (vt_columns content)) n = Some cl \<Longrightarrow> om_get (qc_constraints ctx) n = Some (with_more
       (concat (map (passed e (vt_columns content)) (filter (\<lambda>(c, _). about (vt_columns content) c = n)
          (zip (filter (accepted (vt_columns content)) (aConstraint info)) argv)))) cl)"
    "satisfied \<longleftrightarrow> \<not> list_ex (\<lambda>(_, _, options). has_option options OPT_REQUIRED) (vt_columns content) \<or>
       list_ex (\<lambda>c. has_option (options_of (vt_columns content) c) OPT_REQUIRED) (filter (accepted (vt_columns content)) (aConstraint info))"
proof -
  let ?cols = "vt_columns content"
  let ?acc = "filter (accepted ?cols) (aConstraint info)"
  note plan = planned_constraints [OF assms(3)]
  have "\<forall>c \<in> set ?acc. ic_op c \<noteq> IN_OP \<and> om_get (base_constraints ?cols) (about ?cols c) \<noteq> None"
    using assms(2) base_constraints_of [OF assms(1)] accepted_column [of ?cols] by (auto simp del: not_None_eq) (metis option.distinct(1))
  then obtain cs m' where f: "filter_args e argv (map (recorded_constraint ?cols) ?acc) (base_constraints ?cols) = Inr (cs, m')"
    "map fst cs = map (about ?cols) ?acc"
    "\<And>n cl. om_get (base_constraints ?cols) n = Some cl \<Longrightarrow>
       om_get m' n = Some (with_more (concat (map (passed e ?cols) (filter (\<lambda>(c, _). about ?cols c = n) (zip ?acc argv)))) cl)"
    using filter_args_passed [OF assms(4), of "base_constraints ?cols" ?cols e] by blast
  have "name_options ?cols (about ?cols c) = options_of ?cols c" if "c \<in> set ?acc" for c
    by (rule accepted_column [of ?cols c]) (use that in \<open>auto intro: name_options_of [OF assms(1)]\<close>)
  then have "list_ex (\<lambda>n. has_option (name_options ?cols n) OPT_REQUIRED) (map (about ?cols) ?acc) \<longleftrightarrow>
      list_ex (\<lambda>c. has_option (options_of ?cols c) OPT_REQUIRED) ?acc"
    by (simp add: list_ex_iff)
  moreover have "list_ex (\<lambda>(name, _). P name) cs \<longleftrightarrow> list_ex P (map fst cs)" for P by (simp add: list_ex_iff case_prod_unfold)
  ultimately show ?thesis using plan f(1,3) by (intro that) (auto simp: scan_context_def Let_def f(2))
qed

text \<open>
  C7. What a scan is told of the query's conditions. SQLite proposes constraints, \<open>xBestIndex\<close> numbers those it accepts
  from 1 on without a gap, and \<open>xFilter\<close> gets their values in that order. Then the context the table is given has for every
  column its type and, in the order of the query, exactly the accepted constraints on that column with the values of this scan:
  one constraint for an \<open>IN\<close> that SQLite steps through, one \<open>EQUALS\<close> per value for an \<open>IN\<close> that is processed at once; a value
  that is empty or NULL adds nothing. The names of the columns are distinct, and no proposal has the code that the module uses
  to mark an \<open>IN\<close>.\<close>

theorem constraints_reach_table:
  assumes "distinct (map fst (vt_columns content))" "\<forall>c \<in> set (aConstraint info). ic_op c \<noteq> IN_OP"
    and "xBestIndex info k inst content = ((usage, idxNum, cost), k', inst', content')"
    and "length argv = length (filter (accepted (vt_columns content)) (aConstraint info))"
  shows "filter (\<lambda>k. k \<noteq> 0) (map fst usage) = [1..<Suc (length argv)] \<and>
    (\<exists>ctx satisfied content''. scan_context e idxNum argv cached content' = Inr (ctx, satisfied, content'') \<and>
       (\<forall>(name, type, _) \<in> set (vt_columns content).
          om_get (qc_constraints ctx) name = Some \<lparr>cl_affinity = type, cl_constraints =
            concat (map (passed e (vt_columns content)) (filter (\<lambda>(c, _). about (vt_columns content) c = name)
              (zip (filter (accepted (vt_columns content)) (aConstraint info)) argv)))\<rparr>))"
proof -
  obtain ctx satisfied content'' where s: "scan_context e idxNum argv cached content' = Inr (ctx, satisfied, content'')"
    "\<And>n cl. om_get (base_constraints (vt_columns content)) n = Some cl \<Longrightarrow> om_get (qc_constraints ctx) n = Some (with_more
       (concat (map (passed e (vt_columns content)) (filter (\<lambda>(c, _). about (vt_columns content) c = n)
          (zip (filter (accepted (vt_columns content)) (aConstraint info)) argv)))) cl)"
    by (rule scan_planned [OF assms, of e cached]) blast
  show ?thesis using planned_constraints(5) [OF assms(3)] assms(4) s base_constraints_of [OF assms(1)]
    by (auto simp: with_more_def)
qed

text \<open>
  A table with required columns is scanned only when the plan accepted a constraint on one of them; otherwise \<open>xFilter\<close> ends with
  \<open>SQLITE_CONSTRAINT\<close>, sets no rows and asks the table for nothing.\<close>

theorem required_column_enforced:
  assumes "distinct (map fst (vt_columns content))" "\<forall>c \<in> set (aConstraint info). ic_op c \<noteq> IN_OP"
    and "xBestIndex info k inst content = ((usage, idxNum, cost), k', inst', content')"
    and "length argv = length (filter (accepted (vt_columns content)) (aConstraint info))"
    and "(name, type, options) \<in> set (vt_columns content)" "has_option options OPT_REQUIRED"
    and "\<forall>c \<in> set (aConstraint info). accepted (vt_columns content) c \<longrightarrow> \<not> has_option (options_of (vt_columns content) c) OPT_REQUIRED"
  shows "\<exists>message inst'' content''. xFilter e idxNum argv inst' cur content' f =
    Inr (SQLITE_CONSTRAINT, message, inst'', cur\<lparr>cur_row := 0, cur_n := 0, cur_rows := []\<rparr>, content'', f)"
proof -
  obtain ctx satisfied content'' where s: "scan_context e idxNum argv (use_cache inst') content' = Inr (ctx, satisfied, content'')"
    "satisfied \<longleftrightarrow> \<not> list_ex (\<lambda>(_, _, options). has_option options OPT_REQUIRED) (vt_columns content) \<or>
       list_ex (\<lambda>c. has_option (options_of (vt_columns content) c) OPT_REQUIRED) (filter (accepted (vt_columns content)) (aConstraint info))"
    by (rule scan_planned [OF assms(1-4), of e "use_cache inst'"]) blast
  have "list_ex (\<lambda>(_, _, options). has_option options OPT_REQUIRED) (vt_columns content)"
    using assms(5,6) by (auto simp: list_ex_iff)
  moreover have "\<not> list_ex (\<lambda>c. has_option (options_of (vt_columns content) c) OPT_REQUIRED) (filter (accepted (vt_columns content)) (aConstraint info))"
    using assms(7) by (simp add: list_ex_iff)
  ultimately show ?thesis using s by (simp add: xFilter_def Let_def)
qed

text \<open>
  C8. The columns a scan is told to fill are exactly those the query uses, by name and by bit, an alias counted as the column
  it stands for, for tables of at most 63 columns.\<close>

theorem used_columns_exact:
  assumes "aliases_ok content" "length (vt_columns content) \<le> 63"
    and "xBestIndex info k inst content = ((usage, idxNum, cost), k', inst', content')"
  shows "\<exists>names bits. om_get (vt_colsUsed content') idxNum = Some names \<and> om_get (vt_colsUsedBitsets content') idxNum = Some bits \<and>
    set names = {fst (vt_columns content ! real_column content i) | i. i < length (vt_columns content) \<and> bit (colUsed info) i} \<and>
    (\<forall>j < length (vt_columns content). bit bits j \<longleftrightarrow> (\<exists>i < length (vt_columns content). bit (colUsed info) i \<and> real_column content i = j))"
proof -
  obtain bits names required where u: "used_columns content (colUsed info) = (bits, names, required)" by (metis prod_cases3)
  have "set names = {fst (vt_columns content ! real_column content i) | i. i < length (vt_columns content) \<and> bit (colUsed info) i} \<and>
    (\<forall>j < length (vt_columns content). bit bits j \<longleftrightarrow> (\<exists>i < length (vt_columns content). bit (colUsed info) i \<and> real_column content i = j))"
  proof (cases "colUsed info = 0")
    case True
    then show ?thesis using u by (auto simp: used_columns_def)
  next
    case False
    then show ?thesis
      using used_columns_prefix [OF assms(1) order_refl assms(2), of "colUsed info" bits names required] u assms(2) by (auto simp: used_columns_def)
  qed
  then show ?thesis using assms(3) u by (auto simp: xBestIndex_def Let_def)
qed

section \<open>The cursor\<close>

text \<open>The loop in which SQLite reads a cursor: until the end, the row it is on, then the next.\<close>

definition row_at_cursor :: "BaseCursor \<Rightarrow> Row" where
  "row_at_cursor cur = (if uses_generator cur then cur_current cur else cur_rows cur ! cur_row cur)"

function visit :: "BaseCursor \<Rightarrow> Row list throwing" where
  "visit cur = exn_bind (xEof cur) (\<lambda>(eof, cur1).
     if eof then Inr []
     else exn_bind (xNext cur1) (\<lambda>cur2. exn_bind (visit cur2) (\<lambda>rs. Inr (row_at_cursor cur1 # rs))))"
  by pat_completeness auto

termination
  by (relation "measure (\<lambda>cur. if uses_generator cur then length (the (cur_generator cur)) else cur_n cur - cur_row cur)")
    (auto simp: xEof_def xNext_def split: if_splits option.splits list.splits)

declare visit.simps [simp del]

lemma visit_rows:
  "\<not> uses_generator cur \<Longrightarrow> cur_n cur = length (cur_rows cur) \<Longrightarrow> visit cur = Inr (drop (cur_row cur) (cur_rows cur))"
proof (induction "cur_n cur - cur_row cur" arbitrary: cur)
  case 0
  then show ?case by (simp add: visit.simps [of cur] xEof_def)
next
  case (Suc k)
  let ?cur = "cur\<lparr>cur_row := cur_row cur + 1\<rparr>"
  have "visit ?cur = Inr (drop (cur_row ?cur) (cur_rows ?cur))" using Suc.prems Suc.hyps(2) by (intro Suc.hyps(1)) auto
  then show ?case using Suc.prems Suc.hyps(2)
    by (simp add: visit.simps [of cur] xEof_def xNext_def row_at_cursor_def Cons_nth_drop_Suc)
qed

lemma visit_generator:
  "uses_generator cur \<Longrightarrow> cur_generator cur = Some rs \<Longrightarrow> (\<And>r rs'. rs = r # rs' \<Longrightarrow> cur_current cur = r) \<Longrightarrow> visit cur = Inr rs"
proof (induction rs arbitrary: cur)
  case Nil
  then show ?case by (simp add: visit.simps [of cur] xEof_def)
next
  case (Cons r rs)
  let ?cur = "cur\<lparr>cur_generator := Some rs, cur_current := (case rs of r' # _ \<Rightarrow> r' | [] \<Rightarrow> cur_current cur), cur_row := cur_row cur + 1\<rparr>"
  have "visit ?cur = Inr rs" using Cons.prems by (intro Cons.IH) auto
  then show ?case using Cons.prems by (simp add: visit.simps [of cur] xEof_def xNext_def row_at_cursor_def)
qed

text \<open>
  C10. A scan of a local table shows SQLite every row the table generates, once and in order, whether the table returns its rows or
  yields them one by one, and however far the cursor was on an earlier scan; the loop ends.\<close>

theorem scan_visits_every_row:
  assumes "om_get (registries f) ''table'' = Some r" "om_get (items r) (vt_name content) = Some p"
    and "scan_context e idxNum argv (use_cache inst) content = Inr (ctx, True, content')" "ve_throws e (pl_state p) ctx = None"
    and "ve_generator e (pl_state p) (ctx\<lparr>qc_colsUsedBitset := None\<rparr>) = None \<Longrightarrow> \<not> uses_generator cur"
  shows "\<exists>cur'. xFilter e idxNum argv inst cur content f = Inr (SQLITE_OK, None, addAffectedTable (vt_name content) inst, cur', content', f) \<and>
    visit cur' = Inr (case ve_generator e (pl_state p) (ctx\<lparr>qc_colsUsedBitset := None\<rparr>) of Some rs \<Rightarrow> rs | None \<Rightarrow> tp_generate (pl_state p) ctx)"
proof -
  have "rf_exists f ''table'' (vt_name content) True"
    using assms(1,2) by (simp add: rf_exists_def existsUnsafe_def om_has_def)
  then show ?thesis using assms
    by (auto simp: xFilter_def generate_rows_def Let_def visit_rows split: option.splits intro!: visit_generator)
qed

section \<open>What goes wrong\<close>

text \<open>\<open>IN\<close> on a second scan: the mark is gone, and the argument reads as NULL.\<close>

lemma filter_args_again:
  "length argv = length cs \<Longrightarrow> \<forall>(_, c) \<in> set cs. c_op c \<noteq> IN_OP \<Longrightarrow> \<forall>a \<in> set argv. ve_text e (arg_value a) = None \<Longrightarrow>
   filter_args e argv cs m = Inr (cs, m)"
  by (induction argv cs arbitrary: m rule: list_induct2) (auto simp: filter_constraint_def constraint_lambda_def)

lemma lambda_op: "c_op (fst (constraint_lambda e safe name v s)) = c_op (fst s)"
  by (cases s) (auto simp: constraint_lambda_def Let_def split: option.splits)

lemma lambda_fold_op: "c_op (fst (fold (constraint_lambda e safe name) vs s)) = c_op (fst s)"
  by (induction vs arbitrary: s) (simp_all add: lambda_op)

lemma filter_args_ops:
  "filter_args e argv cs m = Inr (cs', m') \<Longrightarrow> length argv = length cs \<Longrightarrow> length cs' = length cs \<and> (\<forall>(_, c) \<in> set cs'. c_op c \<noteq> IN_OP)"
proof (induction e argv cs m arbitrary: cs' m' rule: filter_args.induct)
  case (3 e a as nc cs m)
  obtain nc' m1 where f: "filter_constraint e a nc m = (nc', m1)" by fastforce
  obtain name c where nc: "nc = (name, c)" by fastforce
  have "c_op (snd nc') \<noteq> IN_OP"
    using f lambda_fold_op [of e True name "arg_in a" "(c\<lparr>c_op := EQUALS\<rparr>, m)"] lambda_op [of e False name "arg_value a" "(c, m)"]
    by (auto simp: filter_constraint_def nc op_defs split: prod.splits if_splits)
  then show ?case using 3 f by (fastforce simp: exn_bind_Inr_iff)
qed auto

text \<open>
  The flaw of \<open>IN\<close> processed at once: after a first scan of a plan the recorded constraints are no longer marked, so that a second
  scan of the same plan, as in the inner loop of a join, reads the arguments themselves. SQLite documents that those read as NULL. The
  table is then scanned with no constraint at all.\<close>

theorem second_scan_drops_in:
  assumes "xBestIndex info k inst content = ((usage, idxNum, cost), k', inst', content')"
    and "length argv = length (filter (accepted (vt_columns content)) (aConstraint info))"
    and "scan_context e idxNum argv cached content' = Inr (ctx, satisfied, content'')" "\<forall>a \<in> set argv. ve_text e (arg_value a) = None"
  shows "\<exists>ctx2 content2. scan_context e idxNum argv cached content'' = Inr (ctx2, satisfied, content2) \<and>
    qc_constraints ctx2 = base_constraints (vt_columns content)"
proof -
  note plan = planned_constraints [OF assms(1)]
  obtain cs m where f: "filter_args e argv (map (recorded_constraint (vt_columns content)) (filter (accepted (vt_columns content)) (aConstraint info)))
      (base_constraints (vt_columns content)) = Inr (cs, m)"
    and c: "content'' = content'\<lparr>vt_constraints := om_set idxNum cs (vt_constraints content')\<rparr>"
    and s: "satisfied \<longleftrightarrow> \<not> list_ex (\<lambda>(_, _, options). has_option options OPT_REQUIRED) (vt_columns content) \<or>
        list_ex (\<lambda>(name, _). has_option (name_options (vt_columns content) name) OPT_REQUIRED) cs"
    using assms(3) plan by (auto simp: scan_context_def Let_def exn_bind_Inr_iff)
  have "filter_args e argv cs (base_constraints (vt_columns content)) = Inr (cs, base_constraints (vt_columns content))"
    using filter_args_ops [OF f] assms(2,4) by (intro filter_args_again) auto
  then show ?thesis using plan by (simp add: scan_context_def Let_def c s om_set_nonempty)
qed

section \<open>Values\<close>

lemma nat_digits_leading: "0 < n \<Longrightarrow> hd (nat_digits n) \<noteq> CHR ''0''"
proof (induction n rule: nat_digits.induct)
  case (1 n)
  show ?case
  proof (cases "n < 10")
    case True
    then have "of_char (digit_char n) \<noteq> (48 :: nat)" using "1.prems" by (simp add: of_char_digit_char)
    then show ?thesis using True by (auto simp: nat_digits.simps [of n])
  next
    case False
    have "nat_digits (n div 10) \<noteq> []" using hd_nat_digits [of "n div 10"] by auto
    then show ?thesis using "1.IH" [OF False] False by (simp add: nat_digits.simps [of n])
  qed
qed

lemma strip_prefix_base0: "s \<noteq> [] \<Longrightarrow> hd s \<noteq> CHR ''0'' \<Longrightarrow> strip_prefix 0 s = strip_prefix 10 s"
  by (cases s) (auto simp: strip_prefix_def Let_def split: list.splits)

lemma strto_raw_base0:
  "snd (strip_sign (dropWhile isspace s)) = s' \<Longrightarrow> s' \<noteq> [] \<Longrightarrow> hd s' \<noteq> CHR ''0'' \<Longrightarrow> strto_raw 0 s = strto_raw 10 s"
  by (auto simp: strto_raw_def strip_prefix_base0 split: prod.splits)

text \<open>A printed number has no leading zero: base 0 reads it as base 10 does.\<close>

lemma strto_raw_printed: "strto_raw 0 (to_string_int i) = strto_raw 10 (to_string_int i)"
proof (cases "i = 0")
  case True
  have "strto_raw 0 (to_string_int 0) = strto_raw 10 (to_string_int 0)" by code_simp
  then show ?thesis using True by simp
next
  case False
  obtain d cs where d: "nat_digits (nat \<bar>i\<bar>) = digit_char d # cs" "d < 10" using hd_nat_digits by blast
  have sign: "digit_char d \<noteq> CHR ''-''" "digit_char d \<noteq> CHR ''+''" using d(2) by (simp_all add: digit_char_neq)
  have "hd (nat_digits (nat \<bar>i\<bar>)) \<noteq> CHR ''0''" using nat_digits_leading [of "nat \<bar>i\<bar>"] False by simp
  moreover have "to_string_int i = (if i < 0 then CHR ''-'' # nat_digits (nat \<bar>i\<bar>) else nat_digits (nat \<bar>i\<bar>))"
    by (simp add: to_string_int_def)
  ultimately show ?thesis
    using d sign by (intro strto_raw_base0 [where s' = "nat_digits (nat \<bar>i\<bar>)"]) (auto simp: strip_sign_def isspace_def [of "CHR ''-''"])
qed

lemma column_number:
  "- (2 ^ 63) \<le> i \<Longrightarrow> i < 2 ^ 63 \<Longrightarrow> expected_value (tryTo_longlong what 0 (to_string_int i)) = Some i"
proof -
  assume "- (2 ^ 63) \<le> i" "i < 2 ^ 63"
  then have "stosigned 64 0 (to_string_int i) = Inr i"
    using stosigned_to_string [of 64 i] by (simp add: stosigned_def strto_raw_printed)
  then show ?thesis
    by (simp add: expected_value_def tryTo_longlong_def throwingStringToInt_longlong_def stoll_def tryTo_catch_def Expected_value_def)
qed

lemma column_number_large:
  "2 ^ 63 \<le> i \<Longrightarrow> expected_value (tryTo_longlong what 0 (to_string_int i)) = None"
proof -
  assume i: "2 ^ 63 \<le> i"
  then have "strto_raw 10 (to_string_int i) = Some (False, nat i)" by (simp add: to_string_int_def strto_raw_nat_digits)
  then have "stosigned 64 0 (to_string_int i) = Inl out_of_range" using i by (simp add: stosigned_def strto_raw_printed)
  then show ?thesis
    by (simp add: expected_value_def tryTo_longlong_def throwingStringToInt_longlong_def stoll_def tryTo_catch_def
        Expected_error_def)
qed

lemma to_string_nonempty [simp]: "to_string_int i \<noteq> []"
  by (simp add: to_string_int_def)

text \<open>
  Numbers on their way to SQLite: every 64 bit number printed into a \<open>BIGINT\<close> column arrives, an \<open>INTEGER\<close> column keeps its low 32
  bits only, and of an \<open>UNSIGNED BIGINT\<close> the upper half of the range arrives as NULL.\<close>

theorem numbers_reach_sqlite:
  assumes "- (2 ^ 63) \<le> i" "i < 2 ^ 63"
  shows "column_value e BIGINT_TYPE (to_string_int i) = Some (SV_INTEGER i) \<and>
    column_value e INTEGER_TYPE (to_string_int i) = Some (SV_INTEGER (signed_take_bit 31 i)) \<and>
    column_value e UNSIGNED_BIGINT_TYPE (to_string_u64 w) = Some (if uint w < 2 ^ 63 then SV_INTEGER (uint w) else SV_NULL)"
proof -
  have u: "to_string_u64 w = to_string_int (uint w)" by (simp add: to_string_u64_def to_string_int_def)
  have "column_value e UNSIGNED_BIGINT_TYPE (to_string_int (uint w)) = Some (if uint w < 2 ^ 63 then SV_INTEGER (uint w) else SV_NULL)"
  proof (cases "uint w < 2 ^ 63")
    case True
    then have "expected_value (tryTo_longlong (ve_what e) 0 (to_string_int (uint w))) = Some (uint w)"
      by (intro column_number order.trans [OF _ uint_ge_0 [of w]]) simp_all
    then show ?thesis using True by (simp add: column_value_def)
  next
    case False
    then have "expected_value (tryTo_longlong (ve_what e) 0 (to_string_int (uint w))) = None"
      by (intro column_number_large) simp
    then show ?thesis using False by (simp add: column_value_def)
  qed
  then show ?thesis by (simp only: u) (simp add: column_value_def column_number [OF assms])
qed

text \<open>A text column that a row lacks is read as an empty text, not as NULL.\<close>

lemma missing_text_is_empty:
  assumes "vt_columns content ! col = (name, TEXT_TYPE, options)" "om_get (vt_aliases content) name = None" "om_get r name = None"
  shows "fst (get_column e col r content) = Some (SV_TEXT [])"
  using assms by (simp add: get_column_def resolve_alias_def column_value_def om_has_def)

section \<open>Creating a table from its route info\<close>

lemma lit_bigint_to_string: "- (2 ^ 63) \<le> i \<Longrightarrow> i < 2 ^ 63 \<Longrightarrow> lit_bigint (to_string_int i) = Some i"
  using stosigned_to_string [of 64 i]
  by (simp add: lit_bigint_def expected_value_def tryTo_longlong_def throwingStringToInt_longlong_def stoll_def tryTo_catch_def
      Expected_value_def)

lemma small_number: "0 \<le> i \<Longrightarrow> i < 2 ^ 31 \<Longrightarrow> lit_bigint (to_string_int (i mod 2 ^ 64)) = Some i \<and> signed_take_bit 31 i = i"
  by (simp add: lit_bigint_to_string signed_take_bit_int_eq_self)

text \<open>The options a column is created with: those of the plugin, or \<open>INDEX\<close> for an extension's column without any.\<close>

definition created_options :: "vtab_env \<Rightarrow> bool \<Rightarrow> ColumnOptions \<Rightarrow> ColumnOptions" where
  "created_options e is_extension options =
     (if is_extension \<and> extensions_default_index e \<and> options = OPT_DEFAULT then OPT_INDEX else options)"

definition column_aliases :: "TablePlugin \<Rightarrow> (string \<times> string) list" where
  "column_aliases t = concat (map (\<lambda>(target, as). map (\<lambda>alias. (alias, target)) as) (tp_columnAliases t))"

lemma create_columns:
  "\<forall>(_, _, options) \<in> set cols. 0 \<le> options \<and> options < 2 ^ 31 \<Longrightarrow>
   fold (create_column e ext) (map (\<lambda>(name, type, options). [(''id'', ''column''), (''name'', name),
       (''op'', to_string_int (options mod 2 ^ 64)), (''type'', columnTypeName type)]) cols) (content, views) =
   (content\<lparr>vt_columns := vt_columns content @ map (\<lambda>(name, type, options). (name, type, created_options e ext options)) cols\<rparr>, views)"
proof (induction cols arbitrary: content)
  case (Cons c cols)
  obtain name type options where c: "c = (name, type, options)" by (metis prod_cases3)
  then show ?case using Cons small_number [of options]
    by (simp add: create_column_def om_get_Cons column_options_def created_options_def Let_def)
qed simp

lemma create_views:
  "fold (create_column e ext) (map (\<lambda>alias. [(''alias'', alias), (''id'', ''alias'')]) as) (content, views) =
   (content, fold insort_insert as views)"
  by (induction as arbitrary: views) (simp_all add: create_column_def om_get_Cons)

definition create_alias :: "string \<times> string \<Rightarrow> table_content \<Rightarrow> table_content" where
  "create_alias pair content =
     (let (alias, target) = pair; cols = vt_columns content @ [(alias, UNKNOWN_TYPE, OPT_HIDDEN)]
      in content\<lparr>vt_columns := cols, vt_aliases := om_set alias (alias_target cols target) (vt_aliases content)\<rparr>)"

lemma create_aliases:
  "fold (create_column e ext) (map (\<lambda>(alias, target). [(''id'', ''columnAlias''), (''name'', alias), (''target'', target)]) ats) (content, views) =
   (fold create_alias ats content, views)"
  by (induction ats arbitrary: content) (auto simp: create_column_def create_alias_def om_get_Cons Let_def)

lemma routeInfo_parts:
  "routeInfo t =
     map (\<lambda>(name, type, options). [(''id'', ''column''), (''name'', name), (''op'', to_string_int (options mod 2 ^ 64)),
            (''type'', columnTypeName type)]) (tp_columns t) @
     map (\<lambda>alias. [(''alias'', alias), (''id'', ''alias'')]) (tp_aliases t) @
     map (\<lambda>(alias, target). [(''id'', ''columnAlias''), (''name'', alias), (''target'', target)]) (column_aliases t) @
     [[(''attributes'', to_string_int (tp_attributes t mod 2 ^ 64)), (''id'', ''attributes'')]]"
  by (simp add: routeInfo_def column_aliases_def map_concat o_def case_prod_unfold)

lemma create_from_routeInfo:
  assumes "\<forall>(_, _, options) \<in> set (tp_columns t). 0 \<le> options \<and> options < 2 ^ 31" "0 \<le> tp_attributes t" "tp_attributes t < 2 ^ 31"
  shows "fold (create_column e ext) (routeInfo t) (table_content_new name, []) =
    ((fold create_alias (column_aliases t) ((table_content_new name)\<lparr>vt_columns :=
        map (\<lambda>(name, type, options). (name, type, created_options e ext options)) (tp_columns t)\<rparr>))\<lparr>vt_attributes := tp_attributes t\<rparr>,
     fold insort_insert (tp_aliases t) [])"
  using create_columns [OF assms(1), of e ext "table_content_new name" "[]"] small_number [OF assms(2,3)]
  by (simp add: routeInfo_parts create_views create_aliases create_column_def [of _ _ "[(''attributes'', _), _]"] om_get_Cons table_content_new_def)

lemma alias_target_found:
  assumes "t \<in> fst ` set base"
  shows "alias_target (base @ extra) t < length base \<and> fst (base ! alias_target (base @ extra) t) = t"
proof -
  obtain i where i: "i < length base" "fst (base ! i) = t" using assms by (auto simp: in_set_conv_nth)
  let ?P = "\<lambda>i. fst ((base @ extra) ! i) = t"
  have "List.find ?P [0..<length (base @ extra)] \<noteq> None" using i by (auto simp: find_None_iff nth_append intro!: bexI [of _ i])
  then obtain j where j: "List.find ?P [0..<length (base @ extra)] = Some j" by auto
  then have p: "?P j" "j < length (base @ extra)" "\<And>k. k < j \<Longrightarrow> \<not> ?P k" by (auto simp: find_Some_iff)
  have "\<not> i < j" using p(3) [of i] i by (auto simp: nth_append)
  moreover have "alias_target (base @ extra) t = j" by (simp only: alias_target_def j option.case)
  ultimately show ?thesis using i p(1) by (simp add: nth_append)
qed

lemma fold_create_alias:
  assumes "vt_columns content = base" "vt_aliases content = []" "\<forall>(_, t) \<in> set ats. t \<in> fst ` set base"
  shows "vt_columns (fold create_alias ats content) = base @ map (\<lambda>(a, _). (a, UNKNOWN_TYPE, OPT_HIDDEN)) ats \<and>
    om_wf (vt_aliases (fold create_alias ats content)) \<and>
    (\<forall>a. case om_get (vt_aliases (fold create_alias ats content)) a of
           None \<Rightarrow> a \<notin> fst ` set ats
         | Some j \<Rightarrow> j < length base \<and> (a, fst (base ! j)) \<in> set ats)"
  using assms(3)
proof (induction ats rule: rev_induct)
  case (snoc at' ats)
  obtain a t where at': "at' = (a, t)" by fastforce
  let ?c = "fold create_alias ats content"
  let ?j = "alias_target (vt_columns ?c @ [(a, UNKNOWN_TYPE, OPT_HIDDEN)]) t"
  have IH: "vt_columns ?c = base @ map (\<lambda>(a, _). (a, UNKNOWN_TYPE, OPT_HIDDEN)) ats" "om_wf (vt_aliases ?c)"
    "\<And>a. case om_get (vt_aliases ?c) a of None \<Rightarrow> a \<notin> fst ` set ats | Some j \<Rightarrow> j < length base \<and> (a, fst (base ! j)) \<in> set ats"
    using snoc by simp_all
  have j: "?j < length base \<and> fst (base ! ?j) = t"
    using snoc.prems alias_target_found [of t base] by (simp add: at' IH(1))
  have step: "fold create_alias (ats @ [at']) content =
      ?c\<lparr>vt_columns := vt_columns ?c @ [(a, UNKNOWN_TYPE, OPT_HIDDEN)], vt_aliases := om_set a ?j (vt_aliases ?c)\<rparr>"
    by (simp add: at' create_alias_def [of "(a, t)"] Let_def)
  have "case om_get (om_set a ?j (vt_aliases ?c)) b of None \<Rightarrow> b \<notin> fst ` set (ats @ [at'])
      | Some j \<Rightarrow> j < length base \<and> (b, fst (base ! j)) \<in> set (ats @ [at'])" for b
    using IH(3) [of b] j by (cases "b = a") (auto simp: at' split: option.splits)
  then show ?case unfolding step using IH(1,2) by (simp add: at')
qed (simp add: assms)

lemma created_aliases:
  assumes "vt_columns c = base @ extra" "om_wf (vt_aliases c)" "distinct (map fst base @ map fst ats)"
    and look: "\<And>a. case om_get (vt_aliases c) a of None \<Rightarrow> a \<notin> fst ` set ats
        | Some j \<Rightarrow> j < length base \<and> (a, fst (base ! j)) \<in> set ats"
  shows "aliases_ok c \<and> (\<forall>(a, t) \<in> set ats. \<exists>j. om_get (vt_aliases c) a = Some j \<and> fst (vt_columns c ! j) = t)"
proof
  have real: "om_get (vt_aliases c) (fst (base ! j)) = None" if "j < length base" for j
  proof -
    have "fst (base ! j) \<in> set (map fst base)" using that by simp
    then have "fst (base ! j) \<notin> fst ` set ats" using assms(3) by auto
    then show ?thesis using look [of "fst (base ! j)"] by (cases "om_get (vt_aliases c) (fst (base ! j))") force+
  qed
  have "j < length base" if "(a, j) \<in> set (vt_aliases c)" for a j
    using look [of a] that om_get_mem [OF assms(2), of a j] by (auto split: option.splits)
  then show "aliases_ok c" using real assms(1) by (auto simp: aliases_ok_def list_all_iff nth_append om_has_def)
  show "\<forall>(a, t) \<in> set ats. \<exists>j. om_get (vt_aliases c) a = Some j \<and> fst (vt_columns c ! j) = t"
  proof clarify
    fix a t assume at': "(a, t) \<in> set ats"
    have "t' = t" if "(a, t') \<in> set ats" for t' using at' that assms(3) by (auto dest: eq_key_imp_eq_value)
    moreover obtain j where "om_get (vt_aliases c) a = Some j" using look [of a] at' by (cases "om_get (vt_aliases c) a") force+
    ultimately show "\<exists>j. om_get (vt_aliases c) a = Some j \<and> fst (vt_columns c ! j) = t"
      using look [of a] assms(1) by (auto simp: nth_append)
  qed
qed

lemma route_columns_typed:
  "list_all (\<lambda>(_, _, options). 0 \<le> options \<and> options < 2 ^ 31) cols \<Longrightarrow>
   \<exists>types'. fold (route_column True) (map (\<lambda>(name, type, options). [(''id'', ''column''), (''name'', name),
       (''op'', to_string_int (options mod 2 ^ 64)), (''type'', columnTypeName type)]) cols) (acc, types) = (acc @ cols, types') \<and>
     (\<forall>n. om_get types' n \<noteq> None \<longleftrightarrow> om_get types n \<noteq> None \<or> n \<in> fst ` set cols)"
proof (induction cols arbitrary: acc types)
  case (Cons col cols)
  obtain n ty opt where col: "col = (n, ty, opt)" by (cases col)
  have "lit_int (to_string_int (opt mod 2 ^ 64)) = Some opt"
    using Cons.prems lit_int_to_string [of opt] by (simp add: col)
  then have "route_column True [(''id'', ''column''), (''name'', n), (''op'', to_string_int (opt mod 2 ^ 64)), (''type'', columnTypeName ty)]
      (acc, types) = (acc @ [col], om_set n ty types)"
    by (simp add: col route_column_def om_get_Cons)
  then show ?case using Cons.IH [of "acc @ [col]" "om_set n ty types"] Cons.prems by (auto simp: col)
qed simp

lemma route_aliases_typed:
  "\<forall>(_, t) \<in> set ats. om_get types t \<noteq> None \<Longrightarrow>
   map fst (fst (fold (route_column True) (map (\<lambda>(alias, target). [(''id'', ''columnAlias''), (''name'', alias), (''target'', target)]) ats)
     (acc, types))) = map fst acc @ map fst ats"
  by (induction ats arbitrary: acc) (auto simp: route_column_def om_get_Cons split: option.splits)

lemma declared_columns:
  assumes "list_all (\<lambda>(_, _, options). 0 \<le> options \<and> options < 2 ^ 31) (tp_columns t)"
    and "\<forall>(_, target) \<in> set (column_aliases t). target \<in> fst ` set (tp_columns t)"
  shows "map fst (fst (fold (route_column True) (routeInfo t) ([], []))) = map fst (tp_columns t) @ map fst (column_aliases t)"
proof -
  have views: "fold (route_column True) (map (\<lambda>alias. [(''alias'', alias), (''id'', ''alias'')]) as) s = s" for as s
    by (induction as) (auto simp: route_column_def om_get_Cons split: prod.splits)
  obtain types where types: "fold (route_column True) (map (\<lambda>(name, type, options). [(''id'', ''column''), (''name'', name),
       (''op'', to_string_int (options mod 2 ^ 64)), (''type'', columnTypeName type)]) (tp_columns t)) ([], []) = (tp_columns t, types)"
     "\<And>n. om_get types n \<noteq> None \<longleftrightarrow> n \<in> fst ` set (tp_columns t)"
    using route_columns_typed [OF assms(1), of "[]" "[]"] by auto
  have "route_column True [(''attributes'', x), (''id'', ''attributes'')] s = s" for x s
    by (cases s) (simp add: route_column_def om_get_Cons)
  then show ?thesis
    using route_aliases_typed [of "column_aliases t" types "tp_columns t"] assms(2) types by (auto simp: routeInfo_parts views case_prod_unfold)
qed

text \<open>
  C9. A table is created as its plugin describes itself: the columns are those of the plugin in their order with their types
  and options (\<open>INDEX\<close> for an extension's column without options), then the hidden aliases, each standing for its column;
  the attributes are the plugin's; and the columns stand at the places where SQLite was told to expect them. Names are distinct, every
  alias is of a column, and options and attributes fit the 31 bits of their type.\<close>

theorem created_as_described:
  assumes "call_table e name [(''action'', ''columns'')] f = Inr (success, routeInfo t, f')"
    and "ve_declare e (''CREATE TABLE '' @ name @ columnDefinition_response (routeInfo t) True (name \<in> set exts)) = SQLITE_OK"
    and "list_all (\<lambda>(_, _, options). 0 \<le> options \<and> options < 2 ^ 31) (tp_columns t)" "0 \<le> tp_attributes t" "tp_attributes t < 2 ^ 31"
    and "distinct (map fst (tp_columns t) @ map fst (column_aliases t))"
    and "\<forall>(_, target) \<in> set (column_aliases t). target \<in> fst ` set (tp_columns t)"
  shows "\<exists>content views. xCreate e exts [name] f = Inr (SQLITE_OK, Some content, views, f') \<and>
    vt_columns content = map (\<lambda>(n, type, options). (n, type, created_options e (name \<in> set exts) options)) (tp_columns t) @
      map (\<lambda>(a, _). (a, UNKNOWN_TYPE, OPT_HIDDEN)) (column_aliases t) \<and>
    vt_attributes content = tp_attributes t \<and> aliases_ok content \<and>
    (\<forall>(a, target) \<in> set (column_aliases t). \<exists>j. om_get (vt_aliases content) a = Some j \<and> fst (vt_columns content ! j) = target) \<and>
    map fst (vt_columns content) = map fst (fst (fold (route_column True) (routeInfo t) ([], [])))"
proof -
  let ?base = "map (\<lambda>(n, type, options). (n, type, created_options e (name \<in> set exts) options)) (tp_columns t)"
  let ?c = "(fold create_alias (column_aliases t) ((table_content_new name)\<lparr>vt_columns := ?base\<rparr>))\<lparr>vt_attributes := tp_attributes t\<rparr>"
  have names: "map fst ?base = map fst (tp_columns t)" by (simp add: case_prod_unfold)
  have base: "fst ` set ?base = fst ` set (tp_columns t)" using names by (metis set_map)
  have "routeInfo t \<noteq> []" by (simp add: routeInfo_def)
  moreover have "\<forall>(_, _, options) \<in> set (tp_columns t). 0 \<le> options \<and> options < 2 ^ 31" using assms(3) by (simp add: list_all_iff)
  ultimately have x: "xCreate e exts [name] f = Inr (SQLITE_OK, Some ?c, map (\<lambda>view. ''CREATE VIEW '' @ view @ '' AS SELECT * FROM '' @ name)
      (fold insort_insert (tp_aliases t) []), f')"
    using assms(1,2) create_from_routeInfo [of t e "name \<in> set exts" name] assms(4,5) by (simp add: xCreate_def Let_def status_simps)
  have c: "vt_columns ?c = ?base @ map (\<lambda>(a, _). (a, UNKNOWN_TYPE, OPT_HIDDEN)) (column_aliases t)" "om_wf (vt_aliases ?c)"
    "\<And>a. case om_get (vt_aliases ?c) a of None \<Rightarrow> a \<notin> fst ` set (column_aliases t)
        | Some j \<Rightarrow> j < length ?base \<and> (a, fst (?base ! j)) \<in> set (column_aliases t)"
    using fold_create_alias [of "(table_content_new name)\<lparr>vt_columns := ?base\<rparr>" ?base "column_aliases t"] assms(7) base
    by (simp_all add: table_content_new_def)
  have "aliases_ok ?c \<and> (\<forall>(a, target) \<in> set (column_aliases t). \<exists>j. om_get (vt_aliases ?c) a = Some j \<and> fst (vt_columns ?c ! j) = target)"
    using assms(6) by (intro created_aliases [OF c(1,2) _ c(3)]) (simp only: names)
  moreover have "map fst (vt_columns ?c) = map fst (fst (fold (route_column True) (routeInfo t) ([], [])))"
    unfolding declared_columns [OF assms(3,7)] c(1) map_append names by (simp add: case_prod_unfold)
  moreover have "vt_attributes ?c = tp_attributes t" by simp
  ultimately show ?thesis using x c(1) by blast
qed

section \<open>Aliases after a read\<close>

lemma resolved_alias:
  assumes "aliases_ok content" "i < length (vt_columns content)" "om_get (vt_aliases content) (fst (vt_columns content ! i)) = Some j"
  shows "aliases_ok (resolve_alias i content)" "length (vt_columns (resolve_alias i content)) = length (vt_columns content)"
    "fst (vt_columns (resolve_alias i content) ! i) = fst (vt_columns content ! j)" "real_column (resolve_alias i content) i = i" "i \<noteq> j"
proof -
  obtain name type options where i: "vt_columns content ! i = (name, type, options)" by (metis prod_cases3)
  obtain name' type' options' where j: "vt_columns content ! j = (name', type', options')" by (metis prod_cases3)
  have r: "resolve_alias i content = content\<lparr>vt_columns := (vt_columns content)[i := (name', type', options)]\<rparr>"
    using assms(3) by (simp add: resolve_alias_def i j)
  have real: "k < length (vt_columns content) \<and> om_get (vt_aliases content) (fst (vt_columns content ! k)) = None"
    if "(a, k) \<in> set (vt_aliases content)" for a k
    using assms(1) that by (auto simp: aliases_ok_def list_all_iff om_has_def)
  have target: "om_get (vt_aliases content) name' = None" using aliases_okD [OF assms(1,3)] by (simp add: j)
  show "i \<noteq> j" using assms(3) aliases_okD [OF assms(1,3)] by auto
  show "aliases_ok (resolve_alias i content)"
    using real target assms(2) by (fastforce simp: aliases_ok_def list_all_iff r om_has_def nth_list_update)
  show "length (vt_columns (resolve_alias i content)) = length (vt_columns content)" by (simp add: r)
  show "fst (vt_columns (resolve_alias i content) ! i) = fst (vt_columns content ! j)" using assms(2) by (simp add: r j)
  then show "real_column (resolve_alias i content) i = i" using target by (simp add: real_column_def j) (simp add: r)
qed

text \<open>
  Reading an aliased column overwrites the alias, so that the next plan no longer takes it for one: of a query that uses
  only the alias the table is told the name of the column, but not its bit, and a table that asks for the bit leaves the column
  out.\<close>

theorem alias_read_hides_column:
  assumes "aliases_ok content" "length (vt_columns content) \<le> 63" "i < length (vt_columns content)"
    and "om_get (vt_aliases content) (fst (vt_columns content ! i)) = Some j" "get_column e i r content = (v, r', content1)"
    and "\<forall>n < 64. bit (colUsed info) n \<longleftrightarrow> n = i" "xBestIndex info k inst content1 = ((usage, idxNum, cost), k', inst', content')"
  shows "\<exists>names bits. om_get (vt_colsUsed content') idxNum = Some names \<and> om_get (vt_colsUsedBitsets content') idxNum = Some bits \<and>
    fst (vt_columns content ! j) \<in> set names \<and> \<not> bit bits j"
proof -
  have c: "content1 = resolve_alias i content" using assms(5) by (auto simp: get_column_def Let_def split: prod.splits)
  note res = resolved_alias [OF assms(1,3,4)]
  obtain bits names required where u: "used_columns content1 (colUsed info) = (bits, names, required)" by (metis prod_cases3)
  have "bit (colUsed info) i" using assms(2,3,6) by simp
  then have "colUsed info \<noteq> 0" by auto
  then have f: "fold (used_column content1) [0..<length (vt_columns content1)] (colUsed info, [], False) = (bits, names, required)"
    using u by (simp add: used_columns_def)
  have len: "length (vt_columns content1) \<le> 63" using assms(2) res(2) by (simp add: c)
  have i: "i < 64" "j < length (vt_columns content1)" using assms(2,3) aliases_okD [OF assms(1,4)] res(2) by (auto simp: c)
  note all = used_columns_prefix [OF res(1) [folded c] order_refl len f]
  have "fst (vt_columns content ! j) \<in> set names" using all assms(3,6) res i by (auto simp: c intro!: exI [of _ i])
  moreover have "\<not> bit bits j" using all i res assms(6) len by (auto simp: c)
  ultimately show ?thesis using assms(7) u by (auto simp: xBestIndex_def Let_def)
qed

section \<open>Changes\<close>

text \<open>A value a column takes; a column with exactly the option \<open>INDEX\<close> or \<open>REQUIRED\<close> takes no NULL.\<close>

definition value_fits :: "string \<times> ColumnType \<times> ColumnOptions \<Rightarrow> sqlite_value \<Rightarrow> bool" where
  "value_fits column v \<longleftrightarrow>
     (case v of SV_INTEGER _ \<Rightarrow> fst (snd column) \<in> {INTEGER_TYPE, BIGINT_TYPE, UNSIGNED_BIGINT_TYPE}
      | SV_FLOAT _ \<Rightarrow> fst (snd column) = DOUBLE_TYPE | SV_TEXT _ \<Rightarrow> fst (snd column) = TEXT_TYPE | SV_BLOB _ \<Rightarrow> fst (snd column) = BLOB_TYPE
      | SV_NULL \<Rightarrow> snd (snd column) \<notin> {OPT_INDEX, OPT_REQUIRED})"

fun sqlite_json :: "sqlite_value \<Rightarrow> json" where
  "sqlite_json (SV_INTEGER i) = JInt i"
| "sqlite_json (SV_FLOAT d) = JDouble d"
| "sqlite_json (SV_TEXT s) = JString s"
| "sqlite_json (SV_BLOB s) = JString s"
| "sqlite_json SV_NULL = JNull"

lemma update_value_fits: "update_value column v = (if value_fits column v then Some (sqlite_json v) else None)"
  by (cases v) (auto simp: update_value_def value_fits_def split: prod.splits)

lemma update_values_fit:
  "length cs = length vs \<Longrightarrow> update_values cs vs = (if list_all2 value_fits cs vs then Some (map sqlite_json vs) else None)"
  by (induction cs vs rule: list_induct2) (auto simp: update_value_fits)


section \<open>A table for the witnesses\<close>

definition sample_table :: TablePlugin where
  "sample_table = (TablePlugin_new ''files'' [(''path'', TEXT_TYPE, OPT_REQUIRED OR OPT_OPTIMIZED), (''size'', BIGINT_TYPE, OPT_DEFAULT)])
     \<lparr>tp_columnAliases := [(''size'', [''bytes''])], tp_generate := (\<lambda>ctx. [[(''path'', ''/a''), (''size'', ''1'')], [(''path'', ''/b''), (''size'', ''2'')]])\<rparr>"

definition sample_vtab_env :: vtab_env where
  "sample_vtab_env =
     \<lparr>ve_text = (\<lambda>v. case v of SV_TEXT s \<Rightarrow> Some s | SV_BLOB s \<Rightarrow> Some s | SV_INTEGER i \<Rightarrow> Some (to_string_int i) | _ \<Rightarrow> None),
      ve_int64 = (\<lambda>v. case v of SV_INTEGER i \<Rightarrow> i | _ \<Rightarrow> 0), ve_double = (\<lambda>_. []), ve_strtod = (\<lambda>_. None), ve_rj = codec_rapidjson,
      ve_what = (\<lambda>_. []),
      ve_plugins = \<lparr>op_setUp = (\<lambda>p. (success, p)), op_tearDown = (\<lambda>p. p), op_configure = (\<lambda>p. p), op_routeInfo = routeInfo,
                    op_call = (\<lambda>p _ r. Inr (success, r, p))\<rparr>,
      ve_registry = sample_env (\<lambda>_. success), ve_ignore = False, ve_throws = (\<lambda>_ _. None), ve_generator = (\<lambda>_ _. None),
      ve_declare = (\<lambda>_. SQLITE_OK), ve_admin = False, extensions_default_index = True, ignore_table_exceptions = True\<rparr>"

definition sample_tables :: "TablePlugin RegistryFactory" where
  "sample_tables =
     \<lparr>allow_duplicates = False,
      registries = [(''table'', (RegistryInterface_new ''table'' False)\<lparr>items := [(''files'', \<lparr>pl_name = ''files'', pl_state = sample_table\<rparr>)]\<rparr>)],
      extensions = {}\<rparr>"

definition sample_content :: table_content where
  "sample_content = (table_content_new ''files'')\<lparr>
     vt_columns := [(''path'', TEXT_TYPE, OPT_REQUIRED OR OPT_OPTIMIZED), (''size'', BIGINT_TYPE, OPT_DEFAULT), (''bytes'', UNKNOWN_TYPE, OPT_HIDDEN)],
     vt_aliases := [(''bytes'', 1)]\<rparr>"

definition sample_instance :: SQLiteDBInstance where
  "sample_instance = \<lparr>primary = True, managed = True, use_cache = False, affected_tables = []\<rparr>"

definition path_in :: index_constraint where
  "path_in = \<lparr>ic_column = 0, ic_op = EQUALS, ic_usable = True, ic_in = True\<rparr>"

definition two_paths :: filter_arg where
  "two_paths = \<lparr>arg_value = SV_NULL, arg_in = [SV_TEXT ''/a'', SV_TEXT ''/b'']\<rparr>"

lemma sample_content_columns:
  "vt_columns sample_content = [(''path'', TEXT_TYPE, 10), (''size'', BIGINT_TYPE, 0), (''bytes'', UNKNOWN_TYPE, 16)]"
  "vt_aliases sample_content = [(''bytes'', 1)]" "vt_name sample_content = ''files''"
  by (simp_all add: sample_content_def table_content_new_def OPT_REQUIRED_def OPT_OPTIMIZED_def OPT_DEFAULT_def OPT_HIDDEN_def)

lemma sample_accepted: "accepted (vt_columns sample_content) path_in" "at_once (vt_columns sample_content) path_in"
  by (simp_all add: accepted_def at_once_def options_of_def path_in_def sample_content_columns sensibleComparison_def has_option_def op_defs
      OPT_REQUIRED_def OPT_INDEX_def OPT_ADDITIONAL_def OPT_OPTIMIZED_def)

lemma sample_plan:
  obtains usage idxNum cost k inst content where "xBestIndex info 0 sample_instance sample_content = ((usage, idxNum, cost), k, inst, content)"
  by (metis prod_cases3)

lemma sample_passed: "passed sample_vtab_env (vt_columns sample_content) (path_in, two_paths) = [\<lparr>c_op = EQUALS, c_expr = ''/a''\<rparr>, \<lparr>c_op = EQUALS, c_expr = ''/b''\<rparr>]"
  using sample_accepted(2) by (simp add: passed_def two_paths_def sample_vtab_env_def List.map_filter_simps c_str_def)

theorem constraints_reach_table_witness:
  "\<exists>usage idxNum cost k inst content ctx satisfied content''.
     xBestIndex \<lparr>aConstraint = [path_in], colUsed = 6\<rparr> 0 sample_instance sample_content = ((usage, idxNum, cost), k, inst, content) \<and>
     scan_context sample_vtab_env idxNum [two_paths] False content = Inr (ctx, satisfied, content'') \<and>
     om_get (qc_constraints ctx) ''path'' = Some \<lparr>cl_affinity = TEXT_TYPE,
       cl_constraints = [\<lparr>c_op = EQUALS, c_expr = ''/a''\<rparr>, \<lparr>c_op = EQUALS, c_expr = ''/b''\<rparr>]\<rparr>"
proof -
  let ?info = "\<lparr>aConstraint = [path_in], colUsed = 6\<rparr>"
  obtain usage idxNum cost k inst content where
    p: "xBestIndex ?info 0 sample_instance sample_content = ((usage, idxNum, cost), k, inst, content)" by (rule sample_plan)
  have "distinct (map fst (vt_columns sample_content))" "\<forall>c \<in> set (aConstraint ?info). ic_op c \<noteq> IN_OP"
    "length [two_paths] = length (filter (accepted (vt_columns sample_content)) (aConstraint ?info))"
    using sample_accepted by (simp_all add: sample_content_columns path_in_def op_defs)
  then have "\<exists>ctx satisfied content''. scan_context sample_vtab_env idxNum [two_paths] False content = Inr (ctx, satisfied, content'') \<and>
     om_get (qc_constraints ctx) ''path'' = Some \<lparr>cl_affinity = TEXT_TYPE,
       cl_constraints = [\<lparr>c_op = EQUALS, c_expr = ''/a''\<rparr>, \<lparr>c_op = EQUALS, c_expr = ''/b''\<rparr>]\<rparr>"
    using constraints_reach_table [OF _ _ p, of "[two_paths]" sample_vtab_env False] sample_accepted(1) sample_passed
    by (auto simp: sample_content_columns about_def path_in_def)
  then show ?thesis using p by blast
qed

theorem required_column_enforced_witness:
  "\<exists>usage idxNum cost k inst content message inst'' cur content''.
     xBestIndex \<lparr>aConstraint = [], colUsed = 6\<rparr> 0 sample_instance sample_content = ((usage, idxNum, cost), k, inst, content) \<and>
     xFilter sample_vtab_env idxNum [] inst (fst (xOpen 0)) content sample_tables =
       Inr (SQLITE_CONSTRAINT, message, inst'', cur, content'', sample_tables) \<and> visit cur = Inr []"
proof -
  let ?info = "\<lparr>aConstraint = [], colUsed = 6\<rparr>"
  obtain usage idxNum cost k inst content where
    p: "xBestIndex ?info 0 sample_instance sample_content = ((usage, idxNum, cost), k, inst, content)" by (rule sample_plan)
  have "distinct (map fst (vt_columns sample_content))" "(''path'', TEXT_TYPE, 10) \<in> set (vt_columns sample_content)" "has_option 10 OPT_REQUIRED"
    by (simp_all add: sample_content_columns has_option_def OPT_REQUIRED_def)
  then obtain message inst'' content'' where f: "xFilter sample_vtab_env idxNum [] inst (fst (xOpen 0)) content sample_tables =
      Inr (SQLITE_CONSTRAINT, message, inst'', (fst (xOpen 0))\<lparr>cur_row := 0, cur_n := 0, cur_rows := []\<rparr>, content'', sample_tables)"
    using required_column_enforced [OF _ _ p, of "[]" "''path''" TEXT_TYPE 10 sample_vtab_env "fst (xOpen 0)" sample_tables] by auto
  have "visit ((fst (xOpen 0))\<lparr>cur_row := 0, cur_n := 0, cur_rows := []\<rparr>) = Inr []" by (simp add: visit_rows xOpen_def)
  then show ?thesis using p f by blast
qed

theorem used_columns_exact_witness:
  "\<exists>usage idxNum cost k inst content names bits.
     xBestIndex \<lparr>aConstraint = [], colUsed = 4\<rparr> 0 sample_instance sample_content = ((usage, idxNum, cost), k, inst, content) \<and>
     om_get (vt_colsUsed content) idxNum = Some names \<and> set names = {''size''} \<and>
     om_get (vt_colsUsedBitsets content) idxNum = Some bits \<and> bit bits 1 \<and> \<not> bit bits 2"
proof -
  let ?info = "\<lparr>aConstraint = [], colUsed = 4\<rparr>"
  obtain usage idxNum cost k inst content where
    p: "xBestIndex ?info 0 sample_instance sample_content = ((usage, idxNum, cost), k, inst, content)" by (rule sample_plan)
  have ok: "aliases_ok sample_content" "length (vt_columns sample_content) \<le> 63"
    by (simp_all add: aliases_ok_def sample_content_columns om_has_def om_get_def)
  have u: "bit (4 :: u64) i \<longleftrightarrow> i = 2" if "i < 3" for i
    using that by (auto simp: less_Suc_eq numeral_3_eq_3 bit_numeral_rec)
  have r: "real_column sample_content 0 = 0" "real_column sample_content 1 = 1" "real_column sample_content 2 = 1"
    by (simp_all add: real_column_def sample_content_columns om_get_def)
  have len: "length (vt_columns sample_content) = 3" by (simp add: sample_content_columns)
  obtain names bits where n: "om_get (vt_colsUsed content) idxNum = Some names" "om_get (vt_colsUsedBitsets content) idxNum = Some bits"
    "set names = {fst (vt_columns sample_content ! real_column sample_content i) | i. i < 3 \<and> bit (4 :: u64) i}"
    "\<forall>j < 3. bit bits j \<longleftrightarrow> (\<exists>i < 3. bit (4 :: u64) i \<and> real_column sample_content i = j)"
    using used_columns_exact [OF ok p] unfolding len sqlite3_index_info.simps by blast
  have "{fst (vt_columns sample_content ! real_column sample_content i) | i. i < 3 \<and> bit (4 :: u64) i} = {''size''}"
    using u r by (auto simp: sample_content_columns intro!: exI [of _ 2])
  then have names: "set names = {''size''}" by (simp only: n(3))
  have bits: "bit bits 1" using n(4) u [of 2] r(3) by (auto intro!: exI [of _ 2])
  have clear: "\<not> bit bits 2" using n(4) u r(3) by auto
  show ?thesis by (intro exI conjI, rule p, rule n(1), rule names, rule n(2), rule bits, rule clear)
qed

lemma sample_call: "call_table sample_vtab_env ''files'' [(''action'', ''columns'')] sample_tables = Inr (success, routeInfo sample_table, sample_tables)"
  by (simp add: call_table_def rf_call_def rf_call_one_def rf_registry_def sample_tables_def om_get_Cons reg_call_def table_plugins_def
      sample_vtab_env_def TablePlugin_call_def RegistryInterface_new_def)

lemma sample_table_columns:
  "tp_columns sample_table = [(''path'', TEXT_TYPE, 10), (''size'', BIGINT_TYPE, 0)]" "column_aliases sample_table = [(''bytes'', ''size'')]"
  "tp_attributes sample_table = 0"
  by (simp_all add: sample_table_def TablePlugin_new_def column_aliases_def OPT_REQUIRED_def OPT_OPTIMIZED_def OPT_DEFAULT_def)

theorem created_as_described_witness:
  "\<exists>content views. xCreate sample_vtab_env [] [''files''] sample_tables = Inr (SQLITE_OK, Some content, views, sample_tables) \<and>
     map fst (vt_columns content) = [''path'', ''size'', ''bytes''] \<and>
     (\<exists>j. om_get (vt_aliases content) ''bytes'' = Some j \<and> fst (vt_columns content ! j) = ''size'')"
proof -
  have "ve_declare sample_vtab_env s = SQLITE_OK" for s by (simp add: sample_vtab_env_def)
  then obtain content views where c: "xCreate sample_vtab_env [] [''files''] sample_tables = Inr (SQLITE_OK, Some content, views, sample_tables)"
    "vt_columns content = map (\<lambda>(n, type, options). (n, type, created_options sample_vtab_env (''files'' \<in> set []) options)) (tp_columns sample_table) @
      map (\<lambda>(a, _). (a, UNKNOWN_TYPE, OPT_HIDDEN)) (column_aliases sample_table)"
    "\<forall>(a, target) \<in> set (column_aliases sample_table). \<exists>j. om_get (vt_aliases content) a = Some j \<and> fst (vt_columns content ! j) = target"
    using created_as_described [OF sample_call, of "[]"] by (auto simp: sample_table_columns)
  have "map fst (vt_columns content) = [''path'', ''size'', ''bytes'']" by (simp add: c(2) sample_table_columns)
  moreover have "\<exists>j. om_get (vt_aliases content) ''bytes'' = Some j \<and> fst (vt_columns content ! j) = ''size''"
    using c(3) by (auto simp: sample_table_columns)
  ultimately show ?thesis using c(1) by (intro exI [of _ content] exI [of _ views]) simp
qed

theorem scan_visits_every_row_witness:
  "\<exists>usage idxNum cost k inst content message inst' cur content'.
     xBestIndex \<lparr>aConstraint = [path_in], colUsed = 6\<rparr> 0 sample_instance sample_content = ((usage, idxNum, cost), k, inst, content) \<and>
     xFilter sample_vtab_env idxNum [two_paths] inst (fst (xOpen 0)) content sample_tables = Inr (SQLITE_OK, message, inst', cur, content', sample_tables) \<and>
     visit cur = Inr [[(''path'', ''/a''), (''size'', ''1'')], [(''path'', ''/b''), (''size'', ''2'')]]"
proof -
  let ?info = "\<lparr>aConstraint = [path_in], colUsed = 6\<rparr>"
  let ?r = "(RegistryInterface_new ''table'' False)\<lparr>items := [(''files'', \<lparr>pl_name = ''files'', pl_state = sample_table\<rparr>)]\<rparr>"
  obtain usage idxNum cost k inst content where
    p: "xBestIndex ?info 0 sample_instance sample_content = ((usage, idxNum, cost), k, inst, content)" by (rule sample_plan)
  have name: "vt_name content = ''files''" using p by (auto simp: xBestIndex_def Let_def sample_content_columns split: prod.splits)
  have plan: "distinct (map fst (vt_columns sample_content))" "\<forall>c \<in> set (aConstraint ?info). ic_op c \<noteq> IN_OP"
    "length [two_paths] = length (filter (accepted (vt_columns sample_content)) (aConstraint ?info))"
    using sample_accepted by (simp_all add: sample_content_columns path_in_def op_defs)
  have required: "has_option (options_of (vt_columns sample_content) path_in) OPT_REQUIRED"
    by (simp add: options_of_def sample_content_columns path_in_def has_option_def OPT_REQUIRED_def)
  obtain ctx content' where s: "scan_context sample_vtab_env idxNum [two_paths] (use_cache inst) content = Inr (ctx, True, content')"
    by (rule scan_planned [OF plan(1,2) p plan(3), of sample_vtab_env "use_cache inst"]) (use required sample_accepted(1) in auto)
  have f: "om_get (registries sample_tables) ''table'' = Some ?r" "om_get (items ?r) (vt_name content) = Some \<lparr>pl_name = ''files'', pl_state = sample_table\<rparr>"
    by (simp_all add: sample_tables_def om_get_Cons name)
  obtain cur where "xFilter sample_vtab_env idxNum [two_paths] inst (fst (xOpen 0)) content sample_tables =
      Inr (SQLITE_OK, None, addAffectedTable (vt_name content) inst, cur, content', sample_tables)"
    "visit cur = Inr [[(''path'', ''/a''), (''size'', ''1'')], [(''path'', ''/b''), (''size'', ''2'')]]"
    using scan_visits_every_row [OF f s, of "fst (xOpen 0)"] by (auto simp: sample_vtab_env_def sample_table_def xOpen_def)
  then show ?thesis using p by blast
qed


end
