(* ===== verification/Spec2Isabelle.thy ===== *)
theory Spec2Isabelle
  imports Caches Tables ConfigRefresh DistributedSafety EventsRestart EventPublishersSafety WatcherSafety
    BufferedLogsSafety SocketSafety Dispatching StatusLogsSafety PathSets VirtualTablesSafety
begin

text \<open>
  A verification library for osquery 5.18.1 (\<open>src/osquery-patch-5.18.1\<close>), the daemon that presents an
  operating system as SQL tables and logs how query results change.

  \<^bold>\<open>How the program is put together.\<close> Plugins register in typed registries; an extension process adds
  its own by a broadcast. A database plugin stores strings in domains; the core calls it in the
  process, an extension through the registry. Tables are plugins: SQLite constraints become a query
  context, which travels as JSON. The scheduler runs the queries of the schedule step by step; for each
  it computes the difference between the rows and the rows stored under the query's name, saves the new
  rows, and logs the difference with an epoch and a counter. The schedule comes from the configuration:
  plugins give named JSON sources, each source gives packs, and a pack gives its queries with splayed
  intervals if its shard, platform, version and discovery queries allow it. A query that was running when
  the process died is denied for a day. A server can send queries of its own through a plugin; they are
  stored, run once, and their results returned. Event subscribers store rows as events happen; a
  scheduled query over such a table gets the events since its last run. A parent process watches the worker that
  does all this, and log lines for a remote receiver are buffered in the database until they are sent. On Linux the
  events of processes, sockets and users come from the kernel's audit system, through a chain of three threads.

  \<^bold>\<open>The theories\<close>, in the order of the code's own layers.

  \<^item> \<open>Prelude\<close>: exceptions as values (\<open>'a throwing\<close>, with undefined behaviour as one of them), sorted
    association lists as \<open>std::map\<close>, the locale \<open>ordered_map\<close> and its interpretation.
  \<^item> \<open>Numerals\<close>: \<open>std::to_string\<close>, \<open>std::stoi\<close>, \<open>std::stoll\<close>, \<open>std::stoul\<close> and \<open>std::stoull\<close>.
  \<^item> \<open>Results\<close>: \<open>utils/error/error.h\<close>, \<open>utils/expected/expected.h\<close>, \<open>utils/status\<close>,
    \<open>utils/conversions/tryto\<close>, \<open>utils/map_take.h\<close>. Shows that conversions invert printing, are total, and
    where the conversion to \<open>unsigned int\<close> truncates.
  \<^item> \<open>Caches\<close>: \<open>utils/caches/lru.h\<close> and \<open>lru-impl.h\<close>, refined to a list in order of last use.
  \<^item> \<open>Json\<close>: \<open>utils/json/json.cpp\<close> over JSON trees. RapidJSON is the record \<open>rapidjson\<close> of functions;
    \<open>rj_ok\<close> states what is used of it, and a concrete codec shows that this can hold.
  \<^item> \<open>Rows\<close>: \<open>core/sql/row\<close>, \<open>query_data\<close>, \<open>diff_results\<close>, \<open>utils/conversions/castvariant.h\<close>. The
    differential is the multiset difference; typed rows survive JSON.
  \<^item> \<open>Registry\<close>: \<open>core/plugins/plugin\<close>, \<open>registry/registry_interface\<close>, \<open>registry/registry_factory\<close>.
    A broadcast accepted and withdrawn leaves no trace; a refused one can.
  \<^item> \<open>Database\<close>: \<open>database/database.cpp\<close> and \<open>database/ephemeral.cpp\<close>. The locale \<open>reliable_database\<close>
    states what the clients rely on and is interpreted on the ephemeral plugin (\<open>eph\<close>); reads after
    writes, extensions against the core, and the upgrades with their migrations.
  \<^item> \<open>QueryHistory\<close>: \<open>core/query.cpp\<close>. \<open>addNewResults\<close> refines an abstract history of a query.
  \<^item> \<open>Scheduler\<close>: \<open>dispatcher/scheduler.cpp\<close>, \<open>core/shutdown.cpp\<close>, the escaping of \<open>sql/sql.cpp\<close> and
    \<open>sql/sqlite_util.cpp\<close>. The log of a query determines its results, the loop keeps its pace and ends.
  \<^item> \<open>Tables\<close>: \<open>core/tables\<close>, \<open>core/sql/column\<close>, \<open>core/sql/table_rows\<close>, \<open>sql/dynamic_table_row\<close>.
    Constraints, contexts over the registry, CREATE statements, used columns, the results cache.
  \<^item> \<open>VirtualTables\<close>: \<open>sql/virtual_table\<close> and the rows of \<open>sql/dynamic_table_row.cpp\<close>: the module through which SQLite creates,
    plans, scans and changes tables; a table's transient state extends the record of its content, and what SQLite passes is an
    argument. \<open>VirtualTablesSafety\<close>: a table is created as its plugin describes it, a scan gets exactly the accepted constraints and
    the used columns and shows every row once, required columns are enforced, values of changes are checked; what a second scan of a
    plan and the reading of an alias lose.
  \<^item> \<open>Texts\<close>: \<open>utils/conversions/split\<close>, \<open>trim\<close>, \<open>join\<close>, \<open>utils/info/version.cpp\<close>,
    \<open>utils/info/platform_type\<close>, \<open>checkPlatform\<close> of \<open>core/system.cpp\<close>. The record \<open>boost_lib\<close> holds boost's
    string algorithms and \<open>boost_ok\<close> what is used of them.
  \<^item> \<open>Packs\<close>: \<open>config/packs\<close>. Schedules of packs are well formed, splays are stable, discovery is cached.
  \<^item> \<open>QueryPerformances\<close>: \<open>core/sql/query_performance\<close> and the update of the statistics.
  \<^item> \<open>Config\<close>: \<open>config/config.cpp\<close>, \<open>enforceEventsDenylist\<close> of \<open>events/events.cpp\<close>: the schedule, the
    denylist, sources, validation, backups, expiration, refresh, the plugin call.
  \<^item> \<open>PrefixScans\<close>: scans of the database by prefix as a locale, interpreted on the ephemeral plugin (\<open>ephp\<close>).
  \<^item> \<open>ConfigSafety\<close>: a crashed query is denied, backups are exact, what a purge removes.
  \<^item> \<open>ConfigRefresh\<close>: what an update keeps, rejected sources, the pace of the refresh thread.
  \<^item> \<open>DistributedQueries\<close>: \<open>distributed/distributed.cpp\<close> and \<open>dispatcher/distributed_runner.cpp\<close>: queries
    sent by a server, their running marks and their results. \<open>DistributedSafety\<close> shows that accepted
    queries are answered once, that results are kept until taken, and which fatal queries are denied.
  \<^item> \<open>Events\<close>: \<open>events/eventsubscriberplugin\<close>: the rows of events in the database, the index from times to
    identifiers, overflow and expiration, queries that get only what is new. \<open>EventsSafety\<close>: every query has
    a queue of its own as long as events come in order, and what happens to late ones. \<open>EventsStorage\<close>: index
    and store agree, the index is bounded, what expires. \<open>EventsRestart\<close>: the index is rebuilt as it was.
  \<^item> \<open>EventPublishers\<close>: \<open>events/eventfactory\<close>, \<open>events/eventpublisherplugin\<close>, \<open>events/eventsubscriber.h\<close> and
    \<open>attachEvents\<close>: publishers and subscribers, their states and subscriptions, firing, the publishers' threads.
    \<open>EventPublishersSafety\<close>: the steps of the factory as an inductive relation; who gets an event, what a
    configuration update sets, how threads end.
  \<^item> \<open>PathSets\<close>: \<open>patternedPath\<close> of \<open>events/pathset.h\<close>: when a pattern and a path are equivalent, and where the comparison
    is not an order.
  \<^item> \<open>Watcher\<close>: \<open>core/watcher\<close>, \<open>process/posix/process.cpp\<close>, \<open>PlatformProcess::cleanup\<close>: the watchdog that measures,
    stops and replaces the worker and the extensions. The operating system is the record \<open>os_env\<close> of functions on
    a state of any type. \<open>WatcherSafety\<close>: when a child is signalled, how it is reaped, what counts as too much
    use of the processor, how often a worker is replaced.
  \<^item> \<open>BufferedLogs\<close>: \<open>plugins/logger/buffered\<close>: log lines kept in the database until a receiver has taken them.
    \<open>BufferedLogsSafety\<close>: the buffer as a bag of lines, over the locale \<open>limited_scans\<close> interpreted on the
    ephemeral plugin (\<open>ephl\<close>): lines are delivered exactly once, the buffer is bounded, the oldest lines go first.
  \<^item> \<open>StatusLogs\<close>: \<open>logger/logger.cpp\<close> and \<open>core/plugins/logger.cpp\<close>: the buffered status lines of the process, their relay to
    the logger plugins, results and snapshots. \<open>StatusLogsSafety\<close>: status lines are delivered once and in order; a logger
    that does not answer is taken for one that takes them.
  \<^item> \<open>Dispatching\<close>: \<open>dispatcher/dispatcher\<close>: the threads of services as an inductive step relation; a stop reaches every
    service, a shutdown ends, and what a service added twice does.
  \<^item> \<open>AuditRecords\<close>: \<open>events/linux/auditdnetlink\<close> and \<open>events/linux/auditeventpublisher\<close>: the threads that read the
    messages of the kernel's audit system, parse them into records and assemble records into events. The netlink
    socket is the sequence of what \<open>poll\<close> and \<open>recvfrom\<close> give. \<open>AuditTables\<close>: the subscribers \<open>process_events\<close>, with the
    ancestry of processes read from \<open>/proc\<close>, \<open>socket_events\<close>, \<open>user_events\<close>, \<open>selinux_events\<close> and \<open>apparmor_events\<close>
    under \<open>tables/events/linux\<close>; every read of a file may give something else.
  \<^item> \<open>AuditSafety\<close>: assembling as a machine for each identifier (the locale \<open>keyed_machine\<close>, interpreted as \<open>asm\<close>), so
    that interleaved records give the events of each identifier alone; the threads as an inductive relation, whose
    queues lose nothing and are bounded; messages are parsed as they were written. \<open>AncestrySafety\<close>: the ancestry is
    the chain of parents where names have no blanks, what it costs, how a name forges a parent; the command line; the
    columns of the rows. \<open>SocketSafety\<close>: socket addresses are shown as they are.

  \<^bold>\<open>Conventions.\<close> A class is a record and a method a function that returns the updated record. A thrown
  exception, a failed assertion and undefined behaviour are values on the left of a sum; a \<open>Status\<close> is
  an ordinary value. Machine integers keep their width where it matters (\<open>u64\<close>, \<open>u32\<close>); signed values
  carry their range in the statements. Strings are lists of bytes, and what goes through a C string ends
  at its first NUL. Doubles are rationals with printing as an argument.

  \<^bold>\<open>Fuel.\<close> The scheduler's loop takes fuel because it may be configured to run for ever; with a timeout
  its fuel is proved to be enough. So does the loop of a publisher's thread, which ends when it is told to or a
  turn fails, the watch loop, the loop that waits for the launcher's death, and the two loops of the log
  forwarder, of which the inner one is proved to end. The retries that open a database are bounded by the code itself. All
  other loops are structural.

  \<^bold>\<open>Not modelled.\<close> Locks (an operation is one step), logging to the terminal, performance counters,
  SQLite itself and the statements that attach tables to it, RocksDB, thrift, the rules the audit publisher installs in the kernel, the
  subscribers of files and of seccomp, and the reading of the operating system by the other tables. Third-party code the
  model calls is a parameter with named hypotheses.
\<close>

end
